(* ===== verification/Prelude.thy ===== *)
theory Prelude
  imports Main "HOL-Library.List_Lexorder" "HOL-Library.Char_ord"
begin

text \<open>
  Shared vocabulary of the development: the names of the model's basic types, the collections
  that the component proofs feed to the simplifier, and the facts about lists, options and index
  arithmetic that more than one component needs. Nothing here models a particular source file.

  \<^item> \<open>instant\<close> and \<open>duration\<close> are nanosecond counts, the representation of Go's
    \<open>time.Time\<close> on the UTC line and of \<open>time.Duration\<close>. The code under study only
    compares, adds and subtracts them.
  \<^item> a Go call that returns \<open>(value, error)\<close> is a value of a sum type, \<open>Inl\<close> for the
    error branch.
\<close>

type_synonym instant = int
type_synonym duration = int

text \<open>\<open>guards\<close> collects the early-return guards of the operations, \<open>frames\<close> the facts saying which
  fields an operation leaves alone.\<close>

named_theorems frames
named_theorems guards

definition seconds :: "int \<Rightarrow> duration" where
  "seconds n = n * 1000000000"

definition minutes :: "int \<Rightarrow> duration" where
  "minutes n = seconds (60 * n)"

lemma seconds_mono [simp]: "seconds a \<le> seconds b \<longleftrightarrow> a \<le> b"
  by (simp add: seconds_def)

lemma seconds_pos [simp]: "0 < seconds n \<longleftrightarrow> 0 < n"
  by (simp add: seconds_def)

subsection \<open>Circular indices\<close>

lemma ring_index_inj:
  assumes "i < n" and "j < n" and "(h + i) mod n = (h + j) mod (n::nat)"
  shows "i = j"
  using assms
proof (induction i j rule: linorder_wlog)
  case (le i j)
  then have "n dvd (h + j) - (h + i)"
    using mod_eq_dvd_iff_nat [of "h + i" "h + j" n] by (simp del: diff_cancel)
  then have "n dvd j - i" by simp
  with le show ?case
    using nat_dvd_not_less [of "j - i" n] by fastforce
next
  case (sym i j)
  then show ?case by metis
qed

lemma ring_index_bound: "0 < n \<Longrightarrow> (h + i) mod n < (n::nat)"
  by simp

lemma ring_index_Suc: "(Suc h mod n + i) mod n = (h + Suc i) mod (n::nat)"
  by (simp add: mod_add_left_eq)

lemma ring_index_surj:
  assumes "j < n" and "h < (n::nat)"
  obtains i where "i < n" and "(h + i) mod n = j"
proof (cases "h \<le> j")
  case True
  with assms that [of "j - h"] show ?thesis by simp
next
  case False
  with assms that [of "n + j - h"] show ?thesis by simp
qed

subsection \<open>Lists as removal targets\<close>

lemma remove1_middle: "x \<notin> set ys \<Longrightarrow> remove1 x (ys @ x # zs) = ys @ zs"
  by (induction ys) auto

lemma filter_remove1_distinct:
  "distinct xs \<Longrightarrow> remove1 x xs = filter (\<lambda>y. y \<noteq> x) xs"
  by (simp add: distinct_remove1_removeAll removeAll_filter_not_eq neq_commute)

lemma sum_list_remove1_nat:
  "x \<in> set xs \<Longrightarrow> (\<Sum>y\<leftarrow>remove1 x xs. f y) = (\<Sum>y\<leftarrow>xs. f y) - (f x :: nat)"
  by (induction xs) (auto simp: member_le_sum_list)

lemma sum_list_remove1_int:
  "x \<in> set xs \<Longrightarrow> (\<Sum>y\<leftarrow>remove1 x xs. f y) = (\<Sum>y\<leftarrow>xs. f y) - (f x :: int)"
  by (induction xs) auto

subsection \<open>Splitting\<close>

text \<open>\<open>strings.Split\<close> with a one-character separator: never empty, and joining gives the text back.\<close>

fun split_on :: "char \<Rightarrow> string \<Rightarrow> string list" where
  "split_on c [] = [[]]"
| "split_on c (x # xs) =
     (if x = c then [] # split_on c xs
      else case split_on c xs of [] \<Rightarrow> [[x]] | w # ws \<Rightarrow> (x # w) # ws)"

lemma split_on_not_empty [simp]: "split_on c s \<noteq> []"
  by (induction s) (auto split: list.splits)

lemma split_on_no_sep: "c \<notin> set s \<Longrightarrow> split_on c s = [s]"
  by (induction s) auto

lemma split_on_append:
  "c \<notin> set a \<Longrightarrow> split_on c (a @ c # s) = a # split_on c s"
  by (induction a) auto

subsection \<open>Trimming\<close>

text \<open>\<open>strings.TrimSpace\<close>: a Go string is its bytes, and Unicode's white space goes from both ends. These are the UTF-8
  encodings of it; as the lead byte of an encoding is never inside another, a run of them at an end of the string is
  what the decoder finds there.\<close>

definition space_codes :: "string list" where
  "space_codes =
     map (\<lambda>c. [c]) [CHR 0x09, CHR 0x0A, CHR 0x0B, CHR 0x0C, CHR 0x0D, CHR 0x20]
     @ map (\<lambda>c. [CHR 0xC2, c]) [CHR 0x85, CHR 0xA0] @ [[CHR 0xE1, CHR 0x9A, CHR 0x80]]
     @ map (\<lambda>c. [CHR 0xE2, CHR 0x80, c])
         [CHR 0x80, CHR 0x81, CHR 0x82, CHR 0x83, CHR 0x84, CHR 0x85, CHR 0x86, CHR 0x87, CHR 0x88, CHR 0x89, CHR 0x8A,
          CHR 0xA8, CHR 0xA9, CHR 0xAF]
     @ [[CHR 0xE2, CHR 0x81, CHR 0x9F], [CHR 0xE3, CHR 0x80, CHR 0x80]]"

definition starts_with :: "string \<Rightarrow> string \<Rightarrow> bool" where
  "starts_with s g \<longleftrightarrow> g \<noteq> [] \<and> take (length g) s = g"

function trim_left :: "string list \<Rightarrow> string \<Rightarrow> string" where
  "trim_left codes s =
     (case find (starts_with s) codes of None \<Rightarrow> s | Some g \<Rightarrow> trim_left codes (drop (length g) s))"
  by pat_completeness auto
termination
proof (relation "measure (\<lambda>(codes, s). length s)")
  fix codes s g assume "find (starts_with s) codes = Some g"
  then have g: "g \<noteq> []" "take (length g) s = g" by (auto simp: find_Some_iff starts_with_def)
  then have "s \<noteq> []" by auto
  with g show "((codes, drop (length g) s), codes, s) \<in> measure (\<lambda>(codes, s). length s)" by simp
qed simp

declare trim_left.simps [simp del]

definition trim_space :: "string \<Rightarrow> string" where
  "trim_space s = rev (trim_left (map rev space_codes) (rev (trim_left space_codes s)))"

lemma trim_left_clean: "\<forall>g \<in> set codes. \<not> starts_with s g \<Longrightarrow> trim_left codes s = s"
  by (subst trim_left.simps) (simp add: find_None_iff [THEN iffD2] split: option.split)

lemma trim_left_suffix: "\<exists>p. s = p @ trim_left codes s"
proof (induction codes s rule: trim_left.induct)
  case (1 codes s)
  show ?case
  proof (cases "find (starts_with s) codes")
    case None
    then show ?thesis by (subst trim_left.simps) simp
  next
    case (Some g)
    from 1 [OF Some] obtain p where "drop (length g) s = p @ trim_left codes (drop (length g) s)" by blast
    then have "s = (take (length g) s @ p) @ trim_left codes (drop (length g) s)"
      by (metis append_assoc append_take_drop_id)
    with Some show ?thesis unfolding trim_left.simps [of codes s] by (simp only: option.case) blast
  qed
qed

lemma trim_left_none: "\<forall>g \<in> set codes. \<not> starts_with (trim_left codes s) g"
proof (induction codes s rule: trim_left.induct)
  case (1 codes s)
  show ?case
  proof (cases "find (starts_with s) codes")
    case None
    then have "\<not> (\<exists>g. g \<in> set codes \<and> starts_with s g)" by (simp only: find_None_iff simp_thms)
    with None show ?thesis by (simp add: trim_left.simps [of codes s])
  next
    case (Some g)
    from 1 [OF Some] Some show ?thesis by (subst trim_left.simps) simp
  qed
qed

lemma starts_with_append: "starts_with s g \<Longrightarrow> starts_with (s @ t) g"
  by (auto simp: starts_with_def) (metis length_take min.absorb_iff2 min_def order_refl take_all_iff)

lemma trim_space_idem [simp]: "trim_space (trim_space s) = trim_space s"
proof -
  let ?t = "trim_left space_codes s" and ?codes = "map rev space_codes"
  let ?u = "trim_left ?codes (rev ?t)"
  obtain p where "rev ?t = p @ ?u" using trim_left_suffix by blast
  then have "rev (rev ?t) = rev (p @ ?u)" by simp
  then have t: "?t = rev ?u @ rev p" by (simp only: rev_rev_ident rev_append)
  have "\<not> starts_with (rev ?u) g" if "g \<in> set space_codes" for g
    using trim_left_none [of space_codes s] that starts_with_append [of "rev ?u" g "rev p"] t by auto
  then have "trim_left space_codes (rev ?u) = rev ?u" by (intro trim_left_clean) blast
  moreover have "trim_left ?codes ?u = ?u" by (intro trim_left_clean trim_left_none)
  ultimately show ?thesis by (simp add: trim_space_def)
qed

text \<open>Nothing is trimmed from visible ASCII text.\<close>

lemma trim_space_graph:
  assumes "\<forall>c \<in> set s. 33 \<le> (of_char c :: nat) \<and> of_char c < (128 :: nat)"
  shows "trim_space s = s"
proof -
  have codes: "\<forall>g \<in> set space_codes. \<forall>c \<in> set g. \<not> (33 \<le> (of_char c :: nat) \<and> of_char c < (128 :: nat))"
    unfolding space_codes_def by (simp del: of_char_Char) (simp add: of_char_Char)
  have none: "\<not> starts_with t g" if "set t \<subseteq> set s" "g \<in> set space_codes \<or> rev g \<in> set space_codes" for t g
  proof
    assume "starts_with t g"
    then have g: "g \<noteq> []" "take (length g) t = g" by (simp_all add: starts_with_def)
    then have "hd g \<in> set g" "hd g \<in> set t" by (simp, metis hd_in_set in_set_takeD)
    with assms that(1) have "33 \<le> (of_char (hd g) :: nat) \<and> of_char (hd g) < (128 :: nat)" by blast
    with codes that(2) \<open>hd g \<in> set g\<close> show False by (metis set_rev)
  qed
  have "trim_left space_codes s = s" using none [of s] by (intro trim_left_clean) blast
  moreover have "trim_left (map rev space_codes) (rev s) = rev s"
    using none [of "rev s"] by (intro trim_left_clean) auto
  ultimately show ?thesis by (simp add: trim_space_def)
qed

lemma trim_space_Nil [simp]: "trim_space [] = []"
  by (rule trim_space_graph) simp

subsection \<open>Signed 64-bit arithmetic\<close>

text \<open>What a Go \<open>int64\<close> operation gives for the exact result \<open>n\<close>.\<close>

definition wrap64 :: "int \<Rightarrow> int" where
  "wrap64 n = (n + 9223372036854775808) mod 18446744073709551616 - 9223372036854775808"

lemma wrap64_id: "- 9223372036854775808 \<le> n \<Longrightarrow> n < 9223372036854775808 \<Longrightarrow> wrap64 n = n"
  by (simp add: wrap64_def)

subsection \<open>Guards in sequence, and ranging over a map\<close>

text \<open>A run of checks that each return an error or nothing: the first error wins.\<close>

fun first_err :: "'e option list \<Rightarrow> 'e option" where
  "first_err [] = None"
| "first_err (None # es) = first_err es"
| "first_err (Some e # es) = Some e"

lemma first_err_None [simp]: "first_err es = None \<longleftrightarrow> (\<forall>e \<in> set es. e = None)"
  by (induction es rule: first_err.induct) auto

text \<open>The order in which Go's \<open>range\<close> visits a map is not specified. A model that ranges over a
  map takes the order as an argument: \<open>go_range ord\<close> says that it visits every key once.\<close>

definition go_range :: "('k set \<Rightarrow> 'k list) \<Rightarrow> bool" where
  "go_range ord \<longleftrightarrow> (\<forall>S. finite S \<longrightarrow> distinct (ord S) \<and> set (ord S) = S)"

lemma go_range_sorted: "go_range (sorted_list_of_set :: 'k::linorder set \<Rightarrow> 'k list)"
  by (simp add: go_range_def)

lemma go_rangeD: "go_range ord \<Longrightarrow> finite S \<Longrightarrow> distinct (ord S) \<and> set (ord S) = S"
  by (simp add: go_range_def)

text \<open>A loop that threads a state and stops at the first error.\<close>

fun each_err :: "('x \<Rightarrow> 's \<Rightarrow> 'e + 's) \<Rightarrow> 'x list \<Rightarrow> 's \<Rightarrow> 'e + 's" where
  "each_err f [] s = Inr s"
| "each_err f (x # xs) s = (case f x s of Inl e \<Rightarrow> Inl e | Inr s' \<Rightarrow> each_err f xs s')"

lemma each_err_append:
  "each_err f (xs @ ys) s = (case each_err f xs s of Inl e \<Rightarrow> Inl e | Inr s' \<Rightarrow> each_err f ys s')"
  by (induction xs arbitrary: s) (auto split: sum.splits)

lemma each_err_invariant:
  assumes "each_err f xs s = Inr s'" and "I s"
    and "\<And>x t t'. x \<in> set xs \<Longrightarrow> I t \<Longrightarrow> f x t = Inr t' \<Longrightarrow> I t'"
  shows "I s'"
  using assms
proof (induction xs arbitrary: s)
  case (Cons x xs)
  then obtain t where "f x s = Inr t" "each_err f xs t = Inr s'" by (auto split: sum.splits)
  with Cons.IH [of t] Cons.prems show ?case by (meson list.set_intros)
qed simp

lemma each_err_total:
  assumes "I s" and "\<And>x t. x \<in> set xs \<Longrightarrow> I t \<Longrightarrow> \<exists>t'. f x t = Inr t' \<and> I t'"
  shows "\<exists>s'. each_err f xs s = Inr s' \<and> I s'"
  using assms
proof (induction xs arbitrary: s)
  case (Cons x xs)
  then obtain t where "f x s = Inr t" "I t" by (meson list.set_intros(1))
  with Cons.IH [of t] Cons.prems(2) show ?case by auto
qed simp

lemma each_err_establish:
  assumes "each_err f xs s = Inr s'" and "I s"
    and "\<And>x t t'. x \<in> set xs \<Longrightarrow> I t \<Longrightarrow> f x t = Inr t' \<Longrightarrow> I t' \<and> P x t' \<and> (\<forall>y. P y t \<longrightarrow> P y t')"
  shows "I s' \<and> (\<forall>x \<in> set xs. P x s') \<and> (\<forall>y. P y s \<longrightarrow> P y s')"
  using assms
proof (induction xs arbitrary: s)
  case (Cons x xs)
  then obtain t where t: "f x s = Inr t" "each_err f xs t = Inr s'" by (auto split: sum.splits)
  from Cons.prems(2-3) t(1) have step: "I t" "P x t" "\<forall>y. P y s \<longrightarrow> P y t" by auto
  have "I s' \<and> (\<forall>x \<in> set xs. P x s') \<and> (\<forall>y. P y t \<longrightarrow> P y s')"
    by (rule Cons.IH [OF t(2) step(1)], rule Cons.prems(3)) auto
  with step show ?case by auto
qed simp

lemma each_err_cong [fundef_cong]:
  "xs = ys \<Longrightarrow> s = t \<Longrightarrow> (\<And>x u. x \<in> set ys \<Longrightarrow> f x u = g x u) \<Longrightarrow> each_err f xs s = each_err g ys t"
  by (induction ys arbitrary: xs s t) (auto split: sum.splits)

subsection \<open>Tables\<close>

text \<open>A table is the list of its rows. \<open>update_rows P f\<close> is \<open>UPDATE ... SET f WHERE P\<close> and \<open>rows_affected P\<close>
  the count it returns.\<close>

definition update_rows :: "('r \<Rightarrow> bool) \<Rightarrow> ('r \<Rightarrow> 'r) \<Rightarrow> 'r list \<Rightarrow> 'r list" where
  "update_rows P f rows = map (\<lambda>r. if P r then f r else r) rows"

definition rows_affected :: "('r \<Rightarrow> bool) \<Rightarrow> 'r list \<Rightarrow> nat" where
  "rows_affected P rows = length (filter P rows)"

lemma update_rows_set:
  "r' \<in> set (update_rows P f rows) \<longleftrightarrow> (\<exists>r \<in> set rows. r' = (if P r then f r else r))"
  by (auto simp: update_rows_def)

lemma update_rows_in: "r \<in> set rows \<Longrightarrow> (if P r then f r else r) \<in> set (update_rows P f rows)"
  by (auto simp: update_rows_def)

lemma update_rows_map: "(\<And>r. P r \<Longrightarrow> g (f r) = g r) \<Longrightarrow> map g (update_rows P f rows) = map g rows"
  by (auto simp: update_rows_def)

lemma update_rows_none: "rows_affected P rows = 0 \<Longrightarrow> update_rows P f rows = rows"
  by (auto simp: update_rows_def rows_affected_def filter_empty_conv intro!: map_idI)

lemma find_key_Some:
  assumes "find P xs = Some x" shows "x \<in> set xs" "P x"
  using assms by (auto simp: find_Some_iff)

lemma find_key_None: "find P xs = None \<longleftrightarrow> (\<forall>x \<in> set xs. \<not> P x)"
  by (auto simp: find_None_iff)

lemma find_unique:
  assumes "distinct (map f xs)" "x \<in> set xs"
  shows "find (\<lambda>r. f r = f x) xs = Some x"
  using assms by (induction xs) (auto simp: image_iff)

lemma rows_affected_key:
  assumes "distinct (map k rows)" and "\<And>r. P r \<Longrightarrow> k r = i"
  shows "rows_affected P rows = (if \<exists>r \<in> set rows. P r then 1 else 0)"
  using assms(1)
proof (induction rows)
  case (Cons r rows)
  have "\<not> (\<exists>r' \<in> set rows. P r')" if "P r"
    using Cons.prems assms(2) that by (auto simp: image_iff)
  with Cons show ?case by (auto simp: rows_affected_def)
qed (simp add: rows_affected_def)

subsection \<open>Character classes\<close>

definition lower_letter :: "char \<Rightarrow> bool" where
  "lower_letter c \<longleftrightarrow> CHR ''a'' \<le> c \<and> c \<le> CHR ''z''"

definition digit_char :: "char \<Rightarrow> bool" where
  "digit_char c \<longleftrightarrow> CHR ''0'' \<le> c \<and> c \<le> CHR ''9''"

definition upper_letter :: "char \<Rightarrow> bool" where
  "upper_letter c \<longleftrightarrow> CHR ''A'' \<le> c \<and> c \<le> CHR ''Z''"

definition lower_alnum :: "char \<Rightarrow> bool" where
  "lower_alnum c \<longleftrightarrow> lower_letter c \<or> digit_char c"

end
