(* ===== verification/Workflow_Types.thy ===== *)
theory Workflow_Types
  imports Prelude
begin

text \<open>
  The vocabulary of the workflow capability (\<open>api/internal/capabilities/workflow\<close>): its error
  values with Go's wrapping and joining (\<open>errors.Is\<close> walks both), the serialised job envelope
  of \<open>queue.go\<close>, and the registered job values with the optional interfaces a job may implement.
\<close>

subsection \<open>Errors\<close>

text \<open>The sentinels of \<open>queue.go\<close>, \<open>workflow.go\<close> and \<open>postgres_operations.go\<close>, the context
  errors, what a handler or the database returns, and the two ways the code builds errors from
  errors (\<open>fmt.Errorf\<close> with \<open>%w\<close>, \<open>errors.Join\<close>).\<close>

datatype wf_error =
    ErrNilJob
  | ErrNilTask
  | ErrMaxAttemptsExceeded
  | ErrQueueEmpty
  | ErrDriverClosed
  | ErrIdempotencyConflict
  | ErrLeaseLost
  | ErrTaskNotFound
  | ErrTaskNotRetryable
  | CtxCanceled
  | CtxDeadlineExceeded
  | HandlerErr string
  | StoreErr string
  | Errorf string
  | WrapErr string wf_error
  | JoinErr wf_error wf_error

fun errors_is :: "wf_error \<Rightarrow> wf_error \<Rightarrow> bool" where
  "errors_is (WrapErr s e) t = (WrapErr s e = t \<or> errors_is e t)"
| "errors_is (JoinErr e1 e2) t = (JoinErr e1 e2 = t \<or> errors_is e1 t \<or> errors_is e2 t)"
| "errors_is e t = (e = t)"

lemma errors_is_refl [simp]: "errors_is e e"
  by (cases e) auto

lemma errors_is_wrap: "errors_is e t \<Longrightarrow> errors_is (WrapErr s e) t"
  by simp

subsection \<open>Job payloads\<close>

record 'd job_payload =
  jp_id :: string
  jp_type :: string
  jp_data :: 'd
  jp_attempts :: int
  jp_maxRetries :: int
  jp_idempotencyKey :: string
  jp_traceParent :: string
  jp_traceState :: string
  jp_createdAt :: instant

text \<open>A job value as the queue sees it: the name of its dynamic type, its JSON data, and what it
  returns where it implements \<open>JobWithQueue\<close>, \<open>JobWithDelay\<close>, \<open>JobWithRetry\<close> and
  \<open>JobWithIdempotencyKey\<close> (\<open>None\<close> where it does not).\<close>

record 'd job =
  job_typeName :: string
  job_data :: 'd
  job_queue :: "string option"
  job_delay :: "duration option"
  job_maxRetries :: "int option"
  job_retryDelay :: "duration option"
  job_idempotencyKey :: "string option"

end
