(* ===== verification/Ring_Queue.thy ===== *)
theory Ring_Queue
  imports Workflow_Types
begin

text \<open>
  The ring buffer behind \<open>MemoryDriver\<close> (type \<open>memoryQueue\<close> of
  \<open>api/internal/capabilities/workflow/queue.go\<close>) and the contract of a first-in first-out
  queue. A slot holds \<open>None\<close> for Go's \<open>nil\<close>; a signal channel has capacity one, so its
  content is one bit. \<open>mq_abs\<close> reads the live window as a list, and the ring operations refine
  the list operations under \<open>mq_wf\<close>.
\<close>

subsection \<open>The FIFO contract\<close>

locale fifo =
  fixes abs :: "'q \<Rightarrow> 'a list"
    and inv :: "'q \<Rightarrow> bool"
    and room :: "'q \<Rightarrow> bool"
    and enq :: "'q \<Rightarrow> 'a \<Rightarrow> 'q"
    and deq :: "'q \<Rightarrow> 'a option \<times> 'q"
  assumes enq_inv: "inv q \<Longrightarrow> room q \<Longrightarrow> inv (enq q x)"
    and enq_abs: "inv q \<Longrightarrow> room q \<Longrightarrow> abs (enq q x) = abs q @ [x]"
    and deq_inv: "inv q \<Longrightarrow> abs q \<noteq> [] \<Longrightarrow> inv (snd (deq q))"
    and deq_fst: "inv q \<Longrightarrow> abs q = y # ys \<Longrightarrow> fst (deq q) = Some y"
    and deq_abs: "inv q \<Longrightarrow> abs q = y # ys \<Longrightarrow> abs (snd (deq q)) = ys"
begin

primrec enq_all :: "'q \<Rightarrow> 'a list \<Rightarrow> 'q" where
  "enq_all q [] = q"
| "enq_all q (x # xs) = enq_all (enq q x) xs"

primrec deq_n :: "nat \<Rightarrow> 'q \<Rightarrow> 'a option list \<times> 'q" where
  "deq_n 0 q = ([], q)"
| "deq_n (Suc n) q = (let (r, q') = deq q; (rs, q'') = deq_n n q' in (r # rs, q''))"

lemma deq_n_fifo:
  "inv q \<Longrightarrow> abs q = xs @ ys \<Longrightarrow>
     fst (deq_n (length xs) q) = map Some xs \<and> abs (snd (deq_n (length xs) q)) = ys
       \<and> inv (snd (deq_n (length xs) q))"
proof (induction xs arbitrary: q)
  case Nil
  then show ?case by simp
next
  case (Cons x xs)
  then have "fst (deq q) = Some x" "abs (snd (deq q)) = xs @ ys" "inv (snd (deq q))"
    using deq_fst deq_abs deq_inv by (simp_all add: Cons.prems)
  with Cons.IH [of "snd (deq q)"] show ?case
    by (simp add: split_beta Let_def)
qed

end

subsection \<open>The ring\<close>

record 'a memory_queue =
  mq_items :: "'a option list"
  mq_head :: nat
  mq_size :: nat
  mq_notEmpty :: bool
  mq_notFull :: bool

definition set_queue_signal :: "bool \<Rightarrow> bool \<Rightarrow> bool" where
  "set_queue_signal signal ready =
     (if ready then (if \<not> signal then True else signal)
      else (if signal then False else signal))"

definition sync_signals :: "'a memory_queue \<Rightarrow> 'a memory_queue" where
  "sync_signals q =
     q\<lparr>mq_notEmpty := set_queue_signal (mq_notEmpty q) (mq_size q > 0),
       mq_notFull := set_queue_signal (mq_notFull q) (mq_size q < length (mq_items q))\<rparr>"

definition new_memory_queue :: "nat \<Rightarrow> 'a memory_queue" where
  "new_memory_queue capacity =
     sync_signals \<lparr>mq_items = replicate capacity None, mq_head = 0, mq_size = 0,
                   mq_notEmpty = False, mq_notFull = False\<rparr>"

definition enqueue :: "'a memory_queue \<Rightarrow> 'a \<Rightarrow> 'a memory_queue" where
  "enqueue q payload =
     (let index = (mq_head q + mq_size q) mod length (mq_items q)
      in sync_signals (q\<lparr>mq_items := (mq_items q)[index := Some payload],
                         mq_size := mq_size q + 1\<rparr>))"

definition dequeue :: "'a memory_queue \<Rightarrow> 'a option \<times> 'a memory_queue" where
  "dequeue q =
     (let payload = mq_items q ! mq_head q
      in (payload,
          sync_signals (q\<lparr>mq_items := (mq_items q)[mq_head q := None],
                          mq_head := (mq_head q + 1) mod length (mq_items q),
                          mq_size := mq_size q - 1\<rparr>)))"

definition clear_queue :: "'a memory_queue \<Rightarrow> 'a memory_queue" where
  "clear_queue q =
     sync_signals (q\<lparr>mq_items := map (\<lambda>_. None) (mq_items q), mq_head := 0, mq_size := 0\<rparr>)"

definition mq_room :: "'a memory_queue \<Rightarrow> bool" where
  "mq_room q \<longleftrightarrow> mq_size q < length (mq_items q)"

subsection \<open>Representation invariant and abstraction\<close>

definition mq_slot :: "'a memory_queue \<Rightarrow> nat \<Rightarrow> 'a option" where
  "mq_slot q i = mq_items q ! ((mq_head q + i) mod length (mq_items q))"

definition mq_wf :: "'a memory_queue \<Rightarrow> bool" where
  "mq_wf q \<longleftrightarrow>
     0 < length (mq_items q) \<and> mq_head q < length (mq_items q)
     \<and> mq_size q \<le> length (mq_items q)
     \<and> (\<forall>i < length (mq_items q). mq_slot q i \<noteq> None \<longleftrightarrow> i < mq_size q)"

definition mq_abs :: "'a memory_queue \<Rightarrow> 'a list" where
  "mq_abs q = map (\<lambda>i. the (mq_slot q i)) [0..<mq_size q]"

lemma set_queue_signal [simp]: "set_queue_signal s ready = ready"
  by (simp add: set_queue_signal_def)

lemma sync_signals_simps [simp]:
  "mq_items (sync_signals q) = mq_items q"
  "mq_head (sync_signals q) = mq_head q"
  "mq_size (sync_signals q) = mq_size q"
  "mq_notEmpty (sync_signals q) = (mq_size q > 0)"
  "mq_notFull (sync_signals q) = (mq_size q < length (mq_items q))"
  by (simp_all add: sync_signals_def)

lemma mq_slot_sync [simp]: "mq_slot (sync_signals q) i = mq_slot q i"
  by (simp add: mq_slot_def)

lemma mq_wf_sync [simp]: "mq_wf (sync_signals q) = mq_wf q"
  by (simp add: mq_wf_def)

lemma mq_abs_sync [simp]: "mq_abs (sync_signals q) = mq_abs q"
  by (simp add: mq_abs_def)

lemma length_mq_abs [simp]: "length (mq_abs q) = mq_size q"
  by (simp add: mq_abs_def)

lemma mq_abs_Nil [simp]: "mq_abs q = [] \<longleftrightarrow> mq_size q = 0"
  by (simp add: mq_abs_def)

lemma mq_wf_new: "0 < n \<Longrightarrow> mq_wf (new_memory_queue n)"
  by (simp add: new_memory_queue_def mq_wf_def mq_slot_def)

lemma mq_abs_new [simp]: "mq_abs (new_memory_queue n) = []"
  by (simp add: new_memory_queue_def)

lemma mq_capacity [simp]:
  "length (mq_items (enqueue q x)) = length (mq_items q)"
  "length (mq_items (snd (dequeue q))) = length (mq_items q)"
  "length (mq_items (clear_queue q)) = length (mq_items q)"
  "length (mq_items (new_memory_queue n)) = n"
  by (simp_all add: enqueue_def dequeue_def clear_queue_def new_memory_queue_def Let_def)

lemma enqueue_slot:
  assumes "mq_wf q" "mq_room q" "i < length (mq_items q)"
  shows "mq_slot (enqueue q x) i = (if i = mq_size q then Some x else mq_slot q i)"
proof -
  have "(mq_head q + mq_size q) mod length (mq_items q) = (mq_head q + i) mod length (mq_items q)
          \<longleftrightarrow> mq_size q = i"
    using assms ring_index_inj [of "mq_size q" "length (mq_items q)" i "mq_head q"]
    by (auto simp: mq_room_def)
  with assms show ?thesis
    by (auto simp: enqueue_def Let_def mq_slot_def mq_wf_def nth_list_update)
qed

lemma dequeue_slot:
  assumes "mq_wf q" "0 < mq_size q" "i < length (mq_items q)"
  shows "mq_slot (snd (dequeue q)) i =
           (if Suc i = length (mq_items q) then None else mq_slot q (Suc i))"
proof (cases "Suc i = length (mq_items q)")
  case True
  then have "(mq_head q + Suc i) mod length (mq_items q) = mq_head q"
    using assms by (simp add: mq_wf_def)
  with True assms show ?thesis
    by (simp add: dequeue_def mq_slot_def mq_wf_def ring_index_Suc)
next
  case False
  with assms have "Suc i < length (mq_items q)" by simp
  moreover have "(mq_head q + 0) mod length (mq_items q) = mq_head q"
    using assms by (simp add: mq_wf_def)
  ultimately have "(mq_head q + Suc i) mod length (mq_items q) \<noteq> mq_head q"
    using ring_index_inj [of "Suc i" "length (mq_items q)" 0 "mq_head q"] by force
  with False assms show ?thesis
    by (simp add: dequeue_def mq_slot_def mq_wf_def ring_index_Suc)
qed

lemma enqueue_size [simp]: "mq_size (enqueue q x) = Suc (mq_size q)"
  by (simp add: enqueue_def Let_def)

lemma dequeue_size [simp]: "mq_size (snd (dequeue q)) = mq_size q - 1"
  by (simp add: dequeue_def)

lemma clear_size [simp]: "mq_size (clear_queue q) = 0"
  by (simp add: clear_queue_def)

lemma enqueue_head [simp]: "mq_head (enqueue q x) = mq_head q"
  by (simp add: enqueue_def Let_def)

lemma enqueue_wf:
  assumes "mq_wf q" "mq_room q"
  shows "mq_wf (enqueue q x)"
proof -
  have "mq_slot (enqueue q x) i \<noteq> None \<longleftrightarrow> i < mq_size (enqueue q x)"
    if "i < length (mq_items q)" for i
    using enqueue_slot [OF assms that, of x] assms that by (auto simp: mq_wf_def)
  with assms show ?thesis by (simp add: mq_wf_def mq_room_def)
qed

lemma enqueue_abs:
  assumes "mq_wf q" "mq_room q"
  shows "mq_abs (enqueue q x) = mq_abs q @ [x]"
proof -
  have "mq_size q < length (mq_items q)" using assms by (simp add: mq_room_def)
  then show ?thesis
    using enqueue_slot [OF assms] by (simp add: mq_abs_def)
qed

lemma dequeue_wf:
  assumes "mq_wf q" "mq_abs q \<noteq> []"
  shows "mq_wf (snd (dequeue q))"
proof -
  from assms have pos: "0 < mq_size q" by simp
  have "mq_slot (snd (dequeue q)) i \<noteq> None \<longleftrightarrow> i < mq_size q - 1"
    if "i < length (mq_items q)" for i
    using dequeue_slot [OF assms(1) pos that] assms that by (auto simp: mq_wf_def)
  moreover have "mq_head (snd (dequeue q)) < length (mq_items q)"
    using assms by (auto simp: dequeue_def mq_wf_def)
  moreover have "mq_size q - 1 \<le> length (mq_items q)"
    using assms by (auto simp: mq_wf_def)
  ultimately show ?thesis using assms by (simp add: mq_wf_def)
qed

lemma dequeue_fst:
  assumes "mq_wf q" "mq_abs q = y # ys"
  shows "fst (dequeue q) = Some y"
proof -
  from assms have pos: "0 < mq_size q" and sl: "mq_slot q 0 \<noteq> None"
    by (auto simp: mq_wf_def mq_abs_def)
  then have "the (mq_slot q 0) = y"
    using assms(2) by (simp add: mq_abs_def upt_conv_Cons)
  with sl assms(1) show ?thesis
    by (auto simp: dequeue_def mq_slot_def mq_wf_def)
qed

lemma dequeue_abs:
  assumes "mq_wf q" "mq_abs q = y # ys"
  shows "mq_abs (snd (dequeue q)) = ys"
proof -
  from assms(2) have pos: "0 < mq_size q" by (metis length_mq_abs length_Cons zero_less_Suc)
  then have "mq_size q = Suc (mq_size q - 1)" by simp
  then have "[0..<mq_size q] = 0 # map Suc [0..<mq_size q - 1]"
    by (metis map_Suc_upt upt_conv_Cons zero_less_Suc)
  then have ys: "ys = map (\<lambda>i. the (mq_slot q (Suc i))) [0..<mq_size q - 1]"
    using assms(2) by (auto simp: mq_abs_def)
  have "mq_size q \<le> length (mq_items q)" using assms(1) by (simp add: mq_wf_def)
  then have "mq_slot (snd (dequeue q)) i = mq_slot q (Suc i)" if "i < mq_size q - 1" for i
    using dequeue_slot [OF assms(1) pos, of i] that
    by (cases "Suc i = length (mq_items q)") auto
  then show ?thesis
    unfolding ys by (simp add: mq_abs_def)
qed

lemma clear_queue_wf: "mq_wf q \<Longrightarrow> mq_wf (clear_queue q)"
  by (simp add: clear_queue_def mq_wf_def mq_slot_def)

lemma clear_queue_abs [simp]: "mq_abs (clear_queue q) = []"
  by simp

text \<open>The ring is a FIFO queue.\<close>

interpretation ring: fifo mq_abs mq_wf mq_room enqueue dequeue
  by unfold_locales (auto intro: enqueue_wf enqueue_abs dequeue_wf dequeue_fst dequeue_abs)

subsection \<open>Signals\<close>

text \<open>After every operation that holds the queue's lock the two signal channels agree with the
  contents. A waiter that receives a signal takes it out again, which is why the concurrent
  development needs more than this.\<close>

definition signals_synced :: "'a memory_queue \<Rightarrow> bool" where
  "signals_synced q \<longleftrightarrow>
     mq_notEmpty q = (mq_size q > 0) \<and> mq_notFull q = (mq_size q < length (mq_items q))"

lemma signals_synced_ops [simp]:
  "signals_synced (new_memory_queue n)"
  "signals_synced (enqueue q x)"
  "signals_synced (snd (dequeue q))"
  "signals_synced (clear_queue q)"
  by (simp_all add: signals_synced_def new_memory_queue_def enqueue_def dequeue_def
      clear_queue_def Let_def)

end
