(* ===== verification/Memory_Driver.thy ===== *)
theory Memory_Driver
  imports Ring_Queue
begin

text \<open>
  \<open>MemoryDriver\<close> of \<open>api/internal/capabilities/workflow/queue.go\<close>: bounded queues in process
  memory shared by any number of goroutines.

  The first half is the driver's critical sections, one definition per lock-protected stretch of
  the code. The second half composes them into a transition system: a goroutine is a program
  counter, one step is one critical section or one branch taken out of a \<open>select\<close>, and the
  environment may cancel a context or close the driver at any time. A \<open>context.Context\<close> is the
  value its \<open>Err()\<close> returns. The history variables \<open>sys_in\<close> and \<open>sys_gone\<close> record, per
  queue, what was enqueued and what left the queue (with \<open>True\<close> for a payload handed to a caller
  of \<open>Pop\<close>); no step reads them.
\<close>

subsection \<open>The driver and its critical sections\<close>

record 'a memory_driver =
  md_queues :: "string \<rightharpoonup> 'a memory_queue"
  md_bufSize :: nat
  md_closed :: bool
  md_done :: bool
  md_delayedSlots :: nat
  md_operations :: nat

definition new_memory_driver :: "int \<Rightarrow> 'a memory_driver" where
  "new_memory_driver bufferSize =
     (let n = (if bufferSize < 1 then 1 else bufferSize)
      in \<lparr>md_queues = Map.empty, md_bufSize = nat n, md_closed = False, md_done = False,
          md_delayedSlots = 0, md_operations = 0\<rparr>)"

definition begin_operation ::
    "wf_error option \<Rightarrow> 'a memory_driver \<Rightarrow> wf_error + 'a memory_driver" where
  "begin_operation ctx d =
     (if md_closed d then Inl ErrDriverClosed
      else case ctx of Some e \<Rightarrow> Inl e
           | None \<Rightarrow> Inr (d\<lparr>md_operations := md_operations d + 1\<rparr>))"

definition end_operation :: "'a memory_driver \<Rightarrow> 'a memory_driver" where
  "end_operation d = d\<lparr>md_operations := md_operations d - 1\<rparr>"

definition release_slot :: "'a memory_driver \<Rightarrow> 'a memory_driver" where
  "release_slot d = d\<lparr>md_delayedSlots := md_delayedSlots d - 1\<rparr>"

definition get_queue ::
    "string \<Rightarrow> bool \<Rightarrow> 'a memory_driver \<Rightarrow> wf_error + 'a memory_queue option \<times> 'a memory_driver" where
  "get_queue name create d =
     (if md_closed d then Inl ErrDriverClosed
      else case md_queues d name of
             Some q \<Rightarrow> Inr (Some q, d)
           | None \<Rightarrow>
               (if \<not> create then Inr (None, d)
                else let q = new_memory_queue (md_bufSize d)
                     in Inr (Some q, d\<lparr>md_queues := (md_queues d)(name \<mapsto> q)\<rparr>)))"

text \<open>One pass of the \<open>for\<close> loops of \<open>push\<close> and \<open>Pop\<close>, from \<open>Lock\<close> to \<open>Unlock\<close>.
  \<open>None\<close> means the pass ends in the \<open>select\<close>.\<close>

definition push_iter ::
    "bool \<Rightarrow> wf_error option \<Rightarrow> 'a \<Rightarrow> 'a memory_queue \<Rightarrow> (wf_error + unit) option \<times> 'a memory_queue" where
  "push_iter closed ctx payload q =
     (if closed then (Some (Inl ErrDriverClosed), q)
      else case ctx of Some e \<Rightarrow> (Some (Inl e), q)
           | None \<Rightarrow>
               (if mq_size q < length (mq_items q) then (Some (Inr ()), enqueue q payload)
                else (None, q)))"

definition pop_iter ::
    "bool \<Rightarrow> wf_error option \<Rightarrow> 'a memory_queue \<Rightarrow> (wf_error + 'a option) option \<times> 'a memory_queue" where
  "pop_iter closed ctx q =
     (if closed then (Some (Inl ErrDriverClosed), q)
      else case ctx of Some e \<Rightarrow> (Some (Inl e), q)
           | None \<Rightarrow>
               (if mq_size q > 0 then (let (p, q') = dequeue q in (Some (Inr p), q'))
                else (None, q)))"

text \<open>A bounded list queue, and a run of queue operations against the ring and against the list.
  An operation on an open driver with a live context either happens (\<open>Some\<close>) or would have to
  wait (\<open>None\<close>), and then leaves the queue alone.\<close>

datatype 'a qop = QPush 'a | QPop | QClear

fun ring_op :: "'a qop \<Rightarrow> 'a memory_queue \<Rightarrow> 'a option option \<times> 'a memory_queue" where
  "ring_op (QPush x) q =
     (case push_iter False None x q of (None, q') \<Rightarrow> (None, q') | (Some _, q') \<Rightarrow> (Some None, q'))"
| "ring_op QPop q =
     (case pop_iter False None q of
        (Some (Inr p), q') \<Rightarrow> (Some p, q') | (_, q') \<Rightarrow> (None, q'))"
| "ring_op QClear q = (Some None, clear_queue q)"

fun list_op :: "nat \<Rightarrow> 'a qop \<Rightarrow> 'a list \<Rightarrow> 'a option option \<times> 'a list" where
  "list_op cap (QPush x) xs = (if length xs < cap then (Some None, xs @ [x]) else (None, xs))"
| "list_op cap QPop xs = (case xs of [] \<Rightarrow> (None, []) | y # ys \<Rightarrow> (Some (Some y), ys))"
| "list_op cap QClear xs = (Some None, [])"

fun ring_run :: "'a qop list \<Rightarrow> 'a memory_queue \<Rightarrow> 'a option option list" where
  "ring_run [] q = []"
| "ring_run (p # ps) q = (let (r, q') = ring_op p q in r # ring_run ps q')"

fun list_run :: "nat \<Rightarrow> 'a qop list \<Rightarrow> 'a list \<Rightarrow> 'a option option list" where
  "list_run cap [] xs = []"
| "list_run cap (p # ps) xs = (let (r, ys) = list_op cap p xs in r # list_run cap ps ys)"

lemma ring_op_refines:
  assumes "mq_wf q"
  shows "mq_wf (snd (ring_op p q)) \<and> length (mq_items (snd (ring_op p q))) = length (mq_items q)
    \<and> list_op (length (mq_items q)) p (mq_abs q) = (fst (ring_op p q), mq_abs (snd (ring_op p q)))"
proof (cases p)
  case (QPush x)
  with assms show ?thesis
    using ring.enq_inv [of q x] ring.enq_abs [of q x] by (simp add: push_iter_def mq_room_def)
next
  case QPop
  show ?thesis
  proof (cases "mq_abs q")
    case Nil
    moreover from this have "mq_size q = 0" by simp
    ultimately show ?thesis using QPop assms by (simp add: pop_iter_def del: mq_abs_Nil)
  next
    case (Cons y ys)
    moreover from this have "0 < mq_size q" by (metis length_mq_abs length_Cons zero_less_Suc)
    moreover note ring.deq_fst [OF assms Cons] ring.deq_abs [OF assms Cons] ring.deq_inv [OF assms]
    ultimately show ?thesis using QPop by (simp add: pop_iter_def split_beta)
  qed
next
  case QClear
  with assms show ?thesis by (simp add: clear_queue_wf)
qed

lemma ring_run_refines:
  "mq_wf q \<Longrightarrow> ring_run ps q = list_run (length (mq_items q)) ps (mq_abs q)"
proof (induction ps arbitrary: q)
  case Nil
  then show ?case by simp
next
  case (Cons p ps)
  from ring_op_refines [OF Cons.prems, of p] Cons.IH [of "snd (ring_op p q)"]
  show ?case by (simp add: split_beta Let_def)
qed

definition size_section :: "bool \<Rightarrow> 'a memory_queue \<Rightarrow> wf_error + int" where
  "size_section closed q = (if closed then Inl ErrDriverClosed else Inr (int (mq_size q)))"

definition clear_section :: "bool \<Rightarrow> 'a memory_queue \<Rightarrow> (wf_error + unit) \<times> 'a memory_queue" where
  "clear_section closed q =
     (if closed then (Inl ErrDriverClosed, q) else (Inr (), clear_queue q))"

definition close_begin :: "'a memory_driver \<Rightarrow> 'a memory_driver" where
  "close_begin d = d\<lparr>md_closed := True, md_done := True\<rparr>"

definition close_release :: "'a memory_driver \<Rightarrow> 'a memory_driver" where
  "close_release d = d\<lparr>md_queues := Map.empty\<rparr>"

subsection \<open>Whole operations, run alone\<close>

definition set_queue :: "string \<Rightarrow> 'a memory_queue \<Rightarrow> 'a memory_driver \<Rightarrow> 'a memory_driver" where
  "set_queue name q d = d\<lparr>md_queues := (md_queues d)(name \<mapsto> q)\<rparr>"

definition md_push ::
    "wf_error option \<Rightarrow> string \<Rightarrow> 'a \<Rightarrow> 'a memory_driver \<Rightarrow> (wf_error + unit) option \<times> 'a memory_driver" where
  "md_push ctx name payload d =
     (case begin_operation ctx d of Inl e \<Rightarrow> (Some (Inl e), d)
      | Inr d1 \<Rightarrow>
          (case get_queue name True d1 of
             Inl e \<Rightarrow> (Some (Inl e), end_operation d1)
           | Inr (None, d2) \<Rightarrow> (None, d2)
           | Inr (Some q, d2) \<Rightarrow>
               (let (r, q') = push_iter (md_closed d2) ctx payload q
                in (r, (if r = None then id else end_operation) (set_queue name q' d2)))))"

definition md_pop ::
    "wf_error option \<Rightarrow> string \<Rightarrow> 'a memory_driver \<Rightarrow> (wf_error + 'a option) option \<times> 'a memory_driver" where
  "md_pop ctx name d =
     (case begin_operation ctx d of Inl e \<Rightarrow> (Some (Inl e), d)
      | Inr d1 \<Rightarrow>
          (case get_queue name True d1 of
             Inl e \<Rightarrow> (Some (Inl e), end_operation d1)
           | Inr (None, d2) \<Rightarrow> (None, d2)
           | Inr (Some q, d2) \<Rightarrow>
               (let (r, q') = pop_iter (md_closed d2) ctx q
                in (r, (if r = None then id else end_operation) (set_queue name q' d2)))))"

definition md_size :: "wf_error option \<Rightarrow> string \<Rightarrow> 'a memory_driver \<Rightarrow> (wf_error + int) \<times> 'a memory_driver" where
  "md_size ctx name d =
     (case begin_operation ctx d of Inl e \<Rightarrow> (Inl e, d)
      | Inr d1 \<Rightarrow>
          (case get_queue name False d1 of
             Inl e \<Rightarrow> (Inl e, end_operation d1)
           | Inr (None, d2) \<Rightarrow> (Inr 0, end_operation d2)
           | Inr (Some q, d2) \<Rightarrow> (size_section (md_closed d2) q, end_operation d2)))"

definition md_clear :: "wf_error option \<Rightarrow> string \<Rightarrow> 'a memory_driver \<Rightarrow> (wf_error + unit) \<times> 'a memory_driver" where
  "md_clear ctx name d =
     (case begin_operation ctx d of Inl e \<Rightarrow> (Inl e, d)
      | Inr d1 \<Rightarrow>
          (case get_queue name False d1 of
             Inl e \<Rightarrow> (Inl e, end_operation d1)
           | Inr (None, d2) \<Rightarrow> (Inr (), end_operation d2)
           | Inr (Some q, d2) \<Rightarrow>
               (let (r, q') = clear_section (md_closed d2) q
                in (r, end_operation (set_queue name q' d2)))))"

subsection \<open>Goroutines\<close>

text \<open>Where a goroutine stands. The flag of a push says whether it runs in the goroutine that
  \<open>PushDelayed\<close> spawned, and so holds a delayed slot.\<close>

datatype 'a pc =
    Idle
  | PushGet bool string 'a
  | PushLoop bool string 'a
  | PushWait bool string 'a
  | SlotWait string 'a
  | SlotHeld string 'a
  | TimerWait string 'a
  | PopGet string
  | PopLoop string
  | PopWait string
  | ClearGet string
  | ClearLock string
  | SizeGet string
  | SizeLock string
  | PushDone "wf_error + unit"
  | PopDone "wf_error + 'a option"
  | ClearDone "wf_error + unit"
  | SizeDone "wf_error + int"

text \<open>What the scheduler and the environment decide: which operation an idle goroutine starts,
  and which ready branch a \<open>select\<close> takes.\<close>

datatype 'a choice =
    StartPush string 'a
  | StartDelayed string 'a
  | StartPop string
  | StartClear string
  | StartSize string
  | Continue
  | RecvSignal
  | RecvCtx
  | RecvDone

datatype 'a effect = NoEffect | Enqueued string 'a | Dequeued string 'a | Dropped string "'a list"

type_synonym 'a outcome = "('a effect \<times> 'a pc \<times> 'a memory_driver) option"

definition finish_push :: "bool \<Rightarrow> 'a memory_driver \<Rightarrow> 'a memory_driver" where
  "finish_push delayed d = end_operation (if delayed then release_slot d else d)"

definition start_step :: "wf_error option \<Rightarrow> 'a choice \<Rightarrow> 'a memory_driver \<Rightarrow> 'a outcome" where
  "start_step ctx ch d =
     (case ch of
        StartPush n x \<Rightarrow>
          (case begin_operation ctx d of
             Inl e \<Rightarrow> Some (NoEffect, PushDone (Inl e), d)
           | Inr d' \<Rightarrow> Some (NoEffect, PushGet False n x, d'))
      | StartDelayed n x \<Rightarrow>
          (case begin_operation ctx d of
             Inl e \<Rightarrow> Some (NoEffect, PushDone (Inl e), d)
           | Inr d' \<Rightarrow> Some (NoEffect, SlotWait n x, d'))
      | StartPop n \<Rightarrow>
          (case begin_operation ctx d of
             Inl e \<Rightarrow> Some (NoEffect, PopDone (Inl e), d)
           | Inr d' \<Rightarrow> Some (NoEffect, PopGet n, d'))
      | StartClear n \<Rightarrow>
          (case begin_operation ctx d of
             Inl e \<Rightarrow> Some (NoEffect, ClearDone (Inl e), d)
           | Inr d' \<Rightarrow> Some (NoEffect, ClearGet n, d'))
      | StartSize n \<Rightarrow>
          (case begin_operation ctx d of
             Inl e \<Rightarrow> Some (NoEffect, SizeDone (Inl e), d)
           | Inr d' \<Rightarrow> Some (NoEffect, SizeGet n, d'))
      | _ \<Rightarrow> None)"

definition push_get_step :: "bool \<Rightarrow> string \<Rightarrow> 'a \<Rightarrow> 'a memory_driver \<Rightarrow> 'a outcome" where
  "push_get_step dl n x d =
     (case get_queue n True d of
        Inl e \<Rightarrow> Some (NoEffect, PushDone (Inl e), finish_push dl d)
      | Inr (_, d') \<Rightarrow> Some (NoEffect, PushLoop dl n x, d'))"

definition push_loop_step ::
    "wf_error option \<Rightarrow> bool \<Rightarrow> string \<Rightarrow> 'a \<Rightarrow> 'a memory_driver \<Rightarrow> 'a outcome" where
  "push_loop_step ctx dl n x d =
     (case md_queues d n of
        None \<Rightarrow> None
      | Some q \<Rightarrow>
          (case push_iter (md_closed d) ctx x q of
             (None, q') \<Rightarrow> Some (NoEffect, PushWait dl n x, set_queue n q' d)
           | (Some (Inl e), q') \<Rightarrow> Some (NoEffect, PushDone (Inl e), finish_push dl (set_queue n q' d))
           | (Some (Inr u), q') \<Rightarrow>
               Some (Enqueued n x, PushDone (Inr ()), finish_push dl (set_queue n q' d))))"

definition push_select_step ::
    "wf_error option \<Rightarrow> 'a choice \<Rightarrow> bool \<Rightarrow> string \<Rightarrow> 'a \<Rightarrow> 'a memory_driver \<Rightarrow> 'a outcome" where
  "push_select_step ctx ch dl n x d =
     (case ch of
        RecvSignal \<Rightarrow>
          (case md_queues d n of
             None \<Rightarrow> None
           | Some q \<Rightarrow>
               (if mq_notFull q
                then Some (NoEffect, PushLoop dl n x, set_queue n (q\<lparr>mq_notFull := False\<rparr>) d)
                else None))
      | RecvCtx \<Rightarrow>
          (case ctx of None \<Rightarrow> None
           | Some e \<Rightarrow> Some (NoEffect, PushDone (Inl e), finish_push dl d))
      | RecvDone \<Rightarrow>
          (if md_done d then Some (NoEffect, PushDone (Inl ErrDriverClosed), finish_push dl d)
           else None)
      | _ \<Rightarrow> None)"

definition slot_select_step ::
    "wf_error option \<Rightarrow> 'a choice \<Rightarrow> string \<Rightarrow> 'a \<Rightarrow> 'a memory_driver \<Rightarrow> 'a outcome" where
  "slot_select_step ctx ch n x d =
     (case ch of
        RecvSignal \<Rightarrow>
          (if md_delayedSlots d < md_bufSize d
           then Some (NoEffect, SlotHeld n x, d\<lparr>md_delayedSlots := md_delayedSlots d + 1\<rparr>)
           else None)
      | RecvCtx \<Rightarrow>
          (case ctx of None \<Rightarrow> None
           | Some e \<Rightarrow> Some (NoEffect, PushDone (Inl e), end_operation d))
      | RecvDone \<Rightarrow>
          (if md_done d then Some (NoEffect, PushDone (Inl ErrDriverClosed), end_operation d)
           else None)
      | _ \<Rightarrow> None)"

definition slot_check_step ::
    "wf_error option \<Rightarrow> string \<Rightarrow> 'a \<Rightarrow> 'a memory_driver \<Rightarrow> 'a outcome" where
  "slot_check_step ctx n x d =
     (if md_closed d
      then Some (NoEffect, PushDone (Inl ErrDriverClosed), end_operation (release_slot d))
      else case ctx of
             Some e \<Rightarrow> Some (NoEffect, PushDone (Inl e), end_operation (release_slot d))
           | None \<Rightarrow> Some (NoEffect, TimerWait n x, d))"

definition timer_select_step ::
    "wf_error option \<Rightarrow> 'a choice \<Rightarrow> string \<Rightarrow> 'a \<Rightarrow> 'a memory_driver \<Rightarrow> 'a outcome" where
  "timer_select_step ctx ch n x d =
     (case ch of
        RecvSignal \<Rightarrow> Some (NoEffect, PushGet True n x, d)
      | RecvCtx \<Rightarrow>
          (case ctx of None \<Rightarrow> None
           | Some e \<Rightarrow> Some (NoEffect, PushDone (Inl e), end_operation (release_slot d)))
      | RecvDone \<Rightarrow>
          (if md_done d
           then Some (NoEffect, PushDone (Inl ErrDriverClosed), end_operation (release_slot d))
           else None)
      | _ \<Rightarrow> None)"

definition pop_get_step :: "string \<Rightarrow> 'a memory_driver \<Rightarrow> 'a outcome" where
  "pop_get_step n d =
     (case get_queue n True d of
        Inl e \<Rightarrow> Some (NoEffect, PopDone (Inl e), end_operation d)
      | Inr (_, d') \<Rightarrow> Some (NoEffect, PopLoop n, d'))"

definition pop_loop_step :: "wf_error option \<Rightarrow> string \<Rightarrow> 'a memory_driver \<Rightarrow> 'a outcome" where
  "pop_loop_step ctx n d =
     (case md_queues d n of
        None \<Rightarrow> None
      | Some q \<Rightarrow>
          (case pop_iter (md_closed d) ctx q of
             (None, q') \<Rightarrow> Some (NoEffect, PopWait n, set_queue n q' d)
           | (Some (Inl e), q') \<Rightarrow> Some (NoEffect, PopDone (Inl e), end_operation (set_queue n q' d))
           | (Some (Inr p), q') \<Rightarrow>
               Some (case p of None \<Rightarrow> NoEffect | Some x \<Rightarrow> Dequeued n x,
                     PopDone (Inr p), end_operation (set_queue n q' d))))"

definition pop_select_step ::
    "wf_error option \<Rightarrow> 'a choice \<Rightarrow> string \<Rightarrow> 'a memory_driver \<Rightarrow> 'a outcome" where
  "pop_select_step ctx ch n d =
     (case ch of
        RecvSignal \<Rightarrow>
          (case md_queues d n of
             None \<Rightarrow> None
           | Some q \<Rightarrow>
               (if mq_notEmpty q
                then Some (NoEffect, PopLoop n, set_queue n (q\<lparr>mq_notEmpty := False\<rparr>) d)
                else None))
      | RecvCtx \<Rightarrow>
          (case ctx of None \<Rightarrow> None
           | Some e \<Rightarrow> Some (NoEffect, PopDone (Inl e), end_operation d))
      | RecvDone \<Rightarrow>
          (if md_done d then Some (NoEffect, PopDone (Inl ErrDriverClosed), end_operation d)
           else None)
      | _ \<Rightarrow> None)"

definition clear_get_step :: "string \<Rightarrow> 'a memory_driver \<Rightarrow> 'a outcome" where
  "clear_get_step n d =
     (case get_queue n False d of
        Inl e \<Rightarrow> Some (NoEffect, ClearDone (Inl e), end_operation d)
      | Inr (None, d') \<Rightarrow> Some (NoEffect, ClearDone (Inr ()), end_operation d')
      | Inr (Some _, d') \<Rightarrow> Some (NoEffect, ClearLock n, d'))"

definition clear_lock_step :: "string \<Rightarrow> 'a memory_driver \<Rightarrow> 'a outcome" where
  "clear_lock_step n d =
     (case md_queues d n of
        None \<Rightarrow> None
      | Some q \<Rightarrow>
          (case clear_section (md_closed d) q of
             (Inl e, q') \<Rightarrow> Some (NoEffect, ClearDone (Inl e), end_operation (set_queue n q' d))
           | (Inr u, q') \<Rightarrow>
               Some (Dropped n (mq_abs q), ClearDone (Inr ()), end_operation (set_queue n q' d))))"

definition size_get_step :: "string \<Rightarrow> 'a memory_driver \<Rightarrow> 'a outcome" where
  "size_get_step n d =
     (case get_queue n False d of
        Inl e \<Rightarrow> Some (NoEffect, SizeDone (Inl e), end_operation d)
      | Inr (None, d') \<Rightarrow> Some (NoEffect, SizeDone (Inr 0), end_operation d')
      | Inr (Some _, d') \<Rightarrow> Some (NoEffect, SizeLock n, d'))"

definition size_lock_step :: "string \<Rightarrow> 'a memory_driver \<Rightarrow> 'a outcome" where
  "size_lock_step n d =
     (case md_queues d n of
        None \<Rightarrow> None
      | Some q \<Rightarrow> Some (NoEffect, SizeDone (size_section (md_closed d) q), end_operation d))"

definition on_continue :: "'a choice \<Rightarrow> 'a outcome \<Rightarrow> 'a outcome" where
  "on_continue ch r = (case ch of Continue \<Rightarrow> r | _ \<Rightarrow> None)"

definition thread_step ::
    "wf_error option \<Rightarrow> 'a choice \<Rightarrow> 'a pc \<Rightarrow> 'a memory_driver \<Rightarrow> 'a outcome" where
  "thread_step ctx ch pc d =
     (case pc of
        Idle \<Rightarrow> start_step ctx ch d
      | PushGet dl n x \<Rightarrow> on_continue ch (push_get_step dl n x d)
      | PushLoop dl n x \<Rightarrow> on_continue ch (push_loop_step ctx dl n x d)
      | PushWait dl n x \<Rightarrow> push_select_step ctx ch dl n x d
      | SlotWait n x \<Rightarrow> slot_select_step ctx ch n x d
      | SlotHeld n x \<Rightarrow> on_continue ch (slot_check_step ctx n x d)
      | TimerWait n x \<Rightarrow> timer_select_step ctx ch n x d
      | PopGet n \<Rightarrow> on_continue ch (pop_get_step n d)
      | PopLoop n \<Rightarrow> on_continue ch (pop_loop_step ctx n d)
      | PopWait n \<Rightarrow> pop_select_step ctx ch n d
      | ClearGet n \<Rightarrow> on_continue ch (clear_get_step n d)
      | ClearLock n \<Rightarrow> on_continue ch (clear_lock_step n d)
      | SizeGet n \<Rightarrow> on_continue ch (size_get_step n d)
      | SizeLock n \<Rightarrow> on_continue ch (size_lock_step n d)
      | _ \<Rightarrow> None)"

end
