(* ===== verification/Memory_Driver_Signals.thy ===== *)
theory Memory_Driver_Signals
  imports Memory_Driver_Conc
begin

text \<open>
  Liveness of the memory driver: waiting goroutines and the capacity-one signal channels, and the
  termination of \<open>Close\<close>. A goroutine that wakes up in the \<open>select\<close> has taken the signal
  out of its channel, so the signal is lost if it then leaves without touching the queue; the only
  way to leave so is a context that ended in between.
\<close>

subsection \<open>No waiter is stranded while no context ends\<close>

definition missing_signal :: "'a memory_driver \<Rightarrow> string \<Rightarrow> bool" where
  "missing_signal d n \<longleftrightarrow>
     (\<exists>q. md_queues d n = Some q \<and> 0 < mq_size q \<and> \<not> mq_notEmpty q)"

definition missing_room_signal :: "'a memory_driver \<Rightarrow> string \<Rightarrow> bool" where
  "missing_room_signal d n \<longleftrightarrow>
     (\<exists>q. md_queues d n = Some q \<and> mq_room q \<and> \<not> mq_notFull q)"

fun pushing :: "'a pc \<Rightarrow> string option" where
  "pushing (PushLoop dl n x) = Some n"
| "pushing _ = None"

definition signal_kept :: "'a pc \<Rightarrow> 'a memory_driver \<Rightarrow> 'a pc \<Rightarrow> 'a memory_driver \<Rightarrow> bool" where
  "signal_kept pc d pc' d' \<longleftrightarrow>
     (\<forall>n. missing_signal d' n \<longrightarrow> pc' = PopLoop n \<or> missing_signal d n \<and> pc \<noteq> PopLoop n)
     \<and> (\<forall>n. missing_room_signal d' n \<longrightarrow>
            pushing pc' = Some n \<or> missing_room_signal d n \<and> pushing pc \<noteq> Some n)"

lemma missing_set_queue [simp]:
  "missing_signal (set_queue m q d) n =
     (if n = m then 0 < mq_size q \<and> \<not> mq_notEmpty q else missing_signal d n)"
  "missing_room_signal (set_queue m q d) n =
     (if n = m then mq_room q \<and> \<not> mq_notFull q else missing_room_signal d n)"
  by (auto simp: missing_signal_def missing_room_signal_def)

lemma missing_counters [simp]:
  "missing_signal (end_operation d) n = missing_signal d n"
  "missing_signal (release_slot d) n = missing_signal d n"
  "missing_signal (finish_push dl d) n = missing_signal d n"
  "missing_signal (d\<lparr>md_operations := k\<rparr>) n = missing_signal d n"
  "missing_signal (d\<lparr>md_delayedSlots := k\<rparr>) n = missing_signal d n"
  "missing_room_signal (end_operation d) n = missing_room_signal d n"
  "missing_room_signal (release_slot d) n = missing_room_signal d n"
  "missing_room_signal (finish_push dl d) n = missing_room_signal d n"
  "missing_room_signal (d\<lparr>md_operations := k\<rparr>) n = missing_room_signal d n"
  "missing_room_signal (d\<lparr>md_delayedSlots := k\<rparr>) n = missing_room_signal d n"
  by (simp_all add: missing_signal_def missing_room_signal_def)

lemma missing_synced_ops [simp]:
  "mq_notEmpty (new_memory_queue k) = (0 < mq_size (new_memory_queue k))"
  "mq_notEmpty (enqueue q x)" "mq_notEmpty (snd (dequeue q)) = (1 < mq_size q)"
  "\<not> mq_notEmpty (clear_queue q)"
  "mq_notFull (enqueue q x) = (Suc (mq_size q) < length (mq_items q))"
  "mq_notFull (clear_queue q) = (mq_items q \<noteq> [])"
  "mq_notFull (new_memory_queue k) = (0 < k)"
  "mq_notFull (snd (dequeue q)) = (mq_size q - 1 < length (mq_items q))"
  "mq_size (new_memory_queue k) = 0"
  by (auto simp: new_memory_queue_def enqueue_def dequeue_def clear_queue_def Let_def)

lemma mq_room_ops [simp]:
  "mq_room (enqueue q x) = (Suc (mq_size q) < length (mq_items q))"
  "mq_room (snd (dequeue q)) = (mq_size q - 1 < length (mq_items q))"
  "mq_room (clear_queue q) = (mq_items q \<noteq> [])"
  "mq_room (new_memory_queue k) = (0 < k)"
  "mq_room (q\<lparr>mq_notFull := b\<rparr>) = mq_room q"
  "mq_room (q\<lparr>mq_notEmpty := b\<rparr>) = mq_room q"
  by (auto simp: mq_room_def)

lemma missingD:
  "md_queues d n = Some q \<Longrightarrow> 0 < mq_size q \<Longrightarrow> \<not> mq_notEmpty q \<Longrightarrow> missing_signal d n"
  "md_queues d n = Some q \<Longrightarrow> mq_room q \<Longrightarrow> \<not> mq_notFull q \<Longrightarrow> missing_room_signal d n"
  by (auto simp: missing_signal_def missing_room_signal_def)

lemma signal_kept_start:
  "start_step ctx ch d = Some (eff, pc', d') \<Longrightarrow> signal_kept Idle d pc' d'"
  by (cases ch)
    (auto simp: start_step_def signal_kept_def begin_operation_Inr split: sum.splits)

lemma signal_kept_push_get:
  "push_get_step dl n x d = Some (eff, pc', d') \<Longrightarrow> signal_kept (PushGet dl n x) d pc' d'"
  by (auto simp: push_get_step_def signal_kept_def get_queue_Inr
      split: sum.splits if_splits option.splits)

lemma signal_kept_push_loop:
  "push_loop_step None dl n x d = Some (eff, pc', d') \<Longrightarrow> \<not> md_closed d \<Longrightarrow>
     signal_kept (PushLoop dl n x) d pc' d'"
  by (auto simp: push_loop_step_def signal_kept_def push_iter_def mq_room_def missing_signal_def
      split: if_splits option.splits)

lemma signal_kept_push_select:
  "push_select_step None ch dl n x d = Some (eff, pc', d') \<Longrightarrow> \<not> md_done d \<Longrightarrow>
     signal_kept (PushWait dl n x) d pc' d'"
  by (cases ch) (auto simp: push_select_step_def signal_kept_def missing_signal_def
      split: if_splits option.splits)

lemma signal_kept_pop_get:
  "pop_get_step n d = Some (eff, pc', d') \<Longrightarrow> signal_kept (PopGet n) d pc' d'"
  by (auto simp: pop_get_step_def signal_kept_def get_queue_Inr
      split: sum.splits if_splits option.splits)

lemma signal_kept_pop_loop:
  "pop_loop_step None n d = Some (eff, pc', d') \<Longrightarrow> \<not> md_closed d \<Longrightarrow>
     signal_kept (PopLoop n) d pc' d'"
  by (auto simp: pop_loop_step_def signal_kept_def pop_iter_def split_beta missing_room_signal_def
      split: if_splits option.splits)

lemma signal_kept_pop_select:
  "pop_select_step None ch n d = Some (eff, pc', d') \<Longrightarrow> \<not> md_done d \<Longrightarrow>
     signal_kept (PopWait n) d pc' d'"
  by (cases ch) (auto simp: pop_select_step_def signal_kept_def missing_room_signal_def
      split: if_splits option.splits)

lemma signal_kept_slots:
  "slot_select_step ctx ch n x d = Some (eff, pc', d') \<Longrightarrow> signal_kept (SlotWait n x) d pc' d'"
  "slot_check_step ctx n x d = Some (eff, pc', d') \<Longrightarrow> signal_kept (SlotHeld n x) d pc' d'"
  "timer_select_step ctx ch n x d = Some (eff, pc', d') \<Longrightarrow> signal_kept (TimerWait n x) d pc' d'"
  by (cases ch; auto simp: slot_select_step_def slot_check_step_def timer_select_step_def
        signal_kept_def split: if_splits option.splits)+

lemma signal_kept_clear:
  "clear_get_step n d = Some (eff, pc', d') \<Longrightarrow> signal_kept (ClearGet n) d pc' d'"
  "clear_lock_step n d = Some (eff, pc', d') \<Longrightarrow> \<not> md_closed d \<Longrightarrow> signal_kept (ClearLock n) d pc' d'"
  by (auto simp: clear_get_step_def clear_lock_step_def clear_section_def signal_kept_def
      get_queue_Inr split: sum.splits if_splits option.splits)

lemma signal_kept_size:
  "size_get_step n d = Some (eff, pc', d') \<Longrightarrow> signal_kept (SizeGet n) d pc' d'"
  "size_lock_step n d = Some (eff, pc', d') \<Longrightarrow> signal_kept (SizeLock n) d pc' d'"
  by (auto simp: size_get_step_def size_lock_step_def signal_kept_def get_queue_Inr
      split: sum.splits if_splits option.splits)

lemmas signal_kept_steps =
  signal_kept_start signal_kept_push_get signal_kept_push_loop signal_kept_push_select
  signal_kept_pop_get signal_kept_pop_loop signal_kept_pop_select signal_kept_slots
  signal_kept_clear signal_kept_size

lemma thread_step_signal_kept:
  "thread_step None ch pc d = Some (eff, pc', d') \<Longrightarrow> \<not> md_closed d \<Longrightarrow> \<not> md_done d \<Longrightarrow>
     signal_kept pc d pc' d'"
  by (cases pc) (auto simp: thread_step_def intro: signal_kept_steps)

definition undisturbed :: "'a sys \<Rightarrow> bool" where
  "undisturbed s \<longleftrightarrow> sys_close s = NotClosed \<and> (\<forall>t. sys_ctx s t = None)"

definition attended :: "'a sys \<Rightarrow> bool" where
  "attended s \<longleftrightarrow>
     (\<forall>n. missing_signal (sys_drv s) n \<longrightarrow> (\<exists>t. sys_pc s t = PopLoop n))
     \<and> (\<forall>n. missing_room_signal (sys_drv s) n \<longrightarrow> (\<exists>t. pushing (sys_pc s t) = Some n))"

lemma attended_goroutine:
  assumes "attended s" "signal_kept (sys_pc s t) (sys_drv s) pc' d'"
  shows "attended (record_effect eff (move t pc' d' s))"
  using assms unfolding attended_def signal_kept_def by (auto simp: fun_upd_def) metis+

lemma attended_step: "md_step s s' \<Longrightarrow> sys_inv s \<Longrightarrow> undisturbed s' \<Longrightarrow> attended s \<Longrightarrow> attended s'"
proof (induction rule: md_step.induct)
  case (goroutine s t ch eff pc' d')
  then have "signal_kept (sys_pc s t) (sys_drv s) pc' d'"
    by (auto intro!: thread_step_signal_kept simp: undisturbed_def sys_inv_def)
  with goroutine.prems(3) show ?case by (rule attended_goroutine)
next
  case (cancel s t e)
  then show ?case by (auto simp: undisturbed_def split: if_splits)
qed (simp_all add: undisturbed_def)

lemma undisturbed_back: "md_step s s' \<Longrightarrow> undisturbed s' \<Longrightarrow> undisturbed s"
  by (induction rule: md_step.induct) (auto simp: undisturbed_def split: if_splits)

lemma reach_attended: "md_reach cap s \<Longrightarrow> undisturbed s \<Longrightarrow> attended s"
proof (induction rule: md_reach.induct)
  case init
  then show ?case
    by (simp add: attended_def missing_signal_def missing_room_signal_def init_sys_def
        new_memory_driver_def Let_def)
next
  case (step s s')
  then show ?case
    by (blast intro: attended_step undisturbed_back md_reach_inv)
qed

lemma waiter_attended:
  assumes "md_reach cap s" and "undisturbed s" and "sys_pc s t = PopWait n"
    and "queued (sys_drv s) n \<noteq> []"
  shows "(\<exists>q. md_queues (sys_drv s) n = Some q \<and> mq_notEmpty q) \<or> (\<exists>u. sys_pc s u = PopLoop n)"
proof -
  from assms(4) obtain q where q: "md_queues (sys_drv s) n = Some q" "0 < mq_size q"
    by (auto simp: queued_def split: option.splits)
  have "attended s" using assms(1,2) by (rule reach_attended)
  with q show ?thesis by (auto simp: attended_def missing_signal_def)
qed

lemma pusher_attended:
  assumes "md_reach cap s" and "undisturbed s" and "sys_pc s t = PushWait dl n x"
    and "length (queued (sys_drv s) n) < md_bufSize (sys_drv s)"
  shows "(\<exists>q. md_queues (sys_drv s) n = Some q \<and> mq_notFull q)
    \<or> (\<exists>u. pushing (sys_pc s u) = Some n)"
proof -
  have inv: "sys_inv s" using assms(1) by (rule md_reach_inv)
  from sys_inv_uses [OF inv, of t n] assms(3)
  obtain q where q: "md_queues (sys_drv s) n = Some q" by auto
  note wf = sys_inv_wf [OF inv]
  with driver_wfD [OF wf q] assms(4) have "mq_room q" by (simp add: mq_room_def)
  moreover have "attended s" using assms(1,2) by (rule reach_attended)
  ultimately show ?thesis using q by (auto simp: attended_def missing_room_signal_def)
qed

subsection \<open>Schedules\<close>

datatype 'a event = Run nat "'a choice" | Cancel nat wf_error

fun exec_event :: "'a event \<Rightarrow> 'a sys \<Rightarrow> 'a sys option" where
  "exec_event (Run t ch) s =
     (case thread_step (sys_ctx s t) ch (sys_pc s t) (sys_drv s) of
        None \<Rightarrow> None
      | Some (eff, pc', d') \<Rightarrow> Some (record_effect eff (move t pc' d' s)))"
| "exec_event (Cancel t e) s =
     (if sys_ctx s t = None then Some (s\<lparr>sys_ctx := (sys_ctx s)(t := Some e)\<rparr>) else None)"

fun exec :: "'a event list \<Rightarrow> 'a sys \<Rightarrow> 'a sys option" where
  "exec [] s = Some s"
| "exec (e # es) s = (case exec_event e s of None \<Rightarrow> None | Some s' \<Rightarrow> exec es s')"

lemma exec_event_step: "exec_event e s = Some s' \<Longrightarrow> md_step s s'"
  by (cases e) (auto intro: md_step.intros split: option.splits if_splits prod.splits)

lemma exec_reach: "md_reach cap s \<Longrightarrow> exec es s = Some s' \<Longrightarrow> md_reach cap s'"
proof (induction es arbitrary: s)
  case Nil
  then show ?case by simp
next
  case (Cons e es)
  then show ?case
    by (auto split: option.splits dest: exec_event_step intro: md_reach.step)
qed

subsection \<open>A waiter stranded by another waiter's cancellation\<close>

text \<open>Two consumers wait on an empty queue; a producer puts one payload in and leaves. The first
  consumer takes the signal, its context ends before it looks, and it returns the context's error
  without raising the signal again. The second consumer now waits beside a queue that is not
  empty.\<close>

definition stranding :: "nat event list" where
  "stranding =
     [Run 1 (StartPop ''q''), Run 1 Continue, Run 1 Continue,
      Run 2 (StartPop ''q''), Run 2 Continue, Run 2 Continue,
      Run 3 (StartPush ''q'' 7), Run 3 Continue, Run 3 Continue,
      Run 1 RecvSignal, Cancel 1 CtxCanceled, Run 1 Continue]"

lemmas exec_eval =
  thread_step_def on_continue_def start_step_def push_get_step_def push_loop_step_def
  pop_get_step_def pop_loop_step_def pop_select_step_def begin_operation_def end_operation_def
  get_queue_def push_iter_def pop_iter_def finish_push_def set_queue_def Let_def
  new_memory_queue_def sync_signals_def enqueue_def dequeue_def move_def init_sys_def
  new_memory_driver_def

lemma stranding_run:
  "\<exists>s. exec stranding (init_sys 1) = Some s
     \<and> sys_close s = NotClosed \<and> sys_ctx s = (\<lambda>_. None)(1 := Some CtxCanceled)
     \<and> sys_pc s = (\<lambda>_. Idle)(1 := PopDone (Inl CtxCanceled), 2 := PopWait ''q'', 3 := PushDone (Inr ()))
     \<and> md_queues (sys_drv s) = [''q'' \<mapsto> \<lparr>mq_items = [Some 7], mq_head = 0, mq_size = 1,
                                   mq_notEmpty = False, mq_notFull = False\<rparr>]
     \<and> \<not> md_done (sys_drv s)"
  by (simp add: stranding_def exec_eval fun_upd_twist)

subsection \<open>Closing terminates\<close>

fun rank :: "'a pc \<Rightarrow> nat" where
  "rank (SlotWait n x) = 4"
| "rank (SlotHeld n x) = 3"
| "rank (TimerWait n x) = 3"
| "rank (PushGet dl n x) = 2"
| "rank (PushWait dl n x) = 2"
| "rank (PopWait n) = 2"
| "rank (PopGet n) = 2"
| "rank (ClearGet n) = 2"
| "rank (SizeGet n) = 2"
| "rank (PushLoop dl n x) = 1"
| "rank (PopLoop n) = 1"
| "rank (ClearLock n) = 1"
| "rank (SizeLock n) = 1"
| "rank _ = 0"

lemma closed_step_rank:
  assumes "md_closed d" and "in_flight pc" and "thread_step ctx ch pc d = Some (eff, pc', d')"
  shows "rank pc' < rank pc"
  using assms
  by (cases pc; cases ch)
    (auto simp: thread_step_def push_get_step_def push_loop_step_def
      push_select_step_def slot_select_step_def slot_check_step_def timer_select_step_def
      pop_get_step_def pop_loop_step_def pop_select_step_def clear_get_step_def clear_lock_step_def
      size_get_step_def size_lock_step_def get_queue_def push_iter_def pop_iter_def
      clear_section_def split: if_splits option.splits)

lemma closed_step_enabled:
  assumes "md_closed d" and "md_done d" and "in_flight pc"
    and "\<And>n. uses_queue pc = Some n \<Longrightarrow> n \<in> dom (md_queues d)"
  shows "\<exists>ch eff pc' d'. thread_step ctx ch pc d = Some (eff, pc', d')"
proof -
  let ?go = "\<lambda>ch. \<exists>eff pc' d'. thread_step ctx ch pc d = Some (eff, pc', d')"
  have "?go Continue \<or> ?go RecvDone"
    using assms
    by (cases pc)
      (auto simp: thread_step_def on_continue_def push_get_step_def push_loop_step_def
        push_select_step_def slot_select_step_def slot_check_step_def timer_select_step_def
        pop_get_step_def pop_loop_step_def pop_select_step_def clear_get_step_def
        clear_lock_step_def size_get_step_def size_lock_step_def get_queue_def push_iter_def
        pop_iter_def clear_section_def)
  then show ?thesis by blast
qed

lemma rank_pos: "0 < rank pc \<longleftrightarrow> in_flight pc"
  by (cases pc) auto

lemma drain_all:
  assumes "finite A" and "md_reach cap s" and "sys_close s = Draining"
    and "{t. in_flight (sys_pc s t)} \<subseteq> A"
  shows "\<exists>es s'. exec es s = Some s' \<and> sys_close s' = Draining \<and> md_operations (sys_drv s') = 0"
  using assms
proof (induction "\<Sum>t\<in>A. rank (sys_pc s t)" arbitrary: s rule: less_induct)
  case less
  note inv = md_reach_inv [OF less.prems(2)]
  show ?case
  proof (cases "{t. in_flight (sys_pc s t)} = {}")
    case True
    with inv have "md_operations (sys_drv s) = 0" by (simp add: sys_inv_def)
    with less.prems(3) show ?thesis by (intro exI [of _ "[]"] exI [of _ s]) simp
  next
    case False
    then obtain t where t: "in_flight (sys_pc s t)" by blast
    have cl: "md_closed (sys_drv s)" "md_done (sys_drv s)"
      using inv less.prems(3) by (simp_all add: sys_inv_flags)
    from closed_step_enabled [OF cl t] sys_inv_uses [OF inv, of t]
    obtain ch eff pc' d' where st: "thread_step (sys_ctx s t) ch (sys_pc s t) (sys_drv s) = Some (eff, pc', d')"
      by blast
    let ?s = "record_effect eff (move t pc' d' s)"
    have lt: "rank pc' < rank (sys_pc s t)" using closed_step_rank [OF cl(1) t st] .
    have tA: "t \<in> A" using less.prems(4) t by blast
    have "(\<Sum>u\<in>A. rank (sys_pc ?s u)) < (\<Sum>u\<in>A. rank (sys_pc s u))"
      using lt tA by (intro sum_strict_mono_ex1 [OF less.prems(1)]) auto
    moreover have "exec_event (Run t ch) s = Some ?s" using st by simp
    moreover from this have "md_reach cap ?s"
      using less.prems(2) by (blast intro: md_reach.step exec_event_step)
    moreover have "{u. in_flight (sys_pc ?s u)} \<subseteq> A"
      using less.prems(4) tA by auto
    ultimately obtain es s' where "exec es ?s = Some s'" "sys_close s' = Draining"
      "md_operations (sys_drv s') = 0"
      using less.hyps [of ?s] less.prems(1,3) by auto
    with st show ?thesis by (intro exI [of _ "Run t ch # es"] exI [of _ s']) simp
  qed
qed

subsection \<open>Properties\<close>

text \<open>C9: the ring buffer of a memory queue is a bounded first-in first-out list: for every
  sequence of pushes, pops and clears, run against a new queue of any positive capacity, the
  results are those of a list of that capacity.\<close>

theorem ring_buffer_is_bounded_fifo:
  "0 < cap \<Longrightarrow> ring_run ops (new_memory_queue cap) = list_run cap ops []"
  using ring_run_refines [OF mq_wf_new, of cap ops] by simp

theorem ring_buffer_is_bounded_fifo_witness:
  "0 < (2::nat) \<and>
   ring_run [QPush 5, QPush 2, QPush 3, QPop, QPush 4, QPop, QPop, QPop] (new_memory_queue 2)
     = [Some None, Some None, None, Some (Some (5::nat)), Some None, Some (Some 2), Some (Some 4), None]"
  using ring_buffer_is_bounded_fifo [of 2 "[QPush (5::nat), QPush 2, QPush 3, QPop, QPush 4, QPop, QPop, QPop]"]
  by (simp del: ring_run.simps)

text \<open>C3: in every reachable state of the concurrent memory driver, each queue holds exactly the
  payloads enqueued and not yet handed out or dropped, in the order they were enqueued, and no
  queue exceeds the configured buffer size.\<close>

theorem memory_driver_conserves_payloads:
  assumes "md_reach cap s"
  shows "map fst (sys_gone s n) @ queued (sys_drv s) n = sys_in s n
       \<and> length (queued (sys_drv s) n) \<le> md_bufSize (sys_drv s)"
proof -
  note inv = md_reach_inv [OF assms]
  show ?thesis using sys_inv_history [OF inv] queued_bound [OF sys_inv_wf [OF inv]] by simp
qed

definition push_pop_run :: "nat event list" where
  "push_pop_run =
     [Run 1 (StartPush ''q'' 7), Run 1 Continue, Run 1 Continue,
      Run 2 (StartPush ''q'' 8), Run 2 Continue, Run 2 Continue,
      Run 3 (StartPop ''q''), Run 3 Continue, Run 3 Continue]"

lemma push_pop_run_result:
  "\<exists>s. exec push_pop_run (init_sys 2) = Some s \<and> sys_in s ''q'' = [7, 8]
     \<and> sys_gone s ''q'' = [(7, True)] \<and> sys_pc s 3 = PopDone (Inr (Some 7))"
  by (simp add: push_pop_run_def exec_eval)

theorem memory_driver_conserves_payloads_witness:
  "\<exists>s. md_reach 2 s \<and> sys_pc s 3 = PopDone (Inr (Some (7::nat))) \<and> queued (sys_drv s) ''q'' = [8]"
proof -
  obtain s where s: "exec push_pop_run (init_sys 2) = Some s" "sys_in s ''q'' = [7, 8]"
    "sys_gone s ''q'' = [(7, True)]" "sys_pc s 3 = PopDone (Inr (Some 7))"
    using push_pop_run_result by blast
  have r: "md_reach 2 s" using exec_reach [OF md_reach.init s(1)] .
  from memory_driver_conserves_payloads [OF r, of "''q''"] s r show ?thesis by auto
qed

text \<open>C14: \<open>Close\<close> never pulls the queues out from under an operation: once the queues have been
  released no goroutine is inside the driver, none can start (every operation returns
  \<open>ErrDriverClosed\<close>), and the operation and slot counters are back at zero.\<close>

theorem memory_driver_close_is_safe:
  assumes "md_reach cap s" and "sys_close s = Released"
  shows "\<not> in_flight (sys_pc s t) \<and> md_operations (sys_drv s) = 0 \<and> md_delayedSlots (sys_drv s) = 0
       \<and> begin_operation ctx (sys_drv s) = Inl ErrDriverClosed"
proof -
  note inv = md_reach_inv [OF assms(1)]
  have none: "\<not> in_flight (sys_pc s u)" for u using sys_inv_released [OF inv assms(2)] .
  moreover from this have "\<not> holds_slot (sys_pc s u)" for u by (blast dest: holds_slot_in_flight)
  ultimately have "md_operations (sys_drv s) = 0" "md_delayedSlots (sys_drv s) = 0"
    using inv by (simp_all add: sys_inv_def)
  moreover have "md_closed (sys_drv s)" using sys_inv_flags(1) [OF inv] assms(2) by simp
  ultimately show ?thesis using none by (simp add: begin_operation_def)
qed

lemma close_of_unused:
  "md_reach cap ((init_sys cap)\<lparr>sys_drv := close_release (close_begin (sys_drv (init_sys cap))),
      sys_close := Released\<rparr>)"
proof -
  let ?s = "init_sys cap\<lparr>sys_drv := close_begin (sys_drv (init_sys cap)), sys_close := Draining\<rparr>"
  have "md_step (init_sys cap) ?s" by (rule md_step.closing) (simp add: init_sys_def)
  then have "md_reach cap ?s" by (rule md_reach.step [OF md_reach.init])
  moreover have "md_step ?s (?s\<lparr>sys_drv := close_release (sys_drv ?s), sys_close := Released,
      sys_gone := (\<lambda>n. sys_gone ?s n @ map (\<lambda>x. (x, False)) (queued (sys_drv ?s) n))\<rparr>)"
    by (rule md_step.released) (simp_all add: init_sys_def close_begin_def new_memory_driver_def Let_def)
  ultimately show ?thesis
    by (auto dest: md_reach.step
        simp: queued_def init_sys_def close_begin_def new_memory_driver_def Let_def)
qed

theorem memory_driver_close_is_safe_witness:
  "\<exists>s :: nat sys. md_reach 4 s \<and> sys_close s = Released
     \<and> begin_operation None (sys_drv s) = Inl ErrDriverClosed"
proof -
  let ?s = "(init_sys 4)\<lparr>sys_drv := close_release (close_begin (sys_drv (init_sys 4))),
      sys_close := Released\<rparr> :: nat sys"
  have r: "md_reach 4 ?s" by (rule close_of_unused)
  have "sys_close ?s = Released" by simp
  from memory_driver_close_is_safe [OF r this] r this show ?thesis by blast
qed

text \<open>\<open>Close\<close> always gets to the end: from any reachable state in which it is waiting for
  operations to drain, the goroutines still inside have a finite schedule that brings the
  operation count to zero, whatever they were blocked on.\<close>

theorem memory_driver_close_drains:
  assumes "md_reach cap s" and "sys_close s = Draining"
  shows "\<exists>es s'. exec es s = Some s' \<and> md_operations (sys_drv s') = 0"
proof -
  have "finite {t. in_flight (sys_pc s t)}" using md_reach_inv [OF assms(1)] by (simp add: sys_inv_def)
  from drain_all [OF this assms subset_refl] show ?thesis by blast
qed

theorem memory_driver_close_drains_witness:
  "\<exists>s :: nat sys. md_reach 1 s \<and> sys_pc s 2 = PopWait ''q'' \<and>
     (\<exists>es s'. exec es s = Some s' \<and> md_operations (sys_drv s') = 0)"
proof -
  obtain s :: "nat sys" where s: "exec stranding (init_sys 1) = Some s" "sys_close s = NotClosed"
    "sys_pc s = (\<lambda>_. Idle)(1 := PopDone (Inl CtxCanceled), 2 := PopWait ''q'', 3 := PushDone (Inr ()))"
    using stranding_run by blast
  let ?s = "s\<lparr>sys_drv := close_begin (sys_drv s), sys_close := Draining\<rparr>"
  have "md_reach 1 ?s"
    using exec_reach [OF md_reach.init s(1)] md_step.closing [OF s(2)] by (rule md_reach.step)
  moreover from memory_driver_close_drains [OF this]
  have "\<exists>es s'. exec es ?s = Some s' \<and> md_operations (sys_drv s') = 0" by simp
  ultimately show ?thesis using s(3) by (intro exI [of _ ?s]) simp
qed

text \<open>while the driver is open and no context has ended, a goroutine blocked in \<open>Pop\<close> on a
  queue that holds a payload is never stranded: the queue's signal is up, or another goroutine has
  taken it and is on its way to the queue. The same holds of a blocked \<open>Push\<close> and a queue with
  room.\<close>

theorem memory_driver_waiters_attended:
  assumes "md_reach cap s" and "undisturbed s"
  shows "(sys_pc s t = PopWait n \<and> queued (sys_drv s) n \<noteq> [] \<longrightarrow>
       (\<exists>q. md_queues (sys_drv s) n = Some q \<and> mq_notEmpty q) \<or> (\<exists>u. sys_pc s u = PopLoop n))
    \<and> (sys_pc s t = PushWait dl n x \<and> length (queued (sys_drv s) n) < md_bufSize (sys_drv s) \<longrightarrow>
       (\<exists>q. md_queues (sys_drv s) n = Some q \<and> mq_notFull q) \<or> (\<exists>u. pushing (sys_pc s u) = Some n))"
  using waiter_attended [OF assms] pusher_attended [OF assms] by blast

definition waiting_run :: "nat event list" where
  "waiting_run =
     [Run 2 (StartPop ''q''), Run 2 Continue, Run 2 Continue,
      Run 3 (StartPush ''q'' 7), Run 3 Continue, Run 3 Continue]"

lemma waiting_run_result:
  "\<exists>s. exec waiting_run (init_sys 1) = Some s \<and> sys_pc s 2 = PopWait ''q''
     \<and> queued (sys_drv s) ''q'' = [7] \<and> sys_close s = NotClosed \<and> sys_ctx s = (\<lambda>_. None)"
  by (simp add: waiting_run_def exec_eval queued_def mq_abs_def mq_slot_def)

theorem memory_driver_waiters_attended_witness:
  "\<exists>s :: nat sys. md_reach 1 s \<and> undisturbed s \<and> sys_pc s 2 = PopWait ''q'' \<and> queued (sys_drv s) ''q'' = [7]
     \<and> ((\<exists>q. md_queues (sys_drv s) ''q'' = Some q \<and> mq_notEmpty q) \<or> (\<exists>u. sys_pc s u = PopLoop ''q''))"
proof -
  obtain s :: "nat sys" where s: "exec waiting_run (init_sys 1) = Some s" "sys_pc s 2 = PopWait ''q''"
    "queued (sys_drv s) ''q'' = [7]" "sys_close s = NotClosed" "sys_ctx s = (\<lambda>_. None)"
    using waiting_run_result by blast
  have r: "md_reach 1 s" using exec_reach [OF md_reach.init s(1)] .
  have u: "undisturbed s" using s by (simp add: undisturbed_def)
  from memory_driver_waiters_attended [OF r u, of 2 "''q''"] s r u show ?thesis by auto
qed

text \<open>C22: A cancelled waiter can swallow the signal another one needs. Take any reachable state of an open driver in which
  the queue holds a payload and its signal is up, a goroutine whose context has ended and one with a live context both
  waiting for it. The select may give the signal to the cancelled one: it goes back to the queue, and its next step
  returns the error of its context without raising the signal again. The payload is still there, the signal is down, and
  the live waiter has no step it can take.\<close>

theorem memory_driver_lost_wakeup:
  assumes reach: "md_reach cap s" and opened: "sys_close s = NotClosed"
    and gone: "sys_pc s p = PopWait n" "sys_ctx s p = Some e"
    and live: "sys_pc s t = PopWait n" "sys_ctx s t = None"
    and up: "md_queues (sys_drv s) n = Some q" "mq_notEmpty q" and full: "queued (sys_drv s) n \<noteq> []"
  shows "\<exists>s1 s2 q'. md_step s s1 \<and> sys_pc s1 p = PopLoop n \<and> md_step s1 s2 \<and> sys_pc s2 p = PopDone (Inl e)
    \<and> md_queues (sys_drv s2) n = Some q' \<and> \<not> mq_notEmpty q' \<and> queued (sys_drv s2) n \<noteq> []
    \<and> sys_close s2 = NotClosed \<and> sys_pc s2 t = PopWait n \<and> sys_ctx s2 t = None
    \<and> (\<forall>ch. thread_step (sys_ctx s2 t) ch (sys_pc s2 t) (sys_drv s2) = None)"
proof -
  have running: "\<not> md_closed (sys_drv s)" "\<not> md_done (sys_drv s)"
    using md_reach_inv [OF reach] opened by (auto simp: sys_inv_def)
  have pt: "p \<noteq> t" using gone(2) live(2) by auto
  let ?q = "q\<lparr>mq_notEmpty := False\<rparr>"
  let ?d1 = "set_queue n ?q (sys_drv s)"
  let ?s1 = "move p (PopLoop n) ?d1 s"
  let ?d2 = "end_operation (set_queue n ?q ?d1)"
  let ?s2 = "move p (PopDone (Inl e)) ?d2 ?s1"
  have "thread_step (sys_ctx s p) RecvSignal (sys_pc s p) (sys_drv s) = Some (NoEffect, PopLoop n, ?d1)"
    using gone up by (simp add: thread_step_def pop_select_step_def)
  from md_step.goroutine [OF this] have 1: "md_step s ?s1" by simp
  have "thread_step (sys_ctx ?s1 p) Continue (sys_pc ?s1 p) (sys_drv ?s1) = Some (NoEffect, PopDone (Inl e), ?d2)"
    using gone running by (simp add: move_def thread_step_def on_continue_def pop_loop_step_def pop_iter_def)
  from md_step.goroutine [OF this] have 2: "md_step ?s1 ?s2" by simp
  have "thread_step (sys_ctx ?s2 t) ch (sys_pc ?s2 t) (sys_drv ?s2) = None" for ch
    using live pt running by (cases ch) (simp_all add: move_def thread_step_def pop_select_step_def)
  with 1 2 live pt opened full up show ?thesis
    by (intro exI [of _ ?s1] exI [of _ ?s2] exI [of _ ?q]) (simp add: move_def queued_def)
qed

definition contended :: "nat event list" where
  "contended =
     [Run 1 (StartPop ''q''), Run 1 Continue, Run 1 Continue,
      Run 2 (StartPop ''q''), Run 2 Continue, Run 2 Continue,
      Run 3 (StartPush ''q'' 7), Run 3 Continue, Run 3 Continue, Cancel 1 CtxCanceled]"

lemma contended_run:
  "\<exists>s. exec contended (init_sys 1) = Some s \<and> sys_close s = NotClosed \<and> sys_pc s 1 = PopWait ''q''
     \<and> sys_ctx s 1 = Some CtxCanceled \<and> sys_pc s 2 = PopWait ''q'' \<and> sys_ctx s 2 = None
     \<and> (\<exists>q. md_queues (sys_drv s) ''q'' = Some q \<and> mq_notEmpty q) \<and> queued (sys_drv s) ''q'' = [7]"
  by (simp add: contended_def exec_eval queued_def mq_abs_def mq_slot_def)

theorem memory_driver_lost_wakeup_witness:
  "\<exists>s :: nat sys. md_reach 1 s \<and> (\<exists>s1 s2. md_step s s1 \<and> md_step s1 s2 \<and> sys_pc s2 1 = PopDone (Inl CtxCanceled)
     \<and> queued (sys_drv s2) ''q'' \<noteq> [] \<and> sys_pc s2 2 = PopWait ''q'')"
proof -
  obtain s :: "nat sys" and q where s: "exec contended (init_sys 1) = Some s" "sys_close s = NotClosed" "sys_pc s 1 = PopWait ''q''"
    "sys_ctx s 1 = Some CtxCanceled" "sys_pc s 2 = PopWait ''q''" "sys_ctx s 2 = None"
    "md_queues (sys_drv s) ''q'' = Some q" "mq_notEmpty q" "queued (sys_drv s) ''q'' \<noteq> []"
    using contended_run by force
  have r: "md_reach 1 s" using exec_reach [OF md_reach.init s(1)] .
  from memory_driver_lost_wakeup [OF r s(2-9)] r show ?thesis by blast
qed

end
