(* ===== verification/Linked_List.thy ===== *)
theory Linked_List
  imports Prelude "HOL-Library.Mapping"
begin

text \<open>
  Doubly linked lists of heap nodes, as the process-local cache
  (\<open>api/internal/infra/cache/memory.go\<close>) and the process-local rate limiter
  (\<open>api/internal/infra/ratelimit/limiter.go\<close>) thread them through their map entries. A heap maps
  addresses to nodes; a node type supplies its two pointers and their setters. The locale
  \<open>linked\<close> proves once what unlinking a node and pushing a node to the front do to the list of
  addresses; both components interpret it on their own node records.
\<close>

definition heap_upd :: "(nat \<rightharpoonup> 'n) \<Rightarrow> nat \<Rightarrow> ('n \<Rightarrow> 'n) \<Rightarrow> (nat \<rightharpoonup> 'n)" where
  "heap_upd h a f = h(a := map_option f (h a))"

definition first_of :: "nat list \<Rightarrow> nat option \<Rightarrow> nat option" where
  "first_of xs q = (case xs of [] \<Rightarrow> q | y # _ \<Rightarrow> Some y)"

definition last_of :: "nat list \<Rightarrow> nat option \<Rightarrow> nat option" where
  "last_of xs p = (if xs = [] then p else Some (last xs))"

lemma first_of_simps [simp]:
  "first_of [] q = q" "first_of (x # xs) q = Some x"
  "first_of (xs @ ys) q = first_of xs (first_of ys q)"
  by (auto simp: first_of_def split: list.split)

lemma last_of_simps [simp]:
  "last_of [] p = p" "last_of (x # xs) p = last_of xs (Some x)" "last_of (xs @ [x]) p = Some x"
  "last_of (xs @ ys) p = last_of ys (last_of xs p)"
  by (auto simp: last_of_def)

lemma first_of_None [simp]: "first_of xs None = None \<longleftrightarrow> xs = []"
  by (cases xs) auto

lemma last_of_None [simp]: "last_of xs None = None \<longleftrightarrow> xs = []"
  by (simp add: last_of_def)

lemma first_of_not_None [simp]: "first_of xs (Some a) \<noteq> None"
  by (cases xs) auto

lemma last_of_not_None [simp]: "last_of xs (Some a) \<noteq> None"
  by (simp add: last_of_def)

lemma heap_upd_apply [simp]: "heap_upd h a f b = (if b = a then map_option f (h a) else h b)"
  by (simp add: heap_upd_def)

lemma heap_upd_dom [simp]: "dom (heap_upd h a f) = dom h"
  by (auto simp: heap_upd_def dom_def)

locale linked =
  fixes prv :: "'n \<Rightarrow> nat option"
    and nxt :: "'n \<Rightarrow> nat option"
    and set_prv :: "nat option \<Rightarrow> 'n \<Rightarrow> 'n"
    and set_nxt :: "nat option \<Rightarrow> 'n \<Rightarrow> 'n"
    and content :: "'n \<Rightarrow> 'd"
  assumes prv_set_prv [simp]: "prv (set_prv p n) = p"
    and nxt_set_prv [simp]: "nxt (set_prv p n) = nxt n"
    and prv_set_nxt [simp]: "prv (set_nxt q n) = prv n"
    and nxt_set_nxt [simp]: "nxt (set_nxt q n) = q"
    and content_set_prv [simp]: "content (set_prv p n) = content n"
    and content_set_nxt [simp]: "content (set_nxt q n) = content n"
begin

primrec seg :: "(nat \<rightharpoonup> 'n) \<Rightarrow> nat option \<Rightarrow> nat list \<Rightarrow> nat option \<Rightarrow> bool" where
  "seg h p [] q = True"
| "seg h p (x # xs) q =
     (\<exists>n. h x = Some n \<and> prv n = p \<and> nxt n = first_of xs q \<and> seg h (Some x) xs q)"

definition set_next_of :: "nat option \<Rightarrow> nat option \<Rightarrow> (nat \<rightharpoonup> 'n) \<Rightarrow> (nat \<rightharpoonup> 'n)" where
  "set_next_of a q h = (case a of None \<Rightarrow> h | Some x \<Rightarrow> heap_upd h x (set_nxt q))"

definition set_prev_of :: "nat option \<Rightarrow> nat option \<Rightarrow> (nat \<rightharpoonup> 'n) \<Rightarrow> (nat \<rightharpoonup> 'n)" where
  "set_prev_of a p h = (case a of None \<Rightarrow> h | Some x \<Rightarrow> heap_upd h x (set_prv p))"

definition dll :: "(nat \<rightharpoonup> 'n) \<Rightarrow> nat option \<Rightarrow> nat option \<Rightarrow> nat list \<Rightarrow> bool" where
  "dll h hp tp xs \<longleftrightarrow>
     distinct xs \<and> seg h None xs None \<and> hp = first_of xs None \<and> tp = last_of xs None"

definition view_of :: "(nat \<rightharpoonup> 'n) \<Rightarrow> nat list \<Rightarrow> 'd list" where
  "view_of h xs = map (\<lambda>x. content (the (h x))) xs"

lemma seg_append:
  "seg h p (xs @ ys) q \<longleftrightarrow> seg h p xs (first_of ys q) \<and> seg h (last_of xs p) ys q"
  by (induction xs arbitrary: p) auto

lemma seg_frame: "(\<And>x. x \<in> set xs \<Longrightarrow> h' x = h x) \<Longrightarrow> seg h' p xs q = seg h p xs q"
  by (induction xs arbitrary: p) auto

lemma seg_upd_notin [simp]: "a \<notin> set xs \<Longrightarrow> seg (heap_upd h a f) p xs q = seg h p xs q"
  by (rule seg_frame) auto

lemma seg_in_heap: "seg h p xs q \<Longrightarrow> x \<in> set xs \<Longrightarrow> \<exists>n. h x = Some n"
  by (induction xs arbitrary: p) auto

lemma set_next_of_other: "a \<noteq> Some x \<Longrightarrow> set_next_of a q h x = h x"
  by (auto simp: set_next_of_def split: option.split)

lemma set_prev_of_other: "a \<noteq> Some x \<Longrightarrow> set_prev_of a q h x = h x"
  by (auto simp: set_prev_of_def split: option.split)

lemma seg_set_next:
  assumes "seg h p xs q" and "distinct xs"
  shows "seg (set_next_of (last_of xs None) q' h) p xs q'"
proof (cases xs rule: rev_cases)
  case Nil
  then show ?thesis by simp
next
  case (snoc ys y)
  with assms show ?thesis
    by (auto simp: seg_append set_next_of_def)
qed

lemma seg_set_prev:
  assumes "seg h p xs q" and "distinct xs"
  shows "seg (set_prev_of (first_of xs None) p' h) p' xs q"
proof (cases xs)
  case Nil
  then show ?thesis by simp
next
  case (Cons y ys)
  with assms show ?thesis by (auto simp: set_prev_of_def)
qed

lemma last_of_in: "last_of xs None = Some x \<Longrightarrow> x \<in> set xs"
  by (auto simp: last_of_def split: if_splits)

lemma first_of_in: "first_of xs None = Some x \<Longrightarrow> x \<in> set xs"
  by (cases xs) auto

lemma seg_next_frame: "set (map Some xs) \<inter> {a} = {} \<Longrightarrow> seg (set_next_of a q' h) p xs q = seg h p xs q"
  by (rule seg_frame) (auto intro: set_next_of_other)

lemma seg_prev_frame: "set (map Some xs) \<inter> {a} = {} \<Longrightarrow> seg (set_prev_of a q' h) p xs q = seg h p xs q"
  by (rule seg_frame) (auto intro: set_prev_of_other)

lemma dll_node:
  assumes "dll h hp tp (ys @ x # zs)"
  shows "\<exists>n. h x = Some n \<and> prv n = last_of ys None \<and> nxt n = first_of zs None"
  using assms by (auto simp: dll_def seg_append)

lemma dll_unlink:
  assumes d: "dll h hp tp (ys @ x # zs)" and n: "h x = Some n"
  shows "dll (set_prev_of (nxt n) (prv n) (set_next_of (prv n) (nxt n) h))
           (if prv n = None then nxt n else hp) (if nxt n = None then prv n else tp) (ys @ zs)"
proof -
  have pn: "prv n = last_of ys None" "nxt n = first_of zs None"
    using dll_node [OF d] n by auto
  let ?h1 = "set_next_of (prv n) (nxt n) h"
  let ?h2 = "set_prev_of (nxt n) (prv n) ?h1"
  from d have dis: "distinct ys" "distinct zs" "set ys \<inter> set zs = {}" "x \<notin> set ys" "x \<notin> set zs"
    and sy: "seg h None ys (Some x)" and sz: "seg h (Some x) zs None"
    by (auto simp: dll_def seg_append)
  have "seg ?h1 None ys (nxt n)" using seg_set_next [OF sy dis(1)] by (simp add: pn)
  moreover have "set (map Some ys) \<inter> {nxt n} = {}"
    using dis first_of_in [of zs] by (auto simp: pn)
  ultimately have y2: "seg ?h2 None ys (nxt n)" by (simp only: seg_prev_frame)
  have "set (map Some zs) \<inter> {prv n} = {}"
    using dis last_of_in [of ys] by (auto simp: pn)
  then have "seg ?h1 (Some x) zs None" using sz by (simp only: seg_next_frame)
  then have z2: "seg ?h2 (prv n) zs None" using seg_set_prev [OF _ dis(2)] by (simp add: pn)
  from y2 z2 dis d show ?thesis
    by (cases ys; cases zs) (auto simp: dll_def seg_append pn)
qed

lemma dll_push_front:
  assumes d: "dll h hp tp xs" and x: "x \<notin> set xs" and n: "h x = Some n" "prv n = None" "nxt n = hp"
  shows "dll (set_prev_of hp (Some x) h) (Some x) (if hp = None then Some x else tp) (x # xs)"
proof -
  from d have s: "seg h None xs None" and dis: "distinct xs" and hp: "hp = first_of xs None"
    and tp: "tp = last_of xs None"
    by (auto simp: dll_def)
  have "seg (set_prev_of hp (Some x) h) (Some x) xs None"
    using seg_set_prev [OF s dis] by (simp add: hp)
  moreover have "set_prev_of hp (Some x) h x = Some n"
    using n(1) x hp first_of_in [of xs x] by (subst set_prev_of_other) auto
  ultimately show ?thesis
    using dis x n hp tp by (cases xs) (auto simp: dll_def last_of_def)
qed

lemma dll_frame:
  assumes "dll h hp tp xs" and "\<And>x. x \<in> set xs \<Longrightarrow> h' x = h x"
  shows "dll h' hp tp xs"
  using assms seg_frame [of xs h' h] by (simp add: dll_def)

lemma dll_content_upd:
  assumes "dll h hp tp xs" and "\<And>n. prv (f n) = prv n" and "\<And>n. nxt (f n) = nxt n"
  shows "dll (heap_upd h a f) hp tp xs"
proof -
  have "seg (heap_upd h a f) p xs q = seg h p xs q" for p q
    by (induction xs arbitrary: p) (auto simp: heap_upd_def assms(2,3))
  with assms(1) show ?thesis by (simp add: dll_def)
qed

lemma content_upd:
  assumes "\<And>n. content (f n) = content n"
  shows "content (the (heap_upd h a f x)) = content (the (h x))"
  using assms by (cases "h a") auto

lemma content_set_next_of [simp]: "content (the (set_next_of a q h x)) = content (the (h x))"
  by (cases a; cases "h x") (auto simp: set_next_of_def)

lemma content_set_prev_of [simp]: "content (the (set_prev_of a q h x)) = content (the (h x))"
  by (cases a; cases "h x") (auto simp: set_prev_of_def)

lemma dom_set_next_of [simp]: "dom (set_next_of a q h) = dom h"
  by (simp add: set_next_of_def split: option.split)

lemma dom_set_prev_of [simp]: "dom (set_prev_of a q h) = dom h"
  by (simp add: set_prev_of_def split: option.split)

end

text \<open>
  A list of nodes together with the map that finds a node by its key: the shape both components
  keep. The lemmas say what unlinking a node, moving it to the front and pushing a new one do to
  the list, the map and the contents at once.
\<close>

locale linked_index = linked prv nxt set_prv set_nxt content
  for prv :: "'n \<Rightarrow> nat option" and nxt :: "'n \<Rightarrow> nat option"
    and set_prv :: "nat option \<Rightarrow> 'n \<Rightarrow> 'n" and set_nxt :: "nat option \<Rightarrow> 'n \<Rightarrow> 'n"
    and content :: "'n \<Rightarrow> 'd" +
  fixes key :: "'d \<Rightarrow> 'k"
begin

definition keyed :: "(nat \<rightharpoonup> 'n) \<Rightarrow> nat \<Rightarrow> 'k" where
  "keyed h a = key (content (the (h a)))"

definition index_ok :: "(nat \<rightharpoonup> 'n) \<Rightarrow> ('k, nat) mapping \<Rightarrow> nat option \<Rightarrow> nat option \<Rightarrow> nat list \<Rightarrow> bool" where
  "index_ok h m hp tp xs \<longleftrightarrow>
     dll h hp tp xs \<and> (\<forall>k a. Mapping.lookup m k = Some a \<longleftrightarrow> a \<in> set xs \<and> keyed h a = k)"

lemma index_dll: "index_ok h m hp tp xs \<Longrightarrow> dll h hp tp xs"
  by (simp add: index_ok_def)

lemma index_distinct: "index_ok h m hp tp xs \<Longrightarrow> distinct xs"
  by (simp add: index_ok_def dll_def)

lemma index_inj: "index_ok h m hp tp xs \<Longrightarrow> a \<in> set xs \<Longrightarrow> b \<in> set xs \<Longrightarrow> keyed h a = keyed h b \<Longrightarrow> a = b"
  unfolding index_ok_def by (metis option.inject)

lemma view_keys: "map key (view_of h xs) = map (keyed h) xs"
  by (simp add: view_of_def keyed_def)

lemma index_distinct_keys: "index_ok h m hp tp xs \<Longrightarrow> distinct (map key (view_of h xs))"
  unfolding view_keys distinct_map by (auto simp: inj_on_def index_distinct intro: index_inj)

lemma index_lookup_Some:
  "index_ok h m hp tp xs \<Longrightarrow> Mapping.lookup m k = Some a \<longleftrightarrow> a \<in> set xs \<and> keyed h a = k"
  by (simp add: index_ok_def)

lemma index_lookup_None:
  assumes "index_ok h m hp tp xs"
  shows "Mapping.lookup m k = None \<longleftrightarrow> k \<notin> set (map key (view_of h xs))"
proof (cases "Mapping.lookup m k")
  case None
  then have "a \<in> set xs \<Longrightarrow> keyed h a \<noteq> k" for a
    using assms unfolding index_ok_def by (metis option.distinct(1))
  with None show ?thesis unfolding view_keys by auto
next
  case (Some a)
  with assms have "a \<in> set xs" "keyed h a = k" by (auto simp: index_ok_def)
  with Some show ?thesis unfolding view_keys by auto
qed

lemma index_keys: "index_ok h m hp tp xs \<Longrightarrow> Mapping.keys m = set (map key (view_of h xs))"
  by (simp only: keys_dom_lookup dom_def index_lookup_None Collect_neg_eq [symmetric]) simp

lemma index_size: "index_ok h m hp tp xs \<Longrightarrow> Mapping.size m = length xs"
  unfolding Mapping.size_def
  by (simp only: index_keys distinct_card [OF index_distinct_keys]) (simp add: view_of_def)

lemma index_node:
  assumes "index_ok h m hp tp xs" and "a \<in> set xs"
  obtains n where "h a = Some n"
  using assms seg_in_heap [of h None xs None a] that by (auto simp: index_ok_def dll_def)

lemma keyed_eq: "content (the (h' a)) = content (the (h a)) \<Longrightarrow> keyed h' a = keyed h a"
  by (simp add: keyed_def)

lemma view_cong: "(\<And>a. a \<in> set xs \<Longrightarrow> content (the (h' a)) = content (the (h a))) \<Longrightarrow> view_of h' xs = view_of h xs"
  by (simp add: view_of_def)

text \<open>\<open>unlinked h a\<close> is the heap after the two neighbour updates of an unlink.\<close>

definition unlinked :: "(nat \<rightharpoonup> 'n) \<Rightarrow> 'n \<Rightarrow> (nat \<rightharpoonup> 'n)" where
  "unlinked h n = set_prev_of (nxt n) (prv n) (set_next_of (prv n) (nxt n) h)"

lemma content_unlinked [simp]: "content (the (unlinked h n x)) = content (the (h x))"
  by (simp add: unlinked_def)

lemma dom_unlinked [simp]: "dom (unlinked h n) = dom h"
  by (simp add: unlinked_def)

lemma index_unlink:
  assumes ix: "index_ok h m hp tp (ys @ a # zs)" and n: "h a = Some n"
    and h': "\<And>x. x \<noteq> a \<Longrightarrow> h' x = unlinked h n x"
  shows "index_ok h' (Mapping.delete (keyed h a) m)
      (if prv n = None then nxt n else hp) (if nxt n = None then prv n else tp) (ys @ zs)"
    and "view_of h' (ys @ zs) = view_of h (ys @ zs)"
proof -
  from index_distinct [OF ix] have dis: "a \<notin> set (ys @ zs)" by simp
  have d: "dll h' (if prv n = None then nxt n else hp) (if nxt n = None then prv n else tp) (ys @ zs)"
  proof (rule dll_frame [OF dll_unlink [OF index_dll [OF ix] n]])
    fix x assume "x \<in> set (ys @ zs)"
    then have "x \<noteq> a" using dis by metis
    then show "h' x = set_prev_of (nxt n) (prv n) (set_next_of (prv n) (nxt n) h) x"
      using h' [of x] by (simp only: unlinked_def) blast
  qed
  have same: "content (the (h' x)) = content (the (h x))" if "x \<in> set (ys @ zs)" for x
  proof -
    have "x \<noteq> a" using that dis by metis
    with h' [of x] show ?thesis by simp
  qed
  show "view_of h' (ys @ zs) = view_of h (ys @ zs)" using same by (intro view_cong) auto
  have kx: "keyed h x \<noteq> keyed h a" if "x \<in> set (ys @ zs)" for x
    using index_inj [OF ix, of x a] that dis by auto
  have ky: "keyed h' x = keyed h x" if "x \<in> set (ys @ zs)" for x
    using same [OF that] by (simp only: keyed_def)
  have "Mapping.lookup (Mapping.delete (keyed h a) m) k = Some x \<longleftrightarrow> x \<in> set (ys @ zs) \<and> keyed h' x = k" for k x
  proof (cases "k = keyed h a")
    case True
    then show ?thesis using kx [of x] ky [of x] by auto
  next
    case False
    then show ?thesis using index_lookup_Some [OF ix, of k x] ky [of x] by auto
  qed
  with d show "index_ok h' (Mapping.delete (keyed h a) m)
      (if prv n = None then nxt n else hp) (if nxt n = None then prv n else tp) (ys @ zs)"
    by (simp add: index_ok_def)
qed

lemma index_push:
  assumes ix: "index_ok h m hp tp xs" and a: "a \<notin> set xs" and fresh: "key (content n) \<notin> set (map key (view_of h xs))"
    and n: "prv n = None" "nxt n = hp"
  shows "index_ok (set_prev_of hp (Some a) (h(a \<mapsto> n))) (Mapping.update (key (content n)) a m)
      (Some a) (if hp = None then Some a else tp) (a # xs)"
    and "view_of (set_prev_of hp (Some a) (h(a \<mapsto> n))) (a # xs) = content n # view_of h xs"
proof -
  let ?h = "h(a \<mapsto> n)" and ?h' = "set_prev_of hp (Some a) (h(a \<mapsto> n))"
  have "dll ?h hp tp xs" by (rule dll_frame [OF index_dll [OF ix]]) (use a in auto)
  from dll_push_front [OF this a _ n] have d: "dll ?h' (Some a) (if hp = None then Some a else tp) (a # xs)" by simp
  have same: "content (the (?h' x)) = (if x = a then content n else content (the (h x)))" for x by simp
  show "view_of ?h' (a # xs) = content n # view_of h xs"
    using a by (auto simp: view_of_def)
  have ky: "keyed ?h' x = (if x = a then key (content n) else keyed h x)" for x
    by (simp add: keyed_def)
  have old: "x \<in> set xs \<Longrightarrow> keyed h x \<noteq> key (content n)" for x
    using fresh unfolding view_keys set_map by (metis imageI)
  have "Mapping.lookup (Mapping.update (key (content n)) a m) k = Some x \<longleftrightarrow>
      x \<in> set (a # xs) \<and> keyed ?h' x = k" for k x
    using index_lookup_Some [OF ix, of k x] a old by (auto simp: lookup_update' ky)
  with d show "index_ok ?h' (Mapping.update (key (content n)) a m) (Some a) (if hp = None then Some a else tp) (a # xs)"
    by (simp add: index_ok_def)
qed

lemma index_move:
  assumes ix: "index_ok h m hp tp (ys @ a # zs)" and n: "h a = Some n" and nf: "hp \<noteq> Some a"
    and clear: "\<And>e. prv (clear e) = None" "\<And>e. nxt (clear e) = hp" "\<And>e. content (clear e) = content e"
  defines "h' \<equiv> set_prev_of hp (Some a) (heap_upd (unlinked h n) a clear)"
  shows "index_ok h' m (Some a) (if nxt n = None then prv n else tp) (a # ys @ zs)"
    and "view_of h' (a # ys @ zs) = content n # view_of h (ys @ zs)"
proof -
  from index_distinct [OF ix] have dis: "a \<notin> set (ys @ zs)" by simp
  have d: "dll h hp tp (ys @ a # zs)" by (rule index_dll [OF ix])
  then have "ys \<noteq> []" using nf by (auto simp: dll_def)
  moreover have "prv n = last_of ys None" using dll_node [OF d] n by auto
  ultimately have new: "prv n \<noteq> None" by simp
  have hp: "hp \<noteq> None" using d by (simp add: dll_def)
  let ?h3 = "heap_upd (unlinked h n) a clear"
  have "dll (unlinked h n) hp (if nxt n = None then prv n else tp) (ys @ zs)"
    using dll_unlink [OF d n] new by (simp add: unlinked_def)
  then have d3: "dll ?h3 hp (if nxt n = None then prv n else tp) (ys @ zs)"
    by (rule dll_frame) (use dis in auto)
  have "a \<in> dom (unlinked h n)" using n by (simp add: domI)
  then obtain k where k: "unlinked h n a = Some k" unfolding dom_def by blast
  have d4: "dll h' (Some a) (if nxt n = None then prv n else tp) (a # ys @ zs)"
    using dll_push_front [OF d3 dis, of "clear k"] clear hp k by (simp add: h'_def)
  have same: "content (the (h' x)) = content (the (h x))" for x
  proof -
    have "content (the (?h3 x)) = content (the (unlinked h n x))" by (rule content_upd) (simp add: clear)
    then show ?thesis by (simp add: h'_def del: heap_upd_apply)
  qed
  then show "view_of h' (a # ys @ zs) = content n # view_of h (ys @ zs)"
    by (simp add: view_of_def n)
  have "keyed h' x = keyed h x" for x by (rule keyed_eq [OF same])
  with ix d4 show "index_ok h' m (Some a) (if nxt n = None then prv n else tp) (a # ys @ zs)"
    by (auto simp: index_ok_def)
qed

lemma index_content_upd:
  assumes ix: "index_ok h m hp tp xs"
    and f: "\<And>n. prv (f n) = prv n" "\<And>n. nxt (f n) = nxt n" "\<And>n. key (content (f n)) = key (content n)"
  shows "index_ok (heap_upd h a f) m hp tp xs"
proof -
  have "dll (heap_upd h a f) hp tp xs" by (rule dll_content_upd [OF index_dll [OF ix] f(1,2)])
  moreover have "keyed (heap_upd h a f) x = keyed h x" if "x \<in> set xs" for x
  proof -
    from index_node [OF ix that] obtain n where "h x = Some n" .
    then show ?thesis by (cases "x = a") (simp_all add: keyed_def f(3))
  qed
  then have "Mapping.lookup m k = Some b \<longleftrightarrow> b \<in> set xs \<and> keyed (heap_upd h a f) b = k" for k b
    using index_lookup_Some [OF ix, of k b] by (cases "b \<in> set xs") auto
  ultimately show ?thesis by (simp only: index_ok_def simp_thms)
qed

end

end
