(* ===== verification/Cache_Memory.thy ===== *)
theory Cache_Memory
  imports Linked_List
begin

text \<open>
  The process-local cache, \<open>MemoryStore\<close> of \<open>api/internal/infra/cache/memory.go\<close>, with the
  validators of \<open>store.go\<close>. The store is a Go map from keys to heap-allocated entries that also
  form a doubly linked list from the newest to the oldest entry; the model keeps the heap, the map
  and the two end pointers and mutates them as the code does. The specification is a list of items,
  newest first. \<open>Cache_Refinement\<close> proves that the one implements the other.

  A context is either nil or the pair of answers its \<open>Err()\<close> gives before and after the lock is
  taken. The clock reading an operation makes is an argument.
\<close>

subsection \<open>Errors and validators (\<open>store.go\<close>)\<close>

datatype cache_error =
    ErrCacheMiss
  | ErrInvalidKey
  | ErrInvalidTTL
  | ErrValueTooLarge
  | ErrInvalidCapacity
  | ErrNilDependency
  | ErrContext string

datatype go_ctx = NilCtx | GoCtx "cache_error option" "cache_error option"

definition max_key_bytes :: nat where
  "max_key_bytes = 1024"

definition default_max_item_bytes :: int where
  "default_max_item_bytes = 1048576"

definition validate_context :: "go_ctx \<Rightarrow> cache_error option" where
  "validate_context ctx = (case ctx of NilCtx \<Rightarrow> Some ErrNilDependency | GoCtx e _ \<Rightarrow> e)"

definition locked_context :: "go_ctx \<Rightarrow> cache_error option" where
  "locked_context ctx = (case ctx of NilCtx \<Rightarrow> None | GoCtx _ e \<Rightarrow> e)"

definition validate_key :: "string \<Rightarrow> cache_error option" where
  "validate_key key =
     (if length key = 0 \<or> length key > max_key_bytes then Some ErrInvalidKey else None)"

definition validate_ttl :: "duration \<Rightarrow> cache_error option" where
  "validate_ttl ttl = (if ttl \<le> 0 then Some ErrInvalidTTL else None)"

definition validate_item_size :: "'b list \<Rightarrow> int \<Rightarrow> cache_error option" where
  "validate_item_size v maxItemBytes =
     (if int (length v) > maxItemBytes then Some ErrValueTooLarge else None)"

subsection \<open>State\<close>

record 'b cache_entry =
  ce_key :: string
  ce_value :: "'b list"
  ce_expiresAt :: "instant option"
  ce_newer :: "nat option"
  ce_older :: "nat option"

record 'b cache_store =
  cs_heap :: "nat \<rightharpoonup> 'b cache_entry"
  cs_alloc :: nat
  cs_entries :: "(string, nat) mapping"
  cs_newest :: "nat option"
  cs_oldest :: "nat option"
  cs_maxEntries :: int
  cs_maxBytes :: int
  cs_maxItemBytes :: int
  cs_payloadBytes :: int

record cache_config =
  cc_maxEntries :: int
  cc_maxBytes :: int
  cc_maxItemBytes :: int

record cache_stats =
  st_entries :: int
  st_payloadBytes :: int
  st_maxEntries :: int
  st_maxBytes :: int

definition default_memory_max_entries :: int where
  "default_memory_max_entries = 10000"

definition default_memory_max_bytes :: int where
  "default_memory_max_bytes = 67108864"

definition normalize_config :: "cache_config \<Rightarrow> cache_config" where
  "normalize_config c =
     (let c1 = (if cc_maxEntries c = 0 then c\<lparr>cc_maxEntries := default_memory_max_entries\<rparr> else c);
          c2 = (if cc_maxBytes c1 = 0 then c1\<lparr>cc_maxBytes := default_memory_max_bytes\<rparr> else c1)
      in if cc_maxItemBytes c2 = 0
         then (if default_max_item_bytes > cc_maxBytes c2
               then c2\<lparr>cc_maxItemBytes := cc_maxBytes c2\<rparr>
               else c2\<lparr>cc_maxItemBytes := default_max_item_bytes\<rparr>)
         else c2)"

definition new_memory_store :: "cache_config \<Rightarrow> cache_error + 'b cache_store" where
  "new_memory_store config =
     (let c = normalize_config config
      in if cc_maxEntries c < 0 \<or> cc_maxBytes c < 0 \<or> cc_maxItemBytes c < 0
            \<or> cc_maxEntries c = 0 \<or> cc_maxBytes c = 0 \<or> cc_maxItemBytes c = 0
         then Inl ErrInvalidCapacity
         else if cc_maxItemBytes c > cc_maxBytes c then Inl ErrInvalidCapacity
         else Inr \<lparr>cs_heap = Map.empty, cs_alloc = 0, cs_entries = Mapping.empty,
                   cs_newest = None, cs_oldest = None, cs_maxEntries = cc_maxEntries c,
                   cs_maxBytes = cc_maxBytes c, cs_maxItemBytes = cc_maxItemBytes c,
                   cs_payloadBytes = 0\<rparr>)"

definition ce_expired :: "'b cache_entry \<Rightarrow> instant \<Rightarrow> bool" where
  "ce_expired e now = (case ce_expiresAt e of None \<Rightarrow> False | Some t \<Rightarrow> \<not> now < t)"

definition entry_weight :: "string \<Rightarrow> 'b list \<Rightarrow> int" where
  "entry_weight key v = int (length key + length v)"

subsection \<open>The linked list operations\<close>

definition write_older :: "nat option \<Rightarrow> nat option \<Rightarrow> (nat \<rightharpoonup> 'b cache_entry) \<Rightarrow> (nat \<rightharpoonup> 'b cache_entry)" where
  "write_older p q h = (case p of None \<Rightarrow> h | Some a \<Rightarrow> heap_upd h a (\<lambda>e. e\<lparr>ce_older := q\<rparr>))"

definition write_newer :: "nat option \<Rightarrow> nat option \<Rightarrow> (nat \<rightharpoonup> 'b cache_entry) \<Rightarrow> (nat \<rightharpoonup> 'b cache_entry)" where
  "write_newer p q h = (case p of None \<Rightarrow> h | Some a \<Rightarrow> heap_upd h a (\<lambda>e. e\<lparr>ce_newer := q\<rparr>))"

definition entry_at :: "'b cache_store \<Rightarrow> nat \<Rightarrow> 'b cache_entry" where
  "entry_at s a = the (cs_heap s a)"

definition remove_locked :: "nat option \<Rightarrow> 'b cache_store \<Rightarrow> 'b cache_store" where
  "remove_locked p s =
     (case p of None \<Rightarrow> s
      | Some a \<Rightarrow>
          (let e = entry_at s a;
               h1 = write_older (ce_newer e) (ce_older e) (cs_heap s);
               newest = (if ce_newer e = None then ce_older e else cs_newest s);
               h2 = write_newer (ce_older e) (ce_newer e) h1;
               oldest = (if ce_older e = None then ce_newer e else cs_oldest s)
           in s\<lparr>cs_heap := heap_upd h2 a (\<lambda>e. e\<lparr>ce_newer := None, ce_older := None\<rparr>),
                cs_newest := newest, cs_oldest := oldest,
                cs_entries := Mapping.delete (ce_key e) (cs_entries s),
                cs_payloadBytes := cs_payloadBytes s - entry_weight (ce_key e) (ce_value e)\<rparr>))"

definition insert_newest_locked ::
    "string \<Rightarrow> 'b list \<Rightarrow> instant option \<Rightarrow> 'b cache_store \<Rightarrow> 'b cache_store" where
  "insert_newest_locked key v expiresAt s =
     (let a = cs_alloc s;
          e = \<lparr>ce_key = key, ce_value = v, ce_expiresAt = expiresAt,
               ce_newer = None, ce_older = cs_newest s\<rparr>;
          h1 = write_newer (cs_newest s) (Some a) ((cs_heap s)(a \<mapsto> e));
          oldest = (if cs_newest s = None then Some a else cs_oldest s)
      in s\<lparr>cs_heap := h1, cs_alloc := a + 1, cs_oldest := oldest, cs_newest := Some a,
           cs_entries := Mapping.update key a (cs_entries s),
           cs_payloadBytes := cs_payloadBytes s + entry_weight key v\<rparr>)"

definition move_to_newest_locked :: "nat \<Rightarrow> 'b cache_store \<Rightarrow> 'b cache_store" where
  "move_to_newest_locked a s =
     (if cs_newest s = Some a then s
      else let e = entry_at s a;
               h1 = write_older (ce_newer e) (ce_older e) (cs_heap s);
               h2 = write_newer (ce_older e) (ce_newer e) h1;
               oldest = (if ce_older e = None then ce_newer e else cs_oldest s);
               h3 = heap_upd h2 a (\<lambda>e. e\<lparr>ce_newer := None, ce_older := cs_newest s\<rparr>);
               h4 = write_newer (cs_newest s) (Some a) h3
           in s\<lparr>cs_heap := h4, cs_oldest := oldest, cs_newest := Some a\<rparr>)"

partial_function (option) make_room_locked :: "int \<Rightarrow> 'b cache_store \<Rightarrow> 'b cache_store option" where
  "make_room_locked weight s =
     (if int (Mapping.size (cs_entries s)) \<ge> cs_maxEntries s
         \<or> cs_payloadBytes s + weight > cs_maxBytes s
      then make_room_locked weight (remove_locked (cs_oldest s) s)
      else Some s)"

definition remove_expired_key :: "instant \<Rightarrow> string \<Rightarrow> 'b cache_store \<Rightarrow> 'b cache_store" where
  "remove_expired_key now key s =
     (case Mapping.lookup (cs_entries s) key of None \<Rightarrow> s
      | Some a \<Rightarrow> if ce_expired (entry_at s a) now then remove_locked (Some a) s else s)"

definition remove_expired_locked ::
    "(string set \<Rightarrow> string list) \<Rightarrow> instant \<Rightarrow> 'b cache_store \<Rightarrow> 'b cache_store" where
  "remove_expired_locked ord now s =
     fold (remove_expired_key now) (ord (Mapping.keys (cs_entries s))) s"

subsection \<open>The operations\<close>

definition cache_get ::
    "go_ctx \<Rightarrow> instant \<Rightarrow> string \<Rightarrow> 'b cache_store \<Rightarrow> (cache_error + 'b list) \<times> 'b cache_store" where
  "cache_get ctx now key s =
     (case first_err [validate_context ctx, validate_key key, locked_context ctx] of
        Some e \<Rightarrow> (Inl e, s)
      | None \<Rightarrow>
          (case Mapping.lookup (cs_entries s) key of
             None \<Rightarrow> (Inl ErrCacheMiss, s)
           | Some a \<Rightarrow>
               (if ce_expired (entry_at s a) now then (Inl ErrCacheMiss, remove_locked (Some a) s)
                else (Inr (ce_value (entry_at s a)), move_to_newest_locked a s))))"

definition cache_store_value ::
    "go_ctx \<Rightarrow> instant \<Rightarrow> string \<Rightarrow> 'b list \<Rightarrow> duration \<Rightarrow> 'b cache_store
     \<Rightarrow> ((cache_error + unit) \<times> 'b cache_store) option" where
  "cache_store_value ctx now key v ttl s =
     (case first_err [validate_context ctx, validate_key key,
                      validate_item_size v (cs_maxItemBytes s),
                      if entry_weight key v > cs_maxBytes s then Some ErrValueTooLarge else None,
                      locked_context ctx] of
        Some e \<Rightarrow> Some (Inl e, s)
      | None \<Rightarrow>
          (let s1 = (case Mapping.lookup (cs_entries s) key of None \<Rightarrow> s
                     | Some a \<Rightarrow> remove_locked (Some a) s);
               expiresAt = (if ttl > 0 then Some (now + ttl) else None)
           in case make_room_locked (entry_weight key v) s1 of
                None \<Rightarrow> None
              | Some s2 \<Rightarrow> Some (Inr (), insert_newest_locked key v expiresAt s2)))"

definition cache_set ::
    "go_ctx \<Rightarrow> instant \<Rightarrow> string \<Rightarrow> 'b list \<Rightarrow> duration \<Rightarrow> 'b cache_store
     \<Rightarrow> ((cache_error + unit) \<times> 'b cache_store) option" where
  "cache_set ctx now key v ttl s =
     (case validate_ttl ttl of Some e \<Rightarrow> Some (Inl e, s)
      | None \<Rightarrow> cache_store_value ctx now key v ttl s)"

definition cache_set_forever ::
    "go_ctx \<Rightarrow> instant \<Rightarrow> string \<Rightarrow> 'b list \<Rightarrow> 'b cache_store
     \<Rightarrow> ((cache_error + unit) \<times> 'b cache_store) option" where
  "cache_set_forever ctx now key v s = cache_store_value ctx now key v 0 s"

definition cache_add ::
    "go_ctx \<Rightarrow> instant \<Rightarrow> string \<Rightarrow> 'b list \<Rightarrow> duration \<Rightarrow> 'b cache_store
     \<Rightarrow> ((cache_error + bool) \<times> 'b cache_store) option" where
  "cache_add ctx now key v ttl s =
     (case first_err [validate_context ctx, validate_key key, validate_ttl ttl,
                      validate_item_size v (cs_maxItemBytes s),
                      if entry_weight key v > cs_maxBytes s then Some ErrValueTooLarge else None,
                      locked_context ctx] of
        Some e \<Rightarrow> Some (Inl e, s)
      | None \<Rightarrow>
          (let fresh = (\<lambda>s1. case make_room_locked (entry_weight key v) s1 of
                          None \<Rightarrow> None
                        | Some s2 \<Rightarrow> Some (Inr True, insert_newest_locked key v (Some (now + ttl)) s2))
           in case Mapping.lookup (cs_entries s) key of
                None \<Rightarrow> fresh s
              | Some a \<Rightarrow>
                  (if \<not> ce_expired (entry_at s a) now
                   then Some (Inr False, move_to_newest_locked a s)
                   else fresh (remove_locked (Some a) s))))"

definition cache_take ::
    "go_ctx \<Rightarrow> instant \<Rightarrow> string \<Rightarrow> 'b cache_store \<Rightarrow> (cache_error + 'b list) \<times> 'b cache_store" where
  "cache_take ctx now key s =
     (case first_err [validate_context ctx, validate_key key, locked_context ctx] of
        Some e \<Rightarrow> (Inl e, s)
      | None \<Rightarrow>
          (case Mapping.lookup (cs_entries s) key of
             None \<Rightarrow> (Inl ErrCacheMiss, s)
           | Some a \<Rightarrow>
               (let s' = remove_locked (Some a) s
                in if ce_expired (entry_at s a) now then (Inl ErrCacheMiss, s')
                   else (Inr (ce_value (entry_at s a)), s'))))"

definition cache_delete ::
    "go_ctx \<Rightarrow> string \<Rightarrow> 'b cache_store \<Rightarrow> (cache_error + unit) \<times> 'b cache_store" where
  "cache_delete ctx key s =
     (case first_err [validate_context ctx, validate_key key, locked_context ctx] of
        Some e \<Rightarrow> (Inl e, s)
      | None \<Rightarrow>
          (case Mapping.lookup (cs_entries s) key of
             None \<Rightarrow> (Inr (), s)
           | Some a \<Rightarrow> (Inr (), remove_locked (Some a) s)))"

definition cache_clear :: "go_ctx \<Rightarrow> 'b cache_store \<Rightarrow> (cache_error + unit) \<times> 'b cache_store" where
  "cache_clear ctx s =
     (case first_err [validate_context ctx, locked_context ctx] of
        Some e \<Rightarrow> (Inl e, s)
      | None \<Rightarrow> (Inr (), s\<lparr>cs_entries := Mapping.empty, cs_newest := None, cs_oldest := None,
                           cs_payloadBytes := 0\<rparr>))"

definition cache_stats_of ::
    "(string set \<Rightarrow> string list) \<Rightarrow> instant \<Rightarrow> 'b cache_store \<Rightarrow> cache_stats \<times> 'b cache_store" where
  "cache_stats_of ord now s =
     (let s' = remove_expired_locked ord now s
      in (\<lparr>st_entries = int (Mapping.size (cs_entries s')), st_payloadBytes = cs_payloadBytes s',
           st_maxEntries = cs_maxEntries s', st_maxBytes = cs_maxBytes s'\<rparr>, s'))"

definition cache_len ::
    "(string set \<Rightarrow> string list) \<Rightarrow> instant \<Rightarrow> 'b cache_store \<Rightarrow> int \<times> 'b cache_store" where
  "cache_len ord now s = (let (st, s') = cache_stats_of ord now s in (st_entries st, s'))"

end
