(* ===== verification/Cache_Refinement.thy ===== *)
theory Cache_Refinement
  imports Cache_Memory
begin

text \<open>
  The cache's specification, a list of items with the most recently used first, and the proof that
  the heap implementation of \<open>Cache_Memory\<close> refines it. \<open>cache_rel s its\<close> relates a store to
  its item list; each linked-list operation is shown to act on the list once, and the public
  operations follow.
\<close>

type_synonym 'b item = "string \<times> 'b list \<times> instant option"

subsection \<open>Specification\<close>

definition item_weight :: "'b item \<Rightarrow> int" where
  "item_weight i = entry_weight (fst i) (fst (snd i))"

definition items_bytes :: "'b item list \<Rightarrow> int" where
  "items_bytes its = (\<Sum>i\<leftarrow>its. item_weight i)"

definition item_live :: "instant \<Rightarrow> 'b item \<Rightarrow> bool" where
  "item_live now i = (case snd (snd i) of None \<Rightarrow> True | Some t \<Rightarrow> now < t)"

definition without :: "string \<Rightarrow> 'b item list \<Rightarrow> 'b item list" where
  "without k its = filter (\<lambda>i. fst i \<noteq> k) its"

text \<open>Room for one more item of weight \<open>w\<close>: the least recently used items go until the new one
  fits both bounds.\<close>

function spec_room :: "int \<Rightarrow> int \<Rightarrow> int \<Rightarrow> 'b item list \<Rightarrow> 'b item list" where
  "spec_room maxE maxB w its =
     (if its \<noteq> [] \<and> (int (length its) \<ge> maxE \<or> items_bytes its + w > maxB)
      then spec_room maxE maxB w (butlast its) else its)"
  by pat_completeness auto
termination
  by (relation "measure (\<lambda>(_, _, _, its). length its)") auto

declare spec_room.simps [simp del]

lemma spec_room_stop:
  "its = [] \<or> int (length its) < maxE \<and> items_bytes its + w \<le> maxB \<Longrightarrow> spec_room maxE maxB w its = its"
  by (subst spec_room.simps) auto

lemma spec_room_evict:
  "its \<noteq> [] \<Longrightarrow> int (length its) \<ge> maxE \<or> items_bytes its + w > maxB \<Longrightarrow>
     spec_room maxE maxB w its = spec_room maxE maxB w (butlast its)"
  by (subst spec_room.simps) simp

fun spec_touch :: "instant \<Rightarrow> string \<Rightarrow> 'b item list \<Rightarrow> (cache_error + 'b list) \<times> 'b item list" where
  "spec_touch now k its =
     (case map_of its k of
        None \<Rightarrow> (Inl ErrCacheMiss, its)
      | Some p \<Rightarrow> if item_live now (k, p) then (Inr (fst p), (k, p) # without k its)
                  else (Inl ErrCacheMiss, without k its))"

subsection \<open>The representation relation\<close>

definition item_of :: "'b cache_entry \<Rightarrow> 'b item" where
  "item_of e = (ce_key e, ce_value e, ce_expiresAt e)"

interpretation cl: linked ce_newer ce_older
  "\<lambda>p e. e\<lparr>ce_newer := p\<rparr>" "\<lambda>q e. e\<lparr>ce_older := q\<rparr>" item_of
  by unfold_locales (simp_all add: item_of_def)

lemma write_older_eq: "write_older = cl.set_next_of"
  by (simp add: fun_eq_iff write_older_def cl.set_next_of_def)

lemma write_newer_eq: "write_newer = cl.set_prev_of"
  by (simp add: fun_eq_iff write_newer_def cl.set_prev_of_def)

definition rep :: "'b cache_store \<Rightarrow> nat list \<Rightarrow> 'b item list \<Rightarrow> bool" where
  "rep s xs its \<longleftrightarrow>
     cl.dll (cs_heap s) (cs_newest s) (cs_oldest s) xs
     \<and> its = cl.view_of (cs_heap s) xs
     \<and> (\<forall>k a. Mapping.lookup (cs_entries s) k = Some a \<longleftrightarrow> a \<in> set xs \<and> ce_key (entry_at s a) = k)
     \<and> (\<forall>a \<in> dom (cs_heap s). a < cs_alloc s)
     \<and> cs_payloadBytes s = items_bytes its"

definition cache_rel :: "'b cache_store \<Rightarrow> 'b item list \<Rightarrow> bool" where
  "cache_rel s its \<longleftrightarrow> (\<exists>xs. rep s xs its)"

lemma key_item_of [simp]: "fst (item_of e) = ce_key e"
  by (simp add: item_of_def)

lemma rep_key: "rep s xs its \<Longrightarrow> map fst its = map (\<lambda>a. ce_key (entry_at s a)) xs"
  by (simp add: rep_def cl.view_of_def entry_at_def comp_def)

lemma rep_distinct_keys:
  assumes "rep s xs its"
  shows "distinct (map fst its)"
proof -
  have "inj_on (\<lambda>a. ce_key (entry_at s a)) (set xs)"
    using assms unfolding rep_def inj_on_def by (metis option.inject)
  with assms show ?thesis
    by (simp add: rep_key [OF assms] distinct_map) (simp add: rep_def cl.dll_def)
qed

lemma rel_distinct_keys: "cache_rel s its \<Longrightarrow> distinct (map fst its)"
  by (auto simp: cache_rel_def intro: rep_distinct_keys)

lemma rep_lookup:
  assumes "rep s xs its"
  shows "Mapping.lookup (cs_entries s) k = None \<longleftrightarrow> map_of its k = None"
proof -
  have "fst ` set its = (\<lambda>a. ce_key (entry_at s a)) ` set xs"
    using arg_cong [OF rep_key [OF assms], of set] by simp
  moreover have "Mapping.lookup (cs_entries s) k = None \<longleftrightarrow> k \<notin> (\<lambda>a. ce_key (entry_at s a)) ` set xs"
    using assms unfolding rep_def by (metis (no_types, lifting) imageE imageI not_Some_eq)
  ultimately show ?thesis by (simp add: map_of_eq_None_iff)
qed

lemma rep_lookup_Some:
  assumes "rep s xs its" and "Mapping.lookup (cs_entries s) k = Some a"
  shows "a \<in> set xs" and "ce_key (entry_at s a) = k"
    and "map_of its k = Some (ce_value (entry_at s a), ce_expiresAt (entry_at s a))"
proof -
  show a: "a \<in> set xs" and k: "ce_key (entry_at s a) = k"
    using assms by (auto simp: rep_def)
  have "item_of (entry_at s a) \<in> set its"
    using assms(1) a by (auto simp: rep_def cl.view_of_def entry_at_def)
  then show "map_of its k = Some (ce_value (entry_at s a), ce_expiresAt (entry_at s a))"
    using rep_distinct_keys [OF assms(1)] k by (auto simp: item_of_def intro: map_of_is_SomeI)
qed

lemma rel_size:
  assumes "cache_rel s its"
  shows "Mapping.size (cs_entries s) = length its"
proof -
  from assms obtain xs where r: "rep s xs its" by (auto simp: cache_rel_def)
  have "Mapping.keys (cs_entries s) = fst ` set its"
    using rep_lookup [OF r]
    by (simp only: keys_dom_lookup dom_map_of_conv_image_fst [symmetric] set_eq_iff domIff) simp
  moreover have "card (fst ` set its) = length its"
    using rep_distinct_keys [OF r] by (metis distinct_card image_set length_map)
  ultimately show ?thesis by (simp add: Mapping.size_def)
qed

subsection \<open>Unlinking\<close>

lemma entry_at_simps [simp]:
  "entry_at (s\<lparr>cs_entries := m\<rparr>) a = entry_at s a"
  by (simp add: entry_at_def)

lemma item_of_entry_at: "item_of (entry_at s a) = (ce_key (entry_at s a), ce_value (entry_at s a), ce_expiresAt (entry_at s a))"
  by (simp add: item_of_def)

lemma remove_locked_config [simp]:
  "cs_maxEntries (remove_locked p s) = cs_maxEntries s"
  "cs_maxBytes (remove_locked p s) = cs_maxBytes s"
  "cs_maxItemBytes (remove_locked p s) = cs_maxItemBytes s"
  by (simp_all add: remove_locked_def Let_def split: option.split)

lemma insert_newest_config [simp]:
  "cs_maxEntries (insert_newest_locked k v e s) = cs_maxEntries s"
  "cs_maxBytes (insert_newest_locked k v e s) = cs_maxBytes s"
  "cs_maxItemBytes (insert_newest_locked k v e s) = cs_maxItemBytes s"
  by (simp_all add: insert_newest_locked_def Let_def)

lemma move_to_newest_config [simp]:
  "cs_maxEntries (move_to_newest_locked a s) = cs_maxEntries s"
  "cs_maxBytes (move_to_newest_locked a s) = cs_maxBytes s"
  "cs_maxItemBytes (move_to_newest_locked a s) = cs_maxItemBytes s"
  by (simp_all add: move_to_newest_locked_def Let_def)

lemma items_bytes_simps [simp]:
  "items_bytes [] = 0" "items_bytes (i # its) = item_weight i + items_bytes its"
  "items_bytes (its @ jts) = items_bytes its + items_bytes jts"
  by (simp_all add: items_bytes_def)

lemma rep_without:
  assumes r: "rep s (ys @ a # zs) its"
  shows "without (ce_key (entry_at s a)) its = cl.view_of (cs_heap s) (ys @ zs)"
proof -
  have "its = cl.view_of (cs_heap s) (ys @ a # zs)" using r by (simp add: rep_def)
  moreover have "x \<in> set (ys @ zs) \<Longrightarrow> ce_key (entry_at s x) \<noteq> ce_key (entry_at s a)" for x
    using rep_distinct_keys [OF r] by (simp add: rep_key [OF r] image_iff) (metis Un_iff set_append)
  ultimately show ?thesis
    by (auto simp: without_def cl.view_of_def entry_at_def filter_map comp_def intro!: filter_True)
qed

lemma remove_locked_rep:
  assumes r: "rep s (ys @ a # zs) its"
  defines "s' \<equiv> remove_locked (Some a) s"
  shows "rep s' (ys @ zs) (without (ce_key (entry_at s a)) its)"
proof -
  let ?e = "entry_at s a" and ?h = "cs_heap s"
  have d: "cl.dll ?h (cs_newest s) (cs_oldest s) (ys @ a # zs)" using r by (simp add: rep_def)
  then have dis: "distinct (ys @ a # zs)" by (simp add: cl.dll_def)
  from cl.dll_node [OF d] obtain n where n: "?h a = Some n" by blast
  then have e: "?e = n" by (simp add: entry_at_def)
  let ?h2 = "cl.set_prev_of (ce_older n) (ce_newer n) (cl.set_next_of (ce_newer n) (ce_older n) ?h)"
  have heap: "cs_heap s' = heap_upd ?h2 a (\<lambda>e. e\<lparr>ce_newer := None, ce_older := None\<rparr>)"
    by (simp add: s'_def remove_locked_def Let_def e write_older_eq write_newer_eq)
  have ends: "cs_newest s' = (if ce_newer n = None then ce_older n else cs_newest s)"
      "cs_oldest s' = (if ce_older n = None then ce_newer n else cs_oldest s)"
    by (simp_all add: s'_def remove_locked_def Let_def e)
  have d2: "cl.dll (cs_heap s') (cs_newest s') (cs_oldest s') (ys @ zs)"
    unfolding ends by (rule cl.dll_frame [OF cl.dll_unlink [OF d n]]) (use dis in \<open>auto simp: heap\<close>)
  have same: "item_of (the (cs_heap s' x)) = item_of (the (?h x))" if "x \<noteq> a" for x
    using that by (simp add: heap)
  have key: "ce_key (entry_at s' x) = ce_key (entry_at s x)" if "x \<noteq> a" for x
    using arg_cong [OF same [OF that], of fst] by (simp add: entry_at_def)
  have its: "without (ce_key ?e) its = cl.view_of ?h (ys @ zs)" by (rule rep_without [OF r])
  have other: "x \<in> set (ys @ zs) \<Longrightarrow> ce_key (entry_at s x) \<noteq> ce_key ?e" for x
    using rep_distinct_keys [OF r] by (simp add: rep_key [OF r] image_iff) (metis Un_iff set_append)
  have view: "without (ce_key ?e) its = cl.view_of (cs_heap s') (ys @ zs)"
    unfolding its cl.view_of_def using dis by (intro map_cong refl same [symmetric]) auto
  have "items_bytes its = item_weight (item_of ?e) + items_bytes (without (ce_key ?e) its)"
    using r unfolding its by (simp add: rep_def cl.view_of_def entry_at_def)
  moreover have "cs_payloadBytes s' = items_bytes its - item_weight (item_of ?e)"
    using r by (simp add: rep_def s'_def remove_locked_def Let_def item_weight_def item_of_def)
  moreover have "Mapping.lookup (cs_entries s') k = Some x \<longleftrightarrow>
      x \<in> set (ys @ zs) \<and> ce_key (entry_at s' x) = k" for k x
  proof -
    have "cs_entries s' = Mapping.delete (ce_key ?e) (cs_entries s)"
      by (simp add: s'_def remove_locked_def Let_def)
    moreover have lk: "Mapping.lookup (cs_entries s) k = Some x \<longleftrightarrow>
        x \<in> set (ys @ a # zs) \<and> ce_key (entry_at s x) = k" for k x
      using r by (simp add: rep_def)
    moreover have "x \<in> set (ys @ zs) \<Longrightarrow> x \<noteq> a" using dis by auto
    moreover have "x \<in> set (ys @ a # zs) \<Longrightarrow> ce_key (entry_at s x) \<noteq> ce_key ?e \<Longrightarrow> x \<in> set (ys @ zs)"
      by auto
    moreover have "x \<in> set (ys @ zs) \<Longrightarrow> ce_key (entry_at s x) \<noteq> ce_key ?e"
      by (rule other)
    ultimately show ?thesis
      by (cases "k = ce_key ?e") (auto simp: key lookup_delete lookup_delete_neq)
  qed
  moreover have "\<forall>x \<in> dom (cs_heap s'). x < cs_alloc s'"
    using r by (simp add: rep_def heap) (simp add: s'_def remove_locked_def Let_def)
  ultimately show ?thesis
    using d2 view by (simp add: rep_def)
qed

lemma rep_split:
  assumes "a \<in> set xs"
  obtains ys zs where "xs = ys @ a # zs"
  using assms by (meson split_list)

lemma remove_locked_rel:
  assumes "cache_rel s its" and "Mapping.lookup (cs_entries s) k = Some a"
  shows "cache_rel (remove_locked (Some a) s) (without k its)"
proof -
  from assms(1) obtain xs where r: "rep s xs its" by (auto simp: cache_rel_def)
  with rep_lookup_Some [OF r assms(2)] obtain ys zs where "xs = ys @ a # zs" "ce_key (entry_at s a) = k"
    by (auto elim: rep_split)
  with remove_locked_rep [of s ys a zs its] r show ?thesis by (auto simp: cache_rel_def)
qed

lemma remove_oldest_rel:
  assumes "cache_rel s its"
  shows "cache_rel (remove_locked (cs_oldest s) s) (butlast its)"
proof -
  from assms obtain xs where r: "rep s xs its" by (auto simp: cache_rel_def)
  then have o: "cs_oldest s = last_of xs None" and v: "its = cl.view_of (cs_heap s) xs"
    by (auto simp: rep_def cl.dll_def)
  show ?thesis
  proof (cases xs rule: rev_cases)
    case Nil
    with r o v show ?thesis by (auto simp: cache_rel_def remove_locked_def cl.view_of_def)
  next
    case (snoc ys a)
    with r have r': "rep s (ys @ a # []) its" by simp
    have "without (ce_key (entry_at s a)) its = butlast its"
      using rep_without [OF r'] v by (simp add: snoc cl.view_of_def butlast_append)
    with remove_locked_rep [OF r'] show ?thesis by (auto simp: cache_rel_def o snoc)
  qed
qed

subsection \<open>Linking at the front\<close>

lemma move_to_newest_rep:
  assumes r: "rep s (ys @ a # zs) its"
  defines "s' \<equiv> move_to_newest_locked a s"
  shows "rep s' (a # ys @ zs) (item_of (entry_at s a) # without (ce_key (entry_at s a)) its)"
proof (cases "cs_newest s = Some a")
  case True
  have "distinct (ys @ a # zs)" and "Some a = first_of (ys @ a # zs) None"
    using r True by (auto simp: rep_def cl.dll_def)
  then have "ys = []" by (cases ys) auto
  with r True rep_without [OF r] show ?thesis
    by (simp add: s'_def move_to_newest_locked_def rep_def cl.view_of_def entry_at_def)
next
  case False
  let ?e = "entry_at s a" and ?h = "cs_heap s"
  have d: "cl.dll ?h (cs_newest s) (cs_oldest s) (ys @ a # zs)" using r by (simp add: rep_def)
  then have dis: "distinct (ys @ a # zs)" by (simp add: cl.dll_def)
  from cl.dll_node [OF d] obtain n where n: "?h a = Some n" "ce_newer n = last_of ys None" by blast
  then have e: "?e = n" by (simp add: entry_at_def)
  have "ys \<noteq> []" using False d by (auto simp: cl.dll_def)
  then have new: "ce_newer n \<noteq> None" using n by simp
  let ?h2 = "cl.set_prev_of (ce_older n) (ce_newer n) (cl.set_next_of (ce_newer n) (ce_older n) ?h)"
  let ?h3 = "heap_upd ?h2 a (\<lambda>e. e\<lparr>ce_newer := None, ce_older := cs_newest s\<rparr>)"
  let ?old = "if ce_older n = None then ce_newer n else cs_oldest s"
  have heap: "cs_heap s' = cl.set_prev_of (cs_newest s) (Some a) ?h3"
    and ends: "cs_newest s' = Some a" "cs_oldest s' = ?old"
    and rest: "cs_entries s' = cs_entries s" "cs_alloc s' = cs_alloc s" "cs_payloadBytes s' = cs_payloadBytes s"
    using False by (simp_all add: s'_def move_to_newest_locked_def Let_def e write_older_eq write_newer_eq)
  have "cl.dll ?h2 (cs_newest s) ?old (ys @ zs)"
    using cl.dll_unlink [OF d n(1)] new by simp
  then have d3: "cl.dll ?h3 (cs_newest s) ?old (ys @ zs)"
    by (rule cl.dll_frame) (use dis in auto)
  have "a \<in> dom ?h2" using n(1) by (simp add: domI)
  then obtain m where m: "?h2 a = Some m" unfolding dom_def by blast
  have "cs_newest s \<noteq> None" using d by (simp add: cl.dll_def)
  with cl.dll_push_front [OF d3, of a "m\<lparr>ce_newer := None, ce_older := cs_newest s\<rparr>"] dis m
  have d4: "cl.dll (cs_heap s') (cs_newest s') (cs_oldest s') (a # ys @ zs)"
    by (simp add: heap ends)
  have same: "item_of (the (cs_heap s' x)) = item_of (the (?h x))" for x
  proof -
    have "item_of (the (?h3 x)) = item_of (the (?h2 x))"
      by (rule cl.content_upd) (simp add: item_of_def)
    then show ?thesis
      unfolding heap by (simp only: cl.content_set_prev_of cl.content_set_next_of)
  qed
  have key: "ce_key (entry_at s' x) = ce_key (entry_at s x)" for x
    using arg_cong [OF same, of fst] by (simp add: entry_at_def)
  have view: "item_of ?e # without (ce_key ?e) its = cl.view_of (cs_heap s') (a # ys @ zs)"
    unfolding rep_without [OF r] by (simp add: cl.view_of_def same entry_at_def)
  have "items_bytes its = items_bytes (item_of ?e # without (ce_key ?e) its)"
    using r unfolding rep_without [OF r] by (simp add: rep_def cl.view_of_def entry_at_def)
  then show ?thesis
    using r d4 view key rest by (auto simp: rep_def heap)
qed

lemma move_to_newest_rel:
  assumes "cache_rel s its" and "Mapping.lookup (cs_entries s) k = Some a"
  shows "cache_rel (move_to_newest_locked a s) ((k, the (map_of its k)) # without k its)"
proof -
  from assms(1) obtain xs where r: "rep s xs its" by (auto simp: cache_rel_def)
  note lk = rep_lookup_Some [OF r assms(2)]
  then obtain ys zs where "xs = ys @ a # zs" by (auto elim: rep_split)
  with move_to_newest_rep [of s ys a zs its] r lk show ?thesis
    by (auto simp: cache_rel_def item_of_entry_at)
qed

lemma insert_newest_rel:
  assumes "cache_rel s its" and new: "Mapping.lookup (cs_entries s) k = None"
  shows "cache_rel (insert_newest_locked k v e s) ((k, v, e) # its)"
proof -
  from assms(1) obtain xs where r: "rep s xs its" by (auto simp: cache_rel_def)
  let ?h = "cs_heap s" and ?a = "cs_alloc s" and ?s = "insert_newest_locked k v e s"
  let ?n = "\<lparr>ce_key = k, ce_value = v, ce_expiresAt = e, ce_newer = None, ce_older = cs_newest s\<rparr>"
  have d: "cl.dll ?h (cs_newest s) (cs_oldest s) xs" and fresh: "?a \<notin> dom ?h"
    using r by (auto simp: rep_def)
  have notin: "?a \<notin> set xs"
    using d fresh cl.seg_in_heap [of ?h None xs None ?a] by (auto simp: cl.dll_def)
  have heap: "cs_heap ?s = cl.set_prev_of (cs_newest s) (Some ?a) (?h(?a \<mapsto> ?n))"
    by (simp add: insert_newest_locked_def Let_def write_newer_eq)
  have "cl.dll (?h(?a \<mapsto> ?n)) (cs_newest s) (cs_oldest s) xs"
    by (rule cl.dll_frame [OF d]) (use notin in auto)
  from cl.dll_push_front [OF this notin, of ?n]
  have d2: "cl.dll (cs_heap ?s) (cs_newest ?s) (cs_oldest ?s) (?a # xs)"
    unfolding heap by (simp add: insert_newest_locked_def Let_def)
  have same: "item_of (the (cs_heap ?s x)) = (if x = ?a then (k, v, e) else item_of (the (?h x)))" for x
    unfolding heap by (simp only: cl.content_set_prev_of) (simp add: item_of_def)
  have key: "ce_key (entry_at ?s x) = (if x = ?a then k else ce_key (entry_at s x))" for x
    using arg_cong [OF same, of fst] by (simp add: entry_at_def split: if_splits)
  have view: "(k, v, e) # its = cl.view_of (cs_heap ?s) (?a # xs)"
    using r notin by (auto simp: rep_def cl.view_of_def same)
  have lk: "Mapping.lookup (cs_entries ?s) k' = Some x \<longleftrightarrow>
      x \<in> set (?a # xs) \<and> ce_key (entry_at ?s x) = k'" for k' x
  proof -
    have "Mapping.lookup (cs_entries ?s) k' = (if k' = k then Some ?a else Mapping.lookup (cs_entries s) k')"
      by (simp add: insert_newest_locked_def Let_def lookup_update')
    moreover have "x \<in> set xs \<Longrightarrow> ce_key (entry_at s x) \<noteq> k"
      using r new unfolding rep_def by (metis option.distinct(1))
    ultimately show ?thesis using r notin by (auto simp: key rep_def)
  qed
  have bytes: "cs_payloadBytes ?s = items_bytes ((k, v, e) # its)"
    using r by (simp add: rep_def insert_newest_locked_def Let_def item_weight_def)
  have bound: "\<forall>x \<in> dom (cs_heap ?s). x < cs_alloc ?s"
    using r unfolding heap cl.dom_set_prev_of
    by (auto simp: rep_def insert_newest_locked_def Let_def less_Suc_eq)
  have "rep ?s (?a # xs) ((k, v, e) # its)"
    unfolding rep_def using d2 view lk bytes bound by blast
  then show ?thesis by (auto simp: cache_rel_def)
qed

subsection \<open>Making room\<close>

lemma cache_rel_bytes: "cache_rel s its \<Longrightarrow> cs_payloadBytes s = items_bytes its"
  by (auto simp: cache_rel_def rep_def)

lemma make_room_rel:
  assumes "cache_rel s its" and "0 < cs_maxEntries s" and "w \<le> cs_maxBytes s"
  shows "\<exists>s'. make_room_locked w s = Some s'
    \<and> cache_rel s' (spec_room (cs_maxEntries s) (cs_maxBytes s) w its)
    \<and> cs_maxEntries s' = cs_maxEntries s \<and> cs_maxBytes s' = cs_maxBytes s
    \<and> cs_maxItemBytes s' = cs_maxItemBytes s"
  using assms
proof (induction "length its" arbitrary: s its)
  case 0
  then have "cs_payloadBytes s = 0" "Mapping.size (cs_entries s) = 0"
    using cache_rel_bytes [of s its] rel_size [of s its] by auto
  with 0 show ?case
    by (subst make_room_locked.simps) (auto simp: spec_room_stop)
next
  case (Suc n)
  let ?full = "int (length its) \<ge> cs_maxEntries s \<or> items_bytes its + w > cs_maxBytes s"
  have "its \<noteq> []" using Suc.hyps(2) by auto
  note step = make_room_locked.simps [of w s] rel_size [OF Suc.prems(1)]
    cache_rel_bytes [OF Suc.prems(1)]
  show ?case
  proof (cases ?full)
    case True
    have "n = length (butlast its)" using Suc.hyps(2) by simp
    from Suc.hyps(1) [OF this remove_oldest_rel [OF Suc.prems(1)]] Suc.prems(2,3)
    show ?thesis
      using True \<open>its \<noteq> []\<close> by (simp add: step spec_room_evict)
  next
    case False
    with Suc.prems(1) show ?thesis by (simp add: step spec_room_stop)
  qed
qed

lemma without_notin [simp]: "map_of its k = None \<Longrightarrow> without k its = its"
  by (auto simp: without_def map_of_eq_None_iff intro!: filter_True)

lemma map_of_without [simp]: "map_of (without k its) k' = (if k' = k then None else map_of its k')"
  by (induction its) (auto simp: without_def)

lemma spec_room_maximal:
  "\<exists>n. spec_room maxE maxB w its = take n its \<and> n \<le> length its \<and>
     (\<forall>m. n < m \<longrightarrow> m \<le> length its \<longrightarrow> maxE < int m + 1 \<or> maxB < items_bytes (take m its) + w)"
proof (induction maxE maxB w its rule: spec_room.induct)
  case (1 maxE maxB w its)
  let ?full = "\<lambda>m js. maxE < int m + 1 \<or> maxB < items_bytes (take m js) + w"
  show ?case
  proof (cases "its \<noteq> [] \<and> (int (length its) \<ge> maxE \<or> items_bytes its + w > maxB)")
    case True
    with "1.IH" obtain n where n: "spec_room maxE maxB w (butlast its) = take n (butlast its)"
      "n \<le> length (butlast its)" "\<forall>m. n < m \<longrightarrow> m \<le> length (butlast its) \<longrightarrow> ?full m (butlast its)"
      by blast
    have bl: "m \<le> length (butlast its) \<Longrightarrow> take m (butlast its) = take m its" for m
      unfolding length_butlast by (simp add: butlast_conv_take min_absorb1)
    have "?full m its" if "n < m" "m \<le> length its" for m
    proof (cases "m = length its")
      case False
      with that have "m \<le> length (butlast its)" by simp
      with that n(3) bl [OF this] show ?thesis by auto
    qed (use True in auto)
    with True n(1,2) bl [OF n(2)] show ?thesis by (intro exI [of _ n]) (auto simp: spec_room_evict)
  next
    case False
    then have "spec_room maxE maxB w its = its" by (intro spec_room_stop) auto
    then show ?thesis by (intro exI [of _ "length its"]) simp
  qed
qed

lemma spec_room_fits:
  assumes "0 < maxE" and "w \<le> maxB"
  shows "int (length (spec_room maxE maxB w its)) < maxE
    \<and> items_bytes (spec_room maxE maxB w its) + w \<le> maxB"
  using assms
proof (induction maxE maxB w its rule: spec_room.induct)
  case (1 maxE maxB w its)
  show ?case
  proof (cases "its = [] \<or> int (length its) < maxE \<and> items_bytes its + w \<le> maxB")
    case True
    with "1.prems" show ?thesis by (auto simp: spec_room_stop)
  next
    case False
    then have "its \<noteq> []" "int (length its) \<ge> maxE \<or> items_bytes its + w > maxB" by auto
    with 1 show ?thesis by (simp add: spec_room_evict)
  qed
qed

lemma spec_room_notin: "map_of its k = None \<Longrightarrow> map_of (spec_room maxE maxB w its) k = None"
  using spec_room_maximal [of maxE maxB w its]
  by (auto simp: map_of_eq_None_iff image_iff dest!: in_set_takeD)

end
