(* ===== verification/Cache_Properties.thy ===== *)
theory Cache_Properties
  imports Cache_Refinement
begin

text \<open>
  Runs of cache operations, the list specification of every operation, and the properties of
  \<open>api/internal/infra/cache/memory.go\<close>: the refinement of whole runs, the capacity bounds, the
  time-to-live contract, and the atomic \<open>Add\<close> and \<open>Take\<close>.
\<close>

subsection \<open>Operations and their specification\<close>

datatype 'b cache_op =
    OGet go_ctx instant string
  | OSet go_ctx instant string "'b list" duration
  | OForever go_ctx instant string "'b list"
  | OAdd go_ctx instant string "'b list" duration
  | OTake go_ctx instant string
  | ODelete go_ctx string
  | OClear go_ctx
  | OStats instant

datatype 'b cache_resp =
    RErr cache_error | RValue "'b list" | RDone | RBool bool | RStats cache_stats

definition resp_of :: "('a \<Rightarrow> 'b cache_resp) \<Rightarrow> cache_error + 'a \<Rightarrow> 'b cache_resp" where
  "resp_of f r = (case r of Inl e \<Rightarrow> RErr e | Inr x \<Rightarrow> f x)"

fun cache_step ::
    "(string set \<Rightarrow> string list) \<Rightarrow> 'b cache_op \<Rightarrow> 'b cache_store
     \<Rightarrow> ('b cache_resp \<times> 'b cache_store) option" where
  "cache_step ord (OGet c now k) s = Some (apfst (resp_of RValue) (cache_get c now k s))"
| "cache_step ord (OSet c now k v ttl) s =
     map_option (apfst (resp_of (\<lambda>_. RDone))) (cache_set c now k v ttl s)"
| "cache_step ord (OForever c now k v) s =
     map_option (apfst (resp_of (\<lambda>_. RDone))) (cache_set_forever c now k v s)"
| "cache_step ord (OAdd c now k v ttl) s =
     map_option (apfst (resp_of RBool)) (cache_add c now k v ttl s)"
| "cache_step ord (OTake c now k) s = Some (apfst (resp_of RValue) (cache_take c now k s))"
| "cache_step ord (ODelete c k) s = Some (apfst (resp_of (\<lambda>_. RDone)) (cache_delete c k s))"
| "cache_step ord (OClear c) s = Some (apfst (resp_of (\<lambda>_. RDone)) (cache_clear c s))"
| "cache_step ord (OStats now) s = Some (apfst RStats (cache_stats_of ord now s))"

primrec cache_run ::
    "(string set \<Rightarrow> string list) \<Rightarrow> 'b cache_op list \<Rightarrow> 'b cache_store
     \<Rightarrow> ('b cache_resp list \<times> 'b cache_store) option" where
  "cache_run ord [] s = Some ([], s)"
| "cache_run ord (op # ops) s =
     (case cache_step ord op s of None \<Rightarrow> None
      | Some (r, s1) \<Rightarrow> map_option (apfst (Cons r)) (cache_run ord ops s1))"

text \<open>The specification: a list of items, most recently used first, with a capacity \<open>c\<close>.\<close>

definition spec_insert ::
    "cache_config \<Rightarrow> string \<Rightarrow> 'b list \<Rightarrow> instant option \<Rightarrow> 'b item list \<Rightarrow> 'b item list" where
  "spec_insert c k v e its =
     (k, v, e) # spec_room (cc_maxEntries c) (cc_maxBytes c) (entry_weight k v) (without k its)"

definition value_error :: "cache_config \<Rightarrow> string \<Rightarrow> 'b list \<Rightarrow> cache_error option" where
  "value_error c k v =
     (if int (length v) > cc_maxItemBytes c \<or> entry_weight k v > cc_maxBytes c
      then Some ErrValueTooLarge else None)"

fun spec_step :: "cache_config \<Rightarrow> 'b cache_op \<Rightarrow> 'b item list \<Rightarrow> 'b cache_resp \<times> 'b item list" where
  "spec_step c (OGet x now k) its =
     (case first_err [validate_context x, validate_key k, locked_context x] of
        Some e \<Rightarrow> (RErr e, its)
      | None \<Rightarrow> apfst (resp_of RValue) (spec_touch now k its))"
| "spec_step c (OSet x now k v ttl) its =
     (case first_err [validate_ttl ttl, validate_context x, validate_key k, value_error c k v,
                      locked_context x] of
        Some e \<Rightarrow> (RErr e, its)
      | None \<Rightarrow> (RDone, spec_insert c k v (Some (now + ttl)) its))"
| "spec_step c (OForever x now k v) its =
     (case first_err [validate_context x, validate_key k, value_error c k v, locked_context x] of
        Some e \<Rightarrow> (RErr e, its)
      | None \<Rightarrow> (RDone, spec_insert c k v None its))"
| "spec_step c (OAdd x now k v ttl) its =
     (case first_err [validate_context x, validate_key k, validate_ttl ttl, value_error c k v,
                      locked_context x] of
        Some e \<Rightarrow> (RErr e, its)
      | None \<Rightarrow>
          (case map_of its k of
             Some p \<Rightarrow> if item_live now (k, p) then (RBool False, (k, p) # without k its)
                       else (RBool True, spec_insert c k v (Some (now + ttl)) its)
           | None \<Rightarrow> (RBool True, spec_insert c k v (Some (now + ttl)) its)))"
| "spec_step c (OTake x now k) its =
     (case first_err [validate_context x, validate_key k, locked_context x] of
        Some e \<Rightarrow> (RErr e, its)
      | None \<Rightarrow>
          (case map_of its k of
             Some p \<Rightarrow> (if item_live now (k, p) then RValue (fst p) else RErr ErrCacheMiss, without k its)
           | None \<Rightarrow> (RErr ErrCacheMiss, its)))"
| "spec_step c (ODelete x k) its =
     (case first_err [validate_context x, validate_key k, locked_context x] of
        Some e \<Rightarrow> (RErr e, its) | None \<Rightarrow> (RDone, without k its))"
| "spec_step c (OClear x) its =
     (case first_err [validate_context x, locked_context x] of
        Some e \<Rightarrow> (RErr e, its) | None \<Rightarrow> (RDone, []))"
| "spec_step c (OStats now) its =
     (let live = filter (item_live now) its
      in (RStats \<lparr>st_entries = int (length live), st_payloadBytes = items_bytes live,
                  st_maxEntries = cc_maxEntries c, st_maxBytes = cc_maxBytes c\<rparr>, live))"

primrec spec_run ::
    "cache_config \<Rightarrow> 'b cache_op list \<Rightarrow> 'b item list \<Rightarrow> 'b cache_resp list \<times> 'b item list" where
  "spec_run c [] its = ([], its)"
| "spec_run c (op # ops) its =
     (let (r, its1) = spec_step c op its in apfst (Cons r) (spec_run c ops its1))"

subsection \<open>Each operation refines its specification\<close>

definition sized :: "cache_config \<Rightarrow> 'b cache_store \<Rightarrow> bool" where
  "sized c s \<longleftrightarrow> cs_maxEntries s = cc_maxEntries c \<and> cs_maxBytes s = cc_maxBytes c
     \<and> cs_maxItemBytes s = cc_maxItemBytes c \<and> 0 < cc_maxEntries c
     \<and> 0 < cc_maxItemBytes c \<and> cc_maxItemBytes c \<le> cc_maxBytes c"

lemma sized_remove [simp]: "sized c (remove_locked p s) = sized c s"
  by (simp add: sized_def)

lemma sized_move [simp]: "sized c (move_to_newest_locked a s) = sized c s"
  by (simp add: sized_def)

lemma sized_insert [simp]: "sized c (insert_newest_locked k v e s) = sized c s"
  by (simp add: sized_def)

lemma rel_miss:
  "cache_rel s its \<Longrightarrow> Mapping.lookup (cs_entries s) k = None \<longleftrightarrow> map_of its k = None"
  by (auto simp: cache_rel_def rep_lookup)

lemma rel_hit:
  assumes "cache_rel s its" and "Mapping.lookup (cs_entries s) k = Some a"
  shows "map_of its k = Some (ce_value (entry_at s a), ce_expiresAt (entry_at s a))"
  using assms by (auto simp: cache_rel_def rep_lookup_Some)

lemma expired_live:
  assumes "cache_rel s its" and "Mapping.lookup (cs_entries s) k = Some a"
    and "map_of its k = Some p"
  shows "ce_expired (entry_at s a) now \<longleftrightarrow> \<not> item_live now (k, p)"
  using rel_hit [OF assms(1,2)] assms(3)
  by (auto simp: ce_expired_def item_live_def split: option.split)

lemma rel_cases:
  assumes "cache_rel s its"
  obtains (miss) "Mapping.lookup (cs_entries s) k = None" "map_of its k = None"
  | (hit) a p where "Mapping.lookup (cs_entries s) k = Some a" "map_of its k = Some p"
      "ce_value (entry_at s a) = fst p"
      "\<And>now. ce_expired (entry_at s a) now \<longleftrightarrow> \<not> item_live now (k, p)"
proof (cases "Mapping.lookup (cs_entries s) k")
  case None
  with miss rel_miss [OF assms, of k] show ?thesis by simp
next
  case (Some a)
  with hit [OF Some rel_hit [OF assms Some]] expired_live [OF assms Some rel_hit [OF assms Some]]
  show ?thesis by simp
qed

text \<open>Removal, room and insertion together: what \<open>storeValue\<close> and \<open>Add\<close> do once the guards pass.\<close>

lemma fresh_insert_rel:
  assumes "cache_rel s its" "sized c s" "map_of its k = None" "value_error c k v = None"
  shows "\<exists>s2. make_room_locked (entry_weight k v) s = Some s2 \<and>
     sized c (insert_newest_locked k v e s2) \<and>
     cache_rel (insert_newest_locked k v e s2)
       ((k, v, e) # spec_room (cc_maxEntries c) (cc_maxBytes c) (entry_weight k v) its)"
proof -
  have "entry_weight k v \<le> cs_maxBytes s"
    using assms by (simp add: sized_def value_error_def split: if_splits)
  with make_room_rel [of s its] assms(1,2) obtain s2 where
    "make_room_locked (entry_weight k v) s = Some s2" "sized c s2"
    "cache_rel s2 (spec_room (cc_maxEntries c) (cc_maxBytes c) (entry_weight k v) its)"
    by (auto simp: sized_def)
  moreover from this have "Mapping.lookup (cs_entries s2) k = None"
    by (simp add: rel_miss spec_room_notin assms(3))
  ultimately show ?thesis using insert_newest_rel by auto
qed

lemma value_error_guards:
  "sized c s \<Longrightarrow> value_error c k v = None \<longleftrightarrow>
     validate_item_size v (cs_maxItemBytes s) = None \<and> \<not> entry_weight k v > cs_maxBytes s"
  by (auto simp: value_error_def validate_item_size_def sized_def)

lemma value_error_first:
  "sized c s \<Longrightarrow>
     first_err (validate_item_size v (cs_maxItemBytes s) #
       (if cs_maxBytes s < entry_weight k v then Some ErrValueTooLarge else None) # es) =
     first_err (value_error c k v # es)"
  by (auto simp: value_error_def validate_item_size_def sized_def)

lemma first_err_Cons: "first_err (e # es) = (case e of None \<Rightarrow> first_err es | Some x \<Rightarrow> Some x)"
  by (cases e) auto

lemma value_guards:
  assumes "sized c s"
  shows "first_err [validate_context x, validate_key k, validate_item_size v (cs_maxItemBytes s),
      if entry_weight k v > cs_maxBytes s then Some ErrValueTooLarge else None, locked_context x]
    = first_err [validate_context x, validate_key k, value_error c k v, locked_context x]"
  using value_error_first [OF assms, of v k "[locked_context x]"]
  by (cases "validate_context x"; cases "validate_key k") simp_all

lemma add_guards:
  assumes "sized c s"
  shows "first_err [validate_context x, validate_key k, validate_ttl ttl,
      validate_item_size v (cs_maxItemBytes s),
      if entry_weight k v > cs_maxBytes s then Some ErrValueTooLarge else None, locked_context x]
    = first_err [validate_context x, validate_key k, validate_ttl ttl, value_error c k v,
      locked_context x]"
  using value_error_first [OF assms, of v k "[locked_context x]"]
  by (cases "validate_context x"; cases "validate_key k"; cases "validate_ttl ttl") simp_all

definition implements ::
    "cache_config \<Rightarrow> 'b cache_resp \<times> 'b item list \<Rightarrow> ('b cache_resp \<times> 'b cache_store) option \<Rightarrow> bool" where
  "implements c q out \<longleftrightarrow>
     (\<exists>s'. out = Some (fst q, s') \<and> sized c s' \<and> cache_rel s' (snd q))"

lemma get_refines:
  assumes "cache_rel s its" and "sized c s"
  shows "implements c (spec_step c (OGet x now k) its) (cache_step ord (OGet x now k) s)"
proof (cases "first_err [validate_context x, validate_key k, locked_context x]")
  case None
  from assms(1) show ?thesis
  proof (cases rule: rel_cases [where k = k])
    case miss
    with None assms show ?thesis by (simp add: implements_def cache_get_def resp_of_def)
  next
    case (hit a p)
    with None assms remove_locked_rel [OF assms(1) hit(1)] move_to_newest_rel [OF assms(1) hit(1)]
    show ?thesis by (simp add: implements_def cache_get_def resp_of_def)
  qed
next
  case (Some e)
  with assms show ?thesis by (simp add: implements_def cache_get_def resp_of_def)
qed

lemma take_refines:
  assumes "cache_rel s its" and "sized c s"
  shows "implements c (spec_step c (OTake x now k) its) (cache_step ord (OTake x now k) s)"
proof (cases "first_err [validate_context x, validate_key k, locked_context x]")
  case None
  from assms(1) show ?thesis
  proof (cases rule: rel_cases [where k = k])
    case miss
    with None assms show ?thesis by (simp add: implements_def cache_take_def resp_of_def)
  next
    case (hit a p)
    with None assms remove_locked_rel [OF assms(1) hit(1)]
    show ?thesis by (simp add: implements_def cache_take_def resp_of_def Let_def)
  qed
next
  case (Some e)
  with assms show ?thesis by (simp add: implements_def cache_take_def resp_of_def)
qed

lemma delete_refines:
  assumes "cache_rel s its" and "sized c s"
  shows "implements c (spec_step c (ODelete x k) its) (cache_step ord (ODelete x k) s)"
proof (cases "first_err [validate_context x, validate_key k, locked_context x]")
  case None
  from assms(1) show ?thesis
  proof (cases rule: rel_cases [where k = k])
    case miss
    with None assms show ?thesis by (simp add: implements_def cache_delete_def resp_of_def)
  next
    case (hit a p)
    with None assms remove_locked_rel [OF assms(1) hit(1)]
    show ?thesis by (simp add: implements_def cache_delete_def resp_of_def)
  qed
next
  case (Some e)
  with assms show ?thesis by (simp add: implements_def cache_delete_def resp_of_def)
qed

lemma clear_refines:
  assumes "cache_rel s its" and "sized c s"
  shows "implements c (spec_step c (OClear x) its) (cache_step ord (OClear x) s)"
proof -
  have "cache_rel (s\<lparr>cs_entries := Mapping.empty, cs_newest := None, cs_oldest := None,
          cs_payloadBytes := 0\<rparr>) []"
    using assms(1) by (auto simp: cache_rel_def rep_def cl.dll_def cl.view_of_def intro!: exI [of _ "[]"])
  with assms show ?thesis
    by (simp add: implements_def cache_clear_def resp_of_def sized_def split: option.split)
qed

lemma store_value_refines:
  assumes "cache_rel s its" and "sized c s"
    and ok: "first_err [validate_context x, validate_key k, value_error c k v, locked_context x] = None"
  shows "\<exists>s'. cache_store_value x now k v ttl s = Some (Inr (), s') \<and> sized c s'
    \<and> cache_rel s' (spec_insert c k v (if ttl > 0 then Some (now + ttl) else None) its)"
proof -
  let ?s1 = "case Mapping.lookup (cs_entries s) k of None \<Rightarrow> s | Some a \<Rightarrow> remove_locked (Some a) s"
  let ?e = "if ttl > 0 then Some (now + ttl) else None"
  have "cache_rel ?s1 (without k its)" and "sized c ?s1"
    using assms(1,2) remove_locked_rel rel_miss
    by (force split: option.split)+
  from fresh_insert_rel [OF this, of k v ?e] ok obtain s2 where
    "make_room_locked (entry_weight k v) ?s1 = Some s2" "sized c (insert_newest_locked k v ?e s2)"
    "cache_rel (insert_newest_locked k v ?e s2) (spec_insert c k v ?e its)"
    by (auto simp: spec_insert_def)
  then show ?thesis
    unfolding cache_store_value_def value_guards [OF assms(2)] ok by (simp add: Let_def)
qed

lemma store_value_error:
  assumes "sized c s"
    and "first_err [validate_context x, validate_key k, value_error c k v, locked_context x] = Some e"
  shows "cache_store_value x now k v ttl s = Some (Inl e, s)"
  unfolding cache_store_value_def value_guards [OF assms(1)] assms(2) by simp

lemma set_refines:
  assumes "cache_rel s its" and "sized c s"
  shows "implements c (spec_step c (OSet x now k v ttl) its) (cache_step ord (OSet x now k v ttl) s)"
proof (cases "validate_ttl ttl")
  case ttl: None
  let ?g = "first_err [validate_context x, validate_key k, value_error c k v, locked_context x]"
  have pos: "ttl > 0" using ttl by (simp add: validate_ttl_def split: if_splits)
  show ?thesis
  proof (cases ?g)
    case None
    from store_value_refines [OF assms None, of now ttl] ttl pos None show ?thesis
      by (auto simp: implements_def cache_set_def resp_of_def)
  next
    case (Some e)
    from store_value_error [OF assms(2) Some] assms ttl Some show ?thesis
      by (simp add: implements_def cache_set_def resp_of_def)
  qed
next
  case (Some e)
  with assms show ?thesis by (simp add: implements_def cache_set_def resp_of_def)
qed

lemma forever_refines:
  assumes "cache_rel s its" and "sized c s"
  shows "implements c (spec_step c (OForever x now k v) its) (cache_step ord (OForever x now k v) s)"
proof (cases "first_err [validate_context x, validate_key k, value_error c k v, locked_context x]")
  case None
  from store_value_refines [OF assms None, of now 0] None show ?thesis
    by (auto simp: implements_def cache_set_forever_def resp_of_def)
next
  case (Some e)
  from store_value_error [OF assms(2) Some] assms Some show ?thesis
    by (simp add: implements_def cache_set_forever_def resp_of_def)
qed

lemma add_refines:
  assumes r: "cache_rel s its" and z: "sized c s"
  shows "implements c (spec_step c (OAdd x now k v ttl) its) (cache_step ord (OAdd x now k v ttl) s)"
proof (cases "first_err [validate_context x, validate_key k, validate_ttl ttl, value_error c k v,
                         locked_context x]")
  case None
  then have ve: "value_error c k v = None" by simp
  note [simp] = implements_def cache_add_def resp_of_def add_guards [OF z] None Let_def
  from r show ?thesis
  proof (cases rule: rel_cases [where k = k])
    case miss
    with fresh_insert_rel [OF r z miss(2) ve, of "Some (now + ttl)"] show ?thesis
      by (auto simp: spec_insert_def)
  next
    case (hit a p)
    note rem = remove_locked_rel [OF r hit(1)]
    show ?thesis
    proof (cases "item_live now (k, p)")
      case True
      with hit r z move_to_newest_rel [OF r hit(1)] show ?thesis by simp
    next
      case False
      with hit fresh_insert_rel [OF rem _ _ ve, of "Some (now + ttl)"] z show ?thesis
        by (auto simp: spec_insert_def)
    qed
  qed
next
  case (Some e)
  with assms show ?thesis
    by (simp add: implements_def cache_add_def resp_of_def add_guards [OF z] del: first_err.simps)
qed

subsection \<open>Stats drops what has expired\<close>

lemma remove_expired_key_rel:
  assumes r: "cache_rel s its" and z: "sized c s"
  shows "cache_rel (remove_expired_key now k s) (filter (\<lambda>i. fst i = k \<longrightarrow> item_live now i) its)
    \<and> sized c (remove_expired_key now k s)"
  using r
proof (cases rule: rel_cases [where k = k])
  case miss
  then have "filter (\<lambda>i. fst i = k \<longrightarrow> item_live now i) its = its"
    by (auto simp: map_of_eq_None_iff intro!: filter_True)
  with miss r z show ?thesis by (simp add: remove_expired_key_def)
next
  case (hit a p)
  have only: "i \<in> set its \<Longrightarrow> fst i = k \<Longrightarrow> i = (k, p)" for i
    using map_of_SomeD [OF hit(2)] rel_distinct_keys [OF r] by (cases i) (auto dest: eq_key_imp_eq_value)
  show ?thesis
  proof (cases "item_live now (k, p)")
    case True
    then have "filter (\<lambda>i. fst i = k \<longrightarrow> item_live now i) its = its"
      using only by (intro filter_True) auto
    with True hit r z show ?thesis by (simp add: remove_expired_key_def)
  next
    case False
    then have "filter (\<lambda>i. fst i = k \<longrightarrow> item_live now i) its = without k its"
      unfolding without_def using only by (intro filter_cong) auto
    with False hit z remove_locked_rel [OF r hit(1)] show ?thesis
      by (simp add: remove_expired_key_def)
  qed
qed

lemma remove_expired_fold_rel:
  assumes "cache_rel s its" and "sized c s"
  shows "cache_rel (fold (remove_expired_key now) ks s)
      (filter (\<lambda>i. fst i \<in> set ks \<longrightarrow> item_live now i) its)
    \<and> sized c (fold (remove_expired_key now) ks s)"
  using assms
proof (induction ks arbitrary: s its)
  case Nil
  then show ?case by simp
next
  case (Cons k ks)
  from remove_expired_key_rel [OF Cons.prems, of now k]
  have "cache_rel (remove_expired_key now k s) (filter (\<lambda>i. fst i = k \<longrightarrow> item_live now i) its)"
    and "sized c (remove_expired_key now k s)" by auto
  from Cons.IH [OF this] show ?case
    by (simp add: conj_commute)
qed

lemma stats_refines:
  assumes r: "cache_rel s its" and z: "sized c s" and ord: "go_range ord"
  shows "implements c (spec_step c (OStats now) its) (cache_step ord (OStats now) s)"
proof -
  have keys: "Mapping.keys (cs_entries s) = fst ` set its"
    using rel_miss [OF r]
    by (simp only: keys_dom_lookup dom_map_of_conv_image_fst [symmetric] set_eq_iff domIff) simp
  let ?ks = "ord (Mapping.keys (cs_entries s))"
  have "set ?ks = fst ` set its" using go_rangeD [OF ord, of "fst ` set its"] by (simp add: keys)
  then have "filter (\<lambda>i. fst i \<in> set ?ks \<longrightarrow> item_live now i) its = filter (item_live now) its"
    by (intro filter_cong) auto
  with remove_expired_fold_rel [OF r z, of now ?ks] show ?thesis
    using rel_size cache_rel_bytes
    by (auto simp: implements_def cache_stats_of_def remove_expired_locked_def Let_def sized_def)
qed

lemma step_refines:
  assumes "cache_rel s its" and "sized c s" and "go_range ord"
  shows "implements c (spec_step c op its) (cache_step ord op s)"
  using assms
  by (cases op) (simp_all only: get_refines set_refines forever_refines add_refines take_refines
      delete_refines clear_refines stats_refines)

lemma run_refines:
  assumes "cache_rel s its" and "sized c s" and "go_range ord"
  shows "\<exists>s'. cache_run ord ops s = Some (fst (spec_run c ops its), s') \<and> sized c s'
    \<and> cache_rel s' (snd (spec_run c ops its))"
  using assms
proof (induction ops arbitrary: s its)
  case Nil
  then show ?case by simp
next
  case (Cons op ops)
  from step_refines [OF Cons.prems, of op] obtain s1 where
    "cache_step ord op s = Some (fst (spec_step c op its), s1)" "sized c s1"
    "cache_rel s1 (snd (spec_step c op its))"
    by (auto simp: implements_def)
  with Cons.IH [of s1 "snd (spec_step c op its)"] Cons.prems(3) show ?case
    by (auto simp: split_beta Let_def)
qed

lemma new_store_rel:
  assumes "new_memory_store cfg = Inr s"
  shows "cache_rel s []" and "sized (normalize_config cfg) s"
  using assms
  by (auto simp: new_memory_store_def Let_def cache_rel_def rep_def cl.dll_def cl.view_of_def
      sized_def split: if_splits intro!: exI [of _ "[]"])

subsection \<open>The bounds on the specification\<close>

definition within :: "cache_config \<Rightarrow> 'b item list \<Rightarrow> bool" where
  "within c its \<longleftrightarrow> int (length its) \<le> cc_maxEntries c \<and> items_bytes its \<le> cc_maxBytes c"

lemma item_weight_nonneg [simp]: "0 \<le> item_weight i"
  by (simp add: item_weight_def entry_weight_def)

lemma items_bytes_filter: "items_bytes (filter P its) \<le> items_bytes its"
  by (induction its) (auto intro: add_increasing)

lemma within_filter: "within c its \<Longrightarrow> within c (filter P its)"
  unfolding within_def
  by (auto intro: order_trans [OF items_bytes_filter] order_trans [OF of_nat_mono [OF length_filter_le]])

lemma within_without: "within c its \<Longrightarrow> within c (without k its)"
  by (simp add: without_def within_filter)

lemma items_bytes_take_out:
  "distinct (map fst its) \<Longrightarrow> map_of its k = Some p \<Longrightarrow>
     items_bytes its = item_weight (k, p) + items_bytes (without k its)
     \<and> length its = Suc (length (without k its))"
proof (induction its)
  case (Cons i its)
  show ?case
  proof (cases "fst i = k")
    case True
    with Cons.prems have "map_of its k = None" by (auto simp: map_of_eq_None_iff)
    then have "without k its = its" by simp
    with True Cons.prems show ?thesis by (cases i) (simp add: without_def)
  next
    case False
    with Cons show ?thesis by (cases i) (auto simp: without_def)
  qed
qed simp

lemma within_touch:
  "distinct (map fst its) \<Longrightarrow> map_of its k = Some p \<Longrightarrow> within c its \<Longrightarrow> within c ((k, p) # without k its)"
  using items_bytes_take_out [of its k p] by (simp add: within_def)

lemma within_insert:
  assumes "0 < cc_maxEntries c" and "value_error c k v = None"
  shows "within c (spec_insert c k v e its)"
  using assms spec_room_fits [of "cc_maxEntries c" "entry_weight k v" "cc_maxBytes c" "without k its"]
  by (auto simp: within_def spec_insert_def value_error_def item_weight_def split: if_splits)

lemma within_step:
  assumes "within c its" "distinct (map fst its)" "0 < cc_maxEntries c" "0 < cc_maxBytes c"
  shows "within c (snd (spec_step c op its))"
proof -
  have "within c []" using assms by (simp add: within_def)
  with assms show ?thesis
    by (cases op) (auto simp: within_insert within_touch within_without within_filter Let_def
        split: option.split)
qed

lemma within_run:
  assumes "cache_rel s its" and "sized c s" and "go_range (ord :: string set \<Rightarrow> string list)"
    and "within c its"
  shows "within c (snd (spec_run c ops its))"
  using assms
proof (induction ops arbitrary: s its)
  case (Cons op ops)
  from step_refines [OF Cons.prems(1-3), of op] obtain s1 where
    "sized c s1" "cache_rel s1 (snd (spec_step c op its))"
    by (auto simp: implements_def)
  moreover have "within c (snd (spec_step c op its))"
    using Cons.prems rel_distinct_keys [OF Cons.prems(1)] by (intro within_step) (auto simp: sized_def)
  ultimately show ?case
    using Cons.IH Cons.prems(3) by (auto simp: split_beta Let_def)
qed simp

subsection \<open>Reachable stores\<close>

definition reachable_store :: "cache_config \<Rightarrow> 'b cache_store \<Rightarrow> bool" where
  "reachable_store cfg s \<longleftrightarrow>
     (\<exists>s0 ord ops rs. new_memory_store cfg = Inr s0 \<and> go_range ord \<and> cache_run ord ops s0 = Some (rs, s))"

lemma reachable_rel:
  assumes "reachable_store cfg s"
  obtains its where "cache_rel s its" "sized (normalize_config cfg) s" "within (normalize_config cfg) its"
proof -
  from assms obtain s0 ord ops rs where n: "new_memory_store cfg = Inr s0" "go_range ord"
      and run: "cache_run ord ops s0 = Some (rs, s)"
    by (auto simp: reachable_store_def)
  note rel = new_store_rel [OF n(1)]
  have "within (normalize_config cfg) []" using rel(2) by (simp add: within_def sized_def)
  from within_run [OF rel n(2) this, of ops] run_refines [OF rel n(2), of ops] run that
  show ?thesis by auto
qed

lemma new_reachable:
  assumes "new_memory_store cfg = Inr s" and "go_range (ord :: string set \<Rightarrow> string list)"
  shows "reachable_store cfg s"
proof -
  have "cache_run ord [] s = Some ([], s)" by simp
  with assms show ?thesis unfolding reachable_store_def by blast
qed

lemma rel_weight_sum:
  assumes "cache_rel s its"
  shows "(\<Sum>k \<in> Mapping.keys (cs_entries s).
      entry_weight k (ce_value (entry_at s (the (Mapping.lookup (cs_entries s) k))))) = items_bytes its"
proof -
  have keys: "Mapping.keys (cs_entries s) = fst ` set its"
    using rel_miss [OF assms]
    by (simp only: keys_dom_lookup dom_map_of_conv_image_fst [symmetric] set_eq_iff domIff) simp
  have d: "distinct (map fst its)" by (rule rel_distinct_keys [OF assms])
  have val: "entry_weight k (ce_value (entry_at s (the (Mapping.lookup (cs_entries s) k)))) =
      item_weight (k, the (map_of its k))" if "k \<in> fst ` set its" for k
    using assms
  proof (cases rule: rel_cases [where k = k])
    case miss
    with that show ?thesis by (simp add: map_of_eq_None_iff)
  qed (simp add: item_weight_def)
  have "(\<Sum>k \<in> fst ` set its. item_weight (k, the (map_of its k))) =
      (\<Sum>i \<in> set its. item_weight (fst i, the (map_of its (fst i))))"
    using d by (subst sum.reindex) (auto simp: distinct_map comp_def)
  also have "\<dots> = (\<Sum>i \<in> set its. item_weight i)"
    using d by (intro sum.cong) (auto simp: map_of_is_SomeI)
  also have "\<dots> = items_bytes its"
    using d by (simp add: items_bytes_def distinct_map sum_list_distinct_conv_sum_set)
  finally show ?thesis using keys val by (simp cong: sum.cong)
qed

subsection \<open>Properties\<close>

definition sample_config :: cache_config where
  "sample_config = \<lparr>cc_maxEntries = 2, cc_maxBytes = 100, cc_maxItemBytes = 0\<rparr>"

definition sample_store :: "nat cache_store" where
  "sample_store = \<lparr>cs_heap = Map.empty, cs_alloc = 0, cs_entries = Mapping.empty,
     cs_newest = None, cs_oldest = None, cs_maxEntries = 2, cs_maxBytes = 100,
     cs_maxItemBytes = 100, cs_payloadBytes = 0\<rparr>"

lemma sample_new: "new_memory_store sample_config = Inr sample_store"
  by (simp add: new_memory_store_def sample_config_def sample_store_def normalize_config_def
      default_max_item_bytes_def Let_def)

lemma sample_reachable: "reachable_store sample_config sample_store"
  by (rule new_reachable [OF sample_new go_range_sorted])

text \<open>C19: From a new store, any sequence of cache operations returns (no eviction loop runs for ever)
  and gives, operation by operation, the answers of the list specification; the store then
  represents the specification's list of items, most recently used first.\<close>

theorem cache_refines_lru_list:
  assumes "new_memory_store cfg = Inr s" and "go_range ord"
  shows "\<exists>s'. cache_run ord ops s = Some (fst (spec_run (normalize_config cfg) ops []), s')
    \<and> cache_rel s' (snd (spec_run (normalize_config cfg) ops []))"
  using run_refines [OF new_store_rel [OF assms(1)] assms(2)] by blast

definition sample_ctx :: go_ctx where
  "sample_ctx = GoCtx None None"

definition sample_ops :: "nat cache_op list" where
  "sample_ops =
     [OSet sample_ctx 0 ''a'' [1] 10, OSet sample_ctx 1 ''b'' [2] 10, OGet sample_ctx 2 ''a'',
      OSet sample_ctx 3 ''c'' [3] 10, OGet sample_ctx 4 ''b'', OGet sample_ctx 10 ''a'',
      OGet sample_ctx 5 ''c'']"

definition sample_answers :: "nat cache_resp list" where
  "sample_answers = [RDone, RDone, RValue [1], RDone, RErr ErrCacheMiss, RErr ErrCacheMiss, RValue [3]]"

lemma sample_spec: "fst (spec_run (normalize_config sample_config) sample_ops []) = sample_answers"
  by code_simp

theorem cache_refines_lru_list_witness:
  "\<exists>s'. cache_run sorted_list_of_set sample_ops sample_store = Some (sample_answers, s')"
  using cache_refines_lru_list [OF sample_new go_range_sorted, of sample_ops]
  unfolding sample_spec by blast

text \<open>C25: In every store that operations can reach, the number of entries and the payload bytes are
  within the configured bounds, and the payload counter is the sum of the weights of the entries
  that the map holds.\<close>

theorem cache_stays_within_capacity:
  assumes "reachable_store cfg s"
  shows "int (Mapping.size (cs_entries s)) \<le> cs_maxEntries s \<and> cs_payloadBytes s \<le> cs_maxBytes s
    \<and> cs_payloadBytes s = (\<Sum>k \<in> Mapping.keys (cs_entries s).
        entry_weight k (ce_value (entry_at s (the (Mapping.lookup (cs_entries s) k)))))"
proof -
  from assms obtain its where "cache_rel s its" "sized (normalize_config cfg) s"
    "within (normalize_config cfg) its" by (rule reachable_rel)
  then show ?thesis
    using rel_size cache_rel_bytes rel_weight_sum by (fastforce simp: within_def sized_def)
qed

theorem cache_stays_within_capacity_witness:
  "int (Mapping.size (cs_entries sample_store)) \<le> 2 \<and> cs_payloadBytes sample_store \<le> 100"
  using cache_stays_within_capacity [OF sample_reachable] by (simp add: sample_store_def)

lemma get_answer:
  assumes "cache_rel s its" and "first_err [validate_context x, validate_key k, locked_context x] = None"
  shows "fst (cache_get x now k s) =
    (case map_of its k of None \<Rightarrow> Inl ErrCacheMiss
     | Some p \<Rightarrow> if item_live now (k, p) then Inr (fst p) else Inl ErrCacheMiss)"
  using assms(1) by (cases rule: rel_cases [where k = k]) (simp_all add: cache_get_def assms(2))

lemma take_answer:
  assumes "cache_rel s its" and "first_err [validate_context x, validate_key k, locked_context x] = None"
  shows "fst (cache_take x now k s) =
    (case map_of its k of None \<Rightarrow> Inl ErrCacheMiss
     | Some p \<Rightarrow> if item_live now (k, p) then Inr (fst p) else Inl ErrCacheMiss)"
    and "cache_rel (snd (cache_take x now k s)) (without k its)"
proof -
  have "fst (cache_take x now k s) =
      (case map_of its k of None \<Rightarrow> Inl ErrCacheMiss
       | Some p \<Rightarrow> if item_live now (k, p) then Inr (fst p) else Inl ErrCacheMiss)
    \<and> cache_rel (snd (cache_take x now k s)) (without k its)"
    using assms(1)
    by (cases rule: rel_cases [where k = k])
      (simp_all add: cache_take_def assms Let_def remove_locked_rel [OF assms(1)])
  then show "fst (cache_take x now k s) =
      (case map_of its k of None \<Rightarrow> Inl ErrCacheMiss
       | Some p \<Rightarrow> if item_live now (k, p) then Inr (fst p) else Inl ErrCacheMiss)"
    and "cache_rel (snd (cache_take x now k s)) (without k its)" by simp_all
qed

lemma delete_rel:
  assumes "cache_rel s its" and "first_err [validate_context x, validate_key k, locked_context x] = None"
  shows "cache_rel (snd (cache_delete x k s)) (without k its)"
  using assms(1)
  by (cases rule: rel_cases [where k = k])
    (simp_all add: cache_delete_def assms remove_locked_rel [OF assms(1)])

lemma set_success:
  assumes "cache_rel s its" "sized c s" "cache_set x now k v ttl s = Some (Inr (), s1)"
  shows "cache_rel s1 (spec_insert c k v (Some (now + ttl)) its)" "sized c s1"
    "validate_key k = None"
  using set_refines [OF assms(1,2), of x now k v ttl undefined] assms(3)
  by (auto simp: implements_def resp_of_def split: option.splits)

lemma map_of_insert: "map_of (spec_insert c k v e its) k = Some (v, e)"
  by (simp add: spec_insert_def)

text \<open>A value set with a time to live is what Get returns up to the instant it expires and a
  miss from then on; deleting the key makes it a miss at once.\<close>

theorem cache_ttl_contract:
  assumes "reachable_store cfg s" and "cache_set x now k v ttl s = Some (Inr (), s1)"
    and "validate_context y = None" and "locked_context y = None"
  shows "fst (cache_get y now' k s1) = (if now' < now + ttl then Inr v else Inl ErrCacheMiss)
    \<and> fst (cache_get y now' k (snd (cache_delete y k s1))) = Inl ErrCacheMiss"
proof -
  from assms(1) obtain its where r: "cache_rel s its" "sized (normalize_config cfg) s"
    by (rule reachable_rel)
  note s1 = set_success [OF r assms(2)]
  have ok: "first_err [validate_context y, validate_key k, locked_context y] = None"
    using assms(3,4) s1(3) by simp
  show ?thesis
    using get_answer [OF s1(1) ok] get_answer [OF delete_rel [OF s1(1) ok] ok]
    by (simp add: map_of_insert item_live_def)
qed

lemma sample_set:
  "\<exists>s1. cache_set sample_ctx 0 ''a'' [1::nat] 10 sample_store = Some (Inr (), s1)"
proof -
  have "fst (spec_step (normalize_config sample_config) (OSet sample_ctx 0 ''a'' [1::nat] 10) []) = RDone"
    by code_simp
  with set_refines [OF new_store_rel [OF sample_new], of sample_ctx 0 "''a''" "[1]" 10 undefined]
  show ?thesis
    by (auto simp: implements_def resp_of_def simp del: spec_step.simps split: sum.splits)
      (metis (full_types) old.unit.exhaust sum.exhaust)
qed

theorem cache_ttl_contract_witness:
  "\<exists>s1. cache_set sample_ctx 0 ''a'' [1::nat] 10 sample_store = Some (Inr (), s1)
    \<and> fst (cache_get sample_ctx 9 ''a'' s1) = Inr [1]
    \<and> fst (cache_get sample_ctx 10 ''a'' s1) = Inl ErrCacheMiss"
proof -
  obtain s1 where s1: "cache_set sample_ctx 0 ''a'' [1::nat] 10 sample_store = Some (Inr (), s1)"
    using sample_set by blast
  have "validate_context sample_ctx = None" "locked_context sample_ctx = None" by code_simp+
  note this' = cache_ttl_contract [OF sample_reachable s1 this]
  show ?thesis using s1 this' [of 9] this' [of 10] by auto
qed

text \<open>Add is a test-and-set: after it stored a value, a second Add of the key before the expiry
  answers false and changes no value, and Take hands the value out once.\<close>

theorem cache_add_and_take_are_atomic:
  assumes "reachable_store cfg s" and "cache_add x now k v ttl s = Some (Inr True, s1)"
    and "cache_add y now1 k v1 ttl1 s1 = Some (Inr b, s2)" and "now1 < now + ttl"
    and "now2 < now + ttl"
  shows "\<not> b \<and> fst (cache_take y now2 k s2) = Inr v
    \<and> fst (cache_take y now3 k (snd (cache_take y now2 k s2))) = Inl ErrCacheMiss"
proof -
  let ?c = "normalize_config cfg" and ?u = "undefined :: string set \<Rightarrow> string list"
  from assms(1) obtain its where r: "cache_rel s its" "sized ?c s" by (rule reachable_rel)
  from add_refines [OF r, of x now k v ttl ?u] assms(2)
  have s1: "cache_rel s1 (spec_insert ?c k v (Some (now + ttl)) its)" "sized ?c s1"
    by (auto simp: implements_def resp_of_def split: option.splits if_splits)
  from add_refines [OF s1, of y now1 k v1 ttl1 ?u] assms(3,4)
  have s2: "cache_rel s2 ((k, v, Some (now + ttl)) # without k (spec_insert ?c k v (Some (now + ttl)) its))"
    and b: "\<not> b" and ok: "first_err [validate_context y, validate_key k, locked_context y] = None"
    by (auto simp: implements_def resp_of_def map_of_insert item_live_def split: option.splits if_splits)
  from take_answer [OF s2 ok] take_answer(1) [OF take_answer(2) [OF s2 ok] ok]
  show ?thesis using assms(5) b by (simp add: item_live_def)
qed

text \<open>A successful Set keeps the most recently used of the other items, in order, and drops
  only as many of the least recently used as the two bounds need: one item more would not fit.\<close>

theorem cache_evicts_least_recently_used:
  assumes "cache_rel s its" and "sized c s" and "cache_set x now k v ttl s = Some (Inr (), s1)"
  shows "\<exists>n. cache_rel s1 ((k, v, Some (now + ttl)) # take n (without k its))
    \<and> (\<forall>m. n < m \<longrightarrow> m \<le> length (without k its) \<longrightarrow>
        cc_maxEntries c < int m + 1
        \<or> cc_maxBytes c < items_bytes (take m (without k its)) + entry_weight k v)"
proof -
  obtain n where "spec_room (cc_maxEntries c) (cc_maxBytes c) (entry_weight k v) (without k its) =
      take n (without k its)" and
    "\<forall>m. n < m \<longrightarrow> m \<le> length (without k its) \<longrightarrow> cc_maxEntries c < int m + 1
        \<or> cc_maxBytes c < items_bytes (take m (without k its)) + entry_weight k v"
    using spec_room_maximal by blast
  with set_success(1) [OF assms] show ?thesis by (auto simp: spec_insert_def)
qed

theorem cache_evicts_least_recently_used_witness:
  "\<exists>s1 n. cache_rel s1 ((''a'', [1::nat], Some (0 + 10)) # take n (without ''a'' []))"
proof -
  obtain s1 where "cache_set sample_ctx 0 ''a'' [1::nat] 10 sample_store = Some (Inr (), s1)"
    using sample_set by blast
  from cache_evicts_least_recently_used [OF new_store_rel [OF sample_new] this] show ?thesis by blast
qed

lemma sample_adds:
  "\<exists>s1 s2. cache_add sample_ctx 0 ''a'' [1::nat] 10 sample_store = Some (Inr True, s1)
    \<and> cache_add sample_ctx 1 ''a'' [2] 10 s1 = Some (Inr False, s2)"
proof -
  let ?ops = "[OAdd sample_ctx 0 ''a'' [1::nat] 10, OAdd sample_ctx 1 ''a'' [2] 10]"
  have "fst (spec_run (normalize_config sample_config) ?ops []) = [RBool True, RBool False]"
    by code_simp
  with run_refines [OF new_store_rel [OF sample_new] go_range_sorted, of ?ops]
  show ?thesis
    by (auto simp: resp_of_def simp del: spec_step.simps spec_run.simps split: option.splits sum.splits)
qed

theorem cache_add_and_take_are_atomic_witness:
  "\<exists>s2. fst (cache_take sample_ctx 2 ''a'' s2) = Inr [1::nat]
    \<and> fst (cache_take sample_ctx 3 ''a'' (snd (cache_take sample_ctx 2 ''a'' s2))) = Inl ErrCacheMiss"
proof -
  obtain s1 s2 where "cache_add sample_ctx 0 ''a'' [1::nat] 10 sample_store = Some (Inr True, s1)"
    "cache_add sample_ctx 1 ''a'' [2] 10 s1 = Some (Inr False, s2)"
    using sample_adds by blast
  from cache_add_and_take_are_atomic [OF sample_reachable this, of 2 3] show ?thesis by auto
qed

end
