(* ===== verification/Task_Store.thy ===== *)
theory Task_Store
  imports Workflow_Types
begin

text \<open>
  The durable queue driver, \<open>PostgresDriver\<close> of
  \<open>api/internal/capabilities/workflow/postgres.go\<close> and \<open>postgres_operations.go\<close>. The table
  \<open>workflow_tasks\<close> is a list of rows; an \<open>UPDATE ... WHERE\<close> maps over it and counts the rows it
  matched, as \<open>RowsAffected\<close> does. Each SQL statement is a definition of its own, and the methods
  compose them the way the code does.

  What the code takes from outside are arguments: the clock readings, the UUIDs, the JSON codec and
  hash (\<open>codec\<close>), the ids that other transactions have locked (\<open>SKIP LOCKED\<close>), and for each
  statement of a call, in order, the error the database answers with, if any. A transaction that
  ends in an error leaves the table as it was.
\<close>

subsection \<open>Rows, claims, statistics\<close>

datatype task_status = Pending | Processing | Completed | Failed | Canceled

record 'p task =
  tk_id :: string
  tk_queue :: string
  tk_key :: "string option"
  tk_payload :: 'p
  tk_hash :: string
  tk_status :: task_status
  tk_attempts :: int
  tk_maxAttempts :: int
  tk_availableAt :: instant
  tk_leaseToken :: string
  tk_leaseExpiresAt :: "instant option"
  tk_fence :: nat
  tk_cancelAt :: "instant option"
  tk_completedAt :: "instant option"
  tk_failedAt :: "instant option"
  tk_failure :: string
  tk_createdAt :: instant
  tk_updatedAt :: instant

record 'p durable_claim =
  dc_id :: string
  dc_payload :: 'p
  dc_token :: string
  dc_fence :: nat
  dc_attempts :: int

record queue_stats =
  qs_pending :: int
  qs_processing :: int
  qs_failed :: int
  qs_lag :: duration

record task_summary =
  sm_id :: string
  sm_queue :: string
  sm_status :: task_status
  sm_attempts :: int
  sm_maxAttempts :: int
  sm_failure :: string
  sm_hash :: string
  sm_createdAt :: instant
  sm_availableAt :: instant
  sm_completedAt :: "instant option"
  sm_failedAt :: "instant option"

record ('p, 'd) codec =
  cd_decode :: "'p \<Rightarrow> wf_error + 'd job_payload"
  cd_encode :: "'d job_payload \<Rightarrow> wf_error + 'p"
  cd_stable :: "string \<Rightarrow> 'd \<Rightarrow> int \<Rightarrow> wf_error + string"
  cd_sha256_hex :: "string \<Rightarrow> string"

type_synonym faults = "nat \<Rightarrow> wf_error option"

definition no_faults :: faults where
  "no_faults = (\<lambda>_. None)"

subsection \<open>Statements\<close>

text \<open>The ownership test of every acknowledgement, and the updates it guards.\<close>

definition owns :: "'p durable_claim \<Rightarrow> 'p task \<Rightarrow> bool" where
  "owns c r \<longleftrightarrow> tk_id r = dc_id c \<and> tk_status r = Processing \<and> tk_leaseToken r = dc_token c
     \<and> tk_fence r = dc_fence c"

definition finish_where :: "'p durable_claim \<Rightarrow> 'p task \<Rightarrow> bool" where
  "finish_where c r \<longleftrightarrow> owns c r \<and> tk_cancelAt r = None"

definition finish_set ::
    "instant \<Rightarrow> task_status \<Rightarrow> string \<Rightarrow> instant option \<Rightarrow> 'p task \<Rightarrow> 'p task" where
  "finish_set now status failure availableAt r =
     (let r1 = r\<lparr>tk_status := status, tk_leaseToken := '''', tk_leaseExpiresAt := None,
                tk_failure := failure, tk_updatedAt := now\<rparr>;
          r2 = (if status = Completed then r1\<lparr>tk_completedAt := Some now\<rparr> else r1);
          r3 = (if status = Failed then r2\<lparr>tk_failedAt := Some now\<rparr> else r2)
      in case availableAt of None \<Rightarrow> r3 | Some t \<Rightarrow> r3\<lparr>tk_availableAt := t\<rparr>)"

definition cancel_where :: "'p durable_claim \<Rightarrow> 'p task \<Rightarrow> bool" where
  "cancel_where c r \<longleftrightarrow> owns c r \<and> tk_cancelAt r \<noteq> None"

definition canceled_set :: "instant \<Rightarrow> 'p task \<Rightarrow> 'p task" where
  "canceled_set now r =
     r\<lparr>tk_status := Canceled, tk_leaseToken := '''', tk_leaseExpiresAt := None, tk_updatedAt := now\<rparr>"

definition retry_set :: "instant \<Rightarrow> 'p \<Rightarrow> instant \<Rightarrow> string \<Rightarrow> 'p task \<Rightarrow> 'p task" where
  "retry_set now payload availableAt failure r =
     r\<lparr>tk_status := Pending, tk_payload := payload, tk_availableAt := availableAt,
       tk_leaseToken := '''', tk_leaseExpiresAt := None, tk_failure := failure, tk_updatedAt := now\<rparr>"

definition beat_set :: "instant \<Rightarrow> instant \<Rightarrow> 'p task \<Rightarrow> 'p task" where
  "beat_set expires now r = r\<lparr>tk_leaseExpiresAt := Some expires, tk_updatedAt := now\<rparr>"

definition cancel_request_where :: "string \<Rightarrow> 'p task \<Rightarrow> bool" where
  "cancel_request_where i r \<longleftrightarrow> tk_id r = i \<and> tk_status r \<in> {Pending, Processing}"

definition cancel_request_set :: "instant \<Rightarrow> 'p task \<Rightarrow> 'p task" where
  "cancel_request_set now r =
     r\<lparr>tk_cancelAt := Some now, tk_status := (if tk_status r = Pending then Canceled else tk_status r),
       tk_updatedAt := now\<rparr>"

text \<open>The five statements of \<open>Claim\<close>.\<close>

definition expired_lease :: "instant \<Rightarrow> 'p task \<Rightarrow> bool" where
  "expired_lease now r \<longleftrightarrow>
     tk_status r = Processing \<and> (case tk_leaseExpiresAt r of None \<Rightarrow> False | Some t \<Rightarrow> t \<le> now)"

definition recover_canceled_where :: "string \<Rightarrow> instant \<Rightarrow> 'p task \<Rightarrow> bool" where
  "recover_canceled_where q now r \<longleftrightarrow> tk_queue r = q \<and> expired_lease now r \<and> tk_cancelAt r \<noteq> None"

definition recover_canceled :: "string \<Rightarrow> instant \<Rightarrow> 'p task list \<Rightarrow> 'p task list" where
  "recover_canceled q now = update_rows (recover_canceled_where q now) (canceled_set now)"

definition exhausted_set :: "instant \<Rightarrow> 'p task \<Rightarrow> 'p task" where
  "exhausted_set now r =
     r\<lparr>tk_status := Failed, tk_leaseToken := '''', tk_leaseExpiresAt := None,
       tk_failedAt := Some now, tk_failure := ''lease_expired'', tk_updatedAt := now\<rparr>"

definition recover_exhausted_where :: "string \<Rightarrow> instant \<Rightarrow> 'p task \<Rightarrow> bool" where
  "recover_exhausted_where q now r \<longleftrightarrow>
     tk_queue r = q \<and> expired_lease now r \<and> tk_attempts r \<ge> tk_maxAttempts r"

definition recover_exhausted :: "string \<Rightarrow> instant \<Rightarrow> 'p task list \<Rightarrow> 'p task list" where
  "recover_exhausted q now = update_rows (recover_exhausted_where q now) (exhausted_set now)"

definition claimable :: "string \<Rightarrow> instant \<Rightarrow> 'p task \<Rightarrow> bool" where
  "claimable q now r \<longleftrightarrow>
     tk_queue r = q \<and> tk_cancelAt r = None \<and> tk_attempts r < tk_maxAttempts r
     \<and> (tk_status r = Pending \<and> tk_availableAt r \<le> now \<or> expired_lease now r)"

text \<open>\<open>ORDER BY available_at, created_at, id LIMIT 1\<close>.\<close>

definition row_before :: "'p task \<Rightarrow> 'p task \<Rightarrow> bool" where
  "row_before r r' \<longleftrightarrow>
     tk_availableAt r < tk_availableAt r'
     \<or> tk_availableAt r = tk_availableAt r'
        \<and> (tk_createdAt r < tk_createdAt r'
           \<or> tk_createdAt r = tk_createdAt r' \<and> tk_id r \<le> tk_id r')"

fun first_row :: "'p task list \<Rightarrow> 'p task option" where
  "first_row [] = None"
| "first_row (r # rs) =
     (case first_row rs of None \<Rightarrow> Some r
      | Some r' \<Rightarrow> Some (if row_before r r' then r else r'))"

definition find_claimable ::
    "(string \<Rightarrow> bool) \<Rightarrow> string \<Rightarrow> instant \<Rightarrow> 'p task list \<Rightarrow> 'p task option" where
  "find_claimable locked q now rows =
     first_row (filter (\<lambda>r. claimable q now r \<and> \<not> locked (tk_id r)) rows)"

definition claim_set :: "instant \<Rightarrow> instant \<Rightarrow> string \<Rightarrow> 'p task \<Rightarrow> 'p task" where
  "claim_set now expires token r =
     r\<lparr>tk_status := Processing, tk_attempts := tk_attempts r + 1, tk_leaseToken := token,
       tk_leaseExpiresAt := Some expires, tk_fence := tk_fence r + 1, tk_updatedAt := now\<rparr>"

subsection \<open>The driver\<close>

record 'p pg_driver =
  pg_rows :: "'p task list"
  pg_closed :: bool

definition ensure_open :: "'p pg_driver \<Rightarrow> wf_error option" where
  "ensure_open d = (if pg_closed d then Some ErrDriverClosed else None)"

definition pg_close :: "'p pg_driver \<Rightarrow> 'p pg_driver" where
  "pg_close d = d\<lparr>pg_closed := True\<rparr>"

definition failure_code :: "wf_error option \<Rightarrow> string" where
  "failure_code e =
     (case e of None \<Rightarrow> ''''
      | Some x \<Rightarrow> if errors_is x CtxDeadlineExceeded then ''timeout''
                  else if errors_is x CtxCanceled then ''canceled'' else ''job_handler_error'')"

definition task_fingerprint :: "('p, 'd) codec \<Rightarrow> 'd job_payload \<Rightarrow> wf_error + string" where
  "task_fingerprint cd p =
     (case cd_stable cd (jp_type p) (jp_data p) (jp_maxRetries p) of
        Inl e \<Rightarrow> Inl (WrapErr ''fingerprint workflow payload'' e)
      | Inr js \<Rightarrow> Inr (cd_sha256_hex cd js))"

definition same_key :: "'p task \<Rightarrow> 'p task \<Rightarrow> bool" where
  "same_key r r' \<longleftrightarrow> tk_queue r = tk_queue r' \<and> tk_key r \<noteq> None \<and> tk_key r = tk_key r'"

text \<open>\<open>Create\<close> fails on a fault, on the primary key, or on the unique index over queue and key.\<close>

definition create_row :: "wf_error option \<Rightarrow> 'p task \<Rightarrow> 'p task list \<Rightarrow> wf_error + 'p task list" where
  "create_row flt row rows =
     (case flt of Some e \<Rightarrow> Inl e
      | None \<Rightarrow> if \<exists>r \<in> set rows. tk_id r = tk_id row \<or> same_key row r
                then Inl (StoreErr ''duplicate key'') else Inr (rows @ [row]))"

text \<open>The row an insert builds, or the validation error it stops at: name, envelope, id, retries,
  fingerprint and key in the code's order.\<close>

definition new_row ::
    "('p, 'd) codec \<Rightarrow> string \<Rightarrow> instant \<Rightarrow> instant \<Rightarrow> instant \<Rightarrow> string \<Rightarrow> 'p \<Rightarrow> wf_error + 'p task" where
  "new_row cd uuid created updated availableAt queue payload =
     (let q = trim_space queue
      in if q = '''' \<or> length q > 128 then Inl (Errorf ''workflow queue name is invalid'')
      else case cd_decode cd payload of
        Inl e \<Rightarrow> Inl (WrapErr ''decode workflow payload'' e)
      | Inr env0 \<Rightarrow>
          (let env = (if jp_id env0 = '''' then env0\<lparr>jp_id := uuid\<rparr> else env0)
           in case (if jp_id env0 = '''' then cd_encode cd env else Inr payload) of
                Inl e \<Rightarrow> Inl (WrapErr ''encode workflow payload'' e)
              | Inr payload' \<Rightarrow>
                  if jp_maxRetries env < 0 then Inl (Errorf ''workflow max retries cannot be negative'')
                  else case task_fingerprint cd env of
                    Inl e \<Rightarrow> Inl e
                  | Inr hash \<Rightarrow>
                      (let key = trim_space (jp_idempotencyKey env)
                       in if length key > 128 then Inl (Errorf ''workflow idempotency key is too long'')
                          else Inr \<lparr>tk_id = jp_id env, tk_queue = q,
                            tk_key = (if key = '''' then None else Some key), tk_payload = payload',
                            tk_hash = hash, tk_status = Pending, tk_attempts = 0,
                            tk_maxAttempts = max 1 (jp_maxRetries env), tk_availableAt = availableAt,
                            tk_leaseToken = '''', tk_leaseExpiresAt = None, tk_fence = 0,
                            tk_cancelAt = None, tk_completedAt = None, tk_failedAt = None,
                            tk_failure = '''', tk_createdAt = created, tk_updatedAt = updated\<rparr>)))"

definition pg_insert ::
    "('p, 'd) codec \<Rightarrow> faults \<Rightarrow> string \<Rightarrow> instant \<Rightarrow> instant \<Rightarrow> string \<Rightarrow> 'p \<Rightarrow> instant
     \<Rightarrow> 'p pg_driver \<Rightarrow> (wf_error + string) \<times> 'p pg_driver" where
  "pg_insert cd flt uuid created updated queue payload availableAt d =
     (case ensure_open d of Some e \<Rightarrow> (Inl e, d)
      | None \<Rightarrow>
     (case new_row cd uuid created updated availableAt queue payload of Inl e \<Rightarrow> (Inl e, d)
      | Inr row \<Rightarrow>
     (case create_row (flt 0) row (pg_rows d) of
        Inr rows \<Rightarrow> (Inr (tk_id row), d\<lparr>pg_rows := rows\<rparr>)
      | Inl e \<Rightarrow>
          if tk_key row = None then (Inl (WrapErr ''insert workflow task'' e), d)
          else (case flt 1 of Some _ \<Rightarrow> (Inl (WrapErr ''insert workflow task'' e), d)
                | None \<Rightarrow>
                    (case find (\<lambda>r. same_key row r) (pg_rows d) of
                       None \<Rightarrow> (Inl (WrapErr ''insert workflow task'' e), d)
                     | Some r \<Rightarrow> if tk_hash r = tk_hash row then (Inr (tk_id r), d)
                                 else (Inl ErrIdempotencyConflict, d))))))"

definition pg_push_task ::
    "('p, 'd) codec \<Rightarrow> faults \<Rightarrow> string \<Rightarrow> instant \<Rightarrow> instant \<Rightarrow> instant \<Rightarrow> string \<Rightarrow> 'p
     \<Rightarrow> 'p pg_driver \<Rightarrow> (wf_error + string) \<times> 'p pg_driver" where
  "pg_push_task cd flt uuid now created updated queue payload d =
     pg_insert cd flt uuid created updated queue payload now d"

definition pg_push_task_delayed ::
    "('p, 'd) codec \<Rightarrow> faults \<Rightarrow> string \<Rightarrow> instant \<Rightarrow> instant \<Rightarrow> instant \<Rightarrow> string \<Rightarrow> 'p \<Rightarrow> duration
     \<Rightarrow> 'p pg_driver \<Rightarrow> (wf_error + string) \<times> 'p pg_driver" where
  "pg_push_task_delayed cd flt uuid now created updated queue payload delay d =
     (let dl = (if delay < 0 then 0 else delay)
      in pg_insert cd flt uuid created updated queue payload (now + dl) d)"

definition pg_pop :: "'p pg_driver \<Rightarrow> (wf_error + 'p) \<times> 'p pg_driver" where
  "pg_pop d = (Inl (Errorf ''postgres workflow driver requires lease-aware worker claims''), d)"

text \<open>
  One call of \<open>Claim\<close> whose statements follow each other with no statement of another process in
  between. The transaction runs at READ COMMITTED and holds only the locks of the rows it wrote or
  selected, so other statements may commit between its own: \<open>Task_Store_Inv\<close> takes the statements one
  by one, interleaved with all others, and shows that this definition is one of those runs.
\<close>

definition pg_claim ::
    "faults \<Rightarrow> (string \<Rightarrow> bool) \<Rightarrow> instant \<Rightarrow> string \<Rightarrow> string \<Rightarrow> duration \<Rightarrow> 'p pg_driver
     \<Rightarrow> (wf_error + 'p durable_claim) \<times> 'p pg_driver" where
  "pg_claim flt locked now token queue lease d =
     (case ensure_open d of Some e \<Rightarrow> (Inl e, d)
      | None \<Rightarrow>
      if lease \<le> 0 then (Inl (Errorf ''workflow lease duration must be positive''), d)
      else case flt 0 of Some e \<Rightarrow> (Inl (WrapErr ''recover canceled workflow tasks'' e), d)
      | None \<Rightarrow>
     (case flt 1 of Some e \<Rightarrow> (Inl (WrapErr ''recover exhausted workflow tasks'' e), d)
      | None \<Rightarrow>
     (let rows = recover_exhausted queue now (recover_canceled queue now (pg_rows d))
      in case flt 2 of Some e \<Rightarrow> (Inl (WrapErr ''find claimable workflow task'' e), d)
      | None \<Rightarrow>
     (case find_claimable locked queue now rows of
        None \<Rightarrow> (case flt 3 of Some e \<Rightarrow> (Inl e, d) | None \<Rightarrow> (Inl ErrQueueEmpty, d\<lparr>pg_rows := rows\<rparr>))
      | Some row \<Rightarrow>
          (case flt 3 of Some e \<Rightarrow> (Inl (WrapErr ''claim workflow task'' e), d)
           | None \<Rightarrow>
               (let target = (\<lambda>r. tk_id r = tk_id row \<and> tk_fence r = tk_fence row)
                in if rows_affected target rows \<noteq> 1 then (Inl ErrLeaseLost, d)
                   else case flt 4 of Some e \<Rightarrow> (Inl e, d)
                   | None \<Rightarrow>
                       (Inr \<lparr>dc_id = tk_id row, dc_payload = tk_payload row, dc_token = token,
                             dc_fence = tk_fence row + 1, dc_attempts = tk_attempts row + 1\<rparr>,
                        d\<lparr>pg_rows := update_rows target (claim_set now (now + lease) token) rows\<rparr>)))))))"

definition pg_finish_cancellation ::
    "wf_error option \<Rightarrow> 'p durable_claim \<Rightarrow> instant \<Rightarrow> 'p pg_driver \<Rightarrow> (wf_error + unit) \<times> 'p pg_driver" where
  "pg_finish_cancellation flt c now d =
     (case flt of Some e \<Rightarrow> (Inl e, d)
      | None \<Rightarrow>
          (let d' = d\<lparr>pg_rows := update_rows (cancel_where c) (canceled_set now) (pg_rows d)\<rparr>
           in if rows_affected (cancel_where c) (pg_rows d) \<noteq> 1 then (Inl ErrLeaseLost, d')
              else (Inr (), d')))"

definition pg_finish ::
    "faults \<Rightarrow> instant \<Rightarrow> 'p durable_claim option \<Rightarrow> task_status \<Rightarrow> string \<Rightarrow> instant option
     \<Rightarrow> 'p pg_driver \<Rightarrow> (wf_error + unit) \<times> 'p pg_driver" where
  "pg_finish flt now claim status failure availableAt d =
     (case claim of None \<Rightarrow> (Inl ErrLeaseLost, d)
      | Some c \<Rightarrow>
          (case flt 0 of Some e \<Rightarrow> (Inl e, d)
           | None \<Rightarrow>
               (let d' = d\<lparr>pg_rows := update_rows (finish_where c)
                            (finish_set now status failure availableAt) (pg_rows d)\<rparr>
                in if rows_affected (finish_where c) (pg_rows d) \<noteq> 1
                   then pg_finish_cancellation (flt 1) c now d' else (Inr (), d'))))"

definition pg_complete ::
    "faults \<Rightarrow> instant \<Rightarrow> 'p durable_claim option \<Rightarrow> 'p pg_driver \<Rightarrow> (wf_error + unit) \<times> 'p pg_driver" where
  "pg_complete flt now claim d = pg_finish flt now claim Completed '''' None d"

definition pg_fail ::
    "faults \<Rightarrow> instant \<Rightarrow> 'p durable_claim option \<Rightarrow> wf_error option \<Rightarrow> 'p pg_driver
     \<Rightarrow> (wf_error + unit) \<times> 'p pg_driver" where
  "pg_fail flt now claim cause d = pg_finish flt now claim Failed (failure_code cause) None d"

definition pg_retry ::
    "faults \<Rightarrow> instant \<Rightarrow> instant \<Rightarrow> 'p durable_claim option \<Rightarrow> 'p \<Rightarrow> instant \<Rightarrow> wf_error option
     \<Rightarrow> 'p pg_driver \<Rightarrow> (wf_error + unit) \<times> 'p pg_driver" where
  "pg_retry flt now now2 claim payload availableAt cause d =
     (case claim of None \<Rightarrow> (Inl ErrLeaseLost, d)
      | Some c \<Rightarrow>
          (case flt 0 of Some e \<Rightarrow> (Inl e, d)
           | None \<Rightarrow>
               (let d' = d\<lparr>pg_rows := update_rows (finish_where c)
                            (retry_set now payload availableAt (failure_code cause)) (pg_rows d)\<rparr>
                in if rows_affected (finish_where c) (pg_rows d) \<noteq> 1
                   then pg_finish_cancellation (flt 1) c now2 d' else (Inr (), d'))))"

definition pg_heartbeat ::
    "faults \<Rightarrow> instant \<Rightarrow> instant \<Rightarrow> 'p durable_claim option \<Rightarrow> duration \<Rightarrow> 'p pg_driver
     \<Rightarrow> (wf_error + bool) \<times> 'p pg_driver" where
  "pg_heartbeat flt now now2 claim lease d =
     (case claim of None \<Rightarrow> (Inl ErrLeaseLost, d)
      | Some c \<Rightarrow>
          (case flt 0 of Some e \<Rightarrow> (Inl e, d)
           | None \<Rightarrow>
               (case find (owns c) (pg_rows d) of
                  None \<Rightarrow> (Inl ErrLeaseLost, d)
                | Some r \<Rightarrow>
                    if tk_cancelAt r \<noteq> None then (Inr True, d)
                    else (case flt 1 of Some e \<Rightarrow> (Inl e, d)
                          | None \<Rightarrow>
                              (let d' = d\<lparr>pg_rows := update_rows (owns c) (beat_set (now + lease) now2)
                                           (pg_rows d)\<rparr>
                               in if rows_affected (owns c) (pg_rows d) \<noteq> 1 then (Inl ErrLeaseLost, d')
                                  else (Inr False, d'))))))"

definition pg_cancel ::
    "wf_error option \<Rightarrow> instant \<Rightarrow> string \<Rightarrow> 'p pg_driver \<Rightarrow> (wf_error + unit) \<times> 'p pg_driver" where
  "pg_cancel flt now taskID d =
     (case flt of Some e \<Rightarrow> (Inl e, d)
      | None \<Rightarrow>
          (let d' = d\<lparr>pg_rows := update_rows (cancel_request_where taskID) (cancel_request_set now) (pg_rows d)\<rparr>
           in if rows_affected (cancel_request_where taskID) (pg_rows d) = 0
              then (Inl ErrTaskNotFound, d') else (Inr (), d')))"

definition pg_size :: "wf_error option \<Rightarrow> string \<Rightarrow> 'p pg_driver \<Rightarrow> int \<times> wf_error option" where
  "pg_size flt queue d =
     (case flt of Some e \<Rightarrow> (0, Some e)
      | None \<Rightarrow> (int (rows_affected (\<lambda>r. tk_queue r = queue \<and> tk_status r \<in> {Pending, Processing})
                      (pg_rows d)), None))"

text \<open>\<open>min(available_at)\<close> over no rows is NULL.\<close>

fun sql_min :: "instant list \<Rightarrow> instant option" where
  "sql_min [] = None"
| "sql_min (t # ts) = (case sql_min ts of None \<Rightarrow> Some t | Some u \<Rightarrow> Some (min t u))"

definition pg_stats ::
    "faults \<Rightarrow> string \<Rightarrow> instant \<Rightarrow> 'p pg_driver \<Rightarrow> wf_error + queue_stats" where
  "pg_stats flt queue now d =
     (let count = (\<lambda>s. int (rows_affected (\<lambda>r. tk_queue r = queue \<and> tk_status r = s) (pg_rows d)))
      in case flt 0 of Some e \<Rightarrow> Inl e
      | None \<Rightarrow>
     (case flt 1 of Some e \<Rightarrow> Inl e
      | None \<Rightarrow>
          (let oldest = sql_min (map tk_availableAt (filter (\<lambda>r. tk_queue r = queue
                          \<and> tk_status r = Pending \<and> tk_availableAt r \<le> now) (pg_rows d)))
           in Inr \<lparr>qs_pending = count Pending, qs_processing = count Processing,
                   qs_failed = count Failed,
                   qs_lag = (case oldest of None \<Rightarrow> 0
                             | Some t \<Rightarrow> if t < now then now - t else 0)\<rparr>)))"

definition pg_clear :: "wf_error option \<Rightarrow> string \<Rightarrow> 'p pg_driver \<Rightarrow> (wf_error + unit) \<times> 'p pg_driver" where
  "pg_clear flt queue d =
     (case flt of Some e \<Rightarrow> (Inl e, d)
      | None \<Rightarrow> (Inr (), d\<lparr>pg_rows := filter (\<lambda>r. tk_queue r \<noteq> queue) (pg_rows d)\<rparr>))"

subsection \<open>Operator commands (\<open>postgres_operations.go\<close>)\<close>

definition max_task_list_limit :: int where "max_task_list_limit = 200"
definition max_task_prune_batch :: int where "max_task_prune_batch = 10000"

fun insert_by :: "('a \<Rightarrow> 'a \<Rightarrow> bool) \<Rightarrow> 'a \<Rightarrow> 'a list \<Rightarrow> 'a list" where
  "insert_by le x [] = [x]"
| "insert_by le x (y # ys) = (if le x y then x # y # ys else y # insert_by le x ys)"

definition order_by :: "('a \<Rightarrow> 'a \<Rightarrow> bool) \<Rightarrow> 'a list \<Rightarrow> 'a list" where
  "order_by le xs = foldr (insert_by le) xs []"

definition newest_first :: "'p task \<Rightarrow> 'p task \<Rightarrow> bool" where
  "newest_first r r' \<longleftrightarrow> tk_createdAt r' < tk_createdAt r
     \<or> tk_createdAt r = tk_createdAt r' \<and> tk_id r' \<le> tk_id r"

definition oldest_update_first :: "'p task \<Rightarrow> 'p task \<Rightarrow> bool" where
  "oldest_update_first r r' \<longleftrightarrow> tk_updatedAt r < tk_updatedAt r'
     \<or> tk_updatedAt r = tk_updatedAt r' \<and> tk_id r \<le> tk_id r'"

definition summary_of :: "'p task \<Rightarrow> task_summary" where
  "summary_of r =
     \<lparr>sm_id = tk_id r, sm_queue = tk_queue r, sm_status = tk_status r, sm_attempts = tk_attempts r,
      sm_maxAttempts = tk_maxAttempts r, sm_failure = tk_failure r, sm_hash = tk_hash r,
      sm_createdAt = tk_createdAt r, sm_availableAt = tk_availableAt r,
      sm_completedAt = tk_completedAt r, sm_failedAt = tk_failedAt r\<rparr>"

definition status_name :: "task_status \<Rightarrow> string" where
  "status_name st =
     (case st of Pending \<Rightarrow> ''pending'' | Processing \<Rightarrow> ''processing'' | Completed \<Rightarrow> ''completed''
      | Failed \<Rightarrow> ''failed'' | Canceled \<Rightarrow> ''canceled'')"

definition pg_list_tasks ::
    "wf_error option \<Rightarrow> string \<Rightarrow> string \<Rightarrow> int \<Rightarrow> 'p pg_driver \<Rightarrow> wf_error + task_summary list" where
  "pg_list_tasks flt queue status limit d =
     (if limit < 1 \<or> limit > max_task_list_limit then Inl (Errorf ''limit out of range'')
      else if status \<notin> {'''', ''pending'', ''processing'', ''completed'', ''failed'', ''canceled''}
      then Inl (Errorf ''unknown task status'')
      else case flt of Some e \<Rightarrow> Inl e
      | None \<Rightarrow>
          (let rows = filter (\<lambda>r. (queue = '''' \<or> tk_queue r = queue)
                                \<and> (status = '''' \<or> status_name (tk_status r) = status)) (pg_rows d)
           in Inr (map summary_of (take (nat limit) (order_by newest_first rows)))))"

definition retry_failed_where :: "string \<Rightarrow> 'p task \<Rightarrow> bool" where
  "retry_failed_where i r \<longleftrightarrow> tk_id r = i \<and> tk_status r = Failed"

definition retry_failed_set :: "instant \<Rightarrow> 'p task \<Rightarrow> 'p task" where
  "retry_failed_set now r =
     r\<lparr>tk_status := Pending, tk_attempts := 0, tk_availableAt := now, tk_failedAt := None,
       tk_leaseToken := '''', tk_leaseExpiresAt := None, tk_updatedAt := now\<rparr>"

definition pg_retry_failed ::
    "faults \<Rightarrow> instant \<Rightarrow> string \<Rightarrow> 'p pg_driver \<Rightarrow> (wf_error + unit) \<times> 'p pg_driver" where
  "pg_retry_failed flt now taskID d =
     (case flt 0 of Some e \<Rightarrow> (Inl e, d)
      | None \<Rightarrow>
          (let d' = d\<lparr>pg_rows := update_rows (retry_failed_where taskID) (retry_failed_set now) (pg_rows d)\<rparr>
           in if rows_affected (retry_failed_where taskID) (pg_rows d) = 1 then (Inr (), d')
              else (case flt 1 of Some e \<Rightarrow> (Inl e, d')
                    | None \<Rightarrow> if rows_affected (\<lambda>r. tk_id r = taskID) (pg_rows d') = 0
                              then (Inl ErrTaskNotFound, d') else (Inl ErrTaskNotRetryable, d'))))"

definition finished_before :: "instant \<Rightarrow> 'p task \<Rightarrow> bool" where
  "finished_before before r \<longleftrightarrow>
     tk_status r \<in> {Completed, Failed, Canceled} \<and> tk_updatedAt r < before"

definition prunable ::
    "(string \<Rightarrow> bool) \<Rightarrow> instant \<Rightarrow> int \<Rightarrow> 'p task list \<Rightarrow> string list" where
  "prunable locked before batch rows =
     map tk_id (take (nat batch)
       (order_by oldest_update_first (filter (\<lambda>r. finished_before before r \<and> \<not> locked (tk_id r)) rows)))"

definition pg_prune_finished ::
    "wf_error option \<Rightarrow> (string \<Rightarrow> bool) \<Rightarrow> instant \<Rightarrow> int \<Rightarrow> 'p pg_driver
     \<Rightarrow> (wf_error + int) \<times> 'p pg_driver" where
  "pg_prune_finished flt locked before batch d =
     (if batch < 1 \<or> batch > max_task_prune_batch then (Inl (Errorf ''batch out of range''), d)
      else case flt of Some e \<Rightarrow> (Inl e, d)
      | None \<Rightarrow>
          (let ids = prunable locked before batch (pg_rows d)
           in (Inr (int (rows_affected (\<lambda>r. tk_id r \<in> set ids) (pg_rows d))),
               d\<lparr>pg_rows := filter (\<lambda>r. tk_id r \<notin> set ids) (pg_rows d)\<rparr>)))"

end
