(* ===== verification/Task_Store_Inv.thy ===== *)
theory Task_Store_Inv
  imports Task_Store
begin

text \<open>
  The task table as a state machine: any number of processes issue the statements of
  \<open>Task_Store\<close> in any order, each with the claims the table has handed out so far. The invariant
  says what a well-formed table is and that every running task is owned by exactly one claim; the
  progress lemmas follow a claim through the steps. \<open>ts_step\<close> assumes of \<open>uuid.NewString\<close> that it
  returns a token that is new and not empty.

  The transaction of \<open>Claim\<close> is not one step. PostgreSQL runs it at READ COMMITTED, so each of its
  statements sees what others have committed up to then: the two recovery updates and the locked
  select with its update are three kinds of step, and every other statement may come between
  them. An update locks row after row, so a recovery step may catch any of the rows that match
  (\<open>sel\<close>). A row a transaction has written is locked until it ends, so that no other statement can
  write it in between and the write can be placed at its statement; a transaction that is rolled
  back takes no step.
\<close>

subsection \<open>Steps\<close>

record 'p ts =
  ts_drv :: "'p pg_driver"
  ts_grants :: "'p durable_claim list"

abbreviation ts_rows :: "'p ts \<Rightarrow> 'p task list" where
  "ts_rows s \<equiv> pg_rows (ts_drv s)"

definition init_ts :: "'p ts" where
  "init_ts = \<lparr>ts_drv = \<lparr>pg_rows = [], pg_closed = False\<rparr>, ts_grants = []\<rparr>"

definition with_rows :: "'p ts \<Rightarrow> 'p task list \<Rightarrow> 'p ts" where
  "with_rows s rows = s\<lparr>ts_drv := ts_drv s\<lparr>pg_rows := rows\<rparr>\<rparr>"

text \<open>The row the locked select of \<open>Claim\<close> found is taken; the claim is handed out.\<close>

definition task_claim_of :: "string \<Rightarrow> 'p task \<Rightarrow> 'p durable_claim" where
  "task_claim_of token row = \<lparr>dc_id = tk_id row, dc_payload = tk_payload row, dc_token = token,
     dc_fence = tk_fence row + 1, dc_attempts = tk_attempts row + 1\<rparr>"

definition granted_ts :: "'p ts \<Rightarrow> 'p task \<Rightarrow> instant \<Rightarrow> instant \<Rightarrow> string \<Rightarrow> 'p ts" where
  "granted_ts s row now expires token =
     \<lparr>ts_drv = (ts_drv s)\<lparr>pg_rows := update_rows (\<lambda>r. tk_id r = tk_id row \<and> tk_fence r = tk_fence row)
                 (claim_set now expires token) (ts_rows s)\<rparr>,
      ts_grants = task_claim_of token row # ts_grants s\<rparr>"

inductive ts_step :: "('p, 'd) codec \<Rightarrow> ('p durable_claim \<Rightarrow> 'p \<Rightarrow> bool) \<Rightarrow> 'p ts \<Rightarrow> 'p ts \<Rightarrow> bool" for cd G where
  close: "ts_step cd G s (s\<lparr>ts_drv := pg_close (ts_drv s)\<rparr>)"
| insert: "new_row cd uuid created updated at q payload = Inr row \<Longrightarrow>
    create_row None row (ts_rows s) = Inr rows \<Longrightarrow> ts_step cd G s (with_rows s rows)"
| recover_canceled: "ts_step cd G s (with_rows s (update_rows
    (\<lambda>r. sel (tk_id r) \<and> recover_canceled_where q now r) (canceled_set now) (ts_rows s)))"
| recover_exhausted: "ts_step cd G s (with_rows s (update_rows
    (\<lambda>r. sel (tk_id r) \<and> recover_exhausted_where q now r) (exhausted_set now) (ts_rows s)))"
| claim: "find_claimable locked q now (ts_rows s) = Some row \<Longrightarrow>
    token \<noteq> '''' \<Longrightarrow> token \<notin> dc_token ` set (ts_grants s) \<Longrightarrow>
    ts_step cd G s (granted_ts s row now expires token)"
| finish: "c \<in> set (ts_grants s) \<Longrightarrow> status \<in> {Completed, Failed} \<Longrightarrow>
    ts_step cd G s (with_rows s (update_rows (finish_where c) (finish_set now status failure None) (ts_rows s)))"
| retry: "c \<in> set (ts_grants s) \<Longrightarrow> G c payload \<Longrightarrow>
    ts_step cd G s (with_rows s (update_rows (finish_where c) (retry_set now payload at failure) (ts_rows s)))"
| finish_cancel: "c \<in> set (ts_grants s) \<Longrightarrow>
    ts_step cd G s (with_rows s (update_rows (cancel_where c) (canceled_set now) (ts_rows s)))"
| beat: "c \<in> set (ts_grants s) \<Longrightarrow>
    ts_step cd G s (with_rows s (update_rows (owns c) (beat_set expires now) (ts_rows s)))"
| cancel: "ts_step cd G s (with_rows s (update_rows (cancel_request_where i) (cancel_request_set now) (ts_rows s)))"
| retry_failed: "ts_step cd G s (with_rows s (update_rows (retry_failed_where i) (retry_failed_set now) (ts_rows s)))"
| delete: "ts_step cd G s (with_rows s (filter P (ts_rows s)))"


inductive ts_reach :: "('p, 'd) codec \<Rightarrow> ('p durable_claim \<Rightarrow> 'p \<Rightarrow> bool) \<Rightarrow> 'p ts \<Rightarrow> bool" for cd G where
  init: "ts_reach cd G init_ts"
| step: "ts_reach cd G s \<Longrightarrow> ts_step cd G s s' \<Longrightarrow> ts_reach cd G s'"

inductive ts_steps :: "('p, 'd) codec \<Rightarrow> ('p durable_claim \<Rightarrow> 'p \<Rightarrow> bool) \<Rightarrow> 'p ts \<Rightarrow> 'p ts \<Rightarrow> bool" for cd G where
  refl: "ts_steps cd G s s"
| step: "ts_steps cd G s s' \<Longrightarrow> ts_step cd G s' s'' \<Longrightarrow> ts_steps cd G s s''"

lemma ts_reach_steps: "ts_steps cd G s s' \<Longrightarrow> ts_reach cd G s \<Longrightarrow> ts_reach cd G s'"
  by (induction rule: ts_steps.induct) (auto intro: ts_reach.step)

lemma with_rows_simps [simp]:
  "ts_rows (with_rows s rows) = rows" "ts_grants (with_rows s rows) = ts_grants s"
  "pg_closed (ts_drv (with_rows s rows)) = pg_closed (ts_drv s)"
  by (simp_all add: with_rows_def)

subsection \<open>Updates\<close>

lemmas row_updates = finish_set_def canceled_set_def retry_set_def beat_set_def
  cancel_request_set_def exhausted_set_def claim_set_def retry_failed_set_def

lemma identity_kept [simp]:
  "tk_id (finish_set now st fl None r) = tk_id r" "tk_id (canceled_set now r) = tk_id r"
  "tk_id (retry_set now p t fl r) = tk_id r" "tk_id (beat_set x now r) = tk_id r"
  "tk_id (cancel_request_set now r) = tk_id r" "tk_id (exhausted_set now r) = tk_id r"
  "tk_id (claim_set now x tok r) = tk_id r" "tk_id (retry_failed_set now r) = tk_id r"
  by (simp_all add: row_updates Let_def)

lemma key_kept [simp]:
  "tk_key (finish_set now st fl None r) = tk_key r" "tk_key (canceled_set now r) = tk_key r"
  "tk_key (retry_set now p t fl r) = tk_key r" "tk_key (beat_set x now r) = tk_key r"
  "tk_key (cancel_request_set now r) = tk_key r" "tk_key (exhausted_set now r) = tk_key r"
  "tk_key (claim_set now x tok r) = tk_key r" "tk_key (retry_failed_set now r) = tk_key r"
  by (simp_all add: row_updates Let_def)

lemma queue_kept [simp]:
  "tk_queue (finish_set now st fl None r) = tk_queue r" "tk_queue (canceled_set now r) = tk_queue r"
  "tk_queue (retry_set now p t fl r) = tk_queue r" "tk_queue (beat_set x now r) = tk_queue r"
  "tk_queue (cancel_request_set now r) = tk_queue r" "tk_queue (exhausted_set now r) = tk_queue r"
  "tk_queue (claim_set now x tok r) = tk_queue r" "tk_queue (retry_failed_set now r) = tk_queue r"
  by (simp_all add: row_updates Let_def)

subsection \<open>Well-formed rows\<close>

definition row_ok :: "'p task \<Rightarrow> bool" where
  "row_ok r \<longleftrightarrow>
     (tk_status r = Processing \<longleftrightarrow> tk_leaseExpiresAt r \<noteq> None)
     \<and> (tk_status r = Processing \<longleftrightarrow> tk_leaseToken r \<noteq> '''')
     \<and> 0 \<le> tk_attempts r \<and> tk_attempts r \<le> tk_maxAttempts r \<and> 1 \<le> tk_maxAttempts r
     \<and> (tk_status r = Processing \<longrightarrow> 1 \<le> tk_attempts r)
     \<and> (tk_status r = Completed \<longrightarrow> tk_cancelAt r = None)
     \<and> (tk_status r = Canceled \<longrightarrow> tk_cancelAt r \<noteq> None)
     \<and> (tk_status r \<in> {Pending, Failed} \<and> tk_cancelAt r \<noteq> None \<longrightarrow> tk_failure r = ''lease_expired'')"

lemma row_ok_finish:
  "row_ok r \<Longrightarrow> finish_where c r \<Longrightarrow> st \<in> {Completed, Failed} \<Longrightarrow> row_ok (finish_set now st fl None r)"
  by (auto simp: row_ok_def finish_where_def owns_def finish_set_def Let_def)

lemma row_ok_retry: "row_ok r \<Longrightarrow> finish_where c r \<Longrightarrow> row_ok (retry_set now p t fl r)"
  by (auto simp: row_ok_def finish_where_def owns_def retry_set_def)

lemma row_ok_cancel: "row_ok r \<Longrightarrow> tk_cancelAt r \<noteq> None \<Longrightarrow> row_ok (canceled_set now r)"
  by (auto simp: row_ok_def canceled_set_def)

lemma row_ok_beat: "row_ok r \<Longrightarrow> owns c r \<Longrightarrow> row_ok (beat_set x now r)"
  by (auto simp: row_ok_def owns_def beat_set_def)

lemma row_ok_cancel_request:
  "row_ok r \<Longrightarrow> cancel_request_where i r \<Longrightarrow> row_ok (cancel_request_set now r)"
  by (cases "tk_status r") (auto simp: row_ok_def cancel_request_where_def cancel_request_set_def)

lemma row_ok_retry_failed:
  "row_ok r \<Longrightarrow> retry_failed_where i r \<Longrightarrow> row_ok (retry_failed_set now r)"
  by (auto simp: row_ok_def retry_failed_where_def retry_failed_set_def)

lemma row_ok_exhausted: "row_ok r \<Longrightarrow> tk_status r = Processing \<Longrightarrow> row_ok (exhausted_set now r)"
  by (auto simp: row_ok_def exhausted_set_def)

lemma row_ok_claim:
  "row_ok r \<Longrightarrow> claimable q t r \<Longrightarrow> tok \<noteq> '''' \<Longrightarrow> row_ok (claim_set now x tok r)"
  by (auto simp: row_ok_def claimable_def claim_set_def)

lemma row_ok_new: "new_row cd uuid created updated at q payload = Inr row \<Longrightarrow> row_ok row"
  by (auto simp: new_row_def row_ok_def Let_def split: if_splits sum.splits)

subsection \<open>Recovery inside Claim\<close>

definition recovered :: "string \<Rightarrow> instant \<Rightarrow> 'p task list \<Rightarrow> 'p task list" where
  "recovered q now rows = recover_exhausted q now (recover_canceled q now rows)"

text \<open>What the two recovery statements make of one row.\<close>

definition recover_row :: "string \<Rightarrow> instant \<Rightarrow> 'p task \<Rightarrow> 'p task" where
  "recover_row q now r =
     (if tk_queue r = q \<and> expired_lease now r
      then (if tk_cancelAt r \<noteq> None then canceled_set now r
            else if tk_attempts r \<ge> tk_maxAttempts r then exhausted_set now r else r)
      else r)"

lemma recovered_map: "recovered q now rows = map (recover_row q now) rows"
  by (auto simp: recovered_def recover_exhausted_def recover_canceled_def update_rows_def
      recover_row_def canceled_set_def expired_lease_def recover_canceled_where_def
      recover_exhausted_where_def)

lemma recover_row_identity [simp]:
  "tk_id (recover_row q now r) = tk_id r" "tk_key (recover_row q now r) = tk_key r"
  "tk_queue (recover_row q now r) = tk_queue r"
  by (simp_all add: recover_row_def)

lemma recover_row_fence [simp]: "tk_fence (recover_row q now r) = tk_fence r"
  by (simp add: recover_row_def canceled_set_def exhausted_set_def)

lemma row_ok_recover: "row_ok r \<Longrightarrow> row_ok (recover_row q now r)"
  by (auto simp: recover_row_def expired_lease_def intro: row_ok_cancel row_ok_exhausted)

lemma recover_row_processing:
  "tk_status (recover_row q now r) = Processing \<Longrightarrow> recover_row q now r = r"
  by (auto simp: recover_row_def canceled_set_def exhausted_set_def split: if_splits)

lemma first_row_in: "first_row rs = Some r \<Longrightarrow> r \<in> set rs"
  by (induction rs arbitrary: r) (auto split: option.splits if_splits)

lemma first_row_None [simp]: "first_row rs = None \<longleftrightarrow> rs = []"
  by (cases rs) (auto split: option.splits)

lemma row_before_trans: "row_before a b \<Longrightarrow> row_before b c \<Longrightarrow> row_before a c"
  by (auto simp: row_before_def)

lemma row_before_total: "row_before a b \<or> row_before b a"
  by (auto simp: row_before_def)

lemma first_row_least: "first_row rs = Some r \<Longrightarrow> r' \<in> set rs \<Longrightarrow> row_before r r'"
proof (induction rs arbitrary: r)
  case (Cons a rs)
  show ?case
  proof (cases "first_row rs")
    case None
    with Cons.prems show ?thesis using row_before_total by auto
  next
    case (Some b)
    with Cons show ?thesis
      by (auto split: if_splits) (metis row_before_total row_before_trans)+
  qed
qed simp

text \<open>A claim call that grants a claim, and one that does not.\<close>

lemma pg_claim_granted:
  assumes "pg_claim flt locked now token q lease d = (Inr c, d')"
  obtains row where "find_claimable locked q now (recovered q now (pg_rows d)) = Some row"
    and "c = \<lparr>dc_id = tk_id row, dc_payload = tk_payload row, dc_token = token,
              dc_fence = tk_fence row + 1, dc_attempts = tk_attempts row + 1\<rparr>"
    and "d' = d\<lparr>pg_rows := update_rows (\<lambda>r. tk_id r = tk_id row \<and> tk_fence r = tk_fence row)
                 (claim_set now (now + lease) token) (recovered q now (pg_rows d))\<rparr>"
    and "0 < lease" and "\<not> pg_closed d"
  using assms
  by (auto simp: pg_claim_def ensure_open_def Let_def recovered_def split: option.splits if_splits)

lemma pg_claim_refused:
  assumes "pg_claim flt locked now token q lease d = (Inl e, d')"
  shows "d' = d \<or> e = ErrQueueEmpty \<and> d' = d\<lparr>pg_rows := recovered q now (pg_rows d)\<rparr>
      \<and> find_claimable locked q now (recovered q now (pg_rows d)) = None"
  using assms
  by (auto simp: pg_claim_def ensure_open_def Let_def recovered_def split: option.splits if_splits)

subsection \<open>The invariant\<close>

definition held :: "'p ts \<Rightarrow> 'p durable_claim \<Rightarrow> bool" where
  "held s c \<longleftrightarrow> (\<exists>r \<in> set (ts_rows s). owns c r)"

definition rows_ok :: "'p task list \<Rightarrow> bool" where
  "rows_ok rows \<longleftrightarrow> (\<forall>r \<in> set rows. row_ok r) \<and> distinct (map tk_id rows)
     \<and> (\<forall>r \<in> set rows. \<forall>r' \<in> set rows. same_key r r' \<longrightarrow> r = r')"

definition owned :: "'p durable_claim list \<Rightarrow> 'p task list \<Rightarrow> bool" where
  "owned gs rows \<longleftrightarrow>
     (\<forall>r \<in> set rows. tk_status r = Processing \<longrightarrow> (\<exists>c \<in> set gs. owns c r))"

definition ts_inv :: "'p ts \<Rightarrow> bool" where
  "ts_inv s \<longleftrightarrow> rows_ok (ts_rows s) \<and> owned (ts_grants s) (ts_rows s)
     \<and> distinct (map dc_token (ts_grants s))"

text \<open>A row change that keeps the row's identity and, where it leaves the row running, its owner.\<close>

definition tame :: "('p task \<Rightarrow> 'p task) \<Rightarrow> 'p task list \<Rightarrow> bool" where
  "tame g rows \<longleftrightarrow>
     (\<forall>r \<in> set rows. row_ok (g r) \<and> tk_id (g r) = tk_id r \<and> tk_key (g r) = tk_key r
        \<and> tk_queue (g r) = tk_queue r)"

definition keeps_owner :: "('p task \<Rightarrow> 'p task) \<Rightarrow> 'p task \<Rightarrow> bool" where
  "keeps_owner g r \<longleftrightarrow> (tk_status (g r) = Processing \<longrightarrow>
     tk_status r = Processing \<and> tk_leaseToken (g r) = tk_leaseToken r \<and> tk_fence (g r) = tk_fence r)"

lemma rows_ok_map: "rows_ok rows \<Longrightarrow> tame g rows \<Longrightarrow> rows_ok (map g rows)"
proof -
  assume ok: "rows_ok rows" and t: "tame g rows"
  then have "map tk_id (map g rows) = map tk_id rows" by (simp add: tame_def)
  moreover have "r = r'" if "r \<in> set rows" "r' \<in> set rows" "same_key (g r) (g r')" for r r'
    using ok t that unfolding rows_ok_def tame_def same_key_def by metis
  moreover have "distinct (map tk_id rows)" using ok by (simp add: rows_ok_def)
  ultimately have "distinct (map tk_id (map g rows))" by (simp only:)
  with \<open>\<And>r r'. r \<in> set rows \<Longrightarrow> r' \<in> set rows \<Longrightarrow> same_key (g r) (g r') \<Longrightarrow> r = r'\<close>
  show "rows_ok (map g rows)"
    using t unfolding rows_ok_def tame_def by simp blast
qed

lemma owns_back:
  assumes "keeps_owner g r" and "tk_id (g r) = tk_id r" and "owns c (g r)"
  shows "owns c r"
  using assms by (auto simp: keeps_owner_def owns_def)

lemma owned_map:
  assumes "owned gs rows" and "tame g rows" and "\<forall>r \<in> set rows. keeps_owner g r"
  shows "owned gs (map g rows)"
  unfolding owned_def
proof (intro ballI impI)
  fix r' assume "r' \<in> set (map g rows)" and run: "tk_status r' = Processing"
  then obtain r where r: "r \<in> set rows" "r' = g r" by auto
  with assms(3) run have "tk_status r = Processing" "tk_leaseToken (g r) = tk_leaseToken r"
      "tk_fence (g r) = tk_fence r"
    by (auto simp: keeps_owner_def)
  moreover have "tk_id (g r) = tk_id r" using assms(2) r by (simp add: tame_def)
  ultimately show "\<exists>c \<in> set gs. owns c r'"
    using assms(1) r run by (auto simp: owned_def owns_def)
qed

lemma update_rows_as_map: "update_rows P f rows = map (\<lambda>r. if P r then f r else r) rows"
  by (simp add: update_rows_def)

lemma tame_update:
  assumes "rows_ok rows" and "\<And>r. r \<in> set rows \<Longrightarrow> P r \<Longrightarrow> row_ok r \<Longrightarrow> row_ok (f r)"
    and "\<And>r. tk_id (f r) = tk_id r" "\<And>r. tk_key (f r) = tk_key r" "\<And>r. tk_queue (f r) = tk_queue r"
  shows "tame (\<lambda>r. if P r then f r else r) rows"
  using assms by (auto simp: tame_def rows_ok_def)

lemma ts_inv_update:
  assumes "ts_inv s" and "\<And>r. r \<in> set (ts_rows s) \<Longrightarrow> P r \<Longrightarrow> row_ok r \<Longrightarrow> row_ok (f r)"
    and "\<And>r. tk_id (f r) = tk_id r" "\<And>r. tk_key (f r) = tk_key r" "\<And>r. tk_queue (f r) = tk_queue r"
    and "\<And>r. P r \<Longrightarrow> keeps_owner f r"
  shows "ts_inv (with_rows s (update_rows P f (ts_rows s)))"
proof -
  from assms(1) have ok: "rows_ok (ts_rows s)" and own: "owned (ts_grants s) (ts_rows s)"
    and d: "distinct (map dc_token (ts_grants s))" by (auto simp: ts_inv_def)
  have t: "tame (\<lambda>r. if P r then f r else r) (ts_rows s)"
    by (rule tame_update [OF ok assms(2-5)])
  have "\<forall>r \<in> set (ts_rows s). keeps_owner (\<lambda>r. if P r then f r else r) r"
    using assms(6) by (auto simp: keeps_owner_def)
  with rows_ok_map [OF ok t] owned_map [OF own t] d show ?thesis
    by (simp add: ts_inv_def update_rows_as_map)
qed

lemma keeps_owner_updates [simp]:
  "st \<noteq> Processing \<Longrightarrow> keeps_owner (finish_set now st fl None) r"
  "keeps_owner (retry_set now p t fl) r" "keeps_owner (canceled_set now) r"
  "keeps_owner (beat_set x now) r \<longleftrightarrow> True" "keeps_owner (cancel_request_set now) r"
  "keeps_owner (exhausted_set now) r" "keeps_owner (retry_failed_set now) r"
  "keeps_owner (recover_row q now) r"
  by (auto simp: keeps_owner_def row_updates Let_def recover_row_def split: if_splits)

lemma rows_ok_recovered:
  assumes "rows_ok rows"
  shows "rows_ok (recovered q now rows)"
  unfolding recovered_map
  by (rule rows_ok_map [OF assms]) (use assms in \<open>auto simp: tame_def rows_ok_def row_ok_recover\<close>)

lemma owned_recovered: "rows_ok rows \<Longrightarrow> owned gs rows \<Longrightarrow> owned gs (recovered q now rows)"
  unfolding recovered_map
  by (rule owned_map) (auto simp: tame_def rows_ok_def row_ok_recover)

lemma ts_inv_recovered: "ts_inv s \<Longrightarrow> ts_inv (with_rows s (recovered q now (ts_rows s)))"
  by (simp add: ts_inv_def rows_ok_recovered owned_recovered)

lemma find_claimable_Some:
  assumes "find_claimable locked q now rows = Some row"
  shows "row \<in> set rows" and "claimable q now row" and "\<not> locked (tk_id row)"
  using first_row_in [OF assms [unfolded find_claimable_def]] by auto

lemma unique_target:
  assumes "rows_ok rows" and "row \<in> set rows" and "r \<in> set rows"
  shows "tk_id r = tk_id row \<longleftrightarrow> r = row"
  using assms by (auto simp: rows_ok_def distinct_map inj_on_def)

lemma claim_update:
  assumes "rows_ok rows" and "row \<in> set rows"
  shows "update_rows (\<lambda>r. tk_id r = tk_id row \<and> tk_fence r = tk_fence row) f rows =
         map (\<lambda>r. if r = row then f r else r) rows"
  unfolding update_rows_def using unique_target [OF assms] by (intro map_cong) auto

lemma granted_rows:
  assumes "rows_ok (ts_rows s)" and "find_claimable locked q now (ts_rows s) = Some row"
  shows "ts_rows (granted_ts s row t expires token) =
    map (\<lambda>r. if r = row then claim_set t expires token r else r) (ts_rows s)"
  by (simp add: granted_ts_def claim_update [OF assms(1) find_claimable_Some(1) [OF assms(2)]])

lemma granted_grants [simp]:
  "ts_grants (granted_ts s row now expires token) = task_claim_of token row # ts_grants s"
  by (simp add: granted_ts_def)

lemma ts_inv_claim:
  assumes inv: "ts_inv s" and row: "find_claimable locked q now (ts_rows s) = Some row"
    and tok: "token \<noteq> ''''" "token \<notin> dc_token ` set (ts_grants s)"
  shows "ts_inv (granted_ts s row t expires token)"
proof -
  let ?g = "\<lambda>r. if r = row then claim_set t expires token r else r"
  from inv have ok: "rows_ok (ts_rows s)" and own: "owned (ts_grants s) (ts_rows s)"
    and dt: "distinct (map dc_token (ts_grants s))"
    by (auto simp: ts_inv_def)
  note f = find_claimable_Some [OF row] and new = granted_rows [OF ok row, of t expires token]
  have "tame ?g (ts_rows s)"
    using ok f(2) tok(1) row_ok_claim by (fastforce simp: tame_def rows_ok_def)
  then have "rows_ok (ts_rows (granted_ts s row t expires token))"
    unfolding new by (rule rows_ok_map [OF ok])
  moreover have "owned (task_claim_of token row # ts_grants s) (ts_rows (granted_ts s row t expires token))"
    using own by (auto simp: owned_def new task_claim_of_def owns_def claim_set_def)
  ultimately show ?thesis using dt tok(2) by (simp add: ts_inv_def task_claim_of_def)
qed

lemma ts_inv_step: "ts_step cd G s s' \<Longrightarrow> ts_inv s \<Longrightarrow> ts_inv s'"
proof (induction rule: ts_step.induct)
  case (close s)
  then show ?case by (simp add: ts_inv_def pg_close_def)
next
  case (insert uuid created updated at q payload row s rows)
  from insert.hyps(2) have rows: "rows = ts_rows s @ [row]"
    and fresh: "\<forall>r \<in> set (ts_rows s). tk_id r \<noteq> tk_id row \<and> \<not> same_key row r"
    by (auto simp: create_row_def split: if_splits)
  have "tk_status row = Pending"
    using insert.hyps(1) by (auto simp: new_row_def Let_def split: if_splits sum.splits)
  moreover have "\<forall>r \<in> set (ts_rows s). \<not> same_key r row"
    using fresh unfolding same_key_def by metis
  moreover have "tk_id row \<notin> tk_id ` set (ts_rows s)" using fresh by auto
  ultimately have "rows_ok rows"
    using insert.prems fresh row_ok_new [OF insert.hyps(1)]
    by (auto simp: ts_inv_def rows rows_ok_def)
  moreover have "owned (ts_grants s) rows"
    using insert.prems \<open>tk_status row = Pending\<close> by (simp add: ts_inv_def rows owned_def)
  ultimately show ?case using insert.prems by (simp add: ts_inv_def)
next
  case (recover_canceled s sel q now)
  then show ?case
    by (intro ts_inv_update) (auto simp: recover_canceled_where_def intro: row_ok_cancel)
next
  case (recover_exhausted s sel q now)
  then show ?case
    by (intro ts_inv_update) (auto simp: recover_exhausted_where_def expired_lease_def intro: row_ok_exhausted)
next
  case (claim locked q now s row token expires)
  then show ?case by (intro ts_inv_claim)
next
  case (finish c s status now failure)
  then show ?case by (intro ts_inv_update) (auto intro: row_ok_finish)
next
  case (retry c s now payload at failure)
  then show ?case by (intro ts_inv_update) (auto intro: row_ok_retry)
next
  case (finish_cancel c s now)
  then show ?case by (intro ts_inv_update) (auto simp: cancel_where_def intro: row_ok_cancel)
next
  case (beat c s expires now)
  then show ?case by (intro ts_inv_update) (auto intro: row_ok_beat)
next
  case (cancel s i now)
  then show ?case by (intro ts_inv_update) (auto intro: row_ok_cancel_request)
next
  case (retry_failed s i now)
  then show ?case by (intro ts_inv_update) (auto intro: row_ok_retry_failed)
next
  case (delete s P)
  then show ?case by (auto simp: ts_inv_def rows_ok_def owned_def intro: distinct_map_filter)
qed

lemma ts_reach_inv: "ts_reach cd G s \<Longrightarrow> ts_inv s"
proof (induction rule: ts_reach.induct)
  case init
  then show ?case by (simp add: init_ts_def ts_inv_def rows_ok_def owned_def)
next
  case (step s s')
  then show ?case by (blast intro: ts_inv_step)
qed

subsection \<open>A lost claim stays lost\<close>

lemma held_back_map:
  assumes "\<exists>r' \<in> set (map g rows). owns c r'" and "\<forall>r \<in> set rows. keeps_owner g r"
    and "\<forall>r \<in> set rows. tk_id (g r) = tk_id r"
  shows "\<exists>r \<in> set rows. owns c r"
  using assms owns_back [of g _ c] by fastforce

lemma held_back_update:
  assumes "held (with_rows s (update_rows P f (ts_rows s))) c"
    and "\<And>r. P r \<Longrightarrow> keeps_owner f r" and "\<And>r. tk_id (f r) = tk_id r"
  shows "held s c"
  unfolding held_def
  by (rule held_back_map [where g = "\<lambda>r. if P r then f r else r"])
    (use assms in \<open>auto simp: held_def update_rows_as_map keeps_owner_def\<close>)

lemma held_back_recovered:
  "\<exists>r \<in> set (recovered q now rows). owns c r \<Longrightarrow> \<exists>r \<in> set rows. owns c r"
  by (rule held_back_map [where g = "recover_row q now"]) (auto simp: recovered_map)

lemma held_back_step:
  assumes "ts_step cd G s s'" and "ts_inv s" and "c \<in> set (ts_grants s)" and "held s' c"
  shows "held s c"
  using assms
proof (induction rule: ts_step.induct)
  case (close s)
  then show ?case by (simp add: held_def pg_close_def)
next
  case (insert uuid created updated at q payload row s rows)
  have "rows = ts_rows s @ [row]"
    using insert.hyps(2) by (auto simp: create_row_def split: if_splits)
  moreover have "tk_status row = Pending"
    using insert.hyps(1) by (auto simp: new_row_def Let_def split: if_splits sum.splits)
  ultimately show ?case using insert.prems by (auto simp: held_def owns_def)
next
  case (recover_canceled s sel q now)
  from recover_canceled.prems(3) show ?case by (rule held_back_update) auto
next
  case (recover_exhausted s sel q now)
  from recover_exhausted.prems(3) show ?case by (rule held_back_update) auto
next
  case (claim locked q now s row token expires)
  from claim.prems(3) obtain r where r: "r \<in> set (ts_rows (granted_ts s row now expires token))" "owns c r"
    by (auto simp: held_def)
  have "dc_token c \<noteq> token" using claim.hyps(3) claim.prems(2) by auto
  with r have "r \<in> set (ts_rows s)"
    by (auto simp: granted_ts_def update_rows_set owns_def claim_set_def split: if_splits)
  with r(2) show ?case by (auto simp: held_def)
next
  case (finish c' s status now failure)
  from finish.prems(3) show ?case
    by (rule held_back_update) (use finish.hyps in auto)
next
  case (retry c' s now payload at failure)
  from retry.prems(3) show ?case by (rule held_back_update) auto
next
  case (finish_cancel c' s now)
  from finish_cancel.prems(3) show ?case by (rule held_back_update) auto
next
  case (beat c' s expires now)
  from beat.prems(3) show ?case by (rule held_back_update) auto
next
  case (cancel s i now)
  from cancel.prems(3) show ?case by (rule held_back_update) auto
next
  case (retry_failed s i now)
  from retry_failed.prems(3) show ?case by (rule held_back_update) auto
next
  case (delete s P)
  then show ?case by (auto simp: held_def)
qed

lemma grants_kept: "ts_step cd G s s' \<Longrightarrow> set (ts_grants s) \<subseteq> set (ts_grants s')"
  by (induction rule: ts_step.induct) auto

lemma lost_for_ever:
  assumes "ts_steps cd G s s'" and "ts_reach cd G s" and "c \<in> set (ts_grants s)" and "\<not> held s c"
  shows "\<not> held s' c \<and> c \<in> set (ts_grants s')"
  using assms
proof (induction rule: ts_steps.induct)
  case (step s s' s'')
  from step.IH step.prems have "\<not> held s' c" "c \<in> set (ts_grants s')" by auto
  moreover have "ts_inv s'"
    using ts_reach_steps [OF step.hyps(1) step.prems(1)] by (rule ts_reach_inv)
  ultimately show ?case
    using held_back_step [OF step.hyps(2)] grants_kept [OF step.hyps(2)] by blast
qed simp

subsection \<open>A call of Claim is a run of the statements\<close>

lemma ts_step1: "ts_step cd G s s' \<Longrightarrow> ts_steps cd G s s'"
  by (blast intro: ts_steps.intros)

lemma ts_steps_trans: "ts_steps cd G s' s'' \<Longrightarrow> ts_steps cd G s s' \<Longrightarrow> ts_steps cd G s s''"
  by (induction rule: ts_steps.induct) (auto intro: ts_steps.step)

lemma with_rows_twice [simp]: "with_rows (with_rows s rows) rows' = with_rows s rows'"
  by (simp add: with_rows_def)

lemma recovered_steps: "ts_steps cd G s (with_rows s (recovered q now (ts_rows s)))"
proof -
  let ?s1 = "with_rows s (recover_canceled q now (ts_rows s))"
  have 1: "ts_steps cd G s ?s1"
    using ts_step1 [OF ts_step.recover_canceled [of cd G s "\<lambda>_. True" q now]]
    by (simp add: recover_canceled_def)
  have "ts_steps cd G ?s1 (with_rows ?s1 (recover_exhausted q now (ts_rows ?s1)))"
    using ts_step1 [OF ts_step.recover_exhausted [of cd G ?s1 "\<lambda>_. True" q now]]
    unfolding recover_exhausted_def by simp
  from ts_steps_trans [OF this 1] show ?thesis by (simp add: recovered_def)
qed

lemma no_claim_steps:
  assumes "pg_claim flt locked now token q lease (ts_drv s) = (Inl e, d)"
  shows "ts_steps cd G s (s\<lparr>ts_drv := d\<rparr>)"
  using pg_claim_refused [OF assms] recovered_steps [of cd G s q now]
  by (auto simp: with_rows_def intro: ts_steps.refl)

lemma claim_steps:
  assumes "pg_claim flt locked now token q lease (ts_drv s) = (Inr c, d)"
    and "token \<noteq> ''''" and "token \<notin> dc_token ` set (ts_grants s)"
  shows "ts_steps cd G s \<lparr>ts_drv = d, ts_grants = c # ts_grants s\<rparr>"
proof -
  let ?s1 = "with_rows s (recovered q now (ts_rows s))"
  from assms(1) obtain row where row: "find_claimable locked q now (ts_rows ?s1) = Some row"
    and c: "c = task_claim_of token row"
    and d: "d = (ts_drv s)\<lparr>pg_rows := update_rows (\<lambda>r. tk_id r = tk_id row \<and> tk_fence r = tk_fence row)
               (claim_set now (now + lease) token) (ts_rows ?s1)\<rparr>"
    by (rule pg_claim_granted) (simp add: task_claim_of_def)
  have "granted_ts ?s1 row now (now + lease) token = \<lparr>ts_drv = d, ts_grants = c # ts_grants s\<rparr>"
    by (simp add: granted_ts_def c d with_rows_def)
  moreover have "ts_step cd G ?s1 (granted_ts ?s1 row now (now + lease) token)"
    using row assms(2,3) by (intro ts_step.claim) simp_all
  ultimately show ?thesis using ts_steps.step [OF recovered_steps] by metis
qed

end
