(* ===== verification/Task_Store_Props.thy ===== *)
theory Task_Store_Props
  imports Task_Store_Inv
begin

text \<open>
  The properties of the durable driver: ownership and fencing of claims, the choice \<open>Claim\<close>
  makes, recovery after a crash, idempotent enqueueing, cancellation, and the operator commands.
\<close>

subsection \<open>Acknowledgements by cases\<close>

lemma affected_single:
  assumes "rows_ok rows" and "\<And>r. P r \<Longrightarrow> tk_id r = i"
  shows "rows_affected P rows = (if \<exists>r \<in> set rows. P r then 1 else 0)"
proof (rule rows_affected_key)
  show "distinct (map tk_id rows)" using assms(1) by (simp add: rows_ok_def)
qed (rule assms(2))

lemma affected_owns:
  assumes "rows_ok rows"
  shows "rows_affected (owns c) rows = (if \<exists>r \<in> set rows. owns c r then 1 else 0)"
    and "rows_affected (finish_where c) rows = (if \<exists>r \<in> set rows. finish_where c r then 1 else 0)"
    and "rows_affected (cancel_where c) rows = (if \<exists>r \<in> set rows. cancel_where c r then 1 else 0)"
  by (rule affected_single [OF assms, where i = "dc_id c"];
      simp add: owns_def finish_where_def cancel_where_def)+

text \<open>What a holder without the row meets: every acknowledgement fails and leaves the table.\<close>

definition fenced_off :: "'p durable_claim \<Rightarrow> 'p pg_driver \<Rightarrow> bool" where
  "fenced_off c d \<longleftrightarrow>
     (\<forall>now. pg_complete no_faults now (Some c) d = (Inl ErrLeaseLost, d))
     \<and> (\<forall>now e. pg_fail no_faults now (Some c) e d = (Inl ErrLeaseLost, d))
     \<and> (\<forall>now now2 p t e. pg_retry no_faults now now2 (Some c) p t e d = (Inl ErrLeaseLost, d))
     \<and> (\<forall>now now2 lease. pg_heartbeat no_faults now now2 (Some c) lease d = (Inl ErrLeaseLost, d))"

lemma find_none: "(\<And>r. r \<in> set rows \<Longrightarrow> \<not> P r) \<Longrightarrow> find P rows = None"
  by (auto simp: find_None_iff)

lemma unheld_none:
  assumes "\<not> (\<exists>r \<in> set rows. owns c r)"
  shows "rows_affected (owns c) rows = 0" "rows_affected (finish_where c) rows = 0"
    "rows_affected (cancel_where c) rows = 0"
  using assms by (auto simp: rows_affected_def finish_where_def cancel_where_def filter_empty_conv)

lemma unheld_fenced_off:
  assumes "\<not> held s c"
  shows "fenced_off c (ts_drv s)"
proof -
  have none: "\<not> (\<exists>r \<in> set (ts_rows s). owns c r)" using assms by (simp add: held_def)
  note z = unheld_none [OF none]
  have "find (owns c) (ts_rows s) = None" using none by (intro find_none) auto
  then show ?thesis
    using z update_rows_none [OF z(2)] update_rows_none [OF z(3)]
    by (simp add: fenced_off_def pg_complete_def pg_fail_def pg_retry_def pg_heartbeat_def
        pg_finish_def pg_finish_cancellation_def no_faults_def Let_def)
qed

text \<open>The methods as runs of the step relation.\<close>

definition with_drv :: "'p ts \<Rightarrow> 'p pg_driver \<Rightarrow> 'p ts" where
  "with_drv s d = s\<lparr>ts_drv := d\<rparr>"

lemma with_drv_simps [simp]:
  "ts_drv (with_drv s d) = d" "ts_grants (with_drv s d) = ts_grants s" "with_drv s (ts_drv s) = s"
  "with_drv s ((ts_drv s)\<lparr>pg_rows := rows\<rparr>) = with_rows s rows"
  "with_drv s (ts_drv (with_rows s rows)) = with_rows s rows"
  by (simp_all add: with_drv_def with_rows_def)

lemma finish_cancellation_steps:
  assumes "c \<in> set (ts_grants s)"
  shows "ts_steps cd G s (with_drv s (snd (pg_finish_cancellation flt c now (ts_drv s))))"
  using ts_step1 [OF ts_step.finish_cancel [OF assms]]
  by (auto simp: pg_finish_cancellation_def Let_def ts_steps.refl split: option.split)

lemma with_drv_rows: "with_drv (with_rows s rows) d = with_drv s d"
  by (simp add: with_drv_def with_rows_def)

lemma drv_with_rows: "ts_drv (with_rows s rows) = (ts_drv s)\<lparr>pg_rows := rows\<rparr>"
  by (simp add: with_rows_def)

lemma finish_steps:
  assumes "c \<in> set (ts_grants s)" and "status \<in> {Completed, Failed}"
  shows "ts_steps cd G s (with_drv s (snd (pg_finish flt now (Some c) status failure None (ts_drv s))))"
proof -
  let ?s1 = "with_rows s (update_rows (finish_where c) (finish_set now status failure None) (ts_rows s))"
  have 1: "ts_steps cd G s ?s1" by (rule ts_step1 [OF ts_step.finish [OF assms]])
  have "ts_steps cd G ?s1 (with_drv s (snd (pg_finish_cancellation (flt 1) c now (ts_drv ?s1))))"
    using finish_cancellation_steps [of c ?s1 cd G "flt 1" now] assms(1) by (simp add: with_drv_rows)
  from ts_steps_trans [OF this 1] 1 show ?thesis
    by (auto simp: pg_finish_def Let_def drv_with_rows ts_steps.refl split: option.split)
qed

lemma retry_steps:
  assumes "c \<in> set (ts_grants s)" and "G c p"
  shows "ts_steps cd G s (with_drv s (snd (pg_retry flt now now2 (Some c) p t cause (ts_drv s))))"
proof -
  let ?s1 = "with_rows s (update_rows (finish_where c) (retry_set now p t (failure_code cause)) (ts_rows s))"
  have 1: "ts_steps cd G s ?s1" by (rule ts_step1 [OF ts_step.retry [of c s G p, OF assms]])
  have "ts_steps cd G ?s1 (with_drv s (snd (pg_finish_cancellation (flt 1) c now2 (ts_drv ?s1))))"
    using finish_cancellation_steps [of c ?s1 cd G "flt 1" now2] assms(1) by (simp add: with_drv_rows)
  from ts_steps_trans [OF this 1] 1 show ?thesis
    by (auto simp: pg_retry_def Let_def drv_with_rows ts_steps.refl split: option.split)
qed

subsection \<open>Giving a claim up\<close>

text \<open>A claim ends when its holder's acknowledgement is accepted, or when the task is claimed again, by
  an undisturbed call of \<open>Claim\<close> or by the last statement of one that others interrupted.\<close>

inductive gives_up :: "('p durable_claim \<Rightarrow> 'p \<Rightarrow> bool) \<Rightarrow> 'p ts \<Rightarrow> 'p durable_claim \<Rightarrow> 'p ts \<Rightarrow> bool" for G where
  complete: "pg_complete flt now (Some c) (ts_drv s) = (Inr (), d) \<Longrightarrow> gives_up G s c (with_drv s d)"
| fail: "pg_fail flt now (Some c) cause (ts_drv s) = (Inr (), d) \<Longrightarrow> gives_up G s c (with_drv s d)"
| retry: "pg_retry flt now now2 (Some c) p t cause (ts_drv s) = (Inr (), d) \<Longrightarrow> G c p \<Longrightarrow>
    gives_up G s c (with_drv s d)"
| takeover: "pg_claim flt locked now token q lease (ts_drv s) = (Inr c', d) \<Longrightarrow> dc_id c' = dc_id c \<Longrightarrow>
    token \<noteq> '''' \<Longrightarrow> token \<notin> dc_token ` set (ts_grants s) \<Longrightarrow>
    gives_up G s c \<lparr>ts_drv = d, ts_grants = c' # ts_grants s\<rparr>"
| reclaimed: "find_claimable locked q now (ts_rows s) = Some row \<Longrightarrow> tk_id row = dc_id c \<Longrightarrow>
    token \<noteq> '''' \<Longrightarrow> token \<notin> dc_token ` set (ts_grants s) \<Longrightarrow>
    gives_up G s c (granted_ts s row now expires token)"

lemma no_owner_after_update:
  assumes "\<And>r. r \<in> set rows \<Longrightarrow> owns c r \<Longrightarrow> P r" and "\<And>r. tk_status (f r) \<noteq> Processing"
  shows "\<not> (\<exists>r \<in> set (update_rows P f rows). owns c r)"
proof
  assume "\<exists>r \<in> set (update_rows P f rows). owns c r"
  then obtain r where r: "r \<in> set rows" "owns c (if P r then f r else r)"
    by (auto simp: update_rows_as_map)
  with assms show False by (cases "P r") (auto simp: owns_def)
qed

text \<open>An acknowledgement that reports success has removed the owner.\<close>

lemma owner_unique:
  assumes "rows_ok rows" "r \<in> set rows" "r' \<in> set rows" "owns c r" "owns c r'"
  shows "r = r'"
  using unique_target [OF assms(1,3), of r] assms(2,4,5) by (simp add: owns_def)

lemma accepted_loses_aux:
  assumes ok: "rows_ok rows" and f: "\<And>r. tk_status (f r) \<noteq> Processing"
    and res: "(if rows_affected (finish_where c) rows \<noteq> 1
       then pg_finish_cancellation flt c now (d\<lparr>pg_rows := update_rows (finish_where c) f rows\<rparr>)
       else (Inr (), d\<lparr>pg_rows := update_rows (finish_where c) f rows\<rparr>)) = (Inr (), d')"
  shows "\<not> (\<exists>r \<in> set (pg_rows d'). owns c r)"
proof (cases "\<exists>r \<in> set rows. finish_where c r")
  case True
  then obtain r where r: "r \<in> set rows" "finish_where c r" by blast
  then have all: "owns c r' \<Longrightarrow> finish_where c r'" if "r' \<in> set rows" for r'
    using owner_unique [OF ok _ that] by (auto simp: finish_where_def)
  have "d' = d\<lparr>pg_rows := update_rows (finish_where c) f rows\<rparr>"
    using res True by (simp add: affected_owns [OF ok])
  with no_owner_after_update [of rows c "finish_where c" f] all f show ?thesis by simp
next
  case False
  then have none: "rows_affected (finish_where c) rows = 0" by (simp add: affected_owns [OF ok])
  then have "d' = d\<lparr>pg_rows := update_rows (cancel_where c) (canceled_set now) rows\<rparr>"
    using res by (auto simp: update_rows_none pg_finish_cancellation_def Let_def
        split: option.splits if_splits)
  moreover have "owns c r \<Longrightarrow> cancel_where c r" if "r \<in> set rows" for r
    using that False by (auto simp: finish_where_def cancel_where_def)
  ultimately show ?thesis
    using no_owner_after_update [of rows c "cancel_where c" "canceled_set now"]
    by (simp add: canceled_set_def)
qed

lemma gives_up_loses:
  assumes "gives_up G s c s1" and "ts_inv s" and "c \<in> set (ts_grants s)"
  shows "\<not> held s1 c"
  using assms
proof (induction rule: gives_up.induct)
  case (complete flt now c s d)
  then have ok: "rows_ok (ts_rows s)" by (simp add: ts_inv_def)
  show ?case
    using complete.hyps accepted_loses_aux [OF ok, of "finish_set now Completed '''' None" c "flt 1" now "ts_drv s" d]
    by (auto simp: held_def pg_complete_def pg_finish_def Let_def finish_set_def split: option.splits)
next
  case (fail flt now c cause s d)
  then have ok: "rows_ok (ts_rows s)" by (simp add: ts_inv_def)
  show ?case
    using fail.hyps accepted_loses_aux [OF ok, of "finish_set now Failed (failure_code cause) None" c "flt 1" now "ts_drv s" d]
    by (auto simp: held_def pg_fail_def pg_finish_def Let_def finish_set_def split: option.splits)
next
  case (retry flt now now2 c p t cause s d)
  then have ok: "rows_ok (ts_rows s)" by (simp add: ts_inv_def)
  show ?case
    using retry.hyps accepted_loses_aux [OF ok, of "retry_set now p t (failure_code cause)" c "flt 1" now2 "ts_drv s" d]
    by (auto simp: held_def pg_retry_def Let_def retry_set_def split: option.splits)
next
  case (takeover flt locked now token q lease s c' d c)
  have ok: "rows_ok (recovered q now (ts_rows s))"
    using takeover.prems(1) by (auto simp: ts_inv_def rows_ok_recovered)
  from takeover.hyps(1) obtain row where
      row: "find_claimable locked q now (recovered q now (ts_rows s)) = Some row"
    and c': "dc_id c' = tk_id row"
    and d: "d = (ts_drv s)\<lparr>pg_rows := update_rows (\<lambda>r. tk_id r = tk_id row \<and> tk_fence r = tk_fence row)
                 (claim_set now (now + lease) token) (recovered q now (ts_rows s))\<rparr>"
    by (rule pg_claim_granted) simp
  note f = find_claimable_Some [OF row]
  have tok: "dc_token c \<noteq> token" using takeover.hyps(4) takeover.prems(2) by auto
  have "\<not> owns c r" if "r \<in> set (pg_rows d)" for r
  proof (cases "tk_id r = tk_id row")
    case True
    with that show ?thesis
      using unique_target [OF ok f(1)] tok
      by (auto simp: d claim_update [OF ok f(1)] owns_def claim_set_def split: if_splits)
  next
    case False
    with c' takeover.hyps(2) show ?thesis by (auto simp: owns_def)
  qed
  then show ?case by (auto simp: held_def)
next
  case (reclaimed locked q now s row c token expires)
  have ok: "rows_ok (ts_rows s)" using reclaimed.prems(1) by (simp add: ts_inv_def)
  note f = find_claimable_Some [OF reclaimed.hyps(1)]
  have tok: "dc_token c \<noteq> token" using reclaimed.hyps(4) reclaimed.prems(2) by auto
  have "\<not> owns c (if r = row then claim_set now expires token r else r)" if "r \<in> set (ts_rows s)" for r
    using that unique_target [OF ok f(1) that] tok reclaimed.hyps(2)
    by (auto simp: owns_def claim_set_def)
  then show ?case unfolding held_def granted_rows [OF ok reclaimed.hyps(1)] set_map by blast
qed

lemma gives_up_steps:
  assumes "gives_up G s c s1" and "c \<in> set (ts_grants s)"
  shows "ts_steps cd G s s1 \<and> c \<in> set (ts_grants s1)"
  using assms
proof (induction rule: gives_up.induct)
  case (complete flt now c s d)
  with finish_steps [of c s Completed cd G flt now "''''"] show ?case by (simp add: pg_complete_def)
next
  case (fail flt now c cause s d)
  with finish_steps [of c s Failed cd G flt now "failure_code cause"] show ?case by (simp add: pg_fail_def)
next
  case (retry flt now now2 c p t cause s d)
  with retry_steps [of c s G p cd flt now now2 t cause] show ?case by simp
next
  case (takeover flt locked now token q lease s c' d c)
  with claim_steps [OF takeover.hyps(1,3,4)] show ?case by simp
next
  case (reclaimed locked q now s row c token expires)
  with ts_step1 [OF ts_step.claim [OF reclaimed.hyps(1,3,4)]] show ?case by simp
qed

subsection \<open>A small run\<close>

definition sample_codec :: "(unit job_payload, unit) codec" where
  "sample_codec = \<lparr>cd_decode = Inr, cd_encode = Inr, cd_stable = (\<lambda>t _ _. Inr t), cd_sha256_hex = id\<rparr>"

definition sample_payload :: "unit job_payload" where
  "sample_payload = \<lparr>jp_id = ''j1'', jp_type = ''T'', jp_data = (), jp_attempts = 0, jp_maxRetries = 3,
     jp_idempotencyKey = ''k'', jp_traceParent = '''', jp_traceState = '''', jp_createdAt = 0\<rparr>"

definition sample_task :: "unit job_payload task" where
  "sample_task = \<lparr>tk_id = ''j1'', tk_queue = ''q'', tk_key = Some ''k'', tk_payload = sample_payload,
     tk_hash = ''T'', tk_status = Pending, tk_attempts = 0, tk_maxAttempts = 3, tk_availableAt = 1,
     tk_leaseToken = '''', tk_leaseExpiresAt = None, tk_fence = 0, tk_cancelAt = None,
     tk_completedAt = None, tk_failedAt = None, tk_failure = '''', tk_createdAt = 1, tk_updatedAt = 1\<rparr>"

definition sample_claim :: "unit job_payload durable_claim" where
  "sample_claim = \<lparr>dc_id = ''j1'', dc_payload = sample_payload, dc_token = ''t1'', dc_fence = 1,
     dc_attempts = 1\<rparr>"

definition queued_ts :: "unit job_payload ts" where
  "queued_ts = with_rows init_ts [sample_task]"

definition running_ts :: "unit job_payload ts" where
  "running_ts = \<lparr>ts_drv = \<lparr>pg_rows = [claim_set 2 12 ''t1'' sample_task], pg_closed = False\<rparr>,
                 ts_grants = [sample_claim]\<rparr>"

lemma sample_new_row: "new_row sample_codec ''u'' 1 1 1 ''q'' sample_payload = Inr sample_task"
  by code_simp

lemma queued_reach: "ts_reach sample_codec G queued_ts"
proof -
  have "create_row None sample_task (ts_rows init_ts) = Inr [sample_task]"
    by (simp add: create_row_def init_ts_def)
  from ts_reach.step [OF ts_reach.init ts_step.insert [OF sample_new_row this]]
  show ?thesis by (simp add: queued_ts_def)
qed

lemma sample_claimed:
  "pg_claim no_faults (\<lambda>_. False) 2 ''t1'' ''q'' 10 (ts_drv queued_ts) = (Inr sample_claim, ts_drv running_ts)"
  by code_simp

lemma running_reach: "ts_reach sample_codec G running_ts"
proof -
  have "''t1'' \<notin> dc_token ` set (ts_grants queued_ts)" by (simp add: queued_ts_def init_ts_def)
  from ts_reach_steps [OF claim_steps [OF sample_claimed _ this] queued_reach]
  show ?thesis by (simp add: running_ts_def queued_ts_def init_ts_def)
qed

subsection \<open>Properties\<close>

text \<open>C1: A claim ends once: after an acknowledgement of it was accepted, or its task was claimed
  again, whatever any process does next, every further acknowledgement of the claim answers
  ErrLeaseLost and leaves the table as it is.\<close>

theorem durable_claim_ends_once:
  assumes "ts_reach cd G s" and "c \<in> set (ts_grants s)" and "gives_up G s c s1" and "ts_steps cd G s1 s2"
  shows "fenced_off c (ts_drv s2)"
proof -
  have inv: "ts_inv s" by (rule ts_reach_inv [OF assms(1)])
  from gives_up_steps [OF assms(3,2)] have st: "ts_steps cd G s s1" "c \<in> set (ts_grants s1)" by auto
  from lost_for_ever [OF assms(4) ts_reach_steps [OF st(1) assms(1)] st(2)
      gives_up_loses [OF assms(3) inv assms(2)]]
  show ?thesis by (intro unheld_fenced_off) simp
qed

theorem durable_claim_ends_once_witness:
  "\<exists>s1. gives_up (\<lambda>_ _. True) running_ts sample_claim s1 \<and> fenced_off sample_claim (ts_drv s1)"
proof -
  have in_g: "sample_claim \<in> set (ts_grants running_ts)" by (simp add: running_ts_def)
  have "fst (pg_complete no_faults 3 (Some sample_claim) (ts_drv running_ts)) = Inr ()" by code_simp
  then obtain d where "pg_complete no_faults 3 (Some sample_claim) (ts_drv running_ts) = (Inr (), d)"
    by (metis prod.collapse)
  from gives_up.complete [OF this] show ?thesis
    using durable_claim_ends_once [OF running_reach in_g _ ts_steps.refl] by blast
qed

text \<open>C6: In every reachable table ids are unique, no two tasks of a queue share an idempotency key,
  attempts stay between 0 and the maximum, a task has a lease exactly while it runs, a completed task
  was not cancelled, a cancelled one says so, a cancellation request on a failed or pending task
  goes back to a lease that ran out, and each running task is owned by exactly one of the claims
  handed out. Any statements of any number of processes may interleave, those of Claim included.\<close>

theorem durable_table_is_consistent:
  assumes "ts_reach cd G s"
  shows "distinct (map tk_id (ts_rows s))
    \<and> (\<forall>r \<in> set (ts_rows s). \<forall>r' \<in> set (ts_rows s). same_key r r' \<longrightarrow> r = r')
    \<and> (\<forall>r \<in> set (ts_rows s). row_ok r
        \<and> (tk_status r = Processing \<longrightarrow> (\<exists>!c. c \<in> set (ts_grants s) \<and> owns c r)))"
proof -
  have inv: "ts_inv s" by (rule ts_reach_inv [OF assms])
  have one: "c = c'" if "c \<in> set (ts_grants s)" "c' \<in> set (ts_grants s)" "owns c r" "owns c' r" for c c' r
    using inv that by (auto simp: ts_inv_def distinct_map inj_on_def owns_def)
  from inv show ?thesis
    using one by (auto simp: ts_inv_def rows_ok_def owned_def)
qed

theorem durable_table_is_consistent_witness:
  "\<exists>!c. c \<in> set (ts_grants running_ts) \<and> owns c (claim_set 2 12 ''t1'' sample_task)"
  using durable_table_is_consistent [OF running_reach]
  by (auto simp: running_ts_def claim_set_def sample_task_def)

lemma claimable_unrecovered:
  assumes "claimable q now (recover_row q now r)"
  shows "recover_row q now r = r"
proof -
  have "\<not> claimable q now (canceled_set now r)" "\<not> claimable q now (exhausted_set now r)"
    by (simp_all add: claimable_def canceled_set_def exhausted_set_def expired_lease_def)
  with assms have "tk_queue r = q \<and> expired_lease now r \<Longrightarrow>
      tk_cancelAt r = None \<and> \<not> tk_maxAttempts r \<le> tk_attempts r"
    by (cases "tk_cancelAt r = None"; cases "tk_maxAttempts r \<le> tk_attempts r")
      (simp_all add: recover_row_def)
  then show ?thesis by (auto simp: recover_row_def)
qed

lemma claimable_means:
  "claimable q now r \<Longrightarrow> tk_status r = Pending \<and> tk_availableAt r \<le> now
     \<or> tk_status r = Processing \<and> (\<exists>t. tk_leaseExpiresAt r = Some t \<and> t \<le> now)"
  by (auto simp: claimable_def expired_lease_def split: option.splits)

text \<open>C13: Claim hands out the first task in (available, created, id) order among those of the queue
  that are not locked, not cancelled, have attempts left and are either pending and due or running
  on an expired lease; the claim carries the row's payload, the next attempt and the next fencing
  token. When it answers that the queue is empty there is no such task. A task whose lease has not
  expired is never handed out and stays as it is.\<close>

theorem durable_claim_choice:
  assumes "ts_reach cd G s" and "pg_claim flt locked now token q lease (ts_drv s) = (res, d)"
  shows "(\<forall>c. res = Inr c \<longrightarrow> (\<exists>r \<in> set (ts_rows s). claimable q now r \<and> \<not> locked (tk_id r)
        \<and> (tk_status r = Pending \<and> tk_availableAt r \<le> now
            \<or> tk_status r = Processing \<and> (\<exists>t. tk_leaseExpiresAt r = Some t \<and> t \<le> now))
        \<and> dc_id c = tk_id r \<and> dc_payload c = tk_payload r \<and> dc_attempts c = tk_attempts r + 1
        \<and> dc_fence c = tk_fence r + 1 \<and> claim_set now (now + lease) token r \<in> set (pg_rows d)
        \<and> (\<forall>r' \<in> set (ts_rows s). claimable q now r' \<and> \<not> locked (tk_id r') \<longrightarrow> row_before r r')))
    \<and> (res = Inl ErrQueueEmpty \<and> flt = no_faults \<longrightarrow>
        (\<forall>r \<in> set (ts_rows s). \<not> (claimable q now r \<and> \<not> locked (tk_id r))))
    \<and> (\<forall>r \<in> set (ts_rows s). \<forall>t. tk_status r = Processing \<and> tk_leaseExpiresAt r = Some t \<and> now < t
        \<longrightarrow> r \<in> set (pg_rows d))"
proof -
  have ok: "rows_ok (ts_rows s)" using ts_reach_inv [OF assms(1)] by (simp add: ts_inv_def)
  let ?rows = "recovered q now (ts_rows s)"
  note okr = rows_ok_recovered [OF ok, of q now]
  have same: "claimable q now (recover_row q now r) \<Longrightarrow> recover_row q now r = r" for r
    by (rule claimable_unrecovered)
  have kept: "claimable q now r \<Longrightarrow> recover_row q now r = r" for r
    by (auto simp: recover_row_def claimable_def)
  have fixed: "claimable q now r \<and> r \<in> set ?rows \<longleftrightarrow> claimable q now r \<and> r \<in> set (ts_rows s)" for r
  proof
    assume "claimable q now r \<and> r \<in> set ?rows"
    then obtain r0 where "r0 \<in> set (ts_rows s)" "r = recover_row q now r0" "claimable q now r"
      unfolding recovered_map by auto
    with same [of r0] show "claimable q now r \<and> r \<in> set (ts_rows s)" by simp
  next
    assume r: "claimable q now r \<and> r \<in> set (ts_rows s)"
    then have "recover_row q now r \<in> set ?rows" unfolding recovered_map by simp
    with r kept [of r] show "claimable q now r \<and> r \<in> set ?rows" by simp
  qed
  have live: "r \<in> set ?rows" if "r \<in> set (ts_rows s)" "tk_leaseExpiresAt r = Some t" "now < t" for r t
  proof -
    have "recover_row q now r = r" using that by (simp add: recover_row_def expired_lease_def)
    moreover have "recover_row q now r \<in> set ?rows" using that(1) by (simp add: recovered_map)
    ultimately show ?thesis by simp
  qed
  show ?thesis
  proof (cases res)
    case (Inr c)
    with assms(2) have "pg_claim flt locked now token q lease (ts_drv s) = (Inr c, d)" by simp
    then obtain row where row: "find_claimable locked q now ?rows = Some row"
      and c: "c = \<lparr>dc_id = tk_id row, dc_payload = tk_payload row, dc_token = token,
                   dc_fence = tk_fence row + 1, dc_attempts = tk_attempts row + 1\<rparr>"
      and d: "d = (ts_drv s)\<lparr>pg_rows := update_rows (\<lambda>r. tk_id r = tk_id row \<and> tk_fence r = tk_fence row)
                   (claim_set now (now + lease) token) ?rows\<rparr>"
      by (rule pg_claim_granted)
    note f = find_claimable_Some [OF row]
    have new: "pg_rows d = map (\<lambda>r. if r = row then claim_set now (now + lease) token r else r) ?rows"
      by (simp add: d claim_update [OF okr f(1)])
    have "row_before row r'" if "r' \<in> set (ts_rows s)" "claimable q now r'" "\<not> locked (tk_id r')" for r'
      using first_row_least [OF row [unfolded find_claimable_def]] that fixed by auto
    moreover have "r \<in> set (pg_rows d)"
      if "r \<in> set (ts_rows s)" "tk_status r = Processing" "tk_leaseExpiresAt r = Some t" "now < t" for r t
    proof -
      have "r \<noteq> row" using that f(2) by (auto simp: claimable_def expired_lease_def)
      with live [OF that(1,3,4)] show ?thesis by (force simp: new)
    qed
    moreover have "claim_set now (now + lease) token row \<in> set (pg_rows d)"
      using f(1) by (force simp: new)
    moreover have "row \<in> set (ts_rows s)" using fixed f(1,2) by blast
    ultimately show ?thesis using f(2,3) claimable_means [OF f(2)] Inr by (auto simp: c intro!: bexI [of _ row])
  next
    case (Inl e)
    with assms(2) have "pg_claim flt locked now token q lease (ts_drv s) = (Inl e, d)" by simp
    note r = pg_claim_refused [OF this] this
    have "find_claimable locked q now ?rows = None" if "e = ErrQueueEmpty" "flt = no_faults"
      using r(2) that by (auto simp: pg_claim_def ensure_open_def Let_def no_faults_def recovered_def
          split: option.splits if_splits)
    then have "\<not> (claimable q now r \<and> \<not> locked (tk_id r))"
      if "e = ErrQueueEmpty" "flt = no_faults" "r \<in> set (ts_rows s)" for r
      using that fixed [of r] by (auto simp: find_claimable_def filter_empty_conv)
    with r(1) Inl live show ?thesis by auto
  qed
qed

theorem durable_claim_choice_witness:
  "\<exists>r \<in> set (ts_rows queued_ts). claimable ''q'' 2 r \<and> dc_id sample_claim = tk_id r"
  using durable_claim_choice [OF queued_reach sample_claimed] by auto

text \<open>The guarded update of \<open>Claim\<close> matches the one row it selected.\<close>

lemma single_target:
  assumes "rows_ok rows" and "find_claimable locked q now rows = Some row"
  shows "rows_affected (\<lambda>r. tk_id r = tk_id row \<and> tk_fence r = tk_fence row) rows = 1"
proof -
  have "row \<in> set rows" by (rule find_claimable_Some(1) [OF assms(2)])
  with affected_single [OF assms(1), of "\<lambda>r. tk_id r = tk_id row \<and> tk_fence r = tk_fence row" "tk_id row"]
  show ?thesis by auto
qed

text \<open>C18: A crashed worker does not hold a task for ever. When a claim call finds a task of the queue
  running on an expired lease, and nothing is locked and the database answers, then the task is
  afterwards cancelled if that was requested, failed if its attempts are used up, and otherwise the
  call has handed out a task that is due.\<close>

theorem durable_expired_lease_recovers:
  assumes "ts_reach cd G s" and "r \<in> set (ts_rows s)" and "tk_queue r = q" and "expired_lease now r"
    and "\<not> pg_closed (ts_drv s)" and "0 < lease"
    and "pg_claim no_faults (\<lambda>_. False) now token q lease (ts_drv s) = (res, d)"
  shows "if tk_cancelAt r \<noteq> None then canceled_set now r \<in> set (pg_rows d)
    else if tk_attempts r \<ge> tk_maxAttempts r then exhausted_set now r \<in> set (pg_rows d)
    else \<exists>c. res = Inr c"
proof -
  have ok: "rows_ok (ts_rows s)" using ts_reach_inv [OF assms(1)] by (simp add: ts_inv_def)
  let ?rows = "recovered q now (ts_rows s)"
  note okr = rows_ok_recovered [OF ok, of q now]
  have inr: "recover_row q now r \<in> set ?rows" using assms(2) by (simp add: recovered_map)
  have keep: "r' \<in> set ?rows \<Longrightarrow> \<not> claimable q now r' \<Longrightarrow> r' \<in> set (pg_rows d)" for r'
  proof (cases res)
    case (Inr c)
    assume r': "r' \<in> set ?rows" "\<not> claimable q now r'"
    from Inr assms(7) have "pg_claim no_faults (\<lambda>_. False) now token q lease (ts_drv s) = (Inr c, d)"
      by simp
    then obtain row where row: "find_claimable (\<lambda>_. False) q now ?rows = Some row"
      and d: "d = (ts_drv s)\<lparr>pg_rows := update_rows (\<lambda>r. tk_id r = tk_id row \<and> tk_fence r = tk_fence row)
                   (claim_set now (now + lease) token) ?rows\<rparr>"
      by (rule pg_claim_granted)
    note f = find_claimable_Some [OF row]
    show ?thesis using r' f(2) by (force simp: d claim_update [OF okr f(1)])
  next
    case (Inl e)
    assume r': "r' \<in> set ?rows"
    from Inl assms(5,6,7) have "pg_rows d = ?rows"
      using find_claimable_Some(1) affected_single [OF okr]
      by (auto simp: pg_claim_def ensure_open_def Let_def no_faults_def recovered_def
          dest!: single_target [OF okr [unfolded recovered_def]] split: option.splits if_splits)
    with r' show ?thesis by simp
  qed
  show ?thesis
  proof (cases "claimable q now r")
    case True
    then have same: "recover_row q now r = r" and c: "tk_cancelAt r = None" "tk_attempts r < tk_maxAttempts r"
      by (auto simp: recover_row_def claimable_def)
    with inr True have "find_claimable (\<lambda>_. False) q now ?rows \<noteq> None"
      by (auto simp: find_claimable_def filter_empty_conv)
    then have "\<exists>c. res = Inr c"
      using assms(5,6,7) find_claimable_Some(1)
      by (auto simp: pg_claim_def ensure_open_def Let_def no_faults_def recovered_def
          dest!: single_target [OF okr [unfolded recovered_def]] split: option.splits if_splits)
    with c show ?thesis by simp
  next
    case False
    with assms(3,4) keep [OF inr] show ?thesis
      by (auto simp: claimable_def recover_row_def canceled_set_def exhausted_set_def expired_lease_def
          split: if_splits option.splits)
  qed
qed

theorem durable_expired_lease_recovers_witness:
  "\<exists>c. fst (pg_claim no_faults (\<lambda>_. False) 20 ''t2'' ''q'' 10 (ts_drv running_ts)) = Inr c"
proof -
  let ?r = "claim_set 2 12 ''t1'' sample_task"
  have r: "?r \<in> set (ts_rows running_ts)" "tk_queue ?r = ''q''" "expired_lease 20 ?r"
      "\<not> pg_closed (ts_drv running_ts)" "(0::int) < 10"
    by (simp_all add: running_ts_def claim_set_def sample_task_def expired_lease_def)
  have "tk_cancelAt ?r = None" "\<not> tk_attempts ?r \<ge> tk_maxAttempts ?r"
    by (simp_all add: claim_set_def sample_task_def)
  with durable_expired_lease_recovers [OF running_reach r prod.collapse [symmetric], of "''t2''"]
  show ?thesis by simp
qed

lemma push_cases:
  assumes "ts_reach cd G s" and "\<not> pg_closed (ts_drv s)"
    and "new_row cd uuid created updated now queue payload = Inr row"
  shows "(\<forall>r \<in> set (ts_rows s). same_key row r \<longrightarrow>
       pg_push_task cd no_faults uuid now created updated queue payload (ts_drv s) =
         (if tk_hash r = tk_hash row then Inr (tk_id r) else Inl ErrIdempotencyConflict, ts_drv s))
    \<and> ((\<forall>r \<in> set (ts_rows s). tk_id r \<noteq> tk_id row \<and> \<not> same_key row r) \<longrightarrow>
       pg_push_task cd no_faults uuid now created updated queue payload (ts_drv s) =
         (Inr (tk_id row), (ts_drv s)\<lparr>pg_rows := ts_rows s @ [row]\<rparr>))"
proof (intro conjI ballI impI)
  fix r assume r: "r \<in> set (ts_rows s)" "same_key row r"
  have uniq: "\<forall>r \<in> set (ts_rows s). \<forall>r' \<in> set (ts_rows s). same_key r r' \<longrightarrow> r = r'"
    using ts_reach_inv [OF assms(1)] by (simp add: ts_inv_def rows_ok_def)
  have only: "r' = r" if "r' \<in> set (ts_rows s)" "same_key row r'" for r'
    using uniq that r unfolding same_key_def by metis
  obtain r' where r': "find (same_key row) (ts_rows s) = Some r'"
    using r by (metis find_None_iff not_None_eq)
  then have "r' \<in> set (ts_rows s)" "same_key row r'" by (auto simp: find_Some_iff)
  then have "find (same_key row) (ts_rows s) = Some r" using only r' by simp
  moreover have "tk_key row \<noteq> None" using r(2) unfolding same_key_def by blast
  moreover have "\<exists>r \<in> set (ts_rows s). tk_id r = tk_id row \<or> same_key row r" using r by blast
  ultimately show "pg_push_task cd no_faults uuid now created updated queue payload (ts_drv s) =
      (if tk_hash r = tk_hash row then Inr (tk_id r) else Inl ErrIdempotencyConflict, ts_drv s)"
    using assms(2,3)
    by (simp add: pg_push_task_def pg_insert_def ensure_open_def create_row_def no_faults_def)
next
  assume "\<forall>r \<in> set (ts_rows s). tk_id r \<noteq> tk_id row \<and> \<not> same_key row r"
  then have "\<not> (\<exists>r \<in> set (ts_rows s). tk_id r = tk_id row \<or> same_key row r)" by blast
  with assms(2,3) show "pg_push_task cd no_faults uuid now created updated queue payload (ts_drv s) =
      (Inr (tk_id row), (ts_drv s)\<lparr>pg_rows := ts_rows s @ [row]\<rparr>)"
    by (simp add: pg_push_task_def pg_insert_def ensure_open_def create_row_def no_faults_def)
qed

text \<open>C30: Enqueueing is idempotent per queue and key. If a task of the queue already has the key the
  call adds nothing: it answers that task's id when the content hash is the same and
  ErrIdempotencyConflict when it is not; if the id and the key are new, one pending task is added
  and its id answered.\<close>

theorem durable_push_is_idempotent:
  assumes "ts_reach cd G s" and "\<not> pg_closed (ts_drv s)"
    and "new_row cd uuid created updated now queue payload = Inr row"
  shows "(\<forall>r \<in> set (ts_rows s). same_key row r \<longrightarrow>
       pg_push_task cd no_faults uuid now created updated queue payload (ts_drv s) =
         (if tk_hash r = tk_hash row then Inr (tk_id r) else Inl ErrIdempotencyConflict, ts_drv s))
    \<and> ((\<forall>r \<in> set (ts_rows s). tk_id r \<noteq> tk_id row \<and> \<not> same_key row r) \<longrightarrow>
       pg_push_task cd no_faults uuid now created updated queue payload (ts_drv s) =
         (Inr (tk_id row), (ts_drv s)\<lparr>pg_rows := ts_rows s @ [row]\<rparr>))"
  by (rule push_cases [OF assms])

theorem durable_push_is_idempotent_witness:
  "pg_push_task sample_codec no_faults ''u'' 1 1 1 ''q'' sample_payload (ts_drv queued_ts) =
     (Inr ''j1'', ts_drv queued_ts)"
proof -
  have "\<not> pg_closed (ts_drv queued_ts)" by (simp add: queued_ts_def init_ts_def)
  from durable_push_is_idempotent [OF queued_reach this sample_new_row] show ?thesis
    by (simp add: queued_ts_def same_key_def sample_task_def)
qed

subsection \<open>Cancellation requests last\<close>

text \<open>A run of the table in which the row of a task is not deleted.\<close>

inductive keeps_task :: "('p, 'd) codec \<Rightarrow> ('p durable_claim \<Rightarrow> 'p \<Rightarrow> bool) \<Rightarrow> string
    \<Rightarrow> 'p ts \<Rightarrow> 'p ts \<Rightarrow> bool" for cd G i where
  start: "keeps_task cd G i s s"
| step: "keeps_task cd G i s s' \<Longrightarrow> ts_step cd G s' s'' \<Longrightarrow> i \<in> tk_id ` set (ts_rows s'') \<Longrightarrow>
    keeps_task cd G i s s''"

lemma keeps_task_steps: "keeps_task cd G i s s' \<Longrightarrow> ts_steps cd G s s'"
  by (induction rule: keeps_task.induct) (auto intro: ts_steps.intros)

text \<open>What a step may make of a row with a cancellation request: no claim, no completion, and the
  request stays; a cancelled row is final.\<close>

definition stays_marked :: "'p task \<Rightarrow> 'p task \<Rightarrow> bool" where
  "stays_marked r r' \<longleftrightarrow> tk_id r' = tk_id r \<and> tk_cancelAt r' \<noteq> None \<and> tk_fence r' = tk_fence r
     \<and> (tk_status r = Canceled \<longrightarrow> tk_status r' = Canceled)
     \<and> (tk_status r \<noteq> Processing \<longrightarrow> tk_status r' \<noteq> Processing)
     \<and> (tk_status r \<noteq> Completed \<longrightarrow> tk_status r' \<noteq> Completed)"

lemma stays_marked_refl: "tk_cancelAt r \<noteq> None \<Longrightarrow> stays_marked r r"
  by (simp add: stays_marked_def)

lemma stays_marked_trans: "stays_marked r r' \<Longrightarrow> stays_marked r' r'' \<Longrightarrow> stays_marked r r''"
  by (auto simp: stays_marked_def)

lemma marked_update:
  assumes "r' \<in> set (ts_rows (with_rows s (update_rows P f (ts_rows s))))" and "ts_inv s"
    and "r \<in> set (ts_rows s)" and "tk_cancelAt r \<noteq> None" and "tk_id r' = tk_id r"
    and "\<And>r. tk_id (f r) = tk_id r" and "P r \<Longrightarrow> tk_cancelAt r \<noteq> None \<Longrightarrow> stays_marked r (f r)"
  shows "stays_marked r r' \<and> (\<forall>c \<in> set (ts_grants (with_rows s (update_rows P f (ts_rows s)))).
    dc_id c = tk_id r \<longrightarrow> c \<in> set (ts_grants s))"
proof -
  have ok: "rows_ok (ts_rows s)" using assms(2) by (simp add: ts_inv_def)
  from assms(1) obtain r0 where r0: "r0 \<in> set (ts_rows s)" "r' = (if P r0 then f r0 else r0)"
    by (auto simp: update_rows_as_map)
  then have "tk_id r0 = tk_id r" using assms(5,6) by (simp split: if_splits)
  then have "r0 = r" using unique_target [OF ok assms(3) r0(1)] by simp
  with r0(2) assms(4,7) stays_marked_refl [of r] show ?thesis by simp
qed

lemma marked_step:
  assumes "ts_step cd G s s'" and "ts_inv s" and "r \<in> set (ts_rows s)" and "tk_cancelAt r \<noteq> None"
    and "r' \<in> set (ts_rows s')" and "tk_id r' = tk_id r"
  shows "stays_marked r r'
    \<and> (\<forall>c \<in> set (ts_grants s'). dc_id c = tk_id r \<longrightarrow> c \<in> set (ts_grants s))"
  using assms
proof (induction rule: ts_step.induct)
  case (close s)
  then have "r' = r" using unique_target [of "ts_rows s" r r'] by (auto simp: ts_inv_def pg_close_def)
  with close.prems show ?case by (simp add: stays_marked_refl)
next
  case (insert uuid created updated at q payload row s rows)
  have rows: "rows = ts_rows s @ [row]" and "\<forall>r \<in> set (ts_rows s). tk_id r \<noteq> tk_id row"
    using insert.hyps(2) by (auto simp: create_row_def split: if_splits)
  then have "r' \<in> set (ts_rows s)" using insert.prems by auto
  then have "r' = r" using unique_target [of "ts_rows s" r r'] insert.prems by (auto simp: ts_inv_def)
  with insert.prems show ?case by (simp add: stays_marked_refl)
next
  case (recover_canceled s sel q now)
  from recover_canceled.prems(4,1,2,3,5) show ?case
    by (rule marked_update) (auto simp: stays_marked_def canceled_set_def)
next
  case (recover_exhausted s sel q now)
  from recover_exhausted.prems(4,1,2,3,5) show ?case
    by (rule marked_update) (auto simp: stays_marked_def exhausted_set_def recover_exhausted_where_def expired_lease_def)
next
  case (claim locked q now s row token expires)
  note ok = claim.prems(1) [unfolded ts_inv_def, THEN conjunct1]
  note f = find_claimable_Some [OF claim.hyps(1)]
  have "row \<noteq> r" using f(2) claim.prems(3) by (auto simp: claimable_def)
  then have other: "tk_id row \<noteq> tk_id r" using unique_target [OF ok f(1) claim.prems(2)] by simp
  then have "r' \<in> set (ts_rows s)"
    using claim.prems(4,5) by (auto simp: granted_rows [OF ok claim.hyps(1)] split: if_splits)
  then have "r' = r" using unique_target [OF ok claim.prems(2)] claim.prems(5) by simp
  with claim.prems(3) other show ?case by (auto simp: stays_marked_refl task_claim_of_def)
next
  case (finish c s status now failure)
  from finish.prems(4,1,2,3,5) show ?case
    by (rule marked_update) (auto simp: finish_where_def)
next
  case (retry c s payload now at failure)
  from retry.prems(4,1,2,3,5) show ?case
    by (rule marked_update) (auto simp: finish_where_def)
next
  case (finish_cancel c s now)
  from finish_cancel.prems(4,1,2,3,5) show ?case
    by (rule marked_update) (auto simp: stays_marked_def canceled_set_def)
next
  case (beat c s expires now)
  from beat.prems(4,1,2,3,5) show ?case
    by (rule marked_update) (auto simp: stays_marked_def beat_set_def owns_def)
next
  case (cancel s i now)
  from cancel.prems(4,1,2,3,5) show ?case
    by (rule marked_update) (auto simp: stays_marked_def cancel_request_set_def cancel_request_where_def)
next
  case (retry_failed s i now)
  from retry_failed.prems(4,1,2,3,5) show ?case
    by (rule marked_update) (auto simp: stays_marked_def retry_failed_set_def retry_failed_where_def)
next
  case (delete s P)
  then have "r' \<in> set (ts_rows s)" by simp
  then have "r' = r" using unique_target [of "ts_rows s" r r'] delete.prems by (auto simp: ts_inv_def)
  with delete.prems show ?case by (simp add: stays_marked_refl)
qed

text \<open>Over a whole run that keeps the row.\<close>

lemma marked_run:
  assumes "keeps_task cd G i s s'" and "ts_reach cd G s" and "r \<in> set (ts_rows s)" and "tk_id r = i"
    and "tk_cancelAt r \<noteq> None"
  shows "\<exists>r' \<in> set (ts_rows s'). stays_marked r r'
    \<and> (\<forall>c \<in> set (ts_grants s'). dc_id c = i \<longrightarrow> c \<in> set (ts_grants s))"
  using assms
proof (induction rule: keeps_task.induct)
  case (start s)
  then show ?case by (auto intro: stays_marked_refl)
next
  case (step s s' s'')
  from step.IH step.prems obtain r' where r': "r' \<in> set (ts_rows s')" "stays_marked r r'"
    and old: "\<forall>c \<in> set (ts_grants s'). dc_id c = i \<longrightarrow> c \<in> set (ts_grants s)" by blast
  have inv': "ts_inv s'"
    using ts_reach_steps [OF keeps_task_steps [OF step.hyps(1)] step.prems(1)] by (rule ts_reach_inv)
  have id: "tk_id r' = i" and mark: "tk_cancelAt r' \<noteq> None"
    using r'(2) step.prems(3) by (auto simp: stays_marked_def)
  from step.hyps(3) obtain r'' where r'': "r'' \<in> set (ts_rows s'')" "tk_id r'' = i" by auto
  from marked_step [OF step.hyps(2) inv' r'(1) mark r''(1)] r''(2) id
  have "stays_marked r' r''" "\<forall>c \<in> set (ts_grants s''). dc_id c = i \<longrightarrow> c \<in> set (ts_grants s')" by auto
  with stays_marked_trans [OF r'(2)] old r''(1) show ?case by blast
qed

text \<open>No call of \<open>Claim\<close> picks a marked row, and its holder is told on every path.\<close>

lemma marked_not_claimed:
  assumes "rows_ok (pg_rows d)" and "r \<in> set (pg_rows d)" and "tk_cancelAt r \<noteq> None"
    and "pg_claim flt locked t token q lease d = (Inr c, d')"
  shows "dc_id c \<noteq> tk_id r"
proof
  assume same: "dc_id c = tk_id r"
  from assms(4) obtain row where "find_claimable locked q t (recovered q t (pg_rows d)) = Some row"
    "dc_id c = tk_id row" by (rule pg_claim_granted) simp
  from find_claimable_Some [OF this(1)] this(2) same
  have row: "row \<in> set (recovered q t (pg_rows d))" "claimable q t row" "tk_id row = tk_id r" by auto
  then obtain r0 where r0: "r0 \<in> set (pg_rows d)" "row = recover_row q t r0"
    unfolding recovered_map set_map by blast
  with row(3) have "r0 = r" using unique_target [OF assms(1,2) r0(1)] by simp
  with r0(2) row(2) claimable_unrecovered [of q t r] have "claimable q t r" by simp
  with assms(3) show False by (simp add: claimable_def)
qed

lemma marked_owner_told:
  assumes ok: "rows_ok (pg_rows d)" and r: "r \<in> set (pg_rows d)" "tk_cancelAt r \<noteq> None" "owns c r"
  shows "fst (pg_heartbeat no_faults t t' (Some c) lease d) = Inr True"
    and "a \<in> {pg_complete no_faults t (Some c) d, pg_fail no_faults t (Some c) cause d,
              pg_retry no_faults t' t (Some c) p at cause d} \<Longrightarrow>
         fst a = Inr () \<and> canceled_set t r \<in> set (pg_rows (snd a))"
proof -
  have all: "owns c r' \<Longrightarrow> r' = r" if "r' \<in> set (pg_rows d)" for r'
    using owner_unique [OF ok that r(1)] r(3) by simp
  have "find (owns c) (pg_rows d) = Some r"
    using r(1,3) all by (metis (no_types, lifting) find_None_iff find_Some_iff nth_mem option.exhaust)
  then show "fst (pg_heartbeat no_faults t t' (Some c) lease d) = Inr True"
    using r(2) by (simp add: pg_heartbeat_def no_faults_def)
  assume a: "a \<in> {pg_complete no_faults t (Some c) d, pg_fail no_faults t (Some c) cause d,
    pg_retry no_faults t' t (Some c) p at cause d}"
  have "\<not> (\<exists>r \<in> set (pg_rows d). finish_where c r)" using all r(2) by (auto simp: finish_where_def)
  then have "rows_affected (finish_where c) (pg_rows d) = 0" by (simp add: affected_owns [OF ok])
  moreover have "rows_affected (cancel_where c) (pg_rows d) = 1"
    using r by (auto simp: affected_owns [OF ok] cancel_where_def)
  moreover have "canceled_set t r \<in> set (update_rows (cancel_where c) (canceled_set t) (pg_rows d))"
    using r by (force simp: update_rows_set cancel_where_def)
  ultimately show "fst a = Inr () \<and> canceled_set t r \<in> set (pg_rows (snd a))"
    using a by (auto simp: pg_complete_def pg_fail_def pg_retry_def pg_finish_def
        pg_finish_cancellation_def no_faults_def Let_def update_rows_none)
qed

lemma cancel_marks:
  assumes "ts_reach cd G s" and "pg_cancel None now i (ts_drv s) = (Inr (), d)"
  obtains r where "r \<in> set (ts_rows s)" "cancel_request_where i r" "cancel_request_set now r \<in> set (pg_rows d)"
    "ts_reach cd G (with_drv s d)"
proof -
  from assms(2) have d: "d = (ts_drv s)\<lparr>pg_rows := update_rows (cancel_request_where i)
        (cancel_request_set now) (ts_rows s)\<rparr>"
    and "rows_affected (cancel_request_where i) (ts_rows s) \<noteq> 0"
    by (auto simp: pg_cancel_def Let_def split: if_splits)
  then obtain r where r: "r \<in> set (ts_rows s)" "cancel_request_where i r"
    by (auto simp: rows_affected_def filter_empty_conv)
  moreover have "cancel_request_set now r \<in> set (pg_rows d)" using r by (force simp: d update_rows_set)
  moreover have "ts_reach cd G (with_drv s d)"
    unfolding d with_drv_simps using ts_reach.step [OF assms(1) ts_step.cancel [of cd G s i now]] by simp
  ultimately show ?thesis using that by blast
qed

text \<open>C37: Cancelling is for good. After Cancel has answered success for a task, whatever any process
  does next, as long as the row is not deleted: the request stays, the task is never completed, no
  claim on it is ever handed out again, one that was pending is cancelled and stays it; and while
  the claim it ran on lasts, its holder's heartbeat reports the cancellation, and completing,
  failing or retrying is accepted but leaves the task cancelled.\<close>

theorem durable_cancel_takes_effect:
  assumes "ts_reach cd G s" and "pg_cancel None now i (ts_drv s) = (Inr (), d)"
    and "keeps_task cd G i (with_drv s d) s2"
  shows "\<exists>r \<in> set (ts_rows s). \<exists>r2 \<in> set (ts_rows s2). tk_id r = i \<and> tk_id r2 = i
    \<and> tk_cancelAt r2 \<noteq> None \<and> tk_status r2 \<noteq> Completed
    \<and> (\<forall>c \<in> set (ts_grants s2). dc_id c = i \<longrightarrow> c \<in> set (ts_grants s))
    \<and> (\<forall>flt locked t token q lease c d'. pg_claim flt locked t token q lease (ts_drv s2) = (Inr c, d')
        \<longrightarrow> dc_id c \<noteq> i)
    \<and> (tk_status r = Pending \<longrightarrow> tk_status r2 = Canceled)
    \<and> (\<forall>c t t' lease. owns c r2 \<longrightarrow>
        fst (pg_heartbeat no_faults t t' (Some c) lease (ts_drv s2)) = Inr True
        \<and> (\<forall>a p at cause. a \<in> {pg_complete no_faults t (Some c) (ts_drv s2),
               pg_fail no_faults t (Some c) cause (ts_drv s2),
               pg_retry no_faults t' t (Some c) p at cause (ts_drv s2)} \<longrightarrow>
             fst a = Inr () \<and> canceled_set t r2 \<in> set (pg_rows (snd a))))"
proof -
  from cancel_marks [OF assms(1,2)] obtain r where r: "r \<in> set (ts_rows s)" "cancel_request_where i r"
    and m: "cancel_request_set now r \<in> set (ts_rows (with_drv s d))" and reach: "ts_reach cd G (with_drv s d)"
    by (metis with_drv_simps(1))
  have id: "tk_id (cancel_request_set now r) = i" and mark: "tk_cancelAt (cancel_request_set now r) \<noteq> None"
    using r(2) by (simp_all add: cancel_request_where_def cancel_request_set_def)
  from marked_run [OF assms(3) reach m id mark] obtain r2 where r2: "r2 \<in> set (ts_rows s2)"
      "stays_marked (cancel_request_set now r) r2"
    and old: "\<forall>c \<in> set (ts_grants s2). dc_id c = i \<longrightarrow> c \<in> set (ts_grants s)" by auto
  have "ts_inv s2" by (rule ts_reach_inv [OF ts_reach_steps [OF keeps_task_steps [OF assms(3)] reach]])
  then have ok: "rows_ok (ts_rows s2)" by (simp add: ts_inv_def)
  have r2': "tk_id r2 = i" "tk_cancelAt r2 \<noteq> None" "tk_status r2 \<noteq> Completed"
      "tk_status r = Pending \<longrightarrow> tk_status r2 = Canceled"
    using r2(2) r(2) id by (auto simp: stays_marked_def cancel_request_set_def cancel_request_where_def)
  have never: "dc_id c \<noteq> i" if "pg_claim flt locked t token q lease (ts_drv s2) = (Inr c, d')"
    for flt locked t token q lease c d'
    using marked_not_claimed [OF ok r2(1) r2'(2) that] r2'(1) by simp
  note told = marked_owner_told [OF ok r2(1) r2'(2)]
  have "tk_id r = i" using r(2) by (simp add: cancel_request_where_def)
  show ?thesis
    by (intro bexI [OF _ r(1)] bexI [OF _ r2(1)] conjI allI impI ballI)
      (fact, fact r2', fact r2', fact r2', use old in blast, erule never, use r2'(4) in blast,
       erule told(1), (drule told(2), assumption, simp)+)
qed

theorem durable_cancel_takes_effect_witness:
  "\<exists>d. pg_cancel None 3 ''j1'' (ts_drv running_ts) = (Inr (), d)
    \<and> \<not> (\<exists>c d'. pg_claim no_faults (\<lambda>_. False) 99 ''t9'' ''q'' 10 (ts_drv (with_drv running_ts d)) = (Inr c, d')
            \<and> dc_id c = ''j1'')"
proof -
  have "fst (pg_cancel None 3 ''j1'' (ts_drv running_ts)) = Inr ()" by code_simp
  then obtain d where d: "pg_cancel None 3 ''j1'' (ts_drv running_ts) = (Inr (), d)"
    by (metis prod.collapse)
  from durable_cancel_takes_effect [OF running_reach d keeps_task.start]
  have "\<forall>flt locked t token q lease c d'.
      pg_claim flt locked t token q lease (ts_drv (with_drv running_ts d)) = (Inr c, d') \<longrightarrow> dc_id c \<noteq> ''j1''"
    by (elim bexE conjE)
  with d show ?thesis by metis
qed

subsection \<open>Operator commands\<close>

lemma set_insert_by [simp]: "set (insert_by le x ys) = insert x (set ys)"
  by (induction ys) auto

lemma length_insert_by [simp]: "length (insert_by le x ys) = Suc (length ys)"
  by (induction ys) auto

lemma set_order_by [simp]: "set (order_by le xs) = set xs"
  by (induction xs) (auto simp: order_by_def)

lemma length_order_by [simp]: "length (order_by le xs) = length xs"
  by (induction xs) (auto simp: order_by_def)

lemma distinct_order_by: "distinct xs \<Longrightarrow> distinct (order_by le xs)"
  by (metis card_distinct distinct_card length_order_by set_order_by)

lemma sorted_insert_by:
  assumes "\<And>a b. le a b \<or> le b a" and "\<And>a b c. le a b \<Longrightarrow> le b c \<Longrightarrow> le a c"
  shows "sorted_wrt le ys \<Longrightarrow> sorted_wrt le (insert_by le x ys)"
proof (induction ys)
  case (Cons y ys)
  show ?case
  proof (cases "le x y")
    case True
    with Cons.prems assms(2) show ?thesis by auto
  next
    case False
    then have "le y x" using assms(1) by blast
    with False Cons show ?thesis by auto
  qed
qed simp

lemma sorted_order_by:
  assumes "\<And>a b. le a b \<or> le b a" and "\<And>a b c. le a b \<Longrightarrow> le b c \<Longrightarrow> le a c"
  shows "sorted_wrt le (order_by le xs)"
  by (induction xs) (simp_all add: order_by_def sorted_insert_by [OF assms])

lemma sorted_take_drop: "sorted_wrt le xs \<Longrightarrow> a \<in> set (take n xs) \<Longrightarrow> b \<in> set (drop n xs) \<Longrightarrow> le a b"
  by (metis append_take_drop_id sorted_wrt_append)

lemma oldest_order: "sorted_wrt oldest_update_first (order_by oldest_update_first rows)"
  by (rule sorted_order_by) (auto simp: oldest_update_first_def)

lemma newest_order: "sorted_wrt newest_first (order_by newest_first rows)"
  by (rule sorted_order_by) (auto simp: newest_first_def)

text \<open>Pruning removes at most \<open>batch\<close> tasks, only completed, failed or cancelled ones last touched
  before the cutoff and not locked, the oldest first, reports how many, and keeps every other row; if
  it removed fewer than the batch, no such task is left.\<close>

theorem durable_prune_removes_old_finished:
  assumes "ts_reach cd G s" and "pg_prune_finished None locked before batch (ts_drv s) = (Inr n, d)"
  shows "\<exists>gone. pg_rows d = filter (\<lambda>r. r \<notin> gone) (ts_rows s) \<and> gone \<subseteq> set (ts_rows s)
    \<and> n = int (card gone) \<and> n \<le> batch
    \<and> (\<forall>r \<in> gone. tk_status r \<in> {Completed, Failed, Canceled} \<and> tk_updatedAt r < before \<and> \<not> locked (tk_id r))
    \<and> (\<forall>r \<in> gone. \<forall>r' \<in> set (pg_rows d). finished_before before r' \<and> \<not> locked (tk_id r')
         \<longrightarrow> oldest_update_first r r')
    \<and> (n < batch \<longrightarrow> (\<forall>r' \<in> set (pg_rows d). \<not> (finished_before before r' \<and> \<not> locked (tk_id r'))))"
proof -
  let ?rows = "ts_rows s" and ?P = "\<lambda>r. finished_before before r \<and> \<not> locked (tk_id r)"
  let ?sorted = "order_by oldest_update_first (filter ?P ?rows)"
  let ?gone = "set (take (nat batch) ?sorted)"
  have ok: "rows_ok ?rows" using ts_reach_inv [OF assms(1)] by (simp add: ts_inv_def)
  have sub: "?gone \<subseteq> set (filter ?P ?rows)"
    using set_take_subset [of "nat batch" ?sorted] by (simp only: set_order_by)
  have ids: "tk_id r \<in> set (prunable locked before batch ?rows) \<longleftrightarrow> r \<in> ?gone" if "r \<in> set ?rows" for r
  proof -
    have "r \<in> ?gone" if at: "tk_id r \<in> tk_id ` ?gone"
    proof -
      from at obtain r' where r': "tk_id r = tk_id r'" "r' \<in> ?gone" by (rule imageE)
      then have "r' \<in> set ?rows" using sub by auto
      then have "r = r'" using r'(1) unique_target [OF ok _ \<open>r \<in> set ?rows\<close>] by blast
      with r'(2) show ?thesis by simp
    qed
    then show ?thesis by (simp only: prunable_def set_map) blast
  qed
  from assms(2) have d: "pg_rows d = filter (\<lambda>r. tk_id r \<notin> set (prunable locked before batch ?rows)) ?rows"
    and n: "n = int (rows_affected (\<lambda>r. tk_id r \<in> set (prunable locked before batch ?rows)) ?rows)"
    and b: "1 \<le> batch"
    by (auto simp: pg_prune_finished_def Let_def split: if_splits)
  have d': "pg_rows d = filter (\<lambda>r. r \<notin> ?gone) ?rows" unfolding d using ids by (intro filter_cong) auto
  have dist: "distinct ?rows" using ok by (auto simp: rows_ok_def distinct_map)
  have "filter (\<lambda>r. tk_id r \<in> set (prunable locked before batch ?rows)) ?rows = filter (\<lambda>r. r \<in> ?gone) ?rows"
    using ids by (intro filter_cong) auto
  moreover have "set (filter (\<lambda>r. r \<in> ?gone) ?rows) = ?gone" using sub by auto
  then have "length (filter (\<lambda>r. r \<in> ?gone) ?rows) = card ?gone"
    using distinct_card [OF distinct_filter [OF dist, of "\<lambda>r. r \<in> ?gone"]] by simp
  ultimately have n': "n = int (card ?gone)" using n by (simp add: rows_affected_def)
  have "card ?gone \<le> nat batch" 
    using card_length [of "take (nat batch) ?sorted"] by (rule order_trans) simp
  then have le: "n \<le> batch" using n' b by linarith
  have rest: "r' \<in> set (drop (nat batch) ?sorted)" if "r' \<in> set (pg_rows d)" "?P r'" for r'
  proof -
    have "r' \<in> set ?sorted" and "r' \<notin> ?gone" using that d' by auto
    moreover have "set ?sorted = ?gone \<union> set (drop (nat batch) ?sorted)"
      by (simp only: set_append [symmetric] append_take_drop_id)
    ultimately show ?thesis by blast
  qed
  have small: "drop (nat batch) ?sorted = []" if "n < batch"
  proof (rule ccontr)
    assume "drop (nat batch) ?sorted \<noteq> []"
    then have "length (take (nat batch) ?sorted) = nat batch" by simp
    moreover have "distinct (take (nat batch) ?sorted)"
      by (intro distinct_take distinct_order_by distinct_filter dist)
    ultimately have "card ?gone = nat batch" by (metis distinct_card)
    with n' that b show False by linarith
  qed
  have older: "oldest_update_first r r'" if "r \<in> ?gone" "r' \<in> set (pg_rows d)" "?P r'" for r r'
    using sorted_take_drop [OF oldest_order that(1) rest [OF that(2,3)]] .
  have what: "tk_status r \<in> {Completed, Failed, Canceled} \<and> tk_updatedAt r < before \<and> \<not> locked (tk_id r)"
    if "r \<in> ?gone" for r
    using that sub by (auto simp: finished_before_def)
  have none: "\<not> ?P r'" if "n < batch" "r' \<in> set (pg_rows d)" for r'
    using rest [OF that(2)] small [OF that(1)] by auto
  have "?gone \<subseteq> set ?rows" using sub by auto
  with d' n' le older what none show ?thesis by (intro exI [of _ ?gone]) blast
qed

text \<open>RetryFailed returns a failed task to the queue, due now with a fresh attempt budget and no
  lease, and changes no other row, and the task can be claimed at once unless its cancellation had
  been requested; for a task in another state it answers ErrTaskNotRetryable, for an unknown id
  ErrTaskNotFound, and changes nothing.\<close>

theorem durable_retry_failed_cases:
  assumes "ts_reach cd G s" and "pg_retry_failed no_faults now i (ts_drv s) = (res, d)"
  shows "(case find (\<lambda>r. tk_id r = i) (ts_rows s) of
       None \<Rightarrow> res = Inl ErrTaskNotFound \<and> d = ts_drv s
     | Some r \<Rightarrow> (if tk_status r = Failed
         then res = Inr () \<and> pg_rows d = map (\<lambda>r'. if r' = r then retry_failed_set now r else r') (ts_rows s)
           \<and> (claimable (tk_queue r) now (retry_failed_set now r) \<longleftrightarrow> tk_cancelAt r = None)
         else res = Inl ErrTaskNotRetryable \<and> d = ts_drv s))"
proof -
  let ?rows = "ts_rows s"
  have ok: "rows_ok ?rows" using ts_reach_inv [OF assms(1)] by (simp add: ts_inv_def)
  have aff: "rows_affected (retry_failed_where i) ?rows = (if \<exists>r \<in> set ?rows. retry_failed_where i r then 1 else 0)"
    and cnt: "rows_affected (\<lambda>r. tk_id r = i) ?rows = (if \<exists>r \<in> set ?rows. tk_id r = i then 1 else 0)"
    by (rule affected_single [OF ok, where i = i]; simp add: retry_failed_where_def)+
  show ?thesis
  proof (cases "find (\<lambda>r. tk_id r = i) ?rows")
    case None
    then have "\<not> (\<exists>r \<in> set ?rows. tk_id r = i)" by (auto simp: find_None_iff)
    moreover from this have "\<not> (\<exists>r \<in> set ?rows. retry_failed_where i r)" by (auto simp: retry_failed_where_def)
    ultimately show ?thesis
      using assms(2) None aff cnt
      by (simp add: pg_retry_failed_def no_faults_def Let_def update_rows_none)
  next
    case (Some r)
    then have r: "r \<in> set ?rows" "tk_id r = i" by (auto simp: find_Some_iff)
    have one: "tk_id r' = i \<longleftrightarrow> r' = r" if "r' \<in> set ?rows" for r'
      using unique_target [OF ok r(1) that] r(2) by simp
    show ?thesis
    proof (cases "tk_status r = Failed")
      case True
      then have "\<exists>r \<in> set ?rows. retry_failed_where i r" using r by (auto simp: retry_failed_where_def)
      moreover have "update_rows (retry_failed_where i) (retry_failed_set now) ?rows =
          map (\<lambda>r'. if r' = r then retry_failed_set now r else r') ?rows"
        unfolding update_rows_def using one True by (intro map_cong) (auto simp: retry_failed_where_def)
      moreover have "row_ok r" using ok r(1) by (simp add: rows_ok_def)
      then have "claimable (tk_queue r) now (retry_failed_set now r) \<longleftrightarrow> tk_cancelAt r = None"
        using True by (auto simp: claimable_def retry_failed_set_def row_ok_def)
      ultimately show ?thesis
        using assms(2) Some True aff by (auto simp: pg_retry_failed_def no_faults_def Let_def)
    next
      case False
      then have "\<not> (\<exists>r \<in> set ?rows. retry_failed_where i r)" using one by (auto simp: retry_failed_where_def)
      moreover have "\<exists>r \<in> set ?rows. tk_id r = i" using r by blast
      ultimately show ?thesis
        using assms(2) Some False aff cnt
        by (simp add: pg_retry_failed_def no_faults_def Let_def update_rows_none)
    qed
  qed
qed

theorem durable_prune_removes_old_finished_witness:
  "\<exists>n d. pg_prune_finished None (\<lambda>_. False) 5 10 (ts_drv queued_ts) = (Inr n, d) \<and> n \<le> 10"
proof -
  obtain n d where p: "pg_prune_finished None (\<lambda>_. False) 5 10 (ts_drv queued_ts) = (Inr n, d)"
    by (auto simp: pg_prune_finished_def max_task_prune_batch_def Let_def)
  from durable_prune_removes_old_finished [OF queued_reach p] p show ?thesis by blast
qed

theorem durable_retry_failed_cases_witness:
  "fst (pg_retry_failed no_faults 5 ''j1'' (ts_drv queued_ts)) = Inl ErrTaskNotRetryable
   \<and> fst (pg_retry_failed no_faults 5 ''zz'' (ts_drv queued_ts)) = Inl ErrTaskNotFound"
  using durable_retry_failed_cases [OF queued_reach prod.collapse [symmetric], of 5 "''j1''"]
    durable_retry_failed_cases [OF queued_reach prod.collapse [symmetric], of 5 "''zz''"]
  by (simp add: queued_ts_def sample_task_def)

subsection \<open>A cancellation between the statements of Claim\<close>

text \<open>The two recovery updates of \<open>Claim\<close> are separate statements. A cancellation that commits between
  them marks a row the first has passed over and the second then fails.\<close>

definition raced_task :: "unit job_payload task" where
  "raced_task = sample_task\<lparr>tk_payload := sample_payload\<lparr>jp_maxRetries := 1\<rparr>, tk_maxAttempts := 1\<rparr>"

definition raced_ts :: "unit job_payload ts" where
  "raced_ts = \<lparr>ts_drv = \<lparr>pg_rows = [exhausted_set 20 (cancel_request_set 21 (claim_set 2 12 ''t1'' raced_task))],
     pg_closed = False\<rparr>, ts_grants = [task_claim_of ''t1'' raced_task]\<rparr>"

lemma raced_reach: "ts_reach sample_codec G raced_ts"
proof -
  let ?s1 = "with_rows init_ts [raced_task]"
  have "new_row sample_codec ''u'' 1 1 1 ''q'' (sample_payload\<lparr>jp_maxRetries := 1\<rparr>) = Inr raced_task"
    by code_simp
  moreover have "create_row None raced_task (ts_rows init_ts) = Inr [raced_task]"
    by (simp add: create_row_def init_ts_def)
  ultimately have 1: "ts_reach sample_codec G ?s1" by (intro ts_reach.step [OF ts_reach.init] ts_step.insert)
  have "find_claimable (\<lambda>_. False) ''q'' 2 (ts_rows ?s1) = Some raced_task"
    by (simp add: find_claimable_def claimable_def raced_task_def sample_task_def)
  from ts_reach.step [OF 1 ts_step.claim [OF this, where token = "''t1''" and expires = 12 and cd = sample_codec and G = G]]
  have 2: "ts_reach sample_codec G (granted_ts ?s1 raced_task 2 12 ''t1'')"
    by (simp add: init_ts_def with_rows_def)
  from ts_reach.step [OF ts_reach.step [OF 2 ts_step.cancel [of _ _ _ "''j1''" 21]]
      ts_step.recover_exhausted [of _ _ _ "\<lambda>_. True" "''q''" 20]]
  show ?thesis
    by (simp add: raced_ts_def granted_ts_def with_rows_def init_ts_def update_rows_def raced_task_def
        sample_task_def claim_set_def cancel_request_where_def cancel_request_set_def exhausted_set_def
        recover_exhausted_where_def expired_lease_def)
qed

text \<open>A failed task whose cancellation had been requested cannot be retried for real: RetryFailed
  answers success and puts it back to pending, due now, but keeps the request, and whatever any
  process does next, as long as the row is not deleted, no claim on the task is handed out again.
  Such rows exist: a cancellation that commits between the two recovery updates of Claim leaves one.\<close>

theorem durable_cancelled_retry_is_lost:
  assumes "ts_reach cd G s" and "r \<in> set (ts_rows s)" and "tk_id r = i" and "tk_status r = Failed"
    and "tk_cancelAt r \<noteq> None" and "pg_retry_failed no_faults now i (ts_drv s) = (res, d)"
    and "keeps_task cd G i (with_drv s d) s2"
  shows "res = Inr () \<and> retry_failed_set now r \<in> set (pg_rows d)
    \<and> (\<exists>r2 \<in> set (ts_rows s2). tk_id r2 = i \<and> tk_cancelAt r2 \<noteq> None
         \<and> tk_status r2 \<notin> {Processing, Completed})
    \<and> (\<forall>c \<in> set (ts_grants s2). dc_id c = i \<longrightarrow> c \<in> set (ts_grants s))
    \<and> (\<forall>flt locked t token q lease c d'. pg_claim flt locked t token q lease (ts_drv s2) = (Inr c, d')
        \<longrightarrow> dc_id c \<noteq> i)"
proof -
  have ok: "rows_ok (ts_rows s)" using ts_reach_inv [OF assms(1)] by (simp add: ts_inv_def)
  have w: "retry_failed_where i r" using assms(3,4) by (simp add: retry_failed_where_def)
  then have "rows_affected (retry_failed_where i) (ts_rows s) = 1"
    using affected_single [OF ok, of "retry_failed_where i" i] assms(2) by (auto simp: retry_failed_where_def)
  then have res: "res = Inr ()" and d: "d = (ts_drv s)\<lparr>pg_rows :=
      update_rows (retry_failed_where i) (retry_failed_set now) (ts_rows s)\<rparr>"
    using assms(6) by (auto simp: pg_retry_failed_def no_faults_def Let_def)
  have reach: "ts_reach cd G (with_drv s d)"
    unfolding d with_drv_simps using ts_reach.step [OF assms(1) ts_step.retry_failed [of cd G s i now]] by simp
  have row: "retry_failed_set now r \<in> set (pg_rows d)" using w assms(2) by (force simp: d update_rows_set)
  then have m: "retry_failed_set now r \<in> set (ts_rows (with_drv s d))" by simp
  have m': "tk_id (retry_failed_set now r) = i" "tk_cancelAt (retry_failed_set now r) \<noteq> None"
    using assms(3,5) by (simp_all add: retry_failed_set_def)
  from marked_run [OF assms(7) reach m m'] obtain r2 where r2: "r2 \<in> set (ts_rows s2)"
      "stays_marked (retry_failed_set now r) r2"
    and old: "\<forall>c \<in> set (ts_grants s2). dc_id c = i \<longrightarrow> c \<in> set (ts_grants s)" by auto
  have "ts_inv s2" by (rule ts_reach_inv [OF ts_reach_steps [OF keeps_task_steps [OF assms(7)] reach]])
  then have ok2: "rows_ok (ts_rows s2)" by (simp add: ts_inv_def)
  have r2': "tk_id r2 = i" "tk_cancelAt r2 \<noteq> None" "tk_status r2 \<notin> {Processing, Completed}"
    using r2(2) m' by (auto simp: stays_marked_def retry_failed_set_def)
  have "dc_id c \<noteq> i" if "pg_claim flt locked t token q lease (ts_drv s2) = (Inr c, d')"
    for flt locked t token q lease c d'
    using marked_not_claimed [OF ok2 r2(1) r2'(2) that] r2'(1) by simp
  with res row old r2(1) r2' show ?thesis by blast
qed

theorem durable_cancelled_retry_is_lost_witness:
  "ts_reach sample_codec (\<lambda>_ _. True) raced_ts
   \<and> fst (pg_retry_failed no_faults 30 ''j1'' (ts_drv raced_ts)) = Inr ()
   \<and> \<not> (\<exists>c d'. pg_claim no_faults (\<lambda>_. False) 99 ''t9'' ''q'' 10
         (snd (pg_retry_failed no_faults 30 ''j1'' (ts_drv raced_ts))) = (Inr c, d') \<and> dc_id c = ''j1'')"
proof -
  let ?r = "exhausted_set 20 (cancel_request_set 21 (claim_set 2 12 ''t1'' raced_task))"
  have r: "?r \<in> set (ts_rows raced_ts)" "tk_id ?r = ''j1''" "tk_status ?r = Failed" "tk_cancelAt ?r \<noteq> None"
    by (simp_all add: raced_ts_def exhausted_set_def cancel_request_set_def claim_set_def raced_task_def sample_task_def)
  note lost = durable_cancelled_retry_is_lost [OF raced_reach r prod.collapse [symmetric] keeps_task.start, of 30]
  then have "fst (pg_retry_failed no_faults 30 ''j1'' (ts_drv raced_ts)) = Inr ()" by blast
  moreover have "dc_id c \<noteq> ''j1''" if "pg_claim no_faults (\<lambda>_. False) 99 ''t9'' ''q'' 10
      (snd (pg_retry_failed no_faults 30 ''j1'' (ts_drv raced_ts))) = (Inr c, d')" for c d'
    using lost that by (metis with_drv_simps(1))
  ultimately show ?thesis using raced_reach by blast
qed

end
