(* ===== verification/Worker.thy ===== *)
theory Worker
  imports Task_Store_Props
begin

text \<open>
  The queue worker of \<open>api/internal/capabilities/workflow/worker.go\<close>: the configuration it
  normalises, one job's execution, the acknowledgement of a durable claim, the polling loop of one
  goroutine, and the start/stop life cycle.

  The job itself, its handler and the JSON codec are outside the package; \<open>runtime\<close> and
  \<open>codec\<close> carry them as arguments. A handler's answer already reflects the context it ran under
  (timeout, cancellation by the heartbeat or by \<open>Stop\<close>).
\<close>

subsection \<open>Configuration\<close>

record worker_config =
  wc_queue :: string
  wc_concurrency :: int
  wc_sleep :: duration
  wc_timeout :: duration
  wc_maxJobs :: int
  wc_lease :: duration
  wc_heartbeat :: duration
  wc_observeInterval :: duration
  wc_observes :: bool

definition default_worker_config :: worker_config where
  "default_worker_config =
     \<lparr>wc_queue = ''default'', wc_concurrency = 1, wc_sleep = seconds 1, wc_timeout = seconds 60,
      wc_maxJobs = 0, wc_lease = seconds 90, wc_heartbeat = seconds 20,
      wc_observeInterval = seconds 15, wc_observes = False\<rparr>"

definition normalize_worker_config :: "worker_config \<Rightarrow> worker_config" where
  "normalize_worker_config c =
     (let c1 = (if wc_concurrency c < 1 then c\<lparr>wc_concurrency := 1\<rparr> else c);
          c2 = (if wc_sleep c1 = 0 then c1\<lparr>wc_sleep := seconds 1\<rparr> else c1);
          c3 = (if wc_timeout c2 = 0 then c2\<lparr>wc_timeout := seconds 60\<rparr> else c2);
          c4 = (if wc_lease c3 \<le> 0 then c3\<lparr>wc_lease := wc_timeout c3 + seconds 30\<rparr> else c3);
          c5 = (if wc_heartbeat c4 \<le> 0 \<or> wc_heartbeat c4 \<ge> wc_lease c4
                then c4\<lparr>wc_heartbeat := wc_lease c4 div 3\<rparr> else c4)
      in if wc_observeInterval c5 \<le> 0 then c5\<lparr>wc_observeInterval := seconds 15\<rparr> else c5)"

subsection \<open>Executing a job\<close>

text \<open>\<open>rt_new\<close> is \<open>createJob\<close> over the registry (an unknown or unusable type is an error);
  \<open>rt_handle\<close> is the error \<open>Handle\<close> returns; \<open>rt_retryDelay\<close> is \<open>RetryDelay()\<close> where the
  job implements \<open>JobWithRetry\<close>.\<close>

record ('d, 'j) runtime =
  rt_new :: "string \<Rightarrow> wf_error + 'j"
  rt_unmarshal :: "'d \<Rightarrow> 'j \<Rightarrow> wf_error + 'j"
  rt_handle :: "'j \<Rightarrow> wf_error option"
  rt_retryDelay :: "'j \<Rightarrow> duration option"

record 'd execution =
  ex_payload :: "'d job_payload option"
  ex_delay :: duration
  ex_retry :: bool
  ex_err :: "wf_error option"

definition execute_job ::
    "('p, 'd) codec \<Rightarrow> ('d, 'j) runtime \<Rightarrow> 'p \<Rightarrow> int \<Rightarrow> 'd execution" where
  "execute_job cd rt data claimedAttempt =
     (case cd_decode cd data of
        Inl e \<Rightarrow> \<lparr>ex_payload = None, ex_delay = 0, ex_retry = False, ex_err = Some e\<rparr>
      | Inr p \<Rightarrow>
     (case rt_new rt (jp_type p) of
        Inl e \<Rightarrow> \<lparr>ex_payload = Some p, ex_delay = 0, ex_retry = False, ex_err = Some e\<rparr>
      | Inr j0 \<Rightarrow>
     (case rt_unmarshal rt (jp_data p) j0 of
        Inl e \<Rightarrow> \<lparr>ex_payload = Some p, ex_delay = 0, ex_retry = False, ex_err = Some e\<rparr>
      | Inr j \<Rightarrow>
          (let p' = p\<lparr>jp_attempts := (if claimedAttempt > 0 then claimedAttempt else jp_attempts p + 1)\<rparr>
           in case rt_handle rt j of
                None \<Rightarrow> \<lparr>ex_payload = Some p', ex_delay = 0, ex_retry = False, ex_err = None\<rparr>
              | Some e \<Rightarrow>
                  \<lparr>ex_payload = Some p',
                   ex_delay = (case rt_retryDelay rt j of Some t \<Rightarrow> t | None \<Rightarrow> seconds (jp_attempts p')),
                   ex_retry = jp_attempts p' < jp_maxRetries p', ex_err = Some e\<rparr>))))"

text \<open>The failed-job hook (or its log line) is called with the payload and the error.\<close>

type_synonym 'd hook_call = "'d job_payload \<times> wf_error option"

datatype 'd nack = NoPush | PushBack "'d job_payload" duration | GiveUp "'d hook_call"

text \<open>\<open>processJob\<close>: what the worker does with a payload popped from a plain driver. A payload it
  cannot encode again is dropped, as the code does.\<close>

definition process_job ::
    "('p, 'd) codec \<Rightarrow> ('d, 'j) runtime \<Rightarrow> 'p \<Rightarrow> ('p \<times> duration) option \<times> 'd hook_call list" where
  "process_job cd rt data =
     (let x = execute_job cd rt data 0
      in case ex_payload x of None \<Rightarrow> (None, [])
         | Some p \<Rightarrow>
             if ex_err x \<noteq> None \<and> ex_retry x
             then (case cd_encode cd p of Inl _ \<Rightarrow> (None, []) | Inr bytes \<Rightarrow> (Some (bytes, ex_delay x), []))
             else if ex_err x \<noteq> None then (None, [(p, ex_err x)]) else (None, []))"

text \<open>\<open>processDurableJob\<close> ends in exactly one acknowledgement.\<close>

datatype 'p ack = AckComplete | AckFail "wf_error option" | AckRetry 'p duration "wf_error option"

definition decide_ack ::
    "('p, 'd) codec \<Rightarrow> 'd execution \<Rightarrow> 'p ack \<times> 'd hook_call list" where
  "decide_ack cd x =
     (case ex_payload x of
        None \<Rightarrow> (AckFail (ex_err x), [])
      | Some p \<Rightarrow>
          (case ex_err x of
             None \<Rightarrow> (AckComplete, [])
           | Some e \<Rightarrow>
               (if ex_retry x
                then (case cd_encode cd p of
                        Inr bytes \<Rightarrow> (AckRetry bytes (ex_delay x) (Some e), [])
                      | Inl me \<Rightarrow> (AckFail (Some (JoinErr e me)), [(p, Some (JoinErr e me))]))
                else (AckFail (Some e), [(p, Some e)]))))"

definition send_ack ::
    "faults \<Rightarrow> instant \<Rightarrow> 'p durable_claim \<Rightarrow> 'p ack \<Rightarrow> 'p pg_driver \<Rightarrow> (wf_error + unit) \<times> 'p pg_driver" where
  "send_ack flt now c a d =
     (case a of AckComplete \<Rightarrow> pg_complete flt now (Some c) d
      | AckFail e \<Rightarrow> pg_fail flt now (Some c) e d
      | AckRetry bytes delay e \<Rightarrow> pg_retry flt now now (Some c) bytes (now + delay) e d)"

definition process_durable_job ::
    "('p, 'd) codec \<Rightarrow> ('d, 'j) runtime \<Rightarrow> faults \<Rightarrow> instant \<Rightarrow> 'p durable_claim \<Rightarrow> 'p pg_driver
     \<Rightarrow> 'd hook_call list \<times> 'p pg_driver" where
  "process_durable_job cd rt flt now c d =
     (let (a, hooks) = decide_ack cd (execute_job cd rt (dc_payload c) (dc_attempts c))
      in (hooks, snd (send_ack flt now c a d)))"

text \<open>One tick of the heartbeat goroutine: an error or a cancellation request cancels the job's context.\<close>

definition heartbeat_tick ::
    "faults \<Rightarrow> instant \<Rightarrow> instant \<Rightarrow> worker_config \<Rightarrow> 'p durable_claim \<Rightarrow> 'p pg_driver \<Rightarrow> bool \<times> 'p pg_driver" where
  "heartbeat_tick flt now now2 cfg c d =
     (let (r, d') = pg_heartbeat flt now now2 (Some c) (wc_lease cfg) d
      in (case r of Inl _ \<Rightarrow> True | Inr canceled \<Rightarrow> canceled, d'))"

subsection \<open>The polling loop\<close>

text \<open>What one turn of the loop observes: whether the context is done or the worker stopped at the
  top, what \<open>Claim\<close> or \<open>Pop\<close> returns, whether the context is done after an error, and whether
  \<open>waitForWorker\<close> saw its timer fire.\<close>

record 'c turn =
  tn_ctxDone :: bool
  tn_stopped :: bool
  tn_fetch :: "wf_error + 'c"
  tn_ctxErr :: bool
  tn_waited :: bool

datatype 'c outcome = Exit | Again | Work 'c

definition work_turn :: "worker_config \<Rightarrow> int \<Rightarrow> 'c turn \<Rightarrow> 'c outcome" where
  "work_turn cfg n t =
     (if tn_ctxDone t \<or> tn_stopped t then Exit
      else if wc_maxJobs cfg > 0 \<and> n \<ge> wc_maxJobs cfg then Exit
      else case tn_fetch t of
             Inl e \<Rightarrow> if tn_ctxErr t \<or> errors_is e ErrDriverClosed then Exit
                      else if \<not> tn_waited t then Exit else Again
           | Inr c \<Rightarrow> Work c)"

fun work_loop :: "worker_config \<Rightarrow> int \<Rightarrow> 'c turn list \<Rightarrow> 'c list \<times> bool" where
  "work_loop cfg n [] = ([], True)"
| "work_loop cfg n (t # ts) =
     (case work_turn cfg n t of
        Exit \<Rightarrow> ([], False)
      | Again \<Rightarrow> work_loop cfg n ts
      | Work c \<Rightarrow> apfst (Cons c) (work_loop cfg (n + 1) ts))"

text \<open>All the goroutines of a worker, each with its own turns.\<close>

definition worker_jobs :: "worker_config \<Rightarrow> 'c turn list list \<Rightarrow> 'c list" where
  "worker_jobs cfg runs = concat (map (\<lambda>ts. fst (work_loop cfg 0 ts)) runs)"

subsection \<open>Start and Stop\<close>

text \<open>A call of \<open>Stop\<close> that found the worker running goes through: flagged as stopping, stop channel
  closed, goroutines gone, state reset. \<open>lf_live\<close> is the wait group's counter.\<close>

datatype stop_phase = NoStop | Flagged | ClosedChan | Drained

record lifecycle =
  lf_running :: bool
  lf_stopping :: bool
  lf_chanClosed :: bool
  lf_live :: int
  lf_phase :: stop_phase

definition goroutines :: "worker_config \<Rightarrow> bool \<Rightarrow> int" where
  "goroutines cfg durable = wc_concurrency cfg + (if durable \<and> wc_observes cfg then 1 else 0)"

definition worker_start :: "worker_config \<Rightarrow> bool \<Rightarrow> lifecycle \<Rightarrow> lifecycle" where
  "worker_start cfg durable l =
     (if lf_running l then l
      else l\<lparr>lf_running := True, lf_stopping := False, lf_chanClosed := False,
             lf_live := lf_live l + goroutines cfg durable\<rparr>)"

definition stop_flag :: "lifecycle \<Rightarrow> lifecycle option" where
  "stop_flag l =
     (if lf_running l \<and> \<not> lf_stopping l then Some (l\<lparr>lf_stopping := True, lf_phase := Flagged\<rparr>) else None)"

text \<open>Closing a closed channel panics.\<close>

datatype close_result = Panic | Closed lifecycle

definition stop_close :: "lifecycle \<Rightarrow> close_result" where
  "stop_close l = (if lf_chanClosed l then Panic else Closed (l\<lparr>lf_chanClosed := True, lf_phase := ClosedChan\<rparr>))"

definition stop_reset :: "lifecycle \<Rightarrow> lifecycle" where
  "stop_reset l = l\<lparr>lf_running := False, lf_stopping := False, lf_phase := NoStop\<rparr>"

inductive life_step :: "worker_config \<Rightarrow> lifecycle \<Rightarrow> lifecycle \<Rightarrow> bool" for cfg where
  start: "life_step cfg l (worker_start cfg durable l)"
| flag: "stop_flag l = Some l' \<Longrightarrow> life_step cfg l l'"
| close: "lf_phase l = Flagged \<Longrightarrow> stop_close l = Closed l' \<Longrightarrow> life_step cfg l l'"
| drained: "lf_phase l = ClosedChan \<Longrightarrow> lf_live l = 0 \<Longrightarrow> life_step cfg l (l\<lparr>lf_phase := Drained\<rparr>)"
| reset: "lf_phase l = Drained \<Longrightarrow> life_step cfg l (stop_reset l)"
| goroutine_exit: "0 < lf_live l \<Longrightarrow> life_step cfg l (l\<lparr>lf_live := lf_live l - 1\<rparr>)"

definition new_lifecycle :: lifecycle where
  "new_lifecycle = \<lparr>lf_running = False, lf_stopping = False, lf_chanClosed = False, lf_live = 0, lf_phase = NoStop\<rparr>"

inductive life_reach :: "worker_config \<Rightarrow> lifecycle \<Rightarrow> bool" for cfg where
  new: "life_reach cfg new_lifecycle"
| step: "life_reach cfg l \<Longrightarrow> life_step cfg l l' \<Longrightarrow> life_reach cfg l'"


end
