(* ===== verification/Worker_Props.thy ===== *)
theory Worker_Props
  imports Worker
begin

text \<open>
  The worker against the durable store: which retries it writes, what becomes of the row it works
  on, that no task is left pending with its attempts used up, the polling loop's bound, and the
  start/stop life cycle. The locale \<open>acknowledging\<close> is the contract a worker relies on when it
  acknowledges; the durable store is its interpretation.
\<close>

subsection \<open>The acknowledgement contract\<close>

locale acknowledging =
  fixes ok :: "'s \<Rightarrow> bool"
    and owner :: "'s \<Rightarrow> 'c \<Rightarrow> bool"
    and send :: "'c \<Rightarrow> 'a \<Rightarrow> 's \<Rightarrow> (wf_error + unit) \<times> 's"
  assumes send_ok: "ok s \<Longrightarrow> ok (snd (send c a s))"
    and send_accepted: "ok s \<Longrightarrow> owner s c \<Longrightarrow> fst (send c a s) = Inr ()"
    and send_ends: "ok s \<Longrightarrow> owner s c \<Longrightarrow> \<not> owner (snd (send c a s)) c"
    and send_refused: "ok s \<Longrightarrow> \<not> owner s c \<Longrightarrow> send c a s = (Inl ErrLeaseLost, s)"
begin

lemma second_send_refused:
  "ok s \<Longrightarrow> send c b (snd (send c a s)) = (Inl ErrLeaseLost, snd (send c a s))"
  by (metis send_ends send_ok send_refused snd_conv)

lemma sends_once:
  assumes "ok s" and "owner s c"
  shows "fst (send c a s) = Inr () \<and> (\<forall>b. send c b (snd (send c a s)) = (Inl ErrLeaseLost, snd (send c a s)))"
  using assms second_send_refused send_accepted by blast

end

definition ack_plain :: "instant \<Rightarrow> 'p durable_claim \<Rightarrow> 'p ack \<Rightarrow> 'p pg_driver \<Rightarrow> (wf_error + unit) \<times> 'p pg_driver" where
  "ack_plain now c a d = send_ack no_faults now c a d"

definition driver_ok :: "'p pg_driver \<Rightarrow> bool" where
  "driver_ok d = rows_ok (pg_rows d)"

definition row_owner :: "'p pg_driver \<Rightarrow> 'p durable_claim \<Rightarrow> bool" where
  "row_owner d c \<longleftrightarrow> (\<exists>r \<in> set (pg_rows d). owns c r)"

lemma rows_ok_guarded:
  assumes "rows_ok rows" and "\<And>r. r \<in> set rows \<Longrightarrow> P r \<Longrightarrow> row_ok r \<Longrightarrow> row_ok (f r)"
    and "\<And>r. tk_id (f r) = tk_id r" "\<And>r. tk_key (f r) = tk_key r" "\<And>r. tk_queue (f r) = tk_queue r"
  shows "rows_ok (update_rows P f rows)"
  unfolding update_rows_as_map by (rule rows_ok_map [OF assms(1) tame_update [OF assms]])

text \<open>Each acknowledgement is one guarded update, with the cancelling update behind it.\<close>

definition ack_set :: "instant \<Rightarrow> 'p ack \<Rightarrow> 'p task \<Rightarrow> 'p task" where
  "ack_set now a = (case a of AckComplete \<Rightarrow> finish_set now Completed '''' None
     | AckFail e \<Rightarrow> finish_set now Failed (failure_code e) None
     | AckRetry bytes delay e \<Rightarrow> retry_set now bytes (now + delay) (failure_code e))"

lemma ack_plain_eq:
  "ack_plain now c a d =
     (let d' = d\<lparr>pg_rows := update_rows (finish_where c) (ack_set now a) (pg_rows d)\<rparr>
      in if rows_affected (finish_where c) (pg_rows d) \<noteq> 1
         then pg_finish_cancellation None c now d' else (Inr (), d'))"
  by (cases a) (simp_all add: ack_plain_def send_ack_def ack_set_def pg_complete_def pg_fail_def
      pg_finish_def pg_retry_def no_faults_def Let_def)

lemma ack_set_status: "tk_status (ack_set now a r) \<noteq> Processing"
  by (cases a) (simp_all add: ack_set_def finish_set_def retry_set_def Let_def)

lemma ack_set_ok: "row_ok r \<Longrightarrow> finish_where c r \<Longrightarrow> row_ok (ack_set now a r)"
  by (cases a) (auto simp: ack_set_def intro: row_ok_finish row_ok_retry)

lemma ack_set_identity [simp]:
  "tk_id (ack_set now a r) = tk_id r" "tk_key (ack_set now a r) = tk_key r"
  "tk_queue (ack_set now a r) = tk_queue r"
  by (cases a; simp add: ack_set_def)+

lemma ack_plain_ok: "driver_ok d \<Longrightarrow> driver_ok (snd (ack_plain now c a d))"
  unfolding driver_ok_def ack_plain_eq
  by (auto simp: Let_def pg_finish_cancellation_def cancel_where_def
      intro!: rows_ok_guarded intro: ack_set_ok row_ok_cancel)

lemma ack_plain_accepted:
  assumes "driver_ok d" and "row_owner d c"
  shows "fst (ack_plain now c a d) = Inr ()"
proof -
  note aff = affected_owns [OF assms(1) [unfolded driver_ok_def]]
  from assms(2) obtain r where r: "r \<in> set (pg_rows d)" "owns c r" by (auto simp: row_owner_def)
  show ?thesis
  proof (cases "\<exists>r \<in> set (pg_rows d). finish_where c r")
    case True
    with aff(2) show ?thesis by (simp add: ack_plain_eq Let_def)
  next
    case False
    with r have "\<exists>r \<in> set (pg_rows d). cancel_where c r" by (auto simp: finish_where_def cancel_where_def)
    with aff(2,3) False show ?thesis
      by (simp add: ack_plain_eq Let_def pg_finish_cancellation_def update_rows_none)
  qed
qed

lemma ack_plain_ends:
  assumes "driver_ok d" and "row_owner d c"
  shows "\<not> row_owner (snd (ack_plain now c a d)) c"
proof -
  have "(if rows_affected (finish_where c) (pg_rows d) \<noteq> 1
       then pg_finish_cancellation None c now (d\<lparr>pg_rows := update_rows (finish_where c) (ack_set now a) (pg_rows d)\<rparr>)
       else (Inr (), d\<lparr>pg_rows := update_rows (finish_where c) (ack_set now a) (pg_rows d)\<rparr>)) =
      (Inr (), snd (ack_plain now c a d))"
    using ack_plain_accepted [OF assms, of now a] by (simp add: ack_plain_eq Let_def prod_eq_iff)
  from accepted_loses_aux [OF assms(1) [unfolded driver_ok_def] ack_set_status this]
  show ?thesis by (simp add: row_owner_def)
qed

lemma ack_plain_refused:
  assumes "\<not> row_owner d c"
  shows "ack_plain now c a d = (Inl ErrLeaseLost, d)"
  using unheld_none [of "pg_rows d" c] assms
  by (simp add: row_owner_def ack_plain_eq Let_def pg_finish_cancellation_def update_rows_none)

interpretation ack: acknowledging driver_ok row_owner "ack_plain now" for now
  by unfold_locales (simp_all add: ack_plain_ok ack_plain_accepted ack_plain_ends ack_plain_refused)

subsection \<open>What the worker writes back\<close>

text \<open>A retry payload carries on the attempt budget of the payload it was claimed with, and is only
  written while an attempt is left.\<close>

definition worker_guard :: "('p, 'd) codec \<Rightarrow> 'p durable_claim \<Rightarrow> 'p \<Rightarrow> bool" where
  "worker_guard cd c payload \<longleftrightarrow>
     (\<exists>p p'. cd_decode cd (dc_payload c) = Inr p \<and> cd_decode cd payload = Inr p'
        \<and> jp_maxRetries p' = jp_maxRetries p \<and> dc_attempts c < jp_maxRetries p)"

text \<open>Encoding an envelope and decoding it again keeps \<open>max_retries\<close>.\<close>

definition keeps_retries :: "('p, 'd) codec \<Rightarrow> bool" where
  "keeps_retries cd \<longleftrightarrow>
     (\<forall>p b. cd_encode cd p = Inr b \<longrightarrow> (\<exists>p'. cd_decode cd b = Inr p' \<and> jp_maxRetries p' = jp_maxRetries p))"

lemma execute_retry:
  assumes "ex_payload (execute_job cd rt data n) = Some p'" and "ex_retry (execute_job cd rt data n)"
    and "0 < n"
  shows "\<exists>p. cd_decode cd data = Inr p \<and> jp_maxRetries p' = jp_maxRetries p \<and> n < jp_maxRetries p"
  using assms by (auto simp: execute_job_def Let_def split: sum.splits option.splits)

lemma decide_retry_guard:
  assumes "keeps_retries cd" and "0 < dc_attempts c"
    and "fst (decide_ack cd (execute_job cd rt (dc_payload c) (dc_attempts c))) = AckRetry b delay e"
  shows "worker_guard cd c b"
proof -
  let ?x = "execute_job cd rt (dc_payload c) (dc_attempts c)"
  from assms(3) obtain p' where p': "ex_payload ?x = Some p'" "ex_retry ?x" "cd_encode cd p' = Inr b"
    by (auto simp: decide_ack_def split: option.splits if_splits sum.splits)
  from execute_retry [OF p'(1,2) assms(2)] assms(1) p'(3) show ?thesis
    by (fastforce simp: worker_guard_def keeps_retries_def)
qed

lemma process_steps:
  assumes "keeps_retries cd" and "c \<in> set (ts_grants s)" and "0 < dc_attempts c"
  shows "ts_steps cd (worker_guard cd) s
    (with_drv s (snd (process_durable_job cd rt flt now c (ts_drv s))))"
proof -
  obtain a hooks where a: "decide_ack cd (execute_job cd rt (dc_payload c) (dc_attempts c)) = (a, hooks)"
    by fastforce
  have "a = AckRetry b delay e \<Longrightarrow> worker_guard cd c b" for b delay e
    using decide_retry_guard [OF assms(1,3), of rt b delay e] a by simp
  then show ?thesis
    using finish_steps [OF assms(2), of Completed] finish_steps [OF assms(2), of Failed]
      retry_steps [OF assms(2)]
    by (cases a) (auto simp: process_durable_job_def a send_ack_def pg_complete_def pg_fail_def)
qed

subsection \<open>Attempts are never used up while pending\<close>

definition wk_row :: "('p, 'd) codec \<Rightarrow> 'p durable_claim list \<Rightarrow> 'p task \<Rightarrow> bool" where
  "wk_row cd gs r \<longleftrightarrow>
     (\<forall>p. cd_decode cd (tk_payload r) = Inr p \<longrightarrow> tk_maxAttempts r = max 1 (jp_maxRetries p))
     \<and> (tk_status r = Pending \<longrightarrow> tk_attempts r < tk_maxAttempts r)
     \<and> (\<forall>c \<in> set gs. owns c r \<longrightarrow> dc_attempts c = tk_attempts r \<and> dc_payload c = tk_payload r)"

definition wk_inv :: "('p, 'd) codec \<Rightarrow> 'p ts \<Rightarrow> bool" where
  "wk_inv cd s \<longleftrightarrow> (\<forall>r \<in> set (ts_rows s). wk_row cd (ts_grants s) r)
     \<and> (\<forall>c \<in> set (ts_grants s). 1 \<le> dc_attempts c)"

lemma wk_inv_update:
  assumes "wk_inv cd s"
    and "\<And>r. r \<in> set (ts_rows s) \<Longrightarrow> P r \<Longrightarrow> wk_row cd (ts_grants s) r \<Longrightarrow> wk_row cd (ts_grants s) (f r)"
  shows "wk_inv cd (with_rows s (update_rows P f (ts_rows s)))"
  using assms by (auto simp: wk_inv_def update_rows_set)

lemma wk_row_stopped:
  assumes "wk_row cd gs r" and "tk_status r' \<notin> {Pending, Processing}"
    and "tk_payload r' = tk_payload r" "tk_maxAttempts r' = tk_maxAttempts r"
  shows "wk_row cd gs r'"
  using assms by (auto simp: wk_row_def owns_def)

lemma wk_row_finish:
  "wk_row cd gs r \<Longrightarrow> st \<in> {Completed, Failed} \<Longrightarrow> wk_row cd gs (finish_set now st fl None r)"
  by (erule wk_row_stopped) (auto simp: finish_set_def Let_def)

lemma wk_row_canceled: "wk_row cd gs r \<Longrightarrow> wk_row cd gs (canceled_set now r)"
  by (erule wk_row_stopped) (simp_all add: canceled_set_def)

lemma wk_row_exhausted: "wk_row cd gs r \<Longrightarrow> wk_row cd gs (exhausted_set now r)"
  by (erule wk_row_stopped) (simp_all add: exhausted_set_def)

lemma wk_inv_claim:
  assumes inv: "ts_inv s" "wk_inv cd s"
    and row: "find_claimable locked q now (ts_rows s) = Some row"
    and tok: "token \<notin> dc_token ` set (ts_grants s)"
  shows "wk_inv cd (granted_ts s row t expires token)"
proof -
  from inv(1) have ok: "rows_ok (ts_rows s)" and own: "owned (ts_grants s) (ts_rows s)"
    by (auto simp: ts_inv_def)
  note f = find_claimable_Some [OF row] and new = granted_rows [OF ok row, of t expires token]
  have wk: "\<forall>r \<in> set (ts_rows s). wk_row cd (ts_grants s) r" using inv(2) by (simp add: wk_inv_def)
  have other: "tk_leaseToken r \<noteq> token" if "r \<in> set (ts_rows s)" "tk_status r = Processing" for r
    using own that tok by (auto simp: owned_def owns_def)
  have "wk_row cd (task_claim_of token row # ts_grants s) (claim_set t expires token row)"
    using wk f(1) tok by (auto simp: wk_row_def claim_set_def owns_def task_claim_of_def)
  moreover have "wk_row cd (task_claim_of token row # ts_grants s) r" if "r \<in> set (ts_rows s)" for r
    using wk that other [OF that] by (auto simp: wk_row_def owns_def task_claim_of_def)
  moreover have "row_ok row" using ok f(1) by (simp add: rows_ok_def)
  then have "1 \<le> dc_attempts (task_claim_of token row)" by (simp add: task_claim_of_def row_ok_def)
  ultimately show ?thesis using inv(2) by (auto simp: wk_inv_def new)
qed

lemma wk_inv_step:
  assumes "ts_step cd (worker_guard cd) s s'" and "ts_inv s" and "wk_inv cd s" and law: "keeps_retries cd"
  shows "wk_inv cd s'"
  using assms(1-3)
proof (induction rule: ts_step.induct)
  case (close s)
  then show ?case by (simp add: wk_inv_def pg_close_def)
next
  case (insert uuid created updated at q payload row s rows)
  have "rows = ts_rows s @ [row]"
    using insert.hyps(2) by (auto simp: create_row_def split: if_splits)
  moreover have "wk_row cd (ts_grants s) row"
    using insert.hyps(1) law
    by (fastforce simp: new_row_def Let_def wk_row_def owns_def keeps_retries_def split: if_splits sum.splits)
  ultimately show ?case using insert.prems by (auto simp: wk_inv_def)
next
  case (recover_canceled s sel q now)
  then show ?case by (intro wk_inv_update wk_row_canceled)
next
  case (recover_exhausted s sel q now)
  then show ?case by (intro wk_inv_update wk_row_exhausted)
next
  case (claim locked q now s row token expires)
  then show ?case by (intro wk_inv_claim)
next
  case (finish c s status now failure)
  then show ?case
    by (intro wk_inv_update wk_row_finish)
next
  case (retry c s payload now at failure)
  then obtain p p' where g: "cd_decode cd (dc_payload c) = Inr p" "cd_decode cd payload = Inr p'"
      "jp_maxRetries p' = jp_maxRetries p" "dc_attempts c < jp_maxRetries p"
    by (auto simp: worker_guard_def)
  show ?case
  proof (rule wk_inv_update [OF retry.prems(2)])
    fix r assume "finish_where c r" and w: "wk_row cd (ts_grants s) r"
    with retry.hyps(1) have "dc_attempts c = tk_attempts r" "dc_payload c = tk_payload r"
      by (auto simp: wk_row_def finish_where_def)
    with w g show "wk_row cd (ts_grants s) (retry_set now payload at failure r)"
      by (auto simp: wk_row_def retry_set_def owns_def)
  qed
next
  case (finish_cancel c s now)
  then show ?case by (intro wk_inv_update wk_row_canceled)
next
  case (beat c s expires now)
  then show ?case by (intro wk_inv_update) (auto simp: wk_row_def beat_set_def owns_def)
next
  case (cancel s i now)
  then show ?case
    by (intro wk_inv_update) (auto simp: wk_row_def cancel_request_set_def owns_def)
next
  case (retry_failed s i now)
  have ok: "\<forall>r \<in> set (ts_rows s). row_ok r" using retry_failed.prems(1) by (simp add: ts_inv_def rows_ok_def)
  show ?case
  proof (rule wk_inv_update [OF retry_failed.prems(2)])
    fix r assume "r \<in> set (ts_rows s)" and w: "wk_row cd (ts_grants s) r"
    then have "row_ok r" using ok by simp
    with w show "wk_row cd (ts_grants s) (retry_failed_set now r)"
      by (auto simp: wk_row_def retry_failed_set_def owns_def row_ok_def)
  qed
next
  case (delete s P)
  then show ?case by (auto simp: wk_inv_def)
qed

lemma wk_reach_inv:
  assumes "ts_reach cd (worker_guard cd) s" and "keeps_retries cd"
  shows "wk_inv cd s"
  using assms(1)
proof (induction rule: ts_reach.induct)
  case init
  then show ?case by (simp add: wk_inv_def init_ts_def)
next
  case (step s s')
  then show ?case using wk_inv_step [OF step.hyps(2) ts_reach_inv [OF step.hyps(1)] step.IH assms(2)] by simp
qed

subsection \<open>Properties\<close>

text \<open>C23: Workers never strand a task. When retries are written only the way the worker decides them
  (and the JSON codec keeps max_retries), every pending task of every reachable table has an attempt
  left, and unless its cancellation was requested it can be claimed from the moment it is due; and processing any claim handed out, whatever
  the job, the handler's answer and the database do, is such a write.\<close>

theorem worker_never_strands_tasks:
  fixes cd :: "('p, 'd) codec" and rt :: "('d, 'j) runtime"
  assumes "keeps_retries cd" and "ts_reach cd (worker_guard cd) s"
  shows "(\<forall>r \<in> set (ts_rows s). tk_status r = Pending \<longrightarrow>
        tk_attempts r < tk_maxAttempts r
        \<and> (tk_cancelAt r = None \<longrightarrow> (\<forall>now. tk_availableAt r \<le> now \<longrightarrow> claimable (tk_queue r) now r)))
    \<and> (\<forall>c \<in> set (ts_grants s). \<forall>flt now. ts_reach cd (worker_guard cd)
        (with_drv s (snd (process_durable_job cd rt flt now c (ts_drv s)))))"
proof -
  have wk: "wk_inv cd s" by (rule wk_reach_inv [OF assms(2,1)])
  have ok: "\<forall>r \<in> set (ts_rows s). row_ok r"
    using ts_reach_inv [OF assms(2)] by (simp add: ts_inv_def rows_ok_def)
  have "0 < dc_attempts c" if "c \<in> set (ts_grants s)" for c
    using wk that by (force simp: wk_inv_def)
  then have "\<forall>c \<in> set (ts_grants s). \<forall>flt now. ts_reach cd (worker_guard cd)
      (with_drv s (snd (process_durable_job cd rt flt now c (ts_drv s))))"
    using process_steps [OF assms(1)] ts_reach_steps [OF _ assms(2)] by blast
  moreover have left: "tk_attempts r < tk_maxAttempts r" if "r \<in> set (ts_rows s)" "tk_status r = Pending" for r
    using that wk by (auto simp: wk_inv_def wk_row_def)
  moreover have "claimable (tk_queue r) now r"
    if "r \<in> set (ts_rows s)" "tk_status r = Pending" "tk_availableAt r \<le> now" "tk_cancelAt r = None" for r now
    using that left by (auto simp: claimable_def)
  ultimately show ?thesis by blast
qed

lemma sample_keeps_retries: "keeps_retries sample_codec"
  by (simp add: keeps_retries_def sample_codec_def)

theorem worker_never_strands_tasks_witness:
  "claimable ''q'' 7 sample_task"
proof -
  have "sample_task \<in> set (ts_rows queued_ts)" by (simp add: queued_ts_def)
  moreover have "tk_status sample_task = Pending" "tk_availableAt sample_task \<le> 7" "tk_queue sample_task = ''q''"
      "tk_cancelAt sample_task = None"
    by (simp_all add: sample_task_def)
  ultimately show ?thesis
    using worker_never_strands_tasks [OF sample_keeps_retries queued_reach] by metis
qed

lemma ack_row:
  assumes "rows_ok (pg_rows d)" "r \<in> set (pg_rows d)" "finish_where c r"
  shows "ack_set now a r \<in> set (pg_rows (snd (ack_plain now c a d)))"
proof -
  have "\<exists>r \<in> set (pg_rows d). finish_where c r" using assms(2,3) by blast
  with affected_owns(2) [OF assms(1), of c] assms(2,3) show ?thesis
    by (force simp: ack_plain_eq Let_def update_rows_set)
qed

text \<open>What becomes of a claimed task whose cancellation was not asked for, by the handler's answer:
  success completes it; an error while attempts are left puts it back, due after the retry delay;
  an error on the last attempt fails it and calls the failed-job hook once.\<close>

theorem worker_settles_the_task:
  assumes "ts_reach cd G s" and "r \<in> set (ts_rows s)" and "owns c r" and "tk_cancelAt r = None"
    and "dc_attempts c = tk_attempts r" and "cd_decode cd (dc_payload c) = Inr p"
    and "rt_new rt (jp_type p) = Inr j0" and "rt_unmarshal rt (jp_data p) j0 = Inr j"
    and "\<forall>q. \<exists>b. cd_encode cd q = Inr b"
    and "process_durable_job cd rt no_faults now c (ts_drv s) = (hooks, d)"
  shows "case rt_handle rt j of
      None \<Rightarrow> hooks = [] \<and> finish_set now Completed '''' None r \<in> set (pg_rows d)
    | Some e \<Rightarrow>
        (let delay = (case rt_retryDelay rt j of Some t \<Rightarrow> t | None \<Rightarrow> seconds (tk_attempts r));
             p' = p\<lparr>jp_attempts := tk_attempts r\<rparr>
         in if tk_attempts r < jp_maxRetries p
            then hooks = [] \<and> (\<exists>b. cd_encode cd p' = Inr b
              \<and> retry_set now b (now + delay) (failure_code (Some e)) r \<in> set (pg_rows d))
            else hooks = [(p', Some e)]
              \<and> finish_set now Failed (failure_code (Some e)) None r \<in> set (pg_rows d))"
proof -
  have ok: "rows_ok (ts_rows s)" using ts_reach_inv [OF assms(1)] by (simp add: ts_inv_def)
  then have "row_ok r" using assms(2) by (simp add: rows_ok_def)
  moreover have "tk_status r = Processing" using assms(3) by (simp add: owns_def)
  ultimately have pos: "0 < tk_attempts r" by (auto simp: row_ok_def)
  have fw: "finish_where c r" using assms(3,4) by (simp add: finish_where_def)
  note row = ack_row [OF ok assms(2) fw, of now]
  have proc: "process_durable_job cd rt no_faults now c (ts_drv s) =
      (let (a, hs) = decide_ack cd (execute_job cd rt (dc_payload c) (dc_attempts c))
       in (hs, snd (ack_plain now c a (ts_drv s))))"
    by (simp add: process_durable_job_def ack_plain_def)
  obtain b where b: "cd_encode cd (p\<lparr>jp_attempts := tk_attempts r\<rparr>) = Inr b" using assms(9) by blast
  show ?thesis
    using assms(10) row [of AckComplete] row [of "AckFail (rt_handle rt j)"]
      row [of "AckRetry b (case rt_retryDelay rt j of Some t \<Rightarrow> t | None \<Rightarrow> seconds (tk_attempts r)) (rt_handle rt j)"]
    by (auto simp: proc execute_job_def decide_ack_def assms(5-8) pos b Let_def ack_set_def
        split: option.splits)
qed

definition sample_runtime :: "(unit, unit) runtime" where
  "sample_runtime = \<lparr>rt_new = (\<lambda>_. Inr ()), rt_unmarshal = (\<lambda>_ j. Inr j),
     rt_handle = (\<lambda>_. Some (HandlerErr ''boom'')), rt_retryDelay = (\<lambda>_. None)\<rparr>"

theorem worker_settles_the_task_witness:
  "let d = snd (process_durable_job sample_codec sample_runtime no_faults 5 sample_claim (ts_drv running_ts))
   in \<exists>r \<in> set (pg_rows d). tk_status r = Pending \<and> tk_availableAt r = 5 + seconds 1"
proof -
  let ?r = "claim_set 2 12 ''t1'' sample_task"
  have "?r \<in> set (ts_rows running_ts)" "owns sample_claim ?r" "tk_cancelAt ?r = None"
      "dc_attempts sample_claim = tk_attempts ?r"
      "cd_decode sample_codec (dc_payload sample_claim) = Inr sample_payload"
      "rt_new sample_runtime (jp_type sample_payload) = Inr ()"
      "rt_unmarshal sample_runtime (jp_data sample_payload) () = Inr ()"
      "\<forall>q. \<exists>b. cd_encode sample_codec q = Inr b"
    by (simp_all add: running_ts_def owns_def sample_claim_def claim_set_def sample_task_def
        sample_codec_def sample_runtime_def)
  from worker_settles_the_task [OF running_reach this prod.collapse [symmetric], of 5]
  have "\<exists>b. retry_set 5 b (5 + seconds 1) ''job_handler_error'' ?r \<in>
      set (pg_rows (snd (process_durable_job sample_codec sample_runtime no_faults 5 sample_claim (ts_drv running_ts))))"
    by (auto simp: sample_runtime_def claim_set_def sample_task_def sample_payload_def Let_def failure_code_def)
  then show ?thesis by (auto simp: Let_def retry_set_def intro: bexI [rotated])
qed

lemma work_loop_max:
  "0 < wc_maxJobs cfg \<Longrightarrow> n \<le> wc_maxJobs cfg \<Longrightarrow>
     int (length (fst (work_loop cfg n ts))) \<le> wc_maxJobs cfg - n"
proof (induction ts arbitrary: n)
  case (Cons t ts)
  from Cons.IH [of n] Cons.IH [of "n + 1"] Cons.prems show ?case
    by (auto simp: work_turn_def split: sum.splits)
qed simp

lemma worker_jobs_max:
  assumes "0 < wc_maxJobs cfg"
  shows "int (length (worker_jobs cfg runs)) \<le> int (length runs) * wc_maxJobs cfg"
proof (induction runs)
  case Nil
  then show ?case by (simp add: worker_jobs_def)
next
  case (Cons ts runs)
  with work_loop_max [OF assms, of 0 ts] assms show ?case
    by (simp add: worker_jobs_def algebra_simps)
qed

definition busy_turn :: "'c \<Rightarrow> 'c turn" where
  "busy_turn c = \<lparr>tn_ctxDone = False, tn_stopped = False, tn_fetch = Inr c, tn_ctxErr = False, tn_waited = True\<rparr>"

text \<open>\<open>MaxJobs\<close> bounds what one goroutine processes, so a worker processes at most
  concurrency times \<open>MaxJobs\<close> jobs; and that bound is reached: with two goroutines and a maximum of
  one job, a worker can process two.\<close>

theorem worker_max_jobs_is_per_goroutine:
  shows "(0 < wc_maxJobs cfg \<longrightarrow>
      int (length (worker_jobs cfg runs)) \<le> int (length runs) * wc_maxJobs cfg)
    \<and> (let c = normalize_worker_config (default_worker_config\<lparr>wc_concurrency := 2, wc_maxJobs := 1\<rparr>)
       in \<exists>runs. int (length runs) = wc_concurrency c \<and> worker_jobs c runs = [10, 20 :: nat])"
proof -
  let ?c = "normalize_worker_config (default_worker_config\<lparr>wc_concurrency := 2, wc_maxJobs := 1\<rparr>)"
  have "int (length [[busy_turn 10], [busy_turn (20 :: nat)]]) = wc_concurrency ?c
      \<and> worker_jobs ?c [[busy_turn 10], [busy_turn (20 :: nat)]] = [10, 20]"
    by (simp add: worker_jobs_def work_turn_def busy_turn_def normalize_worker_config_def
        default_worker_config_def Let_def seconds_def)
  then show ?thesis using worker_jobs_max by (metis (no_types, lifting))
qed

theorem worker_max_jobs_is_per_goroutine_witness:
  "int (length (worker_jobs (default_worker_config\<lparr>wc_maxJobs := 1\<rparr>) [[busy_turn (1::nat), busy_turn 2]])) \<le> 1"
  using worker_max_jobs_is_per_goroutine [of "default_worker_config\<lparr>wc_maxJobs := 1\<rparr>" "[[busy_turn (1::nat), busy_turn 2]]"]
  by simp

subsection \<open>Life cycle\<close>

definition life_inv :: "worker_config \<Rightarrow> lifecycle \<Rightarrow> bool" where
  "life_inv cfg l \<longleftrightarrow>
     0 \<le> lf_live l \<and> lf_live l \<le> wc_concurrency cfg + 1
     \<and> (\<not> lf_running l \<longrightarrow> lf_live l = 0 \<and> lf_phase l = NoStop)
     \<and> (lf_phase l \<noteq> NoStop \<longleftrightarrow> lf_stopping l)
     \<and> (lf_stopping l \<longrightarrow> lf_running l)
     \<and> (lf_phase l = Drained \<longrightarrow> lf_live l = 0)
     \<and> (lf_running l \<longrightarrow> (lf_chanClosed l \<longleftrightarrow> lf_phase l \<in> {ClosedChan, Drained}))"

lemma life_inv_step:
  assumes "life_step cfg l l'" and "life_inv cfg l" and "1 \<le> wc_concurrency cfg"
  shows "life_inv cfg l'"
  using assms
proof (cases rule: life_step.cases)
  case (start durable)
  with assms(2,3) show ?thesis by (auto simp: life_inv_def worker_start_def goroutines_def)
next
  case flag
  with assms(2) show ?thesis
    by (cases "lf_phase l") (auto simp: life_inv_def stop_flag_def split: if_splits)
next
  case close
  with assms(2) show ?thesis by (auto simp: life_inv_def stop_close_def split: if_splits)
next
  case drained
  with assms(2) show ?thesis by (auto simp: life_inv_def)
next
  case reset
  with assms(2) show ?thesis by (auto simp: life_inv_def stop_reset_def)
next
  case goroutine_exit
  with assms(2) show ?thesis by (auto simp: life_inv_def)
qed

lemma life_reach_inv: "life_reach cfg l \<Longrightarrow> 1 \<le> wc_concurrency cfg \<Longrightarrow> life_inv cfg l"
proof (induction rule: life_reach.induct)
  case new
  then show ?case by (simp add: life_inv_def new_lifecycle_def)
next
  case (step l l')
  then show ?case using life_inv_step by blast
qed

lemma normalized_concurrency: "1 \<le> wc_concurrency (normalize_worker_config c)"
  by (simp add: normalize_worker_config_def Let_def)

text \<open>However Start and Stop calls and goroutine exits interleave, a worker never has more than its
  configured goroutines (and one observer) alive, none is alive once it is not running, and closing
  the stop channel never panics.\<close>

theorem worker_lifecycle_is_safe:
  assumes "life_reach (normalize_worker_config c) l"
  shows "lf_live l \<le> wc_concurrency (normalize_worker_config c) + 1
    \<and> (\<not> lf_running l \<longrightarrow> lf_live l = 0)
    \<and> (lf_phase l = Flagged \<longrightarrow> stop_close l \<noteq> Panic)"
  using life_reach_inv [OF assms normalized_concurrency]
  by (auto simp: life_inv_def stop_close_def)

theorem worker_lifecycle_is_safe_witness:
  "lf_live (worker_start (normalize_worker_config default_worker_config) True new_lifecycle) \<le> 2"
  using worker_lifecycle_is_safe [OF life_reach.step [OF life_reach.new life_step.start], of default_worker_config True]
  by (simp add: normalize_worker_config_def default_worker_config_def seconds_def Let_def)

end
