(* ===== verification/Rate_Limit.thy ===== *)
theory Rate_Limit
  imports Linked_List
begin

text \<open>
  The process-local rate limiter of \<open>api/internal/infra/ratelimit/limiter.go\<close>: \<open>MemoryStore\<close>, a
  fixed-window counter per key over a map and a doubly linked list from the most to the least
  recently used bucket, and the request middleware over any \<open>Limiter\<close>. Clock readings and the
  order in which Go ranges over the map are arguments.
\<close>

subsection \<open>Configuration and state\<close>

definition default_max_buckets :: int where "default_max_buckets = 10000"
definition default_max :: int where "default_max = 60"
definition default_window :: duration where "default_window = minutes 1"

record rl_entry =
  re_key :: string
  re_hits :: int
  re_resetAt :: instant
  re_prev :: "nat option"
  re_next :: "nat option"

record rl_store =
  rl_heap :: "nat \<rightharpoonup> rl_entry"
  rl_alloc :: nat
  rl_entries :: "(string, nat) mapping"
  rl_most :: "nat option"
  rl_least :: "nat option"
  rl_max :: int
  rl_window :: duration
  rl_maxBuckets :: int
  rl_cleanupEvery :: duration
  rl_nextCleanupAt :: instant

datatype rl_option = WithMaxBuckets int

definition apply_option :: "rl_option \<Rightarrow> rl_store \<Rightarrow> rl_store" where
  "apply_option opt s = (case opt of WithMaxBuckets n \<Rightarrow> if n > 0 then s\<lparr>rl_maxBuckets := n\<rparr> else s)"

definition new_limiter :: "instant \<Rightarrow> int \<Rightarrow> duration \<Rightarrow> rl_option list \<Rightarrow> rl_store" where
  "new_limiter now mx window options =
     (let m = (if mx \<le> 0 then default_max else mx);
          w = (if window \<le> 0 then default_window else window);
          every = (if w > minutes 1 then minutes 1 else w);
          s = \<lparr>rl_heap = Map.empty, rl_alloc = 0, rl_entries = Mapping.empty, rl_most = None,
               rl_least = None, rl_max = m, rl_window = w, rl_maxBuckets = default_max_buckets,
               rl_cleanupEvery = every, rl_nextCleanupAt = 0\<rparr>;
          s' = fold apply_option options s
      in s'\<lparr>rl_nextCleanupAt := now + rl_cleanupEvery s'\<rparr>)"

subsection \<open>The linked list\<close>

definition re_at :: "rl_store \<Rightarrow> nat \<Rightarrow> rl_entry" where
  "re_at s a = the (rl_heap s a)"

definition write_next :: "nat option \<Rightarrow> nat option \<Rightarrow> (nat \<rightharpoonup> rl_entry) \<Rightarrow> (nat \<rightharpoonup> rl_entry)" where
  "write_next p q h = (case p of None \<Rightarrow> h | Some a \<Rightarrow> heap_upd h a (\<lambda>e. e\<lparr>re_next := q\<rparr>))"

definition write_prev :: "nat option \<Rightarrow> nat option \<Rightarrow> (nat \<rightharpoonup> rl_entry) \<Rightarrow> (nat \<rightharpoonup> rl_entry)" where
  "write_prev p q h = (case p of None \<Rightarrow> h | Some a \<Rightarrow> heap_upd h a (\<lambda>e. e\<lparr>re_prev := q\<rparr>))"

definition remove_entry :: "string \<Rightarrow> nat \<Rightarrow> rl_store \<Rightarrow> rl_store" where
  "remove_entry key a s =
     (let e = re_at s a;
          h1 = write_next (re_prev e) (re_next e) (rl_heap s);
          most = (if re_prev e = None then re_next e else rl_most s);
          h2 = write_prev (re_next e) (re_prev e) h1;
          least = (if re_next e = None then re_prev e else rl_least s)
      in s\<lparr>rl_entries := Mapping.delete key (rl_entries s),
           rl_heap := heap_upd h2 a (\<lambda>e. e\<lparr>re_prev := None, re_next := None\<rparr>),
           rl_most := most, rl_least := least\<rparr>)"

definition add_most_recent :: "nat \<Rightarrow> rl_store \<Rightarrow> rl_store" where
  "add_most_recent a s =
     (let h1 = heap_upd (rl_heap s) a (\<lambda>e. e\<lparr>re_next := rl_most s\<rparr>)
      in s\<lparr>rl_heap := write_prev (rl_most s) (Some a) h1,
           rl_least := (if rl_most s = None then Some a else rl_least s),
           rl_most := Some a\<rparr>)"

definition move_to_most_recent :: "nat \<Rightarrow> rl_store \<Rightarrow> rl_store" where
  "move_to_most_recent a s =
     (if rl_most s = Some a then s
      else let e = re_at s a;
               h1 = write_next (re_prev e) (re_next e) (rl_heap s);
               h2 = write_prev (re_next e) (re_prev e) h1;
               least = (if re_next e = None then re_prev e else rl_least s);
               h3 = heap_upd h2 a (\<lambda>e. e\<lparr>re_prev := None, re_next := None\<rparr>)
           in add_most_recent a (s\<lparr>rl_heap := h3, rl_least := least\<rparr>))"

definition evict_least_recently_used :: "rl_store \<Rightarrow> rl_store" where
  "evict_least_recently_used s =
     (case rl_least s of None \<Rightarrow> s | Some a \<Rightarrow> remove_entry (re_key (re_at s a)) a s)"

definition expire_key :: "instant \<Rightarrow> string \<Rightarrow> rl_store \<Rightarrow> rl_store" where
  "expire_key now key s =
     (case Mapping.lookup (rl_entries s) key of None \<Rightarrow> s
      | Some a \<Rightarrow> if \<not> now < re_resetAt (re_at s a) then remove_entry key a s else s)"

definition remove_expired :: "(string set \<Rightarrow> string list) \<Rightarrow> instant \<Rightarrow> rl_store \<Rightarrow> rl_store" where
  "remove_expired ord now s = fold (expire_key now) (ord (Mapping.keys (rl_entries s))) s"

subsection \<open>Take and Reset\<close>

definition cleanup :: "(string set \<Rightarrow> string list) \<Rightarrow> instant \<Rightarrow> rl_store \<Rightarrow> rl_store" where
  "cleanup ord now s =
     (if \<not> now < rl_nextCleanupAt s
      then (remove_expired ord now s)\<lparr>rl_nextCleanupAt := now + rl_cleanupEvery s\<rparr> else s)"

definition new_bucket :: "instant \<Rightarrow> string \<Rightarrow> rl_store \<Rightarrow> (bool \<times> int \<times> instant) \<times> rl_store" where
  "new_bucket now key s =
     (let s1 = (if int (Mapping.size (rl_entries s)) \<ge> rl_maxBuckets s
                then evict_least_recently_used s else s);
          a = rl_alloc s1;
          e = \<lparr>re_key = key, re_hits = 1, re_resetAt = now + rl_window s1, re_prev = None, re_next = None\<rparr>;
          s2 = add_most_recent a (s1\<lparr>rl_heap := (rl_heap s1)(a \<mapsto> e), rl_alloc := a + 1\<rparr>)
      in ((True, max 0 (rl_max s2 - 1), re_resetAt e), s2\<lparr>rl_entries := Mapping.update key a (rl_entries s2)\<rparr>))"

definition limiter_take ::
    "(string set \<Rightarrow> string list) \<Rightarrow> instant \<Rightarrow> string \<Rightarrow> rl_store \<Rightarrow> (bool \<times> int \<times> instant) \<times> rl_store" where
  "limiter_take ord now key s0 =
     (let s = cleanup ord now s0
      in case Mapping.lookup (rl_entries s) key of
           None \<Rightarrow> new_bucket now key s
         | Some a \<Rightarrow>
             (if \<not> now < re_resetAt (re_at s a) then new_bucket now key (remove_entry key a s)
              else let s1 = move_to_most_recent a s; e = re_at s1 a
                   in if re_hits e \<ge> rl_max s1 then ((False, 0, re_resetAt e), s1)
                      else ((True, max 0 (rl_max s1 - (re_hits e + 1)), re_resetAt e),
                            s1\<lparr>rl_heap := heap_upd (rl_heap s1) a (\<lambda>e. e\<lparr>re_hits := re_hits e + 1\<rparr>)\<rparr>)))"

definition limiter_reset :: "string \<Rightarrow> rl_store \<Rightarrow> rl_store" where
  "limiter_reset key s =
     (case Mapping.lookup (rl_entries s) key of None \<Rightarrow> s | Some a \<Rightarrow> remove_entry key a s)"

subsection \<open>Middleware\<close>

text \<open>A request is what the configured functions say of it; the answer lists what the middleware does.\<close>

record 'r rl_config =
  rc_max :: int
  rc_duration :: duration
  rc_maxBuckets :: int
  rc_key :: "'r \<Rightarrow> string"
  rc_skip :: "('r \<Rightarrow> bool) option"
  rc_suppress :: bool

datatype rl_action = RunNext | Headers int int instant | Reject instant

definition middleware_config :: "'r rl_config \<Rightarrow> 'r rl_config" where
  "middleware_config c =
     (let c1 = (if rc_max c \<le> 0 then c\<lparr>rc_max := default_max\<rparr> else c);
          c2 = (if rc_duration c1 \<le> 0 then c1\<lparr>rc_duration := default_window\<rparr> else c1)
      in if rc_maxBuckets c2 \<le> 0 then c2\<lparr>rc_maxBuckets := default_max_buckets\<rparr> else c2)"

definition middleware ::
    "'r rl_config \<Rightarrow> (string \<Rightarrow> 's \<Rightarrow> (bool \<times> int \<times> instant) \<times> 's) \<Rightarrow> 'r \<Rightarrow> 's \<Rightarrow> rl_action list \<times> 's" where
  "middleware c tk r s =
     (if (case rc_skip c of Some f \<Rightarrow> f r | None \<Rightarrow> False) then ([RunNext], s)
      else let ((allowed, remaining, resetAt), s') = tk (rc_key c r) s
           in if \<not> allowed then ([Reject resetAt], s')
              else ((if rc_suppress c then [] else [Headers (rc_max c) remaining resetAt]) @ [RunNext], s'))"


subsection \<open>Specification\<close>

text \<open>Buckets, the most recently used first.\<close>

type_synonym bucket = "string \<times> int \<times> instant"

record rl_spec =
  sp_buckets :: "bucket list"
  sp_nextCleanupAt :: instant

definition others :: "string \<Rightarrow> bucket list \<Rightarrow> bucket list" where
  "others k bs = filter (\<lambda>b. fst b \<noteq> k) bs"

definition active :: "instant \<Rightarrow> bucket \<Rightarrow> bool" where
  "active now b \<longleftrightarrow> now < snd (snd b)"

definition spec_new :: "rl_store \<Rightarrow> instant \<Rightarrow> string \<Rightarrow> bucket list \<Rightarrow> (bool \<times> int \<times> instant) \<times> bucket list" where
  "spec_new cfg now k bs =
     (let kept = (if int (length bs) \<ge> rl_maxBuckets cfg then butlast bs else bs)
      in ((True, max 0 (rl_max cfg - 1), now + rl_window cfg), (k, 1, now + rl_window cfg) # kept))"

definition spec_take :: "rl_store \<Rightarrow> instant \<Rightarrow> string \<Rightarrow> rl_spec \<Rightarrow> (bool \<times> int \<times> instant) \<times> rl_spec" where
  "spec_take cfg now k sp =
     (let due = (\<not> now < sp_nextCleanupAt sp);
          bs = (if due then filter (active now) (sp_buckets sp) else sp_buckets sp);
          next = (if due then now + rl_cleanupEvery cfg else sp_nextCleanupAt sp);
          (ans, bs') = (case map_of bs k of
             None \<Rightarrow> spec_new cfg now k bs
           | Some (h, r) \<Rightarrow>
               (if \<not> now < r then spec_new cfg now k (others k bs)
                else if h \<ge> rl_max cfg then ((False, 0, r), (k, h, r) # others k bs)
                else ((True, max 0 (rl_max cfg - (h + 1)), r), (k, h + 1, r) # others k bs)))
      in (ans, \<lparr>sp_buckets = bs', sp_nextCleanupAt = next\<rparr>))"

definition spec_reset :: "string \<Rightarrow> rl_spec \<Rightarrow> rl_spec" where
  "spec_reset k sp = sp\<lparr>sp_buckets := others k (sp_buckets sp)\<rparr>"

end
