(* ===== verification/Rate_Limit_Props.thy ===== *)
theory Rate_Limit_Props
  imports Rate_Limit
begin

text \<open>
  The limiter refines a list of buckets; from that, its bounds and the fixed-window quota. The
  middleware is proved over any limiter that keeps the quota contract (\<open>window_limiter\<close>), which
  the process-local store provides.
\<close>

subsection \<open>Representation\<close>

definition bucket_of :: "rl_entry \<Rightarrow> bucket" where
  "bucket_of e = (re_key e, re_hits e, re_resetAt e)"

interpretation rl: linked_index re_prev re_next
  "\<lambda>p e. e\<lparr>re_prev := p\<rparr>" "\<lambda>q e. e\<lparr>re_next := q\<rparr>" bucket_of fst
  by unfold_locales (simp_all add: bucket_of_def)

lemma write_next_eq: "write_next = rl.set_next_of"
  by (simp add: fun_eq_iff write_next_def rl.set_next_of_def)

lemma write_prev_eq: "write_prev = rl.set_prev_of"
  by (simp add: fun_eq_iff write_prev_def rl.set_prev_of_def)

lemma re_at_keyed: "re_key (re_at s a) = rl.keyed (rl_heap s) a"
  by (simp add: re_at_def rl.keyed_def bucket_of_def)

definition rl_rep :: "rl_store \<Rightarrow> nat list \<Rightarrow> bucket list \<Rightarrow> bool" where
  "rl_rep s xs bs \<longleftrightarrow>
     rl.index_ok (rl_heap s) (rl_entries s) (rl_most s) (rl_least s) xs
     \<and> bs = rl.view_of (rl_heap s) xs \<and> (\<forall>a \<in> dom (rl_heap s). a < rl_alloc s)"

definition rl_rel :: "rl_store \<Rightarrow> bucket list \<Rightarrow> bool" where
  "rl_rel s bs \<longleftrightarrow> (\<exists>xs. rl_rep s xs bs)"

definition same_limits :: "rl_store \<Rightarrow> rl_store \<Rightarrow> bool" where
  "same_limits s t \<longleftrightarrow> rl_max s = rl_max t \<and> rl_window s = rl_window t
     \<and> rl_maxBuckets s = rl_maxBuckets t \<and> rl_cleanupEvery s = rl_cleanupEvery t
     \<and> rl_nextCleanupAt s = rl_nextCleanupAt t"

lemma same_limits_refl [simp]: "same_limits s s"
  by (simp add: same_limits_def)

lemma same_limits_trans: "same_limits s t \<Longrightarrow> same_limits t u \<Longrightarrow> same_limits s u"
  by (simp add: same_limits_def)

lemma rel_distinct: "rl_rel s bs \<Longrightarrow> distinct (map fst bs)"
  by (auto simp: rl_rel_def rl_rep_def intro: rl.index_distinct_keys)

lemma limits_size: "rl_rel s bs \<Longrightarrow> Mapping.size (rl_entries s) = length bs"
  by (auto simp: rl_rel_def rl_rep_def rl.view_of_def dest: rl.index_size)

lemma rel_keys: "rl_rel s bs \<Longrightarrow> Mapping.keys (rl_entries s) = fst ` set bs"
  unfolding rl_rel_def rl_rep_def using rl.index_keys by (metis image_set)

lemma rel_lookup_None: "rl_rel s bs \<Longrightarrow> Mapping.lookup (rl_entries s) k = None \<longleftrightarrow> map_of bs k = None"
  unfolding rl_rel_def rl_rep_def map_of_eq_None_iff image_set
  using rl.index_lookup_None by metis

lemma others_view:
  assumes "rl.index_ok h m hp tp (ys @ a # zs)"
  shows "others (rl.keyed h a) (rl.view_of h (ys @ a # zs)) = rl.view_of h (ys @ zs)"
proof -
  have "rl.keyed h x \<noteq> rl.keyed h a" if "x \<in> set (ys @ zs)" for x
    using rl.index_inj [OF assms, of x a] rl.index_distinct [OF assms] that by auto
  then show ?thesis
    by (auto simp: others_def rl.view_of_def rl.keyed_def filter_map comp_def intro!: filter_True)
qed

lemma limits_hit:
  assumes "rl_rel s bs" and "Mapping.lookup (rl_entries s) k = Some a"
  obtains ys zs where "rl_rep s (ys @ a # zs) bs" and "rl.keyed (rl_heap s) a = k"
    and "map_of bs k = Some (re_hits (re_at s a), re_resetAt (re_at s a))"
    and "rl.view_of (rl_heap s) (ys @ zs) = others k bs"
proof -
  from assms(1) obtain xs where xs: "rl_rep s xs bs" by (auto simp: rl_rel_def)
  then have a: "a \<in> set xs" "rl.keyed (rl_heap s) a = k"
    using assms(2) rl.index_lookup_Some by (auto simp: rl_rep_def)
  then obtain ys zs where split: "xs = ys @ a # zs" by (meson split_list)
  have "bucket_of (re_at s a) \<in> set bs"
    using xs a by (auto simp: rl_rep_def rl.view_of_def re_at_def)
  then have "map_of bs k = Some (re_hits (re_at s a), re_resetAt (re_at s a))"
    using rel_distinct [OF assms(1)] re_at_keyed [of s a] a(2)
    by (auto simp: bucket_of_def intro: map_of_is_SomeI)
  moreover have "rl.view_of (rl_heap s) (ys @ zs) = others k bs"
    using others_view [of "rl_heap s" "rl_entries s" "rl_most s" "rl_least s" ys a zs] xs a split
    by (auto simp: rl_rep_def)
  ultimately show ?thesis using that xs a split by blast
qed

subsection \<open>The list operations\<close>

lemma remove_entry_limits: "same_limits (remove_entry k a s) s"
  by (simp add: same_limits_def remove_entry_def Let_def)

lemma remove_entry_rel:
  assumes "rl_rel s bs" and "Mapping.lookup (rl_entries s) k = Some a"
  shows "rl_rel (remove_entry k a s) (others k bs)"
proof -
  from limits_hit [OF assms] obtain ys zs where r: "rl_rep s (ys @ a # zs) bs"
    and k: "rl.keyed (rl_heap s) a = k" and o: "rl.view_of (rl_heap s) (ys @ zs) = others k bs" .
  have ix: "rl.index_ok (rl_heap s) (rl_entries s) (rl_most s) (rl_least s) (ys @ a # zs)"
    using r by (simp add: rl_rep_def)
  obtain n where n: "rl_heap s a = Some n" using rl.index_node [OF ix, of a] by auto
  let ?s = "remove_entry k a s"
  have h: "rl_heap ?s = heap_upd (rl.unlinked (rl_heap s) n) a (\<lambda>e. e\<lparr>re_prev := None, re_next := None\<rparr>)"
    by (simp add: remove_entry_def Let_def re_at_def n write_next_eq write_prev_eq rl.unlinked_def)
  have hx: "x \<noteq> a \<Longrightarrow> rl_heap ?s x = rl.unlinked (rl_heap s) n x" for x by (simp add: h)
  have e: "rl_entries ?s = Mapping.delete (rl.keyed (rl_heap s) a) (rl_entries s)"
    "rl_most ?s = (if re_prev n = None then re_next n else rl_most s)"
    "rl_least ?s = (if re_next n = None then re_prev n else rl_least s)"
    by (simp_all add: remove_entry_def Let_def re_at_def n k)
  have "rl.index_ok (rl_heap ?s) (rl_entries ?s) (rl_most ?s) (rl_least ?s) (ys @ zs)"
    unfolding e by (rule rl.index_unlink(1) [OF ix n hx])
  moreover have "others k bs = rl.view_of (rl_heap ?s) (ys @ zs)"
    using rl.index_unlink(2) [OF ix n hx] o by simp
  moreover have "dom (rl_heap ?s) = dom (rl_heap s)" by (simp add: h)
  then have "\<forall>x \<in> dom (rl_heap ?s). x < rl_alloc ?s"
    using r by (simp add: rl_rep_def) (simp add: remove_entry_def Let_def)
  ultimately show ?thesis by (auto simp: rl_rel_def rl_rep_def)
qed

lemma evict_rel:
  assumes "rl_rel s bs"
  shows "rl_rel (evict_least_recently_used s) (butlast bs)"
    and "same_limits (evict_least_recently_used s) s"
proof -
  show "same_limits (evict_least_recently_used s) s"
    by (simp add: evict_least_recently_used_def remove_entry_limits split: option.split)
  from assms obtain xs where r: "rl_rep s xs bs" by (auto simp: rl_rel_def)
  then have o: "rl_least s = last_of xs None" by (simp add: rl_rep_def rl.index_ok_def rl.dll_def)
  show "rl_rel (evict_least_recently_used s) (butlast bs)"
  proof (cases xs rule: rev_cases)
    case Nil
    with r o show ?thesis by (auto simp: rl_rel_def rl_rep_def evict_least_recently_used_def rl.view_of_def)
  next
    case (snoc ys a)
    let ?k = "rl.keyed (rl_heap s) a"
    have "Mapping.lookup (rl_entries s) ?k = Some a"
      using r snoc rl.index_lookup_Some by (auto simp: rl_rep_def)
    from remove_entry_rel [OF assms this] moreover have "others ?k bs = butlast bs"
      using others_view [of "rl_heap s" "rl_entries s" "rl_most s" "rl_least s" ys a "[]"] r snoc
      by (auto simp: rl_rep_def rl.view_of_def butlast_append)
    ultimately show ?thesis
      by (simp add: evict_least_recently_used_def o snoc re_at_keyed)
  qed
qed

lemma move_rel:
  assumes "rl_rel s bs" and "Mapping.lookup (rl_entries s) k = Some a"
  shows "rl_rel (move_to_most_recent a s) ((k, the (map_of bs k)) # others k bs)"
    and "same_limits (move_to_most_recent a s) s"
    and "rl_entries (move_to_most_recent a s) = rl_entries s"
proof -
  show "same_limits (move_to_most_recent a s) s" "rl_entries (move_to_most_recent a s) = rl_entries s"
    by (simp_all add: same_limits_def move_to_most_recent_def add_most_recent_def Let_def)
  from limits_hit [OF assms] obtain ys zs where r: "rl_rep s (ys @ a # zs) bs"
    and k: "rl.keyed (rl_heap s) a = k"
    and m: "map_of bs k = Some (re_hits (re_at s a), re_resetAt (re_at s a))"
    and o: "rl.view_of (rl_heap s) (ys @ zs) = others k bs" .
  have ix: "rl.index_ok (rl_heap s) (rl_entries s) (rl_most s) (rl_least s) (ys @ a # zs)"
    using r by (simp add: rl_rep_def)
  obtain n where n: "rl_heap s a = Some n" using rl.index_node [OF ix, of a] by auto
  have cont: "bucket_of n = (k, the (map_of bs k))"
    using k m n by (simp add: bucket_of_def rl.keyed_def re_at_def)
  show "rl_rel (move_to_most_recent a s) ((k, the (map_of bs k)) # others k bs)"
  proof (cases "rl_most s = Some a")
    case True
    then have "ys = []" using rl.index_dll [OF ix] by (cases ys) (auto simp: rl.dll_def)
    with r True o n cont show ?thesis
      by (auto simp: rl_rel_def rl_rep_def move_to_most_recent_def rl.view_of_def intro!: exI [of _ "a # zs"])
  next
    case False
    let ?s = "move_to_most_recent a s"
    let ?c = "\<lambda>e :: rl_entry. e\<lparr>re_prev := None, re_next := rl_most s\<rparr>"
    have two: "heap_upd (heap_upd g a f) a f' = heap_upd g a (\<lambda>e. f' (f e))" for g and f f' :: "rl_entry \<Rightarrow> rl_entry"
      by (auto simp: fun_eq_iff option.map_comp comp_def)
    have "rl_most s \<noteq> None" using rl.index_dll [OF ix] by (simp add: rl.dll_def)
    then obtain b where b: "rl_most s = Some b" by auto
    have h: "rl_heap ?s = rl.set_prev_of (rl_most s) (Some a) (heap_upd (rl.unlinked (rl_heap s) n) a ?c)"
      and e: "rl_most ?s = Some a" "rl_least ?s = (if re_next n = None then re_prev n else rl_least s)"
        "rl_alloc ?s = rl_alloc s" "rl_entries ?s = rl_entries s"
      using False by (simp_all add: b move_to_most_recent_def add_most_recent_def Let_def re_at_def n
          write_next_eq write_prev_eq rl.unlinked_def two)
    note mv = rl.index_move [OF ix n False, of ?c, folded h]
    have "rl.index_ok (rl_heap ?s) (rl_entries ?s) (rl_most ?s) (rl_least ?s) (a # ys @ zs)"
      unfolding e using mv(1) by (simp add: bucket_of_def)
    moreover have "rl.view_of (rl_heap ?s) (a # ys @ zs) = (k, the (map_of bs k)) # others k bs"
      using mv(2) o cont by (simp add: bucket_of_def)
    moreover have "dom (rl_heap ?s) = dom (rl_heap s)" unfolding h by simp
    ultimately show ?thesis using r e(3) by (auto simp: rl_rel_def rl_rep_def)
  qed
qed

lemma heap_upd_fresh: "heap_upd (h(a \<mapsto> e)) a f = h(a \<mapsto> f e)"
  by (simp add: fun_eq_iff)

lemma new_bucket_rel:
  assumes "rl_rel s bs" and "Mapping.lookup (rl_entries s) k = None"
  shows "fst (new_bucket now k s) = fst (spec_new s now k bs)"
    and "rl_rel (snd (new_bucket now k s)) (snd (spec_new s now k bs))"
    and "same_limits (snd (new_bucket now k s)) s"
proof -
  let ?full = "int (length bs) \<ge> rl_maxBuckets s"
  define s1 where "s1 = (if ?full then evict_least_recently_used s else s)"
  define bs1 where "bs1 = (if ?full then butlast bs else bs)"
  have rel1: "rl_rel s1 bs1" and lim1: "same_limits s1 s"
    using evict_rel [OF assms(1)] assms(1) by (simp_all add: s1_def bs1_def)
  have "map_of bs k = None" using assms by (simp add: rel_lookup_None)
  then have none: "k \<notin> fst ` set bs1"
    by (auto simp: map_of_eq_None_iff bs1_def dest: in_set_butlastD)
  let ?a = "rl_alloc s1"
  let ?n = "\<lparr>re_key = k, re_hits = 1, re_resetAt = now + rl_window s1, re_prev = None, re_next = rl_most s1\<rparr>"
  let ?t = "snd (new_bucket now k s)"
  have full: "int (Mapping.size (rl_entries s)) \<ge> rl_maxBuckets s \<longleftrightarrow> ?full"
    by (simp add: limits_size [OF assms(1)])
  have h: "rl_heap ?t = rl.set_prev_of (rl_most s1) (Some ?a) ((rl_heap s1)(?a \<mapsto> ?n))"
    and e: "rl_entries ?t = Mapping.update (fst (bucket_of ?n)) ?a (rl_entries s1)" "rl_most ?t = Some ?a"
      "rl_least ?t = (if rl_most s1 = None then Some ?a else rl_least s1)" "rl_alloc ?t = ?a + 1"
    and f: "fst (new_bucket now k s) = (True, max 0 (rl_max s1 - 1), now + rl_window s1)"
    and l: "same_limits ?t s1"
    by (simp_all add: new_bucket_def full s1_def [symmetric] Let_def add_most_recent_def write_prev_eq
        bucket_of_def same_limits_def heap_upd_fresh)
  show "same_limits ?t s" by (rule same_limits_trans [OF l lim1])
  show "fst (new_bucket now k s) = fst (spec_new s now k bs)"
    using lim1 by (simp add: f spec_new_def same_limits_def)
  from rel1 obtain xs where r: "rl_rep s1 xs bs1" by (auto simp: rl_rel_def)
  then have ix: "rl.index_ok (rl_heap s1) (rl_entries s1) (rl_most s1) (rl_least s1) xs"
    and v: "bs1 = rl.view_of (rl_heap s1) xs" and b: "\<forall>a \<in> dom (rl_heap s1). a < ?a"
    by (auto simp: rl_rep_def)
  have "?a \<notin> set xs"
  proof
    assume "?a \<in> set xs"
    with rl.index_node [OF ix] b show False by (metis domI less_irrefl)
  qed
  from rl.index_push [OF ix this, of ?n]
  have "rl.index_ok (rl_heap ?t) (rl_entries ?t) (rl_most ?t) (rl_least ?t) (?a # xs)"
    and "rl.view_of (rl_heap ?t) (?a # xs) = bucket_of ?n # bs1"
    unfolding h e v using none v by (simp_all add: bucket_of_def)
  moreover have "\<forall>x \<in> dom (rl_heap ?t). x < rl_alloc ?t"
    unfolding h e rl.dom_set_prev_of using b by (auto simp: less_Suc_eq)
  moreover have "snd (spec_new s now k bs) = bucket_of ?n # bs1"
    using lim1 by (simp add: spec_new_def bs1_def bucket_of_def same_limits_def)
  ultimately show "rl_rel ?t (snd (spec_new s now k bs))"
    unfolding rl_rel_def rl_rep_def by metis
qed

lemma count_hit_rel:
  assumes "rl_rel s ((k, h, r) # bs)" and "Mapping.lookup (rl_entries s) k = Some a"
  defines "t \<equiv> s\<lparr>rl_heap := heap_upd (rl_heap s) a (\<lambda>e. e\<lparr>re_hits := re_hits e + 1\<rparr>)\<rparr>"
  shows "rl_rel t ((k, h + 1, r) # bs)"
proof -
  from limits_hit [OF assms(1,2)] obtain ys zs where rr: "rl_rep s (ys @ a # zs) ((k, h, r) # bs)"
    and k: "rl.keyed (rl_heap s) a = k" .
  have ix: "rl.index_ok (rl_heap s) (rl_entries s) (rl_most s) (rl_least s) (ys @ a # zs)"
    using rr by (simp add: rl_rep_def)
  note dis = rl.index_distinct [OF ix]
  have ys: "ys = []"
  proof (cases ys)
    case (Cons y ys')
    with rr have "(k, h, r) = bucket_of (the (rl_heap s y))" by (auto simp: rl_rep_def rl.view_of_def)
    then have "rl.keyed (rl_heap s) y = k" unfolding rl.keyed_def by (metis fst_conv)
    with rl.index_inj [OF ix, of y a] k Cons dis show ?thesis by auto
  qed
  obtain n where n: "rl_heap s a = Some n" using rl.index_node [OF ix, of a] by auto
  have ix': "rl.index_ok (rl_heap t) (rl_entries t) (rl_most t) (rl_least t) (a # zs)"
    using rl.index_content_upd [OF ix, of "\<lambda>e. e\<lparr>re_hits := re_hits e + 1\<rparr>" a]
    by (simp add: t_def ys bucket_of_def)
  have bn: "bucket_of n = (k, h, r)" and rest: "bs = rl.view_of (rl_heap s) zs"
    using rr n ys by (auto simp: rl_rep_def rl.view_of_def)
  have "rl.view_of (rl_heap t) zs = rl.view_of (rl_heap s) zs"
    using dis by (intro rl.view_cong) (auto simp: t_def)
  then have "rl.view_of (rl_heap t) (a # zs) = (k, h + 1, r) # bs"
    using bn rest n by (simp add: rl.view_of_def t_def bucket_of_def)
  moreover have "\<forall>x \<in> dom (rl_heap t). x < rl_alloc t"
  proof -
    have "dom (rl_heap t) = dom (rl_heap s)" by (simp add: t_def)
    then show ?thesis using rr by (simp add: rl_rep_def t_def)
  qed
  ultimately show ?thesis using ix' unfolding rl_rel_def rl_rep_def by metis
qed

lemma others_same: "map_of bs k = None \<Longrightarrow> others k bs = bs"
  by (auto simp: others_def map_of_eq_None_iff intro!: filter_True)

lemma map_of_others [simp]: "map_of (others k bs) k' = (if k' = k then None else map_of bs k')"
  by (induction bs) (auto simp: others_def)

lemma expire_key_rel:
  assumes "rl_rel s bs"
  shows "rl_rel (expire_key now k s) (filter (\<lambda>b. fst b = k \<longrightarrow> active now b) bs)
    \<and> same_limits (expire_key now k s) s"
proof (cases "Mapping.lookup (rl_entries s) k")
  case None
  then have "map_of bs k = None" using rel_lookup_None [OF assms] by simp
  then have "filter (\<lambda>b. fst b = k \<longrightarrow> active now b) bs = bs"
    by (auto simp: map_of_eq_None_iff intro!: filter_True)
  with None assms show ?thesis by (simp add: expire_key_def)
next
  case (Some a)
  from limits_hit [OF assms Some] have m: "map_of bs k = Some (re_hits (re_at s a), re_resetAt (re_at s a))" .
  have only: "b \<in> set bs \<Longrightarrow> fst b = k \<Longrightarrow> b = (k, re_hits (re_at s a), re_resetAt (re_at s a))" for b
    using map_of_SomeD [OF m] rel_distinct [OF assms] by (cases b) (auto dest: eq_key_imp_eq_value)
  show ?thesis
  proof (cases "now < re_resetAt (re_at s a)")
    case True
    then have "filter (\<lambda>b. fst b = k \<longrightarrow> active now b) bs = bs"
      using only by (intro filter_True) (auto simp: active_def)
    with True Some assms show ?thesis by (simp add: expire_key_def)
  next
    case False
    then have "filter (\<lambda>b. fst b = k \<longrightarrow> active now b) bs = others k bs"
      unfolding others_def using only by (intro filter_cong) (auto simp: active_def)
    with False Some remove_entry_rel [OF assms Some] remove_entry_limits show ?thesis
      by (simp add: expire_key_def)
  qed
qed

lemma expire_fold_rel:
  "rl_rel s bs \<Longrightarrow> rl_rel (fold (expire_key now) ks s) (filter (\<lambda>b. fst b \<in> set ks \<longrightarrow> active now b) bs)
    \<and> same_limits (fold (expire_key now) ks s) s"
proof (induction ks arbitrary: s bs)
  case (Cons k ks)
  from expire_key_rel [OF Cons.prems, of now k]
  have "rl_rel (expire_key now k s) (filter (\<lambda>b. fst b = k \<longrightarrow> active now b) bs)"
    and l: "same_limits (expire_key now k s) s" by auto
  from Cons.IH [OF this(1)] l show ?case
    by (auto simp: conj_commute elim: same_limits_trans intro: same_limits_trans)
qed simp

definition clean_buckets :: "instant \<Rightarrow> rl_store \<Rightarrow> bucket list \<Rightarrow> bucket list" where
  "clean_buckets now s bs = (if \<not> now < rl_nextCleanupAt s then filter (active now) bs else bs)"

lemma cleanup_rel:
  assumes "rl_rel s bs" and "go_range ord"
  shows "rl_rel (cleanup ord now s) (clean_buckets now s bs)"
    and "same_limits (cleanup ord now s)
      (s\<lparr>rl_nextCleanupAt := if \<not> now < rl_nextCleanupAt s then now + rl_cleanupEvery s else rl_nextCleanupAt s\<rparr>)"
proof -
  let ?ks = "ord (Mapping.keys (rl_entries s))"
  have "set ?ks = fst ` set bs" using go_rangeD [OF assms(2), of "fst ` set bs"] by (simp add: rel_keys [OF assms(1)])
  then have "filter (\<lambda>b. fst b \<in> set ?ks \<longrightarrow> active now b) bs = filter (active now) bs"
    by (intro filter_cong) auto
  with expire_fold_rel [OF assms(1), of now ?ks]
  have x: "rl_rel (remove_expired ord now s) (filter (active now) bs)"
    and l: "same_limits (remove_expired ord now s) s"
    by (simp_all add: remove_expired_def)
  have frame: "rl_rel (t\<lparr>rl_nextCleanupAt := u\<rparr>) cs = rl_rel t cs" for t u cs
    by (simp add: rl_rel_def rl_rep_def)
  from x assms(1) show "rl_rel (cleanup ord now s) (clean_buckets now s bs)"
    by (simp add: cleanup_def clean_buckets_def frame)
  from l show "same_limits (cleanup ord now s)
      (s\<lparr>rl_nextCleanupAt := if \<not> now < rl_nextCleanupAt s then now + rl_cleanupEvery s else rl_nextCleanupAt s\<rparr>)"
    by (simp add: cleanup_def same_limits_def)
qed

definition spec_of :: "rl_store \<Rightarrow> bucket list \<Rightarrow> rl_spec" where
  "spec_of s bs = \<lparr>sp_buckets = bs, sp_nextCleanupAt = rl_nextCleanupAt s\<rparr>"

definition limits_but_cleanup :: "rl_store \<Rightarrow> rl_store \<Rightarrow> bool" where
  "limits_but_cleanup s t \<longleftrightarrow> rl_max s = rl_max t \<and> rl_window s = rl_window t
     \<and> rl_maxBuckets s = rl_maxBuckets t \<and> rl_cleanupEvery s = rl_cleanupEvery t"

lemma spec_new_limits: "limits_but_cleanup s t \<Longrightarrow> spec_new s = spec_new t"
  by (simp add: fun_eq_iff spec_new_def limits_but_cleanup_def)

lemma take_rel:
  fixes k now
  assumes rel: "rl_rel s bs" and ord: "go_range ord"
  defines "out \<equiv> limiter_take ord now k s" and "spec \<equiv> spec_take s now k (spec_of s bs)"
  shows "fst out = fst spec \<and> rl_rel (snd out) (sp_buckets (snd spec))
    \<and> rl_nextCleanupAt (snd out) = sp_nextCleanupAt (snd spec) \<and> limits_but_cleanup (snd out) s"
proof -
  let ?c = "cleanup ord now s" and ?bs = "clean_buckets now s bs"
  note c = cleanup_rel [OF rel ord, of now]
  have lc: "limits_but_cleanup ?c s"
    and nx: "rl_nextCleanupAt ?c = (if \<not> now < rl_nextCleanupAt s then now + rl_cleanupEvery s else rl_nextCleanupAt s)"
    using c(2) by (auto simp: same_limits_def limits_but_cleanup_def)
  have step: "limits_but_cleanup t s" if "same_limits t ?c" for t
    using that lc by (simp add: same_limits_def limits_but_cleanup_def)
  have nxt: "rl_nextCleanupAt t = rl_nextCleanupAt ?c" if "same_limits t ?c" for t
    using that by (simp add: same_limits_def)
  have spec: "spec = (let (ans, bs') = (case map_of ?bs k of
             None \<Rightarrow> spec_new s now k ?bs
           | Some (h, r) \<Rightarrow>
               (if \<not> now < r then spec_new s now k (others k ?bs)
                else if h \<ge> rl_max s then ((False, 0, r), (k, h, r) # others k ?bs)
                else ((True, max 0 (rl_max s - (h + 1)), r), (k, h + 1, r) # others k ?bs)))
      in (ans, \<lparr>sp_buckets = bs', sp_nextCleanupAt = rl_nextCleanupAt ?c\<rparr>))"
  proof -
    have "?bs = (if \<not> now < rl_nextCleanupAt s then filter (active now) bs else bs)"
      by (simp only: clean_buckets_def)
    then show ?thesis
      unfolding spec_def spec_take_def spec_of_def nx Let_def rl_spec.select_convs by (simp only:)
  qed
  show ?thesis
  proof (cases "Mapping.lookup (rl_entries ?c) k")
    case None
    then have "map_of ?bs k = None" using rel_lookup_None [OF c(1)] by simp
    note m = this
    note nb = new_bucket_rel [OF c(1) None, of now]
    have out: "out = new_bucket now k ?c"
      unfolding out_def limiter_take_def Let_def None by (simp only: option.case)
    have sp: "spec = (fst (spec_new ?c now k ?bs),
        \<lparr>sp_buckets = snd (spec_new ?c now k ?bs), sp_nextCleanupAt = rl_nextCleanupAt ?c\<rparr>)"
      unfolding spec m spec_new_limits [OF lc] by (simp add: split_beta)
    show ?thesis using nb(1,2) step [OF nb(3)] nxt [OF nb(3)] by (simp add: out sp)
  next
    case (Some a)
    let ?h = "re_hits (re_at ?c a)" and ?r = "re_resetAt (re_at ?c a)"
    from limits_hit [OF c(1) Some] have m: "map_of ?bs k = Some (?h, ?r)" .
    show ?thesis
    proof (cases "now < ?r")
      case False
      let ?d = "remove_entry k a ?c"
      have gone: "Mapping.lookup (rl_entries ?d) k = None" by (simp add: remove_entry_def Let_def)
      have ld: "limits_but_cleanup ?d s" by (rule step [OF remove_entry_limits])
      note nb = new_bucket_rel [OF remove_entry_rel [OF c(1) Some] gone, of now]
      note lim = same_limits_trans [OF nb(3) remove_entry_limits]
      have out: "out = new_bucket now k ?d"
        unfolding out_def limiter_take_def Let_def Some using False by simp
      have sp: "spec = (fst (spec_new ?d now k (others k ?bs)),
          \<lparr>sp_buckets = snd (spec_new ?d now k (others k ?bs)), sp_nextCleanupAt = rl_nextCleanupAt ?c\<rparr>)"
        unfolding spec m spec_new_limits [OF ld] using False by (simp add: split_beta)
      show ?thesis using nb(1,2) step [OF lim] nxt [OF lim] by (simp add: out sp)
    next
      case True
      let ?d = "move_to_most_recent a ?c"
      note mv = move_rel [OF c(1) Some]
      have mv1: "rl_rel ?d ((k, ?h, ?r) # others k ?bs)" using mv(1) m by simp
      have look: "Mapping.lookup (rl_entries ?d) k = Some a" using mv(3) Some by simp
      from limits_hit [OF mv1 look] have "map_of ((k, ?h, ?r) # others k ?bs) k =
          Some (re_hits (re_at ?d a), re_resetAt (re_at ?d a))" .
      then have at: "re_hits (re_at ?d a) = ?h" "re_resetAt (re_at ?d a) = ?r" by simp_all
      have mx: "rl_max ?d = rl_max s" using step [OF mv(2)] by (simp add: limits_but_cleanup_def)
      have frame: "limits_but_cleanup (?d\<lparr>rl_heap := hp\<rparr>) s" for hp
        using step [OF mv(2)] by (simp add: limits_but_cleanup_def)
      let ?e = "?d\<lparr>rl_heap := heap_upd (rl_heap ?d) a (\<lambda>e. e\<lparr>re_hits := re_hits e + 1\<rparr>)\<rparr>"
      have out: "out = (if ?h \<ge> rl_max s then ((False, 0, ?r), ?d)
          else ((True, max 0 (rl_max s - (?h + 1)), ?r), ?e))"
        unfolding out_def limiter_take_def Let_def Some using True by (simp add: at mx)
      have sp: "spec = (if ?h \<ge> rl_max s
          then ((False, 0, ?r), \<lparr>sp_buckets = (k, ?h, ?r) # others k ?bs, sp_nextCleanupAt = rl_nextCleanupAt ?c\<rparr>)
          else ((True, max 0 (rl_max s - (?h + 1)), ?r),
                \<lparr>sp_buckets = (k, ?h + 1, ?r) # others k ?bs, sp_nextCleanupAt = rl_nextCleanupAt ?c\<rparr>))"
        unfolding spec m using True by simp
      have "rl_nextCleanupAt ?e = rl_nextCleanupAt ?d" by simp
      with count_hit_rel [OF mv1 look] mv1 frame step [OF mv(2)] nxt [OF mv(2)] show ?thesis
        by (simp add: out sp)
    qed
  qed
qed

lemma reset_rel:
  assumes "rl_rel s bs"
  shows "rl_rel (limiter_reset k s) (others k bs) \<and> same_limits (limiter_reset k s) s"
  using assms rel_lookup_None [OF assms, of k] remove_entry_rel [OF assms, of k] remove_entry_limits
  by (auto simp: limiter_reset_def others_same split: option.split)

subsection \<open>The quota of one key\<close>

definition buckets_ok :: "int \<Rightarrow> int \<Rightarrow> bucket list \<Rightarrow> bool" where
  "buckets_ok mx cap bs \<longleftrightarrow>
     distinct (map fst bs) \<and> int (length bs) \<le> cap \<and> (\<forall>b \<in> set bs. 1 \<le> fst (snd b) \<and> fst (snd b) \<le> mx)"

definition limiter_ok :: "(string set \<Rightarrow> string list) \<Rightarrow> int \<Rightarrow> rl_store \<Rightarrow> bool" where
  "limiter_ok ord mx s \<longleftrightarrow>
     go_range ord \<and> rl_max s = mx \<and> 1 \<le> mx \<and> 0 < rl_window s \<and> 1 \<le> rl_maxBuckets s
     \<and> (\<exists>bs. rl_rel s bs \<and> buckets_ok mx (rl_maxBuckets s) bs)"

definition used :: "instant \<Rightarrow> rl_store \<Rightarrow> string \<Rightarrow> int" where
  "used now s k =
     (case Mapping.lookup (rl_entries s) k of None \<Rightarrow> 0
      | Some a \<Rightarrow> if now < re_resetAt (re_at s a) then re_hits (re_at s a) else 0)"

definition hits_in :: "instant \<Rightarrow> bucket list \<Rightarrow> string \<Rightarrow> int" where
  "hits_in now bs k = (case map_of bs k of None \<Rightarrow> 0 | Some (h, r) \<Rightarrow> if now < r then h else 0)"

lemma used_rel:
  assumes "rl_rel s bs"
  shows "used now s k = hits_in now bs k"
proof (cases "Mapping.lookup (rl_entries s) k")
  case None
  then show ?thesis using rel_lookup_None [OF assms, of k] by (simp add: used_def hits_in_def)
next
  case (Some a)
  from limits_hit [OF assms this] have "map_of bs k = Some (re_hits (re_at s a), re_resetAt (re_at s a))" .
  with Some show ?thesis by (simp add: used_def hits_in_def)
qed

lemma others_ok: "buckets_ok mx cap bs \<Longrightarrow> buckets_ok mx cap (others k bs)"
  by (auto simp: buckets_ok_def others_def distinct_map_filter intro: le_trans
      dest: order_trans [OF of_nat_mono [OF length_filter_le]])

lemma others_notin [simp]: "k \<notin> fst ` set (others k bs)"
  by (auto simp: others_def)

lemma filter_ok: "buckets_ok mx cap bs \<Longrightarrow> buckets_ok mx cap (filter P bs)"
  by (auto simp: buckets_ok_def distinct_map_filter
      dest: order_trans [OF of_nat_mono [OF length_filter_le]])

lemma hit_ok:
  assumes "buckets_ok mx cap bs" "map_of bs k = Some p" "1 \<le> fst q" "fst q \<le> mx"
  shows "buckets_ok mx cap ((k, q) # others k bs)"
proof -
  have "length (others k bs) < length bs"
    using map_of_SomeD [OF assms(2)] unfolding others_def by (intro length_filter_less) auto
  with others_ok [OF assms(1), of k] assms(1,3,4) show ?thesis by (auto simp: buckets_ok_def)
qed

lemma new_ok:
  assumes "buckets_ok (rl_max s) (rl_maxBuckets s) bs" "k \<notin> fst ` set bs" "1 \<le> rl_max s" "1 \<le> rl_maxBuckets s"
  shows "buckets_ok (rl_max s) (rl_maxBuckets s) (snd (spec_new s now k bs))"
  using assms by (auto simp: spec_new_def Let_def buckets_ok_def map_butlast distinct_butlast
      dest: in_set_butlastD)

lemma map_of_filter_distinct:
  "distinct (map fst bs) \<Longrightarrow>
     map_of (filter P bs) k = (case map_of bs k of None \<Rightarrow> None | Some v \<Rightarrow> if P (k, v) then Some v else None)"
proof (induction bs)
  case (Cons b bs)
  have "map_of (filter P bs) (fst b) = None"
    using Cons.prems by (auto simp: map_of_eq_None_iff)
  with Cons show ?case by (cases b) auto
qed simp

lemma clean_hits:
  assumes "distinct (map fst bs)"
  shows "hits_in now (clean_buckets now s bs) k = hits_in now bs k"
proof -
  have "map_of (filter (active now) bs) k =
      (case map_of bs k of Some (h, r) \<Rightarrow> if now < r then Some (h, r) else None | None \<Rightarrow> None)"
    by (auto simp: map_of_filter_distinct [OF assms] active_def split: option.split)
  then show ?thesis by (auto simp: clean_buckets_def hits_in_def split: option.split)
qed

text \<open>One \<open>Take\<close> on the specification: allowed exactly below the limit, the count goes up by one to
  the limit at most, and while a window is open its end does not move.\<close>

lemma spec_take_quota:
  fixes k now
  assumes ok: "buckets_ok (rl_max s) (rl_maxBuckets s) bs" and pos: "1 \<le> rl_max s" "0 < rl_window s" "1 \<le> rl_maxBuckets s"
  defines "out \<equiv> spec_take s now k (spec_of s bs)"
  shows "fst (fst out) \<longleftrightarrow> hits_in now bs k < rl_max s"
    and "fst (snd (fst out)) = (if hits_in now bs k < rl_max s then rl_max s - (hits_in now bs k + 1) else 0)"
    and "\<exists>r. map_of (sp_buckets (snd out)) k = Some (min (rl_max s) (hits_in now bs k + 1), r)
       \<and> snd (snd (fst out)) = r \<and> now < r
       \<and> r = (case map_of bs k of Some (h, r0) \<Rightarrow> if now < r0 then r0 else now + rl_window s
              | None \<Rightarrow> now + rl_window s)"
    and "buckets_ok (rl_max s) (rl_maxBuckets s) (sp_buckets (snd out))"
proof -
  let ?bs = "clean_buckets now s bs"
  have d: "distinct (map fst bs)" using ok by (simp add: buckets_ok_def)
  have okc: "buckets_ok (rl_max s) (rl_maxBuckets s) ?bs" using ok by (simp add: clean_buckets_def filter_ok)
  have hc: "hits_in now ?bs k = hits_in now bs k" by (rule clean_hits [OF d])
  have spec: "out = (let (ans, bs') = (case map_of ?bs k of
             None \<Rightarrow> spec_new s now k ?bs
           | Some (h, r) \<Rightarrow>
               (if \<not> now < r then spec_new s now k (others k ?bs)
                else if h \<ge> rl_max s then ((False, 0, r), (k, h, r) # others k ?bs)
                else ((True, max 0 (rl_max s - (h + 1)), r), (k, h + 1, r) # others k ?bs)))
      in (ans, \<lparr>sp_buckets = bs', sp_nextCleanupAt = (if \<not> now < rl_nextCleanupAt s
           then now + rl_cleanupEvery s else rl_nextCleanupAt s)\<rparr>))"
  proof -
    have "?bs = (if \<not> now < rl_nextCleanupAt s then filter (active now) bs else bs)"
      by (simp only: clean_buckets_def)
    then show ?thesis
      unfolding out_def spec_take_def spec_of_def Let_def rl_spec.select_convs by (simp only:)
  qed
  have nobs: "map_of bs k = Some (h, r) \<Longrightarrow> now < r \<Longrightarrow> map_of ?bs k = Some (h, r)" for h r
  proof -
    assume m: "map_of bs k = Some (h, r)" "now < r"
    then have "(k, h, r) \<in> set ?bs" using map_of_SomeD [OF m(1)] by (auto simp: clean_buckets_def active_def)
    then show "map_of ?bs k = Some (h, r)" using okc by (auto simp: buckets_ok_def intro: map_of_is_SomeI)
  qed
  have subset: "map_of ?bs k = Some p \<Longrightarrow> map_of bs k = Some p" for p
    using d by (auto simp: clean_buckets_def split: if_splits dest!: map_of_SomeD intro: map_of_is_SomeI)
  note goal = hc [unfolded hits_in_def]
  have all: "(fst (fst out) \<longleftrightarrow> hits_in now bs k < rl_max s)
    \<and> fst (snd (fst out)) = (if hits_in now bs k < rl_max s then rl_max s - (hits_in now bs k + 1) else 0)
    \<and> (\<exists>r. map_of (sp_buckets (snd out)) k = Some (min (rl_max s) (hits_in now bs k + 1), r)
       \<and> snd (snd (fst out)) = r \<and> now < r
       \<and> r = (case map_of bs k of Some (h, r0) \<Rightarrow> if now < r0 then r0 else now + rl_window s
              | None \<Rightarrow> now + rl_window s))
    \<and> buckets_ok (rl_max s) (rl_maxBuckets s) (sp_buckets (snd out))"
  proof (cases "map_of ?bs k")
    case None
    then have h0: "hits_in now bs k = 0" using hc by (simp add: hits_in_def)
    have notin: "k \<notin> fst ` set ?bs" using None by (simp add: map_of_eq_None_iff)
    have r0: "(case map_of bs k of Some (h, r0) \<Rightarrow> if now < r0 then r0 else now + rl_window s
        | None \<Rightarrow> now + rl_window s) = now + rl_window s"
      using nobs None by (fastforce split: option.split)
    show ?thesis
      using None h0 r0 pos new_ok [OF okc notin pos(1,3), of now]
      by (simp add: spec spec_new_def Let_def split_beta)
  next
    case (Some p)
    obtain h r where p: "p = (h, r)" by fastforce
    have h: "1 \<le> h" "h \<le> rl_max s" using map_of_SomeD [OF Some] okc p by (auto simp: buckets_ok_def)
    have mb: "map_of bs k = Some (h, r)" using subset [OF Some] p by simp
    show ?thesis
    proof (cases "now < r")
      case True
      then have hh: "hits_in now bs k = h" using mb by (simp add: hits_in_def)
      have "buckets_ok (rl_max s) (rl_maxBuckets s) ((k, h', r) # others k ?bs)" if "1 \<le> h'" "h' \<le> rl_max s" for h'
        using hit_ok [OF okc Some, of "(h', r)"] that by simp
      then show ?thesis
        using Some p True hh h mb by (auto simp: spec min_def)
    next
      case False
      then have hh: "hits_in now bs k = 0" using mb by (simp add: hits_in_def)
      show ?thesis
        using Some p False hh mb pos new_ok [OF others_ok [OF okc, of k] others_notin pos(1,3), of now]
        by (simp add: spec spec_new_def Let_def split_beta)
    qed
  qed
  then show "fst (fst out) \<longleftrightarrow> hits_in now bs k < rl_max s"
    and "fst (snd (fst out)) = (if hits_in now bs k < rl_max s then rl_max s - (hits_in now bs k + 1) else 0)"
    and "\<exists>r. map_of (sp_buckets (snd out)) k = Some (min (rl_max s) (hits_in now bs k + 1), r)
       \<and> snd (snd (fst out)) = r \<and> now < r
       \<and> r = (case map_of bs k of Some (h, r0) \<Rightarrow> if now < r0 then r0 else now + rl_window s
              | None \<Rightarrow> now + rl_window s)"
    and "buckets_ok (rl_max s) (rl_maxBuckets s) (sp_buckets (snd out))"
    by blast+
qed

subsection \<open>The limiter contract and the middleware\<close>

lemma limiter_ok_rel:
  assumes "limiter_ok ord mx s"
  obtains bs where "rl_rel s bs" "buckets_ok (rl_max s) (rl_maxBuckets s) bs" "go_range ord" "rl_max s = mx"
    "1 \<le> rl_max s" "0 < rl_window s" "1 \<le> rl_maxBuckets s"
  using assms by (auto simp: limiter_ok_def)

lemma limiter_take_quota:
  fixes k now
  assumes "limiter_ok ord mx s"
  defines "out \<equiv> limiter_take ord now k s"
  shows "limiter_ok ord mx (snd out)"
    and "fst (fst out) \<longleftrightarrow> used now s k < mx"
    and "fst (snd (fst out)) = (if used now s k < mx then mx - (used now s k + 1) else 0)"
    and "now < snd (snd (fst out))"
    and "t < snd (snd (fst out)) \<Longrightarrow> used t (snd out) k = min mx (used now s k + 1)"
    and "rl_window (snd out) = rl_window s"
    and "used now s k = 0 \<Longrightarrow> snd (snd (fst out)) = now + rl_window s"
    and "t < snd (snd (fst out)) \<Longrightarrow> snd (snd (fst (limiter_take ord t k (snd out)))) = snd (snd (fst out))"
    and "\<not> t < snd (snd (fst out)) \<Longrightarrow> used t (snd out) k = 0"
proof -
  from assms(1) obtain bs where r: "rl_rel s bs" and ok: "buckets_ok (rl_max s) (rl_maxBuckets s) bs"
    and ord: "go_range ord" and mx: "rl_max s = mx" and pos: "1 \<le> rl_max s" "0 < rl_window s" "1 \<le> rl_maxBuckets s"
    by (rule limiter_ok_rel)
  note u = used_rel [OF r, of now k]
  note q = spec_take_quota [OF ok pos, of now k]
  let ?sp = "spec_take s now k (spec_of s bs)"
  from take_rel [OF r ord, of now k] have eq: "fst out = fst ?sp"
    and rel: "rl_rel (snd out) (sp_buckets (snd ?sp))" and lim: "limits_but_cleanup (snd out) s"
    by (simp_all add: out_def)
  show "fst (fst out) \<longleftrightarrow> used now s k < mx"
    "fst (snd (fst out)) = (if used now s k < mx then mx - (used now s k + 1) else 0)"
    using q(1,2) by (simp_all add: eq u mx)
  from q(3) obtain e where e: "map_of (sp_buckets (snd ?sp)) k = Some (min mx (used now s k + 1), e)"
    "snd (snd (fst ?sp)) = e" "now < e" and ee: "e = (case map_of bs k of Some (h, r0) \<Rightarrow> if now < r0 then r0 else now + rl_window s
              | None \<Rightarrow> now + rl_window s)"
    unfolding u mx by blast
  show "now < snd (snd (fst out))" using e eq by simp
  show "used t (snd out) k = min mx (used now s k + 1)" if "t < snd (snd (fst out))"
    using that e eq by (simp add: used_rel [OF rel] hits_in_def)
  show "used t (snd out) k = 0" if "\<not> t < snd (snd (fst out))"
    using that e eq by (simp add: used_rel [OF rel] hits_in_def)
  show "rl_window (snd out) = rl_window s" using lim by (simp add: limits_but_cleanup_def)
  show "snd (snd (fst out)) = now + rl_window s" if "used now s k = 0"
  proof -
    have "h \<noteq> 0" if "map_of bs k = Some (h, r0)" for h r0
      using map_of_SomeD [OF that] ok by (auto simp: buckets_ok_def)
    with that have "e = now + rl_window s"
      by (auto simp: u hits_in_def ee split: option.splits if_splits)
    with e eq show ?thesis by simp
  qed
  have okb: "buckets_ok (rl_max (snd out)) (rl_maxBuckets (snd out)) (sp_buckets (snd ?sp))"
    using q(4) lim by (simp add: limits_but_cleanup_def)
  then show ok': "limiter_ok ord mx (snd out)"
    using ord mx pos rel lim by (auto simp: limiter_ok_def limits_but_cleanup_def)
  show "snd (snd (fst (limiter_take ord t k (snd out)))) = snd (snd (fst out))" if "t < snd (snd (fst out))"
  proof -
    have pos': "1 \<le> rl_max (snd out)" "0 < rl_window (snd out)" "1 \<le> rl_maxBuckets (snd out)"
      using pos lim by (simp_all add: limits_but_cleanup_def)
    from spec_take_quota(3) [OF okb pos', of t k] e that eq
    have "snd (snd (fst (spec_take (snd out) t k (spec_of (snd out) (sp_buckets (snd ?sp)))))) = e"
      by auto
    with take_rel [OF rel ord, of t k] e eq show ?thesis by simp
  qed
qed

locale window_limiter =
  fixes ok :: "'s \<Rightarrow> bool"
    and count :: "instant \<Rightarrow> 's \<Rightarrow> string \<Rightarrow> int"
    and limit :: int
    and tk :: "instant \<Rightarrow> string \<Rightarrow> 's \<Rightarrow> (bool \<times> int \<times> instant) \<times> 's"
  assumes tk_ok: "ok s \<Longrightarrow> ok (snd (tk now k s))"
    and tk_allowed: "ok s \<Longrightarrow> fst (fst (tk now k s)) \<longleftrightarrow> count now s k < limit"
    and tk_open: "ok s \<Longrightarrow> now < snd (snd (fst (tk now k s)))"
    and tk_count: "ok s \<Longrightarrow> t < snd (snd (fst (tk now k s))) \<Longrightarrow>
      count t (snd (tk now k s)) k = min limit (count now s k + 1)"
    and tk_window: "ok s \<Longrightarrow> t < snd (snd (fst (tk now k s))) \<Longrightarrow>
      snd (snd (fst (tk t k (snd (tk now k s))))) = snd (snd (fst (tk now k s)))"
begin

text \<open>Requests for one key at the given times, in order: which of them run.\<close>

fun serve :: "string \<Rightarrow> instant list \<Rightarrow> 's \<Rightarrow> bool list" where
  "serve k [] s = []"
| "serve k (t # ts) s = fst (fst (tk t k s)) # serve k ts (snd (tk t k s))"

lemma serve_in_window:
  assumes "ok s" and "count now s k \<le> limit"
    and "\<forall>t \<in> set ts. t < snd (snd (fst (tk now k s)))"
  shows "serve k (now # ts) s = map (\<lambda>i. count now s k + int i < limit) [0..<Suc (length ts)]"
  using assms
proof (induction ts arbitrary: s now)
  case Nil
  then show ?case by (simp add: tk_allowed)
next
  case (Cons t ts)
  let ?s = "snd (tk now k s)" and ?e = "snd (snd (fst (tk now k s)))"
  have t: "t < ?e" using Cons.prems(3) by simp
  have c: "count t ?s k = min limit (count now s k + 1)" by (rule tk_count [OF Cons.prems(1) t])
  have w: "snd (snd (fst (tk t k ?s))) = ?e" by (rule tk_window [OF Cons.prems(1) t])
  have "serve k (t # ts) ?s = map (\<lambda>i. count t ?s k + int i < limit) [0..<Suc (length ts)]"
    using Cons.IH [OF tk_ok [OF Cons.prems(1)], of t] Cons.prems(3) c w by simp
  moreover have "(count t ?s k + int i < limit) = (count now s k + int (Suc i) < limit)" for i
    by (auto simp: c min_def)
  moreover have "[0..<Suc (length (t # ts))] = 0 # map Suc [0..<Suc (length ts)]"
    by (simp add: upt_conv_Cons map_Suc_upt del: upt_Suc)
  ultimately show ?case
    using tk_allowed [OF Cons.prems(1), of now k] by (simp add: comp_def del: upt_Suc)
qed

lemma guarded_request:
  assumes "ok s" and "\<not> (case rc_skip c of Some f \<Rightarrow> f r | None \<Rightarrow> False)"
  shows "RunNext \<in> set (fst (middleware c (tk now) r s)) \<longleftrightarrow> count now s (rc_key c r) < limit"
  using assms tk_allowed [OF assms(1), of now "rc_key c r"]
  by (auto simp: middleware_def split: prod.splits)

end

interpretation mem: window_limiter "limiter_ok ord mx" used mx "limiter_take ord" for ord mx
  by unfold_locales (simp_all add: limiter_take_quota)

subsection \<open>Properties\<close>

datatype rl_op = RTake instant string | RReset string

primrec rl_step :: "(string set \<Rightarrow> string list) \<Rightarrow> rl_op \<Rightarrow> rl_store \<Rightarrow> (bool \<times> int \<times> instant) option \<times> rl_store" where
  "rl_step ord (RTake now k) s = apfst Some (limiter_take ord now k s)"
| "rl_step ord (RReset k) s = (None, limiter_reset k s)"

primrec rl_run :: "(string set \<Rightarrow> string list) \<Rightarrow> rl_op list \<Rightarrow> rl_store \<Rightarrow> (bool \<times> int \<times> instant) option list \<times> rl_store" where
  "rl_run ord [] s = ([], s)"
| "rl_run ord (op # ops) s = (let (a, s1) = rl_step ord op s in apfst (Cons a) (rl_run ord ops s1))"

definition fresh_limiter :: "rl_store \<Rightarrow> bool" where
  "fresh_limiter s \<longleftrightarrow> rl_heap s = Map.empty \<and> rl_entries s = Mapping.empty \<and> rl_most s = None
     \<and> rl_least s = None \<and> 1 \<le> rl_max s \<and> 0 < rl_window s \<and> 1 \<le> rl_maxBuckets s"

lemma fresh_options: "fresh_limiter s \<Longrightarrow> fresh_limiter (fold apply_option opts s)"
  by (induction opts arbitrary: s) (auto simp: apply_option_def fresh_limiter_def split: rl_option.split)

lemma fresh_cleanup [simp]: "fresh_limiter (s\<lparr>rl_nextCleanupAt := t\<rparr>) = fresh_limiter s"
  by (simp add: fresh_limiter_def)

lemma new_limiter_ok:
  assumes "go_range ord"
  shows "limiter_ok ord (rl_max (new_limiter now mx w opts)) (new_limiter now mx w opts)"
proof -
  have "fresh_limiter (new_limiter now mx w opts)"
    unfolding new_limiter_def Let_def fresh_cleanup
    by (rule fresh_options)
      (simp add: fresh_limiter_def default_max_def default_window_def default_max_buckets_def minutes_def)
  then show ?thesis
    using assms by (auto simp: limiter_ok_def fresh_limiter_def rl_rel_def rl_rep_def rl.index_ok_def
        rl.dll_def rl.view_of_def buckets_ok_def intro!: exI [of _ "[]"])
qed

lemma rl_run_ok:
  "limiter_ok ord mx s \<Longrightarrow> limiter_ok ord mx (snd (rl_run ord ops s))"
proof (induction ops arbitrary: s)
  case (Cons op ops)
  have "limiter_ok ord mx (snd (rl_step ord op s))"
  proof (cases op)
    case (RTake now k)
    with limiter_take_quota(1) [OF Cons.prems] show ?thesis by simp
  next
    case (RReset k)
    from Cons.prems obtain bs where "rl_rel s bs" "buckets_ok (rl_max s) (rl_maxBuckets s) bs"
      by (rule limiter_ok_rel)
    with reset_rel [of s bs k] others_ok Cons.prems RReset show ?thesis
      by (auto simp: limiter_ok_def same_limits_def)
  qed
  with Cons.IH show ?case by (simp add: split_beta Let_def)
qed simp

text \<open>However Take and Reset calls follow each other, the limiter keeps at most its configured
  number of buckets, each key's count is at most the configured maximum, and Take allows a request
  exactly when the key's count in the open window is below the maximum, telling what is left.\<close>

theorem limiter_stays_bounded:
  assumes "go_range ord" and "rl_run ord ops (new_limiter now0 mx w opts) = (answers, s)"
  shows "int (Mapping.size (rl_entries s)) \<le> rl_maxBuckets s
    \<and> (\<forall>now k. used now s k \<le> rl_max s
        \<and> (fst (fst (limiter_take ord now k s)) \<longleftrightarrow> used now s k < rl_max s)
        \<and> fst (snd (fst (limiter_take ord now k s))) = max 0 (rl_max s - (used now s k + 1)))"
proof -
  let ?n = "new_limiter now0 mx w opts"
  have ok: "limiter_ok ord (rl_max ?n) s"
    using rl_run_ok [OF new_limiter_ok [OF assms(1)], where ops = ops] assms(2) by (metis snd_conv)
  from ok obtain bs where r: "rl_rel s bs" "buckets_ok (rl_max s) (rl_maxBuckets s) bs"
    and m: "rl_max s = rl_max ?n" "1 \<le> rl_max s" by (rule limiter_ok_rel)
  have "used now s k \<le> rl_max s" for now k
    using r m(2) by (auto simp: used_rel [OF r(1)] hits_in_def buckets_ok_def split: option.split dest!: map_of_SomeD)
  with limiter_take_quota(2,3) [OF ok] r limits_size [OF r(1)] m show ?thesis
    by (auto simp: buckets_ok_def max_def)
qed

lemma sorted_ord: "go_range (sorted_list_of_set :: string set \<Rightarrow> string list)"
  by (rule go_range_sorted)

theorem limiter_stays_bounded_witness:
  "used 5 (snd (rl_run sorted_list_of_set [RTake 1 ''ip'', RTake 2 ''ip''] (new_limiter 0 3 10 []))) ''ip''
     \<le> rl_max (snd (rl_run sorted_list_of_set [RTake 1 ''ip'', RTake 2 ''ip''] (new_limiter 0 3 10 [])))"
  using limiter_stays_bounded [OF sorted_ord prod.collapse [symmetric]] by blast

text \<open>A key's bucket is safe from eviction while few enough other keys come in between: the buckets in front of it, the
  more recently used ones, are those of keys taken since, \<open>K\<close>.\<close>

definition held :: "string set \<Rightarrow> string \<Rightarrow> int \<Rightarrow> instant \<Rightarrow> bucket list \<Rightarrow> bool" where
  "held K k h e bs \<longleftrightarrow> (\<exists>ahead behind. bs = ahead @ (k, h, e) # behind \<and> fst ` set ahead \<subseteq> K)"

lemma held_map_of: "held K k h e bs \<Longrightarrow> k \<notin> K \<Longrightarrow> map_of bs k = Some (h, e)"
  unfolding held_def
proof (elim exE conjE)
  fix ahead behind assume bs: "bs = ahead @ (k, h, e) # behind" and "fst ` set ahead \<subseteq> K" "k \<notin> K"
  then have "map_of ahead k = None" by (auto simp: map_of_eq_None_iff)
  then show ?thesis by (simp add: bs map_add_def)
qed

lemma held_clean: "held K k h e bs \<Longrightarrow> t < e \<Longrightarrow> held K k h e (filter (active t) bs)"
  unfolding held_def
proof (elim exE conjE)
  fix ahead behind assume "bs = ahead @ (k, h, e) # behind" "fst ` set ahead \<subseteq> K" "t < e"
  then show "\<exists>ahead behind. filter (active t) bs = ahead @ (k, h, e) # behind \<and> fst ` set ahead \<subseteq> K"
    by (intro exI [of _ "filter (active t) ahead"] exI [of _ "filter (active t) behind"]) (auto simp: active_def)
qed

lemma held_others: "held K k h e bs \<Longrightarrow> j \<noteq> k \<Longrightarrow> held K k h e (others j bs)"
  unfolding held_def
proof (elim exE conjE)
  fix ahead behind assume "bs = ahead @ (k, h, e) # behind" "fst ` set ahead \<subseteq> K" "j \<noteq> k"
  then show "\<exists>ahead behind. others j bs = ahead @ (k, h, e) # behind \<and> fst ` set ahead \<subseteq> K"
    by (intro exI [of _ "others j ahead"] exI [of _ "others j behind"]) (auto simp: others_def)
qed

lemma held_behind: "held K k h e bs \<Longrightarrow> j \<in> K \<Longrightarrow> held K k h e ((j, x) # bs)"
  unfolding held_def
proof (elim exE conjE)
  fix ahead behind assume "bs = ahead @ (k, h, e) # behind" "fst ` set ahead \<subseteq> K" "j \<in> K"
  then show "\<exists>ahead behind. (j, x) # bs = ahead @ (k, h, e) # behind \<and> fst ` set ahead \<subseteq> K"
    by (intro exI [of _ "(j, x) # ahead"] exI [of _ behind]) auto
qed

text \<open>Eviction takes the last bucket; with fewer than \<open>cap\<close> other keys that is not ours.\<close>

lemma held_evicted:
  assumes "held K k h e bs" "j \<in> K" "j \<notin> fst ` set bs" "finite K" "int (card K) < cap" "distinct (map fst bs)"
    and "int (length bs) \<ge> cap"
  shows "held K k h e (butlast bs)"
proof -
  from assms(1) obtain ahead behind where bs: "bs = ahead @ (k, h, e) # behind" and sub: "fst ` set ahead \<subseteq> K" by (auto simp: held_def)
  have "behind \<noteq> []"
  proof
    assume "behind = []"
    then have len: "int (length ahead) + 1 \<ge> cap" using assms(7) bs by simp
    have "fst ` set ahead \<subseteq> K - {j}" using sub assms(3) bs by auto
    then have "card (fst ` set ahead) \<le> card (K - {j})" using assms(4) by (intro card_mono) auto
    also have "\<dots> = card K - 1" using assms(2,4) by simp
    finally have "card (fst ` set ahead) \<le> card K - 1" .
    moreover have "card (fst ` set ahead) = length ahead"
      using assms(6) bs by (metis distinct_append distinct_card length_map map_append set_map)
    moreover have "1 \<le> card K" using assms(2,4) by (metis card_0_eq empty_iff less_one not_le)
    ultimately show False using len assms(5) by linarith
  qed
  then have "butlast bs = ahead @ (k, h, e) # butlast behind" by (simp add: bs butlast_append)
  with sub show ?thesis by (auto simp: held_def)
qed

lemma held_new:
  assumes "held K k h e bs" "j \<in> K" "j \<notin> fst ` set bs" "finite K" "int (card K) < rl_maxBuckets s" "distinct (map fst bs)"
  shows "held K k h e (snd (spec_new s t j bs))"
  using held_evicted [OF assms(1-6)] assms(1,2) by (auto simp: spec_new_def Let_def intro: held_behind)

lemma held_take_other:
  assumes "held K k h e bs" "k \<notin> K" "j \<in> K" "t < e" "finite K" "int (card K) < rl_maxBuckets s" "distinct (map fst bs)"
  shows "held K k h e (sp_buckets (snd (spec_take s t j (spec_of s bs))))"
proof -
  obtain b1 where b1: "b1 = (if \<not> t < rl_nextCleanupAt s then filter (active t) bs else bs)" by blast
  have h: "held K k h e b1" using held_clean [OF assms(1,4)] assms(1) by (simp add: b1)
  have d: "distinct (map fst b1)" using assms(7) by (simp add: b1 distinct_map_filter)
  have jk: "j \<noteq> k" using assms(2,3) by blast
  have o: "held K k h e (others j b1)" by (rule held_others [OF h jk])
  have od: "distinct (map fst (others j b1))" using d by (simp add: others_def distinct_map_filter)
  have new: "held K k h e (snd (spec_new s t j (others j b1)))"
    by (rule held_new [OF o assms(3) _ assms(5,6) od]) (auto simp: others_def)
  have fresh: "held K k h e (snd (spec_new s t j b1))" if "map_of b1 j = None"
    by (rule held_new [OF h assms(3) _ assms(5,6) d]) (use that in \<open>simp add: map_of_eq_None_iff del: if_split\<close>)
  have step: "sp_buckets (snd (spec_take s t j (spec_of s bs))) = snd (case map_of b1 j of
      None \<Rightarrow> spec_new s t j b1
    | Some (h, r) \<Rightarrow> if \<not> t < r then spec_new s t j (others j b1)
        else if h \<ge> rl_max s then ((False, 0, r), (j, h, r) # others j b1)
        else ((True, max 0 (rl_max s - (h + 1)), r), (j, h + 1, r) # others j b1))"
    unfolding spec_take_def spec_of_def Let_def rl_spec.select_convs b1 [symmetric]
    by (cases "map_of b1 j") (simp_all only: option.case split_beta snd_conv rl_spec.select_convs)
  show ?thesis
  proof (cases "map_of b1 j")
    case None
    with fresh show ?thesis by (simp add: step)
  next
    case (Some x)
    with new held_behind [OF o assms(3)] show ?thesis by (cases x) (simp add: step)
  qed
qed

lemma held_take_own:
  assumes "held K k h e bs" "k \<notin> K" "t < e" "h \<le> rl_max s"
  shows "fst (fst (spec_take s t k (spec_of s bs))) \<longleftrightarrow> h < rl_max s"
    and "held K k (min (rl_max s) (h + 1)) e (sp_buckets (snd (spec_take s t k (spec_of s bs))))"
proof -
  let ?bs = "if \<not> t < rl_nextCleanupAt s then filter (active t) bs else bs"
  have "held K k h e ?bs" using held_clean [OF assms(1,3)] assms(1) by simp
  note m = held_map_of [OF this assms(2)]
  have step: "spec_take s t k (spec_of s bs) = (let (ans, bs') =
        (if h \<ge> rl_max s then ((False, 0, e), (k, h, e) # others k ?bs)
         else ((True, max 0 (rl_max s - (h + 1)), e), (k, h + 1, e) # others k ?bs))
      in (ans, \<lparr>sp_buckets = bs',
            sp_nextCleanupAt = (if \<not> t < rl_nextCleanupAt s then t + rl_cleanupEvery s else rl_nextCleanupAt s)\<rparr>))"
    unfolding spec_take_def spec_of_def Let_def rl_spec.select_convs m option.case prod.case using assms(3) by simp
  show "fst (fst (spec_take s t k (spec_of s bs))) \<longleftrightarrow> h < rl_max s"
    unfolding step by (simp add: Let_def)
  have "\<exists>rest. sp_buckets (snd (spec_take s t k (spec_of s bs))) = (k, min (rl_max s) (h + 1), e) # rest"
    unfolding step using assms(4) by (auto simp: Let_def min_def)
  then show "held K k (min (rl_max s) (h + 1)) e (sp_buckets (snd (spec_take s t k (spec_of s bs))))"
    by (force simp: held_def)
qed

text \<open>The answers to one key's requests among those of a run.\<close>

definition takes_key :: "string \<Rightarrow> rl_op \<Rightarrow> bool" where
  "takes_key k op = (case op of RTake t j \<Rightarrow> j = k | RReset j \<Rightarrow> False)"

definition verdicts :: "string \<Rightarrow> rl_op list \<Rightarrow> (bool \<times> int \<times> instant) option list \<Rightarrow> bool list" where
  "verdicts k ops answers = map (\<lambda>(op, a). fst (the a)) (filter (\<lambda>(op, a). takes_key k op) (zip ops answers))"

definition other_keys :: "string \<Rightarrow> rl_op list \<Rightarrow> string set" where
  "other_keys k ops = (\<Union>op \<in> set ops. case op of RTake t j \<Rightarrow> {j} - {k} | RReset j \<Rightarrow> {})"

definition before_end :: "instant \<Rightarrow> string \<Rightarrow> rl_op \<Rightarrow> bool" where
  "before_end e k op = (case op of RTake t j \<Rightarrow> t < e | RReset j \<Rightarrow> j \<noteq> k)"

lemma takes_key_simps [simp]: "takes_key k (RTake t j) \<longleftrightarrow> j = k" "\<not> takes_key k (RReset j)"
  by (simp_all add: takes_key_def)

lemma verdicts_Cons [simp]:
  "verdicts k (op # ops) (a # as) = (if takes_key k op then fst (the a) # verdicts k ops as else verdicts k ops as)"
  by (simp add: verdicts_def)

lemma held_run:
  assumes "limiter_ok ord mx s" "rl_rel s bs" "buckets_ok mx (rl_maxBuckets s) bs" "held K k h e bs" "h \<le> mx"
    and "\<forall>op \<in> set ops. before_end e k op" "other_keys k ops \<subseteq> K" "k \<notin> K" "finite K" "int (card K) < rl_maxBuckets s"
  shows "verdicts k ops (fst (rl_run ord ops s)) = map (\<lambda>i. h + int i < mx) [0..<length (filter (takes_key k) ops)]"
  using assms(1-7,10)
proof (induction ops arbitrary: s bs h)
  case (Cons op ops)
  have ord: "go_range ord" and mx: "rl_max s = mx" using Cons.prems(1) by (simp_all add: limiter_ok_def)
  have rest: "\<forall>op \<in> set ops. before_end e k op" "other_keys k ops \<subseteq> K" using Cons.prems(6,7) by (auto simp: other_keys_def)
  show ?case
  proof (cases op)
    case (RTake t j)
    let ?s = "snd (limiter_take ord t j s)" and ?sp = "spec_take s t j (spec_of s bs)"
    have t: "t < e" using Cons.prems(6) RTake by (simp add: before_end_def)
    from take_rel [OF Cons.prems(2) ord, of t j] have ans: "fst (limiter_take ord t j s) = fst ?sp"
      and rel: "rl_rel ?s (sp_buckets (snd ?sp))" and cap: "rl_maxBuckets ?s = rl_maxBuckets s"
      by (simp_all add: limits_but_cleanup_def)
    have ok: "limiter_ok ord mx ?s" by (rule limiter_take_quota(1) [OF Cons.prems(1)])
    have pos: "1 \<le> rl_max s" "0 < rl_window s" "1 \<le> rl_maxBuckets s" using Cons.prems(1) by (auto simp: limiter_ok_def)
    have bok: "buckets_ok mx (rl_maxBuckets ?s) (sp_buckets (snd ?sp))"
      using spec_take_quota(4) [OF Cons.prems(3) [folded mx] pos, of t j] by (simp add: mx cap)
    note IH = Cons.IH [OF ok rel bok _ _ rest]
    show ?thesis
    proof (cases "j = k")
      case True
      note own = held_take_own [OF Cons.prems(4) assms(8) t, of s, folded True]
      have h: "min mx (h + 1) \<le> mx" by simp
      have "verdicts k ops (fst (rl_run ord ops ?s)) = map (\<lambda>i. min mx (h + 1) + int i < mx) [0..<length (filter (takes_key k) ops)]"
        using IH [OF _ h] own(2) Cons.prems(5,8) cap by (simp add: mx True)
      moreover have "(min mx (h + 1) + int i < mx) = (h + int (Suc i) < mx)" for i by (auto simp: min_def)
      moreover have "fst (fst (limiter_take ord t j s)) = (h < mx)" using own(1) Cons.prems(5) by (simp add: ans mx)
      moreover have "[0..<Suc (length (filter (takes_key k) ops))] = 0 # map Suc [0..<length (filter (takes_key k) ops)]"
        by (simp add: upt_conv_Cons map_Suc_upt del: upt_Suc)
      ultimately show ?thesis
        by (simp add: RTake True split_beta Let_def comp_def del: upt_Suc)
    next
      case False
      have j: "j \<in> K" using Cons.prems(7) RTake False by (auto simp: other_keys_def)
      have "held K k h e (sp_buckets (snd ?sp))"
        by (rule held_take_other [OF Cons.prems(4) assms(8) j t assms(9) Cons.prems(8)])
          (use Cons.prems(3) in \<open>simp add: buckets_ok_def\<close>)
      from IH [OF this Cons.prems(5)] Cons.prems(8) cap False show ?thesis
        by (simp add: RTake split_beta Let_def)
    qed
  next
    case (RReset j)
    have jk: "j \<noteq> k" using Cons.prems(6) RReset by (simp add: before_end_def)
    from reset_rel [OF Cons.prems(2), of j] have rel: "rl_rel (limiter_reset j s) (others j bs)"
      and lim: "same_limits (limiter_reset j s) s" by simp_all
    have cap: "rl_maxBuckets (limiter_reset j s) = rl_maxBuckets s" using lim by (simp add: same_limits_def)
    have bok: "buckets_ok mx (rl_maxBuckets (limiter_reset j s)) (others j bs)" using others_ok [OF Cons.prems(3)] cap by simp
    then have "limiter_ok ord mx (limiter_reset j s)" using Cons.prems(1) rel lim by (auto simp: limiter_ok_def same_limits_def)
    from Cons.IH [OF this rel bok held_others [OF Cons.prems(4) jk] Cons.prems(5) rest] Cons.prems(8) cap show ?thesis
      by (simp add: RReset split_beta Let_def)
  qed
qed (simp add: verdicts_def)

lemma take_at_head: "\<exists>x rest. sp_buckets (snd (spec_take s t k sp)) = (k, x) # rest"
  by (auto simp: spec_take_def spec_new_def Let_def split: option.splits prod.splits)

text \<open>C29: The quota of a window. Take any limiter that has served any requests and resets, and the first request of a key
  that has no open window. Among whatever requests come before the end of that window, for this key and for others, and
  resets of other keys, the key's requests run exactly while fewer than the maximum have run: no request of another
  key, no expiry and no eviction of a bucket takes a hit back, as long as the keys requested in the window fit into
  the configured number of buckets.\<close>

theorem limiter_window_quota:
  assumes "go_range ord" and past: "rl_run ord past (new_limiter now0 mx w opts) = (old, s)"
    and first: "used now s k = 0" and during: "\<forall>op \<in> set ops. before_end (now + rl_window s) k op"
    and room: "int (card (other_keys k ops)) < rl_maxBuckets s"
    and run: "rl_run ord (RTake now k # ops) s = (answers, s')"
  shows "verdicts k (RTake now k # ops) answers = map (\<lambda>i. int i < rl_max s) [0..<Suc (length (filter (takes_key k) ops))]"
proof -
  have ok: "limiter_ok ord (rl_max s) s"
    using rl_run_ok [OF new_limiter_ok [OF assms(1)], where ops = past] past by (metis limiter_ok_def snd_conv)
  then obtain bs where rel: "rl_rel s bs" "buckets_ok (rl_max s) (rl_maxBuckets s) bs" "1 \<le> rl_max s" "0 < rl_window s"
      "1 \<le> rl_maxBuckets s" by (rule limiter_ok_rel)
  let ?s = "snd (limiter_take ord now k s)" and ?sp = "spec_take s now k (spec_of s bs)" and ?e = "now + rl_window s"
  note q = limiter_take_quota [OF ok, where now = now and k = k]
  from take_rel [OF rel(1) assms(1), of now k] have ans: "fst (limiter_take ord now k s) = fst ?sp"
    and rel': "rl_rel ?s (sp_buckets (snd ?sp))" and lim: "limits_but_cleanup ?s s" by simp_all
  note sq = spec_take_quota [OF rel(2,3,4,5), of now k]
  from sq(3) used_rel [OF rel(1), of now k] first rel(3) ans q(7) obtain r where
    "map_of (sp_buckets (snd ?sp)) k = Some (1, r)" "r = ?e" by (auto simp: min_def)
  with take_at_head [of s now k "spec_of s bs"] have "held {} k 1 ?e (sp_buckets (snd ?sp))" by (auto simp: held_def)
  then have held: "held (other_keys k ops) k 1 ?e (sp_buckets (snd ?sp))" unfolding held_def by blast
  have bok: "buckets_ok (rl_max s) (rl_maxBuckets ?s) (sp_buckets (snd ?sp))" using sq(4) lim by (simp add: limits_but_cleanup_def)
  have fin: "finite (other_keys k ops)" by (auto simp: other_keys_def split: rl_op.split)
  have "verdicts k ops (fst (rl_run ord ops ?s)) = map (\<lambda>i. 1 + int i < rl_max s) [0..<length (filter (takes_key k) ops)]"
    by (rule held_run [OF q(1) rel' bok held rel(3) during subset_refl _ fin])
      (use room lim in \<open>auto simp: other_keys_def limits_but_cleanup_def split: rl_op.splits\<close>)
  moreover have "fst (fst (limiter_take ord now k s)) = (0 < rl_max s)" using q(2) first by simp
  moreover have "[0..<Suc (length (filter (takes_key k) ops))] = 0 # map Suc [0..<length (filter (takes_key k) ops)]"
    by (simp add: upt_conv_Cons map_Suc_upt del: upt_Suc)
  moreover from run have "answers = Some (fst (limiter_take ord now k s)) # fst (rl_run ord ops ?s)"
    by (cases "rl_run ord ops ?s") (auto simp: Let_def split_beta)
  ultimately show ?thesis by (simp add: comp_def algebra_simps del: upt_Suc)
qed

lemma fresh_used: "used now (new_limiter t mx w []) k = 0"
  by (simp add: used_def new_limiter_def Let_def)

text \<open>Two requests may run in ten units, of three; another address comes in between.\<close>

theorem limiter_window_quota_witness:
  "verdicts ''ip'' [RTake 1 ''ip'', RTake 2 ''x'', RTake 3 ''ip'', RReset ''x'', RTake 4 ''ip'']
     (fst (rl_run sorted_list_of_set [RTake 1 ''ip'', RTake 2 ''x'', RTake 3 ''ip'', RReset ''x'', RTake 4 ''ip'']
        (new_limiter 0 2 10 [WithMaxBuckets 2]))) = [True, True, False]"
proof -
  let ?n = "new_limiter 0 2 10 [WithMaxBuckets 2]"
  let ?ops = "[RTake 2 ''x'', RTake 3 ''ip'', RReset ''x'', RTake 4 ''ip'']"
  have m: "rl_max ?n = 2" "rl_window ?n = 10" "rl_maxBuckets ?n = 2" by (simp_all add: new_limiter_def Let_def apply_option_def)
  have u: "used 1 ?n ''ip'' = 0" by (simp add: used_def new_limiter_def Let_def apply_option_def)
  have p: "rl_run sorted_list_of_set [] ?n = ([], ?n)" by simp
  have b: "\<forall>op \<in> set ?ops. before_end (1 + rl_window ?n) ''ip'' op" by (simp add: before_end_def m)
  have "other_keys ''ip'' ?ops = {''x''}" by (auto simp: other_keys_def)
  then have r: "int (card (other_keys ''ip'' ?ops)) < rl_maxBuckets ?n" by (simp add: m)
  from limiter_window_quota [OF sorted_ord p u b r prod.collapse [symmetric]] m show ?thesis
    by (simp add: upt_rec)
qed

text \<open>The windows are fixed, not sliding: with a maximum of 2 per 10 time units, requests at 1, 10,
  11 and 11 all run, three of them within the two units up to 11.\<close>

theorem limiter_window_is_fixed:
  "mem.serve sorted_list_of_set ''ip'' [1, 10, 11, 11] (new_limiter 0 2 10 []) = [True, True, True, True]"
proof -
  let ?s = "new_limiter 0 2 10 []" and ?tk = "limiter_take sorted_list_of_set"
  let ?s1 = "snd (?tk 1 ''ip'' ?s)"
  let ?s2 = "snd (?tk 10 ''ip'' ?s1)"
  have m: "rl_max ?s = 2" "rl_window ?s = 10" by (simp_all add: new_limiter_def Let_def)
  have ok: "limiter_ok sorted_list_of_set 2 ?s"
    using new_limiter_ok [OF sorted_ord, of 0 2 10 "[]"] by (simp add: m)
  note t1 = limiter_take_quota [OF ok, where now = 1 and k = "''ip''"]
  note t2 = limiter_take_quota [OF t1(1), where now = 10 and k = "''ip''"]
  note t3 = limiter_take_quota [OF t2(1), where now = 11 and k = "''ip''"]
  have e1: "snd (snd (fst (?tk 1 ''ip'' ?s))) = 11" using t1(7) fresh_used by (simp add: m)
  have u1: "used 10 ?s1 ''ip'' = 1" using t1(5) [where t = 10] fresh_used by (simp add: e1)
  have "snd (snd (fst (?tk 10 ''ip'' ?s1))) = 11" using t1(8) [where t = 10] by (simp add: e1)
  then have u2: "used 11 ?s2 ''ip'' = 0" using t2(9) [where t = 11] by simp
  have "used 11 (snd (?tk 11 ''ip'' ?s2)) ''ip'' = 1" using t3(4) t3(5) [where t = 11] u2 by simp
  with t1(2) t2(2) t3(2) u1 u2 limiter_take_quota(2) [OF t3(1), where now = 11 and k = "''ip''"] show ?thesis
    by (simp add: fresh_used)
qed

text \<open>Behind the middleware a request the skip function does not exempt reaches the next handler
  exactly when its key's count in the open window is below the maximum.\<close>

theorem middleware_enforces_quota:
  assumes "limiter_ok ord mx s" and "\<not> (case rc_skip c of Some f \<Rightarrow> f r | None \<Rightarrow> False)"
  shows "RunNext \<in> set (fst (middleware c (limiter_take ord now) r s)) \<longleftrightarrow> used now s (rc_key c r) < mx"
  by (rule mem.guarded_request [OF assms])

definition sample_rl_config :: "string rl_config" where
  "sample_rl_config = \<lparr>rc_max = 2, rc_duration = 10, rc_maxBuckets = 5, rc_key = id, rc_skip = None, rc_suppress = False\<rparr>"

theorem middleware_enforces_quota_witness:
  "RunNext \<in> set (fst (middleware sample_rl_config (limiter_take sorted_list_of_set 1) ''ip'' (new_limiter 0 2 10 [])))"
proof -
  have "rl_max (new_limiter 0 2 10 []) = 2" by (simp add: new_limiter_def Let_def)
  then have "limiter_ok sorted_list_of_set 2 (new_limiter 0 2 10 [])"
    using new_limiter_ok [OF sorted_ord, of 0 2 10 "[]"] by simp
  from middleware_enforces_quota [OF this, where c = sample_rl_config and r = "''ip''" and now = 1] fresh_used show ?thesis
    by (simp add: sample_rl_config_def)
qed

end
