(* ===== verification/Queue_Manager.thy ===== *)
theory Queue_Manager
  imports Worker_Props
begin

text \<open>
  The queue manager of \<open>api/internal/capabilities/workflow/queue.go\<close>: the registry of drivers and
  job types, serialisation and dispatch, and the synchronous driver. A driver is the record of its
  operations over a shared state \<open>'s\<close>; the optional interfaces of a driver (\<open>taskDispatchDriver\<close>,
  \<open>DurableDriver\<close>) are options. A nil driver would be a nil-pointer panic; the model keeps it as
  \<open>None\<close> and proves that it does not arise.

  The JSON data of a job is what \<open>json.Marshal\<close> gives for it, an error included.
\<close>

subsection \<open>Drivers and the manager\<close>

record ('s, 'p) driver =
  dv_push :: "string \<Rightarrow> 'p \<Rightarrow> 's \<Rightarrow> wf_error option \<times> 's"
  dv_pushDelayed :: "string \<Rightarrow> 'p \<Rightarrow> duration \<Rightarrow> 's \<Rightarrow> wf_error option \<times> 's"
  dv_task :: "((string \<Rightarrow> 'p \<Rightarrow> 's \<Rightarrow> (wf_error + string) \<times> 's)
             \<times> (string \<Rightarrow> 'p \<Rightarrow> duration \<Rightarrow> 's \<Rightarrow> (wf_error + string) \<times> 's)) option"
  dv_size :: "string \<Rightarrow> 's \<Rightarrow> wf_error + int"
  dv_clear :: "string \<Rightarrow> 's \<Rightarrow> wf_error option \<times> 's"
  dv_cancel :: "(string \<Rightarrow> 's \<Rightarrow> wf_error option \<times> 's) option"

record ('s, 'p, 't) manager =
  qm_drivers :: "string \<Rightarrow> ('s, 'p) driver option"
  qm_defaultDriver :: string
  qm_defaultQueue :: string
  qm_registry :: "string \<Rightarrow> 't option"

definition register_driver ::
    "string \<Rightarrow> ('s, 'p) driver \<Rightarrow> ('s, 'p, 't) manager \<Rightarrow> ('s, 'p, 't) manager" where
  "register_driver name d m = m\<lparr>qm_drivers := (qm_drivers m)(name \<mapsto> d)\<rparr>"

definition new_queue_manager :: "('s, 'p) driver \<Rightarrow> ('s, 'p, 't) manager" where
  "new_queue_manager sync =
     register_driver ''sync'' sync
       \<lparr>qm_drivers = Map.empty, qm_defaultDriver = ''sync'', qm_defaultQueue = ''default'',
        qm_registry = Map.empty\<rparr>"

definition set_default_queue :: "string \<Rightarrow> ('s, 'p, 't) manager \<Rightarrow> ('s, 'p, 't) manager" where
  "set_default_queue q m = m\<lparr>qm_defaultQueue := q\<rparr>"

definition set_default_driver ::
    "string \<Rightarrow> ('s, 'p, 't) manager \<Rightarrow> wf_error option \<times> ('s, 'p, 't) manager" where
  "set_default_driver name m =
     (case qm_drivers m name of
        None \<Rightarrow> (Some (Errorf ''queue driver is not registered''), m)
      | Some _ \<Rightarrow> (None, m\<lparr>qm_defaultDriver := name\<rparr>))"

definition default_driver_name :: "('s, 'p, 't) manager \<Rightarrow> string" where
  "default_driver_name m =
     (if trim_space (qm_defaultDriver m) = '''' then ''sync'' else qm_defaultDriver m)"

definition default_driver :: "('s, 'p, 't) manager \<Rightarrow> ('s, 'p) driver option" where
  "default_driver m =
     (case qm_drivers m (default_driver_name m) of
        Some d \<Rightarrow> Some d
      | None \<Rightarrow> qm_drivers m ''sync'')"

definition register_job :: "string \<Rightarrow> 't \<Rightarrow> ('s, 'p, 't) manager \<Rightarrow> ('s, 'p, 't) manager" where
  "register_job name t m = m\<lparr>qm_registry := (qm_registry m)(name \<mapsto> t)\<rparr>"

text \<open>\<open>inst t\<close> is a new value of the registered type, or nothing when the type is not a job.\<close>

definition create_job ::
    "('t \<Rightarrow> 'j option) \<Rightarrow> ('s, 'p, 't) manager \<Rightarrow> string \<Rightarrow> wf_error + 'j" where
  "create_job inst m typeName =
     (case qm_registry m typeName of
        None \<Rightarrow> Inl (Errorf ''unknown job type'')
      | Some t \<Rightarrow>
          (case inst t of None \<Rightarrow> Inl (Errorf ''registered type does not implement Job'')
           | Some j \<Rightarrow> Inr j))"

subsection \<open>Serialisation and dispatch\<close>

definition serialize_job ::
    "('p, 'd) codec \<Rightarrow> string \<Rightarrow> instant \<Rightarrow> string \<times> string \<Rightarrow> (wf_error + 'd) job \<Rightarrow> wf_error + 'p" where
  "serialize_job cd uuid now trace j =
     (case job_data j of Inl e \<Rightarrow> Inl e
      | Inr data \<Rightarrow>
          cd_encode cd
            \<lparr>jp_id = uuid, jp_type = job_typeName j, jp_data = data, jp_attempts = 0,
             jp_maxRetries = (case job_maxRetries j of Some n \<Rightarrow> n | None \<Rightarrow> 3),
             jp_idempotencyKey = (case job_idempotencyKey j of Some k \<Rightarrow> trim_space k | None \<Rightarrow> ''''),
             jp_traceParent = fst trace, jp_traceState = snd trace, jp_createdAt = now\<rparr>)"

definition serialized_task_id :: "('p, 'd) codec \<Rightarrow> 'p \<Rightarrow> wf_error + string" where
  "serialized_task_id cd data =
     (case cd_decode cd data of
        Inl e \<Rightarrow> Inl (WrapErr ''decode serialized workflow task ID'' e)
      | Inr p \<Rightarrow> Inr (jp_id p))"

definition pushed :: "string \<Rightarrow> wf_error option \<times> 's \<Rightarrow> (wf_error + string) \<times> 's" where
  "pushed i r = (case fst r of None \<Rightarrow> Inr i | Some e \<Rightarrow> Inl e, snd r)"

definition dispatch_task_to ::
    "('p, 'd) codec \<Rightarrow> string \<Rightarrow> instant \<Rightarrow> string \<times> string \<Rightarrow> ('s, 'p, 't) manager \<Rightarrow> string
     \<Rightarrow> (wf_error + 'd) job \<Rightarrow> 's \<Rightarrow> ((wf_error + string) \<times> 's) option" where
  "dispatch_task_to cd uuid now trace m queue j s =
     (let q = (case job_queue j of Some q' \<Rightarrow> q' | None \<Rightarrow> queue)
      in case serialize_job cd uuid now trace j of
           Inl e \<Rightarrow> Some (Inl e, s)
         | Inr payload \<Rightarrow>
        (case serialized_task_id cd payload of
           Inl e \<Rightarrow> Some (Inl e, s)
         | Inr i \<Rightarrow>
        (case default_driver m of
           None \<Rightarrow> None
         | Some d \<Rightarrow>
             Some (case (job_delay j, dv_task d) of
                (Some delay, Some (pushTask, pushTaskDelayed)) \<Rightarrow>
                  if delay > 0 then pushTaskDelayed q payload delay s else pushTask q payload s
              | (Some delay, None) \<Rightarrow>
                  if delay > 0 then pushed i (dv_pushDelayed d q payload delay s)
                  else pushed i (dv_push d q payload s)
              | (None, Some (pushTask, _)) \<Rightarrow> pushTask q payload s
              | (None, None) \<Rightarrow> pushed i (dv_push d q payload s)))))"

definition dispatch_task ::
    "('p, 'd) codec \<Rightarrow> string \<Rightarrow> instant \<Rightarrow> string \<times> string \<Rightarrow> ('s, 'p, 't) manager
     \<Rightarrow> (wf_error + 'd) job \<Rightarrow> 's \<Rightarrow> ((wf_error + string) \<times> 's) option" where
  "dispatch_task cd uuid now trace m j s = dispatch_task_to cd uuid now trace m (qm_defaultQueue m) j s"

definition later_to ::
    "('p, 'd) codec \<Rightarrow> string \<Rightarrow> instant \<Rightarrow> string \<times> string \<Rightarrow> ('s, 'p, 't) manager \<Rightarrow> string \<Rightarrow> duration
     \<Rightarrow> (wf_error + 'd) job \<Rightarrow> 's \<Rightarrow> (wf_error option \<times> 's) option" where
  "later_to cd uuid now trace m queue delay j s =
     (case serialize_job cd uuid now trace j of
        Inl e \<Rightarrow> Some (Some e, s)
      | Inr payload \<Rightarrow>
          (case default_driver m of None \<Rightarrow> None
           | Some d \<Rightarrow> Some (dv_pushDelayed d queue payload delay s)))"

definition manager_cancel ::
    "('s, 'p, 't) manager \<Rightarrow> string \<Rightarrow> 's \<Rightarrow> wf_error option \<times> 's" where
  "manager_cancel m taskID s =
     (case default_driver m of
        Some d \<Rightarrow>
          (case dv_cancel d of Some cancel \<Rightarrow> cancel (trim_space taskID) s
           | None \<Rightarrow> (Some (Errorf ''queue driver does not support durable cancellation''), s))
      | None \<Rightarrow> (Some (Errorf ''queue driver does not support durable cancellation''), s))"

definition manager_size :: "('s, 'p, 't) manager \<Rightarrow> string \<Rightarrow> 's \<Rightarrow> (wf_error + int) option" where
  "manager_size m queue s = map_option (\<lambda>d. dv_size d queue s) (default_driver m)"

definition manager_clear :: "('s, 'p, 't) manager \<Rightarrow> string \<Rightarrow> 's \<Rightarrow> (wf_error option \<times> 's) option" where
  "manager_clear m queue s = map_option (\<lambda>d. dv_clear d queue s) (default_driver m)"

subsection \<open>The synchronous driver\<close>

type_synonym 'p sync_state = "string \<Rightarrow> 'p list"

text \<open>\<open>deserializeJob\<close>, and what the handler answers for the job it yields.\<close>

definition deserialize_job ::
    "('p, 'd) codec \<Rightarrow> ('d, 'j) runtime \<Rightarrow> 'p \<Rightarrow> wf_error + 'j \<times> 'd job_payload" where
  "deserialize_job cd rt data =
     (case cd_decode cd data of Inl e \<Rightarrow> Inl e
      | Inr p \<Rightarrow>
          (case rt_new rt (jp_type p) of Inl e \<Rightarrow> Inl e
           | Inr j0 \<Rightarrow>
               (case rt_unmarshal rt (jp_data p) j0 of Inl e \<Rightarrow> Inl e | Inr j \<Rightarrow> Inr (j, p))))"

definition sync_append :: "string \<Rightarrow> 'p \<Rightarrow> 'p sync_state \<Rightarrow> 'p sync_state" where
  "sync_append q x s = s(q := s q @ [x])"

definition sync_push ::
    "('p, 'd) codec \<Rightarrow> ('d, 'j) runtime \<Rightarrow> string \<Rightarrow> 'p \<Rightarrow> 'p sync_state \<Rightarrow> wf_error option \<times> 'p sync_state" where
  "sync_push cd rt queue payload s =
     (case deserialize_job cd rt payload of
        Inl _ \<Rightarrow> (None, sync_append queue payload s)
      | Inr (j, p) \<Rightarrow>
          (case rt_handle rt j of
             None \<Rightarrow> (None, s)
           | Some e \<Rightarrow>
               (if jp_attempts p < jp_maxRetries p
                then (case cd_encode cd (p\<lparr>jp_attempts := jp_attempts p + 1\<rparr>) of
                        Inr bytes \<Rightarrow> (Some e, sync_append queue bytes s)
                      | Inl _ \<Rightarrow> (Some e, s))
                else (Some e, s))))"

text \<open>\<open>expired\<close> says what ends the wait: the timer, or the context with its error.\<close>

definition sync_push_delayed ::
    "('p, 'd) codec \<Rightarrow> ('d, 'j) runtime \<Rightarrow> wf_error option \<Rightarrow> string \<Rightarrow> 'p \<Rightarrow> duration \<Rightarrow> 'p sync_state
     \<Rightarrow> wf_error option \<times> 'p sync_state" where
  "sync_push_delayed cd rt expired queue payload delay s =
     (if delay \<le> 0 then sync_push cd rt queue payload s
      else case expired of None \<Rightarrow> sync_push cd rt queue payload s | Some e \<Rightarrow> (Some e, s))"

definition sync_pop :: "string \<Rightarrow> 'p sync_state \<Rightarrow> (wf_error + 'p) \<times> 'p sync_state" where
  "sync_pop queue s =
     (case s queue of [] \<Rightarrow> (Inl ErrQueueEmpty, s) | x # xs \<Rightarrow> (Inr x, s(queue := xs)))"

definition sync_size :: "string \<Rightarrow> 'p sync_state \<Rightarrow> wf_error + int" where
  "sync_size queue s = Inr (int (length (s queue)))"

definition sync_clear :: "string \<Rightarrow> 'p sync_state \<Rightarrow> wf_error option \<times> 'p sync_state" where
  "sync_clear queue s = (None, s(queue := []))"

definition sync_driver :: "('p, 'd) codec \<Rightarrow> ('d, 'j) runtime \<Rightarrow> wf_error option \<Rightarrow> ('p sync_state, 'p) driver" where
  "sync_driver cd rt expired =
     \<lparr>dv_push = sync_push cd rt, dv_pushDelayed = sync_push_delayed cd rt expired, dv_task = None,
      dv_size = sync_size, dv_clear = sync_clear, dv_cancel = None\<rparr>"

subsection \<open>The durable store as a driver\<close>

definition err_of :: "(wf_error + 'a) \<times> 's \<Rightarrow> wf_error option \<times> 's" where
  "err_of r = (case fst r of Inl e \<Rightarrow> Some e | Inr _ \<Rightarrow> None, snd r)"

definition postgres_driver ::
    "('p, 'd) codec \<Rightarrow> faults \<Rightarrow> string \<Rightarrow> instant \<Rightarrow> ('p pg_driver, 'p) driver" where
  "postgres_driver cd flt uuid now =
     \<lparr>dv_push = (\<lambda>q x s. err_of (pg_push_task cd flt uuid now now now q x s)),
      dv_pushDelayed = (\<lambda>q x dl s. err_of (pg_push_task_delayed cd flt uuid now now now q x dl s)),
      dv_task = Some (pg_push_task cd flt uuid now now now, pg_push_task_delayed cd flt uuid now now now),
      dv_size = (\<lambda>q s. case pg_size (flt 0) q s of (n, None) \<Rightarrow> Inr n | (_, Some e) \<Rightarrow> Inl e),
      dv_clear = (\<lambda>q s. err_of (pg_clear (flt 0) q s)),
      dv_cancel = Some (\<lambda>i s. err_of (pg_cancel (flt 0) now i s))\<rparr>"

subsection \<open>Properties\<close>

datatype ('s, 'p, 't) manager_op =
    RegisterDriver string "('s, 'p) driver"
  | SetDefaultDriver string
  | SetDefaultQueue string
  | RegisterJob string 't

primrec manager_step :: "('s, 'p, 't) manager_op \<Rightarrow> ('s, 'p, 't) manager \<Rightarrow> ('s, 'p, 't) manager" where
  "manager_step (RegisterDriver n d) m = register_driver n d m"
| "manager_step (SetDefaultDriver n) m = snd (set_default_driver n m)"
| "manager_step (SetDefaultQueue q) m = set_default_queue q m"
| "manager_step (RegisterJob n t) m = register_job n t m"

lemma manager_inv:
  "qm_drivers m ''sync'' \<noteq> None \<Longrightarrow> qm_drivers m (qm_defaultDriver m) \<noteq> None \<Longrightarrow>
     qm_drivers (fold manager_step ops m) ''sync'' \<noteq> None
     \<and> qm_drivers (fold manager_step ops m) (qm_defaultDriver (fold manager_step ops m)) \<noteq> None"
proof (induction ops arbitrary: m)
  case (Cons op ops)
  have "qm_drivers (manager_step op m) ''sync'' \<noteq> None
      \<and> qm_drivers (manager_step op m) (qm_defaultDriver (manager_step op m)) \<noteq> None"
    using Cons.prems
    by (cases op) (auto simp: register_driver_def set_default_driver_def set_default_queue_def
        register_job_def split: option.split)
  with Cons.IH show ?case by simp
qed simp

text \<open>A manager always has a driver: whatever drivers, defaults and job types were registered since
  it was created, dispatching, scheduling for later, Size and Clear find a non-nil driver, the
  configured default where its name is not blank.\<close>

theorem manager_always_has_a_driver:
  fixes sync :: "('s, 'p) driver" and ops :: "('s, 'p, 't) manager_op list"
  defines "m \<equiv> fold manager_step ops (new_queue_manager sync)"
  shows "(\<exists>d. default_driver m = Some d
        \<and> (trim_space (qm_defaultDriver m) \<noteq> '''' \<longrightarrow> qm_drivers m (qm_defaultDriver m) = Some d))
    \<and> dispatch_task cd uuid now trace m j s \<noteq> None
    \<and> later_to cd uuid now trace m queue delay j s \<noteq> None"
proof -
  have "qm_drivers m ''sync'' \<noteq> None \<and> qm_drivers m (qm_defaultDriver m) \<noteq> None"
    unfolding m_def by (rule manager_inv) (simp_all add: new_queue_manager_def register_driver_def)
  then have "\<exists>d. default_driver m = Some d
      \<and> (trim_space (qm_defaultDriver m) \<noteq> '''' \<longrightarrow> qm_drivers m (qm_defaultDriver m) = Some d)"
    by (cases "trim_space (qm_defaultDriver m) = ''''") (auto simp: default_driver_def default_driver_name_def)
  then obtain d where d: "default_driver m = Some d"
      "trim_space (qm_defaultDriver m) \<noteq> '''' \<longrightarrow> qm_drivers m (qm_defaultDriver m) = Some d"
    by blast
  then show ?thesis
    by (auto simp: dispatch_task_def dispatch_task_to_def later_to_def Let_def split: sum.split)
qed

theorem manager_always_has_a_driver_witness:
  "\<exists>d. default_driver (fold manager_step [SetDefaultDriver ''redis'', SetDefaultQueue ''mail'']
      (new_queue_manager (sync_driver sample_codec sample_runtime None))) = Some d"
  using manager_always_has_a_driver [of "[SetDefaultDriver ''redis'', SetDefaultQueue ''mail'']"
      "sync_driver sample_codec sample_runtime None"] by blast

text \<open>Dispatching to the durable store without a delay is one \<open>PushTask\<close> of the serialised job.\<close>

lemma dispatch_to_postgres:
  assumes "default_driver m = Some (postgres_driver cd flt uuid' now')"
    and "serialize_job cd uuid now trace j = Inr payload" and "cd_decode cd payload = Inr p"
    and "job_delay j = None"
  shows "dispatch_task_to cd uuid now trace m queue j s =
    Some (pg_push_task cd flt uuid' now' now' now'
      (case job_queue j of Some q \<Rightarrow> q | None \<Rightarrow> queue) payload s)"
  using assms by (simp add: dispatch_task_to_def serialized_task_id_def postgres_driver_def Let_def)

text \<open>The row of a push is settled, up to its id and times, by queue, envelope content and key.\<close>

lemma new_row_content:
  assumes "new_row cd u c up at q payload = Inr row"
    and "cd_decode cd payload = Inr p" and "jp_id p \<noteq> ''''"
  shows "tk_queue row = trim_space q" "tk_id row = jp_id p"
    "tk_key row = (if trim_space (jp_idempotencyKey p) = '''' then None else Some (trim_space (jp_idempotencyKey p)))"
    "task_fingerprint cd p = Inr (tk_hash row)"
  using assms by (auto simp: new_row_def Let_def split: if_splits sum.splits)

lemma new_row_again:
  assumes "new_row cd u c up at q payload = Inr row"
    and "cd_decode cd payload = Inr p" "cd_decode cd payload2 = Inr p2" "jp_id p \<noteq> ''''" "jp_id p2 \<noteq> ''''"
    and "jp_type p2 = jp_type p" "jp_data p2 = jp_data p" "jp_maxRetries p2 = jp_maxRetries p"
      "jp_idempotencyKey p2 = jp_idempotencyKey p"
  shows "\<exists>row2. new_row cd u2 c2 up2 at2 q payload2 = Inr row2"
  using assms by (auto simp: new_row_def task_fingerprint_def Let_def split: if_splits sum.splits)

definition json_roundtrip :: "('p, 'd) codec \<Rightarrow> bool" where
  "json_roundtrip cd \<longleftrightarrow> (\<forall>p b. cd_encode cd p = Inr b \<longrightarrow> cd_decode cd b = Inr p)"

lemma serialized_envelope:
  assumes "json_roundtrip cd" "serialize_job cd uuid now trace j = Inr payload"
  obtains p where "cd_decode cd payload = Inr p" "jp_id p = uuid" "jp_type p = job_typeName j"
    "job_data j = Inr (jp_data p)" "jp_maxRetries p = (case job_maxRetries j of Some n \<Rightarrow> n | None \<Rightarrow> 3)"
    "jp_idempotencyKey p = (case job_idempotencyKey j of Some k \<Rightarrow> trim_space k | None \<Rightarrow> '''')"
proof -
  from assms(2) obtain data where "job_data j = Inr data" and
    "cd_encode cd \<lparr>jp_id = uuid, jp_type = job_typeName j, jp_data = data, jp_attempts = 0,
       jp_maxRetries = (case job_maxRetries j of Some n \<Rightarrow> n | None \<Rightarrow> 3),
       jp_idempotencyKey = (case job_idempotencyKey j of Some k \<Rightarrow> trim_space k | None \<Rightarrow> ''''),
       jp_traceParent = fst trace, jp_traceState = snd trace, jp_createdAt = now\<rparr> = Inr payload"
    by (auto simp: serialize_job_def split: sum.splits)
  with assms(1) that show ?thesis by (fastforce simp: json_roundtrip_def)
qed

text \<open>What a successful push leaves behind: a row with the task's key, content and id.\<close>

lemma push_leaves_row:
  assumes "ts_reach cd G s" and "\<not> pg_closed (ts_drv s)" and "new_row cd u c up at q payload = Inr row"
    and "tk_key row \<noteq> None" and "pg_push_task cd no_faults u at c up q payload (ts_drv s) = (Inr i, d)"
  shows "\<exists>r \<in> set (pg_rows d). same_key row r \<and> tk_hash r = tk_hash row \<and> tk_id r = i
    \<and> ts_reach cd G (with_drv s d) \<and> \<not> pg_closed d"
proof (cases "\<exists>r \<in> set (ts_rows s). same_key row r")
  case True
  then obtain r where r: "r \<in> set (ts_rows s)" "same_key row r" by blast
  with push_cases [OF assms(1,2,3)] assms(5) have "tk_hash r = tk_hash row" "i = tk_id r" "d = ts_drv s"
    by (auto split: if_splits)
  with r assms(1,2) show ?thesis by auto
next
  case False
  show ?thesis
  proof (cases "\<exists>r \<in> set (ts_rows s). tk_id r = tk_id row")
    case True
    have "find (same_key row) (ts_rows s) = None" using False by (auto simp: find_None_iff)
    with True False assms(2-5) show ?thesis
      by (auto simp: pg_push_task_def pg_insert_def ensure_open_def create_row_def no_faults_def)
  next
    case fresh: False
    with False push_cases [OF assms(1,2,3)] assms(5)
    have d: "i = tk_id row" "d = (ts_drv s)\<lparr>pg_rows := ts_rows s @ [row]\<rparr>" by auto
    have "create_row None row (ts_rows s) = Inr (ts_rows s @ [row])"
      using False fresh by (auto simp: create_row_def)
    from ts_reach.step [OF assms(1) ts_step.insert [OF assms(3) this]]
    have "ts_reach cd G (with_drv s d)" by (simp add: d)
    moreover have "same_key row row" using assms(4) by (simp add: same_key_def)
    ultimately show ?thesis using assms(2) by (auto simp: d)
  qed
qed

text \<open>C24: Dispatching a job with an idempotency key to the durable store is exactly-once: if a dispatch
  answered a task id, dispatching the same job again, with a new id and at another time, answers the
  same task id and changes nothing.\<close>

theorem dispatch_with_key_is_exactly_once:
  fixes cd :: "('p, 'd) codec" and m m2 :: "('p pg_driver, 'p, 't) manager"
  assumes "json_roundtrip cd" and "ts_reach cd G s" and "\<not> pg_closed (ts_drv s)"
    and "default_driver m = Some (postgres_driver cd no_faults u t)"
    and "default_driver m2 = Some (postgres_driver cd no_faults u2 t2)"
    and "job_delay j = None" and "job_idempotencyKey j = Some k" and "trim_space k \<noteq> ''''"
    and "uuid \<noteq> ''''" and "uuid2 \<noteq> ''''"
    and "serialize_job cd uuid2 now2 trace2 j = Inr payload2"
    and "dispatch_task_to cd uuid now trace m queue j (ts_drv s) = Some (Inr i, d)"
  shows "dispatch_task_to cd uuid2 now2 trace2 m2 queue j d = Some (Inr i, d)"
proof -
  let ?q = "case job_queue j of Some q \<Rightarrow> q | None \<Rightarrow> queue"
  obtain payload where pl: "serialize_job cd uuid now trace j = Inr payload"
    using assms(12) by (cases "serialize_job cd uuid now trace j") (auto simp: dispatch_task_to_def Let_def)
  from assms(1) pl obtain p where p: "cd_decode cd payload = Inr p" "jp_id p = uuid" "jp_type p = job_typeName j"
    "job_data j = Inr (jp_data p)" "jp_maxRetries p = (case job_maxRetries j of Some n \<Rightarrow> n | None \<Rightarrow> 3)"
    "jp_idempotencyKey p = (case job_idempotencyKey j of Some k \<Rightarrow> trim_space k | None \<Rightarrow> '''')"
    by (rule serialized_envelope)
  from assms(1,11) obtain p2 where p2: "cd_decode cd payload2 = Inr p2" "jp_id p2 = uuid2" "jp_type p2 = job_typeName j"
    "job_data j = Inr (jp_data p2)" "jp_maxRetries p2 = (case job_maxRetries j of Some n \<Rightarrow> n | None \<Rightarrow> 3)"
    "jp_idempotencyKey p2 = (case job_idempotencyKey j of Some k \<Rightarrow> trim_space k | None \<Rightarrow> '''')"
    by (rule serialized_envelope)
  have push: "pg_push_task cd no_faults u t t t ?q payload (ts_drv s) = (Inr i, d)"
    using dispatch_to_postgres [OF assms(4) pl p(1) assms(6), of queue "ts_drv s"] assms(12) by simp
  then obtain row where row: "new_row cd u t t t ?q payload = Inr row"
    using assms(3) by (cases "new_row cd u t t t ?q payload")
      (auto simp: pg_push_task_def pg_insert_def ensure_open_def)
  have ids: "jp_id p \<noteq> ''''" "jp_id p2 \<noteq> ''''" using p(2) p2(2) assms(9,10) by simp_all
  have same: "jp_data p2 = jp_data p" "jp_type p2 = jp_type p" "jp_maxRetries p2 = jp_maxRetries p"
    "jp_idempotencyKey p2 = jp_idempotencyKey p"
    using p p2 by simp_all
  from new_row_again [OF row p(1) p2(1) ids same(2,1,3,4)]
  obtain row2 where row2: "new_row cd u2 t2 t2 t2 ?q payload2 = Inr row2" by blast
  note c = new_row_content [OF row p(1) ids(1)] and c2 = new_row_content [OF row2 p2(1) ids(2)]
  have key: "tk_key row \<noteq> None" using c(3) p(6) assms(7,8) by simp
  have hash: "tk_hash row2 = tk_hash row"
    using c(4) c2(4) same by (simp add: task_fingerprint_def split: sum.splits)
  have sk: "same_key row2 r \<longleftrightarrow> same_key row r" for r
    using c c2 same by (simp add: same_key_def)
  from push_leaves_row [OF assms(2,3) row key push] obtain r where r: "r \<in> set (pg_rows d)" "same_key row r"
    "tk_hash r = tk_hash row" "tk_id r = i" "ts_reach cd G (with_drv s d)" "\<not> pg_closed d" by blast
  have "pg_push_task cd no_faults u2 t2 t2 t2 ?q payload2 d = (Inr i, d)"
    using push_cases [OF r(5) _ row2] r sk hash by auto
  with dispatch_to_postgres [OF assms(5,11) p2(1) assms(6), of queue d] show ?thesis by simp
qed

definition sample_job :: "(wf_error + unit) job" where
  "sample_job = \<lparr>job_typeName = ''T'', job_data = Inr (), job_queue = Some ''q'', job_delay = None,
     job_maxRetries = None, job_retryDelay = None, job_idempotencyKey = Some '' k ''\<rparr>"

definition sample_manager :: "(unit job_payload pg_driver, unit job_payload, unit) manager" where
  "sample_manager = new_queue_manager (postgres_driver sample_codec no_faults ''u'' 5)"

theorem dispatch_with_key_is_exactly_once_witness:
  "\<exists>d. dispatch_task_to sample_codec ''a'' 5 ('''', '''') sample_manager ''x'' sample_job (ts_drv init_ts) = Some (Inr ''a'', d)
    \<and> dispatch_task_to sample_codec ''b'' 6 ('''', '''') sample_manager ''x'' sample_job d = Some (Inr ''a'', d)"
proof -
  have rt: "json_roundtrip sample_codec" by (simp add: json_roundtrip_def sample_codec_def)
  have open_: "\<not> pg_closed (ts_drv init_ts)" by (simp add: init_ts_def)
  have drv: "default_driver sample_manager = Some (postgres_driver sample_codec no_faults ''u'' 5)"
    by (simp add: sample_manager_def new_queue_manager_def register_driver_def default_driver_def
        default_driver_name_def)
  have "fst (the (dispatch_task_to sample_codec ''a'' 5 ('''', '''') sample_manager ''x'' sample_job (ts_drv init_ts))) = Inr ''a''
      \<and> dispatch_task_to sample_codec ''a'' 5 ('''', '''') sample_manager ''x'' sample_job (ts_drv init_ts) \<noteq> None"
    by code_simp
  then obtain d where d: "dispatch_task_to sample_codec ''a'' 5 ('''', '''') sample_manager ''x'' sample_job (ts_drv init_ts) = Some (Inr ''a'', d)"
    by (metis option.exhaust_sel prod.collapse)
  have j: "job_delay sample_job = None" "job_idempotencyKey sample_job = Some '' k ''"
    by (simp_all add: sample_job_def)
  have k: "trim_space '' k '' \<noteq> ''''" by code_simp
  have "\<exists>b. serialize_job sample_codec ''b'' 6 ('''', '''') sample_job = Inr b"
    by (simp add: serialize_job_def sample_job_def sample_codec_def)
  then obtain b where b: "serialize_job sample_codec ''b'' 6 ('''', '''') sample_job = Inr b" ..
  from dispatch_with_key_is_exactly_once [OF rt ts_reach.init open_ drv drv j k _ _ b d] d
  show ?thesis by blast
qed

end
