(* ===== verification/Workflow_Manager.thy ===== *)
theory Workflow_Manager
  imports Complex_Main Queue_Manager
begin

text \<open>
  The workflow manager of \<open>api/internal/capabilities/workflow/workflow.go\<close>, the seam over the queue
  and the retry loop, and the start-up configuration of \<open>bootstrap.go\<close>.

  What the outside does is an input of the retry loop: \<open>task i\<close> is what the attempt \<open>i\<close> answers,
  \<open>ended i\<close> the context's error at the check before it and \<open>gone i\<close> the context's error where the wait
  after it ends with the context rather than the timer. How long a wait lasts
  (\<open>calculateRetryDelay\<close>, floating point and random) does not change what the loop answers and is not
  modelled. Multiplier and jitter are the rational values of finite floats.
\<close>

subsection \<open>Retry policies\<close>

record retry_policy =
  rp_maxAttempts :: int
  rp_initialDelay :: duration
  rp_maxDelay :: duration
  rp_multiplier :: rat
  rp_jitter :: rat
  rp_shouldRetry :: "(wf_error \<Rightarrow> bool) option"

definition default_retry_policy :: retry_policy where
  "default_retry_policy =
     \<lparr>rp_maxAttempts = 3, rp_initialDelay = 100000000, rp_maxDelay = seconds 10,
      rp_multiplier = 2, rp_jitter = 1 / 10, rp_shouldRetry = Some (\<lambda>_. True)\<rparr>"

definition normalize_policy :: "retry_policy \<Rightarrow> retry_policy" where
  "normalize_policy p =
     (let d = default_retry_policy in
      \<lparr>rp_maxAttempts = (if rp_maxAttempts p < 1 then rp_maxAttempts d else rp_maxAttempts p),
       rp_initialDelay = (if rp_initialDelay p < 0 then rp_initialDelay d else rp_initialDelay p),
       rp_maxDelay = (if rp_maxDelay p \<le> 0 then rp_maxDelay d else rp_maxDelay p),
       rp_multiplier = (if rp_multiplier p \<le> 0 then rp_multiplier d else rp_multiplier p),
       rp_jitter = (if rp_jitter p < 0 then rp_jitter d else rp_jitter p),
       rp_shouldRetry = (if rp_shouldRetry p = None then rp_shouldRetry d else rp_shouldRetry p)\<rparr>)"

definition should_retry :: "retry_policy \<Rightarrow> wf_error \<Rightarrow> bool" where
  "should_retry p e = (case rp_shouldRetry p of Some f \<Rightarrow> f e | None \<Rightarrow> True)"

subsection \<open>The retry loop\<close>

text \<open>The answer, with the number of attempts made. \<open>n\<close> is \<open>MaxAttempts\<close> and \<open>i\<close> the attempt; the
  answer of an exhausted loop joins the sentinel with the last error (none before the first attempt).\<close>

function retry_loop ::
    "(wf_error \<Rightarrow> bool) \<Rightarrow> (nat \<Rightarrow> wf_error option) \<Rightarrow> (nat \<Rightarrow> wf_error option) \<Rightarrow> (nat \<Rightarrow> wf_error option)
     \<Rightarrow> nat \<Rightarrow> nat \<Rightarrow> wf_error option \<Rightarrow> wf_error option \<times> nat" where
  "retry_loop retry task ended gone n i last1 =
     (if i < n then
        (case ended i of
           Some e \<Rightarrow> (Some e, i)
         | None \<Rightarrow>
             (case task i of
                None \<Rightarrow> (None, Suc i)
              | Some err \<Rightarrow>
                  if \<not> retry err then (Some err, Suc i)
                  else if i < n - 1 then
                    (case gone i of
                       Some e \<Rightarrow> (Some e, Suc i)
                     | None \<Rightarrow> retry_loop retry task ended gone n (Suc i) (Some err))
                  else retry_loop retry task ended gone n (Suc i) (Some err)))
      else (Some (case last1 of None \<Rightarrow> ErrMaxAttemptsExceeded | Some e \<Rightarrow> JoinErr ErrMaxAttemptsExceeded e), i))"
  by pat_completeness auto
termination by (relation "measure (\<lambda>(retry, task, ended, gone, n, i, last1). n - i)") auto

declare retry_loop.simps [simp del]

definition run_with_retry ::
    "(nat \<Rightarrow> wf_error option) \<Rightarrow> (nat \<Rightarrow> wf_error option) \<Rightarrow> (nat \<Rightarrow> wf_error option) \<Rightarrow> retry_policy
     \<Rightarrow> wf_error option \<times> nat" where
  "run_with_retry task ended gone policy =
     (let p = normalize_policy policy
      in retry_loop (should_retry p) task ended gone (nat (rp_maxAttempts p)) 0 None)"

definition wrap_task_error :: "string \<Rightarrow> wf_error \<Rightarrow> wf_error" where
  "wrap_task_error name e =
     (if trim_space name = '''' then e else WrapErr (''workflow task '' @ name) e)"

text \<open>\<open>WithRetryPolicy\<close> stores the normalised policy; a nil option is skipped, the last one wins.\<close>

definition retry_option :: "retry_policy \<Rightarrow> retry_policy option \<Rightarrow> retry_policy option" where
  "retry_option policy cfg = Some (normalize_policy policy)"

definition run_config :: "retry_policy option list \<Rightarrow> retry_policy option" where
  "run_config opts = fold (\<lambda>o1 cfg. case o1 of None \<Rightarrow> cfg | Some p \<Rightarrow> retry_option p cfg) opts None"

definition manager_run ::
    "string \<Rightarrow> (nat \<Rightarrow> wf_error option) option \<Rightarrow> (nat \<Rightarrow> wf_error option) \<Rightarrow> (nat \<Rightarrow> wf_error option)
     \<Rightarrow> retry_policy option list \<Rightarrow> wf_error option \<times> nat" where
  "manager_run name task ended gone opts =
     (case task of
        None \<Rightarrow> (Some ErrNilTask, 0)
      | Some t \<Rightarrow>
          (case run_config opts of
             None \<Rightarrow> (map_option (wrap_task_error name) (t 0), 1)
           | Some p \<Rightarrow> apfst (map_option (wrap_task_error name)) (run_with_retry t ended gone p)))"

subsection \<open>Dispatching through the manager\<close>

text \<open>\<open>WithQueue\<close> trims the name; a nil option is skipped.\<close>

definition dispatch_queue :: "string option list \<Rightarrow> string" where
  "dispatch_queue opts = fold (\<lambda>o1 q. case o1 of None \<Rightarrow> q | Some name \<Rightarrow> trim_space name) opts ''''"

definition wf_dispatch ::
    "('p, 'd) codec \<Rightarrow> string \<Rightarrow> instant \<Rightarrow> string \<times> string \<Rightarrow> ('s, 'p, 't) manager
     \<Rightarrow> (wf_error + 'd) job option \<Rightarrow> string option list \<Rightarrow> 's \<Rightarrow> (wf_error option \<times> 's) option" where
  "wf_dispatch cd uuid now trace m job1 opts s =
     (case job1 of
        None \<Rightarrow> Some (Some ErrNilJob, s)
      | Some j \<Rightarrow>
          map_option err_of
            (let q = dispatch_queue opts
             in if q \<noteq> '''' then dispatch_task_to cd uuid now trace m q j s
                else dispatch_task cd uuid now trace m j s))"

definition wf_dispatch_after ::
    "('p, 'd) codec \<Rightarrow> string \<Rightarrow> instant \<Rightarrow> string \<times> string \<Rightarrow> ('s, 'p, 't) manager \<Rightarrow> duration
     \<Rightarrow> (wf_error + 'd) job option \<Rightarrow> string option list \<Rightarrow> 's \<Rightarrow> (wf_error option \<times> 's) option" where
  "wf_dispatch_after cd uuid now trace m delay job1 opts s =
     (case job1 of
        None \<Rightarrow> Some (Some ErrNilJob, s)
      | Some j \<Rightarrow>
          (let q = dispatch_queue opts
           in later_to cd uuid now trace m (if q \<noteq> '''' then q else qm_defaultQueue m) delay j s))"

subsection \<open>Bootstrap\<close>

record 'db runtime_config =
  rc_driver :: string
  rc_defaultQueue :: string
  rc_bufferSize :: int
  rc_database :: "'db option"

text \<open>\<open>strings.ToLower\<close> on ASCII text.\<close>

definition lower_char :: "char \<Rightarrow> char" where
  "lower_char c = (let n = (of_char c :: nat) in if 65 \<le> n \<and> n \<le> 90 then char_of (n + 32) else c)"

definition to_lower :: "string \<Rightarrow> string" where
  "to_lower s = map lower_char s"

definition new_postgres_driver :: "('db \<Rightarrow> ('s, 'p) driver) \<Rightarrow> 'db option \<Rightarrow> wf_error + ('s, 'p) driver" where
  "new_postgres_driver mk db =
     (case db of None \<Rightarrow> Inl (Errorf ''postgres workflow driver requires a database'') | Some d \<Rightarrow> Inr (mk d))"

text \<open>\<open>new_sync\<close>, \<open>new_memory\<close> and \<open>new_postgres\<close> build the drivers of the other theories: a fresh
  synchronous driver, a memory driver with a buffer size, a durable driver on a database.\<close>

definition driver_name :: "'db runtime_config \<Rightarrow> string" where
  "driver_name cfg =
     (let n = to_lower (trim_space (rc_driver cfg)) in if n = '''' then ''sync'' else n)"

definition bootstrap_driver ::
    "('s, 'p) driver \<Rightarrow> (int \<Rightarrow> ('s, 'p) driver) \<Rightarrow> ('db \<Rightarrow> ('s, 'p) driver)
     \<Rightarrow> 'db runtime_config \<Rightarrow> ('s, 'p, 't) manager \<Rightarrow> wf_error option \<times> ('s, 'p, 't) manager" where
  "bootstrap_driver new_sync new_memory new_postgres cfg m =
     (let name = driver_name cfg
      in if name = ''sync'' then (None, register_driver ''sync'' new_sync m)
         else if name = ''memory''
         then (None, if qm_drivers m ''memory'' = None
               then register_driver ''memory''
                      (new_memory (if rc_bufferSize cfg < 1 then 256 else rc_bufferSize cfg)) m
               else m)
         else if name = ''postgres''
         then (case new_postgres_driver new_postgres (rc_database cfg) of
                 Inl e \<Rightarrow> (Some e, m)
               | Inr d \<Rightarrow> (None, register_driver ''postgres'' d m))
         else (Some (Errorf ''unsupported queue driver''), m))"

definition bootstrap ::
    "('s, 'p) driver \<Rightarrow> (int \<Rightarrow> ('s, 'p) driver) \<Rightarrow> ('db \<Rightarrow> ('s, 'p) driver)
     \<Rightarrow> 'db runtime_config \<Rightarrow> ('s, 'p, 't) manager \<Rightarrow> wf_error option \<times> ('s, 'p, 't) manager" where
  "bootstrap new_sync new_memory new_postgres cfg m =
     (case bootstrap_driver new_sync new_memory new_postgres cfg m of
        (Some e, m1) \<Rightarrow> (Some e, m1)
      | (None, m1) \<Rightarrow>
          (case set_default_driver (driver_name cfg) m1 of
             (Some e, m2) \<Rightarrow> (Some e, m2)
           | (None, m2) \<Rightarrow>
               (None, if trim_space (rc_defaultQueue cfg) \<noteq> ''''
                      then set_default_queue (rc_defaultQueue cfg) m2 else m2)))"


subsection \<open>Properties\<close>

lemma normalize_idem [simp]: "normalize_policy (normalize_policy p) = normalize_policy p"
  by (auto simp: normalize_policy_def default_retry_policy_def Let_def)

lemma normalize_attempts: "1 \<le> rp_maxAttempts (normalize_policy p)"
  by (simp add: normalize_policy_def default_retry_policy_def Let_def)

text \<open>What the loop guarantees from attempt \<open>i\<close> on: every attempt before the last failed with an error
  worth retrying, and the answer is settled by the last attempt and by the context.\<close>

definition retry_outcome ::
    "(wf_error \<Rightarrow> bool) \<Rightarrow> (nat \<Rightarrow> wf_error option) \<Rightarrow> (nat \<Rightarrow> wf_error option) \<Rightarrow> (nat \<Rightarrow> wf_error option)
     \<Rightarrow> nat \<Rightarrow> nat \<Rightarrow> wf_error option \<times> nat \<Rightarrow> bool" where
  "retry_outcome retry task ended gone n i r \<longleftrightarrow>
     snd r \<le> n
     \<and> (\<forall>k. i \<le> k \<and> k + 1 < snd r \<longrightarrow> (\<exists>e. task k = Some e \<and> retry e))
     \<and> (case fst r of
          None \<Rightarrow> i < snd r \<and> task (snd r - 1) = None
        | Some e \<Rightarrow> (snd r < n \<and> ended (snd r) = Some e \<and> (i < snd r \<longrightarrow> (\<exists>x. task (snd r - 1) = Some x \<and> retry x)))
            \<or> (0 < snd r \<and> snd r < n \<and> gone (snd r - 1) = Some e
                \<and> (\<exists>x. task (snd r - 1) = Some x \<and> retry x))
            \<or> (i < snd r \<and> task (snd r - 1) = Some e \<and> \<not> retry e)
            \<or> (snd r = n \<and> (\<exists>x. task (n - 1) = Some x \<and> retry x \<and> e = JoinErr ErrMaxAttemptsExceeded x)))"

lemma retry_outcome_step:
  assumes "retry_outcome retry task ended gone n (Suc i) r" "Suc i \<le> snd r" "task i = Some e" "retry e"
  shows "retry_outcome retry task ended gone n i r \<and> i \<le> snd r"
proof -
  have "\<exists>e. task k = Some e \<and> retry e" if "i \<le> k" "k + 1 < snd r" for k
    using that assms by (cases "k = i") (auto simp: retry_outcome_def)
  moreover have "i < snd r \<longrightarrow> (\<exists>x. task (snd r - 1) = Some x \<and> retry x)"
    if "Suc i < snd r \<longrightarrow> (\<exists>x. task (snd r - 1) = Some x \<and> retry x)"
    using that assms by (cases "snd r = Suc i") auto
  ultimately show ?thesis using assms by (cases "fst r") (auto simp: retry_outcome_def)
qed

lemma retry_loop_outcome:
  assumes "i \<le> n" "0 < n" and "0 < i \<Longrightarrow> \<exists>e. last1 = Some e \<and> task (i - 1) = Some e \<and> retry e"
  shows "retry_outcome retry task ended gone n i (retry_loop retry task ended gone n i last1) \<and> i \<le> snd (retry_loop retry task ended gone n i last1)"
  using assms
proof (induction retry task ended gone n i last1 rule: retry_loop.induct)
  case (1 retry task ended gone n i last1)
  show ?case
  proof (cases "i < n")
    case False
    with 1(3,4,5) obtain e where "i = n" "last1 = Some e" "task (n - 1) = Some e" "retry e" by force
    then show ?thesis by (auto simp: retry_loop.simps [of _ _ _ _ _ n] retry_outcome_def)
  next
    case i: True
    show ?thesis
    proof (cases "ended i")
      case (Some e)
      with i show ?thesis by (auto simp: retry_loop.simps [of _ _ _ _ _ i] retry_outcome_def)
    next
      case e: None
      show ?thesis
      proof (cases "task i")
        case None
        with i e show ?thesis by (auto simp: retry_loop.simps [of _ _ _ _ _ i] retry_outcome_def)
      next
        case (Some err)
        show ?thesis
        proof (cases "retry err \<and> (i < n - 1 \<longrightarrow> gone i = None)")
          case False
          with i e Some show ?thesis
            by (auto simp: retry_loop.simps [of _ _ _ _ _ i] retry_outcome_def)
        next
          case True
          let ?r = "retry_loop retry task ended gone n (Suc i) (Some err)"
          have eq: "retry_loop retry task ended gone n i last1 = ?r"
            using i e Some True by (subst retry_loop.simps) auto
          have "retry_outcome retry task ended gone n (Suc i) ?r \<and> Suc i \<le> snd ?r"
          proof (cases "i < n - 1")
            case ii: True
            show ?thesis by (rule 1(1) [OF i e Some _ ii]) (use True ii i Some in auto)
          next
            case False
            show ?thesis by (rule 1(2) [OF i e Some _ False]) (use True False i Some in auto)
          qed
          with Some True show ?thesis unfolding eq by (intro retry_outcome_step [where e = err]) auto
        qed
      qed
    qed
  qed
qed


lemma run_config_last: "run_config (opts @ [Some p]) = Some (normalize_policy p)"
  by (simp add: run_config_def retry_option_def)

lemma run_with_retry_outcome:
  fixes policy :: retry_policy
  defines "p \<equiv> normalize_policy policy"
  shows "retry_outcome (should_retry p) task ended gone (nat (rp_maxAttempts p)) 0 (run_with_retry task ended gone policy)"
  using retry_loop_outcome [of 0 "nat (rp_maxAttempts p)" None task "should_retry p" ended gone]
    normalize_attempts [of policy] unfolding run_with_retry_def p_def Let_def by simp

text \<open>With a context that never ends, the loop answers success exactly when some attempt in reach does.\<close>

lemma retry_success:
  assumes "retry_outcome retry task ended gone n 0 r" and "\<And>k. ended k = None \<and> gone k = None"
  shows "fst r = None \<longleftrightarrow> (\<exists>k<n. task k = None \<and> (\<forall>j<k. \<exists>e. task j = Some e \<and> retry e))"
proof
  assume "fst r = None"
  with assms(1) show "\<exists>k<n. task k = None \<and> (\<forall>j<k. \<exists>e. task j = Some e \<and> retry e)"
    by (intro exI [of _ "snd r - 1"]) (auto simp: retry_outcome_def)
next
  assume "\<exists>k<n. task k = None \<and> (\<forall>j<k. \<exists>e. task j = Some e \<and> retry e)"
  then obtain k where k: "k < n" "task k = None" "\<And>j. j < k \<Longrightarrow> \<exists>e. task j = Some e \<and> retry e" by blast
  have calls: "snd r \<le> k + 1"
  proof (rule ccontr)
    assume "\<not> snd r \<le> k + 1"
    moreover have "\<forall>k. k + 1 < snd r \<longrightarrow> (\<exists>e. task k = Some e \<and> retry e)"
      using assms(1) by (simp add: retry_outcome_def)
    ultimately show False using k(2) by (metis not_le option.distinct(1))
  qed
  show "fst r = None"
  proof (cases "fst r")
    case (Some e)
    with assms(1,2) have "(0 < snd r \<and> task (snd r - 1) = Some e \<and> \<not> retry e) \<or>
        (snd r = n \<and> (\<exists>x. task (n - 1) = Some x))" by (auto simp: retry_outcome_def)
    then show ?thesis
    proof
      assume a: "0 < snd r \<and> task (snd r - 1) = Some e \<and> \<not> retry e"
      with k(2) have "snd r - 1 \<noteq> k" by auto
      with calls have "snd r - 1 < k" by linarith
      from k(3) [OF this] a show ?thesis by auto
    next
      assume "snd r = n \<and> (\<exists>x. task (n - 1) = Some x)"
      moreover with calls k(1) have "k = n - 1" by linarith
      ultimately show ?thesis using k(2) by simp
    qed
  qed simp
qed

lemma wrap_is: "errors_is e x \<Longrightarrow> errors_is (wrap_task_error name e) x"
  by (simp add: wrap_task_error_def)

text \<open>C36: A step run under a retry policy is attempted at most the policy's maximum number of times (three
  where the policy gives less than one), again only after an error worth retrying, and succeeds exactly
  when its last attempt does. With a live context it succeeds exactly when an attempt in reach succeeds,
  and a failure carries the last attempt's error, with ErrMaxAttemptsExceeded once the attempts are
  used up.\<close>

theorem retries_follow_the_policy:
  fixes policy :: retry_policy and name :: string and task ended gone :: "nat \<Rightarrow> wf_error option"
    and opts :: "retry_policy option list"
  defines "p \<equiv> normalize_policy policy"
  defines "r \<equiv> manager_run name (Some task) ended gone (opts @ [Some policy])"
    and "n \<equiv> nat (if rp_maxAttempts policy < 1 then 3 else rp_maxAttempts policy)"
  shows "snd r \<le> n \<and> (\<forall>k. k + 1 < snd r \<longrightarrow> (\<exists>e. task k = Some e \<and> should_retry p e))
    \<and> (fst r = None \<longleftrightarrow> 0 < snd r \<and> task (snd r - 1) = None)
    \<and> ((\<forall>k. ended k = None \<and> gone k = None) \<longrightarrow>
        (fst r = None \<longleftrightarrow> (\<exists>k<n. task k = None \<and> (\<forall>j<k. \<exists>e. task j = Some e \<and> should_retry p e)))
        \<and> (\<forall>e. fst r = Some e \<longrightarrow> (\<exists>x. task (snd r - 1) = Some x \<and> errors_is e x
              \<and> (should_retry p x \<longrightarrow> snd r = n \<and> errors_is e ErrMaxAttemptsExceeded))))"
proof -
  let ?q = "run_with_retry task ended gone p"
  have r: "fst r = map_option (wrap_task_error name) (fst ?q)" "snd r = snd ?q"
    by (simp_all add: r_def manager_run_def run_config_last p_def)
  have n: "n = nat (rp_maxAttempts p)"
    by (simp add: n_def p_def normalize_policy_def default_retry_policy_def Let_def)
  have "retry_outcome (should_retry p) task ended gone n 0 ?q"
    using run_with_retry_outcome [of p task ended gone] by (simp add: n p_def)
  note o = this retry_success [OF this]
  show ?thesis
  proof (intro conjI impI)
    show "fst r = None \<longleftrightarrow> 0 < snd r \<and> task (snd r - 1) = None"
      using o(1) unfolding r by (cases "fst ?q") (auto simp: retry_outcome_def)
    assume live: "\<forall>k. ended k = None \<and> gone k = None"
    with o(2) show "fst r = None \<longleftrightarrow> (\<exists>k<n. task k = None \<and> (\<forall>j<k. \<exists>e. task j = Some e \<and> should_retry p e))"
      unfolding r by simp
    show "\<forall>e. fst r = Some e \<longrightarrow> (\<exists>x. task (snd r - 1) = Some x \<and> errors_is e x
              \<and> (should_retry p x \<longrightarrow> snd r = n \<and> errors_is e ErrMaxAttemptsExceeded))"
      using o(1) live unfolding r by (auto simp: retry_outcome_def wrap_is)
  qed (use o(1) in \<open>auto simp: r retry_outcome_def\<close>)
qed

theorem retries_follow_the_policy_witness:
  "snd (manager_run ''sync'' (Some (\<lambda>i. if i = 2 then None else Some (HandlerErr ''busy''))) (\<lambda>_. None) (\<lambda>_. None)
      [Some (default_retry_policy\<lparr>rp_maxAttempts := 5\<rparr>)]) \<le> 5
    \<and> fst (manager_run ''sync'' (Some (\<lambda>i. if i = 2 then None else Some (HandlerErr ''busy''))) (\<lambda>_. None) (\<lambda>_. None)
      [Some (default_retry_policy\<lparr>rp_maxAttempts := 5\<rparr>)]) = None"
proof -
  let ?t = "\<lambda>i. if i = (2::nat) then None else Some (HandlerErr ''busy'')"
  let ?p = "default_retry_policy\<lparr>rp_maxAttempts := 5\<rparr>"
  have p: "should_retry (normalize_policy ?p) e" for e
    by (simp add: normalize_policy_def default_retry_policy_def should_retry_def Let_def)
  have n: "nat (if rp_maxAttempts ?p < 1 then 3 else rp_maxAttempts ?p) = 5" by simp
  have k: "\<exists>k<5. ?t k = None \<and> (\<forall>j<k. \<exists>e. ?t j = Some e \<and> should_retry (normalize_policy ?p) e)"
    by (intro exI [of _ 2]) (simp add: p)
  from retries_follow_the_policy [of "''sync''" ?t "\<lambda>_. None" "\<lambda>_. None" "[]" ?p, unfolded n append_Nil] k
  show ?thesis by blast
qed


text \<open>Bootstrap configures exactly what was asked for or reports an error: on success the default
  driver is registered and is the one named, lower-cased and trimmed and sync where the name is blank; a
  memory driver that exists is kept, with the jobs in it; the default queue changes only to a name that is
  not blank; an unknown driver or a durable driver without a database is an error that leaves the manager
  as it was.\<close>

theorem bootstrap_configures_or_fails:
  fixes m :: "('s, 'p, 't) manager" and cfg :: "'db runtime_config" and new_sync :: "('s, 'p) driver"
    and new_memory :: "int \<Rightarrow> ('s, 'p) driver" and new_postgres :: "'db \<Rightarrow> ('s, 'p) driver"
  defines "r \<equiv> bootstrap new_sync new_memory new_postgres cfg m" and "nm \<equiv> driver_name cfg"
  shows "(case fst r of
      Some e \<Rightarrow> snd r = m \<and> (nm \<notin> {''sync'', ''memory'', ''postgres''} \<or> nm = ''postgres'' \<and> rc_database cfg = None)
    | None \<Rightarrow> qm_drivers (snd r) nm \<noteq> None \<and> default_driver_name (snd r) = nm
        \<and> default_driver (snd r) = qm_drivers (snd r) nm
        \<and> (\<forall>d. nm = ''memory'' \<longrightarrow> qm_drivers m ''memory'' = Some d \<longrightarrow> default_driver (snd r) = Some d)
        \<and> qm_defaultQueue (snd r) = (if trim_space (rc_defaultQueue cfg) = '''' then qm_defaultQueue m
                                      else rc_defaultQueue cfg))"
proof -
  have known: "trim_space ''sync'' = ''sync''" "trim_space ''memory'' = ''memory''" "trim_space ''postgres'' = ''postgres''"
    by (code_simp)+
  show ?thesis
  proof (cases "nm = ''sync'' \<or> nm = ''memory'' \<or> nm = ''postgres''")
    case True
    then show ?thesis
      by (auto simp: r_def nm_def bootstrap_def bootstrap_driver_def register_driver_def set_default_driver_def
          default_driver_def default_driver_name_def set_default_queue_def new_postgres_driver_def known Let_def
          split: option.splits sum.splits)
  next
    case False
    then show ?thesis by (simp add: r_def nm_def bootstrap_def bootstrap_driver_def Let_def)
  qed
qed

definition plain_manager :: "(unit job_payload sync_state, unit job_payload, unit) manager" where
  "plain_manager = new_queue_manager (sync_driver sample_codec sample_runtime None)"

definition memory_config :: "unit runtime_config" where
  "memory_config = \<lparr>rc_driver = '' Memory '', rc_defaultQueue = ''mail'', rc_bufferSize = 0, rc_database = None\<rparr>"

theorem bootstrap_configures_or_fails_witness:
  "fst (bootstrap (sync_driver sample_codec sample_runtime None) (\<lambda>n. (sync_driver sample_codec sample_runtime None)) (\<lambda>db. (sync_driver sample_codec sample_runtime None)) memory_config plain_manager) = None
    \<and> default_driver_name (snd (bootstrap (sync_driver sample_codec sample_runtime None) (\<lambda>n. (sync_driver sample_codec sample_runtime None)) (\<lambda>db. (sync_driver sample_codec sample_runtime None)) memory_config plain_manager)) = ''memory''"
proof -
  have n: "driver_name memory_config = ''memory''" by code_simp
  show ?thesis
    using bootstrap_configures_or_fails [of "sync_driver sample_codec sample_runtime None" "\<lambda>n. (sync_driver sample_codec sample_runtime None)" "\<lambda>db. (sync_driver sample_codec sample_runtime None)" memory_config plain_manager, unfolded n]
    by (cases "fst (bootstrap (sync_driver sample_codec sample_runtime None) (\<lambda>n. (sync_driver sample_codec sample_runtime None)) (\<lambda>db. (sync_driver sample_codec sample_runtime None)) memory_config plain_manager)") simp_all
qed

end
