(* ===== verification/Scheduler.thy ===== *)
theory Scheduler
  imports Workflow_Types
begin

text \<open>
  The scheduler of \<open>api/internal/capabilities/workflow/scheduler.go\<close> and \<open>schedule_plan.go\<close>: the
  event builders, the field matcher behind \<open>IsDue\<close>, one run of an event, the scheduler's loop
  state, and \<open>Manager.RunDue\<close> of \<open>workflow.go\<close>.

  A time zone is a value of type \<open>'z\<close>, and \<open>civil\<close> says what a clock in it shows at an instant.
  Callbacks are numbered; a run lists what it calls, in order. Strings are byte strings.
\<close>

subsection \<open>Numbers and fields\<close>

definition byte_of :: "char \<Rightarrow> int" where
  "byte_of c = int (of_char c)"

text \<open>\<open>c - '0'\<close> on bytes wraps.\<close>

definition digit_of :: "char \<Rightarrow> int" where
  "digit_of c = (byte_of c - 48) mod 256"

text \<open>\<open>string(rune(n))\<close>: UTF-8, with the replacement character for what is not a code point.\<close>

definition rune_string :: "int \<Rightarrow> string" where
  "rune_string n =
     (let b = (\<lambda>k :: int. char_of (nat k))
      in if 0 \<le> n \<and> n < 128 then [b n]
         else if 128 \<le> n \<and> n < 2048 then [b (192 + n div 64), b (128 + n mod 64)]
         else if 2048 \<le> n \<and> n < 65536 \<and> \<not> (55296 \<le> n \<and> n < 57344)
         then [b (224 + n div 4096), b (128 + (n div 64) mod 64), b (128 + n mod 64)]
         else if 65536 \<le> n \<and> n < 1114112
         then [b (240 + n div 262144), b (128 + (n div 4096) mod 64), b (128 + (n div 64) mod 64), b (128 + n mod 64)]
         else [b 239, b 191, b 189])"

text \<open>The conversion of an \<open>int\<close> to \<open>rune\<close> keeps 32 bits.\<close>

definition as_rune :: "int \<Rightarrow> int" where
  "as_rune n = (n + 2147483648) mod 4294967296 - 2147483648"

definition itoa :: "int \<Rightarrow> string" where
  "itoa i = (if i < 10 then rune_string (as_rune (48 + i))
             else rune_string (as_rune (48 + i div 10)) @ rune_string (as_rune (48 + i mod 10)))"

definition parse_time :: "string \<Rightarrow> int \<times> int" where
  "parse_time s =
     (if length s \<ge> 5 \<and> s ! 2 = CHR '':''
      then (digit_of (s ! 0) * 10 + digit_of (s ! 1), digit_of (s ! 3) * 10 + digit_of (s ! 4))
      else (0, 0))"

fun parse_digits :: "int \<Rightarrow> string \<Rightarrow> int" where
  "parse_digits n [] = n"
| "parse_digits n (c # cs) =
     parse_digits (if 48 \<le> byte_of c \<and> byte_of c \<le> 57 then n * 10 + (byte_of c - 48) else n) cs"

definition parse_num :: "string \<Rightarrow> int" where
  "parse_num s = parse_digits 0 s"

function match_list :: "string \<Rightarrow> int \<Rightarrow> bool" where
  "match_list [] v = False"
| "match_list (c # cs) v =
     (parse_num (takeWhile (\<lambda>x. x \<noteq> CHR '','') (c # cs)) = v
      \<or> match_list (drop 1 (dropWhile (\<lambda>x. x \<noteq> CHR '','') (c # cs))) v)"
  by pat_completeness auto
termination
proof (relation "measure (\<lambda>(s, _). length s)")
  fix c :: char and cs v
  have "length (dropWhile (\<lambda>x. x \<noteq> CHR '','') (c # cs)) \<le> length (c # cs)" by (rule length_dropWhile_le)
  then show "((drop 1 (dropWhile (\<lambda>x. x \<noteq> CHR '','') (c # cs)), v), (c # cs, v)) \<in> measure (\<lambda>(s, _). length s)"
    by (cases "dropWhile (\<lambda>x. x \<noteq> CHR '','') (c # cs)") auto
qed simp

text \<open>\<open>matchField\<close>; \<open>None\<close> is the panic of a division by zero. Numbers are unbounded: the code's wrap
  only for fields of more than eighteen digits.\<close>

definition match_field :: "string \<Rightarrow> int \<Rightarrow> bool option" where
  "match_field field v =
     (if field = ''*'' then Some True
      else if length field > 2 \<and> field ! 0 = CHR ''*'' \<and> field ! 1 = CHR ''/''
      then (let s1 = digit_of (field ! 2);
                step = (if length field > 3 then s1 * 10 + digit_of (field ! 3) else s1)
            in if step = 0 then None else Some (v mod step = 0))
      else if CHR ''-'' \<in> set field
      then (let before = takeWhile (\<lambda>x. x \<noteq> CHR ''-'') field;
                after = drop 1 (dropWhile (\<lambda>x. x \<noteq> CHR ''-'') field)
            in Some (v \<ge> parse_num before \<and> v \<le> parse_num after))
      else Some (match_list field v))"

subsection \<open>Events\<close>

record 'z sched_event =
  ev_name :: string
  ev_expression :: string
  ev_timezone :: 'z
  ev_withoutOverlap :: bool
  ev_background :: bool
  ev_minute :: string
  ev_hour :: string
  ev_dayOfMonth :: string
  ev_month :: string
  ev_dayOfWeek :: string
  ev_before :: "nat list"
  ev_after :: "nat list"
  ev_onSuccess :: "nat option"
  ev_onFailure :: "nat option"

definition new_event :: "'z \<Rightarrow> string \<Rightarrow> 'z sched_event" where
  "new_event local name =
     \<lparr>ev_name = name, ev_expression = '''', ev_timezone = local, ev_withoutOverlap = False,
      ev_background = False, ev_minute = ''*'', ev_hour = ''*'', ev_dayOfMonth = ''*'',
      ev_month = ''*'', ev_dayOfWeek = ''*'', ev_before = [], ev_after = [], ev_onSuccess = None,
      ev_onFailure = None\<rparr>"

datatype frequency =
    Cron string
  | EveryMinute | EveryTwoMinutes | EveryFiveMinutes | EveryTenMinutes | EveryFifteenMinutes
  | EveryThirtyMinutes
  | Hourly | HourlyAt int
  | Daily | DailyAt int int | At int int | TwiceDaily int int
  | Weekly | WeeklyOn int string
  | Monthly | MonthlyOn int int int | Quarterly | Yearly

primrec set_frequency :: "frequency \<Rightarrow> 'z sched_event \<Rightarrow> 'z sched_event" where
  "set_frequency (Cron x) e = e\<lparr>ev_expression := x\<rparr>"
| "set_frequency EveryMinute e = e\<lparr>ev_minute := ''*''\<rparr>"
| "set_frequency EveryTwoMinutes e = e\<lparr>ev_minute := ''*/2''\<rparr>"
| "set_frequency EveryFiveMinutes e = e\<lparr>ev_minute := ''*/5''\<rparr>"
| "set_frequency EveryTenMinutes e = e\<lparr>ev_minute := ''*/10''\<rparr>"
| "set_frequency EveryFifteenMinutes e = e\<lparr>ev_minute := ''*/15''\<rparr>"
| "set_frequency EveryThirtyMinutes e = e\<lparr>ev_minute := ''*/30''\<rparr>"
| "set_frequency Hourly e = e\<lparr>ev_minute := ''0''\<rparr>"
| "set_frequency (HourlyAt m) e = e\<lparr>ev_minute := itoa m\<rparr>"
| "set_frequency Daily e = e\<lparr>ev_minute := ''0'', ev_hour := ''0''\<rparr>"
| "set_frequency (DailyAt h m) e = e\<lparr>ev_minute := itoa m, ev_hour := itoa h\<rparr>"
| "set_frequency (At h m) e = e\<lparr>ev_minute := itoa m, ev_hour := itoa h\<rparr>"
| "set_frequency (TwiceDaily h1 h2) e = e\<lparr>ev_minute := ''0'', ev_hour := itoa h1 @ '','' @ itoa h2\<rparr>"
| "set_frequency Weekly e = e\<lparr>ev_minute := ''0'', ev_hour := ''0'', ev_dayOfWeek := ''0''\<rparr>"
| "set_frequency (WeeklyOn day s) e =
     e\<lparr>ev_dayOfWeek := itoa day, ev_hour := itoa (fst (parse_time s)), ev_minute := itoa (snd (parse_time s))\<rparr>"
| "set_frequency Monthly e = e\<lparr>ev_minute := ''0'', ev_hour := ''0'', ev_dayOfMonth := ''1''\<rparr>"
| "set_frequency (MonthlyOn d h m) e = e\<lparr>ev_dayOfMonth := itoa d, ev_hour := itoa h, ev_minute := itoa m\<rparr>"
| "set_frequency Quarterly e =
     e\<lparr>ev_minute := ''0'', ev_hour := ''0'', ev_dayOfMonth := ''1'', ev_month := ''1,4,7,10''\<rparr>"
| "set_frequency Yearly e =
     e\<lparr>ev_minute := ''0'', ev_hour := ''0'', ev_dayOfMonth := ''1'', ev_month := ''1''\<rparr>"

datatype day_filter =
    Weekdays | Weekends | Mondays | Tuesdays | Wednesdays | Thursdays | Fridays | Saturdays | Sundays

primrec set_days :: "day_filter \<Rightarrow> 'z sched_event \<Rightarrow> 'z sched_event" where
  "set_days Weekdays e = e\<lparr>ev_dayOfWeek := ''1-5''\<rparr>"
| "set_days Weekends e = e\<lparr>ev_dayOfWeek := ''0,6''\<rparr>"
| "set_days Mondays e = e\<lparr>ev_dayOfWeek := ''1''\<rparr>"
| "set_days Tuesdays e = e\<lparr>ev_dayOfWeek := ''2''\<rparr>"
| "set_days Wednesdays e = e\<lparr>ev_dayOfWeek := ''3''\<rparr>"
| "set_days Thursdays e = e\<lparr>ev_dayOfWeek := ''4''\<rparr>"
| "set_days Fridays e = e\<lparr>ev_dayOfWeek := ''5''\<rparr>"
| "set_days Saturdays e = e\<lparr>ev_dayOfWeek := ''6''\<rparr>"
| "set_days Sundays e = e\<lparr>ev_dayOfWeek := ''0''\<rparr>"

text \<open>\<open>Timezone\<close> carries what \<open>time.LoadLocation\<close> answers for the name.\<close>

datatype 'z event_option =
    WithoutOverlapping | RunInBackground | Timezone "'z option"
  | Before nat | After nat | OnSuccess nat | OnFailure nat

primrec set_option :: "'z event_option \<Rightarrow> 'z sched_event \<Rightarrow> 'z sched_event" where
  "set_option WithoutOverlapping e = e\<lparr>ev_withoutOverlap := True\<rparr>"
| "set_option RunInBackground e = e\<lparr>ev_background := True\<rparr>"
| "set_option (Timezone loc) e = (case loc of None \<Rightarrow> e | Some z \<Rightarrow> e\<lparr>ev_timezone := z\<rparr>)"
| "set_option (Before f) e = e\<lparr>ev_before := ev_before e @ [f]\<rparr>"
| "set_option (After f) e = e\<lparr>ev_after := ev_after e @ [f]\<rparr>"
| "set_option (OnSuccess f) e = e\<lparr>ev_onSuccess := Some f\<rparr>"
| "set_option (OnFailure f) e = e\<lparr>ev_onFailure := Some f\<rparr>"

subsection \<open>When an event is due\<close>

record clock =
  ck_minute :: int
  ck_hour :: int
  ck_day :: int
  ck_month :: int
  ck_weekday :: int

fun all_match :: "(string \<times> int) list \<Rightarrow> bool option" where
  "all_match [] = Some True"
| "all_match ((f, v) # fs) =
     (case match_field f v of None \<Rightarrow> None
      | Some b \<Rightarrow> if b then all_match fs else Some False)"

definition is_due :: "('z \<Rightarrow> instant \<Rightarrow> clock) \<Rightarrow> 'z sched_event \<Rightarrow> instant \<Rightarrow> bool option" where
  "is_due civil e t =
     (let c = civil (ev_timezone e) t
      in all_match [(ev_minute e, ck_minute c), (ev_hour e, ck_hour c), (ev_dayOfMonth e, ck_day c),
                    (ev_month e, ck_month c), (ev_dayOfWeek e, ck_weekday c)])"

subsection \<open>Running an event\<close>

datatype call = CallBefore nat | RunTask | CallSuccess nat | CallFailure nat wf_error | CallAfter nat | Spawn

definition outcome_calls :: "'z sched_event \<Rightarrow> wf_error option \<Rightarrow> call list" where
  "outcome_calls e res =
     (case res of
        Some err \<Rightarrow> (case ev_onFailure e of Some f \<Rightarrow> [CallFailure f err] | None \<Rightarrow> [])
      | None \<Rightarrow> (case ev_onSuccess e of Some f \<Rightarrow> [CallSuccess f] | None \<Rightarrow> []))"

text \<open>\<open>running\<close> is the flag of \<open>WithoutOverlapping\<close> when the call takes the lock, \<open>res\<close> the task's
  answer. In the background mode the task and its outcome callbacks belong to the goroutine.\<close>

definition event_run :: "'z sched_event \<Rightarrow> bool \<Rightarrow> wf_error option \<Rightarrow> call list \<times> wf_error option" where
  "event_run e running res =
     (if ev_withoutOverlap e \<and> running then ([], None)
      else (map CallBefore (ev_before e)
            @ (if ev_background e then [Spawn] else RunTask # outcome_calls e res)
            @ map CallAfter (ev_after e),
            if ev_background e then None else res))"

text \<open>The overlap flag under concurrent calls: the calls inside \<open>Run\<close>, the foreground tasks and the
  background goroutines in progress.\<close>

record overlap =
  ov_running :: bool
  ov_inRun :: nat
  ov_background :: nat

definition run_enter :: "'z sched_event \<Rightarrow> overlap \<Rightarrow> overlap option" where
  "run_enter e o1 =
     (if ev_withoutOverlap e
      then if ov_running o1 then None
           else Some (o1\<lparr>ov_running := True, ov_inRun := ov_inRun o1 + 1,
                         ov_background := ov_background o1 + (if ev_background e then 1 else 0)\<rparr>)
      else Some (o1\<lparr>ov_inRun := ov_inRun o1 + 1,
                    ov_background := ov_background o1 + (if ev_background e then 1 else 0)\<rparr>))"

definition run_leave :: "'z sched_event \<Rightarrow> overlap \<Rightarrow> overlap" where
  "run_leave e o1 =
     o1\<lparr>ov_inRun := ov_inRun o1 - 1, ov_running := (if ev_withoutOverlap e then False else ov_running o1)\<rparr>"

inductive overlap_step :: "'z sched_event \<Rightarrow> overlap \<Rightarrow> overlap \<Rightarrow> bool" for e where
  enter: "run_enter e o1 = Some o2 \<Longrightarrow> overlap_step e o1 o2"
| leave: "0 < ov_inRun o1 \<Longrightarrow> overlap_step e o1 (run_leave e o1)"
| goroutine_end: "0 < ov_background o1 \<Longrightarrow> overlap_step e o1 (o1\<lparr>ov_background := ov_background o1 - 1\<rparr>)"

definition idle_overlap :: overlap where
  "idle_overlap = \<lparr>ov_running = False, ov_inRun = 0, ov_background = 0\<rparr>"

inductive overlap_reach :: "'z sched_event \<Rightarrow> overlap \<Rightarrow> bool" for e where
  idle: "overlap_reach e idle_overlap"
| step: "overlap_reach e o1 \<Longrightarrow> overlap_step e o1 o2 \<Longrightarrow> overlap_reach e o2"

text \<open>The tasks in progress: in the foreground mode those of the calls inside \<open>Run\<close>.\<close>

definition tasks_running :: "'z sched_event \<Rightarrow> overlap \<Rightarrow> nat" where
  "tasks_running e o1 = (if ev_background e then ov_background o1 else ov_inRun o1)"

subsection \<open>The scheduler\<close>

record 'z scheduler =
  sd_events :: "'z sched_event list"
  sd_running :: bool

definition new_scheduler :: "'z scheduler" where
  "new_scheduler = \<lparr>sd_events = [], sd_running = False\<rparr>"

definition sched_register :: "'z sched_event \<Rightarrow> 'z scheduler \<Rightarrow> 'z scheduler" where
  "sched_register e s = s\<lparr>sd_events := sd_events s @ [e]\<rparr>"

definition sched_clear :: "'z scheduler \<Rightarrow> 'z scheduler" where
  "sched_clear s = s\<lparr>sd_events := []\<rparr>"

fun due_events :: "('z \<Rightarrow> instant \<Rightarrow> clock) \<Rightarrow> instant \<Rightarrow> 'z sched_event list \<Rightarrow> 'z sched_event list option" where
  "due_events civil t [] = Some []"
| "due_events civil t (e # es) =
     (case is_due civil e t of None \<Rightarrow> None
      | Some b \<Rightarrow> map_option (\<lambda>r. if b then e # r else r) (due_events civil t es))"

text \<open>\<open>Scheduler.Run\<close> runs every due event and logs failures; \<open>busy e\<close> is the overlap flag of \<open>e\<close> when
  it is run and \<open>res e\<close> what its task answers.\<close>

definition sched_run ::
    "('z \<Rightarrow> instant \<Rightarrow> clock) \<Rightarrow> instant \<Rightarrow> ('z sched_event \<Rightarrow> bool) \<Rightarrow> ('z sched_event \<Rightarrow> wf_error option)
     \<Rightarrow> 'z scheduler \<Rightarrow> ('z sched_event \<times> call list \<times> wf_error option) list option" where
  "sched_run civil now busy res s =
     map_option (map (\<lambda>e. (e, event_run e (busy e) (res e)))) (due_events civil now (sd_events s))"

text \<open>\<open>Manager.RunDue\<close> stops at the first event that fails; the events run are listed with their calls.\<close>

fun run_events ::
    "('z sched_event \<Rightarrow> bool) \<Rightarrow> ('z sched_event \<Rightarrow> wf_error option) \<Rightarrow> 'z sched_event list
     \<Rightarrow> ('z sched_event \<times> call list) list \<times> wf_error option" where
  "run_events busy res [] = ([], None)"
| "run_events busy res (e # es) =
     (case event_run e (busy e) (res e) of
        (calls, Some err) \<Rightarrow> ([(e, calls)], Some (WrapErr (''workflow schedule '' @ ev_name e) err))
      | (calls, None) \<Rightarrow> apfst (Cons (e, calls)) (run_events busy res es))"

definition run_due ::
    "('z \<Rightarrow> instant \<Rightarrow> clock) \<Rightarrow> instant \<Rightarrow> ('z sched_event \<Rightarrow> bool) \<Rightarrow> ('z sched_event \<Rightarrow> wf_error option)
     \<Rightarrow> 'z scheduler \<Rightarrow> (('z sched_event \<times> call list) list \<times> wf_error option) option" where
  "run_due civil now busy res s =
     map_option (run_events busy res) (due_events civil now (sd_events s))"

text \<open>\<open>Start\<close> enters the loop when the flag is down and raises it; nothing on the way out of the loop
  changes the flag. \<open>Stop\<close> takes it down.\<close>

definition sched_start :: "'z scheduler \<Rightarrow> bool \<times> 'z scheduler" where
  "sched_start s = (if sd_running s then (False, s) else (True, s\<lparr>sd_running := True\<rparr>))"

definition sched_stop :: "'z scheduler \<Rightarrow> 'z scheduler" where
  "sched_stop s = (if sd_running s then s\<lparr>sd_running := False\<rparr> else s)"


end
