(* ===== verification/Scheduler_Props.thy ===== *)
theory Scheduler_Props
  imports Scheduler
begin

text \<open>
  What the scheduler promises: the builders fire exactly when their names say, an event without
  overlap runs one foreground task at a time, and \<open>RunDue\<close> runs the due events in order up to the
  first failure. The last section states where the code does less than its comments say.
\<close>

subsection \<open>Numbers in fields\<close>

definition digit :: "char \<Rightarrow> bool" where
  "digit c \<longleftrightarrow> 48 \<le> byte_of c \<and> byte_of c \<le> 57"

lemma byte_of_char_of: "0 \<le> k \<Longrightarrow> k < 256 \<Longrightarrow> byte_of (char_of (nat k)) = k"
  by (simp add: byte_of_def of_char_of nat_less_iff)

lemma digit_not_special:
  assumes "digit c" shows "c \<noteq> CHR ''*''" "c \<noteq> CHR '',''" "c \<noteq> CHR ''-''" "c \<noteq> CHR '':''"
  using assms by (auto simp: digit_def byte_of_def)

lemma itoa_small:
  assumes "0 \<le> n" "n < 100"
  shows "parse_num (itoa n) = n \<and> itoa n \<noteq> [] \<and> list_all digit (itoa n)"
proof (cases "n < 10")
  case True
  then have "itoa n = [char_of (nat (48 + n))]"
    using assms by (simp add: itoa_def as_rune_def rune_string_def Let_def)
  moreover have "byte_of (char_of (nat (48 + n))) = 48 + n"
    using True assms by (intro byte_of_char_of) simp_all
  ultimately show ?thesis using True assms by (simp add: parse_num_def digit_def)
next
  case False
  let ?a = "48 + n div 10" and ?b = "48 + n mod 10"
  have r: "48 \<le> ?a" "?a \<le> 57" "48 \<le> ?b" "?b \<le> 57" using assms by auto
  then have "itoa n = [char_of (nat ?a), char_of (nat ?b)]"
    using False by (simp add: itoa_def as_rune_def rune_string_def Let_def)
  moreover have "byte_of (char_of (nat ?a)) = ?a" "byte_of (char_of (nat ?b)) = ?b"
    using r by (simp_all add: byte_of_char_of)
  ultimately show ?thesis using r by (simp add: parse_num_def digit_def)
qed

lemma takeWhile_digits:
  assumes "list_all digit xs"
  shows "takeWhile (\<lambda>x. x \<noteq> CHR '','') (xs @ CHR '','' # ys) = xs"
    and "dropWhile (\<lambda>x. x \<noteq> CHR '','') (xs @ CHR '','' # ys) = CHR '','' # ys"
    and "takeWhile (\<lambda>x. x \<noteq> CHR '','') xs = xs" and "dropWhile (\<lambda>x. x \<noteq> CHR '','') xs = []"
  using assms by (induction xs) (auto simp: digit_not_special)

lemma match_list_digits:
  assumes "list_all digit xs" "xs \<noteq> []"
  shows "match_list xs v = (parse_num xs = v)"
    and "match_list (xs @ CHR '','' # ys) v = (parse_num xs = v \<or> match_list ys v)"
  using assms takeWhile_digits [OF assms(1)] by (cases xs; simp)+

lemma no_dash:
  "list_all digit xs \<Longrightarrow> CHR ''-'' \<notin> set xs"
  using digit_not_special(3) by (metis list_all_iff)

lemma match_field_digits:
  assumes "list_all digit xs" "xs \<noteq> []"
  shows "match_field xs v = Some (v = parse_num xs)"
proof -
  have "xs \<noteq> ''*''" "xs ! 0 \<noteq> CHR ''*''" using assms by (cases xs; auto simp: digit_not_special)+
  with assms show ?thesis by (auto simp: match_field_def no_dash match_list_digits)
qed

lemma match_field_pair:
  assumes "list_all digit xs" "xs \<noteq> []" "list_all digit ys" "ys \<noteq> []"
  shows "match_field (xs @ '','' @ ys) v = Some (v = parse_num xs \<or> v = parse_num ys)"
proof -
  have "xs @ '','' @ ys \<noteq> ''*''" "(xs @ '','' @ ys) ! 0 \<noteq> CHR ''*''"
    using assms by (cases xs; auto simp: digit_not_special)+
  moreover have "CHR ''-'' \<notin> set (xs @ '','' @ ys)" using assms by (simp add: no_dash)
  ultimately show ?thesis using assms by (auto simp: match_field_def match_list_digits)
qed

lemma match_itoa:
  "0 \<le> n \<Longrightarrow> n < 100 \<Longrightarrow> match_field (itoa n) v = Some (v = n)"
  using itoa_small [of n] match_field_digits [of "itoa n" v] by auto

lemma match_itoa_pair:
  assumes "0 \<le> n" "n < 100" "0 \<le> k" "k < 100"
  shows "match_field (itoa n @ CHR '','' # itoa k) v = Some (v = n \<or> v = k)"
  using itoa_small [OF assms(1,2)] itoa_small [OF assms(3,4)] match_field_pair [of "itoa n" "itoa k" v] by auto

lemma match_constants [simp]:
  "match_field ''*'' v = Some True"
  "match_field ''0'' v = Some (v = 0)" "match_field ''1'' v = Some (v = 1)" "match_field ''2'' v = Some (v = 2)"
  "match_field ''3'' v = Some (v = 3)" "match_field ''4'' v = Some (v = 4)" "match_field ''5'' v = Some (v = 5)"
  "match_field ''6'' v = Some (v = 6)" "match_field ''1-5'' v = Some (1 \<le> v \<and> v \<le> 5)"
  "match_field ''0,6'' v = Some (v = 0 \<or> v = 6)" "match_field ''1,4,7,10'' v = Some (v \<in> {1, 4, 7, 10})"
  "match_field ''*/2'' v = Some (v mod 2 = 0)" "match_field ''*/5'' v = Some (v mod 5 = 0)"
  "match_field ''*/10'' v = Some (v mod 10 = 0)" "match_field ''*/15'' v = Some (v mod 15 = 0)"
  "match_field ''*/30'' v = Some (v mod 30 = 0)"
  by (auto simp: match_field_def parse_num_def byte_of_def digit_of_def Let_def)


subsection \<open>The builders\<close>

text \<open>A time of day as text, HH:MM.\<close>

definition clock_text :: "int \<Rightarrow> int \<Rightarrow> string" where
  "clock_text h m =
     (let b = (\<lambda>k :: int. char_of (nat (48 + k)))
      in [b (h div 10), b (h mod 10), CHR '':'', b (m div 10), b (m mod 10)])"

definition is_clock_text :: "string \<Rightarrow> bool" where
  "is_clock_text s \<longleftrightarrow> (\<exists>h \<in> {0..23}. \<exists>m \<in> {0..59}. s = clock_text h m)"



text \<open>What the names of the builders say about the clock.\<close>

primrec fires :: "frequency \<Rightarrow> clock \<Rightarrow> bool" where
  "fires (Cron x) c = False"
| "fires EveryMinute c = True"
| "fires EveryTwoMinutes c = (ck_minute c mod 2 = 0)"
| "fires EveryFiveMinutes c = (ck_minute c mod 5 = 0)"
| "fires EveryTenMinutes c = (ck_minute c mod 10 = 0)"
| "fires EveryFifteenMinutes c = (ck_minute c mod 15 = 0)"
| "fires EveryThirtyMinutes c = (ck_minute c mod 30 = 0)"
| "fires Hourly c = (ck_minute c = 0)"
| "fires (HourlyAt m) c = (ck_minute c = m)"
| "fires Daily c = ((ck_hour c, ck_minute c) = (0, 0))"
| "fires (DailyAt h m) c = ((ck_hour c, ck_minute c) = (h, m))"
| "fires (At h m) c = ((ck_hour c, ck_minute c) = (h, m))"
| "fires (TwiceDaily h1 h2) c = (ck_hour c \<in> {h1, h2} \<and> ck_minute c = 0)"
| "fires Weekly c = ((ck_weekday c, ck_hour c, ck_minute c) = (0, 0, 0))"
| "fires (WeeklyOn day s) c = (ck_weekday c = day \<and> s = clock_text (ck_hour c) (ck_minute c))"
| "fires Monthly c = ((ck_day c, ck_hour c, ck_minute c) = (1, 0, 0))"
| "fires (MonthlyOn d h m) c = ((ck_day c, ck_hour c, ck_minute c) = (d, h, m))"
| "fires Quarterly c = (ck_month c \<in> {1, 4, 7, 10} \<and> (ck_day c, ck_hour c, ck_minute c) = (1, 0, 0))"
| "fires Yearly c = ((ck_month c, ck_day c, ck_hour c, ck_minute c) = (1, 1, 0, 0))"

primrec on_day :: "day_filter \<Rightarrow> clock \<Rightarrow> bool" where
  "on_day Weekdays c = (1 \<le> ck_weekday c \<and> ck_weekday c \<le> 5)"
| "on_day Weekends c = (ck_weekday c \<in> {0, 6})"
| "on_day Mondays c = (ck_weekday c = 1)"
| "on_day Tuesdays c = (ck_weekday c = 2)"
| "on_day Wednesdays c = (ck_weekday c = 3)"
| "on_day Thursdays c = (ck_weekday c = 4)"
| "on_day Fridays c = (ck_weekday c = 5)"
| "on_day Saturdays c = (ck_weekday c = 6)"
| "on_day Sundays c = (ck_weekday c = 0)"

text \<open>The arguments that name a time: two-digit fields, and a text of the form HH:MM.\<close>

fun sensible :: "frequency \<Rightarrow> bool" where
  "sensible (Cron x) = False"
| "sensible (HourlyAt m) = (0 \<le> m \<and> m < 60)"
| "sensible (DailyAt h m) = (0 \<le> h \<and> h < 24 \<and> 0 \<le> m \<and> m < 60)"
| "sensible (At h m) = (0 \<le> h \<and> h < 24 \<and> 0 \<le> m \<and> m < 60)"
| "sensible (TwiceDaily h1 h2) = (0 \<le> h1 \<and> h1 < 24 \<and> 0 \<le> h2 \<and> h2 < 24)"
| "sensible (WeeklyOn day s) = (0 \<le> day \<and> day < 7 \<and> is_clock_text s)"
| "sensible (MonthlyOn d h m) = (1 \<le> d \<and> d \<le> 31 \<and> 0 \<le> h \<and> h < 24 \<and> 0 \<le> m \<and> m < 60)"
| "sensible _ = True"

fun sets_weekday :: "frequency \<Rightarrow> bool" where
  "sets_weekday Weekly = True"
| "sets_weekday (WeeklyOn _ _) = True"
| "sets_weekday _ = False"


lemma parse_clock_text:
  assumes "0 \<le> h" "h < 24" "0 \<le> m" "m < 60"
  shows "parse_time (clock_text h m) = (h, m)"
proof -
  have d: "digit_of (char_of (nat (48 + k))) = k" if "0 \<le> k" "k < 10" for k
    using that by (simp add: digit_of_def byte_of_char_of)
  have "0 \<le> h div 10" "h div 10 < 10" "0 \<le> m div 10" "m div 10 < 10" using assms by auto
  then show ?thesis by (simp add: parse_time_def clock_text_def d Let_def)
qed

lemma due_weekly_on:
  assumes "0 \<le> day" "day < 7" "is_clock_text s"
    and "0 \<le> ck_hour c" "ck_hour c < 24" "0 \<le> ck_minute c" "ck_minute c < 60"
  shows "all_match [(itoa (snd (parse_time s)), ck_minute c), (itoa (fst (parse_time s)), ck_hour c),
      (''*'', d), (''*'', mo), (itoa day, ck_weekday c)] = Some (fires (WeeklyOn day s) c)"
proof -
  from assms(3) obtain h m where s: "s = clock_text h m" and r: "0 \<le> h" "h \<le> 23" "0 \<le> m" "m \<le> 59"
    by (auto simp: is_clock_text_def)
  then have p: "parse_time s = (h, m)" by (simp add: parse_clock_text)
  have eq: "(s = clock_text (ck_hour c) (ck_minute c)) = (ck_hour c = h \<and> ck_minute c = m)"
    using p s parse_clock_text [OF assms(4-7)] by (metis prod.inject)
  have "match_field (itoa m) v = Some (v = m)" "match_field (itoa h) v = Some (v = h)"
    "match_field (itoa day) v = Some (v = day)" for v
    using r assms(1,2) by (simp_all add: match_itoa)
  then show ?thesis by (simp add: p eq)
qed

lemmas due_unfold = is_due_def new_event_def Let_def match_itoa match_itoa_pair

lemma due_frequency:
  fixes civil :: "'z \<Rightarrow> instant \<Rightarrow> clock"
  assumes "sensible f" and "0 \<le> ck_hour c" "ck_hour c < 24" "0 \<le> ck_minute c" "ck_minute c < 60"
    and "c = civil z t"
  shows "is_due civil (set_frequency f (new_event z0 name)\<lparr>ev_timezone := z\<rparr>) t = Some (fires f c)"
proof (cases f)
  case (WeeklyOn day s)
  with due_weekly_on [of day s c "ck_day c" "ck_month c"] assms show ?thesis by (auto simp: is_due_def new_event_def Let_def)
qed (use assms in \<open>auto simp: due_unfold\<close>)

lemma due_frequency_on_day:
  fixes civil :: "'z \<Rightarrow> instant \<Rightarrow> clock"
  assumes "sensible f" "\<not> sets_weekday f" "c = civil z t"
  shows "is_due civil ((set_days d (set_frequency f (new_event z0 name)))\<lparr>ev_timezone := z\<rparr>) t
    = Some (fires f c \<and> on_day d c)"
proof -
  have day: "\<exists>fld. set_days d e = e\<lparr>ev_dayOfWeek := fld\<rparr> \<and> match_field fld (ck_weekday c) = Some (on_day d c)" for e :: "'z sched_event"
    by (cases d) auto
  obtain fld where fld: "\<And>e :: 'z sched_event. set_days d e = e\<lparr>ev_dayOfWeek := fld\<rparr>"
    "match_field fld (ck_weekday c) = Some (on_day d c)"
    using day by (cases d) auto
  show ?thesis using assms fld(2) by (cases f) (auto simp: due_unfold fld(1))
qed

text \<open>The schedule builders mean what their names say: for sensible arguments an event is due exactly
  at the minutes its frequency names, read on the clock of the event's time zone, and a day filter
  restricts a frequency that names no weekday to those days.\<close>

theorem schedule_fires_when_it_says:
  fixes civil :: "'z \<Rightarrow> instant \<Rightarrow> clock" and loc :: "'z option" and local :: 'z and t :: instant
  defines "c \<equiv> civil (case loc of Some z \<Rightarrow> z | None \<Rightarrow> local) t"
  assumes "sensible f"
    and "0 \<le> ck_hour c" "ck_hour c < 24" "0 \<le> ck_minute c" "ck_minute c < 60"
  shows "is_due civil (set_option (Timezone loc) (set_frequency f (new_event local name))) t = Some (fires f c)
    \<and> (\<not> sets_weekday f \<longrightarrow>
        is_due civil (set_option (Timezone loc) (set_days d (set_frequency f (new_event local name)))) t
          = Some (fires f c \<and> on_day d c))"
proof (cases loc)
  case (Some z)
  then show ?thesis using assms due_frequency [of f c civil z t local name]
      due_frequency_on_day [of f c civil z t d local name] by auto
next
  case None
  have tz: "ev_timezone (set_frequency f (new_event local name)) = local"
    "ev_timezone (set_days d (set_frequency f (new_event local name))) = local"
    by (cases f; cases d; simp add: new_event_def)+
  have "e\<lparr>ev_timezone := local\<rparr> = e" if "ev_timezone e = local" for e :: "'z sched_event" using that by simp
  from this [OF tz(1)] this [OF tz(2)] None assms due_frequency [of f c civil local t local name]
      due_frequency_on_day [of f c civil local t d local name] show ?thesis by auto
qed

definition sample_clock :: "unit \<Rightarrow> instant \<Rightarrow> clock" where
  "sample_clock z t = \<lparr>ck_minute = 30, ck_hour = 9, ck_day = 1, ck_month = 6, ck_weekday = 1\<rparr>"

theorem schedule_fires_when_it_says_witness:
  "is_due sample_clock (set_option (Timezone None) (set_days Weekdays (set_frequency (DailyAt 9 30) (new_event () ''report'')))) 0
     = Some True"
  using schedule_fires_when_it_says [where f = "DailyAt 9 30" and civil = sample_clock and loc = None and local = "()" and t = 0 and name = "''report''" and d = Weekdays]
  by (simp add: sample_clock_def)


subsection \<open>What the code does not do\<close>

text \<open>A custom cron expression has no effect: an event built with Cron alone is due at every
  instant, whatever the expression.\<close>

theorem cron_expression_is_ignored:
  "is_due civil (set_frequency (Cron expr) e) t = is_due civil e t
    \<and> is_due civil (set_frequency (Cron expr) (new_event local name)) t = Some True"
  by (simp add: is_due_def new_event_def Let_def)

subsection \<open>Overlap\<close>

text \<open>With the overlap flag: the flag is up exactly while a call is inside \<open>Run\<close>.\<close>

lemma overlap_invariant:
  assumes "overlap_reach e o1" and "ev_withoutOverlap e"
  shows "ov_inRun o1 = (if ov_running o1 then 1 else 0)"
  using assms(1)
proof induction
  case (step o1 o2)
  from step(2,3) show ?case
    by cases (auto simp: run_enter_def run_leave_def assms(2) split: if_splits)
qed (simp add: idle_overlap_def)

text \<open>An event without overlap that runs in the foreground never has two tasks in progress and is
  accepted again as soon as no call is inside Run, while in the background mode the flag goes down when
  Run returns, so two tasks of the same event can be in progress.\<close>

theorem without_overlapping_only_in_foreground:
  fixes e :: "'z sched_event"
  assumes "ev_withoutOverlap e"
  shows "(\<not> ev_background e \<longrightarrow>
        (\<forall>o1. overlap_reach e o1 \<longrightarrow> tasks_running e o1 \<le> 1 \<and> (ov_inRun o1 = 0 \<longrightarrow> run_enter e o1 \<noteq> None)))
    \<and> (ev_background e \<longrightarrow> (\<exists>o1. overlap_reach e o1 \<and> tasks_running e o1 = 2))"
proof (intro conjI impI)
  show "\<forall>o1. overlap_reach e o1 \<longrightarrow> tasks_running e o1 \<le> 1 \<and> (ov_inRun o1 = 0 \<longrightarrow> run_enter e o1 \<noteq> None)"
    if "\<not> ev_background e"
    using that overlap_invariant [OF _ assms]
    by (auto simp: tasks_running_def run_enter_def assms split: if_splits)
next
  assume b: "ev_background e"
  define o1 where "o1 = \<lparr>ov_running = True, ov_inRun = 1, ov_background = 1\<rparr>"
  define o2 where "o2 = \<lparr>ov_running = False, ov_inRun = 0, ov_background = 1\<rparr>"
  define o3 where "o3 = \<lparr>ov_running = True, ov_inRun = 1, ov_background = 2\<rparr>"
  have "overlap_step e idle_overlap o1"
    by (rule overlap_step.enter) (simp add: run_enter_def idle_overlap_def o1_def assms b)
  moreover have "overlap_step e o1 o2"
    using overlap_step.leave [of o1 e] by (simp add: run_leave_def o1_def o2_def assms)
  moreover have "overlap_step e o2 o3"
    by (rule overlap_step.enter) (simp add: run_enter_def o2_def o3_def assms b)
  ultimately have "overlap_reach e o3" by (meson overlap_reach.intros)
  then show "\<exists>o1. overlap_reach e o1 \<and> tasks_running e o1 = 2"
    by (intro exI [of _ o3]) (simp add: tasks_running_def o3_def b)
qed

theorem without_overlapping_only_in_foreground_witness:
  "\<exists>o1. overlap_reach (set_option RunInBackground (set_option WithoutOverlapping (new_event () ''sync''))) o1
     \<and> ov_background o1 = 2"
  using without_overlapping_only_in_foreground
    [of "set_option RunInBackground (set_option WithoutOverlapping (new_event () ''sync''))"]
  by (auto simp: tasks_running_def)

subsection \<open>Running the due events\<close>

lemma due_events_order:
  "due_events civil t es = Some ds \<Longrightarrow> ds = filter (\<lambda>e. is_due civil e t = Some True) es
     \<and> (\<forall>e \<in> set es. is_due civil e t \<noteq> None)"
  by (induction es arbitrary: ds) (auto split: option.splits if_splits)

lemma run_events_stops:
  assumes "run_events busy res es = (runs, err)"
  shows "\<exists>rest. es = map fst runs @ rest
    \<and> (\<forall>(e, calls) \<in> set runs. calls = fst (event_run e (busy e) (res e)))
    \<and> (case err of
         None \<Rightarrow> rest = [] \<and> (\<forall>e \<in> set es. snd (event_run e (busy e) (res e)) = None)
       | Some x \<Rightarrow> \<exists>before e calls y. runs = before @ [(e, calls)] \<and> res e = Some y
            \<and> x = WrapErr (''workflow schedule '' @ ev_name e) y
            \<and> (\<forall>e' \<in> set (map fst before). snd (event_run e' (busy e') (res e')) = None))"
  using assms
proof (induction es arbitrary: runs err)
  case (Cons e es)
  obtain calls r where er: "event_run e (busy e) (res e) = (calls, r)" by fastforce
  show ?case
  proof (cases r)
    case (Some y)
    with er have "res e = Some y" by (auto simp: event_run_def split: if_splits)
    with er Some Cons.prems show ?thesis by (auto simp: Cons_eq_append_conv)
  next
    case None
    obtain runs' err' where rec: "run_events busy res es = (runs', err')" by fastforce
    with None er Cons.prems have r: "runs = (e, calls) # runs'" "err = err'" by auto
    from Cons.IH [OF rec] obtain rest where IH: "es = map fst runs' @ rest"
      "\<forall>(e, calls) \<in> set runs'. calls = fst (event_run e (busy e) (res e))"
      "case err' of
         None \<Rightarrow> rest = [] \<and> (\<forall>e \<in> set es. snd (event_run e (busy e) (res e)) = None)
       | Some x \<Rightarrow> \<exists>before e calls y. runs' = before @ [(e, calls)] \<and> res e = Some y
            \<and> x = WrapErr (''workflow schedule '' @ ev_name e) y
            \<and> (\<forall>e' \<in> set (map fst before). snd (event_run e' (busy e') (res e')) = None)" by blast
    have ok: "snd (event_run e (busy e) (res e)) = None" using er None by simp
    show ?thesis
    proof (intro exI [of _ rest] conjI)
      show "case err of
         None \<Rightarrow> rest = [] \<and> (\<forall>e \<in> set (e # es). snd (event_run e (busy e) (res e)) = None)
       | Some x \<Rightarrow> \<exists>before e calls y. runs = before @ [(e, calls)] \<and> res e = Some y
            \<and> x = WrapErr (''workflow schedule '' @ ev_name e) y
            \<and> (\<forall>e' \<in> set (map fst before). snd (event_run e' (busy e') (res e')) = None)"
      proof (cases err')
        case (Some x)
        with IH(3) obtain before e' calls' y where *: "runs' = before @ [(e', calls')]" "res e' = Some y"
          "x = WrapErr (''workflow schedule '' @ ev_name e') y"
          "\<forall>e' \<in> set (map fst before). snd (event_run e' (busy e') (res e')) = None" by auto
        show ?thesis unfolding r Some option.case
          by (intro exI [of _ "(e, calls) # before"] exI [of _ e'] exI [of _ calls'] exI [of _ y])
            (use * ok in auto)
      qed (use IH(3) r ok in auto)
    qed (use IH r er in auto)
  qed
qed auto

text \<open>C39: RunDue runs the due events in the order they were registered: it answers no error exactly when
  all of them runs and none failed, and otherwise stops at the first failure and answers its error, wrapped
  with the schedule's name.\<close>

theorem run_due_stops_at_first_failure:
  fixes civil :: "'z \<Rightarrow> instant \<Rightarrow> clock"
  assumes "run_due civil now busy res s = Some (runs, err)"
  shows "\<exists>rest. filter (\<lambda>e. is_due civil e now = Some True) (sd_events s) = map fst runs @ rest
    \<and> (\<forall>(e, calls) \<in> set runs. calls = fst (event_run e (busy e) (res e)))
    \<and> (case err of
         None \<Rightarrow> rest = []
           \<and> (\<forall>e \<in> set (map fst runs). snd (event_run e (busy e) (res e)) = None)
       | Some x \<Rightarrow> \<exists>before e calls y. runs = before @ [(e, calls)] \<and> res e = Some y \<and> errors_is x y
            \<and> (\<forall>e' \<in> set (map fst before). snd (event_run e' (busy e') (res e')) = None))"
proof -
  from assms obtain ds where ds: "due_events civil now (sd_events s) = Some ds"
    "run_events busy res ds = (runs, err)" by (auto simp: run_due_def)
  from run_events_stops [OF ds(2)] due_events_order [OF ds(1)] show ?thesis
    by (cases err) (force simp: errors_is_wrap)+
qed

theorem run_due_stops_at_first_failure_witness:
  "\<exists>rest. filter (\<lambda>e. is_due sample_clock e 0 = Some True)
       [new_event () ''a'', new_event () ''b'', new_event () ''c''] = [new_event () ''a'', new_event () ''b''] @ rest"
proof -
  let ?res = "\<lambda>e :: unit sched_event. if ev_name e = ''b'' then Some (HandlerErr ''no'') else None"
  let ?s = "sched_register (new_event () ''c'') (sched_register (new_event () ''b'')
    (sched_register (new_event () ''a'') new_scheduler))"
  have "run_due sample_clock 0 (\<lambda>e. False) ?res ?s
      = Some ([(new_event () ''a'', [RunTask]), (new_event () ''b'', [RunTask])],
          Some (WrapErr ''workflow schedule b'' (HandlerErr ''no'')))"
    by (simp add: run_due_def sched_register_def new_scheduler_def is_due_def new_event_def
        event_run_def outcome_calls_def Let_def)
  from run_due_stops_at_first_failure [OF this] show ?thesis
    by (auto simp: sched_register_def new_scheduler_def)
qed

end
