(* ===== verification/Event_Pattern.thy ===== *)
theory Event_Pattern
  imports Prelude
begin

text \<open>
  Event names and subscription patterns: \<open>api/internal/infra/events/pattern.go\<close>. Names are split at
  dots; the matcher walks pattern and name with two indices and calls itself on the rest after a double
  star. The last part shows that it decides the rule its documentation gives.
\<close>

subsection \<open>The matcher\<close>

text \<open>\<open>matchParts\<close> with its two indices.\<close>

function match_at :: "string list \<Rightarrow> string list \<Rightarrow> nat \<Rightarrow> nat \<Rightarrow> bool" where
  "match_at pattern event pi ei =
     (if pi < length pattern then
        (let p = pattern ! pi
         in if p = ''**'' then
              (if pi = length pattern - 1 then True
               else list_ex (\<lambda>i. match_at (drop (pi + 1) pattern) (drop i event) 0 0) [ei..<length event + 1])
            else if p = ''*'' then
              (if length event \<le> ei then False else match_at pattern event (pi + 1) (ei + 1))
            else if length event \<le> ei \<or> p \<noteq> event ! ei then False
            else match_at pattern event (pi + 1) (ei + 1))
      else length event \<le> ei)"
  by pat_completeness auto
termination by (relation "measure (\<lambda>(pattern, event, pi, ei). length pattern - pi)") auto

declare match_at.simps [simp del]

definition match_parts :: "string list \<Rightarrow> string list \<Rightarrow> bool" where
  "match_parts pattern event = match_at pattern event 0 0"

definition match_pattern :: "string \<Rightarrow> string \<Rightarrow> bool" where
  "match_pattern pattern eventName =
     (if pattern = eventName then True
      else if pattern = ''**'' then True
      else match_parts (split_on CHR ''.'' pattern) (split_on CHR ''.'' eventName))"

definition validate_pattern :: "string \<Rightarrow> bool" where
  "validate_pattern pattern =
     (if pattern = '''' then False else list_all (\<lambda>part. part \<noteq> '''') (split_on CHR ''.'' pattern))"

subsection \<open>The rule\<close>

text \<open>A pattern matches a name when the name's segments can be cut into one piece per pattern segment:
  any piece for a double star, a piece of one segment for a star, the segment itself otherwise.\<close>

definition piece :: "string \<Rightarrow> string list \<Rightarrow> bool" where
  "piece p segs \<longleftrightarrow> (if p = ''**'' then True else if p = ''*'' then length segs = 1 else segs = [p])"

definition covers :: "string list \<Rightarrow> string list \<Rightarrow> bool" where
  "covers ps segs \<longleftrightarrow> (\<exists>pieces. list_all2 piece ps pieces \<and> concat pieces = segs)"

lemma covers_Nil [simp]: "covers [] segs \<longleftrightarrow> segs = []"
  by (auto simp: covers_def)

lemma covers_Cons:
  "covers (p # ps) segs \<longleftrightarrow> (\<exists>i \<le> length segs. piece p (take i segs) \<and> covers ps (drop i segs))"
proof
  assume "covers (p # ps) segs"
  then obtain x pieces where "piece p x" "list_all2 piece ps pieces" "segs = x @ concat pieces"
    by (auto simp: covers_def list_all2_Cons1)
  then show "\<exists>i \<le> length segs. piece p (take i segs) \<and> covers ps (drop i segs)"
    by (intro exI [of _ "length x"]) (auto simp: covers_def)
next
  assume "\<exists>i \<le> length segs. piece p (take i segs) \<and> covers ps (drop i segs)"
  then obtain i pieces where "piece p (take i segs)" "list_all2 piece ps pieces" "concat pieces = drop i segs"
    by (auto simp: covers_def)
  then show "covers (p # ps) segs"
    unfolding covers_def by (intro exI [of _ "take i segs # pieces"]) simp
qed

lemma covers_star: "covers (''*'' # ps) segs \<longleftrightarrow> segs \<noteq> [] \<and> covers ps (tl segs)"
proof -
  have p: "piece ''*'' x = (length x = 1)" for x by (simp add: piece_def)
  show ?thesis
  proof (cases segs)
    case (Cons s ss)
    have "(\<exists>i \<le> length segs. piece ''*'' (take i segs) \<and> covers ps (drop i segs))
        = (\<exists>i. i = 1 \<and> covers ps (drop i segs))"
      unfolding p by (rule ex_cong1) (auto simp: Cons)
    with Cons show ?thesis by (simp add: covers_Cons)
  qed (simp add: covers_Cons p)
qed

lemma covers_literal:
  assumes "p \<noteq> ''*''" "p \<noteq> ''**''"
  shows "covers (p # ps) segs \<longleftrightarrow> segs \<noteq> [] \<and> p = hd segs \<and> covers ps (tl segs)"
proof (cases segs)
  case (Cons s ss)
  have p: "piece p x = (x = [p])" for x using assms by (simp add: piece_def)
  have "(\<exists>i \<le> length segs. piece p (take i segs) \<and> covers ps (drop i segs))
      = (\<exists>i. i = 1 \<and> p = s \<and> covers ps (drop i segs))"
    unfolding p by (rule ex_cong1) (auto simp: Cons take_Cons' split: if_splits)
  with Cons show ?thesis by (simp add: covers_Cons)
qed (use assms in \<open>simp add: covers_Cons piece_def\<close>)

lemma covers_double_star:
  "covers (''**'' # ps) segs \<longleftrightarrow> (\<exists>i \<le> length segs. covers ps (drop i segs))"
  by (simp add: covers_Cons piece_def)

lemma covers_last_double_star [simp]: "covers [''**''] segs"
  by (auto simp: covers_double_star)

lemma covers_refl: "covers ps ps"
proof (induction ps)
  case (Cons p ps)
  show ?case
  proof (cases "p = ''**''")
    case True
    with Cons show ?thesis by (auto simp: covers_double_star intro: exI [of _ 1])
  next
    case False
    with Cons show ?thesis by (cases "p = ''*''") (auto simp: covers_star covers_literal)
  qed
qed simp

lemma match_at_covers:
  "ei \<le> length event \<Longrightarrow> match_at pattern event pi ei = covers (drop pi pattern) (drop ei event)"
proof (induction pattern event pi ei rule: match_at.induct)
  case (1 pattern event pi ei)
  show ?case
  proof (cases "pi < length pattern")
    case False
    with 1(4) show ?thesis by (subst match_at.simps) auto
  next
    case pi: True
    then have d: "drop pi pattern = pattern ! pi # drop (pi + 1) pattern"
      by (simp add: Cons_nth_drop_Suc)
    have ev: "drop ei event \<noteq> [] \<longleftrightarrow> ei < length event" "tl (drop ei event) = drop (ei + 1) event"
      "ei < length event \<Longrightarrow> hd (drop ei event) = event ! ei"
      by (auto simp: hd_drop_conv_nth tl_drop drop_Suc)
    show ?thesis
    proof (cases "pattern ! pi = ''**''")
      case True
      show ?thesis
      proof (cases "pi = length pattern - 1")
        case last: True
        with pi have "drop (pi + 1) pattern = []" by simp
        with True last pi d show ?thesis by (subst match_at.simps) (simp add: Let_def)
      next
        case False
        have IH: "match_at (drop (pi + 1) pattern) (drop i event) 0 0 = covers (drop (pi + 1) pattern) (drop i event)"
          if "i \<in> set [ei..<length event + 1]" for i
          using 1(1) [OF pi refl True False that] by simp
        have "match_at pattern event pi ei \<longleftrightarrow> (\<exists>i \<in> {ei..length event}. covers (drop (pi + 1) pattern) (drop i event))"
          using pi True False IH by (subst match_at.simps) (auto simp: Let_def list_ex_iff)
        also have "\<dots> \<longleftrightarrow> (\<exists>i \<le> length event - ei. covers (drop (pi + 1) pattern) (drop i (drop ei event)))"
        proof
          assume "\<exists>i \<in> {ei..length event}. covers (drop (pi + 1) pattern) (drop i event)"
          then obtain i where "ei \<le> i" "i \<le> length event" "covers (drop (pi + 1) pattern) (drop i event)" by auto
          then show "\<exists>i \<le> length event - ei. covers (drop (pi + 1) pattern) (drop i (drop ei event))"
            by (intro exI [of _ "i - ei"]) auto
        qed (use 1(4) in \<open>auto intro!: bexI [of _ "_ + ei"]\<close>)
        finally show ?thesis unfolding d True covers_double_star by simp
      qed
    next
      case nd: False
      show ?thesis
      proof (cases "pattern ! pi = ''*''")
        case True
        with nd pi 1(2) [OF pi refl nd True] 1(4) show ?thesis
          by (subst match_at.simps) (auto simp: d covers_star ev Let_def not_le Suc_le_eq)
      next
        case False
        with nd pi 1(3) [OF pi refl nd False] 1(4) show ?thesis
          by (subst match_at.simps) (auto simp: d covers_literal ev Let_def not_le Suc_le_eq)
      qed
    qed
  qed
qed

text \<open>Subscription patterns follow their documentation: a pattern matches an event name exactly when
  the name's dot-separated segments can be cut into one piece per pattern segment, where a double star
  takes any number of segments, a star takes exactly one, and any other segment takes itself.\<close>

theorem pattern_matches_by_segments:
  "match_pattern pattern name \<longleftrightarrow>
     (\<exists>pieces. concat pieces = split_on CHR ''.'' name
       \<and> list_all2 (\<lambda>p segs. p = ''**'' \<or> p = ''*'' \<and> length segs = 1 \<or> p \<noteq> ''*'' \<and> segs = [p])
           (split_on CHR ''.'' pattern) pieces)"
proof -
  have pc: "piece = (\<lambda>p segs. p = ''**'' \<or> p = ''*'' \<and> length segs = 1 \<or> p \<noteq> ''*'' \<and> segs = [p])"
    by (auto simp: piece_def fun_eq_iff)
  have "split_on CHR ''.'' ''**'' = [''**'']" by simp
  then have "match_pattern pattern name = covers (split_on CHR ''.'' pattern) (split_on CHR ''.'' name)"
    by (auto simp: match_pattern_def match_parts_def match_at_covers covers_refl)
  then show ?thesis unfolding covers_def pc by blast
qed

end
