(* ===== verification/Event_Bus.thy ===== *)
theory Event_Bus
  imports Event_Pattern "HOL-Library.Multiset"
begin

text \<open>
  The event bus of \<open>api/internal/infra/events\<close>: \<open>types.go\<close> (events, metadata, subscriptions),
  \<open>bus.go\<close> (subscribing, publishing, middleware) and the retry, recovery and filter middleware of
  \<open>middleware.go\<close>.

  A handler takes the event and the state \<open>'w\<close> of everything it can touch, the bus apart: it returns or
  panics, and gives the new state. The context is read off that state. Each publication works on the
  handlers and middleware it copied under the lock, so a handler that subscribes or unsubscribes
  affects later publications only.
\<close>

subsection \<open>Events and handlers\<close>

datatype bus_error =
    ErrEventBusClosed
  | CtxEnded string
  | HandlerFailed string
  | PanicRecovered string
  | FailedAfterRetries int "bus_error option"
  | StoreFailed string

datatype outcome = Returned "bus_error option" | Panicked string

record metadata =
  md_id :: string
  md_correlationID :: string
  md_causationID :: string
  md_timestamp :: instant
  md_source :: string

text \<open>An event as published carries metadata when it implements \<open>Event\<close>.\<close>

record basic_event =
  be_name :: string
  be_occurredAt :: instant
  be_metadata :: "metadata option"

record event =
  en_name :: string
  en_occurredAt :: instant
  en_metadata :: metadata

definition wrap_event :: "string \<Rightarrow> basic_event \<Rightarrow> event" where
  "wrap_event uuid e =
     \<lparr>en_name = be_name e, en_occurredAt = be_occurredAt e,
      en_metadata = (case be_metadata e of
          Some m \<Rightarrow> m
        | None \<Rightarrow> \<lparr>md_id = uuid, md_correlationID = '''', md_causationID = '''',
                    md_timestamp = be_occurredAt e, md_source = ''''\<rparr>)\<rparr>"

type_synonym 'w handler = "event \<Rightarrow> 'w \<Rightarrow> outcome \<times> 'w"
type_synonym 'w middleware = "'w handler \<Rightarrow> 'w handler"

record 'w handler_entry =
  he_id :: string
  he_pattern :: string
  he_handler :: "'w handler"
  he_priority :: int
  he_async :: bool

record 'w event_bus =
  bu_handlers :: "'w handler_entry list"
  bu_middleware :: "'w middleware list"
  bu_closed :: bool

definition new_event_bus :: "'w event_bus" where
  "new_event_bus = \<lparr>bu_handlers = [], bu_middleware = [], bu_closed = False\<rparr>"

subsection \<open>Subscriptions\<close>

datatype subscribe_option = WithPriority int | WithAsync

primrec apply_subscribe_option :: "subscribe_option \<Rightarrow> int \<times> bool \<Rightarrow> int \<times> bool" where
  "apply_subscribe_option (WithPriority p) o1 = (p, snd o1)"
| "apply_subscribe_option WithAsync o1 = (fst o1, True)"

definition new_entry :: "string \<Rightarrow> string \<Rightarrow> 'w handler \<Rightarrow> subscribe_option list \<Rightarrow> 'w handler_entry" where
  "new_entry uuid pattern handler opts =
     (let o1 = fold apply_subscribe_option opts (0, False)
      in \<lparr>he_id = uuid, he_pattern = pattern, he_handler = handler, he_priority = fst o1, he_async = snd o1\<rparr>)"

text \<open>\<open>sort.SliceStable\<close>, higher priorities first.\<close>

definition by_priority :: "'w handler_entry list \<Rightarrow> 'w handler_entry list" where
  "by_priority hs = sort_key (\<lambda>h. - he_priority h) hs"

definition subscribe ::
    "string \<Rightarrow> string \<Rightarrow> 'w handler \<Rightarrow> subscribe_option list \<Rightarrow> 'w event_bus \<Rightarrow> 'w event_bus" where
  "subscribe uuid pattern handler opts b =
     b\<lparr>bu_handlers := by_priority (bu_handlers b @ [new_entry uuid pattern handler opts])\<rparr>"

fun drop_entry :: "string \<Rightarrow> 'w handler_entry list \<Rightarrow> 'w handler_entry list" where
  "drop_entry i [] = []"
| "drop_entry i (h # hs) = (if he_id h = i then hs else h # drop_entry i hs)"

definition unsubscribe_by_id :: "string \<Rightarrow> 'w event_bus \<Rightarrow> 'w event_bus" where
  "unsubscribe_by_id i b = b\<lparr>bu_handlers := drop_entry i (bu_handlers b)\<rparr>"

definition use_middleware :: "'w middleware list \<Rightarrow> 'w event_bus \<Rightarrow> 'w event_bus" where
  "use_middleware ms b = b\<lparr>bu_middleware := bu_middleware b @ ms\<rparr>"

definition bus_close :: "'w event_bus \<Rightarrow> 'w event_bus" where
  "bus_close b = b\<lparr>bu_closed := True\<rparr>"

definition bus_clear :: "'w event_bus \<Rightarrow> 'w event_bus" where
  "bus_clear b = b\<lparr>bu_handlers := [], bu_middleware := []\<rparr>"

definition handler_count :: "'w event_bus \<Rightarrow> int" where
  "handler_count b = int (length (bu_handlers b))"

definition has_subscribers :: "string \<Rightarrow> 'w event_bus \<Rightarrow> bool" where
  "has_subscribers eventName b = list_ex (\<lambda>h. match_pattern (he_pattern h) eventName) (bu_handlers b)"

subsection \<open>Publishing\<close>

definition find_matching_handlers :: "string \<Rightarrow> 'w event_bus \<Rightarrow> 'w handler_entry list" where
  "find_matching_handlers eventName b = filter (\<lambda>h. match_pattern (he_pattern h) eventName) (bu_handlers b)"

definition build_middleware_chain :: "'w handler \<Rightarrow> 'w middleware list \<Rightarrow> 'w handler" where
  "build_middleware_chain handler ms = foldr (\<lambda>m h. m h) ms handler"

text \<open>The loop over the matching handlers: the answer, the state, and the handlers started (an
  asynchronous one is started as a goroutine, whose run is not part of the publication).\<close>

fun run_handlers ::
    "('w \<Rightarrow> bus_error option) \<Rightarrow> 'w middleware list \<Rightarrow> event \<Rightarrow> 'w handler_entry list \<Rightarrow> 'w
     \<Rightarrow> outcome \<times> 'w \<times> 'w handler_entry list" where
  "run_handlers ctxErr ms ev [] w = (Returned None, w, [])"
| "run_handlers ctxErr ms ev (h # hs) w =
     (case ctxErr w of
        Some e \<Rightarrow> (Returned (Some e), w, [])
      | None \<Rightarrow>
          if he_async h then apsnd (apsnd (Cons h)) (run_handlers ctxErr ms ev hs w)
          else (case build_middleware_chain (he_handler h) ms ev w of
                  (Returned None, w1) \<Rightarrow> apsnd (apsnd (Cons h)) (run_handlers ctxErr ms ev hs w1)
                | (r, w1) \<Rightarrow> (r, w1, [h])))"

definition publish ::
    "('w \<Rightarrow> bus_error option) \<Rightarrow> string \<Rightarrow> basic_event \<Rightarrow> 'w event_bus \<Rightarrow> 'w
     \<Rightarrow> outcome \<times> 'w \<times> 'w handler_entry list" where
  "publish ctxErr uuid e b w =
     (if bu_closed b then (Returned (Some ErrEventBusClosed), w, [])
      else (let ev = wrap_event uuid e
            in run_handlers ctxErr (bu_middleware b) ev (find_matching_handlers (en_name ev) b) w))"

subsection \<open>Middleware\<close>

definition filter_middleware :: "(event \<Rightarrow> bool) \<Rightarrow> 'w middleware" where
  "filter_middleware p next1 = (\<lambda>ev w. if \<not> p ev then (Returned None, w) else next1 ev w)"

text \<open>\<open>onPanic\<close> is \<open>None\<close> for a nil callback.\<close>

definition recovery_middleware :: "(event \<Rightarrow> string \<Rightarrow> 'w \<Rightarrow> 'w) option \<Rightarrow> 'w middleware" where
  "recovery_middleware onPanic next1 =
     (\<lambda>ev w. case next1 ev w of
        (Panicked r, w1) \<Rightarrow>
          (Returned (Some (PanicRecovered r)), case onPanic of Some f \<Rightarrow> f ev r w1 | None \<Rightarrow> w1)
      | (Returned res, w1) \<Rightarrow> (Returned res, w1))"

text \<open>The shift \<open>1 << attempt\<close> and the product keep 64 bits.\<close>

definition backoff_at :: "duration \<Rightarrow> nat \<Rightarrow> duration" where
  "backoff_at backoff attempt = wrap64 (backoff * wrap64 (2 ^ attempt))"

text \<open>\<open>sleep d w\<close> waits \<open>d\<close>, or answers the context's error when it ends first.\<close>

function retry_from ::
    "('w \<Rightarrow> bus_error option) \<Rightarrow> (duration \<Rightarrow> 'w \<Rightarrow> bus_error option \<times> 'w) \<Rightarrow> int \<Rightarrow> duration
     \<Rightarrow> 'w handler \<Rightarrow> event \<Rightarrow> nat \<Rightarrow> bus_error option \<Rightarrow> 'w \<Rightarrow> outcome \<times> 'w" where
  "retry_from ctxErr sleep maxRetries backoff next1 ev attempt last1 w =
     (if int attempt \<le> maxRetries then
        (case ctxErr w of
           Some e \<Rightarrow> (Returned (Some e), w)
         | None \<Rightarrow>
             (case next1 ev w of
                (Returned None, w1) \<Rightarrow> (Returned None, w1)
              | (Panicked p, w1) \<Rightarrow> (Panicked p, w1)
              | (Returned (Some err), w1) \<Rightarrow>
                  if int attempt < maxRetries then
                    (case sleep (backoff_at backoff attempt) w1 of
                       (Some e, w2) \<Rightarrow> (Returned (Some e), w2)
                     | (None, w2) \<Rightarrow> retry_from ctxErr sleep maxRetries backoff next1 ev (attempt + 1) (Some err) w2)
                  else retry_from ctxErr sleep maxRetries backoff next1 ev (attempt + 1) (Some err) w1))
      else (Returned (Some (FailedAfterRetries (maxRetries + 1) last1)), w))"
  by pat_completeness auto
termination
  by (relation "measure (\<lambda>(ctxErr, sleep, maxRetries, backoff, next1, ev, attempt, last1, w).
        nat (maxRetries + 1 - int attempt))") auto

declare retry_from.simps [simp del]

definition retry_middleware ::
    "('w \<Rightarrow> bus_error option) \<Rightarrow> (duration \<Rightarrow> 'w \<Rightarrow> bus_error option \<times> 'w) \<Rightarrow> int \<Rightarrow> duration \<Rightarrow> 'w middleware" where
  "retry_middleware ctxErr sleep maxRetries backoff next1 =
     (\<lambda>ev w. retry_from ctxErr sleep maxRetries backoff next1 ev 0 None w)"

subsection \<open>Middleware facts\<close>

lemma build_chain_simps [simp]:
  "build_middleware_chain h [] = h"
  "build_middleware_chain h (m # ms) = m (build_middleware_chain h ms)"
  by (simp_all add: build_middleware_chain_def)

lemma recovery_never_panics: "fst (recovery_middleware onPanic next1 ev w) \<noteq> Panicked r"
  by (auto simp: recovery_middleware_def split: prod.splits outcome.splits)

text \<open>A bus whose first middleware is the recovery middleware never lets a synchronous panic out.\<close>

lemma recovered_bus_never_panics:
  "fst (run_handlers ctxErr (recovery_middleware onPanic # ms) ev hs w) \<noteq> Panicked r"
  by (induction hs arbitrary: w)
    (auto split: option.splits prod.splits outcome.splits simp: recovery_middleware_def)


subsection \<open>Publication order\<close>

datatype 'w bus_op =
    Subscribe string string "'w handler" "subscribe_option list"
  | Unsubscribe string
  | UseMiddleware "'w middleware list"
  | ClearBus
  | CloseBus

primrec bus_step :: "'w bus_op \<Rightarrow> 'w event_bus \<Rightarrow> 'w event_bus" where
  "bus_step (Subscribe i p h opts) b = subscribe i p h opts b"
| "bus_step (Unsubscribe i) b = unsubscribe_by_id i b"
| "bus_step (UseMiddleware ms) b = use_middleware ms b"
| "bus_step ClearBus b = bus_clear b"
| "bus_step CloseBus b = bus_close b"

text \<open>The abstract bus: the live subscriptions, in the order they were made.\<close>

primrec live_step :: "'w bus_op \<Rightarrow> 'w handler_entry list \<Rightarrow> 'w handler_entry list" where
  "live_step (Subscribe i p h opts) es = es @ [new_entry i p h opts]"
| "live_step (Unsubscribe i) es = filter (\<lambda>e. he_id e \<noteq> i) es"
| "live_step (UseMiddleware ms) es = es"
| "live_step ClearBus es = []"
| "live_step CloseBus es = es"

definition live_subscriptions :: "'w bus_op list \<Rightarrow> 'w handler_entry list" where
  "live_subscriptions ops = fold live_step ops []"

primrec op_ids :: "'w bus_op \<Rightarrow> string list" where
  "op_ids (Subscribe i p h opts) = [i]"
| "op_ids (Unsubscribe i) = []"
| "op_ids (UseMiddleware ms) = []"
| "op_ids ClearBus = []"
| "op_ids CloseBus = []"

lemma sort_key_stable_eq: "filter (\<lambda>x. k = f x) (sort_key f xs) = filter (\<lambda>x. k = f x) xs"
  using sort_key_stable [of f k xs] by (simp add: eq_commute)

lemma sort_key_snoc: "sort_key f (sort_key f xs @ [x]) = sort_key f (xs @ [x])"
  by (rule properties_for_sort_key [symmetric]) (simp_all add: sort_key_stable_eq)

lemma drop_entry_filter:
  "distinct (map he_id hs) \<Longrightarrow> drop_entry i hs = filter (\<lambda>e. he_id e \<noteq> i) hs"
  by (induction hs) (auto intro!: filter_True [symmetric] simp: image_iff)

lemma distinct_ids_sorted: "distinct (map he_id (by_priority hs)) = distinct (map he_id hs)"
proof -
  have "mset (map he_id (by_priority hs)) = mset (map he_id hs)"
    by (metis by_priority_def mset_map mset_sort)
  then show ?thesis by (metis mset_eq_imp_distinct_iff)
qed

lemma bus_step_refines:
  assumes "bu_handlers b = by_priority es" and "distinct (map he_id es)"
  shows "bu_handlers (bus_step op b) = by_priority (live_step op es)"
proof (cases op)
  case (Unsubscribe i)
  with assms show ?thesis
    by (simp add: unsubscribe_by_id_def drop_entry_filter distinct_ids_sorted)
      (simp add: by_priority_def filter_sort)
qed (use assms in \<open>simp_all add: subscribe_def use_middleware_def bus_clear_def bus_close_def by_priority_def
  sort_key_snoc\<close>)

lemma live_step_ids:
  assumes "distinct (map he_id es)" "set (op_ids op) \<inter> set (map he_id es) = {}"
  shows "distinct (map he_id (live_step op es))
    \<and> set (map he_id (live_step op es)) \<subseteq> set (map he_id es) \<union> set (op_ids op)"
  using assms by (cases op) (auto simp: new_entry_def Let_def distinct_map intro: inj_on_subset)

lemma bus_refines:
  assumes "distinct (concat (map op_ids ops))" and "bu_handlers b = by_priority es"
    and "distinct (map he_id es)" and "set (concat (map op_ids ops)) \<inter> set (map he_id es) = {}"
  shows "bu_handlers (fold bus_step ops b) = by_priority (fold live_step ops es)"
  using assms
proof (induction ops arbitrary: b es)
  case (Cons op ops)
  have d: "distinct (map he_id (live_step op es))"
    "set (map he_id (live_step op es)) \<subseteq> set (map he_id es) \<union> set (op_ids op)"
    using live_step_ids [of es op] Cons.prems by auto
  have "bu_handlers (fold bus_step ops (bus_step op b)) = by_priority (fold live_step ops (live_step op es))"
  proof (rule Cons.IH)
    show "set (concat (map op_ids ops)) \<inter> set (map he_id (live_step op es)) = {}"
    proof -
      have "set (op_ids op) \<inter> set (concat (map op_ids ops)) = {}"
        "set (concat (map op_ids ops)) \<inter> set (map he_id es) = {}" using Cons.prems(1,4) by auto
      with d(2) show ?thesis by blast
    qed
  qed (use Cons.prems d bus_step_refines in auto)
  then show ?case by simp
qed simp

text \<open>What the loop starts: a prefix of the matching handlers, all of them on success.\<close>

lemma run_handlers_prefix:
  assumes "run_handlers ctxErr ms ev hs w = (r, w', started)"
  shows "\<exists>rest. hs = started @ rest
    \<and> (r = Returned None \<longrightarrow> rest = [])
    \<and> (r \<noteq> Returned None \<longrightarrow> (\<exists>e. r = Returned (Some e) \<and> ctxErr w' = Some e)
        \<or> (\<exists>h w1. started \<noteq> [] \<and> h = last started \<and> \<not> he_async h
            \<and> build_middleware_chain (he_handler h) ms ev w1 = (r, w')))"
  using assms
proof (induction hs arbitrary: w started)
  case (Cons h hs)
  consider (ended) e where "ctxErr w = Some e" | (async) "ctxErr w = None" "he_async h"
    | (sync) r1 w1 where "ctxErr w = None" "\<not> he_async h"
        "build_middleware_chain (he_handler h) ms ev w = (r1, w1)"
    by (cases "ctxErr w") (auto, fastforce)
  then show ?case
  proof cases
    case ended
    with Cons.prems show ?thesis by auto
  next
    case async
    with Cons.prems obtain s1 where s: "run_handlers ctxErr ms ev hs w = (r, w', s1)" "started = h # s1"
      by (cases "run_handlers ctxErr ms ev hs w") auto
    from Cons.IH [OF s(1)] s(2) show ?thesis by fastforce
  next
    case sync
    show ?thesis
    proof (cases "r1 = Returned None")
      case True
      with sync Cons.prems obtain s1 where s: "run_handlers ctxErr ms ev hs w1 = (r, w', s1)" "started = h # s1"
        by (cases "run_handlers ctxErr ms ev hs w1") auto
      from Cons.IH [OF s(1)] s(2) show ?thesis by fastforce
    next
      case False
      with sync Cons.prems have "r = r1" "w' = w1" "started = [h]"
        by (auto split: outcome.splits option.splits)
      with sync False show ?thesis by auto
    qed
  qed
qed auto

text \<open>Publishing on an open bus starts handlers from the live subscriptions that match the event's
  name, higher priorities first and equal ones in the order they subscribed, without skipping any; it
  answers no error only after starting them all, and an error or panic is the context's or that of the
  last synchronous handler started. Subscription ids, being fresh UUIDs, are assumed distinct.\<close>

theorem publish_runs_by_priority:
  fixes ops :: "'w bus_op list"
  defines "b \<equiv> fold bus_step ops new_event_bus"
  assumes "distinct (concat (map op_ids ops))" and "\<not> bu_closed b"
    and "publish ctxErr uuid e b w = (r, w', started)"
  shows "\<exists>due rest. due = started @ rest
    \<and> mset due = mset (filter (\<lambda>h. match_pattern (he_pattern h) (be_name e)) (live_subscriptions ops))
    \<and> sorted_wrt (\<lambda>h k. he_priority h \<ge> he_priority k) due
    \<and> (\<forall>p. filter (\<lambda>h. he_priority h = p) due
          = filter (\<lambda>h. match_pattern (he_pattern h) (be_name e) \<and> he_priority h = p) (live_subscriptions ops))
    \<and> (r = Returned None \<longrightarrow> rest = [])
    \<and> (r \<noteq> Returned None \<longrightarrow> (\<exists>x. r = Returned (Some x) \<and> ctxErr w' = Some x)
        \<or> (\<exists>w1. started \<noteq> [] \<and> \<not> he_async (last started)
            \<and> build_middleware_chain (he_handler (last started)) (bu_middleware b) (wrap_event uuid e) w1 = (r, w')))"
proof -
  let ?m = "\<lambda>h. match_pattern (he_pattern h) (be_name e)"
  let ?live = "live_subscriptions ops"
  define due where "due = by_priority (filter ?m ?live)"
  have "bu_handlers b = by_priority ?live"
    unfolding b_def live_subscriptions_def
    by (rule bus_refines) (use assms(2) in \<open>simp_all add: new_event_bus_def by_priority_def\<close>)
  then have "find_matching_handlers (be_name e) b = due"
    by (simp add: find_matching_handlers_def due_def by_priority_def filter_sort)
  then have run: "run_handlers ctxErr (bu_middleware b) (wrap_event uuid e) due w = (r, w', started)"
    using assms(3,4) by (simp add: publish_def Let_def wrap_event_def)
  have "sorted (map (\<lambda>h. - he_priority h) due)" by (simp add: due_def by_priority_def)
  then have sorted: "sorted_wrt (\<lambda>h k. he_priority h \<ge> he_priority k) due"
    by (simp add: sorted_map)
  have stable: "filter (\<lambda>h. he_priority h = p) due = filter (\<lambda>h. ?m h \<and> he_priority h = p) ?live" for p
    using sort_key_stable [of "\<lambda>h. - he_priority h" "- p" "filter ?m ?live"]
    by (simp add: due_def by_priority_def conj_commute)
  have "mset due = mset (filter ?m ?live)" by (simp add: due_def by_priority_def)
  with run_handlers_prefix [OF run] sorted stable show ?thesis by blast
qed

definition failing_ops :: "unit bus_op list" where
  "failing_ops =
     [Subscribe ''a'' ''user.*'' (\<lambda>ev w. (Returned None, w)) [],
      Subscribe ''b'' ''user.created'' (\<lambda>ev w. (Returned (Some (HandlerFailed ''no'')), w)) [WithPriority 5],
      Subscribe ''c'' ''order.**'' (\<lambda>ev w. (Returned None, w)) [WithPriority 9]]"

theorem publish_runs_by_priority_witness:
  "\<exists>due rest. due = map (\<lambda>h. new_entry ''b'' ''user.created'' h [WithPriority 5])
        [\<lambda>ev w. (Returned (Some (HandlerFailed ''no'')), w)] @ rest
    \<and> mset due = mset (filter (\<lambda>h. match_pattern (he_pattern h) ''user.created'') (live_subscriptions failing_ops))"
proof -
  let ?b = "fold bus_step failing_ops new_event_bus"
  let ?e = "\<lparr>be_name = ''user.created'', be_occurredAt = 5, be_metadata = None\<rparr>"
  have m: "match_pattern ''user.*'' ''user.created''" "match_pattern ''user.created'' ''user.created''"
    "\<not> match_pattern ''order.**'' ''user.created''" by code_simp+
  have o: "\<not> bu_closed ?b" "distinct (concat (map op_ids failing_ops))"
    by (simp_all add: failing_ops_def subscribe_def new_event_bus_def)
  have "publish (\<lambda>w. None) ''id'' ?e ?b () = (Returned (Some (HandlerFailed ''no'')), (),
      [new_entry ''b'' ''user.created'' (\<lambda>ev w. (Returned (Some (HandlerFailed ''no'')), w)) [WithPriority 5]])"
    by (simp add: failing_ops_def subscribe_def new_event_bus_def by_priority_def new_entry_def publish_def
        find_matching_handlers_def wrap_event_def m Let_def)
  from publish_runs_by_priority [OF o(2,1) this] show ?thesis by auto
qed

end
