(* ===== verification/Event_Store.thy ===== *)
theory Event_Store
  imports Event_Bus "HOL-Library.Product_Lexorder"
begin

text \<open>
  The event store of \<open>api/internal/infra/events/store.go\<close>: storing, filtering and replaying events.
  The table is the list of its rows; the database's own part, its failures, the ids it gives and its
  \<open>LIKE\<close> operator, are arguments, the operator with the laws SQL gives for it (locale
  \<open>like_operator\<close>, with the backslash as escape character).
\<close>

subsection \<open>The LIKE operator\<close>

locale like_operator =
  fixes like :: "string \<Rightarrow> string \<Rightarrow> bool"
  assumes like_empty: "like [] s \<longleftrightarrow> s = []"
    and like_percent: "like (CHR ''%'' # p) s \<longleftrightarrow> (\<exists>i \<le> length s. like p (drop i s))"
    and like_underscore: "like (CHR ''_'' # p) s \<longleftrightarrow> s \<noteq> [] \<and> like p (tl s)"
    and like_escape: "like (CHR 0x5C # c # p) s \<longleftrightarrow> s \<noteq> [] \<and> hd s = c \<and> like p (tl s)"
    and like_char: "c \<notin> {CHR ''%'', CHR ''_'', CHR 0x5C} \<Longrightarrow>
      like (c # p) s \<longleftrightarrow> s \<noteq> [] \<and> hd s = c \<and> like p (tl s)"

fun like_rec :: "string \<Rightarrow> string \<Rightarrow> bool" where
  "like_rec [] s = (s = [])"
| "like_rec (x # p) s =
     (if x = CHR ''%'' then list_ex (\<lambda>i. like_rec p (drop i s)) [0..<Suc (length s)]
      else if x = CHR ''_'' then s \<noteq> [] \<and> like_rec p (tl s)
      else if x = CHR 0x5C
      then (case p of [] \<Rightarrow> False | c # q \<Rightarrow> s \<noteq> [] \<and> hd s = c \<and> like_rec q (tl s))
      else s \<noteq> [] \<and> hd s = x \<and> like_rec p (tl s))"

lemma like_rec_percent: "like_rec (CHR ''%'' # p) s \<longleftrightarrow> (\<exists>i \<le> length s. like_rec p (drop i s))"
  unfolding like_rec.simps by (auto simp: list_ex_iff atLeastLessThanSuc_atLeastAtMost simp del: upt_Suc)

interpretation std: like_operator like_rec
  by unfold_locales (simp_all add: like_rec_percent del: upt_Suc like_rec.simps(2), simp_all del: upt_Suc)

subsection \<open>Filters and rows\<close>

record event_filter =
  ef_eventName :: string
  ef_correlationID :: string
  ef_source :: string
  ef_fromTime :: "instant option"
  ef_toTime :: "instant option"
  ef_limit :: int
  ef_offset :: int

record stored_event =
  se_id :: nat
  se_eventID :: string
  se_eventName :: string
  se_correlationID :: string
  se_causationID :: string
  se_source :: string
  se_payload :: string
  se_occurredAt :: instant
  se_createdAt :: instant

definition contains_wildcard :: "string \<Rightarrow> bool" where
  "contains_wildcard pattern = list_ex (\<lambda>c. c = CHR ''*'' \<or> c = CHR ''?'') pattern"

fun glob_to_like :: "string \<Rightarrow> string" where
  "glob_to_like [] = []"
| "glob_to_like (c # cs) =
     (if c = CHR ''*'' then CHR ''%'' # glob_to_like cs
      else if c = CHR ''?'' then CHR ''_'' # glob_to_like cs
      else if c = CHR ''%'' \<or> c = CHR ''_'' then CHR 0x5C # c # glob_to_like cs
      else c # glob_to_like cs)"

text \<open>\<open>payload\<close> is what \<open>json.Marshal\<close> gives for the event, \<open>newId\<close> and \<open>createdAt\<close> what the
  database fills in, \<open>flt\<close> a failure of the database. The event id has a unique index.\<close>

definition store_event ::
    "bus_error option \<Rightarrow> bus_error + string \<Rightarrow> nat \<Rightarrow> instant \<Rightarrow> event \<Rightarrow> stored_event list
     \<Rightarrow> bus_error option \<times> stored_event list" where
  "store_event flt payload newId createdAt ev rows =
     (case payload of
        Inl e \<Rightarrow> (Some e, rows)
      | Inr json \<Rightarrow>
          (case flt of
             Some e \<Rightarrow> (Some e, rows)
           | None \<Rightarrow>
               if md_id (en_metadata ev) \<in> se_eventID ` set rows
               then (Some (StoreFailed ''duplicate key''), rows)
               else (None, rows @
                 [\<lparr>se_id = newId, se_eventID = md_id (en_metadata ev), se_eventName = en_name ev,
                   se_correlationID = md_correlationID (en_metadata ev),
                   se_causationID = md_causationID (en_metadata ev), se_source = md_source (en_metadata ev),
                   se_payload = json, se_occurredAt = en_occurredAt ev, se_createdAt = createdAt\<rparr>])))"

subsection \<open>Query and replay\<close>

definition filter_row :: "(string \<Rightarrow> string \<Rightarrow> bool) \<Rightarrow> event_filter \<Rightarrow> stored_event \<Rightarrow> bool" where
  "filter_row like f r \<longleftrightarrow>
     (ef_eventName f \<noteq> '''' \<longrightarrow>
        (if contains_wildcard (ef_eventName f) then like (glob_to_like (ef_eventName f)) (se_eventName r)
         else se_eventName r = ef_eventName f))
     \<and> (ef_correlationID f \<noteq> '''' \<longrightarrow> se_correlationID r = ef_correlationID f)
     \<and> (ef_source f \<noteq> '''' \<longrightarrow> se_source r = ef_source f)
     \<and> (case ef_fromTime f of None \<Rightarrow> True | Some t \<Rightarrow> t \<le> se_occurredAt r)
     \<and> (case ef_toTime f of None \<Rightarrow> True | Some t \<Rightarrow> se_occurredAt r \<le> t)"

definition page_rows :: "event_filter \<Rightarrow> 'a list \<Rightarrow> 'a list" where
  "page_rows f xs =
     (let ys = (if ef_offset f > 0 then drop (nat (ef_offset f)) xs else xs)
      in if ef_limit f > 0 then take (nat (ef_limit f)) ys else ys)"

definition query_events ::
    "(string \<Rightarrow> string \<Rightarrow> bool) \<Rightarrow> bus_error option \<Rightarrow> event_filter \<Rightarrow> stored_event list
     \<Rightarrow> bus_error + stored_event list" where
  "query_events like flt f rows =
     (case flt of
        Some e \<Rightarrow> Inl e
      | None \<Rightarrow> Inr (page_rows f (sort_key (\<lambda>r. (se_occurredAt r, se_id r)) (filter (filter_row like f) rows))))"

definition replay_event :: "stored_event \<Rightarrow> event" where
  "replay_event r =
     \<lparr>en_name = se_eventName r, en_occurredAt = se_occurredAt r,
      en_metadata = \<lparr>md_id = se_eventID r, md_correlationID = se_correlationID r,
        md_causationID = se_causationID r, md_timestamp = se_occurredAt r, md_source = se_source r\<rparr>\<rparr>"

fun replay_rows ::
    "('w \<Rightarrow> bus_error option) \<Rightarrow> 'w handler \<Rightarrow> stored_event list \<Rightarrow> 'w \<Rightarrow> outcome \<times> 'w \<times> event list" where
  "replay_rows ctxErr h [] w = (Returned None, w, [])"
| "replay_rows ctxErr h (r # rs) w =
     (case ctxErr w of
        Some e \<Rightarrow> (Returned (Some e), w, [])
      | None \<Rightarrow>
          (case h (replay_event r) w of
             (Returned None, w1) \<Rightarrow> apsnd (apsnd (Cons (replay_event r))) (replay_rows ctxErr h rs w1)
           | (x, w1) \<Rightarrow> (x, w1, [replay_event r])))"

text \<open>The answer, the state and the events handed to the handler.\<close>

definition replay ::
    "(string \<Rightarrow> string \<Rightarrow> bool) \<Rightarrow> ('w \<Rightarrow> bus_error option) \<Rightarrow> bus_error option \<Rightarrow> event_filter \<Rightarrow> 'w handler
     \<Rightarrow> stored_event list \<Rightarrow> 'w \<Rightarrow> outcome \<times> 'w \<times> event list" where
  "replay like ctxErr flt f h rows w =
     (case query_events like flt f rows of
        Inl e \<Rightarrow> (Returned (Some e), w, [])
      | Inr rs \<Rightarrow> replay_rows ctxErr h rs w)"

text \<open>Storing is best effort: \<open>store ev w\<close> stores into the table that the state holds.\<close>

definition storing_middleware :: "(event \<Rightarrow> 'w \<Rightarrow> bus_error option \<times> 'w) \<Rightarrow> 'w middleware" where
  "storing_middleware store next1 = (\<lambda>ev w. next1 ev (snd (store ev w)))"

subsection \<open>Globs\<close>

text \<open>A glob: a star stands for any text, dots included, a question mark for one character.\<close>

fun glob :: "string \<Rightarrow> string \<Rightarrow> bool" where
  "glob [] s = (s = [])"
| "glob (c # cs) s =
     (if c = CHR ''*'' then list_ex (\<lambda>i. glob cs (drop i s)) [0..<Suc (length s)]
      else s \<noteq> [] \<and> (c = CHR ''?'' \<or> hd s = c) \<and> glob cs (tl s))"

context like_operator
begin

lemma like_glob:
  "CHR 0x5C \<notin> set g \<Longrightarrow> like (glob_to_like g) s \<longleftrightarrow> glob g s"
proof (induction g arbitrary: s)
  case Nil
  then show ?case by (simp add: like_empty)
next
  case (Cons c g)
  then have IH: "like (glob_to_like g) t \<longleftrightarrow> glob g t" for t by simp
  consider "c = CHR ''*''" | "c = CHR ''?''" | "c = CHR ''%'' \<or> c = CHR ''_''"
    | "c \<notin> {CHR ''*'', CHR ''?'', CHR ''%'', CHR ''_'', CHR 0x5C}" using Cons.prems by auto
  then show ?case
  proof cases
    case 1
    then show ?thesis
      by (simp add: like_percent IH list_ex_iff atLeastLessThanSuc_atLeastAtMost del: upt_Suc) auto
  qed (use IH in \<open>auto simp: like_underscore like_escape like_char\<close>)
qed

end

subsection \<open>Properties\<close>

text \<open>An event-name filter with wildcards is a text glob: for any database LIKE and a filter without
  backslashes, an unpaged query answers exactly the rows whose name the glob matches, and so it also
  answers names of more segments than the bus pattern of the same text subscribes to.\<close>

theorem store_filter_is_a_text_glob:
  assumes "like_operator like" and "CHR 0x5C \<notin> set g" and "contains_wildcard g"
  shows "(\<exists>rs. query_events like None
          \<lparr>ef_eventName = g, ef_correlationID = '''', ef_source = '''', ef_fromTime = None, ef_toTime = None,
           ef_limit = 0, ef_offset = 0\<rparr> rows = Inr rs
        \<and> set rs = {r \<in> set rows. glob g (se_eventName r)})
    \<and> glob ''user.*'' ''user.profile.updated'' \<and> \<not> match_pattern ''user.*'' ''user.profile.updated''"
proof -
  have "g \<noteq> []" using assms(3) by (auto simp: contains_wildcard_def)
  with assms like_operator.like_glob [OF assms(1,2)]
  have "filter_row like \<lparr>ef_eventName = g, ef_correlationID = '''', ef_source = '''', ef_fromTime = None,
      ef_toTime = None, ef_limit = 0, ef_offset = 0\<rparr> r = glob g (se_eventName r)" for r
    by (simp add: filter_row_def)
  then have "\<exists>rs. query_events like None
      \<lparr>ef_eventName = g, ef_correlationID = '''', ef_source = '''', ef_fromTime = None, ef_toTime = None,
       ef_limit = 0, ef_offset = 0\<rparr> rows = Inr rs \<and> set rs = {r \<in> set rows. glob g (se_eventName r)}"
    by (simp add: query_events_def page_rows_def)
  moreover have "glob ''user.*'' ''user.profile.updated''" by code_simp
  moreover have "\<not> match_pattern ''user.*'' ''user.profile.updated''" by code_simp
  ultimately show ?thesis by blast
qed

definition sample_row :: "nat \<Rightarrow> string \<Rightarrow> instant \<Rightarrow> stored_event" where
  "sample_row n name t =
     \<lparr>se_id = n, se_eventID = name, se_eventName = name, se_correlationID = '''', se_causationID = '''',
      se_source = '''', se_payload = '''', se_occurredAt = t, se_createdAt = t\<rparr>"

theorem store_filter_is_a_text_glob_witness:
  "\<exists>rs. query_events like_rec None
      \<lparr>ef_eventName = ''user.*'', ef_correlationID = '''', ef_source = '''', ef_fromTime = None, ef_toTime = None,
       ef_limit = 0, ef_offset = 0\<rparr> [sample_row 1 ''user.profile.updated'' 5] = Inr rs
    \<and> sample_row 1 ''user.profile.updated'' 5 \<in> set rs"
proof -
  have "CHR 0x5C \<notin> set ''user.*''" "contains_wildcard ''user.*''" by code_simp+
  from store_filter_is_a_text_glob [OF std.like_operator_axioms this, of "[sample_row 1 ''user.profile.updated'' 5]"]
  obtain rs where rs: "query_events like_rec None
      \<lparr>ef_eventName = ''user.*'', ef_correlationID = '''', ef_source = '''', ef_fromTime = None, ef_toTime = None,
       ef_limit = 0, ef_offset = 0\<rparr> [sample_row 1 ''user.profile.updated'' 5] = Inr rs"
    "set rs = {r \<in> set [sample_row 1 ''user.profile.updated'' 5]. glob ''user.*'' (se_eventName r)}" by blast
  have "glob ''user.*'' (se_eventName (sample_row 1 ''user.profile.updated'' 5))" by code_simp
  then have "sample_row 1 ''user.profile.updated'' 5 \<in> set rs"
    unfolding rs(2) by (intro CollectI conjI list.set_intros(1))
  with rs(1) show ?thesis by blast
qed

lemma replay_rows_prefix:
  assumes "replay_rows ctxErr h rs w = (x, w', seen)"
  shows "\<exists>rest. map replay_event rs = seen @ rest \<and> (x = Returned None \<longrightarrow> rest = [])
    \<and> (x \<noteq> Returned None \<longrightarrow> (\<exists>e. x = Returned (Some e) \<and> ctxErr w' = Some e)
        \<or> (\<exists>w1. seen \<noteq> [] \<and> h (last seen) w1 = (x, w')))"
  using assms
proof (induction rs arbitrary: w seen)
  case (Cons r rs)
  obtain y w1 where y: "h (replay_event r) w = (y, w1)" by fastforce
  show ?case
  proof (cases "ctxErr w = None \<and> y = Returned None")
    case True
    with Cons.prems y obtain s1 where s: "replay_rows ctxErr h rs w1 = (x, w', s1)" "seen = replay_event r # s1"
      by (cases "replay_rows ctxErr h rs w1") auto
    from Cons.IH [OF s(1)] s(2) show ?thesis by fastforce
  next
    case False
    with Cons.prems y show ?thesis by (auto split: option.splits outcome.splits)
  qed
qed auto

text \<open>Replay is chronological: it hands the handler the events of the rows that pass the filter, in
  order of occurrence and of insertion within the same instant, from the offset on and up to the limit,
  without skipping any; it answers no error only after handing over all of them, and otherwise stops with
  the context's error or the error of the last event handed over.\<close>

theorem replay_is_chronological:
  assumes "replay like ctxErr None f h rows w = (x, w', seen)" and "0 \<le> ef_offset f"
  shows "\<exists>all rest. seen @ rest = map replay_event
          (if ef_limit f > 0 then take (nat (ef_limit f)) (drop (nat (ef_offset f)) all)
           else drop (nat (ef_offset f)) all)
    \<and> mset all = mset (filter (filter_row like f) rows)
    \<and> sorted_wrt (\<lambda>r s. se_occurredAt r < se_occurredAt s
          \<or> se_occurredAt r = se_occurredAt s \<and> se_id r \<le> se_id s) all
    \<and> (x = Returned None \<longrightarrow> rest = [])
    \<and> (x \<noteq> Returned None \<longrightarrow> (\<exists>e. x = Returned (Some e) \<and> ctxErr w' = Some e)
        \<or> (\<exists>w1. seen \<noteq> [] \<and> h (last seen) w1 = (x, w')))"
proof -
  let ?key = "\<lambda>r. (se_occurredAt r, se_id r)"
  define all where "all = sort_key ?key (filter (filter_row like f) rows)"
  have run: "replay_rows ctxErr h (page_rows f all) w = (x, w', seen)"
    using assms(1) by (simp add: replay_def query_events_def all_def)
  have "page_rows f all = (if ef_limit f > 0 then take (nat (ef_limit f)) (drop (nat (ef_offset f)) all)
      else drop (nat (ef_offset f)) all)"
    using assms(2) by (simp add: page_rows_def)
  moreover have "mset all = mset (filter (filter_row like f) rows)" by (simp add: all_def)
  moreover have "sorted (map ?key all)" by (simp add: all_def)
  then have "sorted_wrt (\<lambda>r s. se_occurredAt r < se_occurredAt s
      \<or> se_occurredAt r = se_occurredAt s \<and> se_id r \<le> se_id s) all"
    unfolding sorted_map by (rule sorted_wrt_mono_rel [rotated]) (auto simp: less_eq_prod_simp)
  moreover from replay_rows_prefix [OF run] obtain rest where
    "map replay_event (page_rows f all) = seen @ rest" "x = Returned None \<longrightarrow> rest = []"
    "x \<noteq> Returned None \<longrightarrow> (\<exists>e. x = Returned (Some e) \<and> ctxErr w' = Some e)
        \<or> (\<exists>w1. seen \<noteq> [] \<and> h (last seen) w1 = (x, w'))" by blast
  ultimately show ?thesis by (intro exI [of _ all] exI [of _ rest] conjI) simp_all
qed

theorem replay_is_chronological_witness:
  "\<exists>all rest. [replay_event (sample_row 2 ''b'' 3)] @ rest = map replay_event (take 1 all)
    \<and> mset all = mset [sample_row 1 ''a'' 5, sample_row 2 ''b'' 3]"
proof -
  let ?f = "\<lparr>ef_eventName = '''', ef_correlationID = '''', ef_source = '''', ef_fromTime = None, ef_toTime = None,
      ef_limit = 1, ef_offset = 0\<rparr>"
  let ?rows = "[sample_row 1 ''a'' 5, sample_row 2 ''b'' 3]"
  have r: "replay like_rec (\<lambda>w. None) None ?f (\<lambda>ev w. (Returned None, w)) ?rows ()
      = (Returned None, (), [replay_event (sample_row 2 ''b'' 3)])"
    by (simp add: replay_def query_events_def page_rows_def filter_row_def sample_row_def)
  have "0 \<le> ef_offset ?f" by simp
  from replay_is_chronological [OF r this] obtain all rest where
    "[replay_event (sample_row 2 ''b'' 3)] @ rest = map replay_event
      (if ef_limit ?f > 0 then take (nat (ef_limit ?f)) (drop (nat (ef_offset ?f)) all) else drop (nat (ef_offset ?f)) all)"
    "mset all = mset (filter (filter_row like_rec ?f) ?rows)" by blast
  then show ?thesis by (intro exI [of _ all] exI [of _ rest]) (simp add: filter_row_def)
qed

end
