(* ===== verification/Usage_Period.thy ===== *)
theory Usage_Period
  imports Prelude
begin

text \<open>
  The aggregation windows of the usage meter: \<open>usagePeriodWindow\<close> of
  \<open>api/internal/modules/usage/service.go\<close>. Go's calendar is modelled as far as the function uses it:
  the proleptic Gregorian calendar in UTC, an instant being nanoseconds since 1970. Months are counted
  from January 1970.
\<close>

subsection \<open>The calendar\<close>

definition day_nanos :: int where
  "day_nanos = 86400000000000"

definition leap_year :: "int \<Rightarrow> bool" where
  "leap_year y \<longleftrightarrow> 4 dvd y \<and> (\<not> 100 dvd y \<or> 400 dvd y)"

text \<open>The day number of January 1st, and of the first day of a month of the year.\<close>

definition year_start :: "int \<Rightarrow> int" where
  "year_start y = 365 * (y - 1970) + ((y - 1) div 4 - (y - 1) div 100 + (y - 1) div 400) - 477"

definition days_before_month :: "int \<Rightarrow> int \<Rightarrow> int" where
  "days_before_month y m =
     [0, 31, 59, 90, 120, 151, 181, 212, 243, 273, 304, 334] ! nat m
     + (if 2 \<le> m \<and> leap_year y then 1 else 0)"

definition month_start :: "int \<Rightarrow> int" where
  "month_start k = year_start (1970 + k div 12) + days_before_month (1970 + k div 12) (k mod 12)"

lemma leap_count:
  fixes y :: int
  assumes "a' = a + (if P then 1 else 0)" "b' = b + (if Q then 1 else 0)" "c' = c + (if R then 1 else 0)"
    and "Q \<Longrightarrow> P" "R \<Longrightarrow> Q"
  shows "365 * (y + 1 - 1970) + (a' - b' + c') - 477
    = 365 * (y - 1970) + (a - b + c) - 477 + (if P \<and> (\<not> Q \<or> R) then 366 else 365)"
  using assms by (cases P; cases Q; cases R) simp_all

lemma div_pred:
  fixes n y :: int
  assumes "0 < n" shows "y div n = (y - 1) div n + (if n dvd y then 1 else 0)"
proof -
  let ?q = "(y - 1) div n" and ?r = "(y - 1) mod n"
  have y: "y = n * ?q + (?r + 1)" and r: "0 \<le> ?r" "?r < n"
    using assms mult_div_mod_eq [of n "y - 1"] by simp_all
  show ?thesis
  proof (cases "?r + 1 = n")
    case True
    with y have "y = n * (?q + 1)" by (metis distrib_left mult.right_neutral)
    with assms show ?thesis by (metis dvd_triv_left nonzero_mult_div_cancel_left less_irrefl)
  next
    case False
    with r have "y div n = ?q" "y mod n = ?r + 1" using y int_div_pos_eq [of y n ?q "?r + 1"]
      int_mod_pos_eq [of y n ?q "?r + 1"] by simp_all
    moreover have "\<not> n dvd y" using \<open>y mod n = ?r + 1\<close> r by (simp add: dvd_eq_mod_eq_0)
    ultimately show ?thesis by simp
  qed
qed

lemma year_length: "year_start (y + 1) = year_start y + (if leap_year y then 366 else 365)"
proof -
  have d: "(100::int) dvd y \<Longrightarrow> 4 dvd y" "(400::int) dvd y \<Longrightarrow> 100 dvd y"
    by (rule dvd_trans [of 4 100], simp_all) (rule dvd_trans [of 100 400], simp_all)
  show ?thesis
    unfolding year_start_def leap_year_def add_diff_cancel_right'
    by (rule leap_count [OF div_pred div_pred div_pred]) (use d in simp_all)
qed

lemma month_lengths:
  assumes "0 \<le> m" "m < 11"
  shows "28 \<le> days_before_month y (m + 1) - days_before_month y m"
    and "days_before_month y (m + 1) - days_before_month y m \<le> 31"
proof -
  have "m = 0 \<or> m = 1 \<or> m = 2 \<or> m = 3 \<or> m = 4 \<or> m = 5 \<or> m = 6 \<or> m = 7 \<or> m = 8 \<or> m = 9 \<or> m = 10"
    using assms by presburger
  then show "28 \<le> days_before_month y (m + 1) - days_before_month y m"
    and "days_before_month y (m + 1) - days_before_month y m \<le> 31"
    by (auto simp: days_before_month_def)
qed

lemma div_mod_next:
  fixes k q r :: int
  assumes "k = 12 * q + r" "0 \<le> r" "r < 12"
  shows "r = 11 \<Longrightarrow> (k + 1) div 12 = q + 1 \<and> (k + 1) mod 12 = 0"
    and "r \<noteq> 11 \<Longrightarrow> (k + 1) div 12 = q \<and> (k + 1) mod 12 = r + 1"
proof -
  assume "r = 11"
  with assms have "k + 1 = 12 * (q + 1) + 0" by simp
  then show "(k + 1) div 12 = q + 1 \<and> (k + 1) mod 12 = 0"
    using int_div_pos_eq [of "k + 1" 12 "q + 1" 0] int_mod_pos_eq [of "k + 1" 12 "q + 1" 0] by force
next
  assume "r \<noteq> 11"
  with assms have "k + 1 = 12 * q + (r + 1)" "0 \<le> r + 1" "r + 1 < 12" by linarith+
  then show "(k + 1) div 12 = q \<and> (k + 1) mod 12 = r + 1"
    using int_div_pos_eq [of "k + 1" 12 q "r + 1"] int_mod_pos_eq [of "k + 1" 12 q "r + 1"] by blast
qed

lemma next_month:
  fixes k :: int
  shows "k mod 12 = 11 \<Longrightarrow> (k + 1) div 12 = k div 12 + 1 \<and> (k + 1) mod 12 = 0"
    and "k mod 12 \<noteq> 11 \<Longrightarrow> (k + 1) div 12 = k div 12 \<and> (k + 1) mod 12 = k mod 12 + 1"
    and "0 \<le> k mod 12" "k mod 12 \<noteq> 11 \<Longrightarrow> k mod 12 < 11"
proof -
  have d: "k = 12 * (k div 12) + k mod 12" "0 \<le> k mod 12" "k mod 12 < 12" by simp_all
  from div_mod_next [OF d] d(2,3)
  show "k mod 12 = 11 \<Longrightarrow> (k + 1) div 12 = k div 12 + 1 \<and> (k + 1) mod 12 = 0"
    "k mod 12 \<noteq> 11 \<Longrightarrow> (k + 1) div 12 = k div 12 \<and> (k + 1) mod 12 = k mod 12 + 1"
    "0 \<le> k mod 12" by blast+
  show "k mod 12 \<noteq> 11 \<Longrightarrow> k mod 12 < 11" using d(3) by simp
qed

lemma month_start_step: "28 \<le> month_start (k + 1) - month_start k \<and> month_start (k + 1) - month_start k \<le> 31"
proof (cases "k mod 12 = 11")
  case True
  then have e: "(k + 1) div 12 = k div 12 + 1" "(k + 1) mod 12 = 0" using next_month(1) [of k] by blast+
  have m: "days_before_month y 0 = 0" "days_before_month y 11 = 334 + (if leap_year y then 1 else 0)" for y
    by (simp_all add: days_before_month_def)
  have "28 \<le> year_start (1970 + (y + 1)) + days_before_month (1970 + (y + 1)) 0
        - (year_start (1970 + y) + days_before_month (1970 + y) 11)
      \<and> year_start (1970 + (y + 1)) + days_before_month (1970 + (y + 1)) 0
        - (year_start (1970 + y) + days_before_month (1970 + y) 11) \<le> 31" for y
  proof -
    have "year_start (1970 + (y + 1)) = year_start (1970 + y) + (if leap_year (1970 + y) then 366 else 365)"
      using year_length [of "1970 + y"] by (simp add: add.assoc)
    then show ?thesis unfolding m by (cases "leap_year (1970 + y)") simp_all
  qed
  then show ?thesis unfolding month_start_def e True .
next
  case False
  then have e: "(k + 1) div 12 = k div 12" "(k + 1) mod 12 = k mod 12 + 1" and m: "0 \<le> k mod 12" "k mod 12 < 11"
    using next_month(2-4) [of k] by blast+
  show ?thesis
    using month_lengths [OF m, of "1970 + k div 12"] by (simp add: month_start_def e(1,2))
qed

lemma month_start_mono: "j \<le> k \<Longrightarrow> month_start j \<le> month_start k"
proof (induction k rule: int_ge_induct)
  case (step k)
  with month_start_step [of k] show ?case by linarith
qed simp

lemma month_start_strict: "j < k \<Longrightarrow> month_start j < month_start k"
  using month_start_mono [of "j + 1" k] month_start_step [of j] by linarith

lemma month_start_inj: "month_start j = month_start k \<longleftrightarrow> j = k"
  using month_start_strict [of j k] month_start_strict [of k j] by (cases j k rule: linorder_cases) auto

text \<open>The month of a day, searched upwards or downwards from January 1970 (day 0).\<close>

function month_up :: "int \<Rightarrow> int \<Rightarrow> int" where
  "month_up d k = (if d < month_start (k + 1) then k else month_up d (k + 1))"
  by pat_completeness auto
termination
proof (relation "measure (\<lambda>(d, k). nat (d - month_start k + 1))")
  fix d k
  assume "\<not> d < month_start (k + 1)"
  with month_start_step [of k]
  show "((d, k + 1), d, k) \<in> measure (\<lambda>(d, k). nat (d - month_start k + 1))" by simp
qed simp

function month_down :: "int \<Rightarrow> int \<Rightarrow> int" where
  "month_down d k = (if month_start k \<le> d then k else month_down d (k - 1))"
  by pat_completeness auto
termination
proof (relation "measure (\<lambda>(d, k). nat (month_start k - d))")
  fix d k
  assume "\<not> month_start k \<le> d"
  with month_start_step [of "k - 1"]
  show "((d, k - 1), d, k) \<in> measure (\<lambda>(d, k). nat (month_start k - d))" by simp
qed simp

declare month_up.simps [simp del] month_down.simps [simp del]

definition month_of :: "int \<Rightarrow> int" where
  "month_of d = (if 0 \<le> d then month_up d 0 else month_down d (- 1))"

lemma month_up_spec:
  "month_start k \<le> d \<Longrightarrow> month_start (month_up d k) \<le> d \<and> d < month_start (month_up d k + 1)"
proof (induction d k rule: month_up.induct)
  case (1 d k)
  then show ?case by (subst (1 2) month_up.simps) auto
qed

lemma month_down_spec:
  "d < month_start (k + 1) \<Longrightarrow> month_start (month_down d k) \<le> d \<and> d < month_start (month_down d k + 1)"
proof (induction d k rule: month_down.induct)
  case (1 d k)
  then show ?case by (subst (1 2) month_down.simps) auto
qed

lemma month_start_0: "month_start 0 = 0"
  by (simp add: month_start_def year_start_def days_before_month_def)

lemma month_of_spec: "month_start (month_of d) \<le> d \<and> d < month_start (month_of d + 1)"
  using month_up_spec [of 0 d] month_down_spec [of d "- 1"] by (auto simp: month_of_def month_start_0)

lemma month_of_unique:
  assumes "month_start k \<le> d" "d < month_start (k + 1)" shows "month_of d = k"
proof (cases "month_of d" k rule: linorder_cases)
  case less
  with month_of_spec [of d] month_start_mono [of "month_of d + 1" k] assms show ?thesis by linarith
next
  case greater
  with month_of_spec [of d] month_start_mono [of "k + 1" "month_of d"] assms show ?thesis by linarith
qed simp

subsection \<open>Windows\<close>

definition usage_period_day :: string where
  "usage_period_day = ''day''"

definition usage_period_month :: string where
  "usage_period_month = ''month''"

definition valid_period :: "string \<Rightarrow> bool" where
  "valid_period p \<longleftrightarrow> p = usage_period_day \<or> p = usage_period_month"

text \<open>\<open>zero_time\<close> is \<open>time.Time{}\<close>: January 1st of year 1.\<close>

definition zero_time :: instant where
  "zero_time = year_start 1 * day_nanos"

definition usage_period_window :: "string \<Rightarrow> instant \<Rightarrow> instant \<times> instant" where
  "usage_period_window period at1 =
     (let d = at1 div day_nanos
      in if period = usage_period_day then (d * day_nanos, (d + 1) * day_nanos)
         else if period = usage_period_month
         then (month_start (month_of d) * day_nanos, month_start (month_of d + 1) * day_nanos)
         else (zero_time, zero_time))"

lemma day_nanos_pos [simp]: "0 < day_nanos"
  by (simp add: day_nanos_def)

lemma div_le_day: "a * day_nanos \<le> t \<longleftrightarrow> a \<le> t div day_nanos"
proof
  assume "a * day_nanos \<le> t"
  from zdiv_mono1 [OF this day_nanos_pos] show "a \<le> t div day_nanos" by (simp add: day_nanos_def)
next
  assume "a \<le> t div day_nanos"
  then have "a * day_nanos \<le> t div day_nanos * day_nanos" by (intro mult_right_mono) (simp_all add: less_imp_le)
  also have "\<dots> \<le> t" using div_mult_mod_eq [of t day_nanos] pos_mod_sign [OF day_nanos_pos, of t] by linarith
  finally show "a * day_nanos \<le> t" .
qed

lemma window_contains:
  assumes "valid_period p"
  shows "fst (usage_period_window p t) \<le> t \<and> t < snd (usage_period_window p t)"
proof -
  have "a * day_nanos \<le> t \<longleftrightarrow> a \<le> t div day_nanos" for a by (rule div_le_day)
  then have "t < a * day_nanos \<longleftrightarrow> t div day_nanos < a" for a by (metis not_le)
  with assms month_of_spec [of "t div day_nanos"] div_le_day show ?thesis
    by (auto simp: valid_period_def usage_period_window_def Let_def)
qed

lemma window_same:
  assumes "valid_period p" and "fst (usage_period_window p t) \<le> u" "u < snd (usage_period_window p t)"
  shows "usage_period_window p u = usage_period_window p t"
proof -
  have lt: "u < a * day_nanos \<longleftrightarrow> u div day_nanos < a" for a using div_le_day by (metis not_le)
  from assms(1) consider "p = usage_period_day" | "p = usage_period_month" "p \<noteq> usage_period_day"
    by (auto simp: valid_period_def usage_period_day_def)
  then show ?thesis
  proof cases
    case 1
    with assms have "u div day_nanos = t div day_nanos"
      by (simp add: usage_period_window_def Let_def div_le_day lt)
    with 1 show ?thesis by (simp add: usage_period_window_def)
  next
    case 2
    with assms have "month_of (u div day_nanos) = month_of (t div day_nanos)"
      by (intro month_of_unique) (simp_all add: usage_period_window_def Let_def div_le_day lt)
    with 2 show ?thesis by (simp add: usage_period_window_def Let_def)
  qed
qed

subsection \<open>Times in columns\<close>

text \<open>A timestamp column keeps microseconds: the PostgreSQL driver cuts the rest off a time when it is written or
  compared. A time that is read back can so be up to a microsecond older than the one in memory.\<close>

definition column_time :: "instant \<Rightarrow> instant" where
  "column_time t = t - t mod 1000"

lemma column_time_bounds: "column_time t \<le> t" "t < column_time t + 1000"
  by (simp_all add: column_time_def)

lemma column_time_idem [simp]: "column_time (column_time t) = column_time t"
  by (simp add: column_time_def mod_diff_right_eq)

lemma column_time_mono: "s \<le> t \<Longrightarrow> column_time s \<le> column_time t"
proof -
  assume "s \<le> t"
  then have "s div 1000 \<le> t div 1000" by (rule zdiv_mono1) simp
  moreover have "column_time u = 1000 * (u div 1000)" for u by (simp add: column_time_def minus_mod_eq_mult_div)
  ultimately show ?thesis by simp
qed

lemma column_time_add: "d mod 1000 = 0 \<Longrightarrow> column_time (t + d) = column_time t + d"
  by (simp add: column_time_def mod_add_eq [symmetric, of t d])

lemma column_time_nonneg: "0 \<le> t \<Longrightarrow> 0 \<le> column_time t"
  using column_time_mono [of 0 t] by (simp add: column_time_def)

end
