(* ===== verification/Usage_Store.thy ===== *)
theory Usage_Store
  imports Usage_Period
begin

text \<open>
  The usage meter's tables and their repository: \<open>api/internal/modules/usage/model.go\<close> and
  \<open>repository.go\<close>, with the target of \<open>api/internal/domain/usage.go\<close>.

  A table is the list of its rows in the order of their ids. The database numbers rows from a sequence
  (\<open>ud_next\<close>), and \<open>flt k\<close> is its failure, if any, at the \<open>k\<close>-th statement of an operation; \<open>clk k\<close> is the
  clock at the \<open>k\<close>-th reading. An operation is one step: the owner row is locked before a counter or
  quota is read, so operations on one target are serial. \<open>bound\<close> says that the caller's context
  already carries a transaction; otherwise an error rolls the operation back.
\<close>

subsection \<open>Rows\<close>

datatype usage_error =
    ErrUsageMetricNotFound
  | ErrUsageInvalidEvent
  | ErrUsageEventOutsideWindow
  | ErrUsageIdempotencyConflict
  | ErrUsageQuotaExceeded
  | ErrUsageQuotaVersionConflict
  | ErrInvalidInput
  | ErrServiceUnavailable
  | ErrUserNotFound
  | ErrOrganizationNotFound
  | DbError string

definition scope_user :: string where
  "scope_user = ''user''"

definition scope_organization :: string where
  "scope_organization = ''organization''"

record usage_target =
  ut_scope :: string
  ut_subject :: nat

definition valid_scope :: "string \<Rightarrow> bool" where
  "valid_scope s \<longleftrightarrow> s = scope_user \<or> s = scope_organization"

definition valid_target :: "usage_target \<Rightarrow> bool" where
  "valid_target t \<longleftrightarrow> valid_scope (ut_scope t) \<and> ut_subject t > 0"

definition op_record :: string where "op_record = ''record''"
definition op_consume :: string where "op_consume = ''consume''"
definition decision_pending :: string where "decision_pending = ''pending''"
definition decision_accepted :: string where "decision_accepted = ''accepted''"
definition decision_denied :: string where "decision_denied = ''denied''"

text \<open>The user and organization columns: \<open>setUsageOwner\<close> fills the one of the scope.\<close>

record usage_owner =
  ow_user :: "nat option"
  ow_organization :: "nat option"

definition usage_owner_of :: "usage_target \<Rightarrow> usage_owner" where
  "usage_owner_of t =
     \<lparr>ow_user = (if ut_scope t = scope_user then Some (ut_subject t) else None),
      ow_organization = (if ut_scope t = scope_organization then Some (ut_subject t) else None)\<rparr>"

record usage_event_row =
  ue_id :: nat
  ue_source :: string
  ue_eventID :: string
  ue_fingerprint :: string
  ue_operation :: string
  ue_target :: usage_target
  ue_owner :: usage_owner
  ue_metric :: string
  ue_quantity :: int
  ue_dimensions :: string
  ue_occurredAt :: instant
  ue_periodStart :: instant
  ue_periodEnd :: instant
  ue_decision :: string
  ue_before :: int
  ue_after :: int
  ue_limit :: "int option"
  ue_createdAt :: instant
  ue_updatedAt :: instant

record usage_counter_row =
  uc_id :: nat
  uc_target :: usage_target
  uc_owner :: usage_owner
  uc_metric :: string
  uc_periodStart :: instant
  uc_periodEnd :: instant
  uc_value :: int
  uc_version :: nat
  uc_updatedAt :: instant

record usage_quota_row =
  uq_id :: nat
  uq_target :: usage_target
  uq_owner :: usage_owner
  uq_metric :: string
  uq_limit :: "int option"
  uq_overridden :: bool
  uq_version :: nat
  uq_updatedAt :: instant

record usage_quota_record =
  qr_limit :: "int option"
  qr_overridden :: bool
  qr_version :: nat
  qr_updatedAt :: instant

record usage_counter_record =
  cr_value :: int
  cr_version :: nat
  cr_updatedAt :: instant

record usage_db =
  ud_events :: "usage_event_row list"
  ud_counters :: "usage_counter_row list"
  ud_quotas :: "usage_quota_row list"
  ud_users :: "nat list"
  ud_organizations :: "nat list"
  ud_next :: nat

record usage_mutation =
  um_operation :: string
  um_source :: string
  um_eventID :: string
  um_fingerprint :: string
  um_target :: usage_target
  um_metric :: string
  um_quantity :: int
  um_dimensions :: string
  um_occurredAt :: instant
  um_periodStart :: instant
  um_periodEnd :: instant
  um_defaultLimit :: "int option"

record usage_receipt =
  rc_source :: string
  rc_eventID :: string
  rc_target :: usage_target
  rc_metric :: string
  rc_quantity :: int
  rc_occurredAt :: instant
  rc_periodStart :: instant
  rc_periodEnd :: instant
  rc_decision :: string
  rc_before :: int
  rc_after :: int
  rc_limit :: "int option"
  rc_replayed :: bool

subsection \<open>Validation\<close>

definition max_safe :: int where
  "max_safe = 9007199254740991"

text \<open>The two identifier patterns of \<open>catalog.go\<close>.\<close>

definition snake_word :: "string \<Rightarrow> bool" where
  "snake_word s =
     (case split_on CHR ''_'' s of
        [] \<Rightarrow> False
      | w # ws \<Rightarrow> w \<noteq> [] \<and> lower_letter (hd w) \<and> list_all lower_alnum w
          \<and> list_all (\<lambda>v. v \<noteq> [] \<and> list_all lower_alnum v) ws)"

definition valid_usage_source :: "string \<Rightarrow> bool" where
  "valid_usage_source s \<longleftrightarrow> 0 < length s \<and> length s \<le> 64 \<and> list_all snake_word (split_on CHR ''.'' s)"

definition event_id_char :: "char \<Rightarrow> bool" where
  "event_id_char c \<longleftrightarrow> lower_alnum c \<or> upper_letter c \<or> c \<in> {CHR ''.'', CHR ''_'', CHR '':'', CHR ''-''}"

definition valid_usage_event_id :: "string \<Rightarrow> bool" where
  "valid_usage_event_id s \<longleftrightarrow> 0 < length s \<and> length s \<le> 128
     \<and> (lower_alnum (hd s) \<or> upper_letter (hd s)) \<and> list_all event_id_char s"

definition validate_mutation :: "usage_mutation \<Rightarrow> usage_error option" where
  "validate_mutation m =
     (if um_operation m \<noteq> op_record \<and> um_operation m \<noteq> op_consume then Some ErrUsageInvalidEvent
      else if \<not> valid_usage_source (um_source m) \<or> \<not> valid_usage_event_id (um_eventID m)
        \<or> \<not> valid_target (um_target m) \<or> um_metric m = '''' \<or> um_fingerprint m = ''''
        \<or> um_quantity m = 0 \<or> um_quantity m < - max_safe \<or> um_quantity m > max_safe
        \<or> um_occurredAt m = zero_time \<or> um_periodStart m = zero_time
        \<or> \<not> um_periodStart m < um_periodEnd m
      then Some ErrUsageInvalidEvent
      else if um_operation m = op_consume \<and> um_quantity m < 0 then Some ErrUsageInvalidEvent
      else None)"

definition add_safe_quantity :: "int \<Rightarrow> int \<Rightarrow> int option" where
  "add_safe_quantity current quantity =
     (if current < 0 \<or> current > max_safe \<or> quantity = 0 \<or> quantity < - max_safe \<or> quantity > max_safe
      then None
      else if quantity > 0 \<and> current > wrap64 (max_safe - quantity) then None
      else if quantity < 0 \<and> current < wrap64 (- quantity) then None
      else Some (wrap64 (current + quantity)))"

subsection \<open>Reading rows\<close>

definition find_event :: "string \<Rightarrow> string \<Rightarrow> usage_db \<Rightarrow> usage_event_row option" where
  "find_event source eventID db = find (\<lambda>r. ue_source r = source \<and> ue_eventID r = eventID) (ud_events db)"

definition find_counter :: "usage_target \<Rightarrow> string \<Rightarrow> instant \<Rightarrow> usage_db \<Rightarrow> usage_counter_row option" where
  "find_counter t metric start db =
     find (\<lambda>r. uc_target r = t \<and> uc_metric r = metric \<and> uc_periodStart r = start) (ud_counters db)"

definition find_quota :: "usage_target \<Rightarrow> string \<Rightarrow> usage_db \<Rightarrow> usage_quota_row option" where
  "find_quota t metric db = find (\<lambda>r. uq_target r = t \<and> uq_metric r = metric) (ud_quotas db)"

text \<open>\<open>lockUsageOwner\<close>: the error, if the owner is not there.\<close>

definition lock_owner :: "usage_error option \<Rightarrow> usage_target \<Rightarrow> usage_db \<Rightarrow> usage_error option" where
  "lock_owner flt t db =
     (if ut_scope t = scope_user
      then (case flt of Some e \<Rightarrow> Some e
            | None \<Rightarrow> if ut_subject t \<in> set (ud_users db) then None else Some ErrUserNotFound)
      else if ut_scope t = scope_organization
      then (case flt of Some e \<Rightarrow> Some e
            | None \<Rightarrow> if ut_subject t \<in> set (ud_organizations db) then None else Some ErrOrganizationNotFound)
      else Some ErrInvalidInput)"

definition quota_record :: "usage_quota_row \<Rightarrow> usage_quota_record" where
  "quota_record r =
     \<lparr>qr_limit = uq_limit r, qr_overridden = uq_overridden r, qr_version = uq_version r,
      qr_updatedAt = uq_updatedAt r\<rparr>"

definition receipt_of :: "usage_event_row \<Rightarrow> bool \<Rightarrow> usage_error + usage_receipt" where
  "receipt_of r replayed =
     (if ue_decision r \<noteq> decision_accepted \<and> ue_decision r \<noteq> decision_denied then Inl ErrServiceUnavailable
      else if \<not> valid_target (ue_target r) then Inl ErrServiceUnavailable
      else Inr \<lparr>rc_source = ue_source r, rc_eventID = ue_eventID r, rc_target = ue_target r,
                rc_metric = ue_metric r, rc_quantity = ue_quantity r, rc_occurredAt = ue_occurredAt r,
                rc_periodStart = ue_periodStart r, rc_periodEnd = ue_periodEnd r,
                rc_decision = ue_decision r, rc_before = ue_before r, rc_after = ue_after r,
                rc_limit = ue_limit r, rc_replayed = replayed\<rparr>)"


subsection \<open>New rows\<close>

definition new_event_row :: "nat \<Rightarrow> instant \<Rightarrow> usage_mutation \<Rightarrow> usage_event_row" where
  "new_event_row i now m =
     \<lparr>ue_id = i, ue_source = um_source m, ue_eventID = um_eventID m, ue_fingerprint = um_fingerprint m,
      ue_operation = um_operation m, ue_target = um_target m, ue_owner = usage_owner_of (um_target m),
      ue_metric = um_metric m, ue_quantity = um_quantity m, ue_dimensions = um_dimensions m,
      ue_occurredAt = um_occurredAt m, ue_periodStart = um_periodStart m, ue_periodEnd = um_periodEnd m,
      ue_decision = decision_pending, ue_before = 0, ue_after = 0, ue_limit = None,
      ue_createdAt = now, ue_updatedAt = now\<rparr>"

text \<open>The row as its columns keep it. The bounds of a period are whole days; the times of counters and quotas are
  kept as they are, no answer compares them.\<close>

definition event_columns :: "usage_event_row \<Rightarrow> usage_event_row" where
  "event_columns r =
     r\<lparr>ue_occurredAt := column_time (ue_occurredAt r), ue_createdAt := column_time (ue_createdAt r),
       ue_updatedAt := column_time (ue_updatedAt r)\<rparr>"

definition new_counter_row :: "nat \<Rightarrow> instant \<Rightarrow> usage_mutation \<Rightarrow> int \<Rightarrow> usage_counter_row" where
  "new_counter_row i now m v =
     \<lparr>uc_id = i, uc_target = um_target m, uc_owner = usage_owner_of (um_target m), uc_metric = um_metric m,
      uc_periodStart = um_periodStart m, uc_periodEnd = um_periodEnd m, uc_value = v, uc_version = 1,
      uc_updatedAt = now\<rparr>"

definition new_quota_row :: "nat \<Rightarrow> instant \<Rightarrow> usage_target \<Rightarrow> string \<Rightarrow> int \<Rightarrow> usage_quota_row" where
  "new_quota_row i now t metric lim =
     \<lparr>uq_id = i, uq_target = t, uq_owner = usage_owner_of t, uq_metric = metric, uq_limit = Some lim,
      uq_overridden = True, uq_version = 1, uq_updatedAt = now\<rparr>"

subsection \<open>Transactions\<close>

definition in_transaction ::
    "bool \<Rightarrow> (usage_db \<Rightarrow> (usage_error + 'a) \<times> usage_db) \<Rightarrow> usage_db \<Rightarrow> (usage_error + 'a) \<times> usage_db" where
  "in_transaction bound f db =
     (case f db of (Inl e, db1) \<Rightarrow> (Inl e, if bound then db1 else db) | (Inr x, db1) \<Rightarrow> (Inr x, db1))"

subsection \<open>Apply\<close>

text \<open>Reserving the receipt: an insert that does nothing when source and event id are taken. The row,
  when one was inserted, as it is in memory: its receipt has the event's time as given, a replayed one has
  the time read back.\<close>

definition reserve_receipt ::
    "usage_error option \<Rightarrow> instant \<Rightarrow> usage_mutation \<Rightarrow> usage_db
     \<Rightarrow> (usage_error + usage_event_row option) \<times> usage_db" where
  "reserve_receipt flt now m db =
     (case flt of
        Some e \<Rightarrow> (Inl e, db)
      | None \<Rightarrow>
          if find_event (um_source m) (um_eventID m) db \<noteq> None then (Inr None, db)
          else (let row = new_event_row (ud_next db) now m
                in (Inr (Some row), db\<lparr>ud_events := ud_events db @ [event_columns row], ud_next := ud_next db + 1\<rparr>)))"

text \<open>The first transaction branch: the event was seen before.\<close>

definition replay_receipt :: "usage_error option \<Rightarrow> usage_mutation \<Rightarrow> usage_db \<Rightarrow> usage_error + usage_receipt" where
  "replay_receipt flt m db =
     (case flt of
        Some e \<Rightarrow> Inl e
      | None \<Rightarrow>
          (case find_event (um_source m) (um_eventID m) db of
             None \<Rightarrow> Inl (DbError ''find usage event receipt'')
           | Some existing \<Rightarrow>
               if ue_fingerprint existing \<noteq> um_fingerprint m then Inl ErrUsageIdempotencyConflict
               else receipt_of existing True))"

definition effective_limit :: "usage_mutation \<Rightarrow> usage_quota_row option \<Rightarrow> int option" where
  "effective_limit m quota =
     (case quota of
        None \<Rightarrow> um_defaultLimit m
      | Some q \<Rightarrow> if uq_overridden q then uq_limit q else um_defaultLimit m)"

text \<open>The counter of an accepted event: created, or updated where id and version still match.\<close>

definition counter_hit :: "usage_counter_row \<Rightarrow> usage_counter_row \<Rightarrow> bool" where
  "counter_hit c r \<longleftrightarrow> uc_id r = uc_id c \<and> uc_version r = uc_version c"

definition write_counter ::
    "usage_error option \<Rightarrow> instant \<Rightarrow> usage_mutation \<Rightarrow> usage_counter_row option \<Rightarrow> int \<Rightarrow> usage_db
     \<Rightarrow> (usage_error + unit) \<times> usage_db" where
  "write_counter flt now m counter after db =
     (case flt of
        Some e \<Rightarrow> (Inl e, db)
      | None \<Rightarrow>
          (case counter of
             None \<Rightarrow>
               (Inr (), db\<lparr>ud_counters := ud_counters db @ [new_counter_row (ud_next db) now m after],
                           ud_next := ud_next db + 1\<rparr>)
           | Some c \<Rightarrow>
               (let db1 = db\<lparr>ud_counters := map (\<lambda>r. if counter_hit c r
                       then r\<lparr>uc_value := after, uc_version := uc_version c + 1, uc_updatedAt := now\<rparr> else r)
                     (ud_counters db)\<rparr>
                in if length (filter (counter_hit c) (ud_counters db)) \<noteq> 1 then (Inl ErrServiceUnavailable, db1)
                   else (Inr (), db1))))"

definition receipt_hit :: "usage_event_row \<Rightarrow> usage_event_row \<Rightarrow> bool" where
  "receipt_hit po r \<longleftrightarrow> ue_id r = ue_id po \<and> ue_decision r = decision_pending"

definition finalize_receipt ::
    "usage_error option \<Rightarrow> instant \<Rightarrow> usage_event_row \<Rightarrow> string \<Rightarrow> int \<Rightarrow> int \<Rightarrow> int option \<Rightarrow> usage_db
     \<Rightarrow> (usage_error + usage_receipt) \<times> usage_db" where
  "finalize_receipt flt now po decision before after lim db =
     (case flt of
        Some e \<Rightarrow> (Inl e, db)
      | None \<Rightarrow>
          (let set1 = (\<lambda>r. r\<lparr>ue_decision := decision, ue_before := before, ue_after := after, ue_limit := lim\<rparr>);
               db1 = db\<lparr>ud_events := map (\<lambda>r. if receipt_hit po r then set1 r\<lparr>ue_updatedAt := column_time now\<rparr> else r)
                     (ud_events db)\<rparr>
           in if length (filter (receipt_hit po) (ud_events db)) \<noteq> 1 then (Inl ErrServiceUnavailable, db1)
              else (receipt_of (set1 po) False, db1)))"

definition decide ::
    "usage_mutation \<Rightarrow> int option \<Rightarrow> int \<Rightarrow> int \<Rightarrow> string \<times> int" where
  "decide m lim before after =
     (if um_operation m = op_consume \<and> (case lim of Some l \<Rightarrow> after > l | None \<Rightarrow> False)
      then (decision_denied, before) else (decision_accepted, after))"

text \<open>The second branch: the event is new and its receipt \<open>po\<close> reserved.\<close>

definition settle_event ::
    "(nat \<Rightarrow> usage_error option) \<Rightarrow> (nat \<Rightarrow> instant) \<Rightarrow> usage_mutation \<Rightarrow> usage_event_row \<Rightarrow> usage_db
     \<Rightarrow> (usage_error + usage_receipt) \<times> usage_db" where
  "settle_event flt clk m po db =
     (case lock_owner (flt 2) (um_target m) db of
        Some e \<Rightarrow> (Inl e, db)
      | None \<Rightarrow>
     (case flt 3 of
        Some e \<Rightarrow> (Inl e, db)
      | None \<Rightarrow>
     (let lim = effective_limit m (find_quota (um_target m) (um_metric m) db) in
      case flt 4 of
        Some e \<Rightarrow> (Inl e, db)
      | None \<Rightarrow>
     (let counter = find_counter (um_target m) (um_metric m) (um_periodStart m) db;
          before = (case counter of None \<Rightarrow> 0 | Some c \<Rightarrow> uc_value c) in
      case add_safe_quantity before (um_quantity m) of
        None \<Rightarrow> (Inl ErrUsageInvalidEvent, db)
      | Some sum1 \<Rightarrow>
     (case decide m lim before sum1 of (decision, after) \<Rightarrow>
     (case (if decision = decision_accepted then write_counter (flt 5) (clk 1) m counter after db
            else (Inr (), db)) of
        (Inl e, db1) \<Rightarrow> (Inl e, db1)
      | (Inr _, db1) \<Rightarrow> finalize_receipt (flt 6) (clk 2) po decision before after lim db1))))))"

definition apply_in_tx ::
    "(nat \<Rightarrow> usage_error option) \<Rightarrow> (nat \<Rightarrow> instant) \<Rightarrow> usage_mutation \<Rightarrow> usage_db
     \<Rightarrow> (usage_error + usage_receipt) \<times> usage_db" where
  "apply_in_tx flt clk m db =
     (case reserve_receipt (flt 0) (clk 0) m db of
        (Inl e, db1) \<Rightarrow> (Inl e, db1)
      | (Inr None, db1) \<Rightarrow> (replay_receipt (flt 1) m db1, db1)
      | (Inr (Some po), db1) \<Rightarrow> settle_event flt clk m po db1)"

definition apply_mutation ::
    "(nat \<Rightarrow> usage_error option) \<Rightarrow> (nat \<Rightarrow> instant) \<Rightarrow> bool \<Rightarrow> usage_mutation \<Rightarrow> usage_db
     \<Rightarrow> (usage_error + usage_receipt) \<times> usage_db" where
  "apply_mutation flt clk bound m db =
     (case validate_mutation m of
        Some e \<Rightarrow> (Inl e, db)
      | None \<Rightarrow> in_transaction bound (apply_in_tx flt clk m) db)"

subsection \<open>Quotas\<close>

definition quota_hit :: "usage_quota_row \<Rightarrow> usage_quota_row \<Rightarrow> bool" where
  "quota_hit q r \<longleftrightarrow> uq_id r = uq_id q \<and> uq_version r = uq_version q"

text \<open>The conditional update shared by \<open>SetQuota\<close> and \<open>ResetQuota\<close>: \<open>lim\<close> is the new limit.\<close>

definition update_quota ::
    "usage_error option \<Rightarrow> instant \<Rightarrow> usage_quota_row \<Rightarrow> int option \<Rightarrow> usage_db
     \<Rightarrow> (usage_error + usage_quota_record option \<times> bool) \<times> usage_db" where
  "update_quota flt now po lim db =
     (case flt of
        Some e \<Rightarrow> (Inl e, db)
      | None \<Rightarrow>
          (let set1 = (\<lambda>r. r\<lparr>uq_limit := lim, uq_overridden := (lim \<noteq> None), uq_version := uq_version po + 1,
                            uq_updatedAt := now\<rparr>);
               db1 = db\<lparr>ud_quotas := map (\<lambda>r. if quota_hit po r then set1 r else r) (ud_quotas db)\<rparr>
           in if length (filter (quota_hit po) (ud_quotas db)) \<noteq> 1 then (Inl ErrUsageQuotaVersionConflict, db1)
              else (Inr (Some (quota_record (set1 po)), True), db1)))"

definition set_quota_in_tx ::
    "(nat \<Rightarrow> usage_error option) \<Rightarrow> (nat \<Rightarrow> instant) \<Rightarrow> usage_target \<Rightarrow> string \<Rightarrow> int \<Rightarrow> nat \<Rightarrow> usage_db
     \<Rightarrow> (usage_error + usage_quota_record option \<times> bool) \<times> usage_db" where
  "set_quota_in_tx flt clk t metric lim expected db =
     (case lock_owner (flt 0) t db of
        Some e \<Rightarrow> (Inl e, db)
      | None \<Rightarrow>
     (case flt 1 of
        Some e \<Rightarrow> (Inl e, db)
      | None \<Rightarrow>
     (case find_quota t metric db of
        None \<Rightarrow>
          if expected \<noteq> 0 then (Inl ErrUsageQuotaVersionConflict, db)
          else (case flt 2 of
             Some e \<Rightarrow> (Inl e, db)
           | None \<Rightarrow>
               (let po = new_quota_row (ud_next db) (clk 0) t metric lim
                in (Inr (Some (quota_record po), True),
                    db\<lparr>ud_quotas := ud_quotas db @ [po], ud_next := ud_next db + 1\<rparr>)))
      | Some po \<Rightarrow>
          if uq_version po \<noteq> expected then (Inl ErrUsageQuotaVersionConflict, db)
          else if uq_overridden po \<and> uq_limit po = Some lim then (Inr (Some (quota_record po), False), db)
          else update_quota (flt 2) (clk 0) po (Some lim) db)))"

definition set_quota ::
    "(nat \<Rightarrow> usage_error option) \<Rightarrow> (nat \<Rightarrow> instant) \<Rightarrow> bool \<Rightarrow> usage_target \<Rightarrow> string \<Rightarrow> int \<Rightarrow> nat \<Rightarrow> usage_db
     \<Rightarrow> (usage_error + usage_quota_record option \<times> bool) \<times> usage_db" where
  "set_quota flt clk bound t metric lim expected db =
     (if \<not> valid_target t \<or> metric = '''' \<or> lim < 0 \<or> lim > max_safe then (Inl ErrInvalidInput, db)
      else in_transaction bound (set_quota_in_tx flt clk t metric lim expected) db)"

definition reset_quota_in_tx ::
    "(nat \<Rightarrow> usage_error option) \<Rightarrow> (nat \<Rightarrow> instant) \<Rightarrow> usage_target \<Rightarrow> string \<Rightarrow> nat \<Rightarrow> usage_db
     \<Rightarrow> (usage_error + usage_quota_record option \<times> bool) \<times> usage_db" where
  "reset_quota_in_tx flt clk t metric expected db =
     (case lock_owner (flt 0) t db of
        Some e \<Rightarrow> (Inl e, db)
      | None \<Rightarrow>
     (case flt 1 of
        Some e \<Rightarrow> (Inl e, db)
      | None \<Rightarrow>
     (case find_quota t metric db of
        None \<Rightarrow> if expected \<noteq> 0 then (Inl ErrUsageQuotaVersionConflict, db) else (Inr (None, False), db)
      | Some po \<Rightarrow>
          if uq_version po \<noteq> expected then (Inl ErrUsageQuotaVersionConflict, db)
          else if \<not> uq_overridden po then (Inr (Some (quota_record po), False), db)
          else update_quota (flt 2) (clk 0) po None db)))"

definition reset_quota ::
    "(nat \<Rightarrow> usage_error option) \<Rightarrow> (nat \<Rightarrow> instant) \<Rightarrow> bool \<Rightarrow> usage_target \<Rightarrow> string \<Rightarrow> nat \<Rightarrow> usage_db
     \<Rightarrow> (usage_error + usage_quota_record option \<times> bool) \<times> usage_db" where
  "reset_quota flt clk bound t metric expected db =
     (if \<not> valid_target t \<or> metric = '''' then (Inl ErrInvalidInput, db)
      else in_transaction bound (reset_quota_in_tx flt clk t metric expected) db)"

subsection \<open>Retention, deletion and listing\<close>

definition receipt_prunable :: "instant \<Rightarrow> usage_event_row \<Rightarrow> bool" where
  "receipt_prunable before r \<longleftrightarrow> ue_createdAt r < column_time before \<and> ue_decision r \<noteq> decision_pending"

definition prune_receipts ::
    "usage_error option \<Rightarrow> instant \<Rightarrow> usage_db \<Rightarrow> (usage_error + int) \<times> usage_db" where
  "prune_receipts flt before db =
     (if before = zero_time then (Inl ErrInvalidInput, db)
      else case flt of
        Some e \<Rightarrow> (Inl e, db)
      | None \<Rightarrow> (Inr (int (length (filter (receipt_prunable before) (ud_events db)))),
                 db\<lparr>ud_events := filter (\<lambda>r. \<not> receipt_prunable before r) (ud_events db)\<rparr>))"

definition owned_by_user :: "nat \<Rightarrow> usage_target \<Rightarrow> usage_owner \<Rightarrow> bool" where
  "owned_by_user u t w \<longleftrightarrow> ut_scope t = scope_user \<and> ow_user w = Some u"

definition delete_for_user_in_tx ::
    "(nat \<Rightarrow> usage_error option) \<Rightarrow> nat \<Rightarrow> usage_db \<Rightarrow> (usage_error + unit) \<times> usage_db" where
  "delete_for_user_in_tx flt u db =
     (case flt 0 of Some e \<Rightarrow> (Inl e, db) | None \<Rightarrow>
     (let db1 = db\<lparr>ud_events := filter (\<lambda>r. \<not> owned_by_user u (ue_target r) (ue_owner r)) (ud_events db)\<rparr> in
      case flt 1 of Some e \<Rightarrow> (Inl e, db1) | None \<Rightarrow>
     (let db2 = db1\<lparr>ud_counters := filter (\<lambda>r. \<not> owned_by_user u (uc_target r) (uc_owner r)) (ud_counters db1)\<rparr> in
      case flt 2 of Some e \<Rightarrow> (Inl e, db2) | None \<Rightarrow>
      (Inr (), db2\<lparr>ud_quotas := filter (\<lambda>r. \<not> owned_by_user u (uq_target r) (uq_owner r)) (ud_quotas db2)\<rparr>))))"

definition delete_for_user ::
    "(nat \<Rightarrow> usage_error option) \<Rightarrow> bool \<Rightarrow> nat \<Rightarrow> usage_db \<Rightarrow> (usage_error + unit) \<times> usage_db" where
  "delete_for_user flt bound u db =
     (if u = 0 then (Inl ErrInvalidInput, db) else in_transaction bound (delete_for_user_in_tx flt u) db)"

definition counter_record :: "usage_counter_row \<Rightarrow> usage_counter_record" where
  "counter_record r = \<lparr>cr_value = uc_value r, cr_version = uc_version r, cr_updatedAt = uc_updatedAt r\<rparr>"

text \<open>The maps of \<open>ListCurrent\<close>, filled in row order: a later row of a metric replaces an earlier one.\<close>

definition list_current ::
    "(nat \<Rightarrow> usage_error option) \<Rightarrow> usage_target \<Rightarrow> instant \<Rightarrow> string list \<Rightarrow> usage_db
     \<Rightarrow> usage_error + (string \<Rightarrow> usage_counter_record option) \<times> (string \<Rightarrow> usage_quota_record option)" where
  "list_current flt t at1 metrics db =
     (if \<not> valid_target t \<or> at1 = zero_time \<or> metrics = [] \<or> length metrics > 64 then Inl ErrInvalidInput
      else case flt 0 of Some e \<Rightarrow> Inl e | None \<Rightarrow>
      (case flt 1 of Some e \<Rightarrow> Inl e | None \<Rightarrow>
       Inr (fold (\<lambda>r f. f(uc_metric r \<mapsto> counter_record r))
              (filter (\<lambda>r. uc_target r = t \<and> uc_metric r \<in> set metrics \<and> uc_periodStart r \<le> at1
                   \<and> at1 < uc_periodEnd r) (ud_counters db)) Map.empty,
            fold (\<lambda>r f. f(uq_metric r \<mapsto> quota_record r))
              (filter (\<lambda>r. uq_target r = t \<and> uq_metric r \<in> set metrics) (ud_quotas db)) Map.empty)))"

end
