(* ===== verification/Usage_Store_Inv.thy ===== *)
theory Usage_Store_Inv
  imports Usage_Store
begin

text \<open>
  The tables of the usage meter stay well formed: unique identities, rows within the check constraints
  that \<open>model.go\<close> declares, no reserved receipt left behind, and every counter equal to the sum of the
  accepted events it stands for. The steps are the repository's operations, with any database failures
  and clock readings, each in a transaction of its own.
\<close>

subsection \<open>The declared constraints\<close>

definition in_safe_range :: "int \<Rightarrow> bool" where
  "in_safe_range n \<longleftrightarrow> 0 \<le> n \<and> n \<le> max_safe"

definition limit_ok :: "int option \<Rightarrow> bool" where
  "limit_ok l \<longleftrightarrow> (case l of None \<Rightarrow> True | Some n \<Rightarrow> in_safe_range n)"

definition subject_ok :: "usage_target \<Rightarrow> usage_owner \<Rightarrow> bool" where
  "subject_ok t w \<longleftrightarrow>
     (ut_scope t = scope_user \<and> ow_user w = Some (ut_subject t) \<and> ow_organization w = None)
     \<or> (ut_scope t = scope_organization \<and> ow_organization w = Some (ut_subject t) \<and> ow_user w = None)"

definition event_row_ok :: "usage_event_row \<Rightarrow> bool" where
  "event_row_ok r \<longleftrightarrow>
     length (ue_fingerprint r) = 64 \<and> ue_operation r \<in> {op_record, op_consume}
     \<and> valid_scope (ut_scope (ue_target r)) \<and> subject_ok (ue_target r) (ue_owner r)
     \<and> ue_quantity r \<noteq> 0 \<and> - max_safe \<le> ue_quantity r \<and> ue_quantity r \<le> max_safe
     \<and> (ue_operation r = op_record \<or> ue_quantity r > 0)
     \<and> 2 \<le> length (ue_dimensions r) \<and> length (ue_dimensions r) \<le> 4096
     \<and> ue_periodStart r < ue_periodEnd r
     \<and> ue_decision r \<in> {decision_pending, decision_accepted, decision_denied}
     \<and> in_safe_range (ue_before r) \<and> in_safe_range (ue_after r)
     \<and> (ue_decision r \<noteq> decision_denied \<or> ue_after r = ue_before r) \<and> limit_ok (ue_limit r)"

definition counter_row_ok :: "usage_counter_row \<Rightarrow> bool" where
  "counter_row_ok r \<longleftrightarrow>
     valid_scope (ut_scope (uc_target r)) \<and> subject_ok (uc_target r) (uc_owner r)
     \<and> uc_periodStart r < uc_periodEnd r \<and> in_safe_range (uc_value r) \<and> 0 < uc_version r"

definition quota_row_ok :: "usage_quota_row \<Rightarrow> bool" where
  "quota_row_ok r \<longleftrightarrow>
     valid_scope (ut_scope (uq_target r)) \<and> subject_ok (uq_target r) (uq_owner r) \<and> limit_ok (uq_limit r)
     \<and> (uq_overridden r \<longleftrightarrow> uq_limit r \<noteq> None) \<and> 0 < uq_version r"

abbreviation event_key :: "usage_event_row \<Rightarrow> string \<times> string" where
  "event_key r \<equiv> (ue_source r, ue_eventID r)"

abbreviation counter_key :: "usage_counter_row \<Rightarrow> usage_target \<times> string \<times> instant" where
  "counter_key r \<equiv> (uc_target r, uc_metric r, uc_periodStart r)"

abbreviation quota_key :: "usage_quota_row \<Rightarrow> usage_target \<times> string" where
  "quota_key r \<equiv> (uq_target r, uq_metric r)"

text \<open>The well-formed tables: constraints, unique indexes, ids from the sequence, and settled receipts.\<close>


definition events_wf :: "usage_db \<Rightarrow> bool" where
  "events_wf db \<longleftrightarrow> (\<forall>r \<in> set (ud_events db). event_row_ok r \<and> ue_decision r \<noteq> decision_pending
        \<and> 0 < ut_subject (ue_target r) \<and> ue_id r < ud_next db)
     \<and> distinct (map ue_id (ud_events db)) \<and> distinct (map event_key (ud_events db))"

definition counters_wf :: "usage_db \<Rightarrow> bool" where
  "counters_wf db \<longleftrightarrow> (\<forall>r \<in> set (ud_counters db). counter_row_ok r \<and> uc_id r < ud_next db)
     \<and> distinct (map uc_id (ud_counters db)) \<and> distinct (map counter_key (ud_counters db))"

definition quotas_wf :: "usage_db \<Rightarrow> bool" where
  "quotas_wf db \<longleftrightarrow> (\<forall>r \<in> set (ud_quotas db). quota_row_ok r \<and> uq_id r < ud_next db)
     \<and> distinct (map uq_id (ud_quotas db)) \<and> distinct (map quota_key (ud_quotas db))"

definition usage_wf :: "usage_db \<Rightarrow> bool" where
  "usage_wf db \<longleftrightarrow> events_wf db \<and> counters_wf db \<and> quotas_wf db"

lemmas usage_wf_defs = usage_wf_def events_wf_def counters_wf_def quotas_wf_def

text \<open>What the service puts into a mutation beyond what the repository validates: a SHA-256 digest in
  hexadecimal, bounded dimensions, a default limit of a validated definition.\<close>

definition service_mutation :: "usage_mutation \<Rightarrow> bool" where
  "service_mutation m \<longleftrightarrow> length (um_fingerprint m) = 64 \<and> 2 \<le> length (um_dimensions m)
     \<and> length (um_dimensions m) \<le> 4096 \<and> limit_ok (um_defaultLimit m)"

subsection \<open>Quantities\<close>

lemma add_safe_Some:
  "add_safe_quantity c q = Some s \<longleftrightarrow>
     s = c + q \<and> in_safe_range c \<and> in_safe_range s \<and> q \<noteq> 0 \<and> - max_safe \<le> q \<and> q \<le> max_safe"
proof (cases "0 \<le> c \<and> c \<le> max_safe \<and> q \<noteq> 0 \<and> - max_safe \<le> q \<and> q \<le> max_safe")
  case True
  then have w: "wrap64 (max_safe - q) = max_safe - q" "wrap64 (- q) = - q" "wrap64 (c + q) = c + q"
    by (simp_all add: wrap64_id max_safe_def)
  from True show ?thesis
    unfolding add_safe_quantity_def in_safe_range_def w by (cases "0 < q") auto
next
  case False
  then show ?thesis by (auto simp: add_safe_quantity_def in_safe_range_def)
qed

lemma decision_distinct [simp]:
  "decision_accepted \<noteq> decision_pending" "decision_denied \<noteq> decision_pending"
  "decision_accepted \<noteq> decision_denied" "decision_pending \<noteq> decision_accepted"
  "decision_pending \<noteq> decision_denied" "decision_denied \<noteq> decision_accepted"
  by (simp_all add: decision_accepted_def decision_pending_def decision_denied_def)

lemma op_distinct [simp]: "op_record \<noteq> op_consume" "op_consume \<noteq> op_record"
  by (simp_all add: op_record_def op_consume_def)

lemma scope_distinct [simp]: "scope_user \<noteq> scope_organization" "scope_organization \<noteq> scope_user"
  by (simp_all add: scope_user_def scope_organization_def)

lemma subject_ok_owner [simp]: "valid_scope (ut_scope t) \<Longrightarrow> subject_ok t (usage_owner_of t)"
  by (auto simp: subject_ok_def usage_owner_of_def valid_scope_def)

lemma subject_ok_unique: "subject_ok t w \<Longrightarrow> w = usage_owner_of t"
  by (cases w) (auto simp: subject_ok_def usage_owner_of_def)

subsection \<open>Finding and updating one row\<close>

lemma filter_only:
  "distinct xs \<Longrightarrow> x \<in> set xs \<Longrightarrow> (\<And>y. y \<in> set xs \<Longrightarrow> P y \<longleftrightarrow> y = x) \<Longrightarrow> filter P xs = [x]"
proof (induction xs)
  case (Cons y ys)
  show ?case
  proof (cases "y = x")
    case True
    then have "filter P ys = []" using Cons.prems(1,3) by (auto simp: filter_empty_conv)
    with True Cons.prems(3) [of y] show ?thesis by simp
  next
    case False
    with Cons.prems(1,2,3) Cons.IH show ?thesis by simp
  qed
qed simp

lemma hit_only:
  assumes "distinct (map f xs)" "x \<in> set xs" "P x" "\<And>y. P y \<Longrightarrow> f y = f x"
  shows "length (filter P xs) = 1" "map (\<lambda>r. if P r then g r else r) xs = map (\<lambda>r. if r = x then g x else r) xs"
proof -
  have only: "P y \<longleftrightarrow> y = x" if "y \<in> set xs" for y
    using assms(1) assms(2,3) assms(4) [of y] that by (auto simp: distinct_map dest: inj_onD)
  have "distinct xs" using assms(1) by (simp add: distinct_map)
  then have "filter P xs = [x]" by (rule filter_only) (use assms(2) only in simp_all)
  then show "length (filter P xs) = 1" by simp
  show "map (\<lambda>r. if P r then g r else r) xs = map (\<lambda>r. if r = x then g x else r) xs"
    using only by (intro map_cong) simp_all
qed


subsection \<open>What Apply does\<close>

definition settled_row ::
    "usage_event_row \<Rightarrow> string \<Rightarrow> int \<Rightarrow> int \<Rightarrow> int option \<Rightarrow> instant \<Rightarrow> usage_event_row" where
  "settled_row po decision before after lim now =
     po\<lparr>ue_decision := decision, ue_before := before, ue_after := after, ue_limit := lim, ue_updatedAt := now\<rparr>"

definition applied_counters ::
    "instant \<Rightarrow> usage_mutation \<Rightarrow> usage_counter_row option \<Rightarrow> int \<Rightarrow> nat \<Rightarrow> usage_counter_row list
     \<Rightarrow> usage_counter_row list" where
  "applied_counters now m counter after i cs =
     (case counter of
        None \<Rightarrow> cs @ [new_counter_row i now m after]
      | Some c \<Rightarrow> map (\<lambda>r. if r = c then c\<lparr>uc_value := after, uc_version := uc_version c + 1, uc_updatedAt := now\<rparr>
                         else r) cs)"

definition counter_value :: "usage_counter_row option \<Rightarrow> int" where
  "counter_value c = (case c of None \<Rightarrow> 0 | Some r \<Rightarrow> uc_value r)"

lemma write_counter_effect:
  assumes "counters_wf db" "counter = find_counter (um_target m) (um_metric m) (um_periodStart m) db"
    and "write_counter flt now m counter after db = (Inr x, db1)"
  shows "db1 = db\<lparr>ud_counters := applied_counters now m counter after (ud_next db) (ud_counters db),
                 ud_next := (if counter = None then ud_next db + 1 else ud_next db)\<rparr>"
proof (cases counter)
  case None
  with assms(3) show ?thesis by (auto simp: write_counter_def applied_counters_def split: option.splits)
next
  case (Some c)
  then have c: "c \<in> set (ud_counters db)" using assms(2) by (auto simp: find_counter_def dest: find_key_Some)
  have "distinct (map uc_id (ud_counters db))" using assms(1) by (simp add: counters_wf_def)
  note hit = hit_only [OF this c, of "counter_hit c"]
  have "length (filter (counter_hit c) (ud_counters db)) = 1"
    by (rule hit) (auto simp: counter_hit_def)
  moreover have "map (\<lambda>r. if counter_hit c r then r\<lparr>uc_value := after, uc_version := uc_version c + 1, uc_updatedAt := now\<rparr>
        else r) (ud_counters db) = applied_counters now m counter after (ud_next db) (ud_counters db)"
    unfolding applied_counters_def Some option.case
    by (subst hit(2)) (auto simp: counter_hit_def)
  ultimately show ?thesis using assms(3) Some by (auto simp: write_counter_def Let_def split: option.splits)
qed

lemma finalize_effect:
  assumes "distinct (map ue_id (ud_events db))" "event_columns po \<in> set (ud_events db)" "ue_decision po = decision_pending"
    and "finalize_receipt flt now po decision before after lim db = (Inr rc, db1)"
  shows "db1 = db\<lparr>ud_events := map (\<lambda>r. if r = event_columns po
        then settled_row (event_columns po) decision before after lim (column_time now) else r) (ud_events db)\<rparr>
    \<and> receipt_of (settled_row po decision before after lim now) False = Inr rc"
proof -
  note hit = hit_only [OF assms(1,2), of "receipt_hit po"]
  have A: "length (filter (receipt_hit po) (ud_events db)) = 1"
    by (rule hit) (use assms(3) in \<open>auto simp: receipt_hit_def event_columns_def\<close>)
  have B: "map (\<lambda>r. if receipt_hit po r then r\<lparr>ue_decision := decision, ue_before := before, ue_after := after,
        ue_limit := lim, ue_updatedAt := column_time now\<rparr> else r) (ud_events db)
      = map (\<lambda>r. if r = event_columns po then settled_row (event_columns po) decision before after lim (column_time now) else r)
          (ud_events db)"
    unfolding settled_row_def by (subst hit(2)) (use assms(3) in \<open>auto simp: receipt_hit_def event_columns_def\<close>)
  have flt: "flt = None" using assms(4) by (cases flt) (auto simp: finalize_receipt_def)
  have C: "receipt_of (po\<lparr>ue_decision := decision, ue_before := before, ue_after := after, ue_limit := lim\<rparr>) False
      = receipt_of (settled_row po decision before after lim now) False"
    by (simp add: receipt_of_def settled_row_def)
  show ?thesis using assms(4) unfolding finalize_receipt_def flt option.case Let_def A B C by simp
qed

text \<open>The new event's part of Apply, on well-formed tables, when it answers a receipt.\<close>

definition applied ::
    "usage_mutation \<Rightarrow> (nat \<Rightarrow> instant) \<Rightarrow> usage_db \<Rightarrow> string \<Rightarrow> int \<Rightarrow> usage_db" where
  "applied m clk db decision after =
     (let counter = find_counter (um_target m) (um_metric m) (um_periodStart m) db;
          row = settled_row (event_columns (new_event_row (ud_next db) (clk 0) m)) decision (counter_value counter) after
                  (effective_limit m (find_quota (um_target m) (um_metric m) db)) (column_time (clk 2))
      in if decision = decision_accepted
         then db\<lparr>ud_events := ud_events db @ [row],
                 ud_counters := applied_counters (clk 1) m counter after (ud_next db + 1) (ud_counters db),
                 ud_next := ud_next db + (if counter = None then 2 else 1)\<rparr>
         else db\<lparr>ud_events := ud_events db @ [row], ud_next := ud_next db + 1\<rparr>)"

lemma settle_effect:
  fixes db :: usage_db and m :: usage_mutation and clk :: "nat \<Rightarrow> instant"
  defines "po \<equiv> new_event_row (ud_next db) (clk 0) m"
  defines "db1 \<equiv> db\<lparr>ud_events := ud_events db @ [event_columns po], ud_next := ud_next db + 1\<rparr>"
  assumes wf: "usage_wf db" and res: "settle_event flt clk m po db1 = (Inr rc, db2)"
  shows "\<exists>sum1 decision after. add_safe_quantity (counter_value (find_counter (um_target m) (um_metric m) (um_periodStart m) db))
        (um_quantity m) = Some sum1
    \<and> decide m (effective_limit m (find_quota (um_target m) (um_metric m) db))
        (counter_value (find_counter (um_target m) (um_metric m) (um_periodStart m) db)) sum1 = (decision, after)
    \<and> db2 = applied m clk db decision after
    \<and> receipt_of (settled_row po decision (counter_value (find_counter (um_target m) (um_metric m) (um_periodStart m) db))
        after (effective_limit m (find_quota (um_target m) (um_metric m) db)) (clk 2)) False = Inr rc
    \<and> lock_owner None (um_target m) db = None"
proof -
  let ?counter = "find_counter (um_target m) (um_metric m) (um_periodStart m) db"
  let ?lim = "effective_limit m (find_quota (um_target m) (um_metric m) db)"
  let ?before = "counter_value ?counter"
  have find1: "find_counter (um_target m) (um_metric m) (um_periodStart m) db1 = ?counter"
    "find_quota (um_target m) (um_metric m) db1 = find_quota (um_target m) (um_metric m) db"
    by (simp_all add: find_counter_def find_quota_def db1_def)
  have flt2: "lock_owner (flt 2) (um_target m) db1 = None" "flt 3 = None"
    using res by (auto simp: settle_event_def split: option.splits)
  then have "flt 4 = None" using res by (cases "flt 4") (simp_all add: settle_event_def Let_def)
  note flt = flt2 this
  have bf: "(case ?counter of None \<Rightarrow> 0 | Some c \<Rightarrow> uc_value c) = ?before" by (simp add: counter_value_def)
  obtain sum1 where s1: "add_safe_quantity ?before (um_quantity m) = Some sum1"
    using res by (cases "add_safe_quantity ?before (um_quantity m)")
      (simp_all add: settle_event_def Let_def find1 flt bf)
  obtain decision after where s2: "decide m ?lim ?before sum1 = (decision, after)" by fastforce
  note s = s1 s2
  have lock: "lock_owner None (um_target m) db = None"
    using flt(1) by (auto simp: lock_owner_def db1_def split: option.splits if_splits)
  have res2: "(case (if decision = decision_accepted then write_counter (flt 5) (clk 1) m ?counter after db1
        else (Inr (), db1)) of (Inl e, db1) \<Rightarrow> (Inl e, db1)
      | (Inr _, db1) \<Rightarrow> finalize_receipt (flt 6) (clk 2) po decision ?before after ?lim db1) = (Inr rc, db2)"
    using res by (simp only: settle_event_def Let_def find1 flt bf s option.case prod.case)
  then obtain x db3 where w: "(if decision = decision_accepted then write_counter (flt 5) (clk 1) m ?counter after db1
        else (Inr (), db1)) = (Inr x, db3)"
      and fin: "finalize_receipt (flt 6) (clk 2) po decision ?before after ?lim db3 = (Inr rc, db2)"
    by (auto split: sum.splits prod.splits)
  have ids: "distinct (map ue_id (ud_events db1))" "ud_events db3 = ud_events db1"
    and fresh: "event_columns po \<notin> set (ud_events db)"
  proof -
    show "distinct (map ue_id (ud_events db1))"
      using wf by (auto simp: usage_wf_defs db1_def po_def new_event_row_def event_columns_def)
    show "ud_events db3 = ud_events db1"
      using w by (auto simp: write_counter_def Let_def split: if_splits option.splits)
    show "event_columns po \<notin> set (ud_events db)"
      using wf by (auto simp: usage_wf_defs po_def new_event_row_def event_columns_def)
  qed
  have "counters_wf db1" using wf by (auto simp: usage_wf_def counters_wf_def db1_def intro: less_SucI)
  then have db3: "db3 = (if decision = decision_accepted
      then db1\<lparr>ud_counters := applied_counters (clk 1) m ?counter after (ud_next db1) (ud_counters db1),
               ud_next := (if ?counter = None then ud_next db1 + 1 else ud_next db1)\<rparr> else db1)"
    using w write_counter_effect [of db1 ?counter m "flt 5" "clk 1" after x db3] by (auto simp: find1 split: if_splits)
  let ?settled = "settled_row (event_columns po) decision ?before after ?lim (column_time (clk 2))"
  have fe: "db2 = db3\<lparr>ud_events := map (\<lambda>r. if r = event_columns po then ?settled else r) (ud_events db3)\<rparr>
      \<and> receipt_of (settled_row po decision ?before after ?lim (clk 2)) False = Inr rc"
    by (rule finalize_effect [OF _ _ _ fin]) (use ids in \<open>simp_all add: db1_def po_def new_event_row_def\<close>)
  have "map (\<lambda>r. if r = event_columns po then ?settled else r) (ud_events db)
      = ud_events db" using fresh by (intro map_idI) auto
  with fe db3 have "db2 = applied m clk db decision after"
    by (auto simp: applied_def Let_def db1_def po_def)
  with s fe lock show ?thesis unfolding po_def by blast
qed


text \<open>The three outcomes of Apply in a transaction of its own.\<close>

definition settles ::
    "usage_mutation \<Rightarrow> (nat \<Rightarrow> instant) \<Rightarrow> usage_db \<Rightarrow> usage_receipt \<Rightarrow> usage_db \<Rightarrow> bool" where
  "settles m clk db rc db' \<longleftrightarrow>
     (let counter = find_counter (um_target m) (um_metric m) (um_periodStart m) db;
          lim = effective_limit m (find_quota (um_target m) (um_metric m) db)
      in find_event (um_source m) (um_eventID m) db = None
       \<and> lock_owner None (um_target m) db = None
       \<and> (\<exists>sum1 decision after. add_safe_quantity (counter_value counter) (um_quantity m) = Some sum1
            \<and> decide m lim (counter_value counter) sum1 = (decision, after)
            \<and> db' = applied m clk db decision after
            \<and> receipt_of (settled_row (new_event_row (ud_next db) (clk 0) m) decision (counter_value counter) after
                lim (clk 2)) False = Inr rc))"

lemma apply_cases:
  assumes wf: "usage_wf db" and res: "apply_mutation flt clk False m db = (r, db')"
  obtains (failed) e where "r = Inl e" "db' = db"
  | (replayed) row rc where "r = Inr rc" "db' = db" "find_event (um_source m) (um_eventID m) db = Some row"
      "ue_fingerprint row = um_fingerprint m" "receipt_of row True = Inr rc" "validate_mutation m = None"
  | (settled) rc where "r = Inr rc" "validate_mutation m = None" "settles m clk db rc db'"
proof (cases r)
  case (Inl e)
  with res have "db' = db"
    by (auto simp: apply_mutation_def in_transaction_def split: option.splits sum.splits prod.splits)
  with Inl show ?thesis by (rule failed)
next
  case (Inr rc)
  with res have v: "validate_mutation m = None" and tx: "apply_in_tx flt clk m db = (Inr rc, db')"
    by (auto simp: apply_mutation_def in_transaction_def split: option.splits sum.splits prod.splits)
  show ?thesis
  proof (cases "find_event (um_source m) (um_eventID m) db")
    case (Some row)
    with tx have "receipt_of row True = Inr rc" "ue_fingerprint row = um_fingerprint m" "db' = db"
      by (auto simp: apply_in_tx_def reserve_receipt_def replay_receipt_def split: option.splits if_splits)
    with Inr Some v show ?thesis by (intro replayed)
  next
    case None
    with tx have "settle_event flt clk m (new_event_row (ud_next db) (clk 0) m)
        (db\<lparr>ud_events := ud_events db @ [event_columns (new_event_row (ud_next db) (clk 0) m)], ud_next := ud_next db + 1\<rparr>) = (Inr rc, db')"
      by (auto simp: apply_in_tx_def reserve_receipt_def Let_def split: option.splits)
    from settle_effect [OF wf this] None have "settles m clk db rc db'"
      unfolding settles_def Let_def by blast
    with Inr v show ?thesis by (intro settled)
  qed
qed

lemma validate_None:
  "validate_mutation m = None \<Longrightarrow> um_operation m \<in> {op_record, op_consume} \<and> valid_target (um_target m)
     \<and> um_quantity m \<noteq> 0 \<and> - max_safe \<le> um_quantity m \<and> um_quantity m \<le> max_safe
     \<and> um_periodStart m < um_periodEnd m \<and> (um_operation m = op_record \<or> 0 < um_quantity m)"
  by (auto simp: validate_mutation_def split: if_splits)

lemma find_quota_row: "find_quota t metric db = Some q \<Longrightarrow> q \<in> set (ud_quotas db) \<and> quota_key q = (t, metric)"
  by (auto simp: find_quota_def dest: find_key_Some)

lemma find_counter_row:
  "find_counter t metric start db = Some c \<Longrightarrow> c \<in> set (ud_counters db) \<and> counter_key c = (t, metric, start)"
  by (auto simp: find_counter_def dest: find_key_Some)

lemma effective_limit_ok:
  assumes "usage_wf db" "limit_ok (um_defaultLimit m)"
  shows "limit_ok (effective_limit m (find_quota t metric db))"
  using assms find_quota_row [of t metric db]
  by (auto simp: effective_limit_def usage_wf_defs quota_row_ok_def split: option.splits)

lemma counter_value_ok:
  "usage_wf db \<Longrightarrow> in_safe_range (counter_value (find_counter t metric start db))"
  using find_counter_row [of t metric start db]
  by (auto simp: counter_value_def usage_wf_defs counter_row_ok_def split: option.splits)
    (simp add: in_safe_range_def max_safe_def)

lemma decide_ok:
  assumes "decide m lim before sum1 = (decision, after)"
  shows "decision = decision_accepted \<and> after = sum1 \<or> decision = decision_denied \<and> after = before"
  using assms by (auto simp: decide_def split: if_splits)

lemma applied_counters_wf:
  assumes "counter = find_counter (um_target m) (um_metric m) (um_periodStart m) db" "counters_wf db"
    and "um_periodStart m < um_periodEnd m" "valid_target (um_target m)" "in_safe_range after" "ud_next db \<le> i"
    and "i + (if counter = None then 1 else 0) \<le> k"
  shows "counters_wf (db\<lparr>ud_counters := applied_counters now m counter after i (ud_counters db), ud_next := k\<rparr>)"
proof -
  have wf: "\<forall>r \<in> set (ud_counters db). counter_row_ok r \<and> uc_id r < ud_next db"
    "distinct (map uc_id (ud_counters db))" "distinct (map counter_key (ud_counters db))"
    using assms(2) by (simp_all add: counters_wf_def)
  show ?thesis
  proof (cases counter)
    case None
    let ?r = "new_counter_row i now m after"
    have "\<forall>r \<in> set (ud_counters db). counter_key r \<noteq> counter_key ?r"
      using assms(1) [symmetric] None by (auto simp: find_counter_def find_key_None new_counter_row_def)
    moreover have "counter_row_ok ?r" "uc_id ?r = i"
      using assms(3-5) by (simp_all add: new_counter_row_def counter_row_ok_def valid_target_def)
    ultimately show ?thesis
      using None wf assms(6,7) by (fastforce simp: applied_counters_def counters_wf_def)
  next
    case (Some c)
    let ?c = "c\<lparr>uc_value := after, uc_version := uc_version c + 1, uc_updatedAt := now\<rparr>"
    have keys: "map f (applied_counters now m counter after i (ud_counters db)) = map f (ud_counters db)"
      if "f ?c = f c" for f :: "usage_counter_row \<Rightarrow> 'k"
      using that by (auto simp: applied_counters_def Some)
    have "c \<in> set (ud_counters db)" using Some assms(1) by (auto simp: find_counter_def dest: find_key_Some)
    with wf assms(5) have "counter_row_ok ?c \<and> uc_id ?c < ud_next db" by (auto simp: counter_row_ok_def)
    with wf assms(6,7) Some have "\<forall>r \<in> set (applied_counters now m counter after i (ud_counters db)). counter_row_ok r \<and> uc_id r < k"
      by (fastforce simp: applied_counters_def)
    with keys [of uc_id] keys [of counter_key] wf(2,3) show ?thesis by (simp add: counters_wf_def)
  qed
qed

lemma settles_wf:
  assumes wf: "usage_wf db" and "service_mutation m" "validate_mutation m = None" "settles m clk db rc db'"
  shows "usage_wf db'"
proof -
  let ?counter = "find_counter (um_target m) (um_metric m) (um_periodStart m) db"
  let ?lim = "effective_limit m (find_quota (um_target m) (um_metric m) db)"
  from assms(4) obtain sum1 decision after where s: "add_safe_quantity (counter_value ?counter) (um_quantity m) = Some sum1"
      "decide m ?lim (counter_value ?counter) sum1 = (decision, after)" "db' = applied m clk db decision after"
      "find_event (um_source m) (um_eventID m) db = None"
    by (auto simp: settles_def Let_def)
  note v = validate_None [OF assms(3)]
  let ?row = "settled_row (event_columns (new_event_row (ud_next db) (clk 0) m)) decision (counter_value ?counter) after ?lim
    (column_time (clk 2))"
  have range: "in_safe_range (counter_value ?counter)" "in_safe_range sum1"
    using s(1) unfolding add_safe_Some by blast+
  then have after: "in_safe_range after" using decide_ok [OF s(2)] by auto
  have "limit_ok ?lim" using effective_limit_ok wf assms(2) by (simp add: service_mutation_def)
  then have "event_row_ok ?row \<and> ue_decision ?row \<noteq> decision_pending \<and> 0 < ut_subject (ue_target ?row)"
    using v assms(2) decide_ok [OF s(2)] range after
    by (auto simp: event_row_ok_def settled_row_def event_columns_def new_event_row_def service_mutation_def valid_target_def)
  moreover have "\<forall>r \<in> set (ud_events db). event_key r \<noteq> (um_source m, um_eventID m)"
    using s(4) by (auto simp: find_event_def find_key_None)
  moreover have "ue_id ?row = ud_next db" "event_key ?row = (um_source m, um_eventID m)"
    by (simp_all add: settled_row_def event_columns_def new_event_row_def)
  ultimately have ev: "events_wf (db\<lparr>ud_events := ud_events db @ [?row], ud_next := k\<rparr>)" if "ud_next db < k" for k
    using wf that by (fastforce simp: usage_wf_def events_wf_def)
  show ?thesis
  proof (cases "decision = decision_accepted")
    case True
    have "counters_wf db" using wf by (simp add: usage_wf_def)
    from applied_counters_wf [OF refl this _ _ after, of m "ud_next db + 1" "ud_next db + (if ?counter = None then 2 else 1)" "clk 1"] v
    have "counters_wf db'" using True by (simp add: s(3) applied_def counters_wf_def Let_def)
    moreover have "events_wf db'"
      using ev [of "ud_next db + 1"] ev [of "ud_next db + 2"] True
      by (auto simp: s(3) applied_def Let_def events_wf_def)
    moreover have "quotas_wf db'" using wf True by (auto simp: s(3) applied_def Let_def usage_wf_defs less_SucI)
    ultimately show ?thesis by (simp add: usage_wf_def)
  next
    case False
    with ev [of "ud_next db + 1"] wf show ?thesis
      by (auto simp: s(3) applied_def Let_def usage_wf_defs less_SucI)
  qed
qed


subsection \<open>Quota writes\<close>

text \<open>A quota write in a transaction of its own: an error changes nothing; without a row the version must
  be zero; with one it must be the row's, and a change raises it by one.\<close>

definition updated_quota :: "usage_quota_row \<Rightarrow> int option \<Rightarrow> instant \<Rightarrow> usage_quota_row" where
  "updated_quota po lim now =
     po\<lparr>uq_limit := lim, uq_overridden := (lim \<noteq> None), uq_version := uq_version po + 1, uq_updatedAt := now\<rparr>"

lemma update_quota_effect:
  assumes "quotas_wf db" "po \<in> set (ud_quotas db)" "update_quota flt now po lim db = (Inr (q, changed), db')"
  shows "db' = db\<lparr>ud_quotas := map (\<lambda>r. if r = po then updated_quota po lim now else r) (ud_quotas db)\<rparr>
    \<and> q = Some (quota_record (updated_quota po lim now)) \<and> changed"
proof -
  have "distinct (map uq_id (ud_quotas db))" using assms(1) by (simp add: quotas_wf_def)
  note hit = hit_only [OF this assms(2), of "quota_hit po"]
  have A: "length (filter (quota_hit po) (ud_quotas db)) = 1" by (rule hit) (auto simp: quota_hit_def)
  have B: "map (\<lambda>r. if quota_hit po r then r\<lparr>uq_limit := lim, uq_overridden := lim \<noteq> None,
        uq_version := uq_version po + 1, uq_updatedAt := now\<rparr> else r) (ud_quotas db)
      = map (\<lambda>r. if r = po then updated_quota po lim now else r) (ud_quotas db)"
    unfolding updated_quota_def by (subst hit(2)) (auto simp: quota_hit_def)
  have flt: "flt = None" using assms(3) by (cases flt) (auto simp: update_quota_def)
  show ?thesis using assms(3) unfolding update_quota_def flt option.case Let_def A B
    by (auto simp: updated_quota_def)
qed

lemma update_quota_wf:
  assumes "usage_wf db" "po \<in> set (ud_quotas db)" "limit_ok lim"
  shows "usage_wf (db\<lparr>ud_quotas := map (\<lambda>r. if r = po then updated_quota po lim now else r) (ud_quotas db)\<rparr>)"
proof -
  obtain qs where qs: "qs = map (\<lambda>r. if r = po then updated_quota po lim now else r) (ud_quotas db)" by simp
  have "map uq_id qs = map uq_id (ud_quotas db)" "map quota_key qs = map quota_key (ud_quotas db)"
    by (auto simp: qs updated_quota_def)
  moreover have "quota_row_ok (updated_quota po lim now) \<and> uq_id (updated_quota po lim now) < ud_next db"
    using assms by (auto simp: usage_wf_defs quota_row_ok_def updated_quota_def)
  then have "\<forall>r \<in> set qs. quota_row_ok r \<and> uq_id r < ud_next db"
    using assms(1) by (auto simp: qs usage_wf_defs)
  ultimately show ?thesis using assms(1) unfolding qs [symmetric] by (simp add: usage_wf_defs)
qed

definition quota_written ::
    "instant \<Rightarrow> usage_target \<Rightarrow> string \<Rightarrow> int option \<Rightarrow> nat \<Rightarrow> usage_db \<Rightarrow> usage_quota_record option \<Rightarrow> bool
     \<Rightarrow> usage_db \<Rightarrow> bool" where
  "quota_written now t metric lim expected db q changed db' \<longleftrightarrow>
     (case find_quota t metric db of
        None \<Rightarrow> expected = 0 \<and>
          (case lim of
             None \<Rightarrow> q = None \<and> \<not> changed \<and> db' = db
           | Some l \<Rightarrow> changed \<and> q = Some (quota_record (new_quota_row (ud_next db) now t metric l))
               \<and> db' = db\<lparr>ud_quotas := ud_quotas db @ [new_quota_row (ud_next db) now t metric l],
                         ud_next := ud_next db + 1\<rparr>)
      | Some po \<Rightarrow> expected = uq_version po \<and>
          (if uq_limit po = lim then q = Some (quota_record po) \<and> \<not> changed \<and> db' = db
           else changed \<and> q = Some (quota_record (updated_quota po lim now))
               \<and> db' = db\<lparr>ud_quotas := map (\<lambda>r. if r = po then updated_quota po lim now else r) (ud_quotas db)\<rparr>))"

lemma set_quota_cases:
  assumes wf: "usage_wf db" and res: "set_quota flt clk False t metric lim expected db = (r, db')"
  shows "(\<exists>e. r = Inl e \<and> db' = db)
    \<or> (\<exists>q changed. r = Inr (q, changed) \<and> valid_target t \<and> in_safe_range lim
         \<and> quota_written (clk 0) t metric (Some lim) expected db q changed db')"
proof (cases r)
  case (Inl e)
  with res show ?thesis
    by (auto simp: set_quota_def in_transaction_def split: if_splits sum.splits prod.splits)
next
  case (Inr p)
  obtain q changed where p: "p = (q, changed)" by (cases p)
  from Inr res p have tx: "set_quota_in_tx flt clk t metric lim expected db = (Inr (q, changed), db')"
    and v: "valid_target t" "in_safe_range lim"
    by (auto simp: set_quota_def in_transaction_def in_safe_range_def split: if_splits sum.splits prod.splits)
  have qw: "quotas_wf db" using wf by (simp add: usage_wf_def)
  have "quota_written (clk 0) t metric (Some lim) expected db q changed db'"
  proof (cases "find_quota t metric db")
    case None
    with tx show ?thesis
      by (auto simp: set_quota_in_tx_def quota_written_def Let_def split: option.splits if_splits)
  next
    case (Some po)
    then have po: "po \<in> set (ud_quotas db)" using find_quota_row by blast
    then have ok: "uq_overridden po \<longleftrightarrow> uq_limit po \<noteq> None" using qw by (auto simp: quotas_wf_def quota_row_ok_def)
    show ?thesis
    proof (cases "uq_limit po = Some lim")
      case True
      with tx Some ok show ?thesis
        by (auto simp: set_quota_in_tx_def quota_written_def split: option.splits if_splits)
    next
      case False
      with tx Some have "uq_version po = expected" "update_quota (flt 2) (clk 0) po (Some lim) db = (Inr (q, changed), db')"
        by (auto simp: set_quota_in_tx_def split: option.splits if_splits)
      with update_quota_effect [OF qw po this(2)] False Some show ?thesis
        by (auto simp: quota_written_def)
    qed
  qed
  with Inr p v show ?thesis by blast
qed

lemma reset_quota_cases:
  assumes wf: "usage_wf db" and res: "reset_quota flt clk False t metric expected db = (r, db')"
  shows "(\<exists>e. r = Inl e \<and> db' = db)
    \<or> (\<exists>q changed. r = Inr (q, changed) \<and> valid_target t \<and> quota_written (clk 0) t metric None expected db q changed db')"
proof (cases r)
  case (Inl e)
  with res show ?thesis
    by (auto simp: reset_quota_def in_transaction_def split: if_splits sum.splits prod.splits)
next
  case (Inr p)
  obtain q changed where p: "p = (q, changed)" by (cases p)
  from Inr res p have tx: "reset_quota_in_tx flt clk t metric expected db = (Inr (q, changed), db')"
    and v: "valid_target t"
    by (auto simp: reset_quota_def in_transaction_def split: if_splits sum.splits prod.splits)
  have qw: "quotas_wf db" using wf by (simp add: usage_wf_def)
  have "quota_written (clk 0) t metric None expected db q changed db'"
  proof (cases "find_quota t metric db")
    case None
    with tx show ?thesis
      by (auto simp: reset_quota_in_tx_def quota_written_def split: option.splits if_splits)
  next
    case (Some po)
    then have po: "po \<in> set (ud_quotas db)" using find_quota_row by blast
    then have ok: "uq_overridden po \<longleftrightarrow> uq_limit po \<noteq> None" using qw by (auto simp: quotas_wf_def quota_row_ok_def)
    show ?thesis
    proof (cases "uq_limit po = None")
      case True
      with tx Some ok show ?thesis
        by (auto simp: reset_quota_in_tx_def quota_written_def split: option.splits if_splits)
    next
      case False
      with tx Some ok have "uq_version po = expected" "update_quota (flt 2) (clk 0) po None db = (Inr (q, changed), db')"
        by (auto simp: reset_quota_in_tx_def split: option.splits if_splits)
      with update_quota_effect [OF qw po this(2)] False Some show ?thesis
        by (auto simp: quota_written_def)
    qed
  qed
  with Inr p v show ?thesis by blast
qed

lemma quota_written_wf:
  assumes "usage_wf db" "valid_target t" "limit_ok lim" "quota_written now t metric lim expected db q changed db'"
  shows "usage_wf db' \<and> ud_events db' = ud_events db \<and> ud_counters db' = ud_counters db"
proof (cases "find_quota t metric db")
  case None
  show ?thesis
  proof (cases lim)
    case (Some l)
    with assms(4) None have db': "db' = db\<lparr>ud_quotas := ud_quotas db @ [new_quota_row (ud_next db) now t metric l],
        ud_next := ud_next db + 1\<rparr>" by (auto simp: quota_written_def)
    have "\<forall>r \<in> set (ud_quotas db). quota_key r \<noteq> (t, metric)"
      using None by (auto simp: find_quota_def find_key_None)
    moreover have "quota_row_ok (new_quota_row (ud_next db) now t metric l)"
      using assms(2,3) Some by (auto simp: new_quota_row_def quota_row_ok_def valid_target_def)
    ultimately have "quotas_wf db'"
      using assms(1) by (fastforce simp: db' usage_wf_def quotas_wf_def new_quota_row_def)
    then show ?thesis using assms(1) by (auto simp: db' usage_wf_defs less_SucI)
  qed (use assms None in \<open>auto simp: quota_written_def\<close>)
next
  case (Some po)
  then have "po \<in> set (ud_quotas db)" using find_quota_row by blast
  with update_quota_wf [OF assms(1) this assms(3)] assms Some show ?thesis
    by (auto simp: quota_written_def split: if_splits)
qed


subsection \<open>The ledger\<close>

text \<open>The log lists the receipts of accepted events in the order they were answered.\<close>

definition logged :: "usage_error + usage_receipt \<Rightarrow> usage_receipt list" where
  "logged r = (case r of Inl _ \<Rightarrow> []
     | Inr rc \<Rightarrow> if \<not> rc_replayed rc \<and> rc_decision rc = decision_accepted then [rc] else [])"

definition ledger :: "usage_receipt list \<Rightarrow> usage_target \<Rightarrow> string \<Rightarrow> instant \<Rightarrow> int" where
  "ledger log t metric start =
     (\<Sum>rc\<leftarrow>filter (\<lambda>rc. rc_target rc = t \<and> rc_metric rc = metric \<and> rc_periodStart rc = start) log. rc_quantity rc)"

definition usage_inv :: "usage_db \<Rightarrow> usage_receipt list \<Rightarrow> bool" where
  "usage_inv db log \<longleftrightarrow> usage_wf db
     \<and> (\<forall>t metric start. counter_value (find_counter t metric start db) = ledger log t metric start)"

lemma ledger_append [simp]: "ledger (xs @ ys) t metric start = ledger xs t metric start + ledger ys t metric start"
  by (simp add: ledger_def)

lemma ledger_Nil [simp]: "ledger [] t metric start = 0"
  by (simp add: ledger_def)

lemma usage_inv_wf: "usage_inv db log \<Longrightarrow> usage_wf db"
  by (simp add: usage_inv_def)

lemma usage_inv_same_counters:
  "usage_inv db log \<Longrightarrow> usage_wf db' \<Longrightarrow> ud_counters db' = ud_counters db \<Longrightarrow> usage_inv db' log"
  by (simp add: usage_inv_def find_counter_def)

lemma find_applied_counter:
  assumes "counters_wf db" "counter = find_counter (um_target m) (um_metric m) (um_periodStart m) db"
    and "ud_counters db' = applied_counters now m counter after i (ud_counters db)"
  shows "counter_value (find_counter t metric start db') =
    (if t = um_target m \<and> metric = um_metric m \<and> start = um_periodStart m then after
     else counter_value (find_counter t metric start db))"
proof (cases counter)
  case None
  have "find P (xs @ [x]) = (case find P xs of None \<Rightarrow> if P x then Some x else None | Some y \<Rightarrow> Some y)"
    for P and xs :: "usage_counter_row list" and x
    by (induction xs) auto
  with None assms(2,3) show ?thesis
    by (auto simp: find_counter_def applied_counters_def new_counter_row_def counter_value_def split: option.splits)
next
  case (Some c)
  let ?c = "c\<lparr>uc_value := after, uc_version := uc_version c + 1, uc_updatedAt := now\<rparr>"
  have c: "c \<in> set (ud_counters db)" "counter_key c = (um_target m, um_metric m, um_periodStart m)"
    using Some assms(2) find_counter_row [of "um_target m" "um_metric m" "um_periodStart m" db c] by simp_all
  have "find P (map (\<lambda>r. if r = c then ?c else r) xs)
      = map_option (\<lambda>r. if r = c then ?c else r) (find P xs)" if "P ?c = P c" for P xs
    using that by (induction xs) auto
  from this [of "\<lambda>r. uc_target r = t \<and> uc_metric r = metric \<and> uc_periodStart r = start" "ud_counters db"]
  have f: "find_counter t metric start db' = map_option (\<lambda>r. if r = c then ?c else r) (find_counter t metric start db)"
    by (simp add: find_counter_def assms(3) applied_counters_def Some)
  show ?thesis
  proof (cases "t = um_target m \<and> metric = um_metric m \<and> start = um_periodStart m")
    case True
    with f Some assms(2) [symmetric] show ?thesis by (simp add: counter_value_def)
  next
    case False
    then have "find_counter t metric start db \<noteq> Some c" using find_counter_row c(2) by blast
    with f False show ?thesis by (cases "find_counter t metric start db") (auto simp: counter_value_def)
  qed
qed

lemma receipt_of_fields:
  "receipt_of r b = Inr rc \<Longrightarrow> rc_source rc = ue_source r \<and> rc_eventID rc = ue_eventID r \<and> rc_target rc = ue_target r
     \<and> rc_metric rc = ue_metric r \<and> rc_quantity rc = ue_quantity r \<and> rc_occurredAt rc = ue_occurredAt r
     \<and> rc_periodStart rc = ue_periodStart r \<and> rc_periodEnd rc = ue_periodEnd r \<and> rc_decision rc = ue_decision r
     \<and> rc_before rc = ue_before r \<and> rc_after rc = ue_after r \<and> rc_limit rc = ue_limit r \<and> rc_replayed rc = b"
  by (auto simp: receipt_of_def split: if_splits)

lemma settled_fields [simp]:
  "ue_id (settled_row r dec bf af l u) = ue_id r"
  "ue_source (settled_row r dec bf af l u) = ue_source r"
  "ue_eventID (settled_row r dec bf af l u) = ue_eventID r"
  "ue_fingerprint (settled_row r dec bf af l u) = ue_fingerprint r"
  "ue_target (settled_row r dec bf af l u) = ue_target r"
  "ue_metric (settled_row r dec bf af l u) = ue_metric r"
  "ue_quantity (settled_row r dec bf af l u) = ue_quantity r"
  "ue_occurredAt (settled_row r dec bf af l u) = ue_occurredAt r"
  "ue_periodStart (settled_row r dec bf af l u) = ue_periodStart r"
  "ue_periodEnd (settled_row r dec bf af l u) = ue_periodEnd r"
  "ue_createdAt (settled_row r dec bf af l u) = ue_createdAt r"
  "ue_decision (settled_row r dec bf af l u) = dec"
  "ue_before (settled_row r dec bf af l u) = bf"
  "ue_after (settled_row r dec bf af l u) = af"
  "ue_limit (settled_row r dec bf af l u) = l"
  by (simp_all add: settled_row_def)

lemma event_columns_fields [simp]:
  "ue_id (event_columns r) = ue_id r"
  "ue_source (event_columns r) = ue_source r"
  "ue_eventID (event_columns r) = ue_eventID r"
  "ue_fingerprint (event_columns r) = ue_fingerprint r"
  "ue_target (event_columns r) = ue_target r"
  "ue_metric (event_columns r) = ue_metric r"
  "ue_quantity (event_columns r) = ue_quantity r"
  "ue_occurredAt (event_columns r) = column_time (ue_occurredAt r)"
  "ue_periodStart (event_columns r) = ue_periodStart r"
  "ue_periodEnd (event_columns r) = ue_periodEnd r"
  "ue_createdAt (event_columns r) = column_time (ue_createdAt r)"
  by (simp_all add: event_columns_def)

lemma new_event_fields [simp]:
  "ue_id (new_event_row i t m) = i"
  "ue_source (new_event_row i t m) = um_source m"
  "ue_eventID (new_event_row i t m) = um_eventID m"
  "ue_fingerprint (new_event_row i t m) = um_fingerprint m"
  "ue_target (new_event_row i t m) = um_target m"
  "ue_metric (new_event_row i t m) = um_metric m"
  "ue_quantity (new_event_row i t m) = um_quantity m"
  "ue_occurredAt (new_event_row i t m) = um_occurredAt m"
  "ue_periodStart (new_event_row i t m) = um_periodStart m"
  "ue_periodEnd (new_event_row i t m) = um_periodEnd m"
  "ue_createdAt (new_event_row i t m) = t"
  by (simp_all add: new_event_row_def)

text \<open>What a settled event's receipt says.\<close>

lemma settles_receipt:
  assumes "settles m clk db rc db'"
  shows "rc_source rc = um_source m \<and> rc_eventID rc = um_eventID m \<and> rc_target rc = um_target m
    \<and> rc_metric rc = um_metric m \<and> rc_quantity rc = um_quantity m \<and> rc_occurredAt rc = um_occurredAt m
    \<and> rc_periodStart rc = um_periodStart m \<and> rc_periodEnd rc = um_periodEnd m \<and> \<not> rc_replayed rc
    \<and> rc_limit rc = effective_limit m (find_quota (um_target m) (um_metric m) db)
    \<and> rc_before rc = counter_value (find_counter (um_target m) (um_metric m) (um_periodStart m) db)
    \<and> (if um_operation m = op_consume \<and> (\<exists>l. rc_limit rc = Some l \<and> l < rc_before rc + rc_quantity rc)
       then rc_decision rc = decision_denied \<and> rc_after rc = rc_before rc
       else rc_decision rc = decision_accepted \<and> rc_after rc = rc_before rc + rc_quantity rc)"
proof -
  from assms obtain sum1 decision after where s:
    "add_safe_quantity (counter_value (find_counter (um_target m) (um_metric m) (um_periodStart m) db)) (um_quantity m) = Some sum1"
    "decide m (effective_limit m (find_quota (um_target m) (um_metric m) db))
      (counter_value (find_counter (um_target m) (um_metric m) (um_periodStart m) db)) sum1 = (decision, after)"
    "receipt_of (settled_row (new_event_row (ud_next db) (clk 0) m) decision
      (counter_value (find_counter (um_target m) (um_metric m) (um_periodStart m) db)) after
      (effective_limit m (find_quota (um_target m) (um_metric m) db)) (clk 2)) False = Inr rc"
    by (auto simp: settles_def Let_def)
  from s(1) have sum: "sum1 = counter_value (find_counter (um_target m) (um_metric m) (um_periodStart m) db) + um_quantity m"
    unfolding add_safe_Some by blast
  from receipt_of_fields [OF s(3)] s(2) show ?thesis
    unfolding sum by (auto simp: decide_def split: if_splits option.splits)
qed

lemma apply_inv:
  assumes "usage_inv db log" "service_mutation m" "apply_mutation flt clk False m db = (r, db')"
  shows "usage_inv db' (log @ logged r)"
proof -
  note wf = usage_inv_wf [OF assms(1)]
  from wf assms(3) show ?thesis
  proof (cases rule: apply_cases)
    case failed
    with assms(1) show ?thesis by (simp add: logged_def)
  next
    case (replayed row rc)
    with assms(1) receipt_of_fields [OF replayed(5)] show ?thesis by (simp add: logged_def)
  next
    case (settled rc)
    let ?counter = "find_counter (um_target m) (um_metric m) (um_periodStart m) db"
    note wf' = settles_wf [OF wf assms(2) settled(2,3)] and f = settles_receipt [OF settled(3)]
    from settled(3) obtain sum1 decision after where s: "db' = applied m clk db decision after"
      "receipt_of (settled_row (new_event_row (ud_next db) (clk 0) m) decision (counter_value ?counter) after
        (effective_limit m (find_quota (um_target m) (um_metric m) db)) (clk 2)) False = Inr rc"
      by (auto simp: settles_def Let_def)
    then have d: "rc_decision rc = decision" "rc_after rc = after" using receipt_of_fields [OF s(2)] by simp_all
    show ?thesis
    proof (cases "decision = decision_accepted")
      case True
      then have "ud_counters db' = applied_counters (clk 1) m ?counter after (ud_next db + 1) (ud_counters db)"
        by (simp add: s(1) applied_def Let_def)
      note v = find_applied_counter [OF _ refl this]
      have "after = counter_value ?counter + um_quantity m"
        using f True d by (auto split: if_splits)
      moreover have "logged r = [rc]" using f True d settled(1) by (simp add: logged_def)
      ultimately show ?thesis
        using assms(1) wf' wf v f by (auto simp: usage_inv_def ledger_def usage_wf_def)
    next
      case False
      then have "logged r = []" "ud_counters db' = ud_counters db"
        using d settled(1) by (simp_all add: logged_def s(1) applied_def Let_def)
      with usage_inv_same_counters [OF assms(1) wf'] show ?thesis by simp
    qed
  qed
qed

lemma set_quota_inv:
  assumes "usage_inv db log" "set_quota flt clk False t metric lim expected db = (r, db')"
  shows "usage_inv db' log \<and> ud_events db' = ud_events db"
proof -
  note wf = usage_inv_wf [OF assms(1)]
  from set_quota_cases [OF wf assms(2)] consider "db' = db"
    | q changed where "valid_target t" "in_safe_range lim" "quota_written (clk 0) t metric (Some lim) expected db q changed db'"
    by blast
  then show ?thesis
  proof cases
    case 2
    have "limit_ok (Some lim)" using 2(2) by (simp add: limit_ok_def)
    from quota_written_wf [OF wf 2(1) this 2(3)] usage_inv_same_counters [OF assms(1)] show ?thesis by blast
  qed (use assms(1) in simp)
qed

lemma reset_quota_inv:
  assumes "usage_inv db log" "reset_quota flt clk False t metric expected db = (r, db')"
  shows "usage_inv db' log \<and> ud_events db' = ud_events db"
proof -
  note wf = usage_inv_wf [OF assms(1)]
  from reset_quota_cases [OF wf assms(2)] consider "db' = db"
    | q changed where "valid_target t" "quota_written (clk 0) t metric None expected db q changed db'"
    by blast
  then show ?thesis
  proof cases
    case 2
    have "limit_ok None" by (simp add: limit_ok_def)
    from quota_written_wf [OF wf 2(1) this 2(2)] usage_inv_same_counters [OF assms(1)] show ?thesis by blast
  qed (use assms(1) in simp)
qed

lemma prune_inv:
  assumes "usage_inv db log" "prune_receipts flt before db = (r, db')"
  shows "usage_inv db' log"
proof -
  have "usage_wf db'" using usage_inv_wf [OF assms(1)] assms(2)
    by (auto simp: prune_receipts_def usage_wf_defs distinct_map_filter split: if_splits option.splits)
  moreover have "ud_counters db' = ud_counters db"
    using assms(2) by (auto simp: prune_receipts_def split: if_splits option.splits)
  ultimately show ?thesis using usage_inv_same_counters assms(1) by blast
qed

definition of_user :: "nat \<Rightarrow> usage_target \<Rightarrow> bool" where
  "of_user u t \<longleftrightarrow> ut_scope t = scope_user \<and> ut_subject t = u"

lemma owned_of_user: "subject_ok t w \<Longrightarrow> owned_by_user u t w \<longleftrightarrow> of_user u t"
  by (auto simp: subject_ok_def owned_by_user_def of_user_def)

lemma delete_effect:
  assumes "delete_for_user flt False u db = (r, db')"
  shows "case r of
      Inl _ \<Rightarrow> db' = db
    | Inr _ \<Rightarrow> db' = db\<lparr>ud_events := filter (\<lambda>r. \<not> owned_by_user u (ue_target r) (ue_owner r)) (ud_events db),
        ud_counters := filter (\<lambda>r. \<not> owned_by_user u (uc_target r) (uc_owner r)) (ud_counters db),
        ud_quotas := filter (\<lambda>r. \<not> owned_by_user u (uq_target r) (uq_owner r)) (ud_quotas db)\<rparr>"
  using assms by (auto simp: delete_for_user_def in_transaction_def delete_for_user_in_tx_def Let_def
      split: if_splits option.splits sum.splits prod.splits)

lemma find_filter_key:
  "(\<And>r. r \<in> set xs \<Longrightarrow> P r \<Longrightarrow> Q r) \<Longrightarrow> find P (filter Q xs) = find P xs"
  "(\<And>r. r \<in> set xs \<Longrightarrow> P r \<Longrightarrow> \<not> Q r) \<Longrightarrow> find P (filter Q xs) = None"
  by (induction xs) auto

text \<open>Forgetting all rows of some targets, which is what an account deletion and the foreign keys'
  cascade do.\<close>

definition forget :: "(usage_target \<Rightarrow> bool) \<Rightarrow> usage_db \<Rightarrow> usage_db" where
  "forget P db = db\<lparr>ud_events := filter (\<lambda>r. \<not> P (ue_target r)) (ud_events db),
     ud_counters := filter (\<lambda>r. \<not> P (uc_target r)) (ud_counters db),
     ud_quotas := filter (\<lambda>r. \<not> P (uq_target r)) (ud_quotas db)\<rparr>"

lemma forget_inv:
  assumes inv: "usage_inv db log"
  shows "usage_inv (forget P db) (filter (\<lambda>rc. \<not> P (rc_target rc)) log)"
proof -
  have wf: "usage_wf (forget P db)" using usage_inv_wf [OF inv]
    by (auto simp: forget_def usage_wf_defs distinct_map_filter)
  have "counter_value (find_counter t metric start (forget P db)) = ledger (filter (\<lambda>rc. \<not> P (rc_target rc)) log) t metric start"
    for t metric start
  proof (cases "P t")
    case True
    have "find_counter t metric start (forget P db) = None"
      unfolding find_counter_def forget_def by (simp, rule find_filter_key) (use True in auto)
    moreover have "filter (\<lambda>rc. rc_target rc = t \<and> rc_metric rc = metric \<and> rc_periodStart rc = start)
        (filter (\<lambda>rc. \<not> P (rc_target rc)) log) = []" using True by (auto simp: filter_empty_conv)
    ultimately show ?thesis by (simp add: counter_value_def ledger_def del: filter_filter)
  next
    case False
    have "find_counter t metric start (forget P db) = find_counter t metric start db"
      unfolding find_counter_def forget_def by (simp, rule find_filter_key) (use False in auto)
    moreover have "filter (\<lambda>rc. rc_target rc = t \<and> rc_metric rc = metric \<and> rc_periodStart rc = start)
        (filter (\<lambda>rc. \<not> P (rc_target rc)) log)
        = filter (\<lambda>rc. rc_target rc = t \<and> rc_metric rc = metric \<and> rc_periodStart rc = start) log"
      using False by (auto intro: filter_cong)
    ultimately show ?thesis using inv by (simp add: usage_inv_def ledger_def del: filter_filter)
  qed
  with wf show ?thesis by (simp add: usage_inv_def)
qed

lemma delete_forgets:
  assumes "usage_wf db" and del: "delete_for_user flt False u db = (r, db')"
  shows "db' = (case r of Inl _ \<Rightarrow> db | Inr _ \<Rightarrow> forget (of_user u) db)"
proof (cases r)
  case (Inr x)
  have "\<forall>r \<in> set (ud_events db). subject_ok (ue_target r) (ue_owner r)"
    "\<forall>r \<in> set (ud_counters db). subject_ok (uc_target r) (uc_owner r)"
    "\<forall>r \<in> set (ud_quotas db). subject_ok (uq_target r) (uq_owner r)"
    using assms(1) by (auto simp: usage_wf_defs event_row_ok_def counter_row_ok_def quota_row_ok_def)
  then have "forget (of_user u) db = db\<lparr>ud_events := filter (\<lambda>r. \<not> owned_by_user u (ue_target r) (ue_owner r)) (ud_events db),
        ud_counters := filter (\<lambda>r. \<not> owned_by_user u (uc_target r) (uc_owner r)) (ud_counters db),
        ud_quotas := filter (\<lambda>r. \<not> owned_by_user u (uq_target r) (uq_owner r)) (ud_quotas db)\<rparr>"
    by (simp add: forget_def owned_of_user cong: filter_cong)
  with delete_effect [OF del] Inr show ?thesis by simp
qed (use delete_effect [OF del] in auto)

end
