(* ===== verification/Usage_Service.thy ===== *)
theory Usage_Service
  imports Usage_Store_Inv
begin

text \<open>
  The metric catalog and the service of the usage meter: \<open>api/internal/modules/usage/catalog.go\<close> and
  \<open>service.go\<close>.

  Parameters of the model are two functions of the standard library: \<open>json\<close>, the JSON text of a
  dimension map, and \<open>digest\<close>, the hexadecimal SHA-256 of the JSON of the fingerprint record. \<open>now\<close> is
  what the service's clock shows. A Go map of dimensions is the list of its entries.
\<close>

subsection \<open>The catalog\<close>

record dimension_definition =
  dd_key :: string
  dd_values :: "string list"

record usage_definition =
  df_scope :: string
  df_key :: string
  df_unit :: string
  df_period :: string
  df_defaultLimit :: "int option"
  df_dimensions :: "dimension_definition list"

record usage_catalog =
  ct_ordered :: "usage_definition list"
  ct_byScope :: "string \<Rightarrow> string \<Rightarrow> usage_definition option"

text \<open>The key pattern of a metric has at least two words.\<close>

definition metric_key_pattern :: "string \<Rightarrow> bool" where
  "metric_key_pattern s \<longleftrightarrow> 2 \<le> length (split_on CHR ''.'' s) \<and> list_all snake_word (split_on CHR ''.'' s)"

definition contains_control :: "string \<Rightarrow> bool" where
  "contains_control s = list_ex (\<lambda>c. of_char c < (32 :: nat) \<or> of_char c = (127 :: nat)) s"

fun check_values :: "string list \<Rightarrow> string list \<Rightarrow> string option" where
  "check_values seen [] = None"
| "check_values seen (v # vs) =
     (if v = '''' \<or> length v > 64 \<or> trim_space v \<noteq> v \<or> contains_control v then Some ''invalid value''
      else if v \<in> set seen then Some ''duplicate value''
      else check_values (v # seen) vs)"

fun check_dimensions :: "string list \<Rightarrow> dimension_definition list \<Rightarrow> string option" where
  "check_dimensions seen [] = None"
| "check_dimensions seen (d # ds) =
     (if length (dd_key d) = 0 \<or> length (dd_key d) > 64 \<or> \<not> snake_word (dd_key d) then Some ''invalid dimension key''
      else if dd_key d \<in> set seen then Some ''duplicate dimension''
      else if dd_values d = [] \<or> length (dd_values d) > 32 then Some ''invalid values''
      else case check_values [] (dd_values d) of
        Some e \<Rightarrow> Some e
      | None \<Rightarrow> check_dimensions (dd_key d # seen) ds)"

definition validate_definition :: "usage_definition \<Rightarrow> string + usage_definition" where
  "validate_definition c =
     (if \<not> valid_scope (df_scope c) then Inl ''invalid scope''
      else if length (df_key c) = 0 \<or> length (df_key c) > 96 \<or> \<not> metric_key_pattern (df_key c) then Inl ''invalid key''
      else if length (df_unit c) = 0 \<or> length (df_unit c) > 32 \<or> \<not> snake_word (df_unit c) then Inl ''invalid unit''
      else if \<not> valid_period (df_period c) then Inl ''invalid period''
      else if (case df_defaultLimit c of None \<Rightarrow> False | Some l \<Rightarrow> l < 0 \<or> l > max_safe) then Inl ''invalid default limit''
      else if length (df_dimensions c) > 8 then Inl ''too many dimensions''
      else case check_dimensions [] (df_dimensions c) of Some e \<Rightarrow> Inl e | None \<Rightarrow> Inr c)"

definition add_definition :: "usage_definition \<Rightarrow> usage_catalog \<Rightarrow> string + usage_catalog" where
  "add_definition candidate cat =
     (case validate_definition candidate of
        Inl e \<Rightarrow> Inl e
      | Inr d \<Rightarrow>
          if ct_byScope cat (df_scope d) (df_key d) \<noteq> None then Inl ''duplicated''
          else Inr \<lparr>ct_ordered = ct_ordered cat @ [d],
                    ct_byScope = (ct_byScope cat)(df_scope d := (ct_byScope cat (df_scope d))(df_key d \<mapsto> d))\<rparr>)"

fun add_definitions :: "usage_definition list \<Rightarrow> usage_catalog \<Rightarrow> string + usage_catalog" where
  "add_definitions [] cat = Inr cat"
| "add_definitions (d # ds) cat =
     (case add_definition d cat of Inl e \<Rightarrow> Inl e | Inr cat1 \<Rightarrow> add_definitions ds cat1)"

definition new_catalog :: "usage_definition list \<Rightarrow> string + usage_catalog" where
  "new_catalog defs =
     (if defs = [] then Inl ''at least one usage metric definition is required''
      else if length defs > 64 then Inl ''too many definitions''
      else add_definitions defs \<lparr>ct_ordered = [], ct_byScope = (\<lambda>_ _. None)\<rparr>)"

definition catalog_definition :: "usage_catalog \<Rightarrow> string \<Rightarrow> string \<Rightarrow> usage_definition option" where
  "catalog_definition cat sc key = ct_byScope cat sc key"

definition catalog_definitions :: "usage_catalog \<Rightarrow> string \<Rightarrow> usage_definition list" where
  "catalog_definitions cat sc = filter (\<lambda>d. df_scope d = sc) (ct_ordered cat)"

definition default_metrics :: "(string \<times> string) list" where
  "default_metrics =
     [(''api.requests'', ''request''), (''ai.input_tokens'', ''token''), (''ai.output_tokens'', ''token''),
      (''asset.transfer_bytes'', ''byte''), (''workflow.runs'', ''run'')]"

definition default_catalog :: "string + usage_catalog" where
  "default_catalog =
     new_catalog (concat (map (\<lambda>sc. map (\<lambda>(key, unit).
         \<lparr>df_scope = sc, df_key = key, df_unit = unit, df_period = usage_period_month, df_defaultLimit = None,
          df_dimensions = []\<rparr>) default_metrics) [scope_user, scope_organization]))"

subsection \<open>Dimensions\<close>

fun collect_dimensions ::
    "dimension_definition list \<Rightarrow> (string \<times> string) list \<Rightarrow> (string \<times> string) list option" where
  "collect_dimensions [] dims = Some []"
| "collect_dimensions (d # ds) dims =
     (case map_of dims (dd_key d) of
        None \<Rightarrow> None
      | Some v \<Rightarrow> if v \<notin> set (dd_values d) then None
          else map_option (Cons (dd_key d, v)) (collect_dimensions ds dims))"

definition normalize_dimensions ::
    "((string \<Rightarrow> string option) \<Rightarrow> string) \<Rightarrow> usage_definition \<Rightarrow> (string \<times> string) list \<Rightarrow> usage_error + string" where
  "normalize_dimensions json d dims =
     (if length dims \<noteq> length (df_dimensions d) then Inl ErrUsageInvalidEvent
      else case collect_dimensions (df_dimensions d) dims of
        None \<Rightarrow> Inl ErrUsageInvalidEvent
      | Some res \<Rightarrow>
          if \<not> list_all (\<lambda>(k, v). map_of res k \<noteq> None) dims then Inl ErrUsageInvalidEvent
          else (let encoded = json (map_of res)
                in if length encoded > 4096 then Inl ErrUsageInvalidEvent else Inr encoded))"

subsection \<open>The service\<close>

record usage_service =
  sv_catalog :: "usage_catalog option"
  sv_enabled :: bool

record usage_event =
  ev_source :: string
  ev_eventID :: string
  ev_target :: usage_target
  ev_metric :: string
  ev_quantity :: int
  ev_dimensions :: "(string \<times> string) list"
  ev_occurredAt :: instant

record usage_consumption =
  cn_source :: string
  cn_eventID :: string
  cn_target :: usage_target
  cn_metric :: string
  cn_quantity :: int
  cn_dimensions :: "(string \<times> string) list"

text \<open>The fingerprinted record; the occurrence time is left out when it is zero.\<close>

record fingerprint_payload =
  fp_version :: int
  fp_operation :: string
  fp_scope :: string
  fp_subject :: nat
  fp_metric :: string
  fp_quantity :: int
  fp_dimensions :: string
  fp_occurredAt :: "instant option"

definition max_event_age :: duration where "max_event_age = seconds (24 * 3600)"
definition max_future_skew :: duration where "max_future_skew = minutes 5"
definition receipt_retention :: duration where "receipt_retention = seconds (90 * 24 * 3600)"

definition available :: "usage_service \<Rightarrow> usage_error + usage_catalog" where
  "available sv =
     (if \<not> sv_enabled sv then Inl ErrServiceUnavailable
      else case sv_catalog sv of None \<Rightarrow> Inl ErrServiceUnavailable | Some cat \<Rightarrow> Inr cat)"

definition usage_fingerprint ::
    "(fingerprint_payload \<Rightarrow> string) \<Rightarrow> string \<Rightarrow> usage_target \<Rightarrow> string \<Rightarrow> int \<Rightarrow> string \<Rightarrow> instant \<Rightarrow> string" where
  "usage_fingerprint digest operation t metric quantity dims occurredAt =
     digest \<lparr>fp_version = 1, fp_operation = operation, fp_scope = ut_scope t, fp_subject = ut_subject t,
             fp_metric = metric, fp_quantity = quantity, fp_dimensions = dims,
             fp_occurredAt = (if occurredAt = zero_time then None else Some occurredAt)\<rparr>"

definition normalize_record ::
    "((string \<Rightarrow> string option) \<Rightarrow> string) \<Rightarrow> usage_catalog \<Rightarrow> instant \<Rightarrow> usage_event
     \<Rightarrow> usage_error + usage_definition \<times> string \<times> instant" where
  "normalize_record json cat now ev =
     (if \<not> valid_target (ev_target ev) \<or> \<not> valid_usage_source (ev_source ev) \<or> \<not> valid_usage_event_id (ev_eventID ev)
        \<or> ev_quantity ev = 0 \<or> ev_quantity ev < - max_safe \<or> ev_quantity ev > max_safe \<or> ev_occurredAt ev = zero_time
      then Inl ErrUsageInvalidEvent
      else case catalog_definition cat (ut_scope (ev_target ev)) (ev_metric ev) of
        None \<Rightarrow> Inl ErrUsageMetricNotFound
      | Some d \<Rightarrow>
     (case normalize_dimensions json d (ev_dimensions ev) of
        Inl e \<Rightarrow> Inl e
      | Inr encoded \<Rightarrow>
          if ev_occurredAt ev < now - max_event_age \<or> ev_occurredAt ev > now + max_future_skew
          then Inl ErrUsageEventOutsideWindow
          else Inr (d, encoded, ev_occurredAt ev)))"

definition record_mutation ::
    "(fingerprint_payload \<Rightarrow> string) \<Rightarrow> usage_event \<Rightarrow> usage_definition \<Rightarrow> string \<Rightarrow> instant \<Rightarrow> usage_mutation" where
  "record_mutation digest ev d dims occurredAt =
     \<lparr>um_operation = op_record, um_source = ev_source ev, um_eventID = ev_eventID ev,
      um_fingerprint = usage_fingerprint digest op_record (ev_target ev) (ev_metric ev) (ev_quantity ev) dims occurredAt,
      um_target = ev_target ev, um_metric = ev_metric ev, um_quantity = ev_quantity ev, um_dimensions = dims,
      um_occurredAt = occurredAt, um_periodStart = fst (usage_period_window (df_period d) occurredAt),
      um_periodEnd = snd (usage_period_window (df_period d) occurredAt), um_defaultLimit = df_defaultLimit d\<rparr>"

definition record_usage ::
    "((string \<Rightarrow> string option) \<Rightarrow> string) \<Rightarrow> (fingerprint_payload \<Rightarrow> string) \<Rightarrow> (nat \<Rightarrow> usage_error option)
     \<Rightarrow> (nat \<Rightarrow> instant) \<Rightarrow> bool \<Rightarrow> usage_service \<Rightarrow> instant \<Rightarrow> usage_event \<Rightarrow> usage_db
     \<Rightarrow> (usage_error + usage_receipt) \<times> usage_db" where
  "record_usage json digest flt clk bound sv now ev db =
     (case available sv of
        Inl e \<Rightarrow> (Inl e, db)
      | Inr cat \<Rightarrow>
     (case normalize_record json cat now ev of
        Inl e \<Rightarrow> (Inl e, db)
      | Inr (d, dims, occurredAt) \<Rightarrow>
          apply_mutation flt clk bound (record_mutation digest ev d dims occurredAt) db))"

definition normalize_consumption ::
    "((string \<Rightarrow> string option) \<Rightarrow> string) \<Rightarrow> usage_catalog \<Rightarrow> usage_consumption
     \<Rightarrow> usage_error + usage_definition \<times> string" where
  "normalize_consumption json cat c =
     (if \<not> valid_target (cn_target c) \<or> \<not> valid_usage_source (cn_source c) \<or> \<not> valid_usage_event_id (cn_eventID c)
        \<or> cn_quantity c \<le> 0 \<or> cn_quantity c > max_safe
      then Inl ErrUsageInvalidEvent
      else case catalog_definition cat (ut_scope (cn_target c)) (cn_metric c) of
        None \<Rightarrow> Inl ErrUsageMetricNotFound
      | Some d \<Rightarrow>
     (case normalize_dimensions json d (cn_dimensions c) of
        Inl e \<Rightarrow> Inl e
      | Inr encoded \<Rightarrow> Inr (d, encoded)))"

definition consume_mutation ::
    "(fingerprint_payload \<Rightarrow> string) \<Rightarrow> usage_consumption \<Rightarrow> usage_definition \<Rightarrow> string \<Rightarrow> instant \<Rightarrow> usage_mutation" where
  "consume_mutation digest c d dims now =
     \<lparr>um_operation = op_consume, um_source = cn_source c, um_eventID = cn_eventID c,
      um_fingerprint = usage_fingerprint digest op_consume (cn_target c) (cn_metric c) (cn_quantity c) dims zero_time,
      um_target = cn_target c, um_metric = cn_metric c, um_quantity = cn_quantity c, um_dimensions = dims,
      um_occurredAt = now, um_periodStart = fst (usage_period_window (df_period d) now),
      um_periodEnd = snd (usage_period_window (df_period d) now), um_defaultLimit = df_defaultLimit d\<rparr>"

text \<open>A denied consumption answers its receipt and an error.\<close>

definition consume_usage ::
    "((string \<Rightarrow> string option) \<Rightarrow> string) \<Rightarrow> (fingerprint_payload \<Rightarrow> string) \<Rightarrow> (nat \<Rightarrow> usage_error option)
     \<Rightarrow> (nat \<Rightarrow> instant) \<Rightarrow> bool \<Rightarrow> usage_service \<Rightarrow> instant \<Rightarrow> usage_consumption \<Rightarrow> usage_db
     \<Rightarrow> (usage_receipt option \<times> usage_error option) \<times> usage_db" where
  "consume_usage json digest flt clk bound sv now c db =
     (case available sv of
        Inl e \<Rightarrow> ((None, Some e), db)
      | Inr cat \<Rightarrow>
     (case normalize_consumption json cat c of
        Inl e \<Rightarrow> ((None, Some e), db)
      | Inr (d, dims) \<Rightarrow>
     (case apply_mutation flt clk bound (consume_mutation digest c d dims now) db of
        (Inl e, db1) \<Rightarrow> ((None, Some e), db1)
      | (Inr rc, db1) \<Rightarrow>
          if rc_decision rc = decision_denied then ((Some rc, Some ErrUsageQuotaExceeded), db1)
          else ((Some rc, None), db1))))"


subsection \<open>Quotas and summaries\<close>

definition quota_source_default :: string where "quota_source_default = ''default''"
definition quota_source_override :: string where "quota_source_override = ''override''"

record usage_quota =
  qt_target :: usage_target
  qt_metric :: string
  qt_limit :: "int option"
  qt_source :: string
  qt_version :: nat
  qt_updatedAt :: "instant option"

definition effective_quota ::
    "usage_target \<Rightarrow> usage_definition \<Rightarrow> usage_quota_record option \<Rightarrow> usage_error + usage_quota" where
  "effective_quota t d rec =
     (let quota = \<lparr>qt_target = t, qt_metric = df_key d, qt_limit = df_defaultLimit d,
                   qt_source = quota_source_default, qt_version = 0, qt_updatedAt = None\<rparr>
      in case rec of
        None \<Rightarrow> Inr quota
      | Some r \<Rightarrow>
          if qr_version r = 0 \<or> qr_updatedAt r = zero_time \<or> qr_overridden r \<noteq> (qr_limit r \<noteq> None)
            \<or> (case qr_limit r of None \<Rightarrow> False | Some l \<Rightarrow> l < 0 \<or> l > max_safe)
          then Inl ErrServiceUnavailable
          else (let quota1 = quota\<lparr>qt_version := qr_version r, qt_updatedAt := Some (qr_updatedAt r)\<rparr>
                in Inr (if qr_overridden r
                        then quota1\<lparr>qt_limit := qr_limit r, qt_source := quota_source_override\<rparr> else quota1)))"

record usage_summary =
  sm_target :: usage_target
  sm_metric :: string
  sm_unit :: string
  sm_period :: string
  sm_periodStart :: instant
  sm_periodEnd :: instant
  sm_used :: int
  sm_limit :: "int option"
  sm_remaining :: "int option"
  sm_overage :: int
  sm_overLimit :: bool
  sm_quotaSource :: string
  sm_quotaVersion :: nat
  sm_updatedAt :: "instant option"

definition build_summary ::
    "usage_target \<Rightarrow> usage_definition \<Rightarrow> usage_quota \<Rightarrow> usage_counter_record option \<Rightarrow> instant \<times> instant
     \<Rightarrow> usage_error + usage_summary" where
  "build_summary t d quota counter window =
     (if fst window = zero_time \<or> \<not> fst window < snd window then Inl ErrServiceUnavailable
      else if (case counter of None \<Rightarrow> False
               | Some c \<Rightarrow> cr_value c < 0 \<or> cr_value c > max_safe \<or> cr_version c = 0 \<or> cr_updatedAt c = zero_time)
      then Inl ErrServiceUnavailable
      else (let used = (case counter of None \<Rightarrow> 0 | Some c \<Rightarrow> cr_value c);
                summary = \<lparr>sm_target = t, sm_metric = df_key d, sm_unit = df_unit d, sm_period = df_period d,
                  sm_periodStart = fst window, sm_periodEnd = snd window, sm_used = used,
                  sm_limit = qt_limit quota, sm_remaining = None, sm_overage = 0, sm_overLimit = False,
                  sm_quotaSource = qt_source quota, sm_quotaVersion = qt_version quota,
                  sm_updatedAt = map_option cr_updatedAt counter\<rparr>
            in case qt_limit quota of
                 None \<Rightarrow> Inr summary
               | Some l \<Rightarrow>
                   (let remaining = wrap64 (l - used)
                    in if remaining < 0
                       then Inr (summary\<lparr>sm_overLimit := True, sm_overage := wrap64 (- remaining), sm_remaining := Some 0\<rparr>)
                       else Inr (summary\<lparr>sm_remaining := Some remaining\<rparr>))))"

fun summaries ::
    "usage_target \<Rightarrow> instant \<Rightarrow> (string \<Rightarrow> usage_counter_record option) \<Rightarrow> (string \<Rightarrow> usage_quota_record option)
     \<Rightarrow> usage_definition list \<Rightarrow> usage_error + usage_summary list" where
  "summaries t now counters quotas [] = Inr []"
| "summaries t now counters quotas (d # ds) =
     (case effective_quota t d (quotas (df_key d)) of
        Inl e \<Rightarrow> Inl e
      | Inr quota \<Rightarrow>
     (case build_summary t d quota (counters (df_key d)) (usage_period_window (df_period d) now) of
        Inl e \<Rightarrow> Inl e
      | Inr s \<Rightarrow> map_sum id (Cons s) (summaries t now counters quotas ds)))"

definition list_usage ::
    "(nat \<Rightarrow> usage_error option) \<Rightarrow> usage_service \<Rightarrow> instant \<Rightarrow> usage_target \<Rightarrow> usage_db
     \<Rightarrow> usage_error + usage_summary list" where
  "list_usage flt sv now t db =
     (case available sv of
        Inl e \<Rightarrow> Inl e
      | Inr cat \<Rightarrow>
          if \<not> valid_target t then Inl ErrInvalidInput
          else (let ds = catalog_definitions cat (ut_scope t)
                in if ds = [] then Inr []
                   else case list_current flt t now (map df_key ds) db of
                     Inl e \<Rightarrow> Inl e
                   | Inr (counters, quotas) \<Rightarrow> summaries t now counters quotas ds))"

text \<open>Setting and resetting a quota; the answer with whether it is audited.\<close>

definition set_usage_quota ::
    "(nat \<Rightarrow> usage_error option) \<Rightarrow> (nat \<Rightarrow> instant) \<Rightarrow> bool \<Rightarrow> usage_service \<Rightarrow> usage_target \<Rightarrow> string \<Rightarrow> int
     \<Rightarrow> nat \<Rightarrow> usage_db \<Rightarrow> (usage_error + usage_quota \<times> bool) \<times> usage_db" where
  "set_usage_quota flt clk bound sv t metric lim expected db =
     (case available sv of
        Inl e \<Rightarrow> (Inl e, db)
      | Inr cat \<Rightarrow>
          if \<not> valid_target t \<or> lim < 0 \<or> lim > max_safe then (Inl ErrUsageInvalidEvent, db)
          else case catalog_definition cat (ut_scope t) metric of
            None \<Rightarrow> (Inl ErrUsageMetricNotFound, db)
          | Some d \<Rightarrow>
              (case set_quota flt clk bound t metric lim expected db of
                 (Inl e, db1) \<Rightarrow> (Inl e, db1)
               | (Inr (rec, changed), db1) \<Rightarrow>
                   (map_sum id (\<lambda>q. (q, changed)) (effective_quota t d rec), db1)))"

definition reset_usage_quota ::
    "(nat \<Rightarrow> usage_error option) \<Rightarrow> (nat \<Rightarrow> instant) \<Rightarrow> bool \<Rightarrow> usage_service \<Rightarrow> usage_target \<Rightarrow> string
     \<Rightarrow> nat \<Rightarrow> usage_db \<Rightarrow> (usage_error + usage_quota \<times> bool) \<times> usage_db" where
  "reset_usage_quota flt clk bound sv t metric expected db =
     (case available sv of
        Inl e \<Rightarrow> (Inl e, db)
      | Inr cat \<Rightarrow>
          if \<not> valid_target t then (Inl ErrUsageInvalidEvent, db)
          else case catalog_definition cat (ut_scope t) metric of
            None \<Rightarrow> (Inl ErrUsageMetricNotFound, db)
          | Some d \<Rightarrow>
              (case reset_quota flt clk bound t metric expected db of
                 (Inl e, db1) \<Rightarrow> (Inl e, db1)
               | (Inr (rec, changed), db1) \<Rightarrow>
                   (map_sum id (\<lambda>q. (q, changed)) (effective_quota t d rec), db1)))"

definition prune_usage_receipts ::
    "usage_error option \<Rightarrow> usage_service \<Rightarrow> instant \<Rightarrow> instant \<Rightarrow> usage_db \<Rightarrow> (usage_error + int) \<times> usage_db" where
  "prune_usage_receipts flt sv now before db =
     (case available sv of
        Inl e \<Rightarrow> (Inl e, db)
      | Inr cat \<Rightarrow>
          if before = zero_time then (Inl ErrUsageInvalidEvent, db)
          else if before > now - receipt_retention then (Inl ErrUsageInvalidEvent, db)
          else prune_receipts flt before db)"

definition clean_account_deletion ::
    "(nat \<Rightarrow> usage_error option) \<Rightarrow> bool \<Rightarrow> usage_service \<Rightarrow> nat \<Rightarrow> usage_db \<Rightarrow> (usage_error + unit) \<times> usage_db" where
  "clean_account_deletion flt bound sv u db =
     (case available sv of Inl e \<Rightarrow> (Inl e, db) | Inr cat \<Rightarrow> delete_for_user flt bound u db)"

subsection \<open>The catalog's invariant\<close>

definition catalog_indexed :: "usage_catalog \<Rightarrow> bool" where
  "catalog_indexed cat \<longleftrightarrow>
     (\<forall>sc key d. ct_byScope cat sc key = Some d \<longrightarrow> df_scope d = sc \<and> df_key d = key
        \<and> validate_definition d = Inr d \<and> d \<in> set (ct_ordered cat))
     \<and> (\<forall>d \<in> set (ct_ordered cat). ct_byScope cat (df_scope d) (df_key d) = Some d)
     \<and> distinct (map (\<lambda>d. (df_scope d, df_key d)) (ct_ordered cat))"

definition catalog_ok :: "usage_catalog \<Rightarrow> bool" where
  "catalog_ok cat \<longleftrightarrow> catalog_indexed cat \<and> length (ct_ordered cat) \<le> 64"

lemma validate_definition_Inr:
  "validate_definition c = Inr d \<Longrightarrow> d = c \<and> valid_scope (df_scope c) \<and> valid_period (df_period c)
     \<and> limit_ok (df_defaultLimit c) \<and> df_key c \<noteq> ''''"
  by (auto simp: validate_definition_def limit_ok_def in_safe_range_def split: if_splits option.splits)

lemma add_definition_cases:
  assumes "add_definition c cat = Inr cat'"
  obtains "validate_definition c = Inr c" "ct_byScope cat (df_scope c) (df_key c) = None"
    "ct_ordered cat' = ct_ordered cat @ [c]"
    "ct_byScope cat' = (ct_byScope cat)(df_scope c := (ct_byScope cat (df_scope c))(df_key c \<mapsto> c))"
proof -
  from assms obtain d where d: "validate_definition c = Inr d" "ct_byScope cat (df_scope d) (df_key d) = None"
    and cat': "cat' = \<lparr>ct_ordered = ct_ordered cat @ [d],
        ct_byScope = (ct_byScope cat)(df_scope d := (ct_byScope cat (df_scope d))(df_key d \<mapsto> d))\<rparr>"
    by (auto simp: add_definition_def split: sum.splits if_splits)
  have "d = c" using validate_definition_Inr [OF d(1)] by blast
  with d cat' that show ?thesis by simp
qed

lemma add_definition_indexed:
  assumes "add_definition c cat = Inr cat'" and ok: "catalog_indexed cat"
  shows "catalog_indexed cat' \<and> length (ct_ordered cat') = length (ct_ordered cat) + 1"
proof -
  obtain v: "validate_definition c = Inr c" and n: "ct_byScope cat (df_scope c) (df_key c) = None"
    and o': "ct_ordered cat' = ct_ordered cat @ [c]"
    and b': "ct_byScope cat' = (ct_byScope cat)(df_scope c := (ct_byScope cat (df_scope c))(df_key c \<mapsto> c))"
    using add_definition_cases [OF assms(1)] .
  have self: "\<And>x. x \<in> set (ct_ordered cat) \<Longrightarrow> ct_byScope cat (df_scope x) (df_key x) = Some x"
    using ok unfolding catalog_indexed_def by blast
  have dist: "distinct (map (\<lambda>d. (df_scope d, df_key d)) (ct_ordered cat))"
    using ok unfolding catalog_indexed_def by blast
  have fresh: "\<forall>x \<in> set (ct_ordered cat). \<not> (df_scope x = df_scope c \<and> df_key x = df_key c)"
  proof (intro ballI notI)
    fix x assume "x \<in> set (ct_ordered cat)" and "df_scope x = df_scope c \<and> df_key x = df_key c"
    with self [of x] n show False by simp
  qed
  have look: "ct_byScope cat' sc key = (if sc = df_scope c \<and> key = df_key c then Some c else ct_byScope cat sc key)" for sc key
    by (simp add: b')
  have "\<forall>sc key d. ct_byScope cat' sc key = Some d \<longrightarrow> df_scope d = sc \<and> df_key d = key
        \<and> validate_definition d = Inr d \<and> d \<in> set (ct_ordered cat')"
  proof (intro allI impI)
    fix sc key d assume "ct_byScope cat' sc key = Some d"
    then consider "d = c" "sc = df_scope c" "key = df_key c" | "ct_byScope cat sc key = Some d"
      unfolding look by (metis option.inject)
    then show "df_scope d = sc \<and> df_key d = key \<and> validate_definition d = Inr d \<and> d \<in> set (ct_ordered cat')"
    proof cases
      case 1
      then show ?thesis using v by (simp only: o') simp
    next
      case 2
      with ok have "df_scope d = sc \<and> df_key d = key \<and> validate_definition d = Inr d \<and> d \<in> set (ct_ordered cat)"
        unfolding catalog_indexed_def by blast
      then show ?thesis by (simp only: o') simp
    qed
  qed
  moreover have "\<forall>d \<in> set (ct_ordered cat'). ct_byScope cat' (df_scope d) (df_key d) = Some d"
  proof
    fix d assume "d \<in> set (ct_ordered cat')"
    then consider "d = c" | "d \<in> set (ct_ordered cat)" by (auto simp: o')
    then show "ct_byScope cat' (df_scope d) (df_key d) = Some d"
    proof cases
      case 2
      with fresh have "\<not> (df_scope d = df_scope c \<and> df_key d = df_key c)" by blast
      with self [OF 2] show ?thesis by (simp only: look if_False)
    qed (simp add: look)
  qed
  moreover have "distinct (map (\<lambda>d. (df_scope d, df_key d)) (ct_ordered cat'))"
    using fresh dist unfolding o' by (auto simp: image_iff)
  ultimately show ?thesis unfolding catalog_indexed_def by (simp add: o')
qed

lemma add_definitions_ok:
  assumes "add_definitions ds cat = Inr cat'" and "catalog_indexed cat" and "length (ct_ordered cat) + length ds \<le> 64"
  shows "catalog_ok cat'"
  using assms
proof (induction ds arbitrary: cat)
  case Nil
  then show ?case by (simp add: catalog_ok_def)
next
  case (Cons d ds)
  from Cons.prems(1) obtain cat1 where 1: "add_definition d cat = Inr cat1" "add_definitions ds cat1 = Inr cat'"
    by (auto split: sum.splits)
  from add_definition_indexed [OF 1(1) Cons.prems(2)] Cons.prems(3) show ?case
    by (intro Cons.IH [OF 1(2)]) auto
qed

lemma new_catalog_ok: "new_catalog defs = Inr cat \<Longrightarrow> catalog_ok cat"
  by (rule add_definitions_ok [of defs "\<lparr>ct_ordered = [], ct_byScope = (\<lambda>_ _. None)\<rparr>"])
    (auto simp: new_catalog_def catalog_indexed_def split: if_splits)

text \<open>The built-in catalog is accepted: ten metrics, five in each scope.\<close>

lemma default_catalog_valid: "\<exists>cat. default_catalog = Inr cat \<and> length (ct_ordered cat) = 10"
proof -
  have *: "(case default_catalog of Inl e \<Rightarrow> False | Inr cat \<Rightarrow> length (ct_ordered cat) = 10)" by code_simp
  have "(case x of Inl (e :: string) \<Rightarrow> False | Inr cat \<Rightarrow> length (ct_ordered cat) = 10)
      \<Longrightarrow> \<exists>cat. x = Inr cat \<and> length (ct_ordered cat) = 10" for x
    by (cases x) auto
  from this [OF *] show ?thesis .
qed

end
