(* ===== verification/Usage_World.thy ===== *)
theory Usage_World
  imports Usage_Service
begin

text \<open>
  The usage meter over time: a world is the tables, the time and the ledger of accepted receipts, and a
  step is one call of the service with any database failures and clock readings, the passing of time, or
  a change of the owner tables, where removing an owner takes its rows with it (the foreign keys of
  \<open>model.go\<close> cascade). The invariant of the reachable worlds is what the properties rest on.
\<close>

subsection \<open>Steps\<close>

record usage_world =
  uw_db :: usage_db
  uw_now :: instant
  uw_log :: "usage_receipt list"

definition empty_usage_db :: usage_db where
  "empty_usage_db = \<lparr>ud_events = [], ud_counters = [], ud_quotas = [], ud_users = [], ud_organizations = [], ud_next = 1\<rparr>"

definition usage_start :: "instant \<Rightarrow> usage_world" where
  "usage_start now = \<lparr>uw_db = empty_usage_db, uw_now = now, uw_log = []\<rparr>"

text \<open>The repository's readings come after the service's and before the step ends.\<close>

definition readings :: "instant \<Rightarrow> (nat \<Rightarrow> instant) \<Rightarrow> instant \<Rightarrow> bool" where
  "readings now clk later \<longleftrightarrow> now \<le> later \<and> (\<forall>k. now \<le> clk k \<and> clk k \<le> later)"

definition logged_consumption :: "usage_receipt option \<times> usage_error option \<Rightarrow> usage_receipt list" where
  "logged_consumption r = (case fst r of None \<Rightarrow> [] | Some rc \<Rightarrow> logged (Inr rc))"

inductive usage_step ::
    "((string \<Rightarrow> string option) \<Rightarrow> string) \<Rightarrow> (fingerprint_payload \<Rightarrow> string) \<Rightarrow> usage_service
     \<Rightarrow> usage_world \<Rightarrow> usage_world \<Rightarrow> bool"
  for json :: "(string \<Rightarrow> string option) \<Rightarrow> string" and digest :: "fingerprint_payload \<Rightarrow> string" and sv :: usage_service
  where
  step_record: "record_usage json digest flt clk False sv now ev db = (r, db') \<Longrightarrow> readings now clk later
    \<Longrightarrow> usage_step json digest sv \<lparr>uw_db = db, uw_now = now, uw_log = log\<rparr>
          \<lparr>uw_db = db', uw_now = later, uw_log = log @ logged r\<rparr>"
| step_consume: "consume_usage json digest flt clk False sv now c db = (r, db') \<Longrightarrow> readings now clk later
    \<Longrightarrow> usage_step json digest sv \<lparr>uw_db = db, uw_now = now, uw_log = log\<rparr>
          \<lparr>uw_db = db', uw_now = later, uw_log = log @ logged_consumption r\<rparr>"
| step_set_quota: "set_usage_quota flt clk False sv t metric lim expected db = (q, db') \<Longrightarrow> readings now clk later
    \<Longrightarrow> usage_step json digest sv \<lparr>uw_db = db, uw_now = now, uw_log = log\<rparr> \<lparr>uw_db = db', uw_now = later, uw_log = log\<rparr>"
| step_reset_quota: "reset_usage_quota flt clk False sv t metric expected db = (q, db') \<Longrightarrow> readings now clk later
    \<Longrightarrow> usage_step json digest sv \<lparr>uw_db = db, uw_now = now, uw_log = log\<rparr> \<lparr>uw_db = db', uw_now = later, uw_log = log\<rparr>"
| step_prune: "prune_usage_receipts flt1 sv now before db = (n, db')
    \<Longrightarrow> usage_step json digest sv \<lparr>uw_db = db, uw_now = now, uw_log = log\<rparr> \<lparr>uw_db = db', uw_now = now, uw_log = log\<rparr>"
| step_clean: "clean_account_deletion flt False sv u db = (d, db')
    \<Longrightarrow> usage_step json digest sv \<lparr>uw_db = db, uw_now = now, uw_log = log\<rparr>
          \<lparr>uw_db = db', uw_now = now,
            uw_log = (case d of Inl _ \<Rightarrow> log | Inr _ \<Rightarrow> filter (\<lambda>rc. \<not> of_user u (rc_target rc)) log)\<rparr>"
| step_new_owner: "usage_step json digest sv \<lparr>uw_db = db, uw_now = now, uw_log = log\<rparr>
    \<lparr>uw_db = db\<lparr>ud_users := us @ ud_users db, ud_organizations := gs @ ud_organizations db\<rparr>, uw_now = now, uw_log = log\<rparr>"
| step_owner_removed: "usage_step json digest sv \<lparr>uw_db = db, uw_now = now, uw_log = log\<rparr>
    \<lparr>uw_db = (forget (\<lambda>t'. t' = t) db)\<lparr>
        ud_users := (if ut_scope t = scope_user then filter (\<lambda>x. x \<noteq> ut_subject t) (ud_users db) else ud_users db),
        ud_organizations := (if ut_scope t = scope_organization then filter (\<lambda>x. x \<noteq> ut_subject t) (ud_organizations db)
                             else ud_organizations db)\<rparr>,
     uw_now = now, uw_log = filter (\<lambda>rc. rc_target rc \<noteq> t) log\<rparr>"
| step_time: "now \<le> later \<Longrightarrow> usage_step json digest sv \<lparr>uw_db = db, uw_now = now, uw_log = log\<rparr>
    \<lparr>uw_db = db, uw_now = later, uw_log = log\<rparr>"

definition usage_reachable ::
    "((string \<Rightarrow> string option) \<Rightarrow> string) \<Rightarrow> (fingerprint_payload \<Rightarrow> string) \<Rightarrow> usage_service \<Rightarrow> usage_world \<Rightarrow> bool" where
  "usage_reachable json digest sv w \<longleftrightarrow>
     (\<exists>now. 0 \<le> now \<and> (usage_step json digest sv)\<^sup>*\<^sup>* (usage_start now) w)"

text \<open>The laws assumed of the standard library: the JSON text of an object has its braces, and the
  hexadecimal SHA-256 has 64 digits; and the service's catalog was built by \<open>NewCatalog\<close>.\<close>

definition usage_setting ::
    "((string \<Rightarrow> string option) \<Rightarrow> string) \<Rightarrow> (fingerprint_payload \<Rightarrow> string) \<Rightarrow> usage_service \<Rightarrow> bool" where
  "usage_setting json digest sv \<longleftrightarrow> (\<forall>m. 2 \<le> length (json m)) \<and> (\<forall>p. length (digest p) = 64)
     \<and> (\<forall>cat. sv_catalog sv = Some cat \<longrightarrow> (\<exists>defs. new_catalog defs = Inr cat))"

subsection \<open>The invariant\<close>

abbreviation receipt_key :: "usage_receipt \<Rightarrow> string \<times> string \<times> instant" where
  "receipt_key rc \<equiv> (rc_source rc, rc_eventID rc, rc_occurredAt rc)"

definition windows_ok :: "usage_service \<Rightarrow> usage_db \<Rightarrow> bool" where
  "windows_ok sv db \<longleftrightarrow> (\<forall>c \<in> set (ud_counters db). \<forall>cat d. sv_catalog sv = Some cat
     \<and> catalog_definition cat (ut_scope (uc_target c)) (uc_metric c) = Some d
     \<longrightarrow> (\<exists>t. (uc_periodStart c, uc_periodEnd c) = usage_period_window (df_period d) t))"

definition times_ok :: "usage_db \<Rightarrow> bool" where
  "times_ok db \<longleftrightarrow> (\<forall>c \<in> set (ud_counters db). 0 \<le> uc_updatedAt c) \<and> (\<forall>q \<in> set (ud_quotas db). 0 \<le> uq_updatedAt q)
     \<and> (\<forall>r \<in> set (ud_events db). ue_occurredAt r \<le> ue_createdAt r + max_future_skew
          \<and> column_time (ue_occurredAt r) = ue_occurredAt r)"

text \<open>A logged event is still known by its row, or too old to be recorded again.\<close>

definition remembered :: "usage_db \<Rightarrow> instant \<Rightarrow> usage_receipt \<Rightarrow> bool" where
  "remembered db now rc \<longleftrightarrow>
     (\<exists>r \<in> set (ud_events db). event_key r = (rc_source rc, rc_eventID rc) \<and> ue_target r = rc_target rc
        \<and> ue_occurredAt r = column_time (rc_occurredAt rc)) \<or> rc_occurredAt rc < now - max_event_age"

definition log_ok :: "usage_db \<Rightarrow> instant \<Rightarrow> usage_receipt list \<Rightarrow> bool" where
  "log_ok db now log \<longleftrightarrow> distinct (map receipt_key log) \<and> (\<forall>rc \<in> set log. remembered db now rc)"

definition world_inv :: "usage_service \<Rightarrow> usage_world \<Rightarrow> bool" where
  "world_inv sv w \<longleftrightarrow> usage_inv (uw_db w) (uw_log w) \<and> 0 \<le> uw_now w \<and> windows_ok sv (uw_db w)
     \<and> times_ok (uw_db w) \<and> log_ok (uw_db w) (uw_now w) (uw_log w)"

lemma start_inv: "0 \<le> now \<Longrightarrow> world_inv sv (usage_start now)"
  by (simp add: world_inv_def usage_start_def empty_usage_db_def usage_inv_def usage_wf_defs windows_ok_def
      times_ok_def log_ok_def find_counter_def counter_value_def)

lemma remembered_later: "remembered db now rc \<Longrightarrow> now \<le> later \<Longrightarrow> remembered db later rc"
  by (auto simp: remembered_def)

lemma log_ok_later: "log_ok db now log \<Longrightarrow> now \<le> later \<Longrightarrow> log_ok db later log"
  by (auto simp: log_ok_def intro: remembered_later)

text \<open>The parts of the invariant that a change of one table leaves alone.\<close>

lemma log_ok_same_events: "log_ok db now log \<Longrightarrow> ud_events db' = ud_events db \<Longrightarrow> log_ok db' now log"
  by (simp add: log_ok_def remembered_def)

lemma windows_ok_subset:
  "windows_ok sv db \<Longrightarrow> set (ud_counters db') \<subseteq> set (ud_counters db) \<Longrightarrow> windows_ok sv db'"
  by (auto simp: windows_ok_def)

lemma durations:
  "0 < max_future_skew" "0 < max_event_age" "max_event_age + max_future_skew + 1000 < receipt_retention"
  "max_future_skew mod 1000 = 0"
  by (simp_all add: max_future_skew_def max_event_age_def receipt_retention_def seconds_def minutes_def)

subsection \<open>Applying a mutation\<close>

text \<open>What the service puts into the mutations it makes.\<close>

definition made_at :: "usage_service \<Rightarrow> instant \<Rightarrow> usage_mutation \<Rightarrow> bool" where
  "made_at sv now m \<longleftrightarrow> service_mutation m \<and> now - max_event_age \<le> um_occurredAt m
     \<and> um_occurredAt m \<le> now + max_future_skew
     \<and> (\<exists>cat d. sv_catalog sv = Some cat \<and> catalog_definition cat (ut_scope (um_target m)) (um_metric m) = Some d
          \<and> um_defaultLimit m = df_defaultLimit d
          \<and> (um_periodStart m, um_periodEnd m) = usage_period_window (df_period d) (um_occurredAt m))"

lemma applied_counter_origin:
  "c \<in> set (applied_counters now m counter after i cs) \<Longrightarrow>
     c = new_counter_row i now m after \<and> counter = None
     \<or> c \<in> set cs \<or> (\<exists>c0 \<in> set cs. counter = Some c0 \<and> c = c0\<lparr>uc_value := after, uc_version := uc_version c0 + 1, uc_updatedAt := now\<rparr>)"
  by (auto simp: applied_counters_def split: option.splits if_splits)

lemma applied_windows:
  assumes "windows_ok sv db" "made_at sv now m"
  shows "windows_ok sv (applied m clk db decision after)"
proof -
  let ?counter = "find_counter (um_target m) (um_metric m) (um_periodStart m) db"
  have "windows_ok sv (db\<lparr>ud_counters := applied_counters (clk 1) m ?counter after i (ud_counters db)\<rparr>)" for i
    unfolding windows_ok_def
  proof (intro ballI allI impI)
    fix c cat d
    assume "c \<in> set (ud_counters (db\<lparr>ud_counters := applied_counters (clk 1) m ?counter after i (ud_counters db)\<rparr>))"
      and cat: "sv_catalog sv = Some cat \<and> catalog_definition cat (ut_scope (uc_target c)) (uc_metric c) = Some d"
    then have "c \<in> set (applied_counters (clk 1) m ?counter after i (ud_counters db))" by simp
    from applied_counter_origin [OF this]
    show "\<exists>t. (uc_periodStart c, uc_periodEnd c) = usage_period_window (df_period d) t"
    proof (elim disjE conjE bexE)
      assume c: "c = new_counter_row i (clk 1) m after"
      from assms(2) obtain cat' d' where "sv_catalog sv = Some cat'"
          "catalog_definition cat' (ut_scope (um_target m)) (um_metric m) = Some d'"
          "(um_periodStart m, um_periodEnd m) = usage_period_window (df_period d') (um_occurredAt m)"
        by (auto simp: made_at_def)
      with cat show ?thesis by (intro exI [of _ "um_occurredAt m"]) (auto simp: c new_counter_row_def)
    next
      assume "c \<in> set (ud_counters db)"
      with assms(1) cat show ?thesis by (auto simp: windows_ok_def)
    next
      fix c0 assume "c0 \<in> set (ud_counters db)" and "c = c0\<lparr>uc_value := after, uc_version := uc_version c0 + 1, uc_updatedAt := clk 1\<rparr>"
      with assms(1) cat show ?thesis by (auto simp: windows_ok_def)
    qed
  qed
  then show ?thesis using assms(1) by (auto simp: applied_def Let_def windows_ok_def)
qed

lemma applied_times:
  assumes "times_ok db" "um_occurredAt m \<le> clk 0 + max_future_skew" "\<And>k. 0 \<le> clk k"
  shows "times_ok (applied m clk db decision after)"
proof -
  have "\<forall>c \<in> set (applied_counters (clk 1) m counter after i (ud_counters db)). 0 \<le> uc_updatedAt c" for counter i
    using assms(1,3) applied_counter_origin by (fastforce simp: times_ok_def new_counter_row_def)
  moreover have "column_time (um_occurredAt m) \<le> column_time (clk 0) + max_future_skew"
    using column_time_mono [OF assms(2)] by (simp add: column_time_add durations(4))
  ultimately show ?thesis using assms(1) by (auto simp: applied_def Let_def times_ok_def)
qed

lemma applied_events:
  "\<exists>row. ud_events (applied m clk db decision after) = ud_events db @ [row] \<and> event_key row = (um_source m, um_eventID m)
     \<and> ue_target row = um_target m \<and> ue_occurredAt row = column_time (um_occurredAt m)"
  by (simp add: applied_def Let_def)

lemma applied_log:
  assumes "log_ok db now log" "made_at sv now m" "settles m clk db rc db'"
  shows "log_ok db' now (log @ logged (Inr rc))"
proof -
  from assms(3) obtain decision after where db': "db' = applied m clk db decision after"
      and new: "find_event (um_source m) (um_eventID m) db = None"
    by (auto simp: settles_def Let_def)
  note f = settles_receipt [OF assms(3)]
  have old: "remembered db' now x" if "x \<in> set log" for x
    using assms(1) that by (auto simp: log_ok_def remembered_def db' applied_def Let_def)
  have fresh: "remembered db' now rc"
    using applied_events [of m clk db decision after] f by (auto simp: remembered_def db')
  have "receipt_key rc \<notin> receipt_key ` set log"
  proof
    assume "receipt_key rc \<in> receipt_key ` set log"
    then obtain x where x: "x \<in> set log" and "receipt_key rc = receipt_key x" by (rule imageE)
    with f have k: "rc_source x = um_source m" "rc_eventID x = um_eventID m" "rc_occurredAt x = um_occurredAt m" by auto
    from new have "\<forall>r \<in> set (ud_events db). event_key r \<noteq> (um_source m, um_eventID m)"
      by (auto simp: find_event_def find_key_None)
    with assms(1) x k have "um_occurredAt m < now - max_event_age" by (auto simp: log_ok_def remembered_def)
    with assms(2) show False by (simp add: made_at_def)
  qed
  moreover have "distinct (map receipt_key log)" using assms(1) by (simp only: log_ok_def)
  ultimately have "distinct (map receipt_key (log @ [rc]))" by (simp only: map_append distinct_append) simp
  moreover have "\<forall>x \<in> set (log @ [rc]). remembered db' now x" using old fresh by simp
  ultimately have "log_ok db' now (log @ [rc])" "log_ok db' now log" unfolding log_ok_def by simp_all
  moreover have "logged (Inr rc) \<in> {[], [rc]}" by (simp add: logged_def)
  ultimately show ?thesis by auto
qed

lemma apply_world:
  assumes "world_inv sv \<lparr>uw_db = db, uw_now = now, uw_log = log\<rparr>" "made_at sv now m" "readings now clk later"
    and "apply_mutation flt clk False m db = (r, db')"
  shows "world_inv sv \<lparr>uw_db = db', uw_now = later, uw_log = log @ logged r\<rparr>"
proof -
  from assms(1) have inv: "usage_inv db log" "0 \<le> now" "windows_ok sv db" "times_ok db" "log_ok db now log"
    by (simp_all add: world_inv_def)
  have later: "now \<le> later" "\<And>k. now \<le> clk k" using assms(3) by (auto simp: readings_def)
  have ui: "usage_inv db' (log @ logged r)"
    by (rule apply_inv [OF inv(1) _ assms(4)]) (use assms(2) in \<open>simp add: made_at_def\<close>)
  from usage_inv_wf [OF inv(1)] assms(4) show ?thesis
  proof (cases rule: apply_cases)
    case failed
    with inv ui later log_ok_later [OF inv(5) later(1)] show ?thesis by (simp add: world_inv_def logged_def)
  next
    case (replayed row rc)
    with receipt_of_fields [OF replayed(5)] inv ui later log_ok_later [OF inv(5) later(1)]
    show ?thesis by (simp add: world_inv_def logged_def)
  next
    case (settled rc)
    from settled(3) obtain decision after where db': "db' = applied m clk db decision after"
      by (auto simp: settles_def Let_def)
    have "um_occurredAt m \<le> clk 0 + max_future_skew" using assms(2) later(2) [of 0] by (simp add: made_at_def)
    moreover have "0 \<le> clk k" for k using later(2) [of k] inv(2) by linarith
    ultimately have "times_ok db'" unfolding db' by (intro applied_times inv(4))
    moreover have "windows_ok sv db'" unfolding db' by (rule applied_windows [OF inv(3) assms(2)])
    moreover have "log_ok db' later (log @ logged r)"
      using applied_log [OF inv(5) assms(2) settled(3)] later(1) settled(1) by (auto intro: log_ok_later)
    ultimately show ?thesis using ui inv(2) later(1) by (simp add: world_inv_def)
  qed
qed

subsection \<open>The service's mutations\<close>

lemma catalog_lookup:
  assumes "usage_setting json digest sv" "sv_catalog sv = Some cat" "catalog_definition cat sc key = Some d"
  shows "catalog_ok cat \<and> df_scope d = sc \<and> df_key d = key \<and> validate_definition d = Inr d \<and> d \<in> set (ct_ordered cat)"
proof -
  from assms(1,2) obtain defs where "new_catalog defs = Inr cat" by (auto simp: usage_setting_def)
  from new_catalog_ok [OF this] assms(3) show ?thesis
    unfolding catalog_ok_def catalog_indexed_def catalog_definition_def by blast
qed

lemma available_Inr: "available sv = Inr cat \<longleftrightarrow> sv_enabled sv \<and> sv_catalog sv = Some cat"
  by (auto simp: available_def split: option.splits)

lemma normalize_dimensions_Inr:
  assumes "normalize_dimensions json d dims = Inr enc" "usage_setting json digest sv"
  shows "2 \<le> length enc \<and> length enc \<le> 4096"
  using assms by (auto simp: normalize_dimensions_def usage_setting_def Let_def split: if_splits option.splits)

lemma record_mutation_made:
  assumes "usage_setting json digest sv" "available sv = Inr cat" "normalize_record json cat now ev = Inr (d, dims, oc)"
  shows "made_at sv now (record_mutation digest ev d dims oc)"
proof -
  from assms(3) have d: "catalog_definition cat (ut_scope (ev_target ev)) (ev_metric ev) = Some d"
      "normalize_dimensions json d (ev_dimensions ev) = Inr dims" "now - max_event_age \<le> oc" "oc \<le> now + max_future_skew"
    by (auto simp: normalize_record_def split: if_splits option.splits sum.splits)
  have cat: "sv_catalog sv = Some cat" using assms(2) by (simp add: available_Inr)
  have "limit_ok (df_defaultLimit d)"
    using catalog_lookup [OF assms(1) cat d(1)] validate_definition_Inr by blast
  moreover have "length (digest p) = 64" for p using assms(1) by (simp add: usage_setting_def)
  ultimately have "service_mutation (record_mutation digest ev d dims oc)"
    using normalize_dimensions_Inr [OF d(2) assms(1)]
    by (simp add: service_mutation_def record_mutation_def usage_fingerprint_def)
  then show ?thesis using d cat by (simp add: made_at_def record_mutation_def)
qed

lemma consume_mutation_made:
  assumes "usage_setting json digest sv" "available sv = Inr cat" "normalize_consumption json cat c = Inr (d, dims)"
  shows "made_at sv now (consume_mutation digest c d dims now)"
proof -
  from assms(3) have d: "catalog_definition cat (ut_scope (cn_target c)) (cn_metric c) = Some d"
      "normalize_dimensions json d (cn_dimensions c) = Inr dims"
    by (auto simp: normalize_consumption_def split: if_splits option.splits sum.splits)
  have cat: "sv_catalog sv = Some cat" using assms(2) by (simp add: available_Inr)
  have "limit_ok (df_defaultLimit d)"
    using catalog_lookup [OF assms(1) cat d(1)] validate_definition_Inr by blast
  moreover have "length (digest p) = 64" for p using assms(1) by (simp add: usage_setting_def)
  ultimately have "service_mutation (consume_mutation digest c d dims now)"
    using normalize_dimensions_Inr [OF d(2) assms(1)]
    by (simp add: service_mutation_def consume_mutation_def usage_fingerprint_def)
  then show ?thesis using d cat durations by (simp add: made_at_def consume_mutation_def)
qed

text \<open>A call of the service that passes its checks is one Apply; otherwise it changes nothing.\<close>

lemma record_usage_cases:
  assumes "usage_setting json digest sv" "record_usage json digest flt clk False sv now ev db = (r, db')"
  obtains (refused) e where "r = Inl e" "db' = db"
  | (applied) d dims where "catalog_definition (the (sv_catalog sv)) (ut_scope (ev_target ev)) (ev_metric ev) = Some d"
      "made_at sv now (record_mutation digest ev d dims (ev_occurredAt ev))"
      "apply_mutation flt clk False (record_mutation digest ev d dims (ev_occurredAt ev)) db = (r, db')"
proof (cases "available sv")
  case (Inl e)
  with assms(2) refused show ?thesis by (auto simp: record_usage_def)
next
  case (Inr cat)
  show ?thesis
  proof (cases "normalize_record json cat now ev")
    case (Inl e)
    with assms(2) \<open>available sv = Inr cat\<close> refused show ?thesis by (auto simp: record_usage_def)
  next
    case (Inr x)
    obtain d dims oc where x: "x = (d, dims, oc)" by (metis prod_cases3)
    from Inr x have oc: "oc = ev_occurredAt ev"
        and cd: "catalog_definition cat (ut_scope (ev_target ev)) (ev_metric ev) = Some d"
      by (auto simp: normalize_record_def split: if_splits option.splits sum.splits)
    have "sv_catalog sv = Some cat" using \<open>available sv = Inr cat\<close> by (simp add: available_Inr)
    with assms(2) Inr x oc cd \<open>available sv = Inr cat\<close>
      record_mutation_made [OF assms(1) \<open>available sv = Inr cat\<close>, of now ev d dims oc]
    show ?thesis by (intro applied [of d dims]) (simp_all add: record_usage_def)
  qed
qed

lemma consume_usage_cases:
  assumes "usage_setting json digest sv" "consume_usage json digest flt clk False sv now c db = (r, db')"
  obtains (refused) e where "r = (None, Some e)" "db' = db"
  | (applied) d dims a where "catalog_definition (the (sv_catalog sv)) (ut_scope (cn_target c)) (cn_metric c) = Some d"
      "made_at sv now (consume_mutation digest c d dims now)"
      "apply_mutation flt clk False (consume_mutation digest c d dims now) db = (a, db')"
      "r = (case a of Inl e \<Rightarrow> (None, Some e)
            | Inr rc \<Rightarrow> (Some rc, if rc_decision rc = decision_denied then Some ErrUsageQuotaExceeded else None))"
proof (cases "available sv")
  case (Inl e)
  with assms(2) refused show ?thesis by (auto simp: consume_usage_def)
next
  case (Inr cat)
  show ?thesis
  proof (cases "normalize_consumption json cat c")
    case (Inl e)
    with assms(2) \<open>available sv = Inr cat\<close> refused show ?thesis by (auto simp: consume_usage_def)
  next
    case (Inr x)
    obtain d dims where x: "x = (d, dims)" by fastforce
    from Inr x have cd: "catalog_definition cat (ut_scope (cn_target c)) (cn_metric c) = Some d"
      by (auto simp: normalize_consumption_def split: if_splits option.splits sum.splits)
    obtain a db1 where a: "apply_mutation flt clk False (consume_mutation digest c d dims now) db = (a, db1)" by fastforce
    have "sv_catalog sv = Some cat" using \<open>available sv = Inr cat\<close> by (simp add: available_Inr)
    with assms(2) Inr x cd \<open>available sv = Inr cat\<close> a
      consume_mutation_made [OF assms(1) \<open>available sv = Inr cat\<close>, of c d dims now]
    show ?thesis
      by (intro applied [of d dims a]) (auto simp: consume_usage_def split: sum.splits if_splits)
  qed
qed

subsection \<open>Every step keeps the invariant\<close>

lemma quota_written_world:
  assumes "world_inv sv \<lparr>uw_db = db, uw_now = now, uw_log = log\<rparr>" "readings now clk later"
    and "usage_inv db' log" "ud_events db' = ud_events db" "ud_counters db' = ud_counters db"
    and "\<forall>q \<in> set (ud_quotas db'). 0 \<le> uq_updatedAt q"
  shows "world_inv sv \<lparr>uw_db = db', uw_now = later, uw_log = log\<rparr>"
proof -
  from assms(1,2) have inv: "0 \<le> now" "windows_ok sv db" "times_ok db" "log_ok db now log" "now \<le> later"
    by (simp_all add: world_inv_def readings_def)
  have "log_ok db' later log" by (rule log_ok_later [OF log_ok_same_events [OF inv(4) assms(4)] inv(5)])
  with inv assms(3-6) show ?thesis by (simp add: world_inv_def windows_ok_def times_ok_def)
qed


lemma quota_written_times:
  assumes "quota_written now t metric lim expected db q changed db'" "\<forall>q \<in> set (ud_quotas db). 0 \<le> uq_updatedAt q" "0 \<le> now"
  shows "\<forall>q \<in> set (ud_quotas db'). 0 \<le> uq_updatedAt q"
  using assms by (auto simp: quota_written_def new_quota_row_def updated_quota_def split: option.splits if_splits)

text \<open>A quota write of the service, after its checks, is one of the repository.\<close>

lemma set_usage_quota_cases:
  assumes "usage_wf db" "set_usage_quota flt clk False sv t metric lim expected db = (q, db')"
  obtains (refused) e where "q = Inl e" "db' = db"
  | (written) d rec changed where "catalog_definition (the (sv_catalog sv)) (ut_scope t) metric = Some d"
      "valid_target t" "in_safe_range lim"
      "quota_written (clk 0) t metric (Some lim) expected db rec changed db'"
      "q = map_sum id (\<lambda>q. (q, changed)) (effective_quota t d rec)"
proof (cases "available sv")
  case (Inl e)
  with assms(2) refused show ?thesis by (auto simp: set_usage_quota_def)
next
  case (Inr cat)
  show ?thesis
  proof (cases "\<not> valid_target t \<or> lim < 0 \<or> lim > max_safe \<or> catalog_definition cat (ut_scope t) metric = None")
    case True
    with assms(2) Inr refused show ?thesis by (auto simp: set_usage_quota_def split: if_splits option.splits)
  next
    case False
    then obtain d where d: "catalog_definition cat (ut_scope t) metric = Some d" by blast
    obtain x db1 where x: "set_quota flt clk False t metric lim expected db = (x, db1)" by fastforce
    with assms(2) Inr False d have q: "db' = db1" "q = (case x of Inl e \<Rightarrow> Inl e
        | Inr (rec, changed) \<Rightarrow> map_sum id (\<lambda>q. (q, changed)) (effective_quota t d rec))"
      by (auto simp: set_usage_quota_def split: sum.splits prod.splits)
    have "sv_catalog sv = Some cat" using Inr by (simp add: available_Inr)
    with set_quota_cases [OF assms(1) x] q d refused written show ?thesis by auto
  qed
qed

lemma reset_usage_quota_cases:
  assumes "usage_wf db" "reset_usage_quota flt clk False sv t metric expected db = (q, db')"
  obtains (refused) e where "q = Inl e" "db' = db"
  | (written) d rec changed where "catalog_definition (the (sv_catalog sv)) (ut_scope t) metric = Some d"
      "valid_target t" "quota_written (clk 0) t metric None expected db rec changed db'"
      "q = map_sum id (\<lambda>q. (q, changed)) (effective_quota t d rec)"
proof (cases "available sv")
  case (Inl e)
  with assms(2) refused show ?thesis by (auto simp: reset_usage_quota_def)
next
  case (Inr cat)
  show ?thesis
  proof (cases "\<not> valid_target t \<or> catalog_definition cat (ut_scope t) metric = None")
    case True
    with assms(2) Inr refused show ?thesis by (auto simp: reset_usage_quota_def split: if_splits option.splits)
  next
    case False
    then obtain d where d: "catalog_definition cat (ut_scope t) metric = Some d" by blast
    obtain x db1 where x: "reset_quota flt clk False t metric expected db = (x, db1)" by fastforce
    with assms(2) Inr False d have q: "db' = db1" "q = (case x of Inl e \<Rightarrow> Inl e
        | Inr (rec, changed) \<Rightarrow> map_sum id (\<lambda>q. (q, changed)) (effective_quota t d rec))"
      by (auto simp: reset_usage_quota_def split: sum.splits prod.splits)
    have "sv_catalog sv = Some cat" using Inr by (simp add: available_Inr)
    with reset_quota_cases [OF assms(1) x] q d refused written show ?thesis by auto
  qed
qed

lemma quota_step:
  assumes "world_inv sv \<lparr>uw_db = db, uw_now = now, uw_log = log\<rparr>" "readings now clk later"
    and "valid_target t" "limit_ok lim" "quota_written (clk 0) t metric lim expected db rec changed db'"
  shows "world_inv sv \<lparr>uw_db = db', uw_now = later, uw_log = log\<rparr>"
proof -
  from assms(1) have inv: "usage_inv db log" "0 \<le> now" "times_ok db" by (simp_all add: world_inv_def)
  from quota_written_wf [OF usage_inv_wf [OF inv(1)] assms(3,4,5)]
  have w: "usage_wf db'" "ud_events db' = ud_events db" "ud_counters db' = ud_counters db" by simp_all
  have "now \<le> clk 0" using assms(2) by (simp add: readings_def)
  with inv(2) have "0 \<le> clk 0" by linarith
  with quota_written_times [OF assms(5)] inv(3) have "\<forall>q \<in> set (ud_quotas db'). 0 \<le> uq_updatedAt q"
    by (simp add: times_ok_def)
  from quota_written_world [OF assms(1,2) usage_inv_same_counters [OF inv(1) w(1,3)] w(2,3) this] show ?thesis .
qed

lemma unchanged_step:
  "world_inv sv \<lparr>uw_db = db, uw_now = now, uw_log = log\<rparr> \<Longrightarrow> now \<le> later
    \<Longrightarrow> world_inv sv \<lparr>uw_db = db, uw_now = later, uw_log = log\<rparr>"
  using log_ok_later by (auto simp: world_inv_def)

text \<open>Pruned receipts are too old for their events to be recorded again.\<close>

lemma prune_step:
  assumes "world_inv sv \<lparr>uw_db = db, uw_now = now, uw_log = log\<rparr>" "prune_usage_receipts flt1 sv now before db = (n, db')"
  shows "world_inv sv \<lparr>uw_db = db', uw_now = now, uw_log = log\<rparr>"
proof (cases "db' = db")
  case False
  from assms(1) have inv: "usage_inv db log" "0 \<le> now" "windows_ok sv db" "times_ok db" "log_ok db now log"
    by (simp_all add: world_inv_def)
  from assms(2) False have p: "prune_receipts flt1 before db = (n, db')" and before: "before \<le> now - receipt_retention"
    by (auto simp: prune_usage_receipts_def split: sum.splits if_splits)
  then have db': "db' = db\<lparr>ud_events := filter (\<lambda>r. \<not> receipt_prunable before r) (ud_events db)\<rparr>"
    using False by (auto simp: prune_receipts_def split: if_splits option.splits)
  have "remembered db' now rc" if "rc \<in> set log" for rc
  proof (cases "remembered db' now rc")
    case no: False
    with inv(5) that obtain r where r: "r \<in> set (ud_events db)" "receipt_prunable before r" "ue_occurredAt r = column_time (rc_occurredAt rc)"
      by (auto simp: log_ok_def remembered_def db')
    then have "column_time (rc_occurredAt rc) \<le> ue_createdAt r + max_future_skew" "ue_createdAt r < column_time before"
      using inv(4) by (auto simp: times_ok_def receipt_prunable_def)
    then have "rc_occurredAt rc < ue_createdAt r + max_future_skew + 1000" "ue_createdAt r < before"
      using column_time_bounds(2) [of "rc_occurredAt rc"] column_time_bounds(1) [of before] by linarith+
    with before durations(3) have "rc_occurredAt rc < now - max_event_age" by linarith
    then show ?thesis by (simp add: remembered_def)
  qed
  with inv have "log_ok db' now log" by (simp add: log_ok_def)
  with inv prune_inv [OF inv(1) p] show ?thesis by (simp add: world_inv_def windows_ok_def times_ok_def db')
qed (use assms in simp)

lemma forget_step:
  assumes "world_inv sv \<lparr>uw_db = db, uw_now = now, uw_log = log\<rparr>"
  shows "world_inv sv \<lparr>uw_db = (forget P db)\<lparr>ud_users := us, ud_organizations := gs\<rparr>, uw_now = now,
    uw_log = filter (\<lambda>rc. \<not> P (rc_target rc)) log\<rparr>"
proof -
  from assms have inv: "usage_inv db log" "0 \<le> now" "windows_ok sv db" "times_ok db" "log_ok db now log"
    by (simp_all add: world_inv_def)
  have "remembered (forget P db) now rc" if "rc \<in> set log" "\<not> P (rc_target rc)" for rc
  proof -
    from inv(5) that(1) have "remembered db now rc" by (simp add: log_ok_def)
    then show ?thesis
    proof (unfold remembered_def, elim disjE bexE conjE)
      fix r assume "r \<in> set (ud_events db)" "event_key r = (rc_source rc, rc_eventID rc)" "ue_target r = rc_target rc"
        "ue_occurredAt r = column_time (rc_occurredAt rc)"
      with that(2) show "(\<exists>r \<in> set (ud_events (forget P db)). event_key r = (rc_source rc, rc_eventID rc)
          \<and> ue_target r = rc_target rc \<and> ue_occurredAt r = column_time (rc_occurredAt rc)) \<or> rc_occurredAt rc < now - max_event_age"
        by (intro disjI1 bexI [of _ r]) (simp_all add: forget_def)
    qed simp
  qed
  with inv(5) have "log_ok (forget P db) now (filter (\<lambda>rc. \<not> P (rc_target rc)) log)"
    by (auto simp: log_ok_def distinct_map_filter)
  moreover have "usage_inv ((forget P db)\<lparr>ud_users := us, ud_organizations := gs\<rparr>) (filter (\<lambda>rc. \<not> P (rc_target rc)) log)"
    using forget_inv [OF inv(1)] by (simp add: usage_inv_def usage_wf_defs find_counter_def)
  moreover have "windows_ok sv ((forget P db)\<lparr>ud_users := us, ud_organizations := gs\<rparr>)"
    by (rule windows_ok_subset [OF inv(3)]) (auto simp: forget_def)
  moreover have "times_ok ((forget P db)\<lparr>ud_users := us, ud_organizations := gs\<rparr>)"
    using inv(4) by (simp add: times_ok_def forget_def)
  ultimately show ?thesis using inv(2) log_ok_same_events by (simp add: world_inv_def)
qed

lemma owners_step:
  assumes "world_inv sv \<lparr>uw_db = db, uw_now = now, uw_log = log\<rparr>"
  shows "world_inv sv \<lparr>uw_db = db\<lparr>ud_users := us, ud_organizations := gs\<rparr>, uw_now = now, uw_log = log\<rparr>"
  using forget_step [OF assms, where P = "\<lambda>_. False" and us = us and gs = gs] by (simp add: forget_def)

lemma usage_step_inv:
  assumes "usage_setting json digest sv" "usage_step json digest sv w w'" "world_inv sv w"
  shows "world_inv sv w'"
  using assms(2,3)
proof cases
  case (step_record flt clk now ev db r db' later log)
  from assms(1) step_record(3) show ?thesis
  proof (cases rule: record_usage_cases)
    case refused
    with step_record assms(3) show ?thesis by (auto intro: unchanged_step simp: readings_def logged_def)
  next
    case (applied d dims)
    from apply_world [OF _ applied(2) step_record(4) applied(3)] step_record(1,2) assms(3) show ?thesis by simp
  qed
next
  case (step_consume flt clk now c db r db' later log)
  from assms(1) step_consume(3) show ?thesis
  proof (cases rule: consume_usage_cases)
    case refused
    with step_consume assms(3) show ?thesis by (auto intro: unchanged_step simp: readings_def logged_consumption_def)
  next
    case (applied d dims a)
    have "logged_consumption r = logged a" by (auto simp: applied(4) logged_consumption_def logged_def split: sum.splits)
    with apply_world [OF _ applied(2) step_consume(4) applied(3)] step_consume(1,2) assms(3) show ?thesis by simp
  qed
next
  case (step_set_quota flt clk t metric lim expected db q db' now later log)
  have wf: "usage_wf db" using assms(3) step_set_quota(1) by (auto simp: world_inv_def intro: usage_inv_wf)
  from wf step_set_quota(3) show ?thesis
  proof (cases rule: set_usage_quota_cases)
    case refused
    with step_set_quota assms(3) show ?thesis by (auto intro: unchanged_step simp: readings_def)
  next
    case (written d rec changed)
    have "limit_ok (Some lim)" using written(3) by (simp add: limit_ok_def)
    from quota_step [OF _ step_set_quota(4) written(2) this written(4)] step_set_quota(1,2) assms(3) show ?thesis by simp
  qed
next
  case (step_reset_quota flt clk t metric expected db q db' now later log)
  have wf: "usage_wf db" using assms(3) step_reset_quota(1) by (auto simp: world_inv_def intro: usage_inv_wf)
  from wf step_reset_quota(3) show ?thesis
  proof (cases rule: reset_usage_quota_cases)
    case refused
    with step_reset_quota assms(3) show ?thesis by (auto intro: unchanged_step simp: readings_def)
  next
    case (written d rec changed)
    have "limit_ok None" by (simp add: limit_ok_def)
    from quota_step [OF _ step_reset_quota(4) written(2) this written(3)] step_reset_quota(1,2) assms(3) show ?thesis by simp
  qed
next
  case (step_prune flt1 now before db n db' log)
  with prune_step assms(3) show ?thesis by simp
next
  case (step_clean flt u db d db' now log)
  have wf: "usage_wf db" using assms(3) step_clean(1) by (auto simp: world_inv_def intro: usage_inv_wf)
  show ?thesis
  proof (cases d)
    case (Inl e)
    have "db' = db" using step_clean(3) Inl delete_forgets [OF wf, of flt u d db']
      by (auto simp: clean_account_deletion_def split: sum.splits)
    with Inl step_clean assms(3) show ?thesis by simp
  next
    case (Inr x)
    have "db' = forget (of_user u) db" using step_clean(3) Inr delete_forgets [OF wf, of flt u d db']
      by (auto simp: clean_account_deletion_def split: sum.splits)
    with forget_step [of sv db now log, where P = "of_user u" and us = "ud_users db" and gs = "ud_organizations db"] Inr step_clean(1,2) assms(3)
    show ?thesis by (simp add: forget_def)
  qed
next
  case (step_new_owner db now log us gs)
  with owners_step assms(3) show ?thesis by simp
next
  case (step_owner_removed db now log t)
  with forget_step [of sv db now log, where P = "\<lambda>t'. t' = t"] assms(3) show ?thesis by simp
next
  case (step_time now later db log)
  with unchanged_step assms(3) show ?thesis by simp
qed

lemma usage_reachable_inv:
  assumes "usage_setting json digest sv" "usage_reachable json digest sv w"
  shows "world_inv sv w"
proof -
  from assms(2) obtain now where "0 \<le> now" "(usage_step json digest sv)\<^sup>*\<^sup>* (usage_start now) w"
    by (auto simp: usage_reachable_def)
  from this(2) show ?thesis
    by (induction rule: rtranclp_induct) (use start_inv [OF \<open>0 \<le> now\<close>] usage_step_inv [OF assms(1)] in blast)+
qed

subsection \<open>Event rows over time\<close>

text \<open>No step edits a stored event row, and no new row takes the id of an old one: the rows of a later
  state are rows of the earlier one or have ids the sequence gave since.\<close>

definition events_from :: "usage_db \<Rightarrow> usage_db \<Rightarrow> bool" where
  "events_from db db' \<longleftrightarrow> ud_next db \<le> ud_next db'
     \<and> (\<forall>r \<in> set (ud_events db'). r \<in> set (ud_events db) \<or> ud_next db \<le> ue_id r)"

lemma events_from_refl [simp, intro]: "events_from db db"
  by (simp add: events_from_def)

lemma events_from_trans: "events_from a b \<Longrightarrow> events_from b c \<Longrightarrow> events_from a c"
  unfolding events_from_def by (meson le_trans)

lemma events_from_subset:
  "ud_next db \<le> ud_next db' \<Longrightarrow> set (ud_events db') \<subseteq> set (ud_events db) \<Longrightarrow> events_from db db'"
  by (auto simp: events_from_def)

lemma applied_events_from: "events_from db (applied m clk db decision after)"
  by (auto simp: events_from_def applied_def Let_def)

lemma apply_events_from:
  assumes "usage_wf db" "apply_mutation flt clk False m db = (r, db')"
  shows "events_from db db'"
  using assms
proof (cases rule: apply_cases)
  case (settled rc)
  then show ?thesis by (auto simp: settles_def Let_def applied_events_from)
qed auto

lemma quota_events_from: "quota_written now t metric lim expected db q changed db' \<Longrightarrow> events_from db db'"
  by (auto simp: quota_written_def intro!: events_from_subset split: option.splits if_splits)

lemma forget_events_from: "events_from db ((forget P db)\<lparr>ud_users := us, ud_organizations := gs\<rparr>)"
  by (rule events_from_subset) (auto simp: forget_def)

lemma usage_step_events:
  assumes "usage_setting json digest sv" "usage_step json digest sv w w'" "usage_wf (uw_db w)"
  shows "events_from (uw_db w) (uw_db w')"
  using assms(2,3)
proof cases
  case (step_record flt clk now ev db r db' later log)
  from assms(1) step_record(3) show ?thesis
    by (cases rule: record_usage_cases) (use step_record assms(3) in \<open>auto intro: apply_events_from\<close>)
next
  case (step_consume flt clk now c db r db' later log)
  from assms(1) step_consume(3) show ?thesis
    by (cases rule: consume_usage_cases) (use step_consume assms(3) in \<open>auto intro: apply_events_from\<close>)
next
  case (step_set_quota flt clk t metric lim expected db q db' now later log)
  have "usage_wf db" using assms(3) step_set_quota(1) by simp
  from this step_set_quota(3) show ?thesis
    by (cases rule: set_usage_quota_cases) (use step_set_quota in \<open>auto intro: quota_events_from\<close>)
next
  case (step_reset_quota flt clk t metric expected db q db' now later log)
  have "usage_wf db" using assms(3) step_reset_quota(1) by simp
  from this step_reset_quota(3) show ?thesis
    by (cases rule: reset_usage_quota_cases) (use step_reset_quota in \<open>auto intro: quota_events_from\<close>)
next
  case (step_prune flt1 now before db n db' log)
  then show ?thesis
    by (auto simp: prune_usage_receipts_def prune_receipts_def intro!: events_from_subset split: sum.splits if_splits option.splits)
next
  case (step_clean flt u db d db' now log)
  have wf: "usage_wf db" using assms(3) step_clean(1) by simp
  have "db' = db \<or> db' = forget (of_user u) db"
    using step_clean(3) delete_forgets [OF wf, of flt u d db']
    by (auto simp: clean_account_deletion_def split: sum.splits)
  then show ?thesis
    using step_clean forget_events_from [where P = "of_user u" and db = db and us = "ud_users db" and gs = "ud_organizations db"] by (auto simp: forget_def)
next
  case (step_owner_removed db now log t)
  then show ?thesis by (simp add: forget_events_from)
qed (auto intro: events_from_subset)

lemma usage_steps_inv:
  assumes "usage_setting json digest sv" "(usage_step json digest sv)\<^sup>*\<^sup>* w w'" "world_inv sv w"
  shows "world_inv sv w' \<and> events_from (uw_db w) (uw_db w')"
  using assms(2)
proof (induction rule: rtranclp_induct)
  case (step v v')
  then have v: "world_inv sv v" "events_from (uw_db w) (uw_db v)" by simp_all
  then have "usage_wf (uw_db v)" by (auto simp: world_inv_def intro: usage_inv_wf)
  from usage_step_events [OF assms(1) step(2) this] usage_step_inv [OF assms(1) step(2) v(1)] v(2)
  show ?case by (auto intro: events_from_trans)
qed (use assms(3) in simp)

lemma usage_steps_now: "(usage_step json digest sv)\<^sup>*\<^sup>* w w' \<Longrightarrow> uw_now w \<le> uw_now w'"
proof (induction rule: rtranclp_induct)
  case (step v v')
  from step(2) have "uw_now v \<le> uw_now v'" by cases (simp_all add: readings_def)
  with step(3) show ?case by simp
qed simp

lemma stored_row_same:
  assumes "usage_wf db" "events_from db db'" "r \<in> set (ud_events db)" "ue_id r \<in> ue_id ` set (ud_events db')"
  shows "r \<in> set (ud_events db')"
proof -
  from assms(4) obtain r' where r': "r' \<in> set (ud_events db')" "ue_id r' = ue_id r" by (metis imageE)
  have "ue_id r < ud_next db" using assms(1,3) by (auto simp: usage_wf_defs)
  with assms(2) r' have "r' \<in> set (ud_events db)" by (fastforce simp: events_from_def)
  with assms(1,3) r' show ?thesis by (auto simp: usage_wf_defs distinct_map dest: inj_onD)
qed

end
