(* ===== verification/Usage_Props.thy ===== *)
theory Usage_Props
  imports Usage_World
begin

text \<open>
  The properties of the usage meter: its counters are a ledger, its rows satisfy the schema, an event
  counts once, a consumption is decided by the quota in force, a retry is answered with the receipt of
  the first call, quota writes are guarded by their version and the listed summaries add up.
\<close>

subsection \<open>Apply without database failures\<close>

abbreviation no_failure :: "nat \<Rightarrow> usage_error option" where
  "no_failure \<equiv> \<lambda>_. None"

lemma write_counter_succeeds:
  assumes "counters_wf db" "counter = find_counter (um_target m) (um_metric m) (um_periodStart m) db"
  shows "\<exists>db1. write_counter None now m counter after db = (Inr (), db1) \<and> ud_events db1 = ud_events db"
proof (cases counter)
  case (Some c)
  then have c: "c \<in> set (ud_counters db)" using assms(2) by (auto simp: find_counter_def dest: find_key_Some)
  have "distinct (map uc_id (ud_counters db))" using assms(1) by (simp add: counters_wf_def)
  note hit = hit_only [OF this c, of "counter_hit c"]
  have "length (filter (counter_hit c) (ud_counters db)) = 1" by (rule hit) (auto simp: counter_hit_def)
  with Some show ?thesis by (simp add: write_counter_def Let_def)
qed (simp add: write_counter_def)

lemma finalize_succeeds:
  assumes "distinct (map ue_id (ud_events db))" "event_columns po \<in> set (ud_events db)" "ue_decision po = decision_pending"
    and "decision = decision_accepted \<or> decision = decision_denied" "valid_target (ue_target po)"
  shows "\<exists>rc db1. finalize_receipt None now po decision before after lim db = (Inr rc, db1)"
proof -
  note hit = hit_only [OF assms(1,2), of "receipt_hit po"]
  have "length (filter (receipt_hit po) (ud_events db)) = 1"
    by (rule hit) (use assms(3) in \<open>auto simp: receipt_hit_def event_columns_def\<close>)
  with assms(4,5) show ?thesis by (auto simp: finalize_receipt_def Let_def receipt_of_def)
qed

lemma apply_succeeds:
  assumes wf: "usage_wf db" and v: "validate_mutation m = None"
    and new: "find_event (um_source m) (um_eventID m) db = None" and lock: "lock_owner None (um_target m) db = None"
    and sum: "in_safe_range (counter_value (find_counter (um_target m) (um_metric m) (um_periodStart m) db) + um_quantity m)"
  shows "\<exists>rc db'. apply_mutation no_failure clk False m db = (Inr rc, db') \<and> settles m clk db rc db'"
proof -
  let ?counter = "find_counter (um_target m) (um_metric m) (um_periodStart m) db"
  let ?lim = "effective_limit m (find_quota (um_target m) (um_metric m) db)"
  let ?po = "new_event_row (ud_next db) (clk 0) m"
  let ?db1 = "db\<lparr>ud_events := ud_events db @ [event_columns ?po], ud_next := ud_next db + 1\<rparr>"
  have q: "add_safe_quantity (counter_value ?counter) (um_quantity m) = Some (counter_value ?counter + um_quantity m)"
    unfolding add_safe_Some using counter_value_ok [OF wf] sum validate_None [OF v] by blast
  obtain decision after where dec: "decide m ?lim (counter_value ?counter) (counter_value ?counter + um_quantity m) = (decision, after)"
    by fastforce
  have find1: "find_counter (um_target m) (um_metric m) (um_periodStart m) ?db1 = ?counter"
    "find_quota (um_target m) (um_metric m) ?db1 = find_quota (um_target m) (um_metric m) db"
    "lock_owner None (um_target m) ?db1 = None"
    using lock by (simp_all add: find_counter_def find_quota_def lock_owner_def split: if_splits)
  have cwf: "counters_wf ?db1" using wf by (auto simp: usage_wf_def counters_wf_def intro: less_SucI)
  from write_counter_succeeds [OF cwf, of ?counter m "clk 1" after] find1(1)
  obtain db2 where w: "(if decision = decision_accepted then write_counter None (clk 1) m ?counter after ?db1
      else (Inr (), ?db1)) = (Inr (), db2)" "ud_events db2 = ud_events db @ [event_columns ?po]"
    by (cases "decision = decision_accepted") auto
  have "distinct (map ue_id (ud_events db2))" "event_columns ?po \<in> set (ud_events db2)" "ue_decision ?po = decision_pending"
    "valid_target (ue_target ?po)"
    using wf validate_None [OF v] by (auto simp: w(2) usage_wf_defs new_event_row_def)
  from finalize_succeeds [OF this(1-3) _ this(4), of decision "clk 2" "counter_value ?counter" after ?lim] decide_ok [OF dec]
  obtain rc db3 where fin: "finalize_receipt None (clk 2) ?po decision (counter_value ?counter) after ?lim db2 = (Inr rc, db3)"
    by auto
  have bf: "(case ?counter of None \<Rightarrow> 0 | Some c \<Rightarrow> uc_value c) = counter_value ?counter" by (simp add: counter_value_def)
  have "settle_event no_failure clk m ?po ?db1 = (Inr rc, db3)"
    by (simp only: settle_event_def Let_def find1 bf q dec w(1) fin option.case prod.case sum.case)
  then have "apply_mutation no_failure clk False m db = (Inr rc, db3)"
    using v new by (simp add: apply_mutation_def in_transaction_def apply_in_tx_def reserve_receipt_def Let_def)
  moreover from wf this have "settles m clk db rc db3"
    by (cases rule: apply_cases) (use new in simp_all)
  ultimately show ?thesis by blast
qed

text \<open>A row found under the event's identity with its fingerprint answers the retry.\<close>

lemma apply_replays:
  assumes "validate_mutation m = None" "find_event (um_source m) (um_eventID m) db = Some row"
  shows "apply_mutation no_failure clk False m db =
    (if ue_fingerprint row = um_fingerprint m then receipt_of row True else Inl ErrUsageIdempotencyConflict, db)"
  using assms by (simp add: apply_mutation_def in_transaction_def apply_in_tx_def reserve_receipt_def
      replay_receipt_def split: sum.splits)

text \<open>The receipt of a stored event: the time is read back from its column.\<close>

definition read_back :: "usage_receipt \<Rightarrow> usage_receipt" where
  "read_back rc = rc\<lparr>rc_occurredAt := column_time (rc_occurredAt rc), rc_replayed := True\<rparr>"

lemma settles_row:
  assumes "settles m clk db rc db'" "usage_wf db"
  shows "\<exists>row. find_event (um_source m) (um_eventID m) db' = Some row \<and> ue_fingerprint row = um_fingerprint m
    \<and> receipt_of row True = Inr (read_back rc)"
proof -
  let ?counter = "find_counter (um_target m) (um_metric m) (um_periodStart m) db"
  let ?lim = "effective_limit m (find_quota (um_target m) (um_metric m) db)"
  from assms(1) obtain decision after where s: "db' = applied m clk db decision after"
      "receipt_of (settled_row (new_event_row (ud_next db) (clk 0) m) decision (counter_value ?counter) after ?lim (clk 2)) False = Inr rc"
      "find_event (um_source m) (um_eventID m) db = None"
    by (auto simp: settles_def Let_def)
  let ?row = "settled_row (event_columns (new_event_row (ud_next db) (clk 0) m)) decision (counter_value ?counter) after ?lim
    (column_time (clk 2))"
  have "ud_events db' = ud_events db @ [?row]" by (simp add: s(1) applied_def Let_def)
  moreover have "find P (xs @ [x]) = (case find P xs of None \<Rightarrow> if P x then Some x else None | Some y \<Rightarrow> Some y)"
    for P and xs :: "usage_event_row list" and x
    by (induction xs) auto
  ultimately have "find_event (um_source m) (um_eventID m) db' = Some ?row"
    using s(3) by (simp add: find_event_def)
  moreover have "receipt_of ?row True = Inr (read_back rc)"
    using s(2) by (auto simp: receipt_of_def read_back_def split: if_splits)
  ultimately show ?thesis by simp
qed

subsection \<open>The mutations of the service are valid\<close>

lemma zero_time_negative: "zero_time < 0"
  by (simp add: zero_time_def year_start_def day_nanos_def)

lemma window_start_nonneg:
  assumes "valid_period p" "0 \<le> t"
  shows "0 \<le> fst (usage_period_window p t)"
proof -
  have d: "0 \<le> t div day_nanos" using assms(2) by (simp add: pos_imp_zdiv_nonneg_iff)
  have "0 \<le> month_of (t div day_nanos)"
  proof (rule ccontr)
    assume "\<not> 0 \<le> month_of (t div day_nanos)"
    then have "month_start (month_of (t div day_nanos) + 1) \<le> month_start 0" by (intro month_start_mono) simp
    with month_of_spec [of "t div day_nanos"] d show False by (simp add: month_start_0)
  qed
  then have "0 \<le> month_start (month_of (t div day_nanos))"
    using month_start_mono [of 0 "month_of (t div day_nanos)"] by (simp add: month_start_0)
  with d assms(1) show ?thesis
    by (auto simp: usage_period_window_def Let_def valid_period_def less_imp_le)
qed

lemma window_nonempty: "valid_period p \<Longrightarrow> fst (usage_period_window p t) < snd (usage_period_window p t)"
  using window_contains [of p t] by linarith

lemma consume_mutation_valid:
  assumes "usage_setting json digest sv" "available sv = Inr cat" "normalize_consumption json cat c = Inr (d, dims)" "0 \<le> now"
  shows "validate_mutation (consume_mutation digest c d dims now) = None"
proof -
  from assms(3) have n: "valid_target (cn_target c)" "valid_usage_source (cn_source c)" "valid_usage_event_id (cn_eventID c)"
      "0 < cn_quantity c" "cn_quantity c \<le> max_safe"
      "catalog_definition cat (ut_scope (cn_target c)) (cn_metric c) = Some d"
    by (auto simp: normalize_consumption_def split: if_splits option.splits sum.splits)
  from assms(2) have "sv_catalog sv = Some cat" by (simp add: available_Inr)
  from catalog_lookup [OF assms(1) this n(6)] validate_definition_Inr [of d d]
  have d: "valid_period (df_period d)" "cn_metric c \<noteq> ''''" by auto
  have "length (digest p) = 64" for p using assms(1) by (simp add: usage_setting_def)
  then have "digest p \<noteq> ''''" for p by (metis list.size(3) zero_neq_numeral)
  moreover have "fst (usage_period_window (df_period d) now) \<noteq> zero_time" "now \<noteq> zero_time"
    using window_start_nonneg [OF d(1) assms(4)] assms(4) zero_time_negative by auto
  ultimately show ?thesis
    using n d window_nonempty [OF d(1), of now]
    by (simp add: validate_mutation_def consume_mutation_def usage_fingerprint_def)
qed

lemma consume_usage_eq:
  assumes "available sv = Inr cat" "normalize_consumption json cat c = Inr (d, dims)"
  shows "consume_usage json digest flt clk False sv now c db =
    (case apply_mutation flt clk False (consume_mutation digest c d dims now) db of
       (Inl e, db1) \<Rightarrow> ((None, Some e), db1)
     | (Inr rc, db1) \<Rightarrow> ((Some rc, if rc_decision rc = decision_denied then Some ErrUsageQuotaExceeded else None), db1))"
  using assms by (auto simp: consume_usage_def split: sum.splits prod.splits)

text \<open>The limit in force: an override, or the default of the metric.\<close>

definition quota_override :: "usage_db \<Rightarrow> usage_target \<Rightarrow> string \<Rightarrow> int option" where
  "quota_override db t metric = (case find_quota t metric db of None \<Rightarrow> None | Some q \<Rightarrow> uq_limit q)"

definition quota_version :: "usage_db \<Rightarrow> usage_target \<Rightarrow> string \<Rightarrow> nat" where
  "quota_version db t metric = (case find_quota t metric db of None \<Rightarrow> 0 | Some q \<Rightarrow> uq_version q)"

definition limit_in_force :: "usage_db \<Rightarrow> usage_target \<Rightarrow> usage_definition \<Rightarrow> int option" where
  "limit_in_force db t d =
     (case quota_override db t (df_key d) of None \<Rightarrow> df_defaultLimit d | Some l \<Rightarrow> Some l)"

lemma effective_limit_in_force:
  assumes "usage_wf db" "um_target m = t" "um_metric m = df_key d" "um_defaultLimit m = df_defaultLimit d"
  shows "effective_limit m (find_quota (um_target m) (um_metric m) db) = limit_in_force db t d"
proof (cases "find_quota (um_target m) (um_metric m) db")
  case (Some q)
  with assms(1) find_quota_row [OF Some] have "uq_overridden q \<longleftrightarrow> uq_limit q \<noteq> None"
    by (auto simp: usage_wf_defs quota_row_ok_def)
  with Some assms(2-4) show ?thesis
    by (auto simp: effective_limit_def limit_in_force_def quota_override_def)
qed (use assms in \<open>auto simp: effective_limit_def limit_in_force_def quota_override_def\<close>)

lemma world_ledger:
  "world_inv sv w \<Longrightarrow> counter_value (find_counter t metric start (uw_db w)) = ledger (uw_log w) t metric start"
  by (simp add: world_inv_def usage_inv_def)

lemma world_wf: "world_inv sv w \<Longrightarrow> usage_wf (uw_db w)"
  using usage_inv_wf by (auto simp: world_inv_def)

text \<open>What a settled consumption leaves in the tables.\<close>

lemma settles_counters:
  assumes "settles m clk db rc db'" "usage_wf db"
  shows "if rc_decision rc = decision_accepted
    then counter_value (find_counter (um_target m) (um_metric m) (um_periodStart m) db') = rc_after rc
    else ud_counters db' = ud_counters db"
proof -
  let ?counter = "find_counter (um_target m) (um_metric m) (um_periodStart m) db"
  let ?lim = "effective_limit m (find_quota (um_target m) (um_metric m) db)"
  from assms(1) obtain decision after where s: "db' = applied m clk db decision after"
      "receipt_of (settled_row (new_event_row (ud_next db) (clk 0) m) decision (counter_value ?counter) after ?lim (clk 2)) False = Inr rc"
    by (auto simp: settles_def Let_def)
  from receipt_of_fields [OF s(2)] have f: "rc_decision rc = decision" "rc_after rc = after" by simp_all
  show ?thesis
  proof (cases "decision = decision_accepted")
    case True
    have "counters_wf db" using assms(2) by (simp add: usage_wf_def)
    moreover from True have "ud_counters db' = applied_counters (clk 1) m ?counter after (ud_next db + 1) (ud_counters db)"
      by (simp add: s(1) applied_def Let_def)
    ultimately show ?thesis using find_applied_counter [OF _ refl] True f by simp
  qed (use f in \<open>simp add: s(1) applied_def Let_def\<close>)
qed

subsection \<open>The ledger\<close>

text \<open>C4: In every state the meter can reach, the counter of a target, a metric and a window is the sum of
  the quantities of the events accepted for it (zero when there is no counter row).\<close>

theorem usage_counters_equal_ledger:
  assumes "usage_setting json digest sv" "usage_reachable json digest sv w"
  shows "\<forall>t metric start. counter_value (find_counter t metric start (uw_db w)) = ledger (uw_log w) t metric start"
  using world_ledger [OF usage_reachable_inv [OF assms]] by blast

text \<open>C40: In every reachable state the rows satisfy the check constraints and unique indexes of the schema,
  and no receipt is left reserved.\<close>

theorem usage_rows_satisfy_schema:
  assumes "usage_setting json digest sv" "usage_reachable json digest sv w"
  shows "(\<forall>r \<in> set (ud_events (uw_db w)). event_row_ok r \<and> ue_decision r \<noteq> decision_pending)
    \<and> (\<forall>c \<in> set (ud_counters (uw_db w)). counter_row_ok c) \<and> (\<forall>q \<in> set (ud_quotas (uw_db w)). quota_row_ok q)
    \<and> distinct (map event_key (ud_events (uw_db w))) \<and> distinct (map counter_key (ud_counters (uw_db w)))
    \<and> distinct (map quota_key (ud_quotas (uw_db w))) \<and> distinct (map ue_id (ud_events (uw_db w)))"
  using world_wf [OF usage_reachable_inv [OF assms]] by (simp add: usage_wf_defs)

text \<open>C5: An event is counted at most once: no two entries of the ledger have the same source, event id and
  occurrence time, although receipts are pruned.\<close>

theorem usage_event_counted_once:
  assumes "usage_setting json digest sv" "usage_reachable json digest sv w"
  shows "distinct (map receipt_key (uw_log w))"
  using usage_reachable_inv [OF assms] by (simp add: world_inv_def log_ok_def)

subsection \<open>Consumption\<close>

text \<open>C10: A new valid consumption of an existing owner, with no database failure, is answered with a receipt
  and is refused exactly when the ledger and the quantity exceed the limit in force; a refusal leaves the
  counters alone, an acceptance moves the counter to the sum.\<close>

theorem usage_consume_decides_by_quota:
  assumes "usage_setting json digest sv" "usage_reachable json digest sv w"
    and "available sv = Inr cat" "normalize_consumption json cat c = Inr (d, dims)"
    and "find_event (cn_source c) (cn_eventID c) (uw_db w) = None" "lock_owner None (cn_target c) (uw_db w) = None"
    and "ledger (uw_log w) (cn_target c) (cn_metric c) (fst (usage_period_window (df_period d) (uw_now w))) + cn_quantity c \<le> max_safe"
  shows "\<exists>rc db'. consume_usage json digest no_failure clk False sv (uw_now w) c (uw_db w) =
      ((Some rc, if rc_decision rc = decision_denied then Some ErrUsageQuotaExceeded else None), db')
    \<and> rc_before rc = ledger (uw_log w) (cn_target c) (cn_metric c) (fst (usage_period_window (df_period d) (uw_now w)))
    \<and> rc_limit rc = limit_in_force (uw_db w) (cn_target c) d
    \<and> (if \<exists>l. limit_in_force (uw_db w) (cn_target c) d = Some l \<and> l < rc_before rc + cn_quantity c
       then rc_decision rc = decision_denied \<and> rc_after rc = rc_before rc \<and> ud_counters db' = ud_counters (uw_db w)
       else rc_decision rc = decision_accepted \<and> rc_after rc = rc_before rc + cn_quantity c
         \<and> counter_value (find_counter (cn_target c) (cn_metric c)
              (fst (usage_period_window (df_period d) (uw_now w))) db') = rc_before rc + cn_quantity c)"
proof -
  let ?m = "consume_mutation digest c d dims (uw_now w)"
  note inv = usage_reachable_inv [OF assms(1,2)]
  note wf = world_wf [OF inv]
  have fields: "um_source ?m = cn_source c" "um_eventID ?m = cn_eventID c" "um_target ?m = cn_target c"
      "um_metric ?m = cn_metric c" "um_quantity ?m = cn_quantity c" "um_operation ?m = op_consume"
      "um_periodStart ?m = fst (usage_period_window (df_period d) (uw_now w))" "um_defaultLimit ?m = df_defaultLimit d"
    by (simp_all add: consume_mutation_def)
  have now: "0 \<le> uw_now w" using inv by (simp add: world_inv_def)
  note v = consume_mutation_valid [OF assms(1,3,4) now]
  from assms(4) have n: "0 < cn_quantity c" "catalog_definition cat (ut_scope (cn_target c)) (cn_metric c) = Some d"
    by (auto simp: normalize_consumption_def split: if_splits option.splits sum.splits)
  have "sv_catalog sv = Some cat" using assms(3) by (simp add: available_Inr)
  from catalog_lookup [OF assms(1) this n(2)] have key: "cn_metric c = df_key d" by simp
  have "in_safe_range (counter_value (find_counter (um_target ?m) (um_metric ?m) (um_periodStart ?m) (uw_db w)) + um_quantity ?m)"
    using counter_value_ok [OF wf, of "um_target ?m" "um_metric ?m" "um_periodStart ?m"] assms(7) n(1)
    by (simp add: world_ledger [OF inv] fields in_safe_range_def)
  from apply_succeeds [OF wf v _ _ this, of clk] assms(5,6) obtain rc db' where
      a: "apply_mutation no_failure clk False ?m (uw_db w) = (Inr rc, db')" "settles ?m clk (uw_db w) rc db'"
    by (auto simp: fields)
  have lim: "effective_limit ?m (find_quota (um_target ?m) (um_metric ?m) (uw_db w)) = limit_in_force (uw_db w) (cn_target c) d"
    by (rule effective_limit_in_force [OF wf]) (simp_all add: fields key)
  note r = settles_receipt [OF a(2), unfolded lim world_ledger [OF inv], unfolded fields] settles_counters [OF a(2) wf, unfolded fields]
  show ?thesis
    by (intro exI [of _ rc] exI [of _ db'])
      (use r in \<open>auto simp: consume_usage_eq [OF assms(3,4)] a(1) split: if_splits\<close>)
qed

text \<open>An event that was answered has a row, and its receipt is that row's.\<close>

lemma answered_row:
  assumes "usage_wf db" "times_ok db" "apply_mutation flt clk False m db = (Inr rc, db1)"
  obtains row where "find_event (um_source m) (um_eventID m) db1 = Some row" "ue_fingerprint row = um_fingerprint m"
    "receipt_of row True = Inr (read_back rc)"
  using assms(1,3)
proof (cases rule: apply_cases)
  case (replayed row rc')
  from replayed(3) have "row \<in> set (ud_events db)" by (auto simp: find_event_def dest: find_key_Some)
  with assms(2) have "column_time (ue_occurredAt row) = ue_occurredAt row" by (simp add: times_ok_def)
  with replayed(1,5) receipt_of_fields [OF replayed(5)] have "receipt_of row True = Inr (read_back rc)"
    by (simp add: read_back_def)
  with replayed that [of row] show thesis by simp
next
  case (settled rc')
  with settles_row [OF settled(3) assms(1)] that show thesis by blast
qed simp

lemma find_event_row: "find_event source eventID db = Some r \<Longrightarrow> r \<in> set (ud_events db) \<and> event_key r = (source, eventID)"
  by (auto simp: find_event_def dest: find_key_Some)

lemma find_event_unique:
  assumes "usage_wf db" "r \<in> set (ud_events db)" "event_key r = (source, eventID)"
  shows "find_event source eventID db = Some r"
proof -
  have d: "distinct (map event_key (ud_events db))" using assms(1) by (simp add: usage_wf_defs)
  show ?thesis
  proof (cases "find_event source eventID db")
    case None
    with assms(2,3) show ?thesis by (auto simp: find_event_def find_None_iff)
  next
    case (Some r')
    from find_event_row [OF this] d assms(2,3) have "r' = r" by (auto simp: distinct_map dest: inj_onD)
    with Some show ?thesis by simp
  qed
qed

definition still_stored :: "string \<Rightarrow> string \<Rightarrow> usage_db \<Rightarrow> usage_db \<Rightarrow> bool" where
  "still_stored source eventID db db' \<longleftrightarrow>
     (case find_event source eventID db of None \<Rightarrow> False | Some r \<Rightarrow> ue_id r \<in> ue_id ` set (ud_events db'))"

lemma later_replay:
  assumes "usage_setting json digest sv" "world_inv sv w1" "usage_wf db" "times_ok db"
    and a: "apply_mutation flt clk False m db = (Inr rc, uw_db w1)"
    and run: "(usage_step json digest sv)\<^sup>*\<^sup>* w1 w2" "still_stored (um_source m) (um_eventID m) (uw_db w1) (uw_db w2)"
    and m': "validate_mutation m' = None" "um_source m' = um_source m" "um_eventID m' = um_eventID m"
      "um_fingerprint m' = um_fingerprint m"
  shows "apply_mutation no_failure clk' False m' (uw_db w2) = (Inr (read_back rc), uw_db w2)"
proof -
  from answered_row [OF assms(3,4) a] obtain row where
    row: "find_event (um_source m) (um_eventID m) (uw_db w1) = Some row" "ue_fingerprint row = um_fingerprint m"
      "receipt_of row True = Inr (read_back rc)" .
  note here = find_event_row [OF row(1)]
  from usage_steps_inv [OF assms(1) run(1) assms(2)] have inv: "world_inv sv w2" "events_from (uw_db w1) (uw_db w2)" by simp_all
  have "ue_id row \<in> ue_id ` set (ud_events (uw_db w2))" using run(2) row(1) by (simp add: still_stored_def)
  with stored_row_same [OF world_wf [OF assms(2)] inv(2)] here have "row \<in> set (ud_events (uw_db w2))" by blast
  from find_event_unique [OF world_wf [OF inv(1)] this] here
  have "find_event (um_source m') (um_eventID m') (uw_db w2) = Some row" by (simp add: m')
  from apply_replays [OF m'(1) this] row(2,3) m'(4) show ?thesis by simp
qed

text \<open>C31: As long as the row of an answered event is stored, a retry is answered with the receipt of that row and changes
  nothing. Take a call that was answered in a reachable world, with any failures it survived, and any run of the
  service after it: calls of any clients, quota changes, pruning, removed owners, the passing of time. If the row the
  call left is still there, a consumption is answered with the same receipt and the same verdict, at any time; a
  recorded event with the same occurrence time, while it is young enough to be recorded. The receipt is marked as
  replayed, and its time is the one read back from the column.\<close>

theorem usage_retries_replay_the_receipt:
  assumes "usage_setting json digest sv" "usage_reachable json digest sv w" "readings (uw_now w) clk t"
    and run: "(usage_step json digest sv)\<^sup>*\<^sup>* w1 w2"
  shows "(consume_usage json digest flt clk False sv (uw_now w) c (uw_db w) = ((Some rc, err), db1)
        \<and> w1 = \<lparr>uw_db = db1, uw_now = t, uw_log = uw_log w @ logged_consumption (Some rc, err)\<rparr>
        \<and> still_stored (cn_source c) (cn_eventID c) db1 (uw_db w2)
      \<longrightarrow> consume_usage json digest no_failure clk' False sv (uw_now w2) c (uw_db w2) = ((Some (read_back rc), err), uw_db w2))
    \<and> (record_usage json digest flt clk False sv (uw_now w) ev (uw_db w) = (Inr rc, db1)
        \<and> w1 = \<lparr>uw_db = db1, uw_now = t, uw_log = uw_log w @ logged (Inr rc)\<rparr>
        \<and> still_stored (ev_source ev) (ev_eventID ev) db1 (uw_db w2) \<and> uw_now w2 \<le> ev_occurredAt ev + max_event_age
      \<longrightarrow> record_usage json digest no_failure clk' False sv (uw_now w2) ev (uw_db w2) = (Inr (read_back rc), uw_db w2))"
proof (intro conjI impI)
  note inv = usage_reachable_inv [OF assms(1,2)]
  note wf = world_wf [OF inv]
  have times: "times_ok (uw_db w)" using inv by (simp add: world_inv_def)
  {
    assume call: "consume_usage json digest flt clk False sv (uw_now w) c (uw_db w) = ((Some rc, err), db1)
        \<and> w1 = \<lparr>uw_db = db1, uw_now = t, uw_log = uw_log w @ logged_consumption (Some rc, err)\<rparr>
        \<and> still_stored (cn_source c) (cn_eventID c) db1 (uw_db w2)"
    then have "usage_step json digest sv \<lparr>uw_db = uw_db w, uw_now = uw_now w, uw_log = uw_log w\<rparr> w1"
      using step_consume [OF _ assms(3)] by blast
    then have "usage_step json digest sv w w1" by (cases w) simp
    from usage_step_inv [OF assms(1) this inv] have inv1: "world_inv sv w1" .
    from usage_steps_inv [OF assms(1) run inv1] have now: "0 \<le> uw_now w2" by (simp add: world_inv_def)
    from call obtain cat d dims where n: "available sv = Inr cat" "normalize_consumption json cat c = Inr (d, dims)"
      by (auto simp: consume_usage_def split: sum.splits)
    from call have a: "apply_mutation flt clk False (consume_mutation digest c d dims (uw_now w)) (uw_db w) = (Inr rc, uw_db w1)"
        and err: "err = (if rc_decision rc = decision_denied then Some ErrUsageQuotaExceeded else None)"
      by (auto simp: consume_usage_eq [OF n] split: sum.splits prod.splits)
    have "apply_mutation no_failure clk' False (consume_mutation digest c d dims (uw_now w2)) (uw_db w2)
        = (Inr (read_back rc), uw_db w2)"
      by (rule later_replay [OF assms(1) inv1 wf times a run _ consume_mutation_valid [OF assms(1) n now]])
        (use call in \<open>simp_all add: consume_mutation_def\<close>)
    then show "consume_usage json digest no_failure clk' False sv (uw_now w2) c (uw_db w2)
        = ((Some (read_back rc), err), uw_db w2)"
      by (simp add: consume_usage_eq [OF n] err read_back_def)
  }
  {
    assume call: "record_usage json digest flt clk False sv (uw_now w) ev (uw_db w) = (Inr rc, db1)
        \<and> w1 = \<lparr>uw_db = db1, uw_now = t, uw_log = uw_log w @ logged (Inr rc)\<rparr>
        \<and> still_stored (ev_source ev) (ev_eventID ev) db1 (uw_db w2) \<and> uw_now w2 \<le> ev_occurredAt ev + max_event_age"
    then have "usage_step json digest sv \<lparr>uw_db = uw_db w, uw_now = uw_now w, uw_log = uw_log w\<rparr> w1"
      using step_record [OF _ assms(3)] by blast
    then have "usage_step json digest sv w w1" by (cases w) simp
    from usage_step_inv [OF assms(1) this inv] have inv1: "world_inv sv w1" .
    have "uw_now w \<le> uw_now w1" using call assms(3) by (simp add: readings_def)
    with usage_steps_now [OF run] have later: "uw_now w \<le> uw_now w2" by linarith
    from call obtain cat d dims oc where n: "available sv = Inr cat" "normalize_record json cat (uw_now w) ev = Inr (d, dims, oc)"
      by (auto simp: record_usage_def split: sum.splits)
    then have n': "normalize_record json cat (uw_now w2) ev = Inr (d, dims, oc)"
      using call later by (auto simp: normalize_record_def split: if_splits option.splits sum.splits)
    from call n have a: "apply_mutation flt clk False (record_mutation digest ev d dims oc) (uw_db w) = (Inr rc, uw_db w1)"
      by (simp add: record_usage_def)
    then have valid: "validate_mutation (record_mutation digest ev d dims oc) = None"
      by (auto simp: apply_mutation_def split: option.splits)
    have "apply_mutation no_failure clk' False (record_mutation digest ev d dims oc) (uw_db w2)
        = (Inr (read_back rc), uw_db w2)"
      by (rule later_replay [OF assms(1) inv1 wf times a run _ valid]) (use call in \<open>simp_all add: record_mutation_def\<close>)
    with n(1) n' show "record_usage json digest no_failure clk' False sv (uw_now w2) ev (uw_db w2)
        = (Inr (read_back rc), uw_db w2)"
      by (simp add: record_usage_def)
  }
qed

subsection \<open>Quotas\<close>

lemma find_quota_written:
  assumes "quota_written now t metric lim expected db rec changed db'" "usage_wf db" "0 \<le> now" "times_ok db"
  shows "expected = quota_version db t metric \<and> changed = (quota_override db t metric \<noteq> lim)
    \<and> quota_override db' t metric = lim \<and> quota_version db' t metric = expected + (if changed then 1 else 0)
    \<and> (\<forall>t' metric'. (t', metric') \<noteq> (t, metric) \<longrightarrow> find_quota t' metric' db' = find_quota t' metric' db)
    \<and> (case rec of None \<Rightarrow> lim = None \<and> expected = 0 \<and> \<not> changed
       | Some q \<Rightarrow> qr_limit q = lim \<and> qr_overridden q = (lim \<noteq> None) \<and> qr_version q = quota_version db' t metric
           \<and> 0 < qr_version q \<and> 0 \<le> qr_updatedAt q)"
proof (cases "find_quota t metric db")
  case None
  have app: "find P (xs @ [x]) = (case find P xs of None \<Rightarrow> if P x then Some x else None | Some y \<Rightarrow> Some y)"
    for P and xs :: "usage_quota_row list" and x
    by (induction xs) auto
  show ?thesis
  proof (cases lim)
    case (Some l)
    with assms(1) None have w: "expected = 0" "changed" "rec = Some (quota_record (new_quota_row (ud_next db) now t metric l))"
        "db' = db\<lparr>ud_quotas := ud_quotas db @ [new_quota_row (ud_next db) now t metric l], ud_next := ud_next db + 1\<rparr>"
      by (simp_all add: quota_written_def)
    have "find_quota t' metric' db' = (if (t', metric') = (t, metric)
        then Some (new_quota_row (ud_next db) now t metric l) else find_quota t' metric' db)" for t' metric'
      using None by (auto simp: find_quota_def w(4) app new_quota_row_def split: option.splits)
    then show ?thesis using w Some None assms(3)
      by (simp add: quota_version_def quota_override_def quota_record_def new_quota_row_def)
  next
    case nolim: None
    with assms(1) None show ?thesis by (auto simp: quota_written_def quota_version_def quota_override_def)
  qed
next
  case (Some po)
  then have po: "po \<in> set (ud_quotas db)" "quota_key po = (t, metric)" using find_quota_row by blast+
  have ok: "quota_row_ok po" "0 \<le> uq_updatedAt po" using assms(2,4) po by (auto simp: usage_wf_defs times_ok_def)
  show ?thesis
  proof (cases "uq_limit po = lim")
    case True
    with assms(1) Some ok show ?thesis
      by (auto simp: quota_written_def quota_version_def quota_override_def quota_record_def quota_row_ok_def)
  next
    case False
    with assms(1) Some have w: "expected = uq_version po" "changed" "rec = Some (quota_record (updated_quota po lim now))"
        "db' = db\<lparr>ud_quotas := map (\<lambda>r. if r = po then updated_quota po lim now else r) (ud_quotas db)\<rparr>"
      by (simp_all add: quota_written_def)
    have upd: "find P (map (\<lambda>r. if r = po then updated_quota po lim now else r) xs)
        = map_option (\<lambda>r. if r = po then updated_quota po lim now else r) (find P xs)"
      if "P (updated_quota po lim now) = P po" for P xs
      using that by (induction xs) auto
    have f: "find_quota t' metric' db' = map_option (\<lambda>r. if r = po then updated_quota po lim now else r) (find_quota t' metric' db)"
      for t' metric'
      using upd [of "\<lambda>r. uq_target r = t' \<and> uq_metric r = metric'" "ud_quotas db"]
      by (simp add: find_quota_def w(4) updated_quota_def)
    have "find_quota t' metric' db' = find_quota t' metric' db" if "(t', metric') \<noteq> (t, metric)" for t' metric'
      using f [of t' metric'] po(2) find_quota_row [of t' metric' db] that
      by (cases "find_quota t' metric' db") auto
    moreover have "find_quota t metric db' = Some (updated_quota po lim now)" using f [of t metric] Some by simp
    ultimately show ?thesis using w False Some assms(3)
      by (simp add: quota_version_def quota_override_def quota_record_def updated_quota_def)
  qed
qed

lemma effective_quota_written:
  assumes "case rec of None \<Rightarrow> ver = 0 | Some q \<Rightarrow> qr_overridden q = (qr_limit q \<noteq> None) \<and> limit_ok (qr_limit q)
      \<and> qr_version q = ver \<and> 0 < qr_version q \<and> 0 \<le> qr_updatedAt q"
  shows "\<exists>qt. effective_quota t d rec = Inr qt \<and> qt_version qt = ver
    \<and> qt_limit qt = (case rec of None \<Rightarrow> df_defaultLimit d | Some q \<Rightarrow> (case qr_limit q of None \<Rightarrow> df_defaultLimit d | Some l \<Rightarrow> Some l))
    \<and> qt_source qt = (case rec of None \<Rightarrow> quota_source_default
        | Some q \<Rightarrow> (if qr_limit q = None then quota_source_default else quota_source_override))"
  using assms zero_time_negative
  by (cases rec) (auto simp: effective_quota_def Let_def limit_ok_def in_safe_range_def split: option.splits)

text \<open>What a quota write must do: nothing on an error; otherwise the version asked for was the current one,
  the override is \<open>lim\<close>, the version is raised exactly by a change, and nothing else moves.\<close>

definition quota_outcome ::
    "usage_definition \<Rightarrow> usage_target \<Rightarrow> string \<Rightarrow> int option \<Rightarrow> nat \<Rightarrow> usage_db
     \<Rightarrow> (usage_error + usage_quota \<times> bool) \<Rightarrow> usage_db \<Rightarrow> bool" where
  "quota_outcome d t metric lim expected db q db' \<longleftrightarrow>
     (case q of
        Inl e \<Rightarrow> db' = db
      | Inr (qt, changed) \<Rightarrow>
          expected = quota_version db t metric \<and> changed = (quota_override db t metric \<noteq> lim)
          \<and> quota_override db' t metric = lim \<and> quota_version db' t metric = expected + (if changed then 1 else 0)
          \<and> qt_version qt = quota_version db' t metric
          \<and> qt_limit qt = (case lim of None \<Rightarrow> df_defaultLimit d | Some l \<Rightarrow> Some l)
          \<and> (\<forall>t' metric'. (t', metric') \<noteq> (t, metric) \<longrightarrow> find_quota t' metric' db' = find_quota t' metric' db)
          \<and> ud_events db' = ud_events db \<and> ud_counters db' = ud_counters db)"

lemma quota_written_outcome:
  assumes "world_inv sv w" "quota_written now t metric lim expected (uw_db w) rec changed db'" "0 \<le> now"
    and "valid_target t" "limit_ok lim"
  shows "quota_outcome d t metric lim expected (uw_db w) (map_sum id (\<lambda>q. (q, changed)) (effective_quota t d rec)) db'
    \<and> isl (effective_quota t d rec) = False"
proof -
  note wf = world_wf [OF assms(1)]
  have "times_ok (uw_db w)" using assms(1) by (simp add: world_inv_def)
  note f = find_quota_written [OF assms(2) wf assms(3) this]
  have r: "case rec of None \<Rightarrow> lim = None \<and> expected = 0 \<and> \<not> changed
       | Some q \<Rightarrow> qr_limit q = lim \<and> qr_overridden q = (lim \<noteq> None) \<and> qr_version q = quota_version db' t metric
           \<and> 0 < qr_version q \<and> 0 \<le> qr_updatedAt q"
    using f by blast
  have ver: "quota_version db' t metric = expected + (if changed then 1 else 0)" using f by blast
  have "case rec of None \<Rightarrow> quota_version db' t metric = 0 | Some q \<Rightarrow> qr_overridden q = (qr_limit q \<noteq> None)
      \<and> limit_ok (qr_limit q) \<and> qr_version q = quota_version db' t metric \<and> 0 < qr_version q \<and> 0 \<le> qr_updatedAt q"
    using r ver assms(5) by (cases rec) auto
  from effective_quota_written [OF this, of t d] obtain qt where q: "effective_quota t d rec = Inr qt"
      "qt_version qt = quota_version db' t metric"
      "qt_limit qt = (case rec of None \<Rightarrow> df_defaultLimit d | Some q \<Rightarrow> (case qr_limit q of None \<Rightarrow> df_defaultLimit d | Some l \<Rightarrow> Some l))"
    by blast
  have "qt_limit qt = (case lim of None \<Rightarrow> df_defaultLimit d | Some l \<Rightarrow> Some l)"
    using q(3) r by (cases rec) simp_all
  with q f quota_written_wf [OF wf assms(4,5,2)] show ?thesis by (simp add: quota_outcome_def)
qed

lemma set_quota_succeeds:
  assumes "usage_wf db" "valid_target t" "metric \<noteq> ''''" "in_safe_range lim" "lock_owner None t db = None"
  shows "set_quota no_failure clk False t metric lim expected db = (if expected = quota_version db t metric
      then (let r = set_quota_in_tx no_failure clk t metric lim expected db in (Inr (projr (fst r)), snd r))
      else (Inl ErrUsageQuotaVersionConflict, db))"
proof (cases "find_quota t metric db")
  case None
  with assms show ?thesis
    by (simp add: set_quota_def in_transaction_def set_quota_in_tx_def quota_version_def in_safe_range_def Let_def)
next
  case (Some po)
  then have po: "po \<in> set (ud_quotas db)" using find_quota_row by blast
  have "distinct (map uq_id (ud_quotas db))" using assms(1) by (simp add: usage_wf_defs)
  note hit = hit_only [OF this po, of "quota_hit po"]
  have "length (filter (quota_hit po) (ud_quotas db)) = 1" by (rule hit) (auto simp: quota_hit_def)
  with assms(2-5) Some show ?thesis
    by (simp add: set_quota_def in_transaction_def set_quota_in_tx_def quota_version_def in_safe_range_def update_quota_def Let_def)
qed

text \<open>C33: Quota writes are guarded by their version. A set or reset that answers a quota had the current version,
  leaves the override asked for and raises the version exactly when something changed; one that fails changes
  nothing; and without a database failure a valid set of an existing owner is refused exactly for a stale version.\<close>

theorem usage_quota_writes_are_versioned:
  assumes "usage_setting json digest sv" "usage_reachable json digest sv w" "readings (uw_now w) clk later"
    and "available sv = Inr cat" "catalog_definition cat (ut_scope t) metric = Some d" "valid_target t" "in_safe_range lim"
  shows "quota_outcome d t metric (Some lim) expected (uw_db w)
      (fst (set_usage_quota flt clk False sv t metric lim expected (uw_db w)))
      (snd (set_usage_quota flt clk False sv t metric lim expected (uw_db w)))
    \<and> quota_outcome d t metric None expected (uw_db w)
      (fst (reset_usage_quota flt clk False sv t metric expected (uw_db w)))
      (snd (reset_usage_quota flt clk False sv t metric expected (uw_db w)))
    \<and> (lock_owner None t (uw_db w) = None \<longrightarrow>
       (if expected = quota_version (uw_db w) t metric
        then isl (fst (set_usage_quota no_failure clk False sv t metric lim expected (uw_db w))) = False
        else set_usage_quota no_failure clk False sv t metric lim expected (uw_db w) = (Inl ErrUsageQuotaVersionConflict, uw_db w)))"
proof -
  note inv = usage_reachable_inv [OF assms(1,2)]
  note wf = world_wf [OF inv]
  have at: "0 \<le> clk 0"
  proof -
    have "0 \<le> uw_now w" "uw_now w \<le> clk 0" using inv assms(3) by (simp_all add: world_inv_def readings_def)
    then show ?thesis by linarith
  qed
  have sv: "sv_catalog sv = Some cat" using assms(4) by (simp add: available_Inr)
  have lo: "limit_ok (Some lim)" "limit_ok None" using assms(7) by (simp_all add: limit_ok_def)
  have set1: "quota_outcome d t metric (Some lim) expected (uw_db w) q db'"
    if "set_usage_quota f clk False sv t metric lim expected (uw_db w) = (q, db')" for f q db'
    using wf that
  proof (cases rule: set_usage_quota_cases)
    case (written d' rec changed)
    with quota_written_outcome [OF inv written(4) at assms(6) lo(1), of d] sv assms(5) show ?thesis by simp
  qed (simp add: quota_outcome_def)
  have reset1: "quota_outcome d t metric None expected (uw_db w) q db'"
    if "reset_usage_quota flt clk False sv t metric expected (uw_db w) = (q, db')" for q db'
    using wf that
  proof (cases rule: reset_usage_quota_cases)
    case (written d' rec changed)
    with quota_written_outcome [OF inv written(3) at assms(6) lo(2), of d] sv assms(5) show ?thesis by simp
  qed (simp add: quota_outcome_def)
  have versioned: "if expected = quota_version (uw_db w) t metric
        then isl (fst (set_usage_quota no_failure clk False sv t metric lim expected (uw_db w))) = False
        else set_usage_quota no_failure clk False sv t metric lim expected (uw_db w) = (Inl ErrUsageQuotaVersionConflict, uw_db w)"
    if lock: "lock_owner None t (uw_db w) = None"
  proof -
    have m: "metric \<noteq> ''''" using catalog_lookup [OF assms(1) sv assms(5)] validate_definition_Inr [of d d] by auto
    note s = set_quota_succeeds [OF wf assms(6) m assms(7) lock, of clk expected]
    have guard: "\<not> (\<not> valid_target t \<or> lim < 0 \<or> lim > max_safe)" using assms(6,7) by (simp add: in_safe_range_def)
    have "isl (fst (set_usage_quota no_failure clk False sv t metric lim expected (uw_db w))) = False"
      if "expected = quota_version (uw_db w) t metric"
    proof -
      from s that obtain rec changed db' where x: "set_quota no_failure clk False t metric lim expected (uw_db w) = (Inr (rec, changed), db')"
        by (metis (full_types) surj_pair)
      from set_quota_cases [OF wf x] have "quota_written (clk 0) t metric (Some lim) expected (uw_db w) rec changed db'" by auto
      from quota_written_outcome [OF inv this at assms(6) lo(1), of d] x guard assms(4,5) show ?thesis
        by (cases "effective_quota t d rec") (simp_all add: set_usage_quota_def)
    qed
    moreover have "set_usage_quota no_failure clk False sv t metric lim expected (uw_db w) = (Inl ErrUsageQuotaVersionConflict, uw_db w)"
      if "expected \<noteq> quota_version (uw_db w) t metric"
      using s that guard assms(4,5) by (simp add: set_usage_quota_def)
    ultimately show ?thesis by simp
  qed
  obtain q1 db1 where s1: "set_usage_quota flt clk False sv t metric lim expected (uw_db w) = (q1, db1)" by fastforce
  obtain q2 db2 where s2: "reset_usage_quota flt clk False sv t metric expected (uw_db w) = (q2, db2)" by fastforce
  have "quota_outcome d t metric (Some lim) expected (uw_db w) q1 db1" by (rule set1 [OF s1])
  moreover have "quota_outcome d t metric None expected (uw_db w) q2 db2" by (rule reset1 [OF s2])
  ultimately show ?thesis unfolding s1 s2 fst_conv snd_conv using versioned by blast
qed

subsection \<open>Listing\<close>

lemma fold_rows:
  "\<forall>r \<in> set xs. key r = k \<longrightarrow> r = r0 \<Longrightarrow>
   fold (\<lambda>r f. f(key r \<mapsto> v r)) xs m k = (if r0 \<in> set xs \<and> key r0 = k then Some (v r0) else m k)"
proof (induction xs arbitrary: m)
  case (Cons x xs)
  then have tl: "\<forall>r \<in> set xs. key r = k \<longrightarrow> r = r0" and x: "key x = k \<Longrightarrow> x = r0" by (simp, metis list.set_intros(1))
  show ?case
  proof (cases "key x = k")
    case True
    with x have "x = r0" by blast
    with True Cons.IH [OF tl, of "m(key x \<mapsto> v x)"] show ?thesis by simp
  next
    case False
    then have "r0 = x \<Longrightarrow> key r0 \<noteq> k" by blast
    with False Cons.IH [OF tl, of "m(key x \<mapsto> v x)"] show ?thesis by (cases "key r0 = k") auto
  qed
qed simp

text \<open>The counter that the listing finds for a metric is the one of the current window.\<close>

lemma listed_counter:
  assumes "usage_setting json digest sv" "world_inv sv w" "sv_catalog sv = Some cat"
    and "catalog_definition cat (ut_scope t) (df_key d) = Some d" "df_key d \<in> set metrics"
  shows "fold (\<lambda>r f. f(uc_metric r \<mapsto> counter_record r))
      (filter (\<lambda>r. uc_target r = t \<and> uc_metric r \<in> set metrics \<and> uc_periodStart r \<le> uw_now w \<and> uw_now w < uc_periodEnd r)
        (ud_counters (uw_db w))) Map.empty (df_key d)
    = map_option counter_record (find_counter t (df_key d) (fst (usage_period_window (df_period d) (uw_now w))) (uw_db w))"
    (is "fold _ (filter ?P ?cs) _ _ = map_option _ (find_counter _ _ ?start _)")
proof -
  have p: "valid_period (df_period d)"
    using catalog_lookup [OF assms(1,3,4)] validate_definition_Inr [of d d] by blast
  have wf: "distinct (map counter_key ?cs)" using world_wf [OF assms(2)] by (simp add: usage_wf_defs)
  have win: "\<exists>u. (uc_periodStart c, uc_periodEnd c) = usage_period_window (df_period d) u"
    if "c \<in> set ?cs" "uc_target c = t" "uc_metric c = df_key d" for c
    using assms(2-4) that by (auto simp: world_inv_def windows_ok_def)
  have same: "?P c \<longleftrightarrow> uc_periodStart c = ?start" if c: "c \<in> set ?cs" "uc_target c = t" "uc_metric c = df_key d" for c
  proof -
    from win [OF c] obtain u where u: "uc_periodStart c = fst (usage_period_window (df_period d) u)"
        "uc_periodEnd c = snd (usage_period_window (df_period d) u)" by (metis fst_conv snd_conv)
    note at = window_contains [OF p, of u] window_contains [OF p, of "uw_now w"]
    show ?thesis
    proof
      assume "?P c"
      with u window_same [OF p, of u "uw_now w"] show "uc_periodStart c = ?start" by simp
    next
      assume s: "uc_periodStart c = ?start"
      have "usage_period_window (df_period d) ?start = usage_period_window (df_period d) u"
        using window_same [OF p, of u ?start] s u at(1) by simp
      moreover have "usage_period_window (df_period d) ?start = usage_period_window (df_period d) (uw_now w)"
        using window_same [OF p, of "uw_now w" ?start] at(2) by simp
      ultimately show "?P c" using u c assms(5) at(2) by simp
    qed
  qed
  show ?thesis
  proof (cases "find_counter t (df_key d) ?start (uw_db w)")
    case None
    then have "\<forall>c \<in> set ?cs. counter_key c \<noteq> (t, df_key d, ?start)"
      by (auto simp: find_counter_def find_key_None)
    with same have "\<forall>c \<in> set (filter ?P ?cs). uc_metric c \<noteq> df_key d" by auto
    then have "fold (\<lambda>r f. f(uc_metric r \<mapsto> counter_record r)) (filter ?P ?cs) Map.empty (df_key d) = None"
      using fold_rows [of "filter ?P ?cs" uc_metric "df_key d" undefined counter_record Map.empty] by auto
    with None show ?thesis by simp
  next
    case (Some c0)
    then have c0: "c0 \<in> set ?cs" "counter_key c0 = (t, df_key d, ?start)" using find_counter_row by blast+
    have only: "\<forall>c \<in> set (filter ?P ?cs). uc_metric c = df_key d \<longrightarrow> c = c0"
    proof (intro ballI impI)
      fix c assume c: "c \<in> set (filter ?P ?cs)" "uc_metric c = df_key d"
      then have "counter_key c = counter_key c0" using same c0 by auto
      with wf c(1) c0(1) show "c = c0" by (auto simp: distinct_map dest: inj_onD)
    qed
    have "c0 \<in> set (filter ?P ?cs)" using same [OF c0(1)] c0 by simp
    with fold_rows [OF only, of counter_record Map.empty] c0(2) Some show ?thesis by simp
  qed
qed

lemma listed_quota:
  assumes "usage_wf db" "metric \<in> set metrics"
  shows "fold (\<lambda>r f. f(uq_metric r \<mapsto> quota_record r))
      (filter (\<lambda>r. uq_target r = t \<and> uq_metric r \<in> set metrics) (ud_quotas db)) Map.empty metric
    = map_option quota_record (find_quota t metric db)"
    (is "fold _ (filter ?P ?qs) _ _ = _")
proof (cases "find_quota t metric db")
  case None
  then have "\<forall>q \<in> set (filter ?P ?qs). uq_metric q \<noteq> metric" by (auto simp: find_quota_def find_key_None)
  with None show ?thesis
    using fold_rows [of "filter ?P ?qs" uq_metric metric undefined quota_record Map.empty] by auto
next
  case (Some q0)
  then have q0: "q0 \<in> set ?qs" "quota_key q0 = (t, metric)" using find_quota_row by blast+
  have only: "\<forall>q \<in> set (filter ?P ?qs). uq_metric q = metric \<longrightarrow> q = q0"
    using assms(1) q0 by (auto simp: usage_wf_defs distinct_map dest: inj_onD)
  from fold_rows [OF only, of quota_record Map.empty] q0 assms(2) Some show ?thesis by simp
qed

text \<open>What a summary says of a metric.\<close>

definition summary_right ::
    "usage_world \<Rightarrow> usage_target \<Rightarrow> usage_definition \<Rightarrow> usage_summary \<Rightarrow> bool" where
  "summary_right w t d s \<longleftrightarrow>
     sm_target s = t \<and> sm_metric s = df_key d
     \<and> (sm_periodStart s, sm_periodEnd s) = usage_period_window (df_period d) (uw_now w)
     \<and> sm_used s = ledger (uw_log w) t (df_key d) (sm_periodStart s)
     \<and> sm_limit s = limit_in_force (uw_db w) t d
     \<and> sm_quotaVersion s = quota_version (uw_db w) t (df_key d)
     \<and> (case sm_limit s of
          None \<Rightarrow> sm_remaining s = None \<and> sm_overage s = 0 \<and> \<not> sm_overLimit s
        | Some l \<Rightarrow> sm_remaining s = Some (max 0 (l - sm_used s)) \<and> sm_overage s = max 0 (sm_used s - l)
            \<and> sm_overLimit s = (l < sm_used s))"

lemma summary_of_metric:
  assumes "usage_setting json digest sv" "world_inv sv w" "sv_catalog sv = Some cat"
    and "catalog_definition cat (ut_scope t) (df_key d) = Some d"
  shows "\<exists>qt s. effective_quota t d (map_option quota_record (find_quota t (df_key d) (uw_db w))) = Inr qt
    \<and> build_summary t d qt (map_option counter_record (find_counter t (df_key d)
        (fst (usage_period_window (df_period d) (uw_now w))) (uw_db w))) (usage_period_window (df_period d) (uw_now w)) = Inr s
    \<and> summary_right w t d s"
proof -
  let ?q = "find_quota t (df_key d) (uw_db w)"
  let ?win = "usage_period_window (df_period d) (uw_now w)"
  let ?c = "find_counter t (df_key d) (fst ?win) (uw_db w)"
  note wf = world_wf [OF assms(2)]
  have now: "0 \<le> uw_now w" and tm: "times_ok (uw_db w)" using assms(2) by (simp_all add: world_inv_def)
  have p: "valid_period (df_period d)" and lim: "limit_ok (df_defaultLimit d)"
    using catalog_lookup [OF assms(1,3,4)] validate_definition_Inr [of d d] by blast+
  have q: "case map_option quota_record ?q of None \<Rightarrow> quota_version (uw_db w) t (df_key d) = 0
      | Some r \<Rightarrow> qr_overridden r = (qr_limit r \<noteq> None) \<and> limit_ok (qr_limit r)
          \<and> qr_version r = quota_version (uw_db w) t (df_key d) \<and> 0 < qr_version r \<and> 0 \<le> qr_updatedAt r"
    using wf tm find_quota_row [of t "df_key d" "uw_db w"]
    by (cases ?q) (auto simp: quota_version_def quota_record_def usage_wf_defs quota_row_ok_def times_ok_def)
  from effective_quota_written [OF q, of t d] obtain qt where qt: "effective_quota t d (map_option quota_record ?q) = Inr qt"
      "qt_version qt = quota_version (uw_db w) t (df_key d)" "qt_limit qt = limit_in_force (uw_db w) t d"
    by (cases ?q) (auto simp: limit_in_force_def quota_override_def quota_record_def split: option.splits)
  have limq: "limit_ok (qt_limit qt)"
    using lim q by (cases ?q) (auto simp: qt(3) limit_in_force_def quota_override_def quota_record_def split: option.splits)
  have used: "in_safe_range (counter_value ?c)" using counter_value_ok [OF wf] .
  have win: "fst ?win \<noteq> zero_time" "fst ?win < snd ?win"
    using window_start_nonneg [OF p now] zero_time_negative window_nonempty [OF p] by auto
  have cok: "\<not> (case map_option counter_record ?c of None \<Rightarrow> False
      | Some c \<Rightarrow> cr_value c < 0 \<or> cr_value c > max_safe \<or> cr_version c = 0 \<or> cr_updatedAt c = zero_time)"
    using wf tm find_counter_row [of t "df_key d" "fst ?win" "uw_db w"] zero_time_negative
    by (cases ?c) (auto simp: counter_record_def usage_wf_defs counter_row_ok_def in_safe_range_def times_ok_def)
  have val: "(case map_option counter_record ?c of None \<Rightarrow> 0 | Some c \<Rightarrow> cr_value c) = counter_value ?c"
    by (cases ?c) (simp_all add: counter_value_def counter_record_def)
  have wrap: "wrap64 (l - counter_value ?c) = l - counter_value ?c" "wrap64 (- (l - counter_value ?c)) = counter_value ?c - l"
    if "qt_limit qt = Some l" for l
    using used limq that by (simp_all add: wrap64_id in_safe_range_def limit_ok_def max_safe_def)
  have led: "counter_value ?c = ledger (uw_log w) t (df_key d) (fst ?win)" by (rule world_ledger [OF assms(2)])
  obtain win where w: "?win = win" by simp
  obtain x where x: "map_option counter_record (find_counter t (df_key d) (fst win) (uw_db w)) = x" by simp
  note facts = qt(1,2) qt(3) [symmetric] win [unfolded w] cok [unfolded w, unfolded x] val [unfolded w, unfolded x] led [unfolded w]
  have "\<exists>s. build_summary t d qt x win = Inr s \<and> summary_right w t d s"
  proof (cases "qt_limit qt")
    case None
    with facts show ?thesis by (simp add: build_summary_def summary_right_def w led [unfolded w])
  next
    case (Some l)
    note wr = wrap [OF Some, unfolded w]
    show ?thesis
    proof (cases "l - counter_value ?c < 0")
      case True
      then show ?thesis
        using facts Some wr by (simp add: build_summary_def summary_right_def w Let_def)
    next
      case False
      then show ?thesis
        using facts Some wr by (simp add: build_summary_def summary_right_def w Let_def)
    qed
  qed
  with qt(1) show ?thesis by (simp add: x w)
qed

lemma summaries_right:
  assumes "\<forall>d \<in> set ds. \<exists>qt s. effective_quota t d (quotas (df_key d)) = Inr qt
      \<and> build_summary t d qt (counters (df_key d)) (usage_period_window (df_period d) now) = Inr s \<and> Q d s"
  shows "\<exists>ss. summaries t now counters quotas ds = Inr ss \<and> list_all2 Q ds ss"
  using assms by (induction ds) force+

text \<open>C38: Without a database failure the listing of a target is never refused: it has one summary for each metric
  of its scope, in catalog order, whose usage is the ledger of the current window, whose limit is the one in
  force, and whose remaining quantity and overage are its difference from the usage.\<close>

theorem usage_summaries_add_up:
  assumes "usage_setting json digest sv" "usage_reachable json digest sv w" "available sv = Inr cat" "valid_target t"
  shows "\<exists>ss. list_usage no_failure sv (uw_now w) t (uw_db w) = Inr ss
    \<and> list_all2 (summary_right w t) (catalog_definitions cat (ut_scope t)) ss"
proof -
  let ?ds = "catalog_definitions cat (ut_scope t)"
  note inv = usage_reachable_inv [OF assms(1,2)]
  note wf = world_wf [OF inv]
  have sv: "sv_catalog sv = Some cat" using assms(3) by (simp add: available_Inr)
  from assms(1) sv obtain defs where "new_catalog defs = Inr cat" by (auto simp: usage_setting_def)
  then have ok: "catalog_ok cat" by (rule new_catalog_ok)
  have ds: "catalog_definition cat (ut_scope t) (df_key d) = Some d" if "d \<in> set ?ds" for d
  proof -
    from that have "d \<in> set (ct_ordered cat)" "df_scope d = ut_scope t" by (simp_all add: catalog_definitions_def)
    with ok show ?thesis unfolding catalog_ok_def catalog_indexed_def catalog_definition_def by metis
  qed
  have len: "length (map df_key ?ds) \<le> 64"
    using ok order_trans [OF length_filter_le [of "\<lambda>d. df_scope d = ut_scope t" "ct_ordered cat"], of 64]
    by (simp add: catalog_ok_def catalog_definitions_def)
  show ?thesis
  proof (cases "?ds = []")
    case True
    with assms(3,4) show ?thesis by (simp add: list_usage_def Let_def)
  next
    case False
    have now: "uw_now w \<noteq> zero_time" using inv zero_time_negative by (auto simp: world_inv_def)
    obtain counters quotas where l: "list_current no_failure t (uw_now w) (map df_key ?ds) (uw_db w) = Inr (counters, quotas)"
        and c: "\<And>d. d \<in> set ?ds \<Longrightarrow> counters (df_key d) = map_option counter_record
          (find_counter t (df_key d) (fst (usage_period_window (df_period d) (uw_now w))) (uw_db w))"
        and q: "\<And>d. d \<in> set ?ds \<Longrightarrow> quotas (df_key d) = map_option quota_record (find_quota t (df_key d) (uw_db w))"
    proof
      show "list_current no_failure t (uw_now w) (map df_key ?ds) (uw_db w) = Inr
         (fold (\<lambda>r f. f(uc_metric r \<mapsto> counter_record r))
              (filter (\<lambda>r. uc_target r = t \<and> uc_metric r \<in> set (map df_key ?ds) \<and> uc_periodStart r \<le> uw_now w
                   \<and> uw_now w < uc_periodEnd r) (ud_counters (uw_db w))) Map.empty,
          fold (\<lambda>r f. f(uq_metric r \<mapsto> quota_record r))
              (filter (\<lambda>r. uq_target r = t \<and> uq_metric r \<in> set (map df_key ?ds)) (ud_quotas (uw_db w))) Map.empty)"
        unfolding list_current_def using assms(4) False len now by simp
    next
      fix d assume d: "d \<in> set ?ds"
      then have m: "df_key d \<in> set (map df_key ?ds)" by simp
      from listed_counter [OF assms(1) inv sv ds [OF d] m]
      show "fold (\<lambda>r f. f(uc_metric r \<mapsto> counter_record r))
              (filter (\<lambda>r. uc_target r = t \<and> uc_metric r \<in> set (map df_key ?ds) \<and> uc_periodStart r \<le> uw_now w
                   \<and> uw_now w < uc_periodEnd r) (ud_counters (uw_db w))) Map.empty (df_key d)
          = map_option counter_record (find_counter t (df_key d) (fst (usage_period_window (df_period d) (uw_now w))) (uw_db w))" .
      from listed_quota [OF wf m]
      show "fold (\<lambda>r f. f(uq_metric r \<mapsto> quota_record r))
              (filter (\<lambda>r. uq_target r = t \<and> uq_metric r \<in> set (map df_key ?ds)) (ud_quotas (uw_db w))) Map.empty (df_key d)
          = map_option quota_record (find_quota t (df_key d) (uw_db w))" .
    qed
    have "\<exists>ss. summaries t (uw_now w) counters quotas ?ds = Inr ss \<and> list_all2 (summary_right w t) ?ds ss"
    proof (rule summaries_right, rule ballI)
      fix d assume d: "d \<in> set ?ds"
      from summary_of_metric [OF assms(1) inv sv ds [OF d]]
      show "\<exists>qt s. effective_quota t d (quotas (df_key d)) = Inr qt
        \<and> build_summary t d qt (counters (df_key d)) (usage_period_window (df_period d) (uw_now w)) = Inr s
        \<and> summary_right w t d s"
        unfolding c [OF d] q [OF d] .
    qed
    moreover have "list_usage no_failure sv (uw_now w) t (uw_db w) = summaries t (uw_now w) counters quotas ?ds"
      unfolding list_usage_def assms(3) sum.case Let_def l prod.case using assms(4) False by (simp only: not_True_eq_False if_False)
    ultimately show ?thesis by simp
  qed
qed

subsection \<open>A concrete meter\<close>

definition demo_json :: "(string \<Rightarrow> string option) \<Rightarrow> string" where
  "demo_json m = ''{}''"

definition demo_digest :: "fingerprint_payload \<Rightarrow> string" where
  "demo_digest p = replicate 64 CHR ''0''"

definition demo_usage_service :: usage_service where
  "demo_usage_service =
     \<lparr>sv_catalog = (case default_catalog of Inl e \<Rightarrow> None | Inr cat \<Rightarrow> Some cat), sv_enabled = True\<rparr>"

definition demo_target :: usage_target where
  "demo_target = \<lparr>ut_scope = ''user'', ut_subject = 1\<rparr>"

definition demo_consumption :: usage_consumption where
  "demo_consumption = \<lparr>cn_source = ''billing'', cn_eventID = ''e1'', cn_target = demo_target,
     cn_metric = ''api.requests'', cn_quantity = 3, cn_dimensions = []\<rparr>"

definition demo_world :: usage_world where
  "demo_world = \<lparr>uw_db = empty_usage_db\<lparr>ud_users := [1]\<rparr>, uw_now = 0, uw_log = []\<rparr>"

definition demo_call :: "(usage_receipt option \<times> usage_error option) \<times> usage_db" where
  "demo_call = consume_usage demo_json demo_digest no_failure (\<lambda>_. 0) False demo_usage_service 0 demo_consumption (uw_db demo_world)"

definition demo_counted :: usage_world where
  "demo_counted = \<lparr>uw_db = snd demo_call, uw_now = 0, uw_log = logged_consumption (fst demo_call)\<rparr>"

lemma demo_setting: "usage_setting demo_json demo_digest demo_usage_service"
proof -
  have "sv_catalog demo_usage_service = Some cat \<Longrightarrow> \<exists>defs. new_catalog defs = Inr cat" for cat
    by (auto simp: demo_usage_service_def default_catalog_def split: sum.splits)
  moreover have "length (demo_json m) = 2" "length (demo_digest p) = 64" for m p
    by (simp_all add: demo_json_def demo_digest_def)
  ultimately show ?thesis by (simp add: usage_setting_def)
qed

lemma demo_world_reachable: "usage_reachable demo_json demo_digest demo_usage_service demo_world"
proof -
  have "usage_step demo_json demo_digest demo_usage_service (usage_start 0) demo_world"
    using step_new_owner [of demo_json demo_digest demo_usage_service empty_usage_db 0 "[]" "[]" "[1]"]
    by (simp add: usage_start_def demo_world_def empty_usage_db_def)
  then show ?thesis unfolding usage_reachable_def by blast
qed

lemma demo_counted_reachable: "usage_reachable demo_json demo_digest demo_usage_service demo_counted"
proof -
  have "usage_step demo_json demo_digest demo_usage_service demo_world demo_counted"
    using step_consume [of demo_json demo_digest no_failure "\<lambda>_. 0" demo_usage_service 0 demo_consumption
        "uw_db demo_world" "fst demo_call" "snd demo_call" 0 "[]"]
    by (simp add: demo_call_def demo_counted_def demo_world_def readings_def)
  with demo_world_reachable show ?thesis
    unfolding usage_reachable_def by (meson rtranclp.rtrancl_into_rtrancl)
qed

lemma demo_values:
  "ledger (uw_log demo_counted) demo_target ''api.requests'' 0 = 3" "length (uw_log demo_counted) = 1"
  "length (ud_events (uw_db demo_counted)) = 1"
  "ledger (uw_log demo_world) demo_target ''api.requests'' 0 = 0"
  "lock_owner None demo_target (uw_db demo_world) = None"
  "find_event ''billing'' ''e1'' (uw_db demo_world) = None" "valid_target demo_target"
  "quota_version (uw_db demo_world) demo_target ''api.requests'' = 0"
  by code_simp+

lemma demo_catalog:
  obtains cat d where "available demo_usage_service = Inr cat"
    "normalize_consumption demo_json cat demo_consumption = Inr (d, ''{}'')"
    "catalog_definition cat (ut_scope demo_target) ''api.requests'' = Some d"
    "df_period d = usage_period_month" "df_defaultLimit d = None" "df_key d = ''api.requests''"
proof -
  have *: "(case available demo_usage_service of Inl e \<Rightarrow> False | Inr cat \<Rightarrow>
      (case normalize_consumption demo_json cat demo_consumption of Inl e \<Rightarrow> False
       | Inr (d, dims) \<Rightarrow> dims = ''{}'' \<and> df_period d = usage_period_month \<and> df_defaultLimit d = None \<and> df_key d = ''api.requests''))"
    by code_simp
  have "\<exists>cat d. a = Inr cat \<and> normalize_consumption demo_json cat demo_consumption = Inr (d, ''{}'')
      \<and> df_period d = usage_period_month \<and> df_defaultLimit d = None \<and> df_key d = ''api.requests''"
    if "case a of Inl e \<Rightarrow> False | Inr cat \<Rightarrow>
      (case normalize_consumption demo_json cat demo_consumption of Inl e \<Rightarrow> False
       | Inr (d, dims) \<Rightarrow> dims = ''{}'' \<and> df_period d = usage_period_month \<and> df_defaultLimit d = None \<and> df_key d = ''api.requests'')"
    for a :: "usage_error + usage_catalog"
    using that by (auto split: sum.splits)
  from this [OF *] obtain cat d where c: "available demo_usage_service = Inr cat"
      "normalize_consumption demo_json cat demo_consumption = Inr (d, ''{}'')"
      "df_period d = usage_period_month" "df_defaultLimit d = None" "df_key d = ''api.requests''" by blast
  from c(2) have "catalog_definition cat (ut_scope demo_target) ''api.requests'' = Some d"
    by (auto simp: normalize_consumption_def demo_consumption_def split: if_splits option.splits sum.splits)
  with c that show ?thesis by blast
qed

lemma usage_counters_equal_ledger_witness:
  "counter_value (find_counter demo_target ''api.requests'' 0 (uw_db demo_counted)) = 3"
  using usage_counters_equal_ledger [OF demo_setting demo_counted_reachable] demo_values(1) by metis

lemma usage_rows_satisfy_schema_witness:
  "length (ud_events (uw_db demo_counted)) = 1 \<and> event_row_ok (hd (ud_events (uw_db demo_counted)))"
proof -
  have "hd (ud_events (uw_db demo_counted)) \<in> set (ud_events (uw_db demo_counted))"
    using demo_values(3) by (cases "ud_events (uw_db demo_counted)") auto
  then show ?thesis
    using usage_rows_satisfy_schema [OF demo_setting demo_counted_reachable] demo_values(3) by blast
qed

lemma usage_event_counted_once_witness:
  "length (uw_log demo_counted) = 1 \<and> distinct (map receipt_key (uw_log demo_counted))"
  using usage_event_counted_once [OF demo_setting demo_counted_reachable] demo_values(2) by blast

lemma usage_consume_decides_by_quota_witness:
  "\<exists>rc db'. demo_call = ((Some rc, None), db') \<and> rc_before rc = 0 \<and> rc_decision rc = decision_accepted \<and> rc_after rc = 3"
proof -
  from demo_catalog obtain cat d where c: "available demo_usage_service = Inr cat"
      "normalize_consumption demo_json cat demo_consumption = Inr (d, ''{}'')"
      "df_period d = usage_period_month" "df_defaultLimit d = None" "df_key d = ''api.requests''" by metis
  have w: "uw_now demo_world = 0" "uw_log demo_world = []" "quota_override (uw_db demo_world) t m = None" for t m
    by (simp_all add: demo_world_def quota_override_def find_quota_def empty_usage_db_def)
  have cn: "cn_source demo_consumption = ''billing''" "cn_eventID demo_consumption = ''e1''" "cn_target demo_consumption = demo_target"
      "cn_quantity demo_consumption = 3"
    by (simp_all add: demo_consumption_def)
  have big: "0 + 3 \<le> max_safe" by (simp add: max_safe_def)
  note t = usage_consume_decides_by_quota [OF demo_setting demo_world_reachable c(1,2), of "\<lambda>_. 0",
      unfolded cn w ledger_Nil, OF demo_values(6,5) big]
  have "limit_in_force (uw_db demo_world) demo_target d = None" by (simp add: limit_in_force_def w c(4))
  with t show ?thesis unfolding demo_call_def by auto
qed

lemma usage_retries_replay_the_receipt_witness:
  "\<exists>rc. fst demo_call = (Some rc, None)
   \<and> consume_usage demo_json demo_digest no_failure (\<lambda>_. 5) False demo_usage_service 5 demo_consumption (snd demo_call)
     = ((Some (read_back rc), None), snd demo_call)"
proof -
  have "(case fst demo_call of (Some rc, None) \<Rightarrow> True | _ \<Rightarrow> False)" by code_simp
  then obtain rc where r: "fst demo_call = (Some rc, None)" by (auto split: option.splits prod.splits)
  then have call: "consume_usage demo_json demo_digest no_failure (\<lambda>_. 0) False demo_usage_service (uw_now demo_world) demo_consumption (uw_db demo_world)
      = ((Some rc, None), snd demo_call)"
    by (metis demo_call_def demo_world_def prod.collapse usage_world.select_convs(2))
  let ?w1 = "\<lparr>uw_db = snd demo_call, uw_now = 0, uw_log = uw_log demo_world @ logged_consumption (Some rc, None)\<rparr>"
  let ?w2 = "\<lparr>uw_db = snd demo_call, uw_now = 5, uw_log = uw_log demo_world @ logged_consumption (Some rc, None)\<rparr>"
  have run: "(usage_step demo_json demo_digest demo_usage_service)\<^sup>*\<^sup>* ?w1 ?w2"
    by (rule r_into_rtranclp, rule step_time) simp
  have "still_stored (cn_source demo_consumption) (cn_eventID demo_consumption) (snd demo_call) (snd demo_call)" by code_simp
  moreover have "readings (uw_now demo_world) (\<lambda>_. 0) 0" by (simp add: readings_def demo_world_def)
  ultimately show ?thesis
    using usage_retries_replay_the_receipt [OF demo_setting demo_world_reachable _ run, of "\<lambda>_. 0" 0 no_failure demo_consumption rc None
      "snd demo_call" "\<lambda>_. 5"] call r
    by simp
qed

lemma usage_quota_writes_are_versioned_witness:
  "isl (fst (set_usage_quota no_failure (\<lambda>_. 0) False demo_usage_service demo_target ''api.requests'' 10 0 (uw_db demo_world))) = False"
proof -
  from demo_catalog obtain cat d where c: "available demo_usage_service = Inr cat"
      "catalog_definition cat (ut_scope demo_target) ''api.requests'' = Some d" by metis
  have r: "readings (uw_now demo_world) (\<lambda>_. 0) 0" by (simp add: readings_def demo_world_def)
  have l: "in_safe_range 10" by (simp add: in_safe_range_def max_safe_def)
  from usage_quota_writes_are_versioned [OF demo_setting demo_world_reachable r c demo_values(7) l, of 0] demo_values(5,8)
  show ?thesis by metis
qed

lemma usage_summaries_add_up_witness:
  "\<exists>ss. list_usage no_failure demo_usage_service 0 demo_target (uw_db demo_counted) = Inr ss"
proof -
  from demo_catalog obtain cat where c: "available demo_usage_service = Inr cat" by metis
  have "uw_now demo_counted = 0" by (simp add: demo_counted_def)
  with usage_summaries_add_up [OF demo_setting demo_counted_reachable c demo_values(7)] show ?thesis by auto
qed

end
