(* ===== verification/Url_Query.thy ===== *)
theory Url_Query
  imports Prelude "HOL-Library.AList"
begin

text \<open>
  The part of Go's standard library that the pagination package prints and reads its links with:
  \<open>strconv.Itoa\<close> and \<open>strconv.Atoi\<close> on 64-bit integers, and \<open>url.Values\<close> with its \<open>Encode\<close> and
  \<open>url.ParseQuery\<close>. A string is its bytes; a \<open>url.Values\<close> map is an association list with distinct keys.
\<close>

subsection \<open>Decimal numbers\<close>

definition decimal_digit :: "nat \<Rightarrow> char" where
  "decimal_digit d = char_of (48 + d)"

definition digit_value :: "char \<Rightarrow> nat option" where
  "digit_value c = (let n = of_char c :: nat in if 48 \<le> n \<and> n \<le> 57 then Some (n - 48) else None)"

fun show_nat :: "nat \<Rightarrow> string" where
  "show_nat n = (if n < 10 then [decimal_digit n] else show_nat (n div 10) @ [decimal_digit (n mod 10)])"

declare show_nat.simps [simp del]

definition strconv_itoa :: "int \<Rightarrow> string" where
  "strconv_itoa n = (if n < 0 then CHR ''-'' # show_nat (nat (- n)) else show_nat (nat n))"

fun read_digits :: "nat \<Rightarrow> string \<Rightarrow> nat option" where
  "read_digits acc [] = Some acc"
| "read_digits acc (c # s) = (case digit_value c of None \<Rightarrow> None | Some d \<Rightarrow> read_digits (10 * acc + d) s)"

definition read_nat :: "string \<Rightarrow> nat option" where
  "read_nat s = (if s = [] then None else read_digits 0 s)"

text \<open>No value is a syntax or a range error.\<close>

definition atoi :: "string \<Rightarrow> int option" where
  "atoi s =
     (let neg = (s \<noteq> [] \<and> hd s = CHR ''-'');
          body = (if s \<noteq> [] \<and> (hd s = CHR ''-'' \<or> hd s = CHR ''+'') then tl s else s)
      in case read_nat body of
           None \<Rightarrow> None
         | Some n \<Rightarrow> (let v = (if neg then - int n else int n)
                      in if v < - 9223372036854775808 \<or> v > 9223372036854775807 then None else Some v))"

lemma digit_value_digit [simp]: "d < 10 \<Longrightarrow> digit_value (decimal_digit d) = Some d"
  by (simp add: digit_value_def decimal_digit_def Let_def)

lemma read_digits_append:
  "read_digits acc (s @ t) = (case read_digits acc s of None \<Rightarrow> None | Some n \<Rightarrow> read_digits n t)"
  by (induction s arbitrary: acc) (auto split: option.splits)

lemma read_show_nat: "read_digits 0 (show_nat n) = Some n \<and> show_nat n \<noteq> []"
proof (induction n rule: show_nat.induct)
  case (1 n)
  show ?case
  proof (cases "n < 10")
    case False
    with 1 have "read_digits 0 (show_nat (n div 10)) = Some (n div 10)" by simp
    then show ?thesis using False by (subst (1 2) show_nat.simps) (simp add: read_digits_append)
  qed (subst (1 2) show_nat.simps, simp)
qed

lemma show_nat_digits: "c \<in> set (show_nat n) \<Longrightarrow> 48 \<le> (of_char c :: nat) \<and> (of_char c :: nat) \<le> 57"
proof (induction n rule: show_nat.induct)
  case (1 n)
  show ?case
  proof (cases "n < 10")
    case True
    with "1.prems" have "c = decimal_digit n" by (subst (asm) show_nat.simps) simp
    with True show ?thesis by (simp add: decimal_digit_def)
  next
    case False
    with "1.prems" have "c \<in> set (show_nat (n div 10)) \<or> c = decimal_digit (n mod 10)"
      by (subst (asm) show_nat.simps) auto
    then show ?thesis
    proof
      assume "c = decimal_digit (n mod 10)"
      moreover have "n mod 10 < 10" by simp
      ultimately show ?thesis by (simp add: decimal_digit_def)
    qed (use "1.IH" False in simp)
  qed
qed

lemma hd_show_nat: "hd (show_nat n) \<noteq> CHR ''-'' \<and> hd (show_nat n) \<noteq> CHR ''+''"
proof -
  have "hd (show_nat n) \<in> set (show_nat n)" using read_show_nat [of n] by simp
  from show_nat_digits [OF this] show ?thesis by auto
qed

lemma atoi_itoa:
  assumes "- 9223372036854775808 \<le> n" "n < 9223372036854775808"
  shows "atoi (strconv_itoa n) = Some n"
proof (cases "n < 0")
  case True
  then have "- int (nat (- n)) = n" by simp
  moreover have "strconv_itoa n = CHR ''-'' # show_nat (nat (- n))" using True by (simp add: strconv_itoa_def)
  ultimately show ?thesis
    using read_show_nat [of "nat (- n)"] assms by (simp add: atoi_def read_nat_def Let_def)
next
  case False
  then have "strconv_itoa n = show_nat (nat n)" by (simp add: strconv_itoa_def)
  with False show ?thesis
    using read_show_nat [of "nat n"] hd_show_nat [of "nat n"] assms by (simp add: atoi_def read_nat_def Let_def)
qed

subsection \<open>Escaping\<close>

definition unreserved :: "char \<Rightarrow> bool" where
  "unreserved c \<longleftrightarrow>
     (let n = of_char c :: nat
      in 97 \<le> n \<and> n \<le> 122 \<or> 65 \<le> n \<and> n \<le> 90 \<or> 48 \<le> n \<and> n \<le> 57 \<or> n \<in> {45, 95, 46, 126})"

definition hex_digit :: "nat \<Rightarrow> char" where
  "hex_digit d = (if d < 10 then char_of (48 + d) else char_of (55 + d))"

definition hex_value :: "char \<Rightarrow> nat option" where
  "hex_value c =
     (let n = of_char c :: nat
      in if 48 \<le> n \<and> n \<le> 57 then Some (n - 48)
         else if 97 \<le> n \<and> n \<le> 102 then Some (n - 87)
         else if 65 \<le> n \<and> n \<le> 70 then Some (n - 55) else None)"

definition escape_char :: "char \<Rightarrow> string" where
  "escape_char c =
     (if unreserved c then [c]
      else if c = CHR '' '' then [CHR ''+'']
      else [CHR ''%'', hex_digit (of_char c div 16), hex_digit (of_char c mod 16)])"

definition query_escape :: "string \<Rightarrow> string" where
  "query_escape s = concat (map escape_char s)"

fun query_unescape :: "string \<Rightarrow> string option" where
  "query_unescape [] = Some []"
| "query_unescape (c # s) =
     (if c = CHR ''%''
      then (case s of
              a # b # t \<Rightarrow>
                (case (hex_value a, hex_value b) of
                   (Some h, Some l) \<Rightarrow> map_option (Cons (char_of (16 * h + l))) (query_unescape t)
                 | _ \<Rightarrow> None)
            | _ \<Rightarrow> None)
      else map_option (Cons (if c = CHR ''+'' then CHR '' '' else c)) (query_unescape s))"

lemma hex_value_digit [simp]: "d < 16 \<Longrightarrow> hex_value (hex_digit d) = Some d"
  by (simp add: hex_value_def hex_digit_def Let_def)

lemma unescape_escape_char: "query_unescape (escape_char c @ s) = map_option (Cons c) (query_unescape s)"
proof (cases "unreserved c \<or> c = CHR '' ''")
  case True
  moreover have "\<not> unreserved CHR ''%''" "\<not> unreserved CHR ''+''" by code_simp+
  ultimately show ?thesis by (auto simp: escape_char_def)
next
  case False
  have "(of_char c :: nat) div 16 < 16" using nat_of_char_less_256 [of c] by linarith
  moreover have "char_of (16 * ((of_char c :: nat) div 16) + of_char c mod 16) = c"
    by (simp only: mult_div_mod_eq char_of_char)
  moreover have "(of_char c :: nat) mod 16 < 16" by simp
  ultimately show ?thesis using False by (simp add: escape_char_def)
qed

lemma unescape_escape: "query_unescape (query_escape s) = Some s"
  by (induction s) (simp_all add: query_escape_def unescape_escape_char)

lemma escape_chars:
  assumes "c \<in> set (query_escape s)" shows "unreserved c \<or> c = CHR ''+'' \<or> c = CHR ''%''"
proof -
  from assms obtain x where "c \<in> set (escape_char x)" by (auto simp: query_escape_def)
  moreover have "unreserved (hex_digit d)" if "d < 16" for d
    using that by (simp add: hex_digit_def unreserved_def Let_def)
  moreover have "(of_char x :: nat) div 16 < 16" using nat_of_char_less_256 [of x] by linarith
  moreover have "(of_char x :: nat) mod 16 < 16" by simp
  ultimately show ?thesis by (auto simp: escape_char_def split: if_splits)
qed

lemma escape_no_separators:
  "CHR ''&'' \<notin> set (query_escape s)" "CHR ''='' \<notin> set (query_escape s)" "CHR '';'' \<notin> set (query_escape s)"
  "CHR ''?'' \<notin> set (query_escape s)" "CHR ''#'' \<notin> set (query_escape s)"
proof -
  have "\<not> unreserved CHR ''&''" "\<not> unreserved CHR ''=''" "\<not> unreserved CHR '';''" "\<not> unreserved CHR ''?''" "\<not> unreserved CHR ''#''"
    by code_simp+
  then show "CHR ''&'' \<notin> set (query_escape s)" "CHR ''='' \<notin> set (query_escape s)" "CHR '';'' \<notin> set (query_escape s)"
    "CHR ''?'' \<notin> set (query_escape s)" "CHR ''#'' \<notin> set (query_escape s)"
    using escape_chars by fastforce+
qed

subsection \<open>Values\<close>

type_synonym url_values = "(string \<times> string list) list"

definition value_list :: "url_values \<Rightarrow> string \<Rightarrow> string list" where
  "value_list q k = (case map_of q k of None \<Rightarrow> [] | Some vs \<Rightarrow> vs)"

definition set_value :: "string \<Rightarrow> string \<Rightarrow> url_values \<Rightarrow> url_values" where
  "set_value k v q = AList.update k [v] q"

definition add_value :: "url_values \<Rightarrow> string \<times> string \<Rightarrow> url_values" where
  "add_value q p = (case p of (k, v) \<Rightarrow> AList.update k (value_list q k @ [v]) q)"

fun join_with :: "string \<Rightarrow> string list \<Rightarrow> string" where
  "join_with sep [] = []"
| "join_with sep [s] = s"
| "join_with sep (s # ss) = s @ sep @ join_with sep ss"

definition value_pairs :: "url_values \<Rightarrow> (string \<times> string) list" where
  "value_pairs q = concat (map (\<lambda>(k, vs). map (Pair k) vs) q)"

definition encode_pair :: "string \<times> string \<Rightarrow> string" where
  "encode_pair p = (case p of (k, v) \<Rightarrow> query_escape k @ CHR ''='' # query_escape v)"

definition encode_values :: "url_values \<Rightarrow> string" where
  "encode_values q = join_with ''&'' (map encode_pair (value_pairs (sort_key fst q)))"

definition cut_at :: "char \<Rightarrow> string \<Rightarrow> string \<times> string" where
  "cut_at c s = (takeWhile (\<lambda>x. x \<noteq> c) s, drop 1 (dropWhile (\<lambda>x. x \<noteq> c) s))"

text \<open>Malformed segments are skipped, as \<open>Request.URL.Query\<close> does.\<close>

definition parse_segment :: "string \<Rightarrow> (string \<times> string) option" where
  "parse_segment s =
     (if CHR '';'' \<in> set s \<or> s = [] then None
      else case cut_at CHR ''='' s of (k, v) \<Rightarrow>
        (case (query_unescape k, query_unescape v) of
           (Some k', Some v') \<Rightarrow> Some (k', v')
         | _ \<Rightarrow> None))"

definition parse_query :: "string \<Rightarrow> url_values" where
  "parse_query s = foldl add_value [] (List.map_filter parse_segment (split_on CHR ''&'' s))"

subsection \<open>Reading back what was encoded\<close>

lemma cut_at_first: "c \<notin> set a \<Longrightarrow> cut_at c (a @ c # b) = (a, b)"
  unfolding cut_at_def by (subst takeWhile_append2, auto) (subst dropWhile_append2, auto)

lemma parse_encode_pair: "parse_segment (encode_pair p) = Some p"
proof (cases p)
  case (Pair k v)
  have "CHR '';'' \<notin> set (query_escape k @ CHR ''='' # query_escape v)"
    using escape_no_separators by simp
  with Pair show ?thesis
    using escape_no_separators(2) by (simp add: parse_segment_def encode_pair_def cut_at_first unescape_escape)
qed

lemma encode_pair_no_sep: "CHR ''&'' \<notin> set (encode_pair p)"
  using escape_no_separators(1) by (cases p) (simp add: encode_pair_def)

lemma split_join:
  "ss \<noteq> [] \<Longrightarrow> \<forall>s \<in> set ss. c \<notin> set s \<Longrightarrow> split_on c (join_with [c] ss) = ss"
proof (induction "[c]" ss rule: join_with.induct)
  case (2 s)
  then show ?case by (simp add: split_on_no_sep)
next
  case (3 s t ss)
  then show ?case using split_on_append [of c s "join_with [c] (t # ss)"] by simp
qed simp

lemma parse_encode: "parse_query (encode_values q) = foldl add_value [] (value_pairs (sort_key fst q))"
proof (cases "value_pairs (sort_key fst q) = []")
  case True
  then show ?thesis by (simp add: parse_query_def encode_values_def parse_segment_def List.map_filter_simps)
next
  case False
  then have "split_on CHR ''&'' (encode_values q) = map encode_pair (value_pairs (sort_key fst q))"
    unfolding encode_values_def by (intro split_join) (auto simp: encode_pair_no_sep)
  moreover have "List.map_filter parse_segment (map encode_pair ps) = ps" for ps
    by (induction ps) (simp_all add: List.map_filter_simps parse_encode_pair)
  ultimately show ?thesis by (simp add: parse_query_def)
qed

lemma value_list_add: "value_list (add_value q (k, v)) k' = value_list q k' @ (if k' = k then [v] else [])"
  by (simp add: value_list_def add_value_def update_conv)

lemma value_list_foldl: "value_list (foldl add_value q ps) k = value_list q k @ map snd (filter (\<lambda>p. fst p = k) ps)"
proof (induction ps arbitrary: q)
  case (Cons p ps)
  then show ?case by (cases p) (simp add: value_list_add)
qed simp

lemma value_list_pairs:
  "distinct (map fst q) \<Longrightarrow> map snd (filter (\<lambda>p. fst p = k) (value_pairs q)) = value_list q k"
proof (induction q)
  case (Cons p q)
  obtain k' vs where p: "p = (k', vs)" by (cases p)
  have eq: "map snd (filter (\<lambda>p. fst p = k) (map (Pair k') vs)) = (if k' = k then vs else [])"
    by (induction vs) auto
  have "value_pairs (p # q) = map (Pair k') vs @ value_pairs q" by (simp add: value_pairs_def p)
  moreover have "k' = k \<Longrightarrow> value_list q k = []"
    using Cons.prems p by (simp add: value_list_def map_of_eq_None_iff [THEN iffD2])
  ultimately show ?case
    using Cons eq by (auto simp: p value_list_def)
qed (simp add: value_pairs_def value_list_def)

text \<open>\<open>ParseQuery\<close> reads back every value that \<open>Encode\<close> wrote.\<close>

lemma parse_query_encode:
  assumes "distinct (map fst q)"
  shows "value_list (parse_query (encode_values q)) k = value_list q k"
proof -
  have d: "distinct (map fst (sort_key fst q))"
    using assms by (simp add: distinct_map)
  have "map_of (sort_key fst q) = map_of q"
    by (rule map_of_eqI) (use assms d in \<open>auto simp: map_of_inject_set\<close>)
  then show ?thesis
    using value_list_pairs [OF d, of k] value_list_foldl [of "[]" "value_pairs (sort_key fst q)" k]
    by (simp add: parse_encode) (simp add: value_list_def)
qed

end
