(* ===== verification/Pagination.thy ===== *)
theory Pagination
  imports Url_Query
begin

text \<open>
  Offset pagination: \<open>api/pkg/pagination/request.go\<close> and \<open>paginator.go\<close>. Gin's query lookup is the
  parameter \<open>get\<close> (\<open>GetQuery\<close>: the first value of a key, if there is one); a query result is the list of
  the rows it selects, and \<open>OFFSET\<close> and \<open>LIMIT\<close> cut that list. The last page is computed in the code with
  \<open>float64\<close>, which is the exact ceiling for totals below \<open>2 ^ 45\<close>.
\<close>

subsection \<open>Requests\<close>

definition default_page :: int where "default_page = 1"
definition default_per_page :: int where "default_per_page = 15"
definition max_per_page :: int where "max_per_page = 100"

record page_request =
  rq_page :: int
  rq_perPage :: int
  rq_keyword :: string
  rq_sort :: string
  rq_order :: string

definition get_page :: "page_request \<Rightarrow> int" where
  "get_page r = (if rq_page r < 1 then default_page else rq_page r)"

definition get_per_page :: "page_request \<Rightarrow> int" where
  "get_per_page r =
     (if rq_perPage r < 1 then default_per_page
      else if rq_perPage r > max_per_page then max_per_page else rq_perPage r)"

definition get_offset :: "page_request \<Rightarrow> int" where
  "get_offset r = wrap64 ((get_page r - 1) * get_per_page r)"

definition get_order :: "page_request \<Rightarrow> string" where
  "get_order r = (if rq_order r = ''asc'' then ''asc'' else ''desc'')"

definition get_order_by :: "page_request \<Rightarrow> string" where
  "get_order_by r = (if rq_sort r = '''' then '''' else rq_sort r @ '' '' @ get_order r)"

definition has_keyword :: "page_request \<Rightarrow> bool" where
  "has_keyword r \<longleftrightarrow> rq_keyword r \<noteq> ''''"

definition default_query :: "(string \<Rightarrow> string option) \<Rightarrow> string \<Rightarrow> string \<Rightarrow> string" where
  "default_query get k d = (case get k of None \<Rightarrow> d | Some v \<Rightarrow> v)"

definition from_context :: "(string \<Rightarrow> string option) \<Rightarrow> page_request" where
  "from_context get =
     \<lparr>rq_page = (case atoi (default_query get ''page'' ''1'') of Some n \<Rightarrow> n | None \<Rightarrow> 0),
      rq_perPage = (case atoi (default_query get ''per_page'' (strconv_itoa default_per_page)) of Some n \<Rightarrow> n | None \<Rightarrow> 0),
      rq_keyword = default_query get ''keyword'' '''',
      rq_sort = default_query get ''sort'' '''',
      rq_order = default_query get ''order'' ''desc''\<rparr>"

definition first_value :: "url_values \<Rightarrow> string \<Rightarrow> string option" where
  "first_value q k = (case value_list q k of [] \<Rightarrow> None | v # vs \<Rightarrow> Some v)"

definition from_query :: "url_values \<Rightarrow> page_request" where
  "from_query q =
     \<lparr>rq_page = (case first_value q ''page'' of None \<Rightarrow> 0 | Some s \<Rightarrow> (case atoi s of Some n \<Rightarrow> n | None \<Rightarrow> 0)),
      rq_perPage = (case first_value q ''per_page'' of None \<Rightarrow> 0 | Some s \<Rightarrow> (case atoi s of Some n \<Rightarrow> n | None \<Rightarrow> 0)),
      rq_keyword = (case first_value q ''keyword'' of None \<Rightarrow> '''' | Some s \<Rightarrow> s),
      rq_sort = (case first_value q ''sort'' of None \<Rightarrow> '''' | Some s \<Rightarrow> s),
      rq_order = (case first_value q ''order'' of None \<Rightarrow> '''' | Some s \<Rightarrow> s)\<rparr>"

definition new_request :: "int \<Rightarrow> int \<Rightarrow> page_request" where
  "new_request page perPage = \<lparr>rq_page = page, rq_perPage = perPage, rq_keyword = '''', rq_sort = '''', rq_order = ''''\<rparr>"

definition with_keyword :: "string \<Rightarrow> page_request \<Rightarrow> page_request" where
  "with_keyword k r = r\<lparr>rq_keyword := k\<rparr>"

definition with_sort :: "string \<Rightarrow> string \<Rightarrow> page_request \<Rightarrow> page_request" where
  "with_sort field order r = r\<lparr>rq_sort := field, rq_order := order\<rparr>"

subsection \<open>Paginators\<close>

record ('a, 'j) paginator =
  pg_items :: "'a list"
  pg_total :: int
  pg_perPage :: int
  pg_currentPage :: int
  pg_lastPage :: int
  pg_path :: string
  pg_query :: url_values
  pg_fragment :: string
  pg_pageName :: string
  pg_additional :: "(string \<times> 'j) list"

definition ceil_div :: "int \<Rightarrow> int \<Rightarrow> int" where
  "ceil_div a b = - ((- a) div b)"

definition bound_per_page :: "int \<Rightarrow> int" where
  "bound_per_page n = (let n1 = (if n < 1 then default_per_page else n) in if n1 > max_per_page then max_per_page else n1)"

definition new_paginator :: "'a list \<Rightarrow> int \<Rightarrow> int \<Rightarrow> int \<Rightarrow> ('a, 'j) paginator" where
  "new_paginator items total1 page perPage =
     (let page1 = (if page < 1 then 1 else page);
          perPage1 = bound_per_page perPage;
          last1 = ceil_div total1 perPage1
      in \<lparr>pg_items = items, pg_total = total1, pg_perPage = perPage1, pg_currentPage = page1,
          pg_lastPage = (if last1 < 1 then 1 else last1), pg_path = '''', pg_query = [], pg_fragment = '''',
          pg_pageName = ''page'', pg_additional = []\<rparr>)"

definition page_from :: "('a, 'j) paginator \<Rightarrow> int" where
  "page_from p = (if pg_total p = 0 then 0 else wrap64 ((pg_currentPage p - 1) * pg_perPage p + 1))"

definition page_to :: "('a, 'j) paginator \<Rightarrow> int" where
  "page_to p =
     (if pg_total p = 0 then 0
      else let t = wrap64 (pg_currentPage p * pg_perPage p) in if t > pg_total p then pg_total p else t)"

definition has_pages :: "('a, 'j) paginator \<Rightarrow> bool" where
  "has_pages p \<longleftrightarrow> pg_lastPage p > 1"

definition has_more_pages :: "('a, 'j) paginator \<Rightarrow> bool" where
  "has_more_pages p \<longleftrightarrow> pg_currentPage p < pg_lastPage p"

definition on_first_page :: "('a, 'j) paginator \<Rightarrow> bool" where
  "on_first_page p \<longleftrightarrow> pg_currentPage p \<le> 1"

definition on_last_page :: "('a, 'j) paginator \<Rightarrow> bool" where
  "on_last_page p \<longleftrightarrow> pg_currentPage p \<ge> pg_lastPage p"

definition set_path :: "string \<Rightarrow> ('a, 'j) paginator \<Rightarrow> ('a, 'j) paginator" where
  "set_path path p = p\<lparr>pg_path := path\<rparr>"

definition merge_query :: "url_values \<Rightarrow> url_values \<Rightarrow> url_values" where
  "merge_query acc q =
     foldl (\<lambda>acc (k, vs). if k \<noteq> ''page'' \<and> k \<noteq> ''per_page'' then AList.update k vs acc else acc) acc q"

definition with_query :: "url_values \<Rightarrow> ('a, 'j) paginator \<Rightarrow> ('a, 'j) paginator" where
  "with_query q p = p\<lparr>pg_query := merge_query (pg_query p) q\<rparr>"

definition append_query :: "string \<Rightarrow> string \<Rightarrow> ('a, 'j) paginator \<Rightarrow> ('a, 'j) paginator" where
  "append_query k v p =
     (if k \<noteq> ''page'' \<and> k \<noteq> ''per_page'' then p\<lparr>pg_query := set_value k v (pg_query p)\<rparr> else p)"

definition set_fragment :: "string \<Rightarrow> ('a, 'j) paginator \<Rightarrow> ('a, 'j) paginator" where
  "set_fragment f p = p\<lparr>pg_fragment := f\<rparr>"

definition set_page_name :: "string \<Rightarrow> ('a, 'j) paginator \<Rightarrow> ('a, 'j) paginator" where
  "set_page_name n p = p\<lparr>pg_pageName := n\<rparr>"

definition add_additional :: "(string \<times> 'j) list \<Rightarrow> ('a, 'j) paginator \<Rightarrow> ('a, 'j) paginator" where
  "add_additional m p = p\<lparr>pg_additional := foldl (\<lambda>acc (k, v). AList.update k v acc) (pg_additional p) m\<rparr>"

definition get_additional :: "('a, 'j) paginator \<Rightarrow> (string \<times> 'j) list option" where
  "get_additional p = (if pg_additional p = [] then None else Some (pg_additional p))"

text \<open>A transformed paginator has the same fields over the transformed items.\<close>

definition through :: "('a \<Rightarrow> 'b) \<Rightarrow> ('a, 'j) paginator \<Rightarrow> ('b, 'j) paginator" where
  "through f p =
     \<lparr>pg_items = map f (pg_items p), pg_total = pg_total p, pg_perPage = pg_perPage p, pg_currentPage = pg_currentPage p,
      pg_lastPage = pg_lastPage p, pg_path = pg_path p, pg_query = pg_query p, pg_fragment = pg_fragment p,
      pg_pageName = pg_pageName p, pg_additional = pg_additional p\<rparr>"

subsection \<open>Links\<close>

definition page_query :: "('a, 'j) paginator \<Rightarrow> int \<Rightarrow> url_values" where
  "page_query p page =
     set_value (if pg_pageName p = '''' then ''page'' else pg_pageName p) (strconv_itoa page) (pg_query p)"

definition url_text :: "('a, 'j) paginator \<Rightarrow> int \<Rightarrow> string" where
  "url_text p page =
     (if pg_path p = '''' then ''?'' @ encode_values (page_query p page)
      else pg_path p @ (if CHR ''?'' \<in> set (pg_path p) then ''&'' else ''?'') @ encode_values (page_query p page))
     @ (if pg_fragment p \<noteq> '''' then ''#'' @ pg_fragment p else '''')"

definition page_url :: "('a, 'j) paginator \<Rightarrow> int \<Rightarrow> string" where
  "page_url p page =
     (let page1 = (if page < 1 then 1 else page);
          page2 = (if page1 > pg_lastPage p then pg_lastPage p else page1)
      in url_text p page2)"

definition previous_page_url :: "('a, 'j) paginator \<Rightarrow> string option" where
  "previous_page_url p = (if on_first_page p then None else Some (page_url p (pg_currentPage p - 1)))"

definition next_page_url :: "('a, 'j) paginator \<Rightarrow> string option" where
  "next_page_url p = (if \<not> has_more_pages p then None else Some (page_url p (pg_currentPage p + 1)))"

record page_links =
  pl_first :: string
  pl_last :: string
  pl_prev :: "string option"
  pl_next :: "string option"

definition get_links :: "('a, 'j) paginator \<Rightarrow> page_links" where
  "get_links p = \<lparr>pl_first = page_url p 1, pl_last = page_url p (pg_lastPage p),
                  pl_prev = previous_page_url p, pl_next = next_page_url p\<rparr>"

text \<open>The links of a transformed paginator do not clamp the page.\<close>

definition transformed_links :: "('a, 'j) paginator \<Rightarrow> page_links" where
  "transformed_links p =
     \<lparr>pl_first = url_text p 1, pl_last = url_text p (pg_lastPage p),
      pl_prev = (if pg_currentPage p > 1 then Some (url_text p (pg_currentPage p - 1)) else None),
      pl_next = (if pg_currentPage p < pg_lastPage p then Some (url_text p (pg_currentPage p + 1)) else None)\<rparr>"

record page_meta =
  mt_currentPage :: int
  mt_perPage :: int
  mt_total :: int
  mt_lastPage :: int
  mt_from :: int
  mt_to :: int

definition get_meta :: "('a, 'j) paginator \<Rightarrow> page_meta" where
  "get_meta p = \<lparr>mt_currentPage = pg_currentPage p, mt_perPage = pg_perPage p, mt_total = pg_total p,
                 mt_lastPage = pg_lastPage p, mt_from = page_from p, mt_to = page_to p\<rparr>"

text \<open>A transformed paginator takes a positive total where the other takes a non-zero one.\<close>

definition transformed_meta :: "('a, 'j) paginator \<Rightarrow> page_meta" where
  "transformed_meta p =
     (let t = wrap64 (pg_currentPage p * pg_perPage p)
      in \<lparr>mt_currentPage = pg_currentPage p, mt_perPage = pg_perPage p, mt_total = pg_total p, mt_lastPage = pg_lastPage p,
          mt_from = (if pg_total p > 0 then wrap64 ((pg_currentPage p - 1) * pg_perPage p + 1) else 0),
          mt_to = (if pg_total p > 0 then if t > pg_total p then pg_total p else t else 0)\<rparr>)"

definition on_each_side :: int where "on_each_side = 3"

definition url_window :: "('a, 'j) paginator \<Rightarrow> int list" where
  "url_window p =
     (let last1 = pg_lastPage p; cur = pg_currentPage p in
      if last1 \<le> on_each_side * 2 + 6 then [1..last1]
      else if cur \<le> on_each_side + 3 then [1..on_each_side * 2 + 2] @ [- 1, last1 - 1, last1]
      else if cur \<ge> last1 - on_each_side - 2 then [1, 2, - 1] @ [last1 - on_each_side * 2 - 1..last1]
      else [1, 2, - 1] @ [cur - on_each_side..cur + on_each_side] @ [- 1, last1 - 1, last1])"

record page_link =
  lk_url :: "string option"
  lk_label :: string
  lk_active :: bool
  lk_page :: int

definition window_link :: "('a, 'j) paginator \<Rightarrow> int \<Rightarrow> page_link" where
  "window_link p page =
     (if page = - 1 then \<lparr>lk_url = None, lk_label = ''...'', lk_active = False, lk_page = 0\<rparr>
      else \<lparr>lk_url = Some (page_url p page), lk_label = strconv_itoa page, lk_active = (page = pg_currentPage p), lk_page = page\<rparr>)"

definition all_links :: "('a, 'j) paginator \<Rightarrow> page_link list" where
  "all_links p =
     [\<lparr>lk_url = previous_page_url p, lk_label = ''Previous'', lk_active = False, lk_page = pg_currentPage p - 1\<rparr>]
     @ map (window_link p) (url_window p)
     @ [\<lparr>lk_url = next_page_url p, lk_label = ''Next'', lk_active = False, lk_page = pg_currentPage p + 1\<rparr>]"

subsection \<open>Queries\<close>

text \<open>The count and the page of a query; \<open>OFFSET\<close> and \<open>LIMIT\<close> of its rows, and the two database failures.\<close>

definition page_rows_of :: "page_request \<Rightarrow> 'a list \<Rightarrow> 'a list" where
  "page_rows_of r rows = take (nat (get_per_page r)) (drop (nat (get_offset r)) rows)"

definition paginate ::
    "string option \<Rightarrow> string option \<Rightarrow> 'a list \<Rightarrow> page_request \<Rightarrow> string + 'a list \<times> ('a, 'j) paginator" where
  "paginate cf ff rows r =
     (case cf of
        Some e \<Rightarrow> Inl (''failed to count: '' @ e)
      | None \<Rightarrow>
     (case ff of
        Some e \<Rightarrow> Inl (''failed to fetch items: '' @ e)
      | None \<Rightarrow>
          (let items = page_rows_of r rows
           in Inr (items, new_paginator items (int (length rows)) (get_page r) (get_per_page r)))))"

definition paginate_with_path ::
    "string option \<Rightarrow> string option \<Rightarrow> 'a list \<Rightarrow> page_request \<Rightarrow> string \<Rightarrow> string + 'a list \<times> ('a, 'j) paginator" where
  "paginate_with_path cf ff rows r path =
     (case paginate cf ff rows r of
        Inl e \<Rightarrow> Inl e
      | Inr (items, p) \<Rightarrow> Inr (items, set_path path p))"

text \<open>\<open>New\<close>: the request's own path and query go into the links. \<open>q\<close> is \<open>Request.URL.Query()\<close>.\<close>

definition new_page ::
    "(string \<Rightarrow> string option) \<Rightarrow> string \<Rightarrow> url_values \<Rightarrow> string option \<Rightarrow> string option \<Rightarrow> 'a list
     \<Rightarrow> string + 'a list \<times> ('a, 'j) paginator" where
  "new_page get path q cf ff rows =
     (case paginate cf ff rows (from_context get) of
        Inl e \<Rightarrow> Inl e
      | Inr (items, p) \<Rightarrow> Inr (items, with_query q (set_path path p)))"

record 'a page_result =
  rs_items :: "'a list"
  rs_total :: int
  rs_page :: int
  rs_perPage :: int

definition to_paginator :: "string \<Rightarrow> url_values \<Rightarrow> 'a page_result \<Rightarrow> ('a, 'j) paginator" where
  "to_paginator path q r =
     with_query q (set_path path (new_paginator (rs_items r) (rs_total r) (rs_page r) (rs_perPage r)))"

end
