(* ===== verification/Pagination_Props.thy ===== *)
theory Pagination_Props
  imports Pagination
begin

text \<open>
  The properties of offset pagination: the pages of a query are a partition of its rows, the window of page
  numbers leaves out only what its ellipses stand for, and a link reads back as the request of its page,
  except for the page size, which it loses.
\<close>

subsection \<open>Pages\<close>

lemma per_page_bounds: "1 \<le> get_per_page r \<and> get_per_page r \<le> 100"
  by (simp add: get_per_page_def default_per_page_def max_per_page_def)

lemma bound_per_page_id: "bound_per_page (get_per_page r) = get_per_page r"
  using per_page_bounds [of r] by (simp add: bound_per_page_def Let_def max_per_page_def)

lemma ceil_div_covers:
  assumes "0 < b" shows "a \<le> ceil_div a b * b" "(ceil_div a b - 1) * b < a"
proof -
  have "(- a) div b * b + (- a) mod b = - a" by (rule div_mult_mod_eq)
  moreover have "0 \<le> (- a) mod b" "(- a) mod b < b" using assms by simp_all
  ultimately show "a \<le> ceil_div a b * b" "(ceil_div a b - 1) * b < a"
    by (simp_all only: ceil_div_def left_diff_distrib mult_minus_left mult_1_left)
qed

lemma concat_chunks: "concat (map (\<lambda>i. take k (drop (i * k) xs)) [0..<n]) = take (n * k) xs"
proof (induction n)
  case (Suc n)
  have "take (Suc n * k) xs = take (n * k + k) xs" by (simp add: add.commute)
  with Suc show ?case by (simp add: take_add del: mult_Suc)
qed simp

definition last_page :: "page_request \<Rightarrow> 'a list \<Rightarrow> int" where
  "last_page r rows = (let l = ceil_div (int (length rows)) (get_per_page r) in if l < 1 then 1 else l)"

lemma last_page_bounds:
  assumes "1 \<le> n" "n \<le> last_page r rows"
  shows "(n - 1) * get_per_page r \<le> int (length rows)" "rows \<noteq> [] \<Longrightarrow> (n - 1) * get_per_page r < int (length rows)"
proof -
  have b: "0 < get_per_page r" using per_page_bounds [of r] by linarith
  note c = ceil_div_covers [OF b, of "int (length rows)"]
  have "(n - 1) * get_per_page r < int (length rows)" if ne: "rows \<noteq> []"
  proof -
    have "ceil_div (int (length rows)) (get_per_page r) \<ge> 1"
    proof (rule ccontr)
      assume "\<not> 1 \<le> ceil_div (int (length rows)) (get_per_page r)"
      then have "ceil_div (int (length rows)) (get_per_page r) * get_per_page r \<le> 0"
        using b by (simp add: mult_le_0_iff)
      with c(1) have "int (length rows) \<le> 0" by linarith
      with ne show False by simp
    qed
    with assms(2) have "n - 1 \<le> ceil_div (int (length rows)) (get_per_page r) - 1"
      by (simp add: last_page_def Let_def)
    then have "(n - 1) * get_per_page r \<le> (ceil_div (int (length rows)) (get_per_page r) - 1) * get_per_page r"
      using b by (intro mult_right_mono) simp_all
    with c(2) show ?thesis by linarith
  qed
  moreover have "rows = [] \<Longrightarrow> n = 1" using assms by (simp add: last_page_def ceil_div_def)
  ultimately show "(n - 1) * get_per_page r \<le> int (length rows)" "rows \<noteq> [] \<Longrightarrow> (n - 1) * get_per_page r < int (length rows)"
    by fastforce+
qed

lemma page_rows:
  assumes "1 \<le> n" "n \<le> last_page r rows" "int (length rows) \<le> 4611686018427387904"
  shows "page_rows_of (r\<lparr>rq_page := n\<rparr>) rows
    = take (nat (get_per_page r)) (drop (nat (n - 1) * nat (get_per_page r)) rows)"
proof -
  have pp: "get_per_page (r\<lparr>rq_page := n\<rparr>) = get_per_page r" "get_page (r\<lparr>rq_page := n\<rparr>) = n"
    using assms(1) by (simp_all add: get_per_page_def get_page_def)
  have "(n - 1) * get_per_page r \<le> 4611686018427387904" using last_page_bounds(1) [OF assms(1,2)] assms(3) by linarith
  moreover have "0 \<le> (n - 1) * get_per_page r" using assms(1) per_page_bounds [of r] by simp
  ultimately have "get_offset (r\<lparr>rq_page := n\<rparr>) = (n - 1) * get_per_page r"
    unfolding get_offset_def pp by (intro wrap64_id) simp_all
  then show ?thesis
    using assms(1) per_page_bounds [of r] by (simp add: page_rows_of_def pp nat_mult_distrib)
qed

text \<open>The pages of a query, from the first to the last, are a partition of its rows in order; each page a
  request names is at most its page size long, and its \<open>from\<close> and \<open>to\<close> are the positions of its rows.\<close>

theorem pages_partition_the_rows:
  assumes "int (length rows) \<le> 4611686018427387904"
  shows "concat (map (\<lambda>n. page_rows_of (r\<lparr>rq_page := int n\<rparr>) rows) [1..<Suc (nat (last_page r rows))]) = rows
    \<and> (\<forall>n \<in> {1..last_page r rows}. \<exists>items p :: ('a, 'j) paginator.
        paginate None None rows (r\<lparr>rq_page := n\<rparr>) = Inr (items, p) \<and> items = page_rows_of (r\<lparr>rq_page := n\<rparr>) rows
        \<and> pg_items p = items \<and> pg_lastPage p = last_page r rows \<and> int (length items) \<le> get_per_page r
        \<and> (rows \<noteq> [] \<longrightarrow> 1 \<le> page_from p \<and> page_from p \<le> page_to p
             \<and> items = take (nat (page_to p - page_from p + 1)) (drop (nat (page_from p - 1)) rows)))"
proof
  let ?k = "nat (get_per_page r)" and ?L = "nat (last_page r rows)"
  have b: "0 < get_per_page r" "get_per_page r \<le> 100" using per_page_bounds [of r] by simp_all
  have L1: "1 \<le> last_page r rows" by (simp add: last_page_def Let_def)
  have "int (length rows) \<le> last_page r rows * get_per_page r"
  proof -
    have "ceil_div (int (length rows)) (get_per_page r) \<le> last_page r rows" by (simp add: last_page_def Let_def)
    then have "ceil_div (int (length rows)) (get_per_page r) * get_per_page r \<le> last_page r rows * get_per_page r"
      using b by (intro mult_right_mono) simp_all
    with ceil_div_covers(1) [OF b(1), of "int (length rows)"] show ?thesis by linarith
  qed
  then have "int (length rows) \<le> int (?L * ?k)" using L1 b by simp
  then have all: "take (?L * ?k) rows = rows" by (simp only: of_nat_le_iff) simp
  have "map (\<lambda>n. page_rows_of (r\<lparr>rq_page := int n\<rparr>) rows) [1..<Suc ?L]
      = map (\<lambda>i. take ?k (drop (i * ?k) rows)) [0..<?L]"
  proof -
    have "page_rows_of (r\<lparr>rq_page := int (Suc i)\<rparr>) rows = take ?k (drop (i * ?k) rows)" if "i < ?L" for i
    proof -
      have "1 \<le> int (Suc i)" "int (Suc i) \<le> last_page r rows" using that L1 by linarith+
      from page_rows [OF this assms] show ?thesis by simp
    qed
    moreover have "[1..<Suc ?L] = map Suc [0..<?L]" by (simp add: map_Suc_upt)
    ultimately show ?thesis by simp
  qed
  then show "concat (map (\<lambda>n. page_rows_of (r\<lparr>rq_page := int n\<rparr>) rows) [1..<Suc (nat (last_page r rows))]) = rows"
    by (simp only: concat_chunks all)
  show "\<forall>n \<in> {1..last_page r rows}. \<exists>items p :: ('a, 'j) paginator.
        paginate None None rows (r\<lparr>rq_page := n\<rparr>) = Inr (items, p) \<and> items = page_rows_of (r\<lparr>rq_page := n\<rparr>) rows
        \<and> pg_items p = items \<and> pg_lastPage p = last_page r rows \<and> int (length items) \<le> get_per_page r
        \<and> (rows \<noteq> [] \<longrightarrow> 1 \<le> page_from p \<and> page_from p \<le> page_to p
             \<and> items = take (nat (page_to p - page_from p + 1)) (drop (nat (page_from p - 1)) rows))"
  proof
    fix n assume n: "n \<in> {1..last_page r rows}"
    then have n1: "1 \<le> n" "n \<le> last_page r rows" by simp_all
    obtain items where it0: "page_rows_of (r\<lparr>rq_page := n\<rparr>) rows = items" by simp
    obtain p :: "('a, 'j) paginator" where p: "new_paginator items (int (length rows)) n (get_per_page r) = p" by simp
    have rq: "get_per_page (r\<lparr>rq_page := n\<rparr>) = get_per_page r" "get_page (r\<lparr>rq_page := n\<rparr>) = n"
      using n1(1) by (simp_all add: get_per_page_def get_page_def)
    have pg: "pg_items p = items" "pg_lastPage p = last_page r rows" "pg_currentPage p = n"
        "pg_perPage p = get_per_page r" "pg_total p = int (length rows)"
      using n1(1) by (simp_all add: p [symmetric] new_paginator_def Let_def last_page_def bound_per_page_id)
    note rows_n = page_rows [OF n1 assms, unfolded it0]
    have "1 \<le> page_from p \<and> page_from p \<le> page_to p
        \<and> items = take (nat (page_to p - page_from p + 1)) (drop (nat (page_from p - 1)) rows)" if ne: "rows \<noteq> []"
    proof -
      have lt: "(n - 1) * get_per_page r < int (length rows)" by (rule last_page_bounds(2) [OF n1 ne])
      have pos: "0 \<le> (n - 1) * get_per_page r" using n1 b by simp
      have np: "n * get_per_page r = (n - 1) * get_per_page r + get_per_page r" by (simp add: left_diff_distrib)
      have from1: "page_from p = (n - 1) * get_per_page r + 1"
        unfolding page_from_def pg using ne lt pos assms by (simp add: wrap64_id)
      have to1: "page_to p = min (n * get_per_page r) (int (length rows))"
        unfolding page_to_def pg using ne lt pos assms b np by (simp add: wrap64_id Let_def min_def)
      have "nat (page_from p - 1) = nat (n - 1) * ?k" unfolding from1 using n1 b by (simp add: nat_mult_distrib)
      with rows_n have it: "items = take ?k (drop (nat (page_from p - 1)) rows)" by (simp only:)
      have "take ?k (drop (nat (page_from p - 1)) rows) = take (nat (page_to p - page_from p + 1)) (drop (nat (page_from p - 1)) rows)"
      proof (cases "n * get_per_page r \<le> int (length rows)")
        case True
        then show ?thesis by (simp add: from1 to1 min_def np)
      next
        case False
        then have "length (drop (nat (page_from p - 1)) rows) \<le> ?k"
          "length (drop (nat (page_from p - 1)) rows) \<le> nat (page_to p - page_from p + 1)"
          using pos lt np by (simp_all add: from1 to1 min_def nat_diff_distrib)
        then show ?thesis by simp
      qed
      with it have "items = take (nat (page_to p - page_from p + 1)) (drop (nat (page_from p - 1)) rows)" by (simp only:)
      moreover have "1 \<le> page_from p" "page_from p \<le> page_to p" using from1 to1 pos lt np b by simp_all
      ultimately show ?thesis by blast
    qed
    moreover have "int (length items) \<le> get_per_page r" using rows_n b by simp
    moreover have "paginate None None rows (r\<lparr>rq_page := n\<rparr>) = Inr (items, p)" by (simp add: paginate_def rq Let_def it0 p)
    ultimately show "\<exists>items p :: ('a, 'j) paginator.
        paginate None None rows (r\<lparr>rq_page := n\<rparr>) = Inr (items, p) \<and> items = page_rows_of (r\<lparr>rq_page := n\<rparr>) rows
        \<and> pg_items p = items \<and> pg_lastPage p = last_page r rows \<and> int (length items) \<le> get_per_page r
        \<and> (rows \<noteq> [] \<longrightarrow> 1 \<le> page_from p \<and> page_from p \<le> page_to p
             \<and> items = take (nat (page_to p - page_from p + 1)) (drop (nat (page_from p - 1)) rows))"
      using pg(1,2) it0 [symmetric] by (intro exI [of _ items] exI [of _ p] conjI impI) simp_all
  qed
qed

lemma pages_partition_the_rows_witness:
  "concat (map (\<lambda>n. page_rows_of ((new_request 1 2)\<lparr>rq_page := int n\<rparr>) [10, 20, 30, 40, 50 :: nat])
     [1..<Suc (nat (last_page (new_request 1 2) [10, 20, 30, 40, 50 :: nat]))]) = [10, 20, 30, 40, 50]"
  by (rule conjunct1 [OF pages_partition_the_rows]) simp

subsection \<open>The window of page numbers\<close>

text \<open>A window counts up one by one; an ellipsis (\<open>- 1\<close>) stands for at least one page left out.\<close>

fun window_counts :: "int list \<Rightarrow> bool" where
  "window_counts [] = True"
| "window_counts [a] = (1 \<le> a)"
| "window_counts (a # b # rest) =
     (1 \<le> a \<and> (if b = - 1 then (case rest of [] \<Rightarrow> False | c # cs \<Rightarrow> a + 2 \<le> c \<and> window_counts rest)
                else b = a + 1 \<and> window_counts (b # rest)))"

lemma window_counts_upto:
  assumes "1 \<le> a" "a \<le> b"
  shows "window_counts ([a..b] @ rest) = window_counts (b # rest)"
  using assms(2,1)
proof (induction a rule: int_le_induct)
  case (step a)
  have "[a - 1..b] = (a - 1) # a # [a + 1..b]"
    using step.hyps by (simp add: upto_rec1 [of "a - 1"] upto_rec1 [of a])
  moreover have "[a..b] = a # [a + 1..b]" using step.hyps by (simp add: upto_rec1)
  ultimately show ?case using step by simp
qed (simp add: upto_rec1)

text \<open>The window of a paginator starts at the first page, ends at the last, counts up one by one except at
  an ellipsis that stands for pages left out, has at most thirteen entries, and shows the current page with the
  two pages on either side of it.\<close>

theorem url_window_covers:
  fixes items :: "'a list"
  assumes "p = (new_paginator items total1 page perPage :: ('a, 'j) paginator)"
  shows "hd (url_window p) = 1 \<and> last (url_window p) = pg_lastPage p \<and> window_counts (url_window p)
    \<and> length (url_window p) \<le> 13
    \<and> (\<forall>k. 1 \<le> k \<and> k \<le> pg_lastPage p \<and> pg_currentPage p \<le> pg_lastPage p \<and> \<bar>k - pg_currentPage p\<bar> \<le> 2
         \<longrightarrow> k \<in> set (url_window p))"
proof -
  obtain l c where l: "pg_lastPage p = l" and c: "pg_currentPage p = c" and b: "1 \<le> l" "1 \<le> c"
    using assms by (simp add: new_paginator_def Let_def)
  have w: "url_window p = (if l \<le> 12 then [1..l] else if c \<le> 6 then [1..8] @ [- 1, l - 1, l]
      else if l - 5 \<le> c then [1, 2, - 1] @ [l - 7..l] else [1, 2, - 1] @ [c - 3..c + 3] @ [- 1, l - 1, l])"
    by (simp add: url_window_def l c on_each_side_def Let_def algebra_simps)
  consider "l \<le> 12" | "12 < l" "c \<le> 6" | "12 < l" "6 < c" "l - 5 \<le> c" | "12 < l" "6 < c" "c < l - 5" by linarith
  then show ?thesis
  proof cases
    case 1
    then have "url_window p = [1..l] @ []" by (simp add: w)
    moreover from window_counts_upto [of 1 l "[]"] b have "window_counts ([1..l] @ [])" by simp
    moreover have "[1..l] = 1 # [2..l]" using b by (simp add: upto_rec1)
    moreover have "last [1..l] = l" using b by (simp add: upto_rec2)
    ultimately show ?thesis using 1 b by (auto simp: l c)
  next
    case 2
    then have w2: "url_window p = [1..8] @ [- 1, l - 1, l]" by (simp add: w)
    have "window_counts ([1..8] @ [- 1, l - 1, l])" by (subst window_counts_upto) (use 2 in auto)
    moreover have "[1..8] = 1 # [2..8 :: int]" by (simp add: upto_rec1)
    ultimately show ?thesis using 2 b by (auto simp: w2 l c)
  next
    case 3
    then have w3: "url_window p = [1, 2, - 1] @ [l - 7..l]" by (simp add: w)
    have "window_counts ([l - 7..l] @ [])" by (subst window_counts_upto) (use 3 in auto)
    moreover have "[l - 7..l] = (l - 7) # [l - 6..l]" by (simp add: upto_rec1)
    moreover have "last [l - 7..l] = l" by (simp add: upto_rec2)
    ultimately show ?thesis using 3 b by (auto simp: w3 l c)
  next
    case 4
    then have w4: "url_window p = [1, 2, - 1] @ [c - 3..c + 3] @ [- 1, l - 1, l]" by (simp add: w)
    have "window_counts ([c - 3..c + 3] @ [- 1, l - 1, l])" by (subst window_counts_upto) (use 4 in auto)
    moreover have "[c - 3..c + 3] = (c - 3) # [c - 2..c + 3]" by (simp add: upto_rec1)
    ultimately show ?thesis using 4 b by (auto simp: w4 l c)
  qed
qed

lemma url_window_covers_witness:
  "window_counts (url_window (new_paginator [] 1000 10 15 :: (nat, nat) paginator))"
  using url_window_covers [OF refl, of "[] :: nat list" 1000 10 15] by blast

text \<open>Three pages on either side are not always shown: on page 6 of 20 the window stops at page 8.\<close>

lemma window_is_short_at_the_edge:
  "url_window (new_paginator [] 300 6 15 :: (nat, nat) paginator) = [1, 2, 3, 4, 5, 6, 7, 8, - 1, 19, 20]"
  by (simp add: url_window_def new_paginator_def Let_def bound_per_page_def max_per_page_def ceil_div_def on_each_side_def upto_rec1)

subsection \<open>Links\<close>

text \<open>The query part of a URL, as \<open>url.Parse\<close> cuts it: what is before the fragment and after the first
  question mark.\<close>

definition url_query_part :: "string \<Rightarrow> string" where
  "url_query_part u = snd (cut_at CHR ''?'' (fst (cut_at CHR ''#'' u)))"

lemma encode_chars:
  "CHR ''#'' \<notin> set (encode_values q)" "CHR ''?'' \<notin> set (encode_values q)"
proof -
  have pair: "CHR ''#'' \<notin> set (encode_pair p) \<and> CHR ''?'' \<notin> set (encode_pair p)" for p
    using escape_no_separators(4,5) by (cases p) (simp add: encode_pair_def)
  have "\<forall>s \<in> set ss. c \<notin> set s \<Longrightarrow> c \<noteq> CHR ''&'' \<Longrightarrow> c \<notin> set (join_with ''&'' ss)" for c ss
    by (induction "''&''" ss rule: join_with.induct) auto
  then show "CHR ''#'' \<notin> set (encode_values q)" "CHR ''?'' \<notin> set (encode_values q)"
    unfolding encode_values_def using pair by simp_all
qed

lemma merge_query_values:
  assumes "distinct (map fst q)" "distinct (map fst acc)"
  shows "distinct (map fst (merge_query acc q)) \<and> map_of (merge_query acc q) k =
    (if k \<noteq> ''page'' \<and> k \<noteq> ''per_page'' \<and> k \<in> fst ` set q then map_of q k else map_of acc k)"
  using assms
proof (induction q arbitrary: acc)
  case (Cons x q)
  obtain k' vs where x: "x = (k', vs)" by (cases x)
  let ?acc = "if k' \<noteq> ''page'' \<and> k' \<noteq> ''per_page'' then AList.update k' vs acc else acc"
  have "distinct (map fst ?acc)" using Cons.prems(2) by (simp add: distinct_update)
  moreover have "merge_query acc (x # q) = merge_query ?acc q" by (simp add: merge_query_def x)
  moreover have "k' \<notin> fst ` set q" "distinct (map fst q)" using Cons.prems(1) x by auto
  moreover have "map_of ?acc k = (if k' \<noteq> ''page'' \<and> k' \<noteq> ''per_page'' \<and> k = k' then Some vs else map_of acc k)"
    by (simp add: update_conv')
  ultimately show ?case using Cons.IH [of ?acc] x by (auto simp: map_of_eq_None_iff)
qed (simp add: merge_query_def)

lemma page_query_values:
  assumes "distinct (map fst q)" "pg_query p = []" "pg_pageName p = ''page''"
  shows "distinct (map fst (page_query (with_query q p) n))"
    and "value_list (page_query (with_query q p) n) k =
      (if k = ''page'' then [strconv_itoa n] else if k = ''per_page'' then [] else value_list q k)"
proof -
  note w = merge_query_values [OF assms(1), of "[]"]
  have pq: "pg_query (with_query q p) = merge_query [] q" by (simp add: with_query_def assms(2))
  have d: "distinct (map fst (pg_query (with_query q p)))" unfolding pq using w by simp
  have m: "map_of (pg_query (with_query q p)) k = (if k \<noteq> ''page'' \<and> k \<noteq> ''per_page'' \<and> k \<in> fst ` set q then map_of q k else None)" for k
    unfolding pq using w by simp
  have nm: "pg_pageName (with_query q p) = ''page''" by (simp add: with_query_def assms(3))
  show "distinct (map fst (page_query (with_query q p) n))"
    using d by (simp add: page_query_def set_value_def distinct_update)
  show "value_list (page_query (with_query q p) n) k =
      (if k = ''page'' then [strconv_itoa n] else if k = ''per_page'' then [] else value_list q k)"
  proof -
    have "k \<notin> fst ` set q \<Longrightarrow> map_of q k = None" by (simp add: map_of_eq_None_iff)
    then show ?thesis using m [of k] by (simp add: page_query_def set_value_def nm value_list_def update_conv')
  qed
qed

lemma page_url_query:
  assumes "CHR ''?'' \<notin> set path" "CHR ''#'' \<notin> set path" "pg_fragment p = ''''"
  shows "url_query_part (url_text (set_path path p) n) = encode_values (page_query (set_path path p) n)"
proof -
  let ?q = "encode_values (page_query (set_path path p) n)"
  have u: "url_text (set_path path p) n = path @ CHR ''?'' # ?q"
    using assms by (simp add: url_text_def set_path_def)
  have "CHR ''#'' \<notin> set (path @ CHR ''?'' # ?q)" using assms(2) encode_chars(1) by auto
  then have "fst (cut_at CHR ''#'' (path @ CHR ''?'' # ?q)) = path @ CHR ''?'' # ?q"
    unfolding cut_at_def fst_conv by (auto simp: takeWhile_eq_all_conv)
  then show ?thesis using assms(1) unfolding u url_query_part_def by (simp add: cut_at_first)
qed

text \<open>C20: A link of a listing reads back: the request made from the URL of page \<open>n\<close> asks for page \<open>n\<close>, kept
  between the first and the last page, with the keyword, sort field and order of the original request. Its page
  size is the default, whatever the original request asked for.\<close>

theorem page_links_read_back:
  fixes rows :: "'a list" and p :: "('a, 'j) paginator" and q :: url_values and n :: int
  assumes "distinct (map fst q)" "CHR ''?'' \<notin> set path" "CHR ''#'' \<notin> set path"
    and "new_page (first_value q) path q None None rows = Inr (items, p)" "int (length rows) \<le> 4611686018427387904"
  defines "r \<equiv> from_context (first_value q)"
    and "r' \<equiv> from_context (first_value (parse_query (url_query_part (page_url p n))))"
  shows "get_page r' = max 1 (min n (pg_lastPage p)) \<and> rq_keyword r' = rq_keyword r \<and> rq_sort r' = rq_sort r
    \<and> get_order r' = get_order r \<and> get_per_page r' = default_per_page"
proof -
  obtain p0 :: "('a, 'j) paginator" where p0: "p0 = new_paginator (page_rows_of r rows) (int (length rows)) (get_page r) (get_per_page r)"
    by simp
  have p: "p = with_query q (set_path path p0)"
    using assms(4) by (auto simp: new_page_def paginate_def Let_def r_def p0)
  let ?m = "max 1 (min n (pg_lastPage p))"
  have L: "pg_lastPage p = last_page r rows"
    by (simp add: p with_query_def set_path_def p0 new_paginator_def Let_def last_page_def bound_per_page_id)
  have L1: "1 \<le> last_page r rows" by (simp add: last_page_def Let_def)
  have "(last_page r rows - 1) * 1 \<le> (last_page r rows - 1) * get_per_page r"
    using L1 per_page_bounds [of r] by (intro mult_left_mono) simp_all
  then have "last_page r rows - 1 \<le> (last_page r rows - 1) * get_per_page r" by simp
  also have "\<dots> \<le> int (length rows)" by (rule last_page_bounds(1) [OF L1 order_refl])
  finally have "last_page r rows \<le> 4611686018427387905" using assms(5) by simp
  with L1 L have m: "1 \<le> ?m" "?m < 9223372036854775808" by (simp_all add: max_def min_def)
  have "page_url p n = url_text p ?m" using L1 L by (simp add: page_url_def Let_def max_def min_def)
  moreover have "p = set_path path (with_query q p0)" by (simp add: p set_path_def with_query_def)
  moreover have "pg_fragment (with_query q p0) = ''''" by (simp add: p0 with_query_def new_paginator_def Let_def)
  ultimately have u: "url_query_part (page_url p n) = encode_values (page_query p ?m)"
    using page_url_query [OF assms(2,3), of "with_query q p0" ?m] by simp
  have "pg_query (set_path path p0) = []" "pg_pageName (set_path path p0) = ''page''"
    by (simp_all add: set_path_def p0 new_paginator_def Let_def)
  note pq = page_query_values [OF assms(1) this, folded p]
  have "value_list (parse_query (url_query_part (page_url p n))) k
      = (if k = ''page'' then [strconv_itoa ?m] else if k = ''per_page'' then [] else value_list q k)" for k
    unfolding u using parse_query_encode [OF pq(1), of ?m k] pq(2) [of ?m k] by simp
  then have fv: "first_value (parse_query (url_query_part (page_url p n))) k
      = (if k = ''page'' then Some (strconv_itoa ?m) else if k = ''per_page'' then None else first_value q k)" for k
    by (simp add: first_value_def)
  have at: "atoi (strconv_itoa ?m) = Some ?m" "atoi (strconv_itoa default_per_page) = Some default_per_page"
    by (rule atoi_itoa; use m in \<open>simp add: default_per_page_def\<close>)+
  have r': "rq_page r' = ?m" "rq_perPage r' = default_per_page" "rq_keyword r' = rq_keyword r" "rq_sort r' = rq_sort r"
      "rq_order r' = rq_order r"
    by (simp_all add: r'_def r_def from_context_def default_query_def fv at)
  then show ?thesis using m by (simp add: get_page_def get_order_def get_per_page_def default_per_page_def max_per_page_def)
qed

lemma page_links_read_back_witness:
  "get_per_page (from_context (first_value [(''per_page'', [''50'']), (''keyword'', [''a b''])])) = 50
   \<and> (\<exists>items p. new_page (first_value [(''per_page'', [''50'']), (''keyword'', [''a b''])]) ''/users''
          [(''per_page'', [''50'']), (''keyword'', [''a b''])] None None (replicate 120 (0 :: nat)) = Inr (items, p :: (nat, nat) paginator)
        \<and> get_page (from_context (first_value (parse_query (url_query_part (page_url p 2))))) = 2
        \<and> rq_keyword (from_context (first_value (parse_query (url_query_part (page_url p 2))))) = ''a b''
        \<and> get_per_page (from_context (first_value (parse_query (url_query_part (page_url p 2))))) = 15)"
proof -
  let ?q = "[(''per_page'', [''50'']), (''keyword'', [''a b''])]"
  have v: "get_per_page (from_context (first_value ?q)) = 50" "rq_keyword (from_context (first_value ?q)) = ''a b''" by code_simp+
  obtain items p where n: "new_page (first_value ?q) ''/users'' ?q None None (replicate 120 (0 :: nat)) = Inr (items, p :: (nat, nat) paginator)"
    by (simp add: new_page_def paginate_def Let_def)
  have "pg_lastPage p = 3" using n v(1)
    by (auto simp: new_page_def paginate_def Let_def with_query_def set_path_def new_paginator_def bound_per_page_def
        max_per_page_def ceil_div_def)
  with page_links_read_back [OF _ _ _ n, of 2] v n show ?thesis by (simp add: default_per_page_def)
qed

end
