(* ===== verification/Cursor_Pagination.thy ===== *)
theory Cursor_Pagination
  imports Pagination "HOL-Library.Product_Lexorder" "HOL-Library.Multiset"
begin

text \<open>
  Cursor pagination: \<open>api/pkg/pagination/cursor.go\<close>. The parameters of the model are \<open>encode\<close> and \<open>decode\<close>,
  the base64 text of a cursor's JSON; a row's columns \<open>col\<close>, compared as integers (instants, ids); and the
  row's accessors \<open>GetID\<close> and \<open>GetCreatedAt\<close>, where its type has them. The query result is computed from the
  list of all rows the caller's query selects.
\<close>

subsection \<open>Cursors and requests\<close>

text \<open>The value is nil when the item has no \<open>GetCreatedAt\<close>; otherwise it stands for an instant. JSON writes a time as
  text, and the decoded cursor holds that text in its \<open>any\<close> field: the database reads it as the instant again when it
  compares it with the column. So \<open>cu_value\<close> is the instant a cursor denotes, on either side of the codec.\<close>

record cursor =
  cu_field :: string
  cu_value :: "int option"
  cu_id :: nat
  cu_direction :: string

record cursor_request =
  cq_cursor :: string
  cq_perPage :: int

definition cursor_per_page :: "cursor_request \<Rightarrow> int" where
  "cursor_per_page r =
     (if cq_perPage r < 1 then default_per_page
      else if cq_perPage r > max_per_page then max_per_page else cq_perPage r)"

text \<open>\<open>fmt.Sscanf\<close> with \<open>%d\<close>: blanks, a sign and the leading digits; nothing on a syntax or range error.\<close>

definition scan_decimal :: "string \<Rightarrow> int option" where
  "scan_decimal s =
     (let t = dropWhile (\<lambda>c. c \<in> {CHR '' '', CHR 0x09, CHR 0x0D}) s;
          neg = (t \<noteq> [] \<and> hd t = CHR ''-'');
          body = (if t \<noteq> [] \<and> (hd t = CHR ''-'' \<or> hd t = CHR ''+'') then tl t else t)
      in case read_nat (takeWhile (\<lambda>c. digit_value c \<noteq> None) body) of
           None \<Rightarrow> None
         | Some n \<Rightarrow> (let v = (if neg then - int n else int n)
                      in if v < - 9223372036854775808 \<or> v > 9223372036854775807 then None else Some v))"

definition cursor_from_context :: "(string \<Rightarrow> string option) \<Rightarrow> cursor_request" where
  "cursor_from_context get =
     \<lparr>cq_cursor = default_query get ''cursor'' '''',
      cq_perPage = (case scan_decimal (default_query get ''per_page'' ''15'') of None \<Rightarrow> default_per_page | Some n \<Rightarrow> n)\<rparr>"

record 'a cursor_paginator =
  cp_items :: "'a list"
  cp_perPage :: int
  cp_nextCursor :: "string option"
  cp_prevCursor :: "string option"
  cp_hasMore :: bool
  cp_path :: string

definition new_cursor_paginator :: "'a list \<Rightarrow> int \<Rightarrow> bool \<Rightarrow> 'a cursor_paginator" where
  "new_cursor_paginator items perPage hasMore =
     \<lparr>cp_items = items, cp_perPage = perPage, cp_nextCursor = None, cp_prevCursor = None, cp_hasMore = hasMore, cp_path = ''''\<rparr>"

definition set_next_cursor :: "(cursor \<Rightarrow> string) \<Rightarrow> cursor option \<Rightarrow> 'a cursor_paginator \<Rightarrow> 'a cursor_paginator" where
  "set_next_cursor encode c p = (case c of None \<Rightarrow> p | Some x \<Rightarrow> p\<lparr>cp_nextCursor := Some (encode x)\<rparr>)"

definition set_prev_cursor :: "(cursor \<Rightarrow> string) \<Rightarrow> cursor option \<Rightarrow> 'a cursor_paginator \<Rightarrow> 'a cursor_paginator" where
  "set_prev_cursor encode c p = (case c of None \<Rightarrow> p | Some x \<Rightarrow> p\<lparr>cp_prevCursor := Some (encode x)\<rparr>)"

definition set_cursor_path :: "string \<Rightarrow> 'a cursor_paginator \<Rightarrow> 'a cursor_paginator" where
  "set_cursor_path path p = p\<lparr>cp_path := path\<rparr>"

subsection \<open>The query\<close>

record 'a row_type =
  rt_col :: "string \<Rightarrow> 'a \<Rightarrow> int"
  rt_getID :: "('a \<Rightarrow> nat) option"
  rt_getCreatedAt :: "('a \<Rightarrow> int) option"

definition build_cursor :: "'a row_type \<Rightarrow> 'a \<Rightarrow> string \<Rightarrow> string \<Rightarrow> cursor" where
  "build_cursor rt item cursorField direction =
     \<lparr>cu_field = cursorField,
      cu_value = map_option (\<lambda>f. f item) (rt_getCreatedAt rt),
      cu_id = (case rt_getID rt of None \<Rightarrow> 0 | Some f \<Rightarrow> f item),
      cu_direction = direction\<rparr>"

text \<open>The condition of a cursor; a comparison with NULL selects nothing.\<close>

definition cursor_condition :: "'a row_type \<Rightarrow> string \<Rightarrow> string \<Rightarrow> string \<Rightarrow> cursor \<Rightarrow> 'a \<Rightarrow> bool" where
  "cursor_condition rt cursorField order idField c row =
     (case cu_value c of
        None \<Rightarrow> False
      | Some v \<Rightarrow>
          if order = ''desc''
          then rt_col rt cursorField row < v \<or> rt_col rt cursorField row = v \<and> rt_col rt idField row < int (cu_id c)
          else rt_col rt cursorField row > v \<or> rt_col rt cursorField row = v \<and> rt_col rt idField row > int (cu_id c))"

text \<open>\<open>ORDER BY\<close>: SQL reads the direction without regard to case; no direction is ascending.\<close>

definition ascii_lower :: "char \<Rightarrow> char" where
  "ascii_lower c = (let n = of_char c :: nat in if 65 \<le> n \<and> n \<le> 90 then char_of (n + 32) else c)"

definition order_key :: "'a row_type \<Rightarrow> string \<Rightarrow> string \<Rightarrow> bool \<Rightarrow> 'a \<Rightarrow> int \<times> int" where
  "order_key rt cursorField idField desc row =
     (if desc then (- rt_col rt cursorField row, - rt_col rt idField row)
      else (rt_col rt cursorField row, rt_col rt idField row))"

definition order_rows :: "'a row_type \<Rightarrow> string \<Rightarrow> string \<Rightarrow> string \<Rightarrow> 'a list \<Rightarrow> 'a list option" where
  "order_rows rt cursorField order idField rows =
     (if map ascii_lower order = ''desc'' then Some (sort_key (order_key rt cursorField idField True) rows)
      else if map ascii_lower order = ''asc'' \<or> order = '''' then Some (sort_key (order_key rt cursorField idField False) rows)
      else None)"

definition cursor_paginate ::
    "(cursor \<Rightarrow> string) \<Rightarrow> (string \<Rightarrow> cursor option) \<Rightarrow> 'a row_type \<Rightarrow> string option \<Rightarrow> 'a list \<Rightarrow> cursor_request
     \<Rightarrow> string \<Rightarrow> string \<Rightarrow> string \<Rightarrow> string + 'a list \<times> 'a cursor_paginator" where
  "cursor_paginate encode decode rt flt rows req cursorField order idField =
     (let perPage = cursor_per_page req in
      case (if cq_cursor req \<noteq> ''''
            then (case decode (cq_cursor req) of
                    None \<Rightarrow> Inl ''invalid cursor''
                  | Some c \<Rightarrow> Inr (filter (cursor_condition rt cursorField order idField c) rows))
            else Inr rows) of
        Inl e \<Rightarrow> Inl e
      | Inr selected \<Rightarrow>
     (case (case flt of Some e \<Rightarrow> None | None \<Rightarrow> order_rows rt cursorField order idField selected) of
        None \<Rightarrow> Inl ''failed to fetch items''
      | Some ordered \<Rightarrow>
          (let fetched = take (nat (perPage + 1)) ordered;
               hasMore = (int (length fetched) > perPage);
               items = (if hasMore then take (nat perPage) fetched else fetched);
               p = new_cursor_paginator items perPage hasMore
           in Inr (items,
                   if hasMore \<and> items \<noteq> []
                   then set_next_cursor encode (Some (build_cursor rt (last items) cursorField ''next'')) p else p))))"

definition new_cursor ::
    "(cursor \<Rightarrow> string) \<Rightarrow> (string \<Rightarrow> cursor option) \<Rightarrow> 'a row_type \<Rightarrow> string option \<Rightarrow> 'a list
     \<Rightarrow> (string \<Rightarrow> string option) \<Rightarrow> string \<Rightarrow> string \<Rightarrow> string \<Rightarrow> string + 'a list \<times> 'a cursor_paginator" where
  "new_cursor encode decode rt flt rows get path cursorField order =
     (case cursor_paginate encode decode rt flt rows (cursor_from_context get) cursorField order ''id'' of
        Inl e \<Rightarrow> Inl e
      | Inr (items, p) \<Rightarrow> Inr (items, set_cursor_path path p))"

subsection \<open>Following the cursors\<close>

text \<open>A client that follows the next cursors until there is none; \<open>None\<close> when the fuel does not last or a
  page fails.\<close>

fun follow_cursors ::
    "(cursor \<Rightarrow> string) \<Rightarrow> (string \<Rightarrow> cursor option) \<Rightarrow> 'a row_type \<Rightarrow> 'a list \<Rightarrow> int \<Rightarrow> string \<Rightarrow> string
     \<Rightarrow> nat \<Rightarrow> string \<Rightarrow> 'a list list option" where
  "follow_cursors encode decode rt rows k field order 0 cur = None"
| "follow_cursors encode decode rt rows k field order (Suc n) cur =
     (case cursor_paginate encode decode rt None rows \<lparr>cq_cursor = cur, cq_perPage = k\<rparr> field order ''id'' of
        Inl e \<Rightarrow> None
      | Inr (items, p) \<Rightarrow>
          (case cp_nextCursor p of
             None \<Rightarrow> Some [items]
           | Some c \<Rightarrow> map_option (Cons items) (follow_cursors encode decode rt rows k field order n c)))"

text \<open>The laws of the parameters: a cursor decodes to itself and its text is not empty; the item's accessors
  read the columns \<open>created_at\<close> and \<open>id\<close>.\<close>

definition cursor_codec :: "(cursor \<Rightarrow> string) \<Rightarrow> (string \<Rightarrow> cursor option) \<Rightarrow> bool" where
  "cursor_codec encode decode \<longleftrightarrow> (\<forall>c. decode (encode c) = Some c \<and> encode c \<noteq> '''')"

definition row_accessors :: "'a row_type \<Rightarrow> bool" where
  "row_accessors rt \<longleftrightarrow> (\<exists>gid gca. rt_getID rt = Some gid \<and> rt_getCreatedAt rt = Some gca
     \<and> (\<forall>row. rt_col rt ''created_at'' row = gca row \<and> rt_col rt ''id'' row = int (gid row)))"

abbreviation row_key :: "'a row_type \<Rightarrow> string \<Rightarrow> 'a \<Rightarrow> int \<times> int" where
  "row_key rt order \<equiv> order_key rt ''created_at'' ''id'' (order = ''desc'')"

lemma cursor_condition_after:
  assumes "row_accessors rt" "order = ''desc'' \<or> order = ''asc''"
  shows "cursor_condition rt ''created_at'' order ''id'' (build_cursor rt x ''created_at'' d) row
    \<longleftrightarrow> row_key rt order x < row_key rt order row"
  using assms by (auto simp: row_accessors_def cursor_condition_def build_cursor_def order_key_def less_prod_def')

lemma strict_sort:
  assumes "distinct (map f xs)"
  shows "sorted_wrt (\<lambda>x y. f x < f y) (sort_key f xs)"
proof -
  have "sorted (map f (sort_key f xs))" by simp
  moreover have "distinct (map f (sort_key f xs))" using assms by (simp add: distinct_map)
  ultimately have "sorted_wrt (<) (map f (sort_key f xs))" by (simp add: strict_sorted_iff)
  then show ?thesis by (simp add: sorted_wrt_map)
qed

lemma filter_after:
  assumes "sorted_wrt (\<lambda>x y. f x < (f y :: 'k :: linorder)) (ys @ x # zs)"
  shows "filter (\<lambda>r. f x < f r) (ys @ x # zs) = zs"
proof -
  have "filter (\<lambda>r. f x < f r) ys = []" using assms by (fastforce simp: filter_empty_conv sorted_wrt_append)
  moreover have "filter (\<lambda>r. f x < f r) zs = zs" using assms by (auto simp: sorted_wrt_append)
  ultimately show ?thesis by simp
qed

subsection \<open>One page\<close>

lemma order_rows_by_key:
  "order = ''desc'' \<or> order = ''asc'' \<Longrightarrow>
   order_rows rt ''created_at'' order ''id'' rows = Some (sort_key (row_key rt order) rows)"
proof -
  have low: "map ascii_lower ''desc'' = ''desc''" "map ascii_lower ''asc'' = ''asc''" by code_simp+
  assume "order = ''desc'' \<or> order = ''asc''"
  then show ?thesis unfolding order_rows_def by (elim disjE) (simp_all only: low, simp_all)
qed

lemma cursor_page:
  assumes codec: "cursor_codec encode decode" and acc: "row_accessors rt" and ord: "order = ''desc'' \<or> order = ''asc''"
    and xs: "sort_key (row_key rt order) rows = ys @ zs" and d: "distinct (map (row_key rt order) rows)"
    and cur: "cur = (if ys = [] then '''' else encode (build_cursor rt (last ys) ''created_at'' ''next''))"
    and k: "1 \<le> k" "k \<le> 100"
  shows "\<exists>p. cursor_paginate encode decode rt None rows \<lparr>cq_cursor = cur, cq_perPage = k\<rparr> ''created_at'' order ''id''
      = Inr (take (nat k) zs, p)
    \<and> cp_nextCursor p = (if nat k < length zs
        then Some (encode (build_cursor rt (last (take (nat k) zs)) ''created_at'' ''next'')) else None)"
proof -
  have ok: "decode (encode c) = Some c" "encode c \<noteq> ''''" for c using codec by (simp_all add: cursor_codec_def)
  have pp: "cursor_per_page \<lparr>cq_cursor = cur, cq_perPage = k\<rparr> = k"
    using k by (simp add: cursor_per_page_def max_per_page_def)
  obtain sel where sel: "(if cur \<noteq> '''' then (case decode cur of None \<Rightarrow> Inl ''invalid cursor''
        | Some c \<Rightarrow> Inr (filter (cursor_condition rt ''created_at'' order ''id'' c) rows)) else Inr rows) = Inr sel"
      and zs: "order_rows rt ''created_at'' order ''id'' sel = Some zs"
  proof (cases "ys = []")
    case True
    have "order_rows rt ''created_at'' order ''id'' rows = Some zs"
      using xs True by (simp add: order_rows_by_key [OF ord])
    with that [of rows] cur True show ?thesis by simp
  next
    case False
    then obtain ys' x where ys: "ys = ys' @ [x]" by (metis rev_exhaust)
    let ?sel = "filter (\<lambda>r. row_key rt order x < row_key rt order r) rows"
    have "sort_key (row_key rt order) ?sel = filter (\<lambda>r. row_key rt order x < row_key rt order r) (ys' @ x # zs)"
      using xs ys by (simp add: filter_sort [symmetric])
    also have "\<dots> = zs"
      by (rule filter_after) (use strict_sort [OF d] xs ys in simp)
    finally have "order_rows rt ''created_at'' order ''id'' ?sel = Some zs"
      by (simp add: order_rows_by_key [OF ord])
    moreover have "cursor_condition rt ''created_at'' order ''id'' (build_cursor rt x ''created_at'' ''next'')
        = (\<lambda>r. row_key rt order x < row_key rt order r)"
      by (rule ext) (rule cursor_condition_after [OF acc ord])
    ultimately show ?thesis using that [of ?sel] cur ys by (simp add: ok)
  qed
  let ?fetched = "take (nat (k + 1)) zs"
  have more: "int (length ?fetched) > k \<longleftrightarrow> nat k < length zs" using k by auto
  have items: "(if int (length ?fetched) > k then take (nat k) ?fetched else ?fetched) = take (nat k) zs"
    using k by (auto simp: min_def)
  have ne: "nat k < length zs \<Longrightarrow> take (nat k) zs \<noteq> []" using k by auto
  show ?thesis
    unfolding cursor_paginate_def Let_def pp cursor_request.select_convs sel sum.case zs option.case more items
    using ne by (cases "nat k < length zs") (simp_all add: set_next_cursor_def new_cursor_paginator_def)
qed

subsection \<open>All pages\<close>

lemma follow_from:
  assumes codec: "cursor_codec encode decode" and acc: "row_accessors rt" and ord: "order = ''desc'' \<or> order = ''asc''"
    and d: "distinct (map (row_key rt order) rows)" and k: "1 \<le> k" "k \<le> 100"
    and xs: "sort_key (row_key rt order) rows = ys @ zs"
    and cur: "cur = (if ys = [] then '''' else encode (build_cursor rt (last ys) ''created_at'' ''next''))"
    and n: "length zs < n * nat k"
  shows "\<exists>pages. follow_cursors encode decode rt rows k ''created_at'' order n cur = Some pages
    \<and> concat pages = zs \<and> (\<forall>p \<in> set pages. int (length p) \<le> k)"
  using xs cur n
proof (induction n arbitrary: ys zs cur)
  case (Suc n)
  from cursor_page [OF codec acc ord Suc.prems(1) d Suc.prems(2) k] obtain p where
      p: "cursor_paginate encode decode rt None rows \<lparr>cq_cursor = cur, cq_perPage = k\<rparr> ''created_at'' order ''id''
        = Inr (take (nat k) zs, p)"
      "cp_nextCursor p = (if nat k < length zs
        then Some (encode (build_cursor rt (last (take (nat k) zs)) ''created_at'' ''next'')) else None)" by blast
  show ?case
  proof (cases "nat k < length zs")
    case False
    then show ?thesis using p k by simp
  next
    case True
    let ?c = "encode (build_cursor rt (last (take (nat k) zs)) ''created_at'' ''next'')"
    have ne: "take (nat k) zs \<noteq> []" using True k by auto
    have "\<exists>pages. follow_cursors encode decode rt rows k ''created_at'' order n ?c = Some pages
        \<and> concat pages = drop (nat k) zs \<and> (\<forall>p \<in> set pages. int (length p) \<le> k)"
    proof (rule Suc.IH)
      show "sort_key (row_key rt order) rows = (ys @ take (nat k) zs) @ drop (nat k) zs" using Suc.prems(1) by simp
      show "?c = (if ys @ take (nat k) zs = [] then '''' else encode (build_cursor rt (last (ys @ take (nat k) zs)) ''created_at'' ''next''))"
        using ne by simp
      show "length (drop (nat k) zs) < n * nat k" using Suc.prems(3) True by simp
    qed
    then obtain pages where "follow_cursors encode decode rt rows k ''created_at'' order n ?c = Some pages"
        "concat pages = drop (nat k) zs" "\<forall>p \<in> set pages. int (length p) \<le> k" by blast
    then show ?thesis using p True k by simp
  qed
qed simp

text \<open>C16: Following the next cursors of a listing by creation time ends after at most one page more than the rows
  need, and visits every row exactly once, in order, in pages within the page size.\<close>

theorem cursors_visit_every_row_once:
  assumes "cursor_codec encode decode" "row_accessors rt" "order = ''desc'' \<or> order = ''asc''"
    and "distinct (map (rt_col rt ''id'') rows)" "1 \<le> k" "k \<le> 100"
  shows "\<exists>pages. follow_cursors encode decode rt rows k ''created_at'' order (length rows div nat k + 1) '''' = Some pages
    \<and> concat pages = sort_key (row_key rt order) rows \<and> mset (concat pages) = mset rows
    \<and> (\<forall>p \<in> set pages. int (length p) \<le> k)"
proof -
  have d: "distinct (map (row_key rt order) rows)"
    using assms(4) by (auto simp: distinct_map inj_on_def order_key_def)
  have k: "0 < nat k" using assms(5) by simp
  have "length rows < (length rows div nat k + 1) * nat k"
    using dividend_less_div_times [OF k, of "length rows"] by (simp add: add.commute)
  then have "\<exists>pages. follow_cursors encode decode rt rows k ''created_at'' order (length rows div nat k + 1) '''' = Some pages
      \<and> concat pages = sort_key (row_key rt order) rows \<and> (\<forall>p \<in> set pages. int (length p) \<le> k)"
    by (intro follow_from [OF assms(1,2,3) d assms(5,6), of "[]"]) simp_all
  then show ?thesis by auto
qed

text \<open>A concrete codec: the fields as text, separated by ampersands.\<close>

definition demo_encode :: "cursor \<Rightarrow> string" where
  "demo_encode c =
     query_escape (cu_field c) @ CHR ''&'' # (case cu_value c of None \<Rightarrow> ''n'' | Some v \<Rightarrow> strconv_itoa v)
     @ CHR ''&'' # show_nat (cu_id c) @ CHR ''&'' # query_escape (cu_direction c)"

definition demo_value :: "string \<Rightarrow> int option" where
  "demo_value v =
     (if v \<noteq> [] \<and> hd v = CHR ''-'' then map_option (\<lambda>n. - int n) (read_nat (tl v)) else map_option int (read_nat v))"

definition demo_decode :: "string \<Rightarrow> cursor option" where
  "demo_decode s =
     (case split_on CHR ''&'' s of
        [f, v, i, d] \<Rightarrow>
          (case (query_unescape f, read_nat i, query_unescape d) of
             (Some f', Some i', Some d') \<Rightarrow>
               Some \<lparr>cu_field = f', cu_value = (if v = ''n'' then None else demo_value v), cu_id = i', cu_direction = d'\<rparr>
           | _ \<Rightarrow> None)
      | _ \<Rightarrow> None)"

lemma demo_value_itoa: "demo_value (strconv_itoa v) = Some v \<and> strconv_itoa v \<noteq> ''n'' \<and> CHR ''&'' \<notin> set (strconv_itoa v)"
proof -
  have dig: "c \<in> set (show_nat n) \<Longrightarrow> c \<noteq> CHR ''&'' \<and> c \<noteq> CHR ''n'' \<and> c \<noteq> CHR ''-''" for c n
    using show_nat_digits [of c n] by auto
  have hd: "show_nat n \<noteq> [] \<and> hd (show_nat n) \<in> set (show_nat n)" for n using read_show_nat [of n] by simp
  have n: "show_nat n \<noteq> ''n''" for n using dig [of "CHR ''n''" n] by auto
  have rd: "read_nat (show_nat n) = Some n" for n using read_show_nat [of n] by (simp add: read_nat_def)
  show ?thesis
  proof (cases "v < 0")
    case True
    with dig rd show ?thesis by (auto simp: strconv_itoa_def demo_value_def)
  next
    case False
    with dig rd hd n show ?thesis by (fastforce simp: strconv_itoa_def demo_value_def)
  qed
qed

lemma demo_codec: "cursor_codec demo_encode demo_decode"
  unfolding cursor_codec_def
proof
  fix c :: cursor
  let ?v = "case cu_value c of None \<Rightarrow> ''n'' | Some v \<Rightarrow> strconv_itoa v"
  have "c' \<in> set (show_nat n) \<Longrightarrow> c' \<noteq> CHR ''&''" for c' n using show_nat_digits [of c' n] by auto
  then have amp: "CHR ''&'' \<notin> set (show_nat (cu_id c))" "CHR ''&'' \<notin> set ?v"
    using demo_value_itoa by (auto split: option.splits)
  have "split_on CHR ''&'' (demo_encode c)
      = [query_escape (cu_field c), ?v, show_nat (cu_id c), query_escape (cu_direction c)]"
    using amp escape_no_separators(1) by (simp add: demo_encode_def split_on_append split_on_no_sep)
  moreover have "read_nat (show_nat n) = Some n" for n using read_show_nat [of n] by (simp add: read_nat_def)
  moreover have "(if ?v = ''n'' then None else demo_value ?v) = cu_value c"
    using demo_value_itoa by (simp split: option.splits)
  ultimately have "demo_decode (demo_encode c) = Some c"
    by (simp add: demo_decode_def unescape_escape del: if_split_asm)
  moreover have "demo_encode c \<noteq> ''''" by (simp add: demo_encode_def)
  ultimately show "demo_decode (demo_encode c) = Some c \<and> demo_encode c \<noteq> ''''" by blast
qed

text \<open>Rows that are pairs of an id and a creation time.\<close>

definition demo_row_type :: "(nat \<times> int) row_type" where
  "demo_row_type = \<lparr>rt_col = (\<lambda>c row. if c = ''id'' then int (fst row) else snd row), rt_getID = Some fst, rt_getCreatedAt = Some snd\<rparr>"

lemma cursors_visit_every_row_once_witness:
  "\<exists>pages. follow_cursors demo_encode demo_decode demo_row_type [(1, 30), (2, 10), (3, 10)] 2 ''created_at'' ''desc'' 2 '''' = Some pages
    \<and> concat pages = [(1, 30), (3, 10), (2, 10)]"
proof -
  have a: "row_accessors demo_row_type" by (simp add: row_accessors_def demo_row_type_def)
  have s: "sort_key (row_key demo_row_type ''desc'') [(1, 30), (2, 10), (3, 10)] = [(1, 30), (3, 10), (2, 10)]"
    by (simp add: order_key_def demo_row_type_def)
  have len: "length [(1, 30), (2, 10), (3, 10) :: nat \<times> int] div nat 2 + 1 = 2" by simp
  have "distinct (map (rt_col demo_row_type ''id'') [(1, 30), (2, 10), (3, 10)])" by (simp add: demo_row_type_def)
  from cursors_visit_every_row_once [OF demo_codec a _ this, of "''desc''" 2, unfolded s len] show ?thesis by fastforce
qed

text \<open>The direction is compared exactly in the condition but not in \<open>ORDER BY\<close>: with \<open>DESC\<close> the second page of
  three rows is empty, and two rows are never seen.\<close>

lemma two_pages:
  assumes "cursor_codec encode decode"
    and "order_rows rt field order ''id'' rows = Some (x # y # ys)"
    and "filter (cursor_condition rt field order ''id'' (build_cursor rt x field ''next'')) rows = []"
    and "order_rows rt field order ''id'' [] = Some []"
  shows "follow_cursors encode decode rt rows 1 field order (Suc (Suc 0)) '''' = Some [[x], []]"
proof -
  have c: "decode (encode c) = Some c" "encode c \<noteq> ''''" for c using assms(1) by (simp_all add: cursor_codec_def)
  have pp: "cursor_per_page \<lparr>cq_cursor = s, cq_perPage = 1\<rparr> = 1" for s
    by (simp add: cursor_per_page_def max_per_page_def)
  have "cursor_paginate encode decode rt None rows \<lparr>cq_cursor = '''', cq_perPage = 1\<rparr> field order ''id''
      = Inr ([x], set_next_cursor encode (Some (build_cursor rt x field ''next'')) (new_cursor_paginator [x] 1 True))"
    by (simp add: cursor_paginate_def pp assms(2) Let_def)
  moreover have "cursor_paginate encode decode rt None rows \<lparr>cq_cursor = encode (build_cursor rt x field ''next''), cq_perPage = 1\<rparr>
      field order ''id'' = Inr ([], new_cursor_paginator [] 1 False)"
    by (simp add: cursor_paginate_def pp c assms(3,4) Let_def)
  ultimately show ?thesis by (simp add: set_next_cursor_def new_cursor_paginator_def)
qed

lemma upper_case_order_loses_rows:
  assumes "cursor_codec encode decode"
  shows "follow_cursors encode decode demo_row_type [(1, 10), (2, 20), (3, 30)] 1 ''created_at'' ''DESC'' (Suc (Suc 0)) ''''
    = Some [[(3, 30)], []]"
proof (rule two_pages [OF assms])
  have low: "map ascii_lower ''DESC'' = ''desc''" by code_simp
  show "order_rows demo_row_type ''created_at'' ''DESC'' ''id'' [(1, 10), (2, 20), (3, 30)] = Some [(3, 30), (2, 20), (1, 10)]"
    "order_rows demo_row_type ''created_at'' ''DESC'' ''id'' [] = Some []"
    unfolding order_rows_def low by (simp_all add: order_key_def demo_row_type_def)
qed (simp add: cursor_condition_def build_cursor_def demo_row_type_def)

text \<open>The cursor's value is always the creation time: listing by another column skips rows.\<close>

lemma other_cursor_field_loses_rows:
  assumes "cursor_codec encode decode"
  shows "\<exists>rt :: (nat \<times> int) row_type. rt_getID rt = Some fst \<and> rt_getCreatedAt rt = Some snd
    \<and> follow_cursors encode decode rt [(1, 10), (2, 20), (3, 30)] 1 ''score'' ''asc'' (Suc (Suc 0)) '''' = Some [[(1, 10)], []]"
proof -
  let ?rt = "\<lparr>rt_col = (\<lambda>c row. if c = ''created_at'' then snd row else int (fst row)), rt_getID = Some fst, rt_getCreatedAt = Some snd\<rparr>
    :: (nat \<times> int) row_type"
  have low: "map ascii_lower ''asc'' = ''asc''" by code_simp
  have "follow_cursors encode decode ?rt [(1, 10), (2, 20), (3, 30)] 1 ''score'' ''asc'' (Suc (Suc 0)) '''' = Some [[(1, 10)], []]"
  proof (rule two_pages [OF assms])
    show "order_rows ?rt ''score'' ''asc'' ''id'' [(1, 10), (2, 20), (3, 30)] = Some [(1, 10), (2, 20), (3, 30)]"
      "order_rows ?rt ''score'' ''asc'' ''id'' [] = Some []"
      unfolding order_rows_def low by (simp_all add: order_key_def)
  qed (simp add: cursor_condition_def build_cursor_def)
  then show ?thesis by (intro exI [of _ ?rt]) simp
qed

end
