(* ===== verification/Utf8_Text.thy ===== *)
theory Utf8_Text
  imports Prelude
begin

text \<open>
  Go strings as UTF-8 text, for the components that check names and URLs: the runes that \<open>range\<close> visits,
  \<open>utf8.ValidString\<close>, \<open>utf8.RuneCountInString\<close>, \<open>unicode.IsControl\<close> and
  \<open>strings.ToLower\<close>. A string is its bytes; a byte that starts no well-formed encoding is a segment of its
  own, as in the \<open>unicode/utf8\<close> decoder.
\<close>

abbreviation byte :: "char \<Rightarrow> nat" where
  "byte c \<equiv> of_char c"

definition utf8_cont :: "nat \<Rightarrow> bool" where
  "utf8_cont b \<longleftrightarrow> 0x80 \<le> b \<and> b \<le> 0xBF"

text \<open>The bytes allowed after a lead byte; Unicode keeps out overlong forms and surrogates here.\<close>

definition second_byte_ok :: "nat \<Rightarrow> nat \<Rightarrow> bool" where
  "second_byte_ok lead b \<longleftrightarrow>
     (if lead = 0xE0 then 0xA0 else if lead = 0xF0 then 0x90 else 0x80) \<le> b
     \<and> b \<le> (if lead = 0xED then 0x9F else if lead = 0xF4 then 0x8F else 0xBF)"

text \<open>The width of the encoding at the head of a string, 0 when there is none.\<close>

fun encoding_width :: "string \<Rightarrow> nat" where
  "encoding_width [] = 0"
| "encoding_width (c # cs) =
     (if byte c < 0x80 then 1
      else if 0xC2 \<le> byte c \<and> byte c \<le> 0xDF
      then (case cs of c1 # _ \<Rightarrow> if utf8_cont (byte c1) then 2 else 0 | _ \<Rightarrow> 0)
      else if 0xE0 \<le> byte c \<and> byte c \<le> 0xEF
      then (case cs of c1 # c2 # _ \<Rightarrow>
              if second_byte_ok (byte c) (byte c1) \<and> utf8_cont (byte c2) then 3 else 0 | _ \<Rightarrow> 0)
      else if 0xF0 \<le> byte c \<and> byte c \<le> 0xF4
      then (case cs of c1 # c2 # c3 # _ \<Rightarrow>
              if second_byte_ok (byte c) (byte c1) \<and> utf8_cont (byte c2) \<and> utf8_cont (byte c3) then 4 else 0
            | _ \<Rightarrow> 0)
      else 0)"

text \<open>The value of a well-formed segment; an ill-formed one reads as \<open>utf8.RuneError\<close>.\<close>

fun rune_of :: "string \<Rightarrow> nat" where
  "rune_of [c] = (if byte c < 0x80 then byte c else 0xFFFD)"
| "rune_of [c, c1] = (byte c - 0xC0) * 64 + (byte c1 - 0x80)"
| "rune_of [c, c1, c2] = (byte c - 0xE0) * 4096 + (byte c1 - 0x80) * 64 + (byte c2 - 0x80)"
| "rune_of [c, c1, c2, c3] =
     (byte c - 0xF0) * 262144 + (byte c1 - 0x80) * 4096 + (byte c2 - 0x80) * 64 + (byte c3 - 0x80)"
| "rune_of s = 0xFFFD"

function utf8_segments :: "string \<Rightarrow> string list" where
  "utf8_segments [] = []"
| "utf8_segments (c # cs) =
     take (max 1 (encoding_width (c # cs))) (c # cs) # utf8_segments (drop (max 1 (encoding_width (c # cs))) (c # cs))"
  by pat_completeness auto
termination
  by (relation "measure length") (auto simp: max_def)

definition utf8_valid :: "string \<Rightarrow> bool" where
  "utf8_valid s \<longleftrightarrow> list_all (\<lambda>g. encoding_width g = length g) (utf8_segments s)"

definition runes :: "string \<Rightarrow> nat list" where
  "runes s = map rune_of (utf8_segments s)"

definition rune_count :: "string \<Rightarrow> nat" where
  "rune_count s = length (utf8_segments s)"

definition rune_is_control :: "nat \<Rightarrow> bool" where
  "rune_is_control r \<longleftrightarrow> r < 32 \<or> (127 \<le> r \<and> r < 160)"

text \<open>\<open>strings.ToLower\<close>, as far as ASCII text can come out of it: the capitals, the Kelvin sign and the
  dotted capital I. Every other letter has a lower case outside ASCII; it is left as it is.\<close>

definition lower_segment :: "string \<Rightarrow> string" where
  "lower_segment g =
     (case g of
        [c] \<Rightarrow> if 65 \<le> byte c \<and> byte c \<le> (90 :: nat) then [char_of (byte c + 32 :: nat)] else [c]
      | _ \<Rightarrow> if rune_of g = 0x212A then ''k'' else if rune_of g = 0x130 then ''i'' else g)"

definition go_lower :: "string \<Rightarrow> string" where
  "go_lower s = concat (map lower_segment (utf8_segments s))"

subsection \<open>Facts\<close>

lemma concat_utf8_segments [simp]: "concat (utf8_segments s) = s"
  by (induction s rule: utf8_segments.induct) auto

lemma rune_count_le: "rune_count s \<le> length s"
proof (induction s rule: utf8_segments.induct)
  case (2 c cs)
  then show ?case
    by (cases "encoding_width (c # cs)") (auto simp: rune_count_def simp del: encoding_width.simps)
qed (simp add: rune_count_def)

text \<open>On ASCII text the segments are the characters.\<close>

lemma segments_ascii: "\<forall>c \<in> set s. byte c < (128 :: nat) \<Longrightarrow> utf8_segments s = map (\<lambda>c. [c]) s"
  by (induction s) auto

lemma valid_ascii: "\<forall>c \<in> set s. byte c < (128 :: nat) \<Longrightarrow> utf8_valid s"
  by (auto simp: utf8_valid_def segments_ascii list_all_iff)

lemma concat_map_single [simp]: "concat (map (\<lambda>c. [c]) s) = s"
  by (induction s) auto

end
