(* ===== verification/Webhook_Target.thy ===== *)
theory Webhook_Target
  imports Utf8_Text "HOL-Library.Word"
begin

text \<open>
  The network policy of outbound webhooks: \<open>api/internal/modules/webhook/target.go\<close>. Addresses are the
  machine words of \<open>net/netip\<close>, 32 bits for IPv4 and 128 for IPv6, the latter with its zone; the
  predicates of \<open>netip\<close> that the policy calls are written on the bits as the library does. The policy
  only looks at addresses it has unmapped, where all releases of the library agree.

  \<open>net/url\<close> and the resolver are arguments: \<open>parse\<close> and \<open>show_url\<close> for a URL, \<open>addr_of\<close> for
  \<open>netip.ParseAddr\<close>, \<open>lookup\<close> for \<open>LookupIPAddr\<close>, \<open>dial\<close> for the dialer.
\<close>

unbundle bit_operations_syntax

datatype webhook_error =
    ErrWebhookEndpointNotFound
  | ErrWebhookDeliveryNotFound
  | ErrWebhookInvalidEventType
  | ErrWebhookInvalidTarget
  | ErrWebhookIdempotencyConflict
  | ErrWebhookEndpointVersionConflict
  | ErrWebhookReplayNotAllowed
  | ErrWebhookInput
  | ErrWebhookUnavailable
  | ErrWebhookOrganizationNotFound
  | WebhookFailure string

subsection \<open>Addresses\<close>

datatype ip_addr =
    Addr4 "32 word"
  | Addr6 "128 word" string

definition v4_byte :: "32 word \<Rightarrow> nat \<Rightarrow> 8 word" where
  "v4_byte a i = ucast (drop_bit ((3 - i) * 8) a)"

definition v6_first :: "128 word \<Rightarrow> 16 word" where
  "v6_first a = ucast (drop_bit 112 a)"

definition v6_byte :: "128 word \<Rightarrow> nat \<Rightarrow> 8 word" where
  "v6_byte a i = ucast (drop_bit ((15 - i) * 8) a)"

text \<open>\<open>netip.AddrFromSlice\<close>, which gives addresses without a zone.\<close>

definition addr_from_slice :: "8 word list \<Rightarrow> ip_addr option" where
  "addr_from_slice bs =
     (if length bs = 4 then Some (Addr4 (word_rcat bs))
      else if length bs = 16 then Some (Addr6 (word_rcat bs) '''') else None)"

fun addr_unmap :: "ip_addr \<Rightarrow> ip_addr" where
  "addr_unmap (Addr4 a) = Addr4 a"
| "addr_unmap (Addr6 a zone) = (if drop_bit 32 a = 0xffff then Addr4 (ucast a) else Addr6 a zone)"

fun is_unspecified :: "ip_addr \<Rightarrow> bool" where
  "is_unspecified (Addr4 a) = (a = 0)"
| "is_unspecified (Addr6 a zone) = (a = 0 \<and> zone = [])"

fun is_multicast :: "ip_addr \<Rightarrow> bool" where
  "is_multicast (Addr4 a) = (v4_byte a 0 AND 0xf0 = 0xe0)"
| "is_multicast (Addr6 a zone) = (drop_bit 8 (v6_first a) = 0xff)"

fun is_loopback :: "ip_addr \<Rightarrow> bool" where
  "is_loopback (Addr4 a) = (v4_byte a 0 = 127)"
| "is_loopback (Addr6 a zone) = (a = 1)"

fun is_private :: "ip_addr \<Rightarrow> bool" where
  "is_private (Addr4 a) =
     (v4_byte a 0 = 10 \<or> (v4_byte a 0 = 172 \<and> v4_byte a 1 AND 0xf0 = 16)
      \<or> (v4_byte a 0 = 192 \<and> v4_byte a 1 = 168))"
| "is_private (Addr6 a zone) = (v6_byte a 0 AND 0xfe = 0xfc)"

fun is_link_local_unicast :: "ip_addr \<Rightarrow> bool" where
  "is_link_local_unicast (Addr4 a) = (v4_byte a 0 = 169 \<and> v4_byte a 1 = 254)"
| "is_link_local_unicast (Addr6 a zone) = (v6_first a AND 0xffc0 = 0xfe80)"

definition is_global_unicast :: "ip_addr \<Rightarrow> bool" where
  "is_global_unicast a \<longleftrightarrow> a \<noteq> Addr4 0 \<and> a \<noteq> Addr4 0xffffffff \<and> a \<noteq> Addr6 0 [] \<and> \<not> is_loopback a
     \<and> \<not> is_multicast a \<and> \<not> is_link_local_unicast a"

datatype ip_prefix =
    Prefix4 "32 word" nat
  | Prefix6 "128 word" nat

text \<open>A prefix contains addresses of its own family, and none with a zone.\<close>

fun prefix_contains :: "ip_prefix \<Rightarrow> ip_addr \<Rightarrow> bool" where
  "prefix_contains (Prefix4 p n) (Addr4 a) = (drop_bit (32 - n) (a XOR p) = 0)"
| "prefix_contains (Prefix6 p n) (Addr6 a zone) = (zone = [] \<and> drop_bit (128 - n) (a XOR p) = 0)"
| "prefix_contains (Prefix4 p n) (Addr6 a zone) = False"
| "prefix_contains (Prefix6 p n) (Addr4 a) = False"

definition blocked_webhook_prefixes :: "ip_prefix list" where
  "blocked_webhook_prefixes =
     [Prefix4 0x00000000 8, Prefix4 0x64400000 10, Prefix4 0xC0000000 24, Prefix4 0xC0000200 24,
      Prefix4 0xC6120000 15, Prefix4 0xC6336400 24, Prefix4 0xCB007100 24, Prefix4 0xF0000000 4,
      Prefix6 0x01000000000000000000000000000000 64, Prefix6 0x20010DB8000000000000000000000000 32,
      Prefix6 0 96, Prefix6 0x0064FF9B000000000000000000000000 96,
      Prefix6 0x0064FF9B000100000000000000000000 48, Prefix6 0x20010000000000000000000000000000 32,
      Prefix6 0x20020000000000000000000000000000 16]"

record target_policy =
  tp_allowInsecureHTTP :: bool
  tp_allowPrivateTarget :: bool

definition allowed_address :: "target_policy \<Rightarrow> ip_addr \<Rightarrow> bool" where
  "allowed_address p a =
     (if is_unspecified a \<or> is_multicast a then False
      else if tp_allowPrivateTarget p then True
      else if \<not> is_global_unicast a \<or> is_private a \<or> is_loopback a \<or> is_link_local_unicast a then False
      else \<not> list_ex (\<lambda>prefix. prefix_contains prefix a) blocked_webhook_prefixes)"

subsection \<open>URLs\<close>

text \<open>The fields of a \<open>url.URL\<close> that the policy reads; \<open>pu_user\<close> says whether there is user information.\<close>

record parsed_url =
  pu_scheme :: string
  pu_opaque :: string
  pu_user :: bool
  pu_host :: string
  pu_path :: string
  pu_rawPath :: string
  pu_forceQuery :: bool
  pu_rawQuery :: string
  pu_fragment :: string

definition is_decimal :: "char \<Rightarrow> bool" where
  "is_decimal c \<longleftrightarrow> 48 \<le> byte c \<and> byte c \<le> (57 :: nat)"

text \<open>\<open>URL.Hostname\<close> and \<open>URL.Port\<close>: a port is what follows the last colon, when that is digits only.\<close>

definition split_host_port :: "string \<Rightarrow> string \<times> string" where
  "split_host_port hp =
     (let (host, port) =
            (case dropWhile is_decimal (rev hp) of
               c # rest \<Rightarrow> if c = CHR '':'' then (rev rest, rev (takeWhile is_decimal (rev hp))) else (hp, '''')
             | [] \<Rightarrow> (hp, ''''))
      in (if host \<noteq> [] \<and> hd host = CHR ''['' \<and> last host = CHR '']'' then butlast (tl host) else host, port))"

definition decimal_value :: "string \<Rightarrow> nat" where
  "decimal_value s = foldl (\<lambda>n c. n * 10 + (byte c - 48)) 0 s"

text \<open>\<open>strconv.ParseUint(port, 10, 16)\<close>: an error or the value.\<close>

definition parse_port :: "string \<Rightarrow> nat option" where
  "parse_port s =
     (if s = [] \<or> \<not> list_all is_decimal s \<or> 65536 \<le> decimal_value s then None else Some (decimal_value s))"

definition join_host_port :: "string \<Rightarrow> string \<Rightarrow> string" where
  "join_host_port host port =
     (if CHR '':'' \<in> set host \<or> CHR ''%'' \<in> set host then ''['' @ host @ '']:'' @ port else host @ '':'' @ port)"

definition ascii_hostname :: "string \<Rightarrow> bool" where
  "ascii_hostname s \<longleftrightarrow> list_all (\<lambda>c. 0x20 < byte c \<and> byte c < (0x7f :: nat)) s"

definition contains_unsafe_url_rune :: "string \<Rightarrow> bool" where
  "contains_unsafe_url_rune s \<longleftrightarrow> list_ex (\<lambda>c. c = CHR 0x5C \<or> byte c \<le> 0x20 \<or> byte c = (0x7f :: nat)) s"

definition max_webhook_target :: nat where
  "max_webhook_target = 2048"

text \<open>The second half of \<open>normalizeSyntax\<close>, from the host name on.\<close>

definition normalize_host ::
    "(parsed_url \<Rightarrow> string) \<Rightarrow> string \<Rightarrow> string \<Rightarrow> parsed_url \<Rightarrow> webhook_error + string \<times> parsed_url" where
  "normalize_host show_url hostname port u =
     (if hostname = '''' \<or> last hostname = CHR ''.'' \<or> CHR ''%'' \<in> set hostname \<or> \<not> ascii_hostname hostname
      then Inl ErrWebhookInvalidTarget
      else if port \<noteq> '''' \<and> (parse_port port = None \<or> parse_port port = Some 0) then Inl ErrWebhookInvalidTarget
      else (let port' = (if pu_scheme u = ''https'' \<and> port = ''443'' \<or> pu_scheme u = ''http'' \<and> port = ''80''
                         then '''' else port);
                host = (if port' \<noteq> '''' then join_host_port hostname port'
                        else if CHR '':'' \<in> set hostname then ''['' @ hostname @ '']'' else hostname);
                u' = u\<lparr>pu_host := host, pu_path := (if pu_path u = '''' then ''/'' else pu_path u), pu_rawPath := ''''\<rparr>
            in if max_webhook_target < length (show_url u') then Inl ErrWebhookInvalidTarget
               else Inr (show_url u', u')))"

definition normalize_syntax ::
    "(string \<Rightarrow> parsed_url option) \<Rightarrow> (parsed_url \<Rightarrow> string) \<Rightarrow> target_policy \<Rightarrow> string
     \<Rightarrow> webhook_error + string \<times> parsed_url" where
  "normalize_syntax parse show_url p v =
     (if v = '''' \<or> v \<noteq> trim_space v \<or> max_webhook_target < length v \<or> contains_unsafe_url_rune v
      then Inl ErrWebhookInvalidTarget
      else (case parse v of
              None \<Rightarrow> Inl ErrWebhookInvalidTarget
            | Some u \<Rightarrow>
                if pu_scheme u = '''' \<or> pu_opaque u \<noteq> '''' \<or> pu_user u \<or> pu_rawQuery u \<noteq> '''' \<or> pu_forceQuery u
                  \<or> pu_fragment u \<noteq> ''''
                then Inl ErrWebhookInvalidTarget
                else (let u1 = u\<lparr>pu_scheme := go_lower (pu_scheme u)\<rparr>
                      in if pu_scheme u1 \<noteq> ''https'' \<and> (pu_scheme u1 \<noteq> ''http'' \<or> \<not> tp_allowInsecureHTTP p)
                         then Inl ErrWebhookInvalidTarget
                         else normalize_host show_url (go_lower (fst (split_host_port (pu_host u1))))
                                (snd (split_host_port (pu_host u1))) u1)))"

subsection \<open>Resolution and dialling\<close>

text \<open>The answers of the resolver are the bytes of addresses. The first that is no address, or is not
  allowed, refuses them all.\<close>

fun collect_addresses ::
    "target_policy \<Rightarrow> 8 word list list \<Rightarrow> ip_addr list \<Rightarrow> webhook_error + ip_addr list" where
  "collect_addresses p [] result = (if result = [] then Inl ErrWebhookInvalidTarget else Inr result)"
| "collect_addresses p (bs # answers) result =
     (case addr_from_slice bs of
        None \<Rightarrow> Inl ErrWebhookInvalidTarget
      | Some a \<Rightarrow>
          if \<not> allowed_address p (addr_unmap a) then Inl ErrWebhookInvalidTarget
          else if addr_unmap a \<in> set result then collect_addresses p answers result
          else collect_addresses p answers (result @ [addr_unmap a]))"

definition resolve_allowed ::
    "(string \<Rightarrow> ip_addr option) \<Rightarrow> (string \<Rightarrow> string + 8 word list list) \<Rightarrow> target_policy \<Rightarrow> string
     \<Rightarrow> webhook_error + ip_addr list" where
  "resolve_allowed addr_of lookup p hostname =
     (case addr_of hostname of
        Some a \<Rightarrow> if \<not> allowed_address p (addr_unmap a) then Inl ErrWebhookInvalidTarget else Inr [addr_unmap a]
      | None \<Rightarrow>
          (case lookup hostname of
             Inl e \<Rightarrow> Inl (WebhookFailure e)
           | Inr answers \<Rightarrow>
               if answers = [] then Inl (WebhookFailure ''webhook target has no address'')
               else collect_addresses p answers []))"

text \<open>\<open>Normalize\<close>: the target and its hash, when its host resolves to addresses that are allowed.\<close>

definition normalize_target ::
    "(string \<Rightarrow> parsed_url option) \<Rightarrow> (parsed_url \<Rightarrow> string) \<Rightarrow> (string \<Rightarrow> ip_addr option)
     \<Rightarrow> (string \<Rightarrow> string + 8 word list list) \<Rightarrow> (string \<Rightarrow> string) \<Rightarrow> target_policy \<Rightarrow> string
     \<Rightarrow> webhook_error + string \<times> string" where
  "normalize_target parse show_url addr_of lookup sha p v =
     (case normalize_syntax parse show_url p v of
        Inl e \<Rightarrow> Inl e
      | Inr (normalized, u) \<Rightarrow>
          (case resolve_allowed addr_of lookup p (fst (split_host_port (pu_host u))) of
             Inl e \<Rightarrow> Inl e
           | Inr _ \<Rightarrow> Inr (normalized, sha normalized)))"

text \<open>\<open>DialContext\<close>: the candidates in order until one connects. The second component is the list of the
  addresses that were dialled.\<close>

fun dial_candidates ::
    "(ip_addr \<Rightarrow> string \<Rightarrow> string + 'conn) \<Rightarrow> string \<Rightarrow> ip_addr list \<Rightarrow> (string list + 'conn) \<times> ip_addr list" where
  "dial_candidates dial port [] = (Inl [], [])"
| "dial_candidates dial port (a # candidates) =
     (case dial a port of
        Inr conn \<Rightarrow> (Inr conn, [a])
      | Inl e \<Rightarrow>
          (case dial_candidates dial port candidates of
             (Inr conn, tried) \<Rightarrow> (Inr conn, a # tried)
           | (Inl es, tried) \<Rightarrow> (Inl (e # es), a # tried)))"

definition dial_context ::
    "(string \<Rightarrow> (string \<times> string) option) \<Rightarrow> (string \<Rightarrow> ip_addr option) \<Rightarrow> (string \<Rightarrow> string + 8 word list list)
     \<Rightarrow> (ip_addr \<Rightarrow> string \<Rightarrow> string + 'conn) \<Rightarrow> target_policy \<Rightarrow> string
     \<Rightarrow> (webhook_error + string list + 'conn) \<times> ip_addr list" where
  "dial_context split addr_of lookup dial p address =
     (case split address of
        None \<Rightarrow> (Inl ErrWebhookInvalidTarget, [])
      | Some (host, port) \<Rightarrow>
          if port = '''' then (Inl ErrWebhookInvalidTarget, [])
          else (case resolve_allowed addr_of lookup p host of
                  Inl e \<Rightarrow> (Inl e, [])
                | Inr candidates \<Rightarrow>
                    (case dial_candidates dial port candidates of (r, tried) \<Rightarrow> (Inr r, tried))))"

subsection \<open>The policy on the number line\<close>

text \<open>Masks and prefixes as intervals of the address read as a number.\<close>

lemma word_eq_unat: "(x :: 'a::len word) = y \<longleftrightarrow> unat x = unat y"
  by (simp add: word_unat_eq_iff)

lemma xor_prefix:
  fixes a p :: "'a::len word"
  shows "drop_bit k (a XOR p) = 0 \<longleftrightarrow> drop_bit k a = drop_bit k p"
  by (auto simp: bit_eq_iff bit_simps)

lemma prefix_interval:
  fixes a p :: "'a::len word"
  shows "drop_bit k (a XOR p) = 0 \<longleftrightarrow> unat a div 2 ^ k = unat p div 2 ^ k"
  unfolding xor_prefix by (metis unat_drop_bit_eq drop_bit_eq_div word_unat_eq_iff)

text \<open>Comparing the high bits under a mask compares the quotients.\<close>

lemma high_bits:
  fixes x c :: "'a::len word"
  assumes "c AND NOT (mask k) = c"
  shows "x AND NOT (mask k) = c \<longleftrightarrow> unat x div 2 ^ k = unat c div 2 ^ k"
proof -
  have "x AND NOT (mask k) = c \<longleftrightarrow> drop_bit k (x XOR c) = 0"
  proof
    assume "x AND NOT (mask k) = c"
    then show "drop_bit k (x XOR c) = 0" by (auto simp: bit_eq_iff bit_simps dest: bit_imp_le_length)
  next
    assume *: "drop_bit k (x XOR c) = 0"
    show "x AND NOT (mask k) = c"
    proof (rule bit_word_eqI)
      fix n
      assume "n < LENGTH('a)"
      have "bit c n \<longrightarrow> k \<le> n"
        using assms [unfolded bit_eq_iff, rule_format, of n] \<open>n < LENGTH('a)\<close> by (auto simp: bit_simps)
      moreover have "k \<le> n \<Longrightarrow> bit x n \<longleftrightarrow> bit c n"
        using * [unfolded bit_eq_iff, rule_format, of "n - k"] \<open>n < LENGTH('a)\<close> by (simp add: bit_simps)
      ultimately show "bit (x AND NOT (mask k)) n = bit c n"
        using \<open>n < LENGTH('a)\<close> by (auto simp: bit_simps)
    qed
  qed
  then show ?thesis by (simp only: prefix_interval)
qed

lemma div_range: "0 < k \<Longrightarrow> n div k = q \<longleftrightarrow> q * k \<le> n \<and> n < Suc q * (k::nat)"
  by (metis div_nat_eqI div_times_less_eq_dividend dividend_less_div_times mult.commute add.commute mult_Suc)

text \<open>A network, by its first address and the length of its prefix.\<close>

definition in_net4 :: "nat \<Rightarrow> nat \<times> nat \<Rightarrow> bool" where
  "in_net4 n net \<longleftrightarrow> fst net \<le> n \<and> n < fst net + 2 ^ (32 - snd net)"

definition in_net6 :: "nat \<Rightarrow> nat \<times> nat \<Rightarrow> bool" where
  "in_net6 n net \<longleftrightarrow> fst net \<le> n \<and> n < fst net + 2 ^ (128 - snd net)"

definition dotted :: "nat \<Rightarrow> nat \<Rightarrow> nat \<Rightarrow> nat \<Rightarrow> nat" where
  "dotted a b c d = ((a * 256 + b) * 256 + c) * 256 + d"

definition hextets :: "nat \<Rightarrow> nat \<Rightarrow> nat \<Rightarrow> nat" where
  "hextets a b c = ((a * 65536 + b) * 65536 + c) * 2 ^ 80"

definition special_nets4 :: "(nat \<times> nat) list" where
  "special_nets4 =
     [(dotted 0 0 0 0, 8), (dotted 10 0 0 0, 8), (dotted 100 64 0 0, 10), (dotted 127 0 0 0, 8),
      (dotted 169 254 0 0, 16), (dotted 172 16 0 0, 12), (dotted 192 0 0 0, 24), (dotted 192 0 2 0, 24),
      (dotted 192 168 0 0, 16), (dotted 198 18 0 0, 15), (dotted 198 51 100 0, 24), (dotted 203 0 113 0, 24),
      (dotted 224 0 0 0, 4), (dotted 240 0 0 0, 4)]"

definition special_nets6 :: "(nat \<times> nat) list" where
  "special_nets6 =
     [(0, 96), (hextets 0x64 0xFF9B 0, 96), (hextets 0x64 0xFF9B 1, 48), (hextets 0x100 0 0, 64),
      (hextets 0x2001 0 0, 32), (hextets 0x2001 0xDB8 0, 32), (hextets 0x2002 0 0, 16),
      (hextets 0xFC00 0 0, 7), (hextets 0xFE80 0 0, 10), (hextets 0xFF00 0 0, 8)]"

text \<open>IPv4: the bytes that the predicates look at.\<close>

lemma v4_bytes:
  "unat (v4_byte a 0) = unat a div 16777216" "unat (v4_byte a (Suc 0)) = unat a div 65536 mod 256"
  using unsigned_less [of a, where ?'a = nat]
  by (simp_all add: v4_byte_def unat_drop_bit_eq drop_bit_eq_div [where 'a = nat] unsigned_ucast_eq take_bit_eq_mod)

lemma two_bytes:
  assumes "m < 256"
  shows "n div 16777216 = q \<and> n div 65536 mod 256 = m \<longleftrightarrow> n div 65536 = q * 256 + (m::nat)"
proof -
  have "n div 16777216 = n div 65536 div 256" by (simp flip: div_mult2_eq)
  with assms show ?thesis by auto
qed

lemma byte_nibble:
  assumes "m < 16"
  shows "n div 16777216 = q \<and> n div 65536 mod 256 div 16 = m \<longleftrightarrow> n div 1048576 = q * 16 + (m::nat)"
proof -
  have "n div 16777216 = n div 1048576 div 16" "n div 1048576 = n div 65536 div 16"
    by (simp_all flip: div_mult2_eq)
  moreover have "n div 65536 mod 256 div 16 = n div 65536 div 16 mod 16"
    using mod_mult2_eq [of "n div 65536" 16 16] by simp
  ultimately show ?thesis using assms by auto
qed

lemma byte_masks: "(0xf0 :: 8 word) = NOT (mask 4)" "(0xfe :: 8 word) = NOT (mask 1)" "(0xffc0 :: 16 word) = NOT (mask 6)"
  by code_simp+

lemma multicast4: "is_multicast (Addr4 a) \<longleftrightarrow> in_net4 (unat a) (dotted 224 0 0 0, 4)"
proof -
  have "v4_byte a 0 AND 0xf0 = 0xe0 \<longleftrightarrow> unat a div 16777216 div 16 = 14"
    unfolding byte_masks by (subst high_bits) (code_simp, simp add: v4_bytes)
  then show ?thesis by (simp add: div_range in_net4_def dotted_def flip: div_mult2_eq)
qed

lemma private4:
  "is_private (Addr4 a) \<longleftrightarrow> list_ex (in_net4 (unat a)) [(dotted 10 0 0 0, 8), (dotted 172 16 0 0, 12), (dotted 192 168 0 0, 16)]"
proof -
  have "v4_byte a 1 AND 0xf0 = 16 \<longleftrightarrow> unat a div 65536 mod 256 div 16 = 1"
    unfolding byte_masks by (subst high_bits) (code_simp, simp add: v4_bytes)
  then show ?thesis
    using two_bytes [of 168 "unat a" 192] byte_nibble [of 1 "unat a" 172]
    by (simp add: word_eq_unat v4_bytes div_range in_net4_def dotted_def del: unsigned_0)
qed

lemma link_local4: "is_link_local_unicast (Addr4 a) \<longleftrightarrow> in_net4 (unat a) (dotted 169 254 0 0, 16)"
  using two_bytes [of 254 "unat a" 169]
  by (simp add: word_eq_unat v4_bytes div_range in_net4_def dotted_def del: unsigned_0)

lemma loopback4: "is_loopback (Addr4 a) \<longleftrightarrow> in_net4 (unat a) (dotted 127 0 0 0, 8)"
  by (simp add: word_eq_unat v4_bytes div_range in_net4_def dotted_def del: unsigned_0)

lemma prefix4:
  "prefix_contains (Prefix4 p n) (Addr4 a) \<longleftrightarrow> in_net4 (unat a) (unat p div 2 ^ (32 - n) * 2 ^ (32 - n), n)"
  unfolding prefix_contains.simps prefix_interval by (simp add: div_range in_net4_def add.commute)

lemma no_prefix6: "\<not> prefix_contains (Prefix6 p n) (Addr4 a)" "\<not> prefix_contains (Prefix4 q n) (Addr6 b z)"
  by simp_all

lemma blocked4:
  "list_ex (\<lambda>p. prefix_contains p (Addr4 a)) blocked_webhook_prefixes
   \<longleftrightarrow> list_ex (in_net4 (unat a)) [(dotted 0 0 0 0, 8), (dotted 100 64 0 0, 10), (dotted 192 0 0 0, 24),
        (dotted 192 0 2 0, 24), (dotted 198 18 0 0, 15), (dotted 198 51 100 0, 24), (dotted 203 0 113 0, 24),
        (dotted 240 0 0 0, 4)]"
  by (simp add: blocked_webhook_prefixes_def prefix4 dotted_def del: prefix_contains.simps add: prefix_contains.simps(4))

text \<open>IPv6.\<close>

lemma v6_bytes: "unat (v6_byte a 0) = unat a div 2 ^ 120" "unat (v6_first a) = unat a div 2 ^ 112"
  using unsigned_less [of a, where ?'a = nat]
  by (simp_all add: v6_byte_def v6_first_def unat_drop_bit_eq drop_bit_eq_div [where 'a = nat] unsigned_ucast_eq
      take_bit_eq_mod div_less_iff_less_mult less_mult_imp_div_less)

lemma multicast6: "is_multicast (Addr6 a z) \<longleftrightarrow> in_net6 (unat a) (hextets 0xFF00 0 0, 8)"
proof -
  have "drop_bit 8 (v6_first a) = 0xff \<longleftrightarrow> unat a div 2 ^ 112 div 2 ^ 8 = 255"
    by (simp add: word_eq_unat unat_drop_bit_eq drop_bit_eq_div [where 'a = nat] v6_bytes del: unsigned_0)
  then show ?thesis by (simp add: div_range in_net6_def hextets_def flip: div_mult2_eq)
qed

lemma private6: "is_private (Addr6 a z) \<longleftrightarrow> in_net6 (unat a) (hextets 0xFC00 0 0, 7)"
proof -
  have "v6_byte a 0 AND 0xfe = 0xfc \<longleftrightarrow> unat a div 2 ^ 120 div 2 = 126"
    unfolding byte_masks by (subst high_bits) (code_simp, simp add: v6_bytes)
  then show ?thesis by (simp add: div_range in_net6_def hextets_def flip: div_mult2_eq)
qed

lemma link_local6: "is_link_local_unicast (Addr6 a z) \<longleftrightarrow> in_net6 (unat a) (hextets 0xFE80 0 0, 10)"
proof -
  have "v6_first a AND 0xffc0 = 0xfe80 \<longleftrightarrow> unat a div 2 ^ 112 div 64 = 1018"
    unfolding byte_masks by (subst high_bits) (code_simp, simp add: v6_bytes)
  then show ?thesis by (simp add: div_range in_net6_def hextets_def flip: div_mult2_eq)
qed

lemma prefix6:
  "prefix_contains (Prefix6 p n) (Addr6 a z) \<longleftrightarrow> z = [] \<and> in_net6 (unat a) (unat p div 2 ^ (128 - n) * 2 ^ (128 - n), n)"
  unfolding prefix_contains.simps prefix_interval by (simp add: div_range in_net6_def add.commute)

lemma blocked6:
  "list_ex (\<lambda>p. prefix_contains p (Addr6 a [])) blocked_webhook_prefixes
   \<longleftrightarrow> list_ex (in_net6 (unat a)) [(hextets 0x100 0 0, 64), (hextets 0x2001 0xDB8 0, 32), (0, 96),
        (hextets 0x64 0xFF9B 0, 96), (hextets 0x64 0xFF9B 1, 48), (hextets 0x2001 0 0, 32), (hextets 0x2002 0 0, 16)]"
  by (simp add: blocked_webhook_prefixes_def prefix6 hextets_def del: prefix_contains.simps add: prefix_contains.simps(3))

text \<open>What the policy lets through when private targets are not allowed.\<close>

lemma allowed4:
  "allowed_address \<lparr>tp_allowInsecureHTTP = i, tp_allowPrivateTarget = False\<rparr> (Addr4 a)
   \<longleftrightarrow> \<not> list_ex (in_net4 (unat a)) special_nets4"
proof -
  have "a = 0 \<Longrightarrow> in_net4 (unat a) (dotted 0 0 0 0, 8)" by (simp add: in_net4_def dotted_def)
  moreover have "a = 0xffffffff \<Longrightarrow> in_net4 (unat a) (dotted 240 0 0 0, 4)" by (simp add: in_net4_def dotted_def)
  ultimately show ?thesis
    unfolding allowed_address_def is_global_unicast_def multicast4 private4 link_local4 loopback4 blocked4
      special_nets4_def is_unspecified.simps ip_addr.inject
    by auto
qed

lemma allowed6:
  "allowed_address \<lparr>tp_allowInsecureHTTP = i, tp_allowPrivateTarget = False\<rparr> (Addr6 a [])
   \<longleftrightarrow> \<not> list_ex (in_net6 (unat a)) special_nets6"
proof -
  have "a = 0 \<or> a = 1 \<Longrightarrow> in_net6 (unat a) (0, 96)" by (auto simp: in_net6_def)
  then show ?thesis
    unfolding allowed_address_def is_global_unicast_def multicast6 private6 link_local6 blocked6
      special_nets6_def is_unspecified.simps is_loopback.simps ip_addr.inject
    by auto
qed

subsection \<open>Properties\<close>

fun public_address :: "ip_addr \<Rightarrow> bool" where
  "public_address (Addr4 a) \<longleftrightarrow> \<not> list_ex (in_net4 (unat a)) special_nets4"
| "public_address (Addr6 a zone) \<longleftrightarrow> zone = [] \<and> \<not> list_ex (in_net6 (unat a)) special_nets6"

text \<open>Unless private targets are allowed, the policy accepts exactly the addresses outside the special
  networks: an IPv4 address outside \<open>special_nets4\<close> (this host, private, shared, loopback, link local,
  protocol assignments, documentation, benchmarking, multicast and reserved space), and an IPv6 address
  outside \<open>special_nets6\<close> (IPv4-compatible with the unspecified and loopback addresses, NAT64, discard,
  Teredo, documentation, 6to4, unique local, link local, multicast). The bit tests of the code and the
  prefixes of its table decide that set as intervals of numbers.\<close>

theorem webhook_policy_is_interval_test:
  "allowed_address \<lparr>tp_allowInsecureHTTP = i, tp_allowPrivateTarget = False\<rparr> (Addr4 a)
     = (\<not> list_ex (in_net4 (unat a)) special_nets4)
   \<and> allowed_address \<lparr>tp_allowInsecureHTTP = i, tp_allowPrivateTarget = False\<rparr> (Addr6 b [])
     = (\<not> list_ex (in_net6 (unat b)) special_nets6)"
  by (simp add: allowed4 allowed6)

lemma allowed_public:
  assumes "allowed_address p a" and "\<not> tp_allowPrivateTarget p" and "\<And>b z. a = Addr6 b z \<Longrightarrow> z = []"
  shows "public_address a"
proof -
  obtain i where "p = \<lparr>tp_allowInsecureHTTP = i, tp_allowPrivateTarget = False\<rparr>"
    using assms(2) by (cases p) simp
  with assms(1) have p: "allowed_address \<lparr>tp_allowInsecureHTTP = i, tp_allowPrivateTarget = False\<rparr> a" by simp
  show ?thesis
  proof (cases a)
    case (Addr4 b)
    with p show ?thesis by (simp add: allowed4)
  next
    case (Addr6 b z)
    with p assms(3) show ?thesis by (auto simp: allowed6)
  qed
qed

lemma unmap_zone: "addr_unmap a = Addr6 b z \<Longrightarrow> \<exists>b'. a = Addr6 b' z"
  by (cases a) (auto split: if_splits)

lemma slice_zone: "addr_from_slice bs = Some (Addr6 b z) \<Longrightarrow> z = []"
  by (auto simp: addr_from_slice_def split: if_splits)

lemma collected_public:
  "collect_addresses p answers result = Inr found \<Longrightarrow> \<not> tp_allowPrivateTarget p
   \<Longrightarrow> list_all public_address result \<Longrightarrow> list_all public_address found"
proof (induction p answers result rule: collect_addresses.induct)
  case (2 p bs answers result)
  then obtain a where a: "addr_from_slice bs = Some a" and ok: "allowed_address p (addr_unmap a)"
    by (auto split: option.splits if_splits)
  have "public_address (addr_unmap a)"
    using ok 2(4) by (rule allowed_public) (use a in \<open>auto dest: unmap_zone slice_zone\<close>)
  with 2 a ok show ?case by (auto split: if_splits)
qed (auto split: if_splits)

lemma resolved_public:
  assumes "resolve_allowed addr_of lookup p host = Inr found" and "\<not> tp_allowPrivateTarget p"
    and "\<And>b z. addr_of host = Some (Addr6 b z) \<Longrightarrow> z = []"
  shows "list_all public_address found"
proof (cases "addr_of host")
  case None
  with assms(1) obtain answers where "collect_addresses p answers [] = Inr found"
    by (auto simp: resolve_allowed_def split: sum.splits if_splits)
  from collected_public [OF this assms(2)] show ?thesis by simp
next
  case (Some a)
  with assms(1) have f: "found = [addr_unmap a]" "allowed_address p (addr_unmap a)"
    by (auto simp: resolve_allowed_def split: if_splits)
  have "public_address (addr_unmap a)"
    using f(2) assms(2) by (rule allowed_public) (use assms(3) Some in \<open>auto dest: unmap_zone\<close>)
  with f(1) show ?thesis by simp
qed

lemma dialled_subset: "set (snd (dial_candidates dial port as)) \<subseteq> set as"
  by (induction as) (auto split: sum.splits prod.splits)

lemma dialled_connection:
  "fst (dial_candidates dial port as) = Inr c \<Longrightarrow> \<exists>a \<in> set as. dial a port = Inr c"
  by (induction as) (auto split: sum.splits prod.splits)

text \<open>The host of a normalised URL has no zone.\<close>

lemma set_split_host: "set (fst (split_host_port hp)) \<subseteq> set hp"
proof -
  have inner: "set (butlast (tl host)) \<subseteq> set host" for host :: string
    by (cases host) (auto dest: in_set_butlastD)
  have "set (rev rest) \<subseteq> set hp" if "dropWhile is_decimal (rev hp) = c # rest" for c rest
    using that set_dropWhileD [of _ is_decimal "rev hp"] by auto
  with inner [of hp] inner [of "rev _"] show ?thesis
    unfolding split_host_port_def Let_def
    by (auto split: list.splits if_splits) (metis (no_types, lifting) in_mono inner set_rev)+
qed

lemma parsed_port_digits: "parse_port port = Some n \<Longrightarrow> list_all is_decimal port"
  by (auto simp: parse_port_def split: if_splits)

lemma normalized_host:
  assumes "normalize_syntax parse show_url p v = Inr (n, u)"
  shows "CHR ''%'' \<notin> set (pu_host u)" and "pu_scheme u = ''https'' \<or> pu_scheme u = ''http'' \<and> tp_allowInsecureHTTP p"
    and "\<not> pu_user u" and "pu_rawQuery u = ''''" and "pu_fragment u = ''''" and "length n \<le> 2048" and "n = show_url u"
proof -
  from assms obtain w host port where w: "normalize_host show_url host port w = Inr (n, u)"
    and s: "pu_scheme w = ''https'' \<or> pu_scheme w = ''http'' \<and> tp_allowInsecureHTTP p"
    and f: "\<not> pu_user w" "pu_rawQuery w = ''''" "pu_fragment w = ''''"
    by (auto simp: normalize_syntax_def Let_def split: if_splits option.splits)
  have digits: "CHR ''%'' \<notin> set port" if "port \<noteq> ''''"
  proof -
    from w that obtain k where "parse_port port = Some k"
      by (auto simp: normalize_host_def split: if_splits)
    then have "list_all is_decimal port" by (rule parsed_port_digits)
    then show ?thesis by (auto simp: list_all_iff is_decimal_def)
  qed
  with w show "CHR ''%'' \<notin> set (pu_host u)"
    by (auto simp: normalize_host_def Let_def join_host_port_def split: if_splits)
  from w s f show "pu_scheme u = ''https'' \<or> pu_scheme u = ''http'' \<and> tp_allowInsecureHTTP p"
    and "\<not> pu_user u" and "pu_rawQuery u = ''''" and "pu_fragment u = ''''" and "length n \<le> 2048" and "n = show_url u"
    by (auto simp: normalize_host_def Let_def max_webhook_target_def split: if_splits)
qed

text \<open>C7: A request to a normalised target only ever connects to public addresses. The URL that
  \<open>normalizeSyntax\<close> accepts is \<open>https\<close> (or \<open>http\<close> where that is allowed), without user, query and
  fragment; when the transport dials the host of that URL, every address tried is public, whatever the
  resolver answers at that moment, and the connection is to one of them. This rests on \<open>ParseAddr\<close> finding
  a zone only after a percent sign.\<close>

theorem webhook_dials_public_only:
  assumes zone: "\<And>h b z. addr_of h = Some (Addr6 b z) \<Longrightarrow> CHR ''%'' \<notin> set h \<Longrightarrow> z = ''''"
    and closed: "\<not> tp_allowPrivateTarget p"
    and url: "normalize_syntax parse show_url p v = Inr (n, u)"
    and host: "split address = Some (fst (split_host_port (pu_host u)), port)"
    and dialled: "dial_context split addr_of lookup dial p address = (res, tried)"
  shows "list_all public_address tried \<and> (\<forall>c. res = Inr (Inr c) \<longrightarrow> (\<exists>a. public_address a \<and> dial a port = Inr c))
    \<and> (pu_scheme u = ''https'' \<or> pu_scheme u = ''http'' \<and> tp_allowInsecureHTTP p)
    \<and> \<not> pu_user u \<and> pu_rawQuery u = '''' \<and> pu_fragment u = ''''"
proof -
  let ?host = "fst (split_host_port (pu_host u))"
  note u = normalized_host [OF url]
  have "CHR ''%'' \<notin> set ?host" using set_split_host u(1) by blast
  note pub = resolved_public [of addr_of lookup p ?host, OF _ closed zone [OF _ this]]
  have "list_all public_address tried \<and> (\<forall>c. res = Inr (Inr c) \<longrightarrow> (\<exists>a. public_address a \<and> dial a port = Inr c))"
  proof (cases "resolve_allowed addr_of lookup p ?host")
    case (Inl e)
    with dialled host show ?thesis by (auto simp: dial_context_def split: if_splits)
  next
    case (Inr found)
    then have f: "list_all public_address found" by (rule pub)
    have "list_all public_address (snd (dial_candidates dial port found))"
      using f dialled_subset [of dial port found] by (auto simp: list_all_iff)
    moreover have "\<exists>a. public_address a \<and> dial a port = Inr c" if "fst (dial_candidates dial port found) = Inr c" for c
      using dialled_connection [OF that] f by (auto simp: list_all_iff)
    ultimately show ?thesis
      using dialled host Inr by (auto simp: dial_context_def split: if_splits prod.splits)
  qed
  with u show ?thesis by blast
qed

text \<open>The witness: a target whose name resolves to 203.0.114.9.\<close>

definition sample_url :: parsed_url where
  "sample_url = \<lparr>pu_scheme = ''https'', pu_opaque = '''', pu_user = False, pu_host = ''h'',
     pu_path = ''/'', pu_rawPath = '''', pu_forceQuery = False, pu_rawQuery = '''', pu_fragment = ''''\<rparr>"

definition sample_answer :: "8 word list" where
  "sample_answer = [203, 0, 114, 9]"

lemma sample_address: "addr_from_slice sample_answer = Some (Addr4 0xCB007209)"
  by (simp add: addr_from_slice_def sample_answer_def word_rcat_def)

theorem webhook_dials_public_only_witness:
  "list_all public_address [Addr4 0xCB007209]"
proof -
  have "normalize_syntax (\<lambda>_. Some sample_url) (\<lambda>u. ''https://h/'')
      \<lparr>tp_allowInsecureHTTP = False, tp_allowPrivateTarget = False\<rparr> ''https://h/''
    = Inr (''https://h/'', sample_url)"
    by (simp add: normalize_syntax_def normalize_host_def sample_url_def trim_space_graph
        contains_unsafe_url_rune_def max_webhook_target_def go_lower_def segments_ascii lower_segment_def ascii_hostname_def split_host_port_def is_decimal_def)
  moreover have "Some (''h'', ''443'') = Some (fst (split_host_port (pu_host sample_url)), ''443'')"
    by (simp add: sample_url_def split_host_port_def is_decimal_def)
  moreover have "dial_context (\<lambda>_. Some (''h'', ''443'')) (\<lambda>_. None) (\<lambda>_. Inr [sample_answer])
      (\<lambda>a port. Inr ()) \<lparr>tp_allowInsecureHTTP = False, tp_allowPrivateTarget = False\<rparr> ''h:443''
    = (Inr (Inr ()), [Addr4 0xCB007209])"
    by (simp add: dial_context_def resolve_allowed_def sample_address allowed4 special_nets4_def in_net4_def dotted_def)
  ultimately show ?thesis
    using webhook_dials_public_only [of "\<lambda>_. None" "\<lparr>tp_allowInsecureHTTP = False, tp_allowPrivateTarget = False\<rparr>"
        "\<lambda>_. Some sample_url" "\<lambda>u. ''https://h/''" "''https://h/''"
        "''https://h/''" sample_url "\<lambda>_. Some (''h'', ''443'')"
        "''h:443''" "''443''" "\<lambda>_. Inr [sample_answer]" "\<lambda>a port. Inr ()" "Inr (Inr ())"
        "[Addr4 0xCB007209]"]
    by simp
qed

end
