(* ===== verification/Webhook_Store.thy ===== *)
theory Webhook_Store
  imports Webhook_Target Usage_Period
begin

text \<open>
  The webhook outbox: the tables of \<open>api/internal/modules/webhook/model.go\<close> and the repository of
  \<open>repository.go\<close>.

  A table is the list of its rows in the order of their ids, which the database takes from a sequence
  (\<open>wk_next\<close>). An operation is one step: it locks the rows it decides on. \<open>flt k\<close> is the failure of the
  database, if any, at the \<open>k\<close>-th statement; \<open>bound\<close> says that the caller's context carries a transaction
  already, otherwise an error rolls the operation back. The counters that the code keeps in 8 and 16 bits
  wrap; versions, which rise by one per change of an endpoint, are numbers.
\<close>

subsection \<open>Rows\<close>

datatype endpoint_status = Endpoint_Active | Endpoint_Disabled

datatype wh_status = Wh_Pending | Wh_Processing | Wh_Delivered | Wh_Failed | Wh_Canceled

definition is_terminal :: "wh_status \<Rightarrow> bool" where
  "is_terminal s \<longleftrightarrow> s = Wh_Delivered \<or> s = Wh_Failed \<or> s = Wh_Canceled"

fun status_text :: "wh_status \<Rightarrow> string" where
  "status_text Wh_Pending = ''pending''"
| "status_text Wh_Processing = ''processing''"
| "status_text Wh_Delivered = ''delivered''"
| "status_text Wh_Failed = ''failed''"
| "status_text Wh_Canceled = ''canceled''"

record endpoint_row =
  we_id :: nat
  we_organization :: nat
  we_name :: string
  we_url :: string
  we_urlHash :: string
  we_status :: endpoint_status
  we_reason :: string
  we_failures :: nat
  we_version :: nat
  we_secret :: string
  we_hint :: string
  we_secretVersion :: nat
  we_previous :: string
  we_previousUntil :: "instant option"
  we_createdBy :: nat
  we_updatedBy :: nat
  we_createdAt :: instant
  we_updatedAt :: instant
  we_deletedAt :: "instant option"

record subscription_row =
  wb_id :: nat
  wb_endpoint :: nat
  wb_organization :: nat
  wb_type :: string
  wb_createdAt :: instant

record wh_event_row =
  wv_id :: nat
  wv_organization :: nat
  wv_messageID :: string
  wv_source :: string
  wv_eventID :: string
  wv_fingerprint :: string
  wv_type :: string
  wv_payload :: string
  wv_occurredAt :: instant
  wv_createdAt :: instant

record delivery_row =
  wd_id :: nat
  wd_organization :: nat
  wd_endpoint :: nat
  wd_event :: nat
  wd_hash :: string
  wd_status :: wh_status
  wd_attempts :: nat
  wd_cycle :: nat
  wd_replays :: nat
  wd_availableAt :: instant
  wd_leaseToken :: string
  wd_leaseExpiresAt :: "instant option"
  wd_http :: "int option"
  wd_failure :: string
  wd_truncated :: bool
  wd_deliveredAt :: "instant option"
  wd_createdAt :: instant
  wd_updatedAt :: instant

record attempt_row =
  wa_id :: nat
  wa_organization :: nat
  wa_delivery :: nat
  wa_number :: nat
  wa_outcome :: string
  wa_http :: "int option"
  wa_failure :: string
  wa_duration :: nat
  wa_truncated :: bool
  wa_startedAt :: instant
  wa_completedAt :: instant

record webhook_db =
  wk_organizations :: "nat list"
  wk_endpoints :: "endpoint_row list"
  wk_subscriptions :: "subscription_row list"
  wk_events :: "wh_event_row list"
  wk_deliveries :: "delivery_row list"
  wk_attempts :: "attempt_row list"
  wk_next :: nat

type_synonym wh_faults = "nat \<Rightarrow> string option"
type_synonym 'a wh_action = "webhook_db \<Rightarrow> (webhook_error + 'a) \<times> webhook_db"

definition u8 :: "nat \<Rightarrow> nat" where
  "u8 n = n mod 256"

definition u16 :: "nat \<Rightarrow> nat" where
  "u16 n = n mod 65536"

definition wh_transaction :: "bool \<Rightarrow> 'a wh_action \<Rightarrow> 'a wh_action" where
  "wh_transaction bound f db =
     (case f db of (Inl e, db1) \<Rightarrow> (Inl e, if bound then db1 else db) | (Inr x, db1) \<Rightarrow> (Inr x, db1))"

subsection \<open>Arguments and answers\<close>

record endpoint_mutation =
  em_organization :: nat
  em_actor :: nat
  em_name :: string
  em_url :: string
  em_urlHash :: string
  em_types :: "string list"
  em_secret :: string
  em_hint :: string
  em_expected :: nat
  em_now :: instant

record publication_mutation =
  pm_organization :: nat
  pm_target :: nat
  pm_messageID :: string
  pm_source :: string
  pm_eventID :: string
  pm_fingerprint :: string
  pm_type :: string
  pm_payload :: string
  pm_occurredAt :: instant
  pm_now :: instant

record endpoint_view =
  ev_id :: nat
  ev_organization :: nat
  ev_name :: string
  ev_url :: string
  ev_types :: "string list"
  ev_status :: endpoint_status
  ev_reason :: string
  ev_failures :: nat
  ev_version :: nat
  ev_hint :: string
  ev_secretVersion :: nat
  ev_previousExpiry :: "instant option"
  ev_createdAt :: instant
  ev_updatedAt :: instant

record delivery_view =
  dv_id :: nat
  dv_organization :: nat
  dv_endpoint :: nat
  dv_messageID :: string
  dv_type :: string
  dv_status :: wh_status
  dv_attempts :: nat
  dv_replays :: nat
  dv_http :: "int option"
  dv_failure :: string
  dv_truncated :: bool
  dv_availableAt :: instant
  dv_deliveredAt :: "instant option"
  dv_createdAt :: instant
  dv_updatedAt :: instant

record webhook_receipt =
  wr_id :: nat
  wr_messageID :: string
  wr_organization :: nat
  wr_type :: string
  wr_count :: nat
  wr_created :: bool
  wr_occurredAt :: instant
  wr_createdAt :: instant

record claimed_delivery =
  wc_id :: nat
  wc_endpoint :: nat
  wc_token :: string
  wc_number :: nat
  wc_cycle :: nat
  wc_hash :: string
  wc_currentHash :: string
  wc_url :: string
  wc_secret :: string
  wc_previous :: string
  wc_previousExpires :: "instant option"
  wc_messageID :: string
  wc_type :: string
  wc_payload :: string
  wc_occurredAt :: instant

record delivery_completion =
  cp_status :: wh_status
  cp_outcome :: string
  cp_http :: "int option"
  cp_failure :: string
  cp_truncated :: bool
  cp_retryAt :: "instant option"
  cp_startedAt :: instant
  cp_completedAt :: instant
  cp_duration :: nat

definition endpoint_from :: "subscription_row list \<Rightarrow> endpoint_row \<Rightarrow> endpoint_view" where
  "endpoint_from subs e =
     \<lparr>ev_id = we_id e, ev_organization = we_organization e, ev_name = we_name e, ev_url = we_url e,
      ev_types = sort (map wb_type subs), ev_status = we_status e, ev_reason = we_reason e,
      ev_failures = we_failures e, ev_version = we_version e, ev_hint = we_hint e,
      ev_secretVersion = we_secretVersion e, ev_previousExpiry = we_previousUntil e,
      ev_createdAt = we_createdAt e, ev_updatedAt = we_updatedAt e\<rparr>"

definition delivery_from :: "wh_event_row option \<Rightarrow> delivery_row \<Rightarrow> delivery_view" where
  "delivery_from ev r =
     \<lparr>dv_id = wd_id r, dv_organization = wd_organization r, dv_endpoint = wd_endpoint r,
      dv_messageID = (case ev of None \<Rightarrow> '''' | Some v \<Rightarrow> wv_messageID v),
      dv_type = (case ev of None \<Rightarrow> '''' | Some v \<Rightarrow> wv_type v),
      dv_status = wd_status r, dv_attempts = wd_attempts r, dv_replays = wd_replays r, dv_http = wd_http r,
      dv_failure = wd_failure r, dv_truncated = wd_truncated r, dv_availableAt = wd_availableAt r,
      dv_deliveredAt = wd_deliveredAt r, dv_createdAt = wd_createdAt r, dv_updatedAt = wd_updatedAt r\<rparr>"

subsection \<open>Validation\<close>

text \<open>The identifier patterns of \<open>catalog.go\<close>.\<close>

definition event_word :: "string \<Rightarrow> bool" where
  "event_word w \<longleftrightarrow> w \<noteq> [] \<and> lower_letter (hd w) \<and> list_all (\<lambda>c. lower_alnum c \<or> c = CHR ''_'') w"

definition valid_webhook_event_type :: "string \<Rightarrow> bool" where
  "valid_webhook_event_type s \<longleftrightarrow> 0 < length s \<and> length s \<le> 100 \<and> list_all event_word (split_on CHR ''.'' s)
     \<and> 2 \<le> length (split_on CHR ''.'' s)"

definition valid_webhook_source :: "string \<Rightarrow> bool" where
  "valid_webhook_source s \<longleftrightarrow> 0 < length s \<and> length s \<le> 64 \<and> list_all event_word (split_on CHR ''.'' s)"

definition valid_webhook_event_id :: "string \<Rightarrow> bool" where
  "valid_webhook_event_id s \<longleftrightarrow> 0 < length s \<and> length s \<le> 128 \<and> (lower_alnum (hd s) \<or> upper_letter (hd s))
     \<and> list_all (\<lambda>c. lower_alnum c \<or> upper_letter c \<or> c \<in> {CHR ''_'', CHR '':'', CHR ''-''}) s"

definition validate_endpoint_mutation :: "bool \<Rightarrow> endpoint_mutation \<Rightarrow> webhook_error option" where
  "validate_endpoint_mutation update m =
     (if em_organization m = 0 \<or> em_actor m = 0 \<or> em_name m = '''' \<or> em_url m = '''' \<or> length (em_urlHash m) \<noteq> 64
        \<or> em_types m = [] \<or> em_now m = zero_time then Some ErrWebhookInput
      else if \<not> update \<and> (em_secret m = '''' \<or> em_hint m = '''') then Some ErrWebhookInput
      else None)"

definition validate_publication_mutation :: "publication_mutation \<Rightarrow> webhook_error option" where
  "validate_publication_mutation m =
     (if pm_organization m = 0 \<or> pm_messageID m = '''' \<or> \<not> valid_webhook_source (pm_source m)
        \<or> \<not> valid_webhook_event_id (pm_eventID m) \<or> length (pm_fingerprint m) \<noteq> 64
        \<or> \<not> valid_webhook_event_type (pm_type m) \<or> length (pm_payload m) < 2
        \<or> pm_occurredAt m = zero_time \<or> pm_now m = zero_time
      then Some ErrWebhookInput else None)"

subsection \<open>Reading rows\<close>

text \<open>Endpoints are deleted softly: every query of the model leaves out the rows with a deletion time.\<close>

definition find_endpoint :: "nat \<Rightarrow> nat \<Rightarrow> webhook_db \<Rightarrow> endpoint_row option" where
  "find_endpoint org i db =
     find (\<lambda>e. we_id e = i \<and> we_organization e = org \<and> we_deletedAt e = None) (wk_endpoints db)"

definition endpoint_subscriptions :: "nat \<Rightarrow> webhook_db \<Rightarrow> subscription_row list" where
  "endpoint_subscriptions i db = filter (\<lambda>s. wb_endpoint s = i) (wk_subscriptions db)"

definition find_endpoint_for_update :: "string option \<Rightarrow> nat \<Rightarrow> nat \<Rightarrow> webhook_db \<Rightarrow> webhook_error + endpoint_row" where
  "find_endpoint_for_update flt org i db =
     (case flt of
        Some e \<Rightarrow> Inl (WebhookFailure e)
      | None \<Rightarrow> (case find_endpoint org i db of None \<Rightarrow> Inl ErrWebhookEndpointNotFound | Some e \<Rightarrow> Inr e))"

definition event_by_id :: "nat \<Rightarrow> webhook_db \<Rightarrow> wh_event_row option" where
  "event_by_id i db = find (\<lambda>v. wv_id v = i) (wk_events db)"

text \<open>One page of the rows, newest first.\<close>

definition newest_page :: "('r \<Rightarrow> instant) \<Rightarrow> int \<Rightarrow> int \<Rightarrow> 'r list \<Rightarrow> 'r list" where
  "newest_page created page per rows =
     take (nat per) (drop (nat ((page - 1) * per)) (rev (sort_key created rows)))"

definition bad_page :: "nat \<Rightarrow> int \<Rightarrow> int \<Rightarrow> bool" where
  "bad_page org page per \<longleftrightarrow> org = 0 \<or> page < 1 \<or> per < 1 \<or> 100 < per"

definition list_endpoints ::
    "wh_faults \<Rightarrow> nat \<Rightarrow> int \<Rightarrow> int \<Rightarrow> webhook_db \<Rightarrow> webhook_error + endpoint_view list \<times> nat" where
  "list_endpoints flt org page per db =
     (let rows = filter (\<lambda>e. we_organization e = org \<and> we_deletedAt e = None) (wk_endpoints db)
      in if bad_page org page per then Inl ErrWebhookInput
         else case flt 0 of Some e \<Rightarrow> Inl (WebhookFailure e) | None \<Rightarrow>
         case flt 1 of Some e \<Rightarrow> Inl (WebhookFailure e) | None \<Rightarrow>
         Inr (map (\<lambda>e. endpoint_from (endpoint_subscriptions (we_id e) db) e) (newest_page we_createdAt page per rows),
              length rows))"

record delivery_filter =
  df_endpoint :: nat
  df_status :: string

definition delivery_matches :: "nat \<Rightarrow> delivery_filter \<Rightarrow> delivery_row \<Rightarrow> bool" where
  "delivery_matches org f r \<longleftrightarrow> wd_organization r = org \<and> (df_endpoint f \<noteq> 0 \<longrightarrow> wd_endpoint r = df_endpoint f)
     \<and> (df_status f \<noteq> '''' \<longrightarrow> status_text (wd_status r) = df_status f)"

definition list_deliveries ::
    "wh_faults \<Rightarrow> nat \<Rightarrow> delivery_filter \<Rightarrow> int \<Rightarrow> int \<Rightarrow> webhook_db \<Rightarrow> webhook_error + delivery_view list \<times> nat" where
  "list_deliveries flt org f page per db =
     (let rows = filter (delivery_matches org f) (wk_deliveries db)
      in if bad_page org page per then Inl ErrWebhookInput
         else case flt 0 of Some e \<Rightarrow> Inl (WebhookFailure e) | None \<Rightarrow>
         case flt 1 of Some e \<Rightarrow> Inl (WebhookFailure e) | None \<Rightarrow>
         Inr (map (\<lambda>r. delivery_from (event_by_id (wd_event r) db) r) (newest_page wd_createdAt page per rows),
              length rows))"

text \<open>The answers are the attempts themselves, the highest number first.\<close>

definition list_attempts ::
    "wh_faults \<Rightarrow> nat \<Rightarrow> nat \<Rightarrow> int \<Rightarrow> int \<Rightarrow> webhook_db \<Rightarrow> webhook_error + attempt_row list \<times> nat" where
  "list_attempts flt org i page per db =
     (let rows = filter (\<lambda>a. wa_organization a = org \<and> wa_delivery a = i) (wk_attempts db)
      in if i = 0 \<or> bad_page org page per then Inl ErrWebhookInput
         else case flt 0 of Some e \<Rightarrow> Inl (WebhookFailure e) | None \<Rightarrow>
         if rows_affected (\<lambda>r. wd_id r = i \<and> wd_organization r = org) (wk_deliveries db) \<noteq> 1
         then Inl ErrWebhookDeliveryNotFound
         else case flt 1 of Some e \<Rightarrow> Inl (WebhookFailure e) | None \<Rightarrow>
         case flt 2 of Some e \<Rightarrow> Inl (WebhookFailure e) | None \<Rightarrow>
         Inr (take (nat per) (drop (nat ((page - 1) * per)) (rev (sort_key wa_number rows))), length rows))"

subsection \<open>Endpoints\<close>

text \<open>\<open>newSubscriptions\<close>, with the ids the insertion gives them. The unique index on endpoint and type
  refuses a type that occurs twice.\<close>

definition new_subscriptions :: "nat \<Rightarrow> nat \<Rightarrow> nat \<Rightarrow> string list \<Rightarrow> instant \<Rightarrow> subscription_row list" where
  "new_subscriptions start endpoint org types now =
     map (\<lambda>(i, t). \<lparr>wb_id = i, wb_endpoint = endpoint, wb_organization = org, wb_type = t, wb_createdAt = now\<rparr>)
       (enumerate start types)"

definition insert_subscriptions ::
    "string option \<Rightarrow> nat \<Rightarrow> nat \<Rightarrow> string list \<Rightarrow> instant \<Rightarrow> subscription_row list wh_action" where
  "insert_subscriptions flt endpoint org types now db =
     (let subs = new_subscriptions (wk_next db) endpoint org types now
      in case flt of Some e \<Rightarrow> (Inl (WebhookFailure e), db) | None \<Rightarrow>
         if \<not> distinct (types @ map wb_type (endpoint_subscriptions endpoint db))
         then (Inl (WebhookFailure ''create webhook subscriptions''), db)
         else (Inr subs, db\<lparr>wk_subscriptions := wk_subscriptions db @ subs, wk_next := wk_next db + length subs\<rparr>))"

definition delete_subscriptions :: "nat \<Rightarrow> webhook_db \<Rightarrow> webhook_db" where
  "delete_subscriptions endpoint db =
     db\<lparr>wk_subscriptions := filter (\<lambda>s. wb_endpoint s \<noteq> endpoint) (wk_subscriptions db)\<rparr>"

text \<open>\<open>cancelOpenDeliveries\<close>.\<close>

definition is_open :: "wh_status \<Rightarrow> bool" where
  "is_open s \<longleftrightarrow> s = Wh_Pending \<or> s = Wh_Processing"

definition canceled_delivery :: "instant \<Rightarrow> delivery_row \<Rightarrow> delivery_row" where
  "canceled_delivery now r =
     r\<lparr>wd_status := Wh_Canceled, wd_leaseToken := '''', wd_leaseExpiresAt := None,
       wd_failure := ''WEBHOOK.ENDPOINT_CHANGED'', wd_updatedAt := now\<rparr>"

definition cancel_open_deliveries :: "nat \<Rightarrow> instant \<Rightarrow> webhook_db \<Rightarrow> webhook_db" where
  "cancel_open_deliveries endpoint now db =
     db\<lparr>wk_deliveries := update_rows (\<lambda>r. wd_endpoint r = endpoint \<and> is_open (wd_status r)) (canceled_delivery now)
                          (wk_deliveries db)\<rparr>"

definition cancel_open :: "string option \<Rightarrow> nat \<Rightarrow> instant \<Rightarrow> unit wh_action" where
  "cancel_open flt endpoint now db =
     (case flt of Some e \<Rightarrow> (Inl (WebhookFailure e), db) | None \<Rightarrow> (Inr (), cancel_open_deliveries endpoint now db))"

definition new_endpoint :: "nat \<Rightarrow> endpoint_mutation \<Rightarrow> endpoint_row" where
  "new_endpoint i m =
     \<lparr>we_id = i, we_organization = em_organization m, we_name = em_name m, we_url = em_url m,
      we_urlHash = em_urlHash m, we_status = Endpoint_Active, we_reason = '''', we_failures = 0, we_version = 1,
      we_secret = em_secret m, we_hint = em_hint m, we_secretVersion = 1, we_previous = '''',
      we_previousUntil = None, we_createdBy = em_actor m, we_updatedBy = em_actor m,
      we_createdAt = em_now m, we_updatedAt = em_now m, we_deletedAt = None\<rparr>"

definition create_endpoint_in_tx :: "wh_faults \<Rightarrow> endpoint_mutation \<Rightarrow> endpoint_view wh_action" where
  "create_endpoint_in_tx flt m db =
     (case flt 0 of Some e \<Rightarrow> (Inl (WebhookFailure e), db) | None \<Rightarrow>
      if em_organization m \<notin> set (wk_organizations db) then (Inl ErrWebhookOrganizationNotFound, db)
      else case flt 1 of Some e \<Rightarrow> (Inl (WebhookFailure e), db) | None \<Rightarrow>
      let row = new_endpoint (wk_next db) m;
          db1 = db\<lparr>wk_endpoints := wk_endpoints db @ [row], wk_next := wk_next db + 1\<rparr>
      in (case insert_subscriptions (flt 2) (we_id row) (em_organization m) (em_types m) (em_now m) db1 of
            (Inl e, db2) \<Rightarrow> (Inl e, db2)
          | (Inr subs, db2) \<Rightarrow> (Inr (endpoint_from subs row), db2)))"

definition create_endpoint :: "wh_faults \<Rightarrow> bool \<Rightarrow> endpoint_mutation \<Rightarrow> endpoint_view wh_action" where
  "create_endpoint flt bound m db =
     (case validate_endpoint_mutation False m of
        Some e \<Rightarrow> (Inl e, db)
      | None \<Rightarrow> wh_transaction bound (create_endpoint_in_tx flt m) db)"

text \<open>The frame of every versioned change: read the endpoint, compare its version, write it where the
  version still matches and the row is not deleted.\<close>

definition endpoint_hit :: "nat \<Rightarrow> nat \<Rightarrow> nat \<Rightarrow> endpoint_row \<Rightarrow> bool" where
  "endpoint_hit org i version e \<longleftrightarrow>
     we_id e = i \<and> we_organization e = org \<and> we_version e = version \<and> we_deletedAt e = None"

definition change_endpoint ::
    "wh_faults \<Rightarrow> nat \<Rightarrow> nat \<Rightarrow> nat \<Rightarrow> (endpoint_row \<Rightarrow> endpoint_row) \<Rightarrow> endpoint_row wh_action" where
  "change_endpoint flt org i version f db =
     (case find_endpoint_for_update (flt 0) org i db of
        Inl e \<Rightarrow> (Inl e, db)
      | Inr po \<Rightarrow>
          if we_version po \<noteq> version then (Inl ErrWebhookEndpointVersionConflict, db)
          else case flt 1 of Some e \<Rightarrow> (Inl (WebhookFailure e), db) | None \<Rightarrow>
          if rows_affected (endpoint_hit org i version) (wk_endpoints db) \<noteq> 1
          then (Inl ErrWebhookEndpointVersionConflict,
                db\<lparr>wk_endpoints := update_rows (endpoint_hit org i version) f (wk_endpoints db)\<rparr>)
          else (Inr po, db\<lparr>wk_endpoints := update_rows (endpoint_hit org i version) f (wk_endpoints db)\<rparr>))"

definition replaced_configuration :: "endpoint_mutation \<Rightarrow> endpoint_row \<Rightarrow> endpoint_row" where
  "replaced_configuration m e =
     e\<lparr>we_name := em_name m, we_url := em_url m, we_urlHash := em_urlHash m, we_version := em_expected m + 1,
       we_updatedBy := em_actor m, we_updatedAt := em_now m\<rparr>"

definition update_endpoint_in_tx :: "wh_faults \<Rightarrow> nat \<Rightarrow> endpoint_mutation \<Rightarrow> endpoint_view wh_action" where
  "update_endpoint_in_tx flt i m db =
     (case change_endpoint flt (em_organization m) i (em_expected m) (replaced_configuration m) db of
        (Inl e, db1) \<Rightarrow> (Inl e, db1)
      | (Inr po, db1) \<Rightarrow>
          case flt 2 of Some e \<Rightarrow> (Inl (WebhookFailure e), db1) | None \<Rightarrow>
          (case insert_subscriptions (flt 3) i (em_organization m) (em_types m) (em_now m) (delete_subscriptions i db1) of
             (Inl e, db2) \<Rightarrow> (Inl e, db2)
           | (Inr subs, db2) \<Rightarrow>
               (case (if we_urlHash po \<noteq> em_urlHash m then cancel_open (flt 4) i (em_now m) db2 else (Inr (), db2)) of
                  (Inl e, db3) \<Rightarrow> (Inl e, db3)
                | (Inr _, db3) \<Rightarrow> (Inr (endpoint_from subs (replaced_configuration m po)), db3))))"

definition update_endpoint :: "wh_faults \<Rightarrow> bool \<Rightarrow> nat \<Rightarrow> endpoint_mutation \<Rightarrow> endpoint_view wh_action" where
  "update_endpoint flt bound i m db =
     (if i = 0 \<or> em_expected m = 0 then (Inl ErrWebhookInput, db)
      else case validate_endpoint_mutation True m of
        Some e \<Rightarrow> (Inl e, db)
      | None \<Rightarrow> wh_transaction bound (update_endpoint_in_tx flt i m) db)"

definition replaced_status :: "bool \<Rightarrow> nat \<Rightarrow> nat \<Rightarrow> instant \<Rightarrow> endpoint_row \<Rightarrow> endpoint_row" where
  "replaced_status enabled version actor now e =
     e\<lparr>we_status := (if enabled then Endpoint_Active else Endpoint_Disabled),
       we_reason := (if enabled then '''' else ''manually_disabled''), we_failures := 0,
       we_version := version + 1, we_updatedBy := actor, we_updatedAt := now\<rparr>"

definition replace_endpoint_status ::
    "wh_faults \<Rightarrow> bool \<Rightarrow> nat \<Rightarrow> nat \<Rightarrow> nat \<Rightarrow> bool \<Rightarrow> nat \<Rightarrow> instant \<Rightarrow> endpoint_view wh_action" where
  "replace_endpoint_status flt bound org i actor enabled version now db =
     (if org = 0 \<or> i = 0 \<or> actor = 0 \<or> version = 0 \<or> now = zero_time then (Inl ErrWebhookInput, db)
      else wh_transaction bound (\<lambda>db.
        case change_endpoint flt org i version (replaced_status enabled version actor now) db of
          (Inl e, db1) \<Rightarrow> (Inl e, db1)
        | (Inr po, db1) \<Rightarrow>
            (case (if \<not> enabled then cancel_open (flt 2) i now db1 else (Inr (), db1)) of
               (Inl e, db2) \<Rightarrow> (Inl e, db2)
             | (Inr _, db2) \<Rightarrow>
                 (Inr (endpoint_from (endpoint_subscriptions i db) (replaced_status enabled version actor now po)), db2))) db)"

definition deleted_webhook_url_hash :: string where
  "deleted_webhook_url_hash = ''6cfe132f65419f94a7ab8d973d3925a8837f3c396884a9146fb50a2abac317fa''"

definition deleted_endpoint :: "nat \<Rightarrow> nat \<Rightarrow> instant \<Rightarrow> endpoint_row \<Rightarrow> endpoint_row" where
  "deleted_endpoint version actor now e =
     e\<lparr>we_url := ''https://deleted.invalid/'', we_urlHash := deleted_webhook_url_hash,
       we_status := Endpoint_Disabled, we_reason := ''deleted'', we_secret := '''', we_hint := ''deleted'',
       we_previous := '''', we_previousUntil := None, we_version := version + 1, we_updatedBy := actor,
       we_updatedAt := now, we_deletedAt := Some now\<rparr>"

definition delete_endpoint :: "wh_faults \<Rightarrow> bool \<Rightarrow> nat \<Rightarrow> nat \<Rightarrow> nat \<Rightarrow> nat \<Rightarrow> instant \<Rightarrow> unit wh_action" where
  "delete_endpoint flt bound org i actor version now db =
     (if org = 0 \<or> i = 0 \<or> actor = 0 \<or> version = 0 \<or> now = zero_time then (Inl ErrWebhookInput, db)
      else wh_transaction bound (\<lambda>db.
        case change_endpoint flt org i version (deleted_endpoint version actor now) db of
          (Inl e, db1) \<Rightarrow> (Inl e, db1)
        | (Inr po, db1) \<Rightarrow>
            case flt 2 of Some e \<Rightarrow> (Inl (WebhookFailure e), db1) | None \<Rightarrow> cancel_open (flt 3) i now (delete_subscriptions i db1)) db)"

text \<open>The current secret stays valid beside the new one until \<open>until\<close>.\<close>

definition rotated_secret :: "endpoint_mutation \<Rightarrow> instant \<Rightarrow> endpoint_row \<Rightarrow> endpoint_row" where
  "rotated_secret m until e =
     e\<lparr>we_previous := we_secret e, we_previousUntil := Some until, we_secret := em_secret m, we_hint := em_hint m,
       we_secretVersion := we_secretVersion e + 1, we_version := em_expected m + 1, we_updatedBy := em_actor m,
       we_updatedAt := em_now m\<rparr>"

definition rotate_endpoint_secret ::
    "wh_faults \<Rightarrow> bool \<Rightarrow> nat \<Rightarrow> endpoint_mutation \<Rightarrow> instant \<Rightarrow> endpoint_view wh_action" where
  "rotate_endpoint_secret flt bound i m until db =
     (if i = 0 \<or> em_organization m = 0 \<or> em_actor m = 0 \<or> em_expected m = 0 \<or> em_secret m = '''' \<or> em_hint m = ''''
        \<or> em_now m = zero_time \<or> \<not> em_now m < until then (Inl ErrWebhookInput, db)
      else wh_transaction bound (\<lambda>db.
        case change_endpoint flt (em_organization m) i (em_expected m) (rotated_secret m until) db of
          (Inl e, db1) \<Rightarrow> (Inl e, db1)
        | (Inr po, db1) \<Rightarrow> (Inr (endpoint_from (endpoint_subscriptions i db) (rotated_secret m until po)), db1)) db)"

subsection \<open>Publishing\<close>

definition same_identity :: "publication_mutation \<Rightarrow> wh_event_row \<Rightarrow> bool" where
  "same_identity m v \<longleftrightarrow> wv_organization v = pm_organization m \<and> wv_source v = pm_source m \<and> wv_eventID v = pm_eventID m"

definition new_webhook_event :: "nat \<Rightarrow> publication_mutation \<Rightarrow> wh_event_row" where
  "new_webhook_event i m =
     \<lparr>wv_id = i, wv_organization = pm_organization m, wv_messageID = pm_messageID m, wv_source = pm_source m,
      wv_eventID = pm_eventID m, wv_fingerprint = pm_fingerprint m, wv_type = pm_type m,
      wv_payload = pm_payload m, wv_occurredAt = pm_occurredAt m, wv_createdAt = pm_now m\<rparr>"

text \<open>The row as its columns keep it, to the microsecond. Only the receipt of \<open>Publish\<close> shows the difference; the times of
  the other tables are kept as they are given.\<close>

definition webhook_columns :: "wh_event_row \<Rightarrow> wh_event_row" where
  "webhook_columns v = v\<lparr>wv_occurredAt := column_time (wv_occurredAt v), wv_createdAt := column_time (wv_createdAt v)\<rparr>"

lemma webhook_columns_fields [simp]:
  "wv_id (webhook_columns v) = wv_id v" "wv_organization (webhook_columns v) = wv_organization v"
  "wv_messageID (webhook_columns v) = wv_messageID v" "wv_source (webhook_columns v) = wv_source v"
  "wv_eventID (webhook_columns v) = wv_eventID v" "wv_fingerprint (webhook_columns v) = wv_fingerprint v"
  "wv_type (webhook_columns v) = wv_type v" "wv_payload (webhook_columns v) = wv_payload v"
  by (simp_all add: webhook_columns_def)

text \<open>The insert that does nothing when the identity is taken; otherwise the answer is the row as it is in memory. The
  foreign key to the organization and the unique message id can refuse it.\<close>

definition insert_event :: "string option \<Rightarrow> publication_mutation \<Rightarrow> wh_event_row option wh_action" where
  "insert_event flt m db =
     (case flt of Some e \<Rightarrow> (Inl (WebhookFailure e), db) | None \<Rightarrow>
      if list_ex (same_identity m) (wk_events db) then (Inr None, db)
      else if pm_organization m \<notin> set (wk_organizations db)
        \<or> list_ex (\<lambda>v. wv_messageID v = pm_messageID m) (wk_events db)
      then (Inl (WebhookFailure ''create webhook event''), db)
      else (let row = new_webhook_event (wk_next db) m
            in (Inr (Some row), db\<lparr>wk_events := wk_events db @ [webhook_columns row], wk_next := wk_next db + 1\<rparr>)))"

text \<open>The join of the active endpoints with the subscriptions to the type.\<close>

definition subscribed_join :: "publication_mutation \<Rightarrow> webhook_db \<Rightarrow> endpoint_row list" where
  "subscribed_join m db =
     concat (map (\<lambda>e. map (\<lambda>_. e) (filter (\<lambda>s. wb_endpoint s = we_id e \<and> wb_type s = pm_type m) (wk_subscriptions db)))
       (filter (\<lambda>e. we_organization e = pm_organization m \<and> we_status e = Endpoint_Active \<and> we_deletedAt e = None
          \<and> (pm_target m \<noteq> 0 \<longrightarrow> we_id e = pm_target m)) (wk_endpoints db)))"

definition subscribed_endpoints ::
    "wh_faults \<Rightarrow> publication_mutation \<Rightarrow> webhook_db \<Rightarrow> webhook_error + endpoint_row list" where
  "subscribed_endpoints flt m db =
     (case flt 2 of Some e \<Rightarrow> Inl (WebhookFailure e) | None \<Rightarrow>
      let rows = subscribed_join m db
      in if pm_target m \<noteq> 0 \<and> length rows \<noteq> 1
         then (case flt 3 of Some e \<Rightarrow> Inl (WebhookFailure e) | None \<Rightarrow>
               case find_endpoint (pm_organization m) (pm_target m) db of
                 None \<Rightarrow> Inl ErrWebhookEndpointNotFound
               | Some _ \<Rightarrow> Inl ErrWebhookReplayNotAllowed)
         else Inr rows)"

definition new_delivery :: "publication_mutation \<Rightarrow> nat \<Rightarrow> nat \<times> endpoint_row \<Rightarrow> delivery_row" where
  "new_delivery m event ie =
     \<lparr>wd_id = fst ie, wd_organization = pm_organization m, wd_endpoint = we_id (snd ie), wd_event = event,
      wd_hash = we_urlHash (snd ie), wd_status = Wh_Pending, wd_attempts = 0, wd_cycle = 0, wd_replays = 0,
      wd_availableAt = pm_now m, wd_leaseToken = '''', wd_leaseExpiresAt = None, wd_http = None,
      wd_failure = '''', wd_truncated = False, wd_deliveredAt = None, wd_createdAt = pm_now m,
      wd_updatedAt = pm_now m\<rparr>"

text \<open>One delivery per endpoint. The database refuses two for one event and endpoint, and rows whose event or
  endpoint is gone.\<close>

definition insert_deliveries :: "string option \<Rightarrow> publication_mutation \<Rightarrow> nat \<Rightarrow> endpoint_row list \<Rightarrow> unit wh_action" where
  "insert_deliveries flt m event endpoints db =
     (if endpoints = [] then (Inr (), db)
      else case flt of Some e \<Rightarrow> (Inl (WebhookFailure e), db) | None \<Rightarrow>
      let rows = map (new_delivery m event) (enumerate (wk_next db) endpoints)
      in if \<not> distinct (map (\<lambda>r. (wd_event r, wd_endpoint r)) (wk_deliveries db @ rows))
           \<or> \<not> list_ex (\<lambda>v. wv_id v = event) (wk_events db)
           \<or> \<not> list_all (\<lambda>e. we_id e \<in> we_id ` set (wk_endpoints db)) endpoints
         then (Inl (WebhookFailure ''create webhook deliveries''), db)
         else (Inr (), db\<lparr>wk_deliveries := wk_deliveries db @ rows, wk_next := wk_next db + length endpoints\<rparr>))"

text \<open>
  The endpoints are read without a lock and the deliveries inserted by a later statement. \<open>fan_out\<close> is the run in
  which nothing comes between; \<open>Webhook_World\<close> has the two statements as steps of their own, too.
\<close>

definition fan_out :: "wh_faults \<Rightarrow> publication_mutation \<Rightarrow> wh_event_row \<Rightarrow> unit wh_action" where
  "fan_out flt m v db =
     (case subscribed_endpoints flt m db of
        Inl e \<Rightarrow> (Inl e, db)
      | Inr endpoints \<Rightarrow> insert_deliveries (flt 4) m (wv_id v) endpoints db)"

definition deliveries_for_event ::
    "string option \<Rightarrow> wh_event_row \<Rightarrow> nat \<Rightarrow> webhook_db \<Rightarrow> webhook_error + delivery_view list" where
  "deliveries_for_event flt v endpoint db =
     (case flt of Some e \<Rightarrow> Inl (WebhookFailure e) | None \<Rightarrow>
      Inr (map (delivery_from (Some v))
        (filter (\<lambda>r. wd_event r = wv_id v \<and> (endpoint \<noteq> 0 \<longrightarrow> wd_endpoint r = endpoint)) (wk_deliveries db))))"

text \<open>The receipt of a new event has the times in memory; that of an event found has the times its columns keep.\<close>

definition publication_result :: "wh_event_row \<Rightarrow> bool \<Rightarrow> delivery_view list \<Rightarrow> webhook_receipt \<times> delivery_view list" where
  "publication_result v created deliveries =
     (\<lparr>wr_id = wv_id v, wr_messageID = wv_messageID v, wr_organization = wv_organization v, wr_type = wv_type v,
       wr_count = length deliveries, wr_created = created, wr_occurredAt = wv_occurredAt v,
       wr_createdAt = wv_createdAt v\<rparr>, deliveries)"

text \<open>The last part of \<open>Publish\<close>, for a new event and for one that was found.\<close>

definition published ::
    "wh_faults \<Rightarrow> publication_mutation \<Rightarrow> wh_event_row \<Rightarrow> bool \<Rightarrow> (webhook_receipt \<times> delivery_view list) wh_action" where
  "published flt m v created db =
     (case deliveries_for_event (flt 5) v (pm_target m) db of
        Inl e \<Rightarrow> (Inl e, db)
      | Inr deliveries \<Rightarrow>
          if pm_target m \<noteq> 0 \<and> length deliveries \<noteq> 1 then (Inl ErrWebhookReplayNotAllowed, db)
          else (Inr (publication_result v created deliveries), db))"

definition publish_in_tx :: "wh_faults \<Rightarrow> publication_mutation \<Rightarrow> (webhook_receipt \<times> delivery_view list) wh_action" where
  "publish_in_tx flt m db =
     (case insert_event (flt 0) m db of
        (Inl e, db1) \<Rightarrow> (Inl e, db1)
      | (Inr None, db1) \<Rightarrow>
          case flt 1 of Some e \<Rightarrow> (Inl (WebhookFailure e), db1) | None \<Rightarrow>
          (case find (same_identity m) (wk_events db1) of
             None \<Rightarrow> (Inl (WebhookFailure ''find idempotent webhook event''), db1)
           | Some v \<Rightarrow>
               if wv_fingerprint v \<noteq> pm_fingerprint m then (Inl ErrWebhookIdempotencyConflict, db1)
               else published flt m v False db1)
      | (Inr (Some v), db1) \<Rightarrow>
          (case fan_out flt m v db1 of
             (Inl e, db2) \<Rightarrow> (Inl e, db2)
           | (Inr _, db2) \<Rightarrow> published flt m v True db2))"

definition publish_event ::
    "wh_faults \<Rightarrow> bool \<Rightarrow> publication_mutation \<Rightarrow> (webhook_receipt \<times> delivery_view list) wh_action" where
  "publish_event flt bound m db =
     (case validate_publication_mutation m of
        Some e \<Rightarrow> (Inl e, db)
      | None \<Rightarrow> wh_transaction bound (publish_in_tx flt m) db)"

subsection \<open>Claiming\<close>

definition lease_lapsed :: "instant \<Rightarrow> delivery_row \<Rightarrow> bool" where
  "lease_lapsed now r \<longleftrightarrow>
     wd_status r = Wh_Processing \<and> (case wd_leaseExpiresAt r of None \<Rightarrow> False | Some t \<Rightarrow> t \<le> now)"

definition released_lease :: "instant \<Rightarrow> delivery_row \<Rightarrow> delivery_row" where
  "released_lease now r =
     r\<lparr>wd_status := Wh_Pending, wd_leaseToken := '''', wd_leaseExpiresAt := None, wd_updatedAt := now\<rparr>"

definition endpoint_of :: "webhook_db \<Rightarrow> delivery_row \<Rightarrow> endpoint_row option" where
  "endpoint_of db r = find (\<lambda>e. we_id e = wd_endpoint r \<and> we_deletedAt e = None) (wk_endpoints db)"

definition delivery_due :: "instant \<Rightarrow> webhook_db \<Rightarrow> delivery_row \<Rightarrow> bool" where
  "delivery_due now db r \<longleftrightarrow> wd_status r = Wh_Pending \<and> wd_availableAt r \<le> now
     \<and> list_ex (\<lambda>e. we_id e = wd_endpoint r \<and> we_status e = Endpoint_Active \<and> we_deletedAt e = None) (wk_endpoints db)"

text \<open>\<open>locked\<close> holds of the deliveries whose rows, or whose endpoint's row, another transaction has locked:
  \<open>SKIP LOCKED\<close> passes over them.\<close>

definition due_deliveries :: "(delivery_row \<Rightarrow> bool) \<Rightarrow> instant \<Rightarrow> nat \<Rightarrow> webhook_db \<Rightarrow> delivery_row list" where
  "due_deliveries locked now limit db =
     take limit (sort_key wd_availableAt (filter (\<lambda>r. delivery_due now db r \<and> \<not> locked r) (wk_deliveries db)))"

definition leased_delivery :: "instant \<Rightarrow> instant \<Rightarrow> string \<Rightarrow> delivery_row \<Rightarrow> delivery_row \<Rightarrow> delivery_row" where
  "leased_delivery now expires token row r =
     r\<lparr>wd_status := Wh_Processing, wd_attempts := u16 (wd_attempts row + 1), wd_cycle := u8 (wd_cycle row + 1),
       wd_leaseToken := token, wd_leaseExpiresAt := Some expires, wd_updatedAt := now\<rparr>"

definition claim_of :: "string \<Rightarrow> delivery_row \<Rightarrow> endpoint_row \<Rightarrow> wh_event_row \<Rightarrow> claimed_delivery" where
  "claim_of token r e v =
     \<lparr>wc_id = wd_id r, wc_endpoint = wd_endpoint r, wc_token = token, wc_number = u16 (wd_attempts r + 1),
      wc_cycle = u8 (wd_cycle r + 1), wc_hash = wd_hash r, wc_currentHash = we_urlHash e, wc_url = we_url e,
      wc_secret = we_secret e, wc_previous = we_previous e, wc_previousExpires = we_previousUntil e,
      wc_messageID = wv_messageID v, wc_type = wv_type v, wc_payload = wv_payload v,
      wc_occurredAt = wv_occurredAt v\<rparr>"

text \<open>The loop over the rows found; \<open>token k\<close> is the \<open>k\<close>-th new UUID.\<close>

fun lease_rows ::
    "wh_faults \<Rightarrow> (nat \<Rightarrow> string) \<Rightarrow> instant \<Rightarrow> instant \<Rightarrow> nat \<Rightarrow> delivery_row list \<Rightarrow> claimed_delivery list
     \<Rightarrow> claimed_delivery list wh_action" where
  "lease_rows flt token now expires k [] result db = (Inr result, db)"
| "lease_rows flt token now expires k (row # rows) result db =
     (case (endpoint_of db row, event_by_id (wd_event row) db) of
        (Some e, Some v) \<Rightarrow>
          (case flt (2 + k) of Some err \<Rightarrow> (Inl (WebhookFailure err), db) | None \<Rightarrow>
           let hit = (\<lambda>r. wd_id r = wd_id row \<and> wd_status r = Wh_Pending);
               db1 = db\<lparr>wk_deliveries := update_rows hit (leased_delivery now expires (token k) row) (wk_deliveries db)\<rparr>
           in if rows_affected hit (wk_deliveries db) \<noteq> 1 then lease_rows flt token now expires (Suc k) rows result db1
              else lease_rows flt token now expires (Suc k) rows (result @ [claim_of (token k) row e v]) db1)
      | _ \<Rightarrow> (Inl ErrWebhookUnavailable, db))"

text \<open>The first statement of \<open>ClaimDue\<close>; an update locks row after row, and \<open>sel\<close> are those it catches.\<close>

definition release_lapsed :: "(delivery_row \<Rightarrow> bool) \<Rightarrow> instant \<Rightarrow> webhook_db \<Rightarrow> webhook_db" where
  "release_lapsed sel now db =
     db\<lparr>wk_deliveries := update_rows (\<lambda>r. sel r \<and> lease_lapsed now r) (released_lease now) (wk_deliveries db)\<rparr>"

text \<open>The rest of it: the query locks the rows it returns, deliveries and endpoints, until the end.\<close>

definition lease_due ::
    "wh_faults \<Rightarrow> (delivery_row \<Rightarrow> bool) \<Rightarrow> (nat \<Rightarrow> string) \<Rightarrow> instant \<Rightarrow> duration \<Rightarrow> int
     \<Rightarrow> claimed_delivery list wh_action" where
  "lease_due flt locked token now lease limit db =
     (case flt 1 of Some e \<Rightarrow> (Inl (WebhookFailure e), db) | None \<Rightarrow>
      lease_rows flt token now (now + lease) 0 (due_deliveries locked now (nat limit) db) [] db)"

definition claim_due ::
    "wh_faults \<Rightarrow> bool \<Rightarrow> (delivery_row \<Rightarrow> bool) \<Rightarrow> (nat \<Rightarrow> string) \<Rightarrow> instant \<Rightarrow> duration \<Rightarrow> int
     \<Rightarrow> claimed_delivery list wh_action" where
  "claim_due flt bound locked token now lease limit db =
     (if now = zero_time \<or> lease \<le> 0 \<or> limit < 1 \<or> 100 < limit then (Inl ErrWebhookInput, db)
      else wh_transaction bound (\<lambda>db.
        case flt 0 of Some e \<Rightarrow> (Inl (WebhookFailure e), db) | None \<Rightarrow>
        lease_due flt locked token now lease limit (release_lapsed (\<lambda>_. True) now db)) db)"

subsection \<open>Completing\<close>

definition leased_to :: "claimed_delivery \<Rightarrow> delivery_row \<Rightarrow> bool" where
  "leased_to c r \<longleftrightarrow> wd_id r = wc_id c \<and> wd_endpoint r = wc_endpoint c \<and> wd_status r = Wh_Processing
     \<and> wd_leaseToken r = wc_token c"

definition completed_delivery :: "delivery_completion \<Rightarrow> delivery_row \<Rightarrow> delivery_row" where
  "completed_delivery cp r =
     (let r1 = r\<lparr>wd_status := cp_status cp, wd_http := cp_http cp, wd_failure := cp_failure cp,
                 wd_truncated := cp_truncated cp, wd_leaseToken := '''', wd_leaseExpiresAt := None,
                 wd_updatedAt := cp_completedAt cp\<rparr>
      in if cp_status cp = Wh_Delivered then r1\<lparr>wd_deliveredAt := Some (cp_completedAt cp), wd_cycle := 0\<rparr>
         else if cp_status cp = Wh_Pending
         then r1\<lparr>wd_availableAt := (case cp_retryAt cp of Some t \<Rightarrow> t | None \<Rightarrow> wd_availableAt r)\<rparr>
         else r1)"

text \<open>A retry must lie after the completion; only three outcomes are possible.\<close>

definition completion_ok :: "delivery_completion \<Rightarrow> bool" where
  "completion_ok cp \<longleftrightarrow> cp_status cp = Wh_Delivered \<or> cp_status cp = Wh_Failed
     \<or> cp_status cp = Wh_Pending \<and> (case cp_retryAt cp of None \<Rightarrow> False | Some t \<Rightarrow> cp_completedAt cp < t)"

definition new_attempt :: "nat \<Rightarrow> delivery_row \<Rightarrow> claimed_delivery \<Rightarrow> delivery_completion \<Rightarrow> attempt_row" where
  "new_attempt i r c cp =
     \<lparr>wa_id = i, wa_organization = wd_organization r, wa_delivery = wd_id r, wa_number = wc_number c,
      wa_outcome = cp_outcome cp, wa_http = cp_http cp, wa_failure = cp_failure cp, wa_duration = cp_duration cp,
      wa_truncated = cp_truncated cp, wa_startedAt = cp_startedAt cp, wa_completedAt = cp_completedAt cp\<rparr>"

text \<open>The health of the endpoint after a delivery that ended: a failure counts, a success resets the count,
  and \<open>disable_after\<close> failures in a row disable it.\<close>

definition endpoint_health :: "nat \<Rightarrow> delivery_completion \<Rightarrow> endpoint_row \<Rightarrow> endpoint_row" where
  "endpoint_health disable_after cp e =
     (let failures = (if cp_status cp = Wh_Failed then u8 (we_failures e + 1) else 0);
          trip = (cp_status cp = Wh_Failed \<and> disable_after \<le> failures)
      in e\<lparr>we_failures := failures,
           we_status := (if trip then Endpoint_Disabled else we_status e),
           we_reason := (if trip then ''consecutive_failures'' else we_reason e),
           we_version := (if trip then we_version e + 1 else we_version e),
           we_updatedAt := cp_completedAt cp\<rparr>)"

definition update_health :: "wh_faults \<Rightarrow> delivery_row \<Rightarrow> delivery_completion \<Rightarrow> nat \<Rightarrow> bool wh_action" where
  "update_health flt r cp disable_after db =
     (case find_endpoint_for_update (flt 3) (wd_organization r) (wd_endpoint r) db of
        Inl e \<Rightarrow> if e = ErrWebhookEndpointNotFound then (Inr True, db) else (Inl e, db)
      | Inr e \<Rightarrow>
          case flt 4 of Some err \<Rightarrow> (Inl (WebhookFailure err), db) | None \<Rightarrow>
          let e' = endpoint_health disable_after cp e;
              db1 = db\<lparr>wk_endpoints := update_rows (\<lambda>x. we_id x = we_id e)
                        (\<lambda>x. x\<lparr>we_failures := we_failures e', we_status := we_status e', we_reason := we_reason e',
                               we_version := we_version e', we_updatedAt := we_updatedAt e'\<rparr>) (wk_endpoints db)\<rparr>
          in if we_status e' = Endpoint_Disabled \<and> we_status e \<noteq> Endpoint_Disabled
             then (case cancel_open (flt 5) (we_id e) (cp_completedAt cp) db1 of
                     (Inl err, db2) \<Rightarrow> (Inl err, db2)
                   | (Inr _, db2) \<Rightarrow> (Inr True, db2))
             else (Inr True, db1))"

definition complete_in_tx :: "wh_faults \<Rightarrow> claimed_delivery \<Rightarrow> delivery_completion \<Rightarrow> nat \<Rightarrow> bool wh_action" where
  "complete_in_tx flt c cp disable_after db =
     (case flt 0 of Some e \<Rightarrow> (Inl (WebhookFailure e), db) | None \<Rightarrow>
      case find (leased_to c) (wk_deliveries db) of
        None \<Rightarrow> (Inr False, db)
      | Some r \<Rightarrow>
          if wd_attempts r \<noteq> wc_number c then (Inr False, db)
          else case flt 1 of Some e \<Rightarrow> (Inl (WebhookFailure e), db) | None \<Rightarrow>
          if list_ex (\<lambda>a. wa_delivery a = wd_id r \<and> wa_number a = wc_number c) (wk_attempts db)
          then (Inl (WebhookFailure ''create webhook delivery attempt''), db)
          else (let db1 = db\<lparr>wk_attempts := wk_attempts db @ [new_attempt (wk_next db) r c cp], wk_next := wk_next db + 1\<rparr>;
                    hit = (\<lambda>x. wd_id x = wd_id r \<and> wd_status x = Wh_Processing \<and> wd_leaseToken x = wc_token c);
                    db2 = db1\<lparr>wk_deliveries := update_rows hit (completed_delivery cp) (wk_deliveries db1)\<rparr>
                in if \<not> completion_ok cp then (Inl ErrWebhookInput, db1)
                   else case flt 2 of Some e \<Rightarrow> (Inl (WebhookFailure e), db1) | None \<Rightarrow>
                   if rows_affected hit (wk_deliveries db1) \<noteq> 1 then (Inr False, db2)
                   else if cp_status cp = Wh_Delivered \<or> cp_status cp = Wh_Failed
                   then update_health flt r cp disable_after db2
                   else (Inr True, db2)))"

definition complete_delivery ::
    "wh_faults \<Rightarrow> bool \<Rightarrow> claimed_delivery \<Rightarrow> delivery_completion \<Rightarrow> nat \<Rightarrow> bool wh_action" where
  "complete_delivery flt bound c cp disable_after db =
     (if wc_id c = 0 \<or> wc_endpoint c = 0 \<or> wc_token c = '''' \<or> wc_number c = 0 \<or> cp_startedAt cp = zero_time
        \<or> cp_completedAt cp < cp_startedAt cp \<or> disable_after = 0 then (Inl ErrWebhookInput, db)
      else wh_transaction bound (complete_in_tx flt c cp disable_after) db)"

subsection \<open>Replaying\<close>

definition replayed_delivery :: "string \<Rightarrow> instant \<Rightarrow> delivery_row \<Rightarrow> delivery_row" where
  "replayed_delivery hash now r =
     r\<lparr>wd_hash := hash, wd_status := Wh_Pending, wd_cycle := 0, wd_replays := u16 (wd_replays r + 1),
       wd_availableAt := now, wd_leaseToken := '''', wd_leaseExpiresAt := None, wd_http := None, wd_failure := '''',
       wd_truncated := False, wd_deliveredAt := None, wd_updatedAt := now\<rparr>"

definition replay_delivery :: "wh_faults \<Rightarrow> bool \<Rightarrow> nat \<Rightarrow> nat \<Rightarrow> nat \<Rightarrow> instant \<Rightarrow> delivery_view wh_action" where
  "replay_delivery flt bound org i actor now db =
     (if org = 0 \<or> i = 0 \<or> actor = 0 \<or> now = zero_time then (Inl ErrWebhookInput, db)
      else wh_transaction bound (\<lambda>db.
        case flt 0 of Some e \<Rightarrow> (Inl (WebhookFailure e), db) | None \<Rightarrow>
        case find (\<lambda>r. wd_id r = i \<and> wd_organization r = org) (wk_deliveries db) of
          None \<Rightarrow> (Inl ErrWebhookDeliveryNotFound, db)
        | Some r \<Rightarrow>
            if \<not> is_terminal (wd_status r) \<or> 100 \<le> wd_replays r \<or> event_by_id (wd_event r) db = None
            then (Inl ErrWebhookReplayNotAllowed, db)
            else case find_endpoint_for_update (flt 1) org (wd_endpoint r) db of
              Inl _ \<Rightarrow> (Inl ErrWebhookReplayNotAllowed, db)
            | Inr e \<Rightarrow>
                if we_status e \<noteq> Endpoint_Active \<or> we_secret e = '''' then (Inl ErrWebhookReplayNotAllowed, db)
                else case flt 2 of Some err \<Rightarrow> (Inl (WebhookFailure err), db) | None \<Rightarrow>
                let hit = (\<lambda>x. wd_id x = wd_id r);
                    db1 = db\<lparr>wk_deliveries := update_rows hit (replayed_delivery (we_urlHash e) now) (wk_deliveries db)\<rparr>
                in if rows_affected hit (wk_deliveries db) \<noteq> 1 then (Inl ErrWebhookReplayNotAllowed, db1)
                   else (Inr (delivery_from (event_by_id (wd_event r) db) (replayed_delivery (we_urlHash e) now r)), db1)) db)"

subsection \<open>Pruning\<close>

definition webhook_prune_batch :: nat where
  "webhook_prune_batch = 1000"

record prune_result =
  pr_attempts :: nat
  pr_deliveries :: nat
  pr_events :: nat
  pr_secrets :: nat

definition expired_secret :: "instant \<Rightarrow> endpoint_row \<Rightarrow> bool" where
  "expired_secret now e \<longleftrightarrow> we_deletedAt e = None
     \<and> (case we_previousUntil e of None \<Rightarrow> False | Some t \<Rightarrow> t \<le> now)"

text \<open>The update that names no time takes the clock of the database layer.\<close>

definition forget_previous :: "instant \<Rightarrow> endpoint_row \<Rightarrow> endpoint_row" where
  "forget_previous clk e = e\<lparr>we_previous := '''', we_previousUntil := None, we_updatedAt := clk\<rparr>"

definition prunable_delivery :: "instant \<Rightarrow> webhook_db \<Rightarrow> delivery_row \<Rightarrow> bool" where
  "prunable_delivery before db r \<longleftrightarrow> is_terminal (wd_status r)
     \<and> list_ex (\<lambda>v. wv_id v = wd_event r \<and> wv_createdAt v < column_time before) (wk_events db)"

definition prunable_event :: "instant \<Rightarrow> webhook_db \<Rightarrow> wh_event_row \<Rightarrow> bool" where
  "prunable_event before db v \<longleftrightarrow> wv_createdAt v < column_time before \<and> \<not> list_ex (\<lambda>r. wd_event r = wv_id v) (wk_deliveries db)"

definition prune_deliveries :: "nat list \<Rightarrow> webhook_db \<Rightarrow> webhook_db" where
  "prune_deliveries ids db =
     db\<lparr>wk_attempts := filter (\<lambda>a. wa_delivery a \<notin> set ids) (wk_attempts db),
        wk_deliveries := filter (\<lambda>r. wd_id r \<notin> set ids) (wk_deliveries db)\<rparr>"

text \<open>The rows an id names are deleted whatever has become of them since the ids were read; the foreign key takes
  the deliveries of an event, and their attempts, along.\<close>

definition delete_events :: "nat list \<Rightarrow> webhook_db \<Rightarrow> webhook_db" where
  "delete_events ids db =
     (let gone = map wd_id (filter (\<lambda>r. wd_event r \<in> set ids) (wk_deliveries db))
      in (prune_deliveries gone db)\<lparr>wk_events := filter (\<lambda>v. wv_id v \<notin> set ids) (wk_events db)\<rparr>)"

text \<open>
  The ids are read without a lock and the deletions do not look at the rows again. \<open>prune_in_tx\<close> is the run in which
  nothing comes between its statements; \<open>Webhook_World\<close> has the deletions as steps of their own, with any ids.
\<close>

definition prune_in_tx :: "wh_faults \<Rightarrow> instant \<Rightarrow> instant \<Rightarrow> instant \<Rightarrow> prune_result wh_action" where
  "prune_in_tx flt clk before now db =
     (case flt 0 of Some e \<Rightarrow> (Inl (WebhookFailure e), db) | None \<Rightarrow>
      let db1 = db\<lparr>wk_endpoints := update_rows (expired_secret now) (forget_previous clk) (wk_endpoints db)\<rparr>
      in case flt 1 of Some e \<Rightarrow> (Inl (WebhookFailure e), db1) | None \<Rightarrow>
      let ids = map wd_id (take webhook_prune_batch (filter (prunable_delivery before db1) (wk_deliveries db1)))
      in case (if ids = [] then None else flt 2) of Some e \<Rightarrow> (Inl (WebhookFailure e), db1) | None \<Rightarrow>
         case (if ids = [] then None else flt 3) of
           Some e \<Rightarrow> (Inl (WebhookFailure e), db1\<lparr>wk_attempts := filter (\<lambda>a. wa_delivery a \<notin> set ids) (wk_attempts db1)\<rparr>)
         | None \<Rightarrow>
      let db2 = prune_deliveries ids db1
      in case flt 4 of Some e \<Rightarrow> (Inl (WebhookFailure e), db2) | None \<Rightarrow>
      let events = map wv_id (take webhook_prune_batch (filter (prunable_event before db2) (wk_events db2)))
      in case (if events = [] then None else flt 5) of Some e \<Rightarrow> (Inl (WebhookFailure e), db2) | None \<Rightarrow>
         (Inr \<lparr>pr_attempts = rows_affected (\<lambda>a. wa_delivery a \<in> set ids) (wk_attempts db1),
               pr_deliveries = rows_affected (\<lambda>r. wd_id r \<in> set ids) (wk_deliveries db1),
               pr_events = rows_affected (\<lambda>v. wv_id v \<in> set events) (wk_events db2),
               pr_secrets = rows_affected (expired_secret now) (wk_endpoints db)\<rparr>,
          db2\<lparr>wk_events := filter (\<lambda>v. wv_id v \<notin> set events) (wk_events db2)\<rparr>))"

definition prune_history :: "wh_faults \<Rightarrow> instant \<Rightarrow> bool \<Rightarrow> instant \<Rightarrow> instant \<Rightarrow> prune_result wh_action" where
  "prune_history flt clk bound before now db =
     (if before = zero_time \<or> now = zero_time \<or> \<not> before < now then (Inl ErrWebhookInput, db)
      else wh_transaction bound (prune_in_tx flt clk before now) db)"

end
