(* ===== verification/Webhook_Store_Inv.thy ===== *)
theory Webhook_Store_Inv
  imports Webhook_Store
begin

text \<open>
  The outbox as a state machine. The invariant says that ids and the declared identities are unique, that an
  active endpoint has failed fewer times in a row than disables it, that a deleted one keeps no secret, and that
  every open delivery belongs to an active endpoint and was made for the URL the endpoint has now. Each operation
  of \<open>Webhook_Store\<close>, with any failures of the database, preserves it.
\<close>

subsection \<open>The invariant\<close>

text \<open>\<open>d\<close> is the number of failures in a row that disables an endpoint.\<close>

definition endpoint_row_ok :: "nat \<Rightarrow> endpoint_row \<Rightarrow> bool" where
  "endpoint_row_ok d e \<longleftrightarrow> 0 < we_version e
     \<and> (we_status e = Endpoint_Active \<longrightarrow> we_deletedAt e = None \<and> we_failures e < d)
     \<and> (we_deletedAt e = None \<longleftrightarrow> we_secret e \<noteq> '''') \<and> (we_deletedAt e \<noteq> None \<longrightarrow> we_previous e = '''')
     \<and> (we_previousUntil e = None \<longrightarrow> we_previous e = '''')"

definition endpoints_ok :: "nat \<Rightarrow> nat \<Rightarrow> endpoint_row list \<Rightarrow> bool" where
  "endpoints_ok d next_id es \<longleftrightarrow> distinct (map we_id es) \<and> (\<forall>e \<in> set es. endpoint_row_ok d e \<and> we_id e < next_id)"

abbreviation subscription_key :: "subscription_row \<Rightarrow> nat \<times> string" where
  "subscription_key s \<equiv> (wb_endpoint s, wb_type s)"

definition subscriptions_ok :: "endpoint_row list \<Rightarrow> subscription_row list \<Rightarrow> bool" where
  "subscriptions_ok es ss \<longleftrightarrow> distinct (map subscription_key ss)
     \<and> (\<forall>s \<in> set ss. \<exists>e \<in> set es. we_id e = wb_endpoint s \<and> we_deletedAt e = None)"

abbreviation event_identity :: "wh_event_row \<Rightarrow> nat \<times> string \<times> string" where
  "event_identity v \<equiv> (wv_organization v, wv_source v, wv_eventID v)"

definition wh_events_ok :: "nat \<Rightarrow> nat list \<Rightarrow> wh_event_row list \<Rightarrow> bool" where
  "wh_events_ok next_id orgs vs \<longleftrightarrow> distinct (map wv_id vs) \<and> distinct (map event_identity vs)
     \<and> distinct (map wv_messageID vs) \<and> (\<forall>v \<in> set vs. wv_id v < next_id \<and> wv_organization v \<in> set orgs)"

text \<open>A delivery that is being sent belongs to an active endpoint. One that waits need not: \<open>Publish\<close> may insert it
  after its endpoint was disabled or given another URL, and the claim looks at the endpoint again.\<close>

definition routed :: "endpoint_row list \<Rightarrow> delivery_row \<Rightarrow> bool" where
  "routed es r \<longleftrightarrow> (\<exists>e \<in> set es. we_id e = wd_endpoint r \<and> we_organization e = wd_organization r
     \<and> we_status e = Endpoint_Active)"

definition lease_ok :: "delivery_row \<Rightarrow> bool" where
  "lease_ok r \<longleftrightarrow> (wd_status r = Wh_Processing \<longleftrightarrow> wd_leaseToken r \<noteq> '''')
     \<and> (wd_status r = Wh_Processing \<longleftrightarrow> wd_leaseExpiresAt r \<noteq> None) \<and> wd_replays r \<le> 100"

definition owned :: "endpoint_row list \<Rightarrow> wh_event_row list \<Rightarrow> delivery_row \<Rightarrow> bool" where
  "owned es vs r \<longleftrightarrow> (\<exists>e \<in> set es. we_id e = wd_endpoint r \<and> we_organization e = wd_organization r)
     \<and> (\<exists>v \<in> set vs. wv_id v = wd_event r \<and> wv_organization v = wd_organization r)"

abbreviation delivery_key :: "delivery_row \<Rightarrow> nat \<times> nat" where
  "delivery_key r \<equiv> (wd_event r, wd_endpoint r)"

definition deliveries_ok :: "nat \<Rightarrow> endpoint_row list \<Rightarrow> wh_event_row list \<Rightarrow> delivery_row list \<Rightarrow> bool" where
  "deliveries_ok next_id es vs rs \<longleftrightarrow> distinct (map wd_id rs) \<and> distinct (map delivery_key rs)
     \<and> (\<forall>r \<in> set rs. lease_ok r \<and> owned es vs r \<and> (wd_status r = Wh_Processing \<longrightarrow> routed es r) \<and> wd_id r < next_id)"

definition wk_inv :: "nat \<Rightarrow> webhook_db \<Rightarrow> bool" where
  "wk_inv d db \<longleftrightarrow> endpoints_ok d (wk_next db) (wk_endpoints db)
     \<and> subscriptions_ok (wk_endpoints db) (wk_subscriptions db)
     \<and> wh_events_ok (wk_next db) (wk_organizations db) (wk_events db)
     \<and> deliveries_ok (wk_next db) (wk_endpoints db) (wk_events db) (wk_deliveries db)"

lemma is_open_simps [simp]:
  "is_open Wh_Pending" "is_open Wh_Processing" "\<not> is_open Wh_Delivered" "\<not> is_open Wh_Failed" "\<not> is_open Wh_Canceled"
  by (simp_all add: is_open_def)

lemma terminal_not_open: "is_terminal s \<longleftrightarrow> \<not> is_open s"
  by (cases s) (simp_all add: is_terminal_def)

subsection \<open>Transactions\<close>

lemma wh_transaction_Inr [simp]: "wh_transaction bound f db = (Inr x, db') \<longleftrightarrow> f db = (Inr x, db')"
  by (auto simp: wh_transaction_def split: prod.splits sum.splits)

lemma wh_transaction_Inl: "wh_transaction False f db = (Inl e, db') \<Longrightarrow> db' = db"
  by (auto simp: wh_transaction_def split: prod.splits sum.splits)

text \<open>Which runs of a sequence of statements succeed.\<close>

lemma seq_Inr:
  "(case p of (Inl e, s) \<Rightarrow> (Inl e, s) | (Inr x, s) \<Rightarrow> g x s) = (Inr v, t) \<longleftrightarrow> (\<exists>x s. p = (Inr x, s) \<and> g x s = (Inr v, t))"
  by (auto split: prod.splits sum.splits)

lemma guard_Inr:
  "(case flt of Some e \<Rightarrow> (Inl (w e), s) | None \<Rightarrow> c) = (Inr v, t) \<longleftrightarrow> flt = None \<and> c = (Inr v, t)"
  "(if P then (Inl e', s) else c) = (Inr v, t) \<longleftrightarrow> \<not> P \<and> c = (Inr v, t)"
  by (auto split: option.splits)

lemmas succeeds = seq_Inr guard_Inr

text \<open>An operation of its own that fails leaves the tables alone.\<close>

lemma failed_unchanged [frames]:
  "create_endpoint flt False m db = (Inl e, db') \<Longrightarrow> db' = db"
  "update_endpoint flt False i m db = (Inl e, db') \<Longrightarrow> db' = db"
  "replace_endpoint_status flt False org i actor on version now db = (Inl e, db') \<Longrightarrow> db' = db"
  "delete_endpoint flt False org i actor version now db = (Inl e, db') \<Longrightarrow> db' = db"
  "rotate_endpoint_secret flt False i m until db = (Inl e, db') \<Longrightarrow> db' = db"
  "publish_event flt False pm db = (Inl e, db') \<Longrightarrow> db' = db"
  "claim_due flt False locked token now lease limit db = (Inl e, db') \<Longrightarrow> db' = db"
  "complete_delivery flt False c cp d db = (Inl e, db') \<Longrightarrow> db' = db"
  "replay_delivery flt False org i actor now db = (Inl e, db') \<Longrightarrow> db' = db"
  "prune_history flt clk False before now db = (Inl e, db') \<Longrightarrow> db' = db"
  by (auto simp: create_endpoint_def update_endpoint_def replace_endpoint_status_def delete_endpoint_def
      rotate_endpoint_secret_def publish_event_def claim_due_def complete_delivery_def replay_delivery_def
      prune_history_def dest: wh_transaction_Inl split: option.splits if_splits)

subsection \<open>Endpoints\<close>

lemma endpoint_unique:
  "endpoints_ok d n es \<Longrightarrow> e \<in> set es \<Longrightarrow> e' \<in> set es \<Longrightarrow> we_id e = we_id e' \<Longrightarrow> e = e'"
  by (auto simp: endpoints_ok_def distinct_map inj_on_def)

lemma find_endpoint_Some:
  assumes "find_endpoint org i db = Some e"
  shows "e \<in> set (wk_endpoints db)" "we_id e = i" "we_organization e = org" "we_deletedAt e = None"
  using assms by (auto simp: find_endpoint_def dest: find_key_Some)

lemma change_endpoint_Inr:
  assumes "change_endpoint flt org i version f db = (Inr po, db1)" and "endpoints_ok d n (wk_endpoints db)"
  shows "find_endpoint org i db = Some po" "we_version po = version"
    "db1 = db\<lparr>wk_endpoints := update_rows (\<lambda>e. we_id e = i) f (wk_endpoints db)\<rparr>"
proof -
  from assms(1) show po: "find_endpoint org i db = Some po" "we_version po = version"
    by (auto simp: change_endpoint_def find_endpoint_for_update_def split: option.splits if_splits)
  note f = find_endpoint_Some [OF po(1)]
  have "endpoint_hit org i version e \<longleftrightarrow> we_id e = i" if "e \<in> set (wk_endpoints db)" for e
    using that f po(2) endpoint_unique [OF assms(2) that f(1)] by (auto simp: endpoint_hit_def)
  then have "update_rows (endpoint_hit org i version) f (wk_endpoints db) = update_rows (\<lambda>e. we_id e = i) f (wk_endpoints db)"
    by (auto simp: update_rows_def)
  with assms(1) show "db1 = db\<lparr>wk_endpoints := update_rows (\<lambda>e. we_id e = i) f (wk_endpoints db)\<rparr>"
    by (auto simp: change_endpoint_def split: option.splits if_splits sum.splits)
qed

text \<open>Updating the endpoint \<open>i\<close> in place.\<close>

lemma endpoints_ok_update:
  assumes "endpoints_ok d n es" and "n \<le> n'" and "\<And>e. we_id (f e) = we_id e"
    and "\<And>e. e \<in> set es \<Longrightarrow> we_id e = i \<Longrightarrow> endpoint_row_ok d (f e)"
  shows "endpoints_ok d n' (update_rows (\<lambda>e. we_id e = i) f es)"
  using assms by (fastforce simp: endpoints_ok_def update_rows_map update_rows_set)

lemma subscriptions_ok_update:
  assumes "subscriptions_ok es ss" and "\<And>e. we_id (f e) = we_id e"
    and "\<And>e. e \<in> set es \<Longrightarrow> we_id e = i \<Longrightarrow> we_deletedAt e = None \<Longrightarrow> we_deletedAt (f e) = None"
  shows "subscriptions_ok (update_rows (\<lambda>e. we_id e = i) f es) ss"
  unfolding subscriptions_ok_def
proof (intro conjI ballI)
  show "distinct (map subscription_key ss)" using assms(1) by (simp add: subscriptions_ok_def)
  fix s
  assume "s \<in> set ss"
  with assms(1) obtain e where e: "e \<in> set es" "we_id e = wb_endpoint s" "we_deletedAt e = None"
    by (auto simp: subscriptions_ok_def)
  note mem = update_rows_in [OF e(1), of "\<lambda>e. we_id e = i" f]
  show "\<exists>e \<in> set (update_rows (\<lambda>e. we_id e = i) f es). we_id e = wb_endpoint s \<and> we_deletedAt e = None"
    using assms(2,3) e by (intro bexI [OF _ mem]) auto
qed

lemma owned_update:
  assumes "owned es vs r" and "\<And>e. we_id (f e) = we_id e" and "\<And>e. we_organization (f e) = we_organization e"
  shows "owned (update_rows P f es) vs r"
proof -
  from assms(1) obtain e where e: "e \<in> set es" "we_id e = wd_endpoint r" "we_organization e = wd_organization r"
    by (auto simp: owned_def)
  with assms update_rows_in [OF e(1), of P f] show ?thesis
    by (auto simp: owned_def intro!: bexI [of _ "if P e then f e else e"])
qed

lemma routed_update:
  assumes "routed es r" and "\<And>e. we_id (f e) = we_id e" and "\<And>e. we_organization (f e) = we_organization e"
    and "\<And>e. e \<in> set es \<Longrightarrow> we_id e = wd_endpoint r \<Longrightarrow> P e \<Longrightarrow> we_status e = Endpoint_Active
      \<Longrightarrow> we_status (f e) = Endpoint_Active"
  shows "routed (update_rows P f es) r"
proof -
  from assms(1) obtain e where e: "e \<in> set es" "we_id e = wd_endpoint r" "we_organization e = wd_organization r"
      "we_status e = Endpoint_Active"
    by (auto simp: routed_def)
  with assms(2-4) update_rows_in [OF e(1), of P f] show ?thesis
    by (auto simp: routed_def intro!: bexI [of _ "if P e then f e else e"])
qed

text \<open>A change that keeps the route of an active endpoint keeps the deliveries; any other change of an endpoint
  comes with the cancellation of its open deliveries.\<close>

lemma deliveries_ok_route_kept:
  assumes "deliveries_ok n es vs rs" and "n \<le> n'"
    and "\<And>e. we_id (f e) = we_id e" and "\<And>e. we_organization (f e) = we_organization e"
    and "\<And>e. e \<in> set es \<Longrightarrow> we_id e = i \<Longrightarrow> we_status e = Endpoint_Active
      \<Longrightarrow> we_status (f e) = Endpoint_Active \<and> we_urlHash (f e) = we_urlHash e"
  shows "deliveries_ok n' (update_rows (\<lambda>e. we_id e = i) f es) vs rs"
  using assms by (fastforce simp: deliveries_ok_def intro: owned_update routed_update)

definition canceled_for :: "nat \<Rightarrow> instant \<Rightarrow> delivery_row list \<Rightarrow> delivery_row list" where
  "canceled_for i now rs = update_rows (\<lambda>r. wd_endpoint r = i \<and> is_open (wd_status r)) (canceled_delivery now) rs"

lemma cancel_open_deliveries_alt:
  "cancel_open_deliveries i now db = db\<lparr>wk_deliveries := canceled_for i now (wk_deliveries db)\<rparr>"
  by (simp add: cancel_open_deliveries_def canceled_for_def)

lemma canceled_delivery_simps [simp]:
  "wd_id (canceled_delivery now r) = wd_id r" "wd_organization (canceled_delivery now r) = wd_organization r"
  "wd_endpoint (canceled_delivery now r) = wd_endpoint r" "wd_event (canceled_delivery now r) = wd_event r"
  "wd_status (canceled_delivery now r) = Wh_Canceled" "wd_leaseToken (canceled_delivery now r) = ''''"
  "wd_leaseExpiresAt (canceled_delivery now r) = None" "wd_replays (canceled_delivery now r) = wd_replays r"
  by (simp_all add: canceled_delivery_def)

lemma deliveries_ok_canceled:
  assumes "deliveries_ok n es vs rs" and "n \<le> n'"
    and "\<And>e. we_id (f e) = we_id e" and "\<And>e. we_organization (f e) = we_organization e"
  shows "deliveries_ok n' (update_rows (\<lambda>e. we_id e = i) f es) vs (canceled_for i now rs)"
proof -
  let ?es = "update_rows (\<lambda>e. we_id e = i) f es"
  have "lease_ok r' \<and> owned ?es vs r' \<and> (wd_status r' = Wh_Processing \<longrightarrow> routed ?es r') \<and> wd_id r' < n'"
    if "r' \<in> set (canceled_for i now rs)" for r'
  proof -
    from that obtain r where r: "r \<in> set rs"
      and r': "r' = (if wd_endpoint r = i \<and> is_open (wd_status r) then canceled_delivery now r else r)"
      by (auto simp: canceled_for_def update_rows_set)
    from assms(1) r have ok: "lease_ok r" "owned es vs r" "wd_status r = Wh_Processing \<longrightarrow> routed es r" "wd_id r < n"
      by (auto simp: deliveries_ok_def)
    have "owned ?es vs r" by (rule owned_update [OF ok(2) assms(3,4)])
    moreover have "routed ?es r" if "wd_status r = Wh_Processing" "wd_endpoint r \<noteq> i"
      by (rule routed_update) (use ok(3) that assms(3,4) in auto)
    ultimately show ?thesis using ok(1,4) assms(2) r' by (auto simp: lease_ok_def owned_def)
  qed
  moreover have "distinct (map wd_id (canceled_for i now rs))" "distinct (map delivery_key (canceled_for i now rs))"
    using assms(1) by (simp_all add: canceled_for_def update_rows_map deliveries_ok_def)
  ultimately show ?thesis by (simp add: deliveries_ok_def)
qed

subsection \<open>The endpoint operations\<close>

lemma wb_new_subscriptions [simp]:
  "map wb_type (new_subscriptions k i org types now) = types"
  "length (new_subscriptions k i org types now) = length types"
  "s \<in> set (new_subscriptions k i org types now) \<Longrightarrow> wb_endpoint s = i"
  by (auto simp: new_subscriptions_def comp_def case_prod_beta)

lemma new_subscription_keys: "map subscription_key (new_subscriptions k i org types now) = map (Pair i) types"
  by (induction types arbitrary: k) (auto simp: new_subscriptions_def)

lemma insert_subscriptions_Inr:
  assumes "insert_subscriptions flt i org types now db = (Inr subs, db')"
  shows "subs = new_subscriptions (wk_next db) i org types now" "distinct types"
    "db' = db\<lparr>wk_subscriptions := wk_subscriptions db @ subs, wk_next := wk_next db + length types\<rparr>"
  using assms by (auto simp: insert_subscriptions_def Let_def split: option.splits if_splits)

lemma subscriptions_ok_append:
  assumes "subscriptions_ok es ss" and "distinct types" and "\<And>s. s \<in> set ss \<Longrightarrow> wb_endpoint s \<noteq> i"
    and "e \<in> set es" "we_id e = i" "we_deletedAt e = None"
  shows "subscriptions_ok es (ss @ new_subscriptions k i org types now)"
  unfolding subscriptions_ok_def
proof (intro conjI ballI)
  show "distinct (map subscription_key (ss @ new_subscriptions k i org types now))"
    using assms(1-3) by (auto simp: subscriptions_ok_def new_subscription_keys distinct_map inj_on_def)
  fix s
  assume "s \<in> set (ss @ new_subscriptions k i org types now)"
  then show "\<exists>e \<in> set es. we_id e = wb_endpoint s \<and> we_deletedAt e = None"
    using assms by (auto simp: subscriptions_ok_def)
qed

lemma find_endpoint_update:
  assumes "find_endpoint org i db = Some e" and "\<And>e. we_id (f e) = we_id e"
  shows "f e \<in> set (update_rows (\<lambda>e. we_id e = i) f (wk_endpoints db))"
  using find_endpoint_Some [OF assms(1)] by (auto simp: update_rows_set)

lemma create_endpoint_Inr:
  assumes "create_endpoint flt bound m db = (Inr v, db')"
  shows "validate_endpoint_mutation False m = None" "em_organization m \<in> set (wk_organizations db)" "distinct (em_types m)"
    "db' = db\<lparr>wk_endpoints := wk_endpoints db @ [new_endpoint (wk_next db) m],
      wk_subscriptions := wk_subscriptions db
        @ new_subscriptions (wk_next db + 1) (wk_next db) (em_organization m) (em_types m) (em_now m),
      wk_next := wk_next db + 1 + length (em_types m)\<rparr>"
proof -
  let ?db1 = "db\<lparr>wk_endpoints := wk_endpoints db @ [new_endpoint (wk_next db) m], wk_next := wk_next db + 1\<rparr>"
  from assms obtain subs where "validate_endpoint_mutation False m = None"
    and "em_organization m \<in> set (wk_organizations db)"
    and s: "insert_subscriptions (flt 2) (we_id (new_endpoint (wk_next db) m)) (em_organization m) (em_types m) (em_now m) ?db1
      = (Inr subs, db')"
    by (auto simp: create_endpoint_def create_endpoint_in_tx_def Let_def succeeds)
  then show "validate_endpoint_mutation False m = None" "em_organization m \<in> set (wk_organizations db)" by simp_all
  show "distinct (em_types m)" by (rule insert_subscriptions_Inr [OF s])
  show "db' = db\<lparr>wk_endpoints := wk_endpoints db @ [new_endpoint (wk_next db) m],
      wk_subscriptions := wk_subscriptions db
        @ new_subscriptions (wk_next db + 1) (wk_next db) (em_organization m) (em_types m) (em_now m),
      wk_next := wk_next db + 1 + length (em_types m)\<rparr>"
    by (simp add: insert_subscriptions_Inr [OF s] new_endpoint_def)
qed

lemma cancel_open_Inr:
  "cancel_open flt i now db = (Inr u, db') \<longleftrightarrow> flt = None \<and> db' = db\<lparr>wk_deliveries := canceled_for i now (wk_deliveries db)\<rparr>"
  by (auto simp: cancel_open_def cancel_open_deliveries_alt split: option.splits)

lemma update_endpoint_Inr:
  assumes "update_endpoint flt bound i m db = (Inr v, db')" and "endpoints_ok d n (wk_endpoints db)"
  obtains po where "find_endpoint (em_organization m) i db = Some po" "we_version po = em_expected m" "distinct (em_types m)"
    "validate_endpoint_mutation True m = None"
    "db' = db\<lparr>wk_endpoints := update_rows (\<lambda>e. we_id e = i) (replaced_configuration m) (wk_endpoints db),
      wk_subscriptions := filter (\<lambda>s. wb_endpoint s \<noteq> i) (wk_subscriptions db)
        @ new_subscriptions (wk_next db) i (em_organization m) (em_types m) (em_now m),
      wk_deliveries := (if we_urlHash po \<noteq> em_urlHash m then canceled_for i (em_now m) (wk_deliveries db) else wk_deliveries db),
      wk_next := wk_next db + length (em_types m)\<rparr>"
proof -
  from assms(1) obtain po db1 subs db2 u where valid: "validate_endpoint_mutation True m = None"
    and po: "change_endpoint flt (em_organization m) i (em_expected m) (replaced_configuration m) db = (Inr po, db1)"
    and s: "insert_subscriptions (flt 3) i (em_organization m) (em_types m) (em_now m) (delete_subscriptions i db1) = (Inr subs, db2)"
    and fin: "(if we_urlHash po \<noteq> em_urlHash m then cancel_open (flt 4) i (em_now m) db2 else (Inr (), db2)) = (Inr u, db')"
    by (auto simp: update_endpoint_def update_endpoint_in_tx_def succeeds)
  note c = change_endpoint_Inr [OF po assms(2)] and s' = insert_subscriptions_Inr [OF s]
  show thesis
    by (rule that [OF c(1,2) s'(2) valid])
      (use fin in \<open>auto simp: cancel_open_Inr s' c(3) delete_subscriptions_def split: if_splits\<close>)
qed

lemma replace_status_Inr:
  assumes "replace_endpoint_status flt bound org i actor enabled version now db = (Inr v, db')"
    and "endpoints_ok d n (wk_endpoints db)"
  obtains po where "find_endpoint org i db = Some po" "we_version po = version"
    "db' = db\<lparr>wk_endpoints := update_rows (\<lambda>e. we_id e = i) (replaced_status enabled version actor now) (wk_endpoints db),
      wk_deliveries := (if \<not> enabled then canceled_for i now (wk_deliveries db) else wk_deliveries db)\<rparr>"
proof -
  from assms(1) obtain po db1 u
    where po: "change_endpoint flt org i version (replaced_status enabled version actor now) db = (Inr po, db1)"
    and fin: "(if \<not> enabled then cancel_open (flt 2) i now db1 else (Inr (), db1)) = (Inr u, db')"
    by (auto simp: replace_endpoint_status_def succeeds)
  note c = change_endpoint_Inr [OF po assms(2)]
  show thesis
    by (rule that [OF c(1,2)]) (use fin in \<open>auto simp: cancel_open_Inr c(3) split: if_splits\<close>)
qed

lemma delete_endpoint_Inr:
  assumes "delete_endpoint flt bound org i actor version now db = (Inr v, db')"
    and "endpoints_ok d n (wk_endpoints db)"
  obtains po where "find_endpoint org i db = Some po" "we_version po = version"
    "db' = db\<lparr>wk_endpoints := update_rows (\<lambda>e. we_id e = i) (deleted_endpoint version actor now) (wk_endpoints db),
      wk_subscriptions := filter (\<lambda>s. wb_endpoint s \<noteq> i) (wk_subscriptions db),
      wk_deliveries := canceled_for i now (wk_deliveries db)\<rparr>"
proof -
  from assms(1) obtain po db1 u
    where po: "change_endpoint flt org i version (deleted_endpoint version actor now) db = (Inr po, db1)"
    and fin: "cancel_open (flt 3) i now (delete_subscriptions i db1) = (Inr u, db')"
    by (auto simp: delete_endpoint_def succeeds)
  note c = change_endpoint_Inr [OF po assms(2)]
  show thesis
    by (rule that [OF c(1,2)]) (use fin in \<open>auto simp: cancel_open_Inr c(3) delete_subscriptions_def\<close>)
qed

lemma rotate_secret_Inr:
  assumes "rotate_endpoint_secret flt bound i m until db = (Inr v, db')" and "endpoints_ok d n (wk_endpoints db)"
  obtains po where "find_endpoint (em_organization m) i db = Some po" "we_version po = em_expected m" "em_secret m \<noteq> ''''"
    "em_now m < until" "db' = db\<lparr>wk_endpoints := update_rows (\<lambda>e. we_id e = i) (rotated_secret m until) (wk_endpoints db)\<rparr>"
proof -
  from assms(1) obtain po
    where po: "change_endpoint flt (em_organization m) i (em_expected m) (rotated_secret m until) db = (Inr po, db')"
    and g: "em_secret m \<noteq> ''''" "em_now m < until"
    by (auto simp: rotate_endpoint_secret_def succeeds)
  note c = change_endpoint_Inr [OF po assms(2)]
  show thesis by (rule that [OF c(1,2) g c(3)])
qed

lemmas endpoint_changes = replaced_configuration_def replaced_status_def deleted_endpoint_def rotated_secret_def

lemma endpoint_changes_keep [simp]:
  "we_id (replaced_configuration m e) = we_id e" "we_organization (replaced_configuration m e) = we_organization e"
  "we_id (replaced_status on version actor now e) = we_id e"
  "we_organization (replaced_status on version actor now e) = we_organization e"
  "we_id (deleted_endpoint version actor now e) = we_id e"
  "we_organization (deleted_endpoint version actor now e) = we_organization e"
  "we_id (rotated_secret rm until e) = we_id e" "we_organization (rotated_secret rm until e) = we_organization e"
  by (simp_all add: endpoint_changes)

text \<open>Each preserves the invariant.\<close>

lemma endpoint_ids_fresh: "endpoints_ok d n es \<Longrightarrow> e \<in> set es \<Longrightarrow> we_id e \<noteq> n"
  by (auto simp: endpoints_ok_def)

lemma deliveries_ok_more:
  assumes "deliveries_ok n es vs rs" and "n \<le> n'" and "set es \<subseteq> set es'" and "set vs \<subseteq> set vs'"
  shows "deliveries_ok n' es' vs' rs"
  using assms by (fastforce simp: deliveries_ok_def owned_def routed_def)

lemma wh_events_ok_more: "wh_events_ok n orgs vs \<Longrightarrow> n \<le> n' \<Longrightarrow> set orgs \<subseteq> set orgs' \<Longrightarrow> wh_events_ok n' orgs' vs"
  by (fastforce simp: wh_events_ok_def)

lemma create_endpoint_inv:
  assumes "create_endpoint flt False m db = (r, db')" and inv: "wk_inv d db" and "0 < d"
  shows "wk_inv d db'"
proof (cases r)
  case (Inl e)
  with assms show ?thesis by (auto dest: failed_unchanged)
next
  case (Inr v)
  with assms(1) have c: "create_endpoint flt False m db = (Inr v, db')" by simp
  note f = create_endpoint_Inr [OF c]
  have row: "endpoint_row_ok d (new_endpoint (wk_next db) m)"
    using f(1) assms(3) by (auto simp: endpoint_row_ok_def new_endpoint_def validate_endpoint_mutation_def split: if_splits)
  have es: "endpoints_ok d (wk_next db) (wk_endpoints db)" and ss: "subscriptions_ok (wk_endpoints db) (wk_subscriptions db)"
    using inv by (simp_all add: wk_inv_def)
  have "endpoints_ok d (wk_next db') (wk_endpoints db')"
    using es row by (auto simp: f(4) endpoints_ok_def new_endpoint_def)
  moreover have "subscriptions_ok (wk_endpoints db') (wk_subscriptions db)"
    using ss by (auto simp: f(4) subscriptions_ok_def)
  then have "subscriptions_ok (wk_endpoints db') (wk_subscriptions db')"
    unfolding f(4)
    by simp (rule subscriptions_ok_append [where e = "new_endpoint (wk_next db) m"],
        use ss f(3) endpoint_ids_fresh [OF es] in \<open>auto simp: new_endpoint_def subscriptions_ok_def\<close>)
  moreover have "wh_events_ok (wk_next db') (wk_organizations db') (wk_events db')"
    using inv by (auto simp: f(4) wk_inv_def intro: wh_events_ok_more)
  moreover have "deliveries_ok (wk_next db') (wk_endpoints db') (wk_events db') (wk_deliveries db')"
    using inv by (auto simp: f(4) wk_inv_def intro: deliveries_ok_more)
  ultimately show ?thesis by (simp add: wk_inv_def)
qed

lemma changed_endpoint_inv:
  assumes inv: "wk_inv d db" and d: "0 < d" and po: "find_endpoint org i db = Some po"
  shows "endpoint_row_ok d po" "we_id po = i" "po \<in> set (wk_endpoints db)"
    "\<And>e. e \<in> set (wk_endpoints db) \<Longrightarrow> we_id e = i \<Longrightarrow> e = po"
proof -
  note f = find_endpoint_Some [OF po]
  have es: "endpoints_ok d (wk_next db) (wk_endpoints db)" using inv by (simp add: wk_inv_def)
  show "endpoint_row_ok d po" "we_id po = i" "po \<in> set (wk_endpoints db)"
    using es f by (auto simp: endpoints_ok_def)
  show "e = po" if "e \<in> set (wk_endpoints db)" "we_id e = i" for e
    using endpoint_unique [OF es that(1) f(1)] that f by simp
qed

lemma update_endpoint_inv:
  assumes u: "update_endpoint flt False i m db = (Inr v, db')" and inv: "wk_inv d db" and "0 < d"
  shows "wk_inv d db'"
proof -
  have es: "endpoints_ok d (wk_next db) (wk_endpoints db)" using inv by (simp add: wk_inv_def)
  from update_endpoint_Inr [OF u es] obtain po where po: "find_endpoint (em_organization m) i db = Some po"
    and t: "distinct (em_types m)"
    and db': "db' = db\<lparr>wk_endpoints := update_rows (\<lambda>e. we_id e = i) (replaced_configuration m) (wk_endpoints db),
      wk_subscriptions := filter (\<lambda>s. wb_endpoint s \<noteq> i) (wk_subscriptions db)
        @ new_subscriptions (wk_next db) i (em_organization m) (em_types m) (em_now m),
      wk_deliveries := (if we_urlHash po \<noteq> em_urlHash m then canceled_for i (em_now m) (wk_deliveries db) else wk_deliveries db),
      wk_next := wk_next db + length (em_types m)\<rparr>" .
  note c = changed_endpoint_inv [OF inv assms(3) po]
  have row: "endpoint_row_ok d (replaced_configuration m po)"
    using c(1) find_endpoint_Some(4) [OF po] by (simp add: endpoint_row_ok_def replaced_configuration_def)
  have live: "we_deletedAt (replaced_configuration m po) = None"
    using find_endpoint_Some(4) [OF po] by (simp add: replaced_configuration_def)
  have rows: "\<And>e. e \<in> set (wk_endpoints db) \<Longrightarrow> we_id e = i \<Longrightarrow> endpoint_row_ok d (replaced_configuration m e)"
    using c(4) row by blast
  let ?es = "update_rows (\<lambda>e. we_id e = i) (replaced_configuration m) (wk_endpoints db)"
  have "endpoints_ok d (wk_next db') ?es"
    unfolding db' by simp (rule endpoints_ok_update [OF es]; use rows in auto)
  moreover have "subscriptions_ok ?es (wk_subscriptions db)"
    by (rule subscriptions_ok_update) (use inv in \<open>auto simp: wk_inv_def replaced_configuration_def\<close>)
  then have "subscriptions_ok ?es (filter (\<lambda>s. wb_endpoint s \<noteq> i) (wk_subscriptions db))"
    by (auto simp: subscriptions_ok_def distinct_map_filter)
  then have "subscriptions_ok ?es (wk_subscriptions db')"
    unfolding db' by simp
      (rule subscriptions_ok_append [where e = "replaced_configuration m po"],
       use t c(2) live find_endpoint_update [OF po, of "replaced_configuration m"] in auto)
  moreover have "wh_events_ok (wk_next db') (wk_organizations db') (wk_events db')"
    using inv by (auto simp: db' wk_inv_def intro: wh_events_ok_more)
  moreover have ds: "deliveries_ok (wk_next db) (wk_endpoints db) (wk_events db) (wk_deliveries db)"
    using inv by (simp add: wk_inv_def)
  have "deliveries_ok (wk_next db') ?es (wk_events db) (wk_deliveries db')"
  proof (cases "we_urlHash po = em_urlHash m")
    case True
    then have "\<And>e. e \<in> set (wk_endpoints db) \<Longrightarrow> we_id e = i \<Longrightarrow> we_urlHash e = em_urlHash m" using c(4) by blast
    with True show ?thesis unfolding db'
      by simp (rule deliveries_ok_route_kept [OF ds]; simp add: replaced_configuration_def)
  next
    case False
    then show ?thesis unfolding db' by simp (rule deliveries_ok_canceled [OF ds]; simp)
  qed
  ultimately show ?thesis by (simp add: wk_inv_def db')
qed

text \<open>A change of the row \<open>i\<close> that comes with the cancellation of its deliveries.\<close>

lemma change_and_cancel_inv:
  assumes inv: "wk_inv d db" and "0 < d" and po: "find_endpoint org i db = Some po" and row: "endpoint_row_ok d (f po)"
    and f: "\<And>e. we_id (f e) = we_id e" "\<And>e. we_organization (f e) = we_organization e"
    and ss: "subscriptions_ok (update_rows (\<lambda>e. we_id e = i) f (wk_endpoints db)) ss"
  shows "wk_inv d (db\<lparr>wk_endpoints := update_rows (\<lambda>e. we_id e = i) f (wk_endpoints db), wk_subscriptions := ss,
    wk_deliveries := canceled_for i now (wk_deliveries db)\<rparr>)"
proof -
  have rows: "\<And>e. e \<in> set (wk_endpoints db) \<Longrightarrow> we_id e = i \<Longrightarrow> e = po"
    using changed_endpoint_inv [OF inv assms(2) po] by blast
  then have "\<And>e. e \<in> set (wk_endpoints db) \<Longrightarrow> we_id e = i \<Longrightarrow> endpoint_row_ok d (f e)" using row by blast
  then have "endpoints_ok d (wk_next db) (update_rows (\<lambda>e. we_id e = i) f (wk_endpoints db))"
    by (rule endpoints_ok_update [where n = "wk_next db", rotated 3]) (use inv f in \<open>simp_all add: wk_inv_def\<close>)
  moreover have "deliveries_ok (wk_next db) (update_rows (\<lambda>e. we_id e = i) f (wk_endpoints db)) (wk_events db)
      (canceled_for i now (wk_deliveries db))"
    by (rule deliveries_ok_canceled [where n = "wk_next db"]; use inv f in \<open>auto simp: wk_inv_def\<close>)
  ultimately show ?thesis using inv ss by (simp add: wk_inv_def)
qed

text \<open>A change of the row \<open>i\<close> that keeps its route.\<close>

lemma change_route_kept_inv:
  assumes inv: "wk_inv d db" and "0 < d" and po: "find_endpoint org i db = Some po" and row: "endpoint_row_ok d (f po)"
    and f: "\<And>e. we_id (f e) = we_id e" "\<And>e. we_organization (f e) = we_organization e"
    and kept: "we_deletedAt (f po) = None"
      "we_status po = Endpoint_Active \<Longrightarrow> we_status (f po) = Endpoint_Active \<and> we_urlHash (f po) = we_urlHash po"
  shows "wk_inv d (db\<lparr>wk_endpoints := update_rows (\<lambda>e. we_id e = i) f (wk_endpoints db)\<rparr>)"
proof -
  have rows: "\<And>e. e \<in> set (wk_endpoints db) \<Longrightarrow> we_id e = i \<Longrightarrow> e = po"
    using changed_endpoint_inv [OF inv assms(2) po] by blast
  then have "\<And>e. e \<in> set (wk_endpoints db) \<Longrightarrow> we_id e = i \<Longrightarrow> endpoint_row_ok d (f e)" using row by blast
  then have "endpoints_ok d (wk_next db) (update_rows (\<lambda>e. we_id e = i) f (wk_endpoints db))"
    by (rule endpoints_ok_update [where n = "wk_next db", rotated 3]) (use inv f in \<open>simp_all add: wk_inv_def\<close>)
  moreover have keeps: "\<And>e. e \<in> set (wk_endpoints db) \<Longrightarrow> we_id e = i \<Longrightarrow> we_deletedAt (f e) = None"
    "\<And>e. e \<in> set (wk_endpoints db) \<Longrightarrow> we_id e = i \<Longrightarrow> we_status e = Endpoint_Active
      \<Longrightarrow> we_status (f e) = Endpoint_Active \<and> we_urlHash (f e) = we_urlHash e"
    using rows kept by blast+
  have "deliveries_ok (wk_next db) (update_rows (\<lambda>e. we_id e = i) f (wk_endpoints db)) (wk_events db) (wk_deliveries db)"
    by (rule deliveries_ok_route_kept [where n = "wk_next db", OF _ _ f keeps(2)]) (use inv in \<open>simp_all add: wk_inv_def\<close>)
  moreover have "subscriptions_ok (update_rows (\<lambda>e. we_id e = i) f (wk_endpoints db)) (wk_subscriptions db)"
    by (rule subscriptions_ok_update [OF _ f(1) keeps(1)]) (use inv in \<open>simp_all add: wk_inv_def\<close>)
  ultimately show ?thesis using inv by (simp add: wk_inv_def)
qed

lemma replace_status_inv:
  assumes u: "replace_endpoint_status flt False org i actor enabled version now db = (Inr v, db')"
    and inv: "wk_inv d db" and d: "0 < d"
  shows "wk_inv d db'"
proof -
  have es: "endpoints_ok d (wk_next db) (wk_endpoints db)" using inv by (simp add: wk_inv_def)
  from replace_status_Inr [OF u es] obtain po where po: "find_endpoint org i db = Some po"
    and db': "db' = db\<lparr>wk_endpoints := update_rows (\<lambda>e. we_id e = i) (replaced_status enabled version actor now) (wk_endpoints db),
      wk_deliveries := (if \<not> enabled then canceled_for i now (wk_deliveries db) else wk_deliveries db)\<rparr>" .
  note c = changed_endpoint_inv [OF inv d po] and live = find_endpoint_Some(4) [OF po]
  have row: "endpoint_row_ok d (replaced_status enabled version actor now po)"
    using c(1) live d by (simp add: endpoint_row_ok_def replaced_status_def)
  have ss: "subscriptions_ok (update_rows (\<lambda>e. we_id e = i) (replaced_status enabled version actor now) (wk_endpoints db))
      (wk_subscriptions db)"
    by (rule subscriptions_ok_update) (use inv in \<open>auto simp: wk_inv_def replaced_status_def\<close>)
  show ?thesis
  proof (cases enabled)
    case True
    have "wk_inv d (db\<lparr>wk_endpoints := update_rows (\<lambda>e. we_id e = i) (replaced_status True version actor now) (wk_endpoints db)\<rparr>)"
      by (rule change_route_kept_inv [OF inv d po]; use row True live in \<open>simp add: replaced_status_def\<close>)
    with True show ?thesis by (simp add: db')
  next
    case False
    have "wk_inv d (db\<lparr>wk_endpoints := update_rows (\<lambda>e. we_id e = i) (replaced_status False version actor now) (wk_endpoints db),
      wk_subscriptions := wk_subscriptions db, wk_deliveries := canceled_for i now (wk_deliveries db)\<rparr>)"
      by (rule change_and_cancel_inv [OF inv d po]; use row ss False in simp)
    with False show ?thesis by (simp add: db')
  qed
qed

lemma delete_endpoint_inv:
  assumes u: "delete_endpoint flt False org i actor version now db = (Inr v, db')" and inv: "wk_inv d db" and d: "0 < d"
  shows "wk_inv d db'"
proof -
  have es: "endpoints_ok d (wk_next db) (wk_endpoints db)" using inv by (simp add: wk_inv_def)
  from delete_endpoint_Inr [OF u es] obtain po where po: "find_endpoint org i db = Some po"
    and db': "db' = db\<lparr>wk_endpoints := update_rows (\<lambda>e. we_id e = i) (deleted_endpoint version actor now) (wk_endpoints db),
      wk_subscriptions := filter (\<lambda>s. wb_endpoint s \<noteq> i) (wk_subscriptions db),
      wk_deliveries := canceled_for i now (wk_deliveries db)\<rparr>" .
  let ?es = "update_rows (\<lambda>e. we_id e = i) (deleted_endpoint version actor now) (wk_endpoints db)"
  have "\<exists>e' \<in> set ?es. we_id e' = wb_endpoint s \<and> we_deletedAt e' = None"
    if s: "s \<in> set (wk_subscriptions db)" "wb_endpoint s \<noteq> i" for s
  proof -
    from inv s(1) obtain e where e: "e \<in> set (wk_endpoints db)" "we_id e = wb_endpoint s" "we_deletedAt e = None"
      by (auto simp: wk_inv_def subscriptions_ok_def)
    with s(2) update_rows_in [OF e(1), of "\<lambda>e. we_id e = i" "deleted_endpoint version actor now"]
    show ?thesis by (auto intro: bexI [of _ e])
  qed
  then have ss: "subscriptions_ok ?es (filter (\<lambda>s. wb_endpoint s \<noteq> i) (wk_subscriptions db))"
    using inv by (auto simp: wk_inv_def subscriptions_ok_def distinct_map_filter)
  have "endpoint_row_ok d (deleted_endpoint version actor now po)"
    by (simp add: endpoint_row_ok_def deleted_endpoint_def)
  from change_and_cancel_inv [OF inv d po this _ _ ss] show ?thesis by (simp add: db')
qed

lemma rotate_secret_inv:
  assumes u: "rotate_endpoint_secret flt False i m until db = (Inr v, db')" and inv: "wk_inv d db" and d: "0 < d"
  shows "wk_inv d db'"
proof -
  have es: "endpoints_ok d (wk_next db) (wk_endpoints db)" using inv by (simp add: wk_inv_def)
  from rotate_secret_Inr [OF u es] obtain po where po: "find_endpoint (em_organization m) i db = Some po"
    and s: "em_secret m \<noteq> ''''"
    and db': "db' = db\<lparr>wk_endpoints := update_rows (\<lambda>e. we_id e = i) (rotated_secret m until) (wk_endpoints db)\<rparr>" .
  note c = changed_endpoint_inv [OF inv d po] and live = find_endpoint_Some(4) [OF po]
  have "endpoint_row_ok d (rotated_secret m until po)"
    using c(1) live s by (simp add: endpoint_row_ok_def rotated_secret_def)
  then show ?thesis
    unfolding db' by (rule change_route_kept_inv [OF inv d po]; use live in \<open>simp add: rotated_secret_def\<close>)
qed

end
