(* ===== verification/Webhook_Outbox_Inv.thy ===== *)
theory Webhook_Outbox_Inv
  imports Webhook_Store_Inv
begin

text \<open>
  What publishing, claiming, completing, replaying and pruning do to the tables when they succeed, and that each
  preserves the invariant of \<open>Webhook_Store_Inv\<close>.
\<close>

subsection \<open>Publishing\<close>

lemma subscribed_join_cong [simp]:
  "subscribed_join m (db\<lparr>wk_events := vs, wk_next := n\<rparr>) = subscribed_join m db"
  by (simp add: subscribed_join_def)

lemma in_subscribed_join:
  "e \<in> set (subscribed_join m db) \<longleftrightarrow> e \<in> set (wk_endpoints db) \<and> we_organization e = pm_organization m
     \<and> we_status e = Endpoint_Active \<and> we_deletedAt e = None \<and> (pm_target m \<noteq> 0 \<longrightarrow> we_id e = pm_target m)
     \<and> (\<exists>s \<in> set (wk_subscriptions db). wb_endpoint s = we_id e \<and> wb_type s = pm_type m)"
  by (auto simp: subscribed_join_def)

lemma enumerate_ids: "map fst (enumerate k xs) = [k..<k + length xs]"
  by (simp add: enumerate_eq_zip)

lemma new_deliveries:
  assumes "r \<in> set (map (new_delivery m i) (enumerate k es))"
  obtains j e where "r = new_delivery m i (j, e)" "k \<le> j" "j < k + length es" "e \<in> set es"
  using assms by (auto simp: in_set_enumerate_eq elim!: that)

lemma new_delivery_ids: "map wd_id (map (new_delivery m i) (enumerate k es)) = [k..<k + length es]"
  using enumerate_ids [of k es] by (simp add: new_delivery_def comp_def)

lemma new_delivery_keys: "map delivery_key (map (new_delivery m i) (enumerate k es)) = map (\<lambda>e. (i, we_id e)) es"
  by (induction es arbitrary: k) (auto simp: new_delivery_def)

text \<open>Inserting deliveries, whenever the endpoints were read.\<close>

lemma insert_deliveries_Inr:
  assumes "insert_deliveries flt m i es db = (Inr u, db')"
  shows "db' = db\<lparr>wk_deliveries := wk_deliveries db @ map (new_delivery m i) (enumerate (wk_next db) es),
      wk_next := wk_next db + length es\<rparr>"
    and "es \<noteq> [] \<Longrightarrow> distinct (map delivery_key (wk_deliveries db) @ map (\<lambda>e. (i, we_id e)) es)
      \<and> i \<in> wv_id ` set (wk_events db) \<and> we_id ` set es \<subseteq> we_id ` set (wk_endpoints db)"
proof -
  let ?rows = "map (new_delivery m i) (enumerate (wk_next db) es)"
  have "es = [] \<and> db' = db \<or> es \<noteq> [] \<and> distinct (map delivery_key (wk_deliveries db @ ?rows))
      \<and> i \<in> wv_id ` set (wk_events db) \<and> we_id ` set es \<subseteq> we_id ` set (wk_endpoints db)
      \<and> db' = db\<lparr>wk_deliveries := wk_deliveries db @ ?rows, wk_next := wk_next db + length es\<rparr>"
    using assms unfolding insert_deliveries_def guard_Inr Let_def
    by (auto simp: list_ex_iff list_all_iff image_iff split: option.splits if_splits)
  then show "db' = db\<lparr>wk_deliveries := wk_deliveries db @ ?rows, wk_next := wk_next db + length es\<rparr>"
    and "es \<noteq> [] \<Longrightarrow> distinct (map delivery_key (wk_deliveries db) @ map (\<lambda>e. (i, we_id e)) es)
      \<and> i \<in> wv_id ` set (wk_events db) \<and> we_id ` set es \<subseteq> we_id ` set (wk_endpoints db)"
    unfolding map_append new_delivery_keys by auto
qed

lemma publish_Inr:
  assumes "publish_event flt bound m db = (Inr res, db')"
  obtains
    (seen) v where "find (same_identity m) (wk_events db) = Some v" "wv_fingerprint v = pm_fingerprint m" "db' = db"
      "published flt m v False db = (Inr res, db)"
  | (fresh) v es where "validate_publication_mutation m = None" "\<not> list_ex (same_identity m) (wk_events db)"
      "pm_organization m \<in> set (wk_organizations db)" "\<not> list_ex (\<lambda>v. wv_messageID v = pm_messageID m) (wk_events db)"
      "v = new_webhook_event (wk_next db) m" "es = subscribed_join m db" "distinct (map we_id es)"
      "db' = db\<lparr>wk_events := wk_events db @ [webhook_columns v],
        wk_deliveries := wk_deliveries db @ map (new_delivery m (wk_next db)) (enumerate (wk_next db + 1) es),
        wk_next := wk_next db + 1 + length es\<rparr>"
      "published flt m v True db' = (Inr res, db')"
proof -
  from assms have valid: "validate_publication_mutation m = None" and tx: "publish_in_tx flt m db = (Inr res, db')"
    by (auto simp: publish_event_def succeeds)
  have same: "published flt m v created s = (Inr res, t) \<Longrightarrow> t = s" for v created s t
    by (auto simp: published_def split: sum.splits if_splits)
  show thesis
  proof (cases "list_ex (same_identity m) (wk_events db)")
    case True
    with tx obtain v where "find (same_identity m) (wk_events db) = Some v" "wv_fingerprint v = pm_fingerprint m"
      "published flt m v False db = (Inr res, db')"
      by (auto simp: publish_in_tx_def insert_event_def split: option.splits if_splits)
    with same [of v False db db'] show thesis by (intro seen) auto
  next
    case False
    let ?v = "new_webhook_event (wk_next db) m"
    let ?db1 = "db\<lparr>wk_events := wk_events db @ [webhook_columns ?v], wk_next := wk_next db + 1\<rparr>"
    let ?es = "subscribed_join m db"
    let ?db2 = "db\<lparr>wk_events := wk_events db @ [webhook_columns ?v],
        wk_deliveries := wk_deliveries db @ map (new_delivery m (wk_next db)) (enumerate (wk_next db + 1) ?es),
        wk_next := wk_next db + 1 + length ?es\<rparr>"
    from tx False have ins: "insert_event (flt 0) m db = (Inr (Some ?v), ?db1)"
      and g: "pm_organization m \<in> set (wk_organizations db)" "\<not> list_ex (\<lambda>v. wv_messageID v = pm_messageID m) (wk_events db)"
      by (auto simp: publish_in_tx_def insert_event_def Let_def split: option.splits if_splits)
    from tx ins obtain u db2 where fan: "fan_out flt m ?v ?db1 = (Inr u, db2)" and pub: "published flt m ?v True db2 = (Inr res, db')"
      by (auto simp: publish_in_tx_def split: prod.splits sum.splits)
    from fan have ins': "insert_deliveries (flt 4) m (wk_next db) ?es ?db1 = (Inr u, db2)"
      by (auto simp: fan_out_def subscribed_endpoints_def Let_def new_webhook_event_def
          split: option.splits if_splits sum.splits)
    have "distinct (map we_id ?es)"
    proof (cases "?es = []")
      case False
      from insert_deliveries_Inr(2) [OF ins' False] have "distinct (map (\<lambda>e. (wk_next db, we_id e)) ?es)" by simp
      then show ?thesis by (auto simp: distinct_map inj_on_def)
    qed simp
    moreover have "db2 = ?db2" using insert_deliveries_Inr(1) [OF ins'] by simp
    ultimately have "distinct (map we_id ?es)" "db2 = ?db2" .
    with same [OF pub] pub show thesis
      by (intro fresh [OF valid False g refl refl]) auto
  qed
qed

lemma store_event_inv:
  assumes "insert_event flt m db = (Inr (Some v), db')" and inv: "wk_inv d db"
  shows "wk_inv d db'" "wk_events db' = wk_events db @ [webhook_columns v]" "v = new_webhook_event (wk_next db) m"
    "wk_deliveries db' = wk_deliveries db" "wk_endpoints db' = wk_endpoints db" "wk_next db' = wk_next db + 1"
    "\<not> list_ex (same_identity m) (wk_events db)"
proof -
  from assms(1) have new: "\<not> list_ex (same_identity m) (wk_events db)"
    "\<not> list_ex (\<lambda>v. wv_messageID v = pm_messageID m) (wk_events db)" "pm_organization m \<in> set (wk_organizations db)"
    and v: "v = new_webhook_event (wk_next db) m"
    and db': "db' = db\<lparr>wk_events := wk_events db @ [webhook_columns v], wk_next := wk_next db + 1\<rparr>"
    by (auto simp: insert_event_def Let_def split: option.splits if_splits)
  then show "wk_events db' = wk_events db @ [webhook_columns v]" "v = new_webhook_event (wk_next db) m"
    "wk_deliveries db' = wk_deliveries db" "wk_endpoints db' = wk_endpoints db" "wk_next db' = wk_next db + 1"
    "\<not> list_ex (same_identity m) (wk_events db)" by simp_all
  have vs: "wh_events_ok (wk_next db) (wk_organizations db) (wk_events db)"
    and ds: "deliveries_ok (wk_next db) (wk_endpoints db) (wk_events db) (wk_deliveries db)"
    using inv by (simp_all add: wk_inv_def)
  have "wh_events_ok (wk_next db') (wk_organizations db') (wk_events db')"
    using vs new v unfolding db'
    by (fastforce simp: wh_events_ok_def new_webhook_event_def list_ex_iff same_identity_def)
  moreover have "endpoints_ok d (wk_next db') (wk_endpoints db')"
    using inv by (fastforce simp: db' wk_inv_def endpoints_ok_def)
  moreover have "deliveries_ok (wk_next db') (wk_endpoints db') (wk_events db') (wk_deliveries db')"
    unfolding db' by (rule deliveries_ok_more [where n = "wk_next db" and es = "wk_endpoints db" and vs = "wk_events db"])
      (use ds in auto)
  ultimately show "wk_inv d db'" using inv by (simp add: wk_inv_def db')
qed

text \<open>What a later statement may take for granted of endpoints read earlier: an endpoint stays in its
  organization, and its id is not given to another.\<close>

definition once_read :: "endpoint_row list \<Rightarrow> nat \<Rightarrow> webhook_db \<Rightarrow> bool" where
  "once_read es org db \<longleftrightarrow>
     (\<forall>e \<in> set es. \<forall>e' \<in> set (wk_endpoints db). we_id e' = we_id e \<longrightarrow> we_organization e' = org)"

lemma store_deliveries_inv:
  assumes ins: "insert_deliveries flt m i es db = (Inr u, db')" and inv: "wk_inv d db"
    and v: "v \<in> set (wk_events db)" "wv_id v = i" "wv_organization v = pm_organization m"
    and read: "once_read es (pm_organization m) db"
  shows "wk_inv d db'"
proof (cases "es = []")
  case True
  with insert_deliveries_Inr(1) [OF ins] inv show ?thesis by simp
next
  case False
  note i = insert_deliveries_Inr [OF ins]
  let ?n = "wk_next db" and ?new = "map (new_delivery m i) (enumerate (wk_next db) es)"
  have ds: "deliveries_ok ?n (wk_endpoints db) (wk_events db) (wk_deliveries db)" using inv by (simp add: wk_inv_def)
  have "distinct (map wd_id (wk_deliveries db @ ?new))"
    using ds by (fastforce simp: new_delivery_ids deliveries_ok_def simp del: map_map)
  moreover have "distinct (map delivery_key (wk_deliveries db @ ?new))"
    using i(2) [OF False] unfolding map_append new_delivery_keys by blast
  moreover have "lease_ok r \<and> owned (wk_endpoints db) (wk_events db) r
      \<and> (wd_status r = Wh_Processing \<longrightarrow> routed (wk_endpoints db) r) \<and> wd_id r < ?n + length es"
    if "r \<in> set (wk_deliveries db @ ?new)" for r
  proof (cases "r \<in> set (wk_deliveries db)")
    case True
    with ds show ?thesis by (auto simp: deliveries_ok_def)
  next
    case False
    with that have "r \<in> set ?new" by simp
    then obtain j e where r: "r = new_delivery m i (j, e)" "j < ?n + length es" "e \<in> set es"
      by (elim new_deliveries) auto
    from i(2) [OF \<open>es \<noteq> []\<close>] r(3) obtain e' where e': "e' \<in> set (wk_endpoints db)" "we_id e' = we_id e"
      by (auto simp: subset_iff image_iff)
    with read r(3) have "we_organization e' = pm_organization m" by (auto simp: once_read_def)
    with e' v r(1,2) show ?thesis by (auto simp: new_delivery_def lease_ok_def owned_def)
  qed
  ultimately have "deliveries_ok (wk_next db') (wk_endpoints db') (wk_events db') (wk_deliveries db')"
    by (auto simp: i(1) deliveries_ok_def)
  moreover have "endpoints_ok d (wk_next db') (wk_endpoints db')" "wh_events_ok (wk_next db') (wk_organizations db') (wk_events db')"
    using inv by (fastforce simp: i(1) wk_inv_def endpoints_ok_def wh_events_ok_def)+
  ultimately show ?thesis using inv by (simp add: wk_inv_def i(1))
qed

text \<open>A publication that nothing disturbs is the two steps in a row.\<close>

lemma publish_inv:
  assumes p: "publish_event flt False m db = (Inr res, db')" and inv: "wk_inv d db"
  shows "wk_inv d db'"
  using p
proof (cases rule: publish_Inr)
  case (seen v)
  with inv show ?thesis by simp
next
  case (fresh v es)
  let ?db1 = "db\<lparr>wk_events := wk_events db @ [webhook_columns v], wk_next := wk_next db + 1\<rparr>"
  have "insert_event None m db = (Inr (Some v), ?db1)"
    using fresh(2-5) by (simp add: insert_event_def Let_def)
  note ev = store_event_inv(1) [OF this inv]
  have es: "e \<in> set (wk_endpoints db) \<and> we_organization e = pm_organization m" if "e \<in> set es" for e
    using that by (simp add: fresh(6) in_subscribed_join)
  have unique: "e = e'" if "e \<in> set (wk_endpoints db)" "e' \<in> set (wk_endpoints db)" "we_id e = we_id e'" for e e'
    using inv that endpoint_unique by (auto simp: wk_inv_def)
  have old: "wd_event r \<noteq> wk_next db" if "r \<in> set (wk_deliveries db)" for r
  proof -
    from inv that obtain u where "u \<in> set (wk_events db)" "wv_id u = wd_event r"
      by (auto simp: wk_inv_def deliveries_ok_def owned_def)
    with inv show ?thesis by (auto simp: wk_inv_def wh_events_ok_def)
  qed
  have vid: "wv_id v = wk_next db" "wv_organization v = pm_organization m"
    by (simp_all add: fresh(5) new_webhook_event_def)
  have keys: "distinct (map delivery_key (wk_deliveries db @ map (new_delivery m (wk_next db)) (enumerate (wk_next ?db1) es)))"
    using inv old fresh(7) unfolding map_append new_delivery_keys
    by (auto simp: wk_inv_def deliveries_ok_def distinct_map inj_on_def)
  have fk: "list_all (\<lambda>e. we_id e \<in> we_id ` set (wk_endpoints ?db1)) es" using es by (auto simp: list_all_iff)
  have "insert_deliveries None m (wk_next db) es ?db1 = (Inr (), db')"
  proof (cases "es = []")
    case True
    then show ?thesis by (simp add: insert_deliveries_def fresh(8))
  next
    case False
    from keys have "distinct (map (\<lambda>r. (wd_event r, wd_endpoint r))
        (wk_deliveries ?db1 @ map (new_delivery m (wk_next db)) (enumerate (wk_next ?db1) es)))" by (simp del: map_map map_append)
    moreover have "list_ex (\<lambda>v. wv_id v = wk_next db) (wk_events ?db1)" using vid(1) by simp
    ultimately show ?thesis
      using False fk unfolding insert_deliveries_def Let_def fresh(8)
      by (simp del: map_map map_append list_ex_append distinct_append)
  qed
  from this ev show ?thesis
  proof (rule store_deliveries_inv)
    show "webhook_columns v \<in> set (wk_events ?db1)" "wv_id (webhook_columns v) = wk_next db"
      "wv_organization (webhook_columns v) = pm_organization m"
      using vid by simp_all
    show "once_read es (pm_organization m) ?db1"
      using es unique by (auto simp: once_read_def)
  qed
qed

subsection \<open>Updating deliveries in place\<close>

lemma deliveries_ok_change:
  assumes "deliveries_ok n es vs rs" and "n \<le> n'"
    and f: "\<And>r. wd_id (f r) = wd_id r" "\<And>r. wd_event (f r) = wd_event r" "\<And>r. wd_endpoint (f r) = wd_endpoint r"
      "\<And>r. wd_organization (f r) = wd_organization r"
    and ok: "\<And>r. r \<in> set rs \<Longrightarrow> P r \<Longrightarrow> lease_ok (f r)"
    and sent_ok: "\<And>r. r \<in> set rs \<Longrightarrow> P r \<Longrightarrow> wd_status (f r) = Wh_Processing \<Longrightarrow> routed es (f r)"
  shows "deliveries_ok n' es vs (update_rows P f rs)"
proof -
  have "lease_ok r' \<and> owned es vs r' \<and> (wd_status r' = Wh_Processing \<longrightarrow> routed es r') \<and> wd_id r' < n'"
    if "r' \<in> set (update_rows P f rs)" for r'
  proof -
    from that obtain r where r: "r \<in> set rs" "r' = (if P r then f r else r)" by (auto simp: update_rows_set)
    from assms(1) r(1) have "lease_ok r" "owned es vs r" "wd_status r = Wh_Processing \<longrightarrow> routed es r" "wd_id r < n"
      by (auto simp: deliveries_ok_def)
    with r assms(2) f ok sent_ok show ?thesis by (auto simp: owned_def)
  qed
  moreover have "distinct (map wd_id (update_rows P f rs))" "distinct (map delivery_key (update_rows P f rs))"
    using assms(1) f by (simp_all add: update_rows_map deliveries_ok_def)
  ultimately show ?thesis by (simp add: deliveries_ok_def)
qed

lemma delivery_change_inv:
  assumes inv: "wk_inv d db"
    and f: "\<And>r. wd_id (f r) = wd_id r" "\<And>r. wd_event (f r) = wd_event r" "\<And>r. wd_endpoint (f r) = wd_endpoint r"
      "\<And>r. wd_organization (f r) = wd_organization r"
    and ok: "\<And>r. r \<in> set (wk_deliveries db) \<Longrightarrow> P r \<Longrightarrow> lease_ok (f r)"
    and sent_ok: "\<And>r. r \<in> set (wk_deliveries db) \<Longrightarrow> P r \<Longrightarrow> wd_status (f r) = Wh_Processing \<Longrightarrow> routed (wk_endpoints db) (f r)"
  shows "wk_inv d (db\<lparr>wk_deliveries := update_rows P f (wk_deliveries db)\<rparr>)"
proof -
  have "deliveries_ok (wk_next db) (wk_endpoints db) (wk_events db) (update_rows P f (wk_deliveries db))"
    by (rule deliveries_ok_change [where n = "wk_next db"]) (use inv f ok sent_ok in \<open>auto simp: wk_inv_def\<close>)
  with inv show ?thesis by (simp add: wk_inv_def)
qed

text \<open>A delivery being sent is routed, and stays it while endpoint and organization stay; one whose endpoint is
  active is routed.\<close>

lemma sent_routed:
  "wk_inv d db \<Longrightarrow> r \<in> set (wk_deliveries db) \<Longrightarrow> wd_status r = Wh_Processing \<Longrightarrow> routed (wk_endpoints db) r"
  by (auto simp: wk_inv_def deliveries_ok_def)

lemma routed_cong:
  "routed es r \<Longrightarrow> wd_endpoint r' = wd_endpoint r \<Longrightarrow> wd_organization r' = wd_organization r \<Longrightarrow> routed es r'"
  by (simp add: routed_def)

lemma active_routed:
  assumes inv: "wk_inv d db" and r: "r \<in> set (wk_deliveries db)"
    and e: "e \<in> set (wk_endpoints db)" "we_id e = wd_endpoint r" "we_status e = Endpoint_Active"
  shows "routed (wk_endpoints db) r"
proof -
  from inv r obtain e' where e': "e' \<in> set (wk_endpoints db)" "we_id e' = wd_endpoint r" "we_organization e' = wd_organization r"
    by (auto simp: wk_inv_def deliveries_ok_def owned_def)
  have "endpoints_ok d (wk_next db) (wk_endpoints db)" using inv by (simp add: wk_inv_def)
  from endpoint_unique [OF this e(1) e'(1)] e e' show ?thesis by (auto simp: routed_def)
qed

lemma delivery_lease_ok: "wk_inv d db \<Longrightarrow> r \<in> set (wk_deliveries db) \<Longrightarrow> lease_ok r"
  by (auto simp: wk_inv_def deliveries_ok_def)

lemma delivery_unique:
  "wk_inv d db \<Longrightarrow> r \<in> set (wk_deliveries db) \<Longrightarrow> r' \<in> set (wk_deliveries db) \<Longrightarrow> wd_id r = wd_id r' \<Longrightarrow> r = r'"
  by (auto simp: wk_inv_def deliveries_ok_def distinct_map inj_on_def)

text \<open>The live endpoint of a routed delivery, and the event of any.\<close>

lemma endpoint_of_routed:
  assumes inv: "wk_inv d db" and "routed (wk_endpoints db) r"
  obtains e where "endpoint_of db r = Some e" "e \<in> set (wk_endpoints db)" "we_id e = wd_endpoint r"
    "we_organization e = wd_organization r" "we_status e = Endpoint_Active"
    "we_deletedAt e = None" "we_secret e \<noteq> ''''"
proof -
  from assms(2) obtain e where e: "e \<in> set (wk_endpoints db)" "we_id e = wd_endpoint r"
      "we_organization e = wd_organization r" "we_status e = Endpoint_Active"
    by (auto simp: routed_def)
  have es: "endpoints_ok d (wk_next db) (wk_endpoints db)" using inv by (simp add: wk_inv_def)
  with e have live: "we_deletedAt e = None" "we_secret e \<noteq> ''''"
    by (auto simp: endpoints_ok_def endpoint_row_ok_def)
  have "endpoint_of db r = Some e"
  proof (cases "endpoint_of db r")
    case None
    with e live show ?thesis by (auto simp: endpoint_of_def find_key_None)
  next
    case (Some e')
    then have "e' \<in> set (wk_endpoints db)" "we_id e' = wd_endpoint r"
      using find_key_Some [of _ "wk_endpoints db" e'] unfolding endpoint_of_def by blast+
    with endpoint_unique [OF es _ e(1)] e(2) Some show ?thesis by simp
  qed
  then show thesis by (rule that [OF _ e live])
qed

lemma event_of_delivery:
  assumes inv: "wk_inv d db" and r: "r \<in> set (wk_deliveries db)"
  obtains v where "event_by_id (wd_event r) db = Some v" "v \<in> set (wk_events db)" "wv_id v = wd_event r"
    "wv_organization v = wd_organization r"
proof -
  from inv r obtain v where v: "v \<in> set (wk_events db)" "wv_id v = wd_event r" "wv_organization v = wd_organization r"
    by (auto simp: wk_inv_def deliveries_ok_def owned_def)
  moreover from inv v(1) have "find (\<lambda>x. wv_id x = wv_id v) (wk_events db) = Some v"
    by (intro find_unique) (auto simp: wk_inv_def wh_events_ok_def)
  ultimately show thesis using that by (simp add: event_by_id_def)
qed

subsection \<open>Claiming\<close>

lemma leased_delivery_simps [simp]:
  "wd_id (leased_delivery now x t row r) = wd_id r" "wd_event (leased_delivery now x t row r) = wd_event r"
  "wd_endpoint (leased_delivery now x t row r) = wd_endpoint r"
  "wd_organization (leased_delivery now x t row r) = wd_organization r"
  "wd_hash (leased_delivery now x t row r) = wd_hash r" "wd_status (leased_delivery now x t row r) = Wh_Processing"
  "wd_leaseToken (leased_delivery now x t row r) = t" "wd_leaseExpiresAt (leased_delivery now x t row r) = Some x"
  "wd_replays (leased_delivery now x t row r) = wd_replays r"
  "wd_attempts (leased_delivery now x t row r) = u16 (wd_attempts row + 1)"
  by (simp_all add: leased_delivery_def)

lemma released_lease_simps [simp]:
  "wd_id (released_lease now r) = wd_id r" "wd_event (released_lease now r) = wd_event r"
  "wd_endpoint (released_lease now r) = wd_endpoint r" "wd_organization (released_lease now r) = wd_organization r"
  "wd_hash (released_lease now r) = wd_hash r" "wd_status (released_lease now r) = Wh_Pending"
  "wd_leaseToken (released_lease now r) = ''''" "wd_leaseExpiresAt (released_lease now r) = None"
  "wd_replays (released_lease now r) = wd_replays r" "wd_availableAt (released_lease now r) = wd_availableAt r"
  by (simp_all add: released_lease_def)

text \<open>The tables after the expired leases were released.\<close>

definition with_released :: "instant \<Rightarrow> webhook_db \<Rightarrow> webhook_db" where
  "with_released now db = db\<lparr>wk_deliveries := update_rows (lease_lapsed now) (released_lease now) (wk_deliveries db)\<rparr>"

lemma release_all [simp]: "release_lapsed (\<lambda>_. True) now db = with_released now db"
  by (simp add: release_lapsed_def with_released_def)

lemma release_lapsed_inv: "wk_inv d db \<Longrightarrow> wk_inv d (release_lapsed sel now db)"
  unfolding release_lapsed_def
proof (rule delivery_change_inv)
  fix r
  assume inv: "wk_inv d db" and r: "r \<in> set (wk_deliveries db)"
  from delivery_lease_ok [OF inv r] show "lease_ok (released_lease now r)" by (simp add: lease_ok_def)
qed simp_all

lemma released_inv: "wk_inv d db \<Longrightarrow> wk_inv d (with_released now db)"
  using release_lapsed_inv [of d db "\<lambda>_. True" now] by simp

lemma lease_hit_inv:
  assumes inv: "wk_inv d db" and "t \<noteq> ''''" and row: "row \<in> set (wk_deliveries db)" "routed (wk_endpoints db) row"
  shows "wk_inv d (db\<lparr>wk_deliveries := update_rows (\<lambda>r. wd_id r = wd_id row \<and> wd_status r = Wh_Pending)
    (leased_delivery now x t row) (wk_deliveries db)\<rparr>)"
proof (rule delivery_change_inv [OF inv])
  fix r
  assume r: "r \<in> set (wk_deliveries db)" "wd_id r = wd_id row \<and> wd_status r = Wh_Pending"
  from delivery_lease_ok [OF inv r(1)] assms(2) show "lease_ok (leased_delivery now x t row r)" by (simp add: lease_ok_def)
  have "r = row" using delivery_unique [OF inv r(1) row(1)] r(2) by simp
  with row(2) show "routed (wk_endpoints db) (leased_delivery now x t row r)" by (auto intro: routed_cong)
qed simp_all

text \<open>What leasing a list of pending rows does: every row gets its token, and there is a claim for each.\<close>

definition leased :: "(nat \<Rightarrow> string) \<Rightarrow> instant \<Rightarrow> instant \<Rightarrow> nat \<Rightarrow> delivery_row list \<Rightarrow> delivery_row \<Rightarrow> delivery_row" where
  "leased token now x k rows r =
     (case find (\<lambda>p. wd_id (snd p) = wd_id r) (enumerate k rows) of
        None \<Rightarrow> r
      | Some (i, row) \<Rightarrow> leased_delivery now x (token i) row r)"

definition claims_for :: "(nat \<Rightarrow> string) \<Rightarrow> webhook_db \<Rightarrow> nat \<Rightarrow> delivery_row list \<Rightarrow> claimed_delivery list" where
  "claims_for token db k rows =
     map (\<lambda>(i, r). claim_of (token i) r (the (endpoint_of db r)) (the (event_by_id (wd_event r) db))) (enumerate k rows)"

lemma find_enumerate_None:
  "find (\<lambda>p. wd_id (snd p) = i) (enumerate k rows) = None \<longleftrightarrow> i \<notin> wd_id ` set rows"
  by (induction rows arbitrary: k) auto

lemma claims_for_cong:
  "wk_endpoints db' = wk_endpoints db \<Longrightarrow> wk_events db' = wk_events db \<Longrightarrow> claims_for token db' k rows = claims_for token db k rows"
  by (simp add: claims_for_def endpoint_of_def event_by_id_def)

lemma lease_rows_result:
  assumes "wk_inv d db" and "distinct (map wd_id rows)" and "\<forall>r \<in> set rows. r \<in> set (wk_deliveries db) \<and> wd_status r = Wh_Pending \<and> routed (wk_endpoints db) r"
    and "\<And>k. token k \<noteq> ''''" and "lease_rows flt token now x k rows result db = (Inr cs, db')"
  shows "cs = result @ claims_for token db k rows
    \<and> db' = db\<lparr>wk_deliveries := map (leased token now x k rows) (wk_deliveries db)\<rparr> \<and> wk_inv d db'"
  using assms
proof (induction rows arbitrary: k result db)
  case Nil
  then show ?case by (simp add: claims_for_def leased_def)
next
  case (Cons row rows)
  let ?hit = "\<lambda>r. wd_id r = wd_id row \<and> wd_status r = Wh_Pending"
  let ?db1 = "db\<lparr>wk_deliveries := update_rows ?hit (leased_delivery now x (token k) row) (wk_deliveries db)\<rparr>"
  from Cons.prems(3) have row: "row \<in> set (wk_deliveries db)" "wd_status row = Wh_Pending" "routed (wk_endpoints db) row"
    by simp_all
  from endpoint_of_routed [OF Cons.prems(1) row(3)] obtain e where e: "endpoint_of db row = Some e" by auto
  from event_of_delivery [OF Cons.prems(1) row(1)] obtain v where v: "event_by_id (wd_event row) db = Some v" .
  have hit: "?hit r \<longleftrightarrow> r = row" if "r \<in> set (wk_deliveries db)" for r
    using delivery_unique [OF Cons.prems(1) that row(1)] row(2) by auto
  have "rows_affected ?hit (wk_deliveries db) = 1"
    using Cons.prems(1) row
    by (subst rows_affected_key [where k = wd_id and i = "wd_id row"]) (auto simp: wk_inv_def deliveries_ok_def)
  with Cons.prems(5) e v have run: "lease_rows flt token now x (Suc k) rows (result @ [claim_of (token k) row e v]) ?db1 = (Inr cs, db')"
    by (auto simp: Let_def succeeds)
  have fresh: "\<forall>r \<in> set rows. r \<in> set (wk_deliveries ?db1) \<and> wd_status r = Wh_Pending \<and> routed (wk_endpoints ?db1) r"
  proof
    fix r
    assume r: "r \<in> set rows"
    with Cons.prems(2) have "wd_id r \<noteq> wd_id row" by (auto simp: image_iff)
    moreover from r Cons.prems(3) have "r \<in> set (wk_deliveries db)" "wd_status r = Wh_Pending" "routed (wk_endpoints db) r"
      by simp_all
    ultimately have "wd_id r \<noteq> wd_id row" "r \<in> set (wk_deliveries db)" "wd_status r = Wh_Pending"
      "routed (wk_endpoints db) r" by simp_all
    with update_rows_in [of r "wk_deliveries db" ?hit "leased_delivery now x (token k) row"]
    show "r \<in> set (wk_deliveries ?db1) \<and> wd_status r = Wh_Pending \<and> routed (wk_endpoints ?db1) r" by simp
  qed
  have "leased token now x (Suc k) rows (if ?hit r then leased_delivery now x (token k) row r else r)
      = leased token now x k (row # rows) r" if "r \<in> set (wk_deliveries db)" for r
  proof -
    have "find (\<lambda>p. wd_id (snd p) = wd_id row) (enumerate (Suc k) rows) = None"
      using Cons.prems(2) by (auto simp: find_enumerate_None)
    with hit [OF that] delivery_unique [OF Cons.prems(1) that row(1)] show ?thesis by (auto simp: leased_def)
  qed
  then have rows_eq: "map (leased token now x (Suc k) rows) (wk_deliveries ?db1) = map (leased token now x k (row # rows)) (wk_deliveries db)"
    by (simp add: update_rows_def)
  have "distinct (map wd_id rows)" using Cons.prems(2) by simp
  from Cons.IH [OF lease_hit_inv [OF Cons.prems(1,4) row(1,3)] this fresh Cons.prems(4) run]
  have cs: "cs = (result @ [claim_of (token k) row e v]) @ claims_for token ?db1 (Suc k) rows"
    and db': "db' = ?db1\<lparr>wk_deliveries := map (leased token now x (Suc k) rows) (wk_deliveries ?db1)\<rparr>"
    and inv': "wk_inv d db'" by blast+
  have "claims_for token ?db1 (Suc k) rows = claims_for token db (Suc k) rows" by (rule claims_for_cong) simp_all
  moreover have "claims_for token db k (row # rows) = claim_of (token k) row e v # claims_for token db (Suc k) rows"
    using e v by (simp add: claims_for_def)
  ultimately have "cs = result @ claims_for token db k (row # rows)" using cs by simp
  moreover have "db' = db\<lparr>wk_deliveries := map (leased token now x k (row # rows)) (wk_deliveries db)\<rparr>"
    by (subst db') (simp only: rows_eq, simp)
  ultimately show ?case using inv' by blast
qed

lemma due_deliveries_in:
  assumes "r \<in> set (due_deliveries locked now limit db)"
  shows "r \<in> set (wk_deliveries db)" "wd_status r = Wh_Pending" "wd_availableAt r \<le> now" "\<not> locked r"
    "\<exists>e \<in> set (wk_endpoints db). we_id e = wd_endpoint r \<and> we_status e = Endpoint_Active \<and> we_deletedAt e = None"
proof -
  from in_set_takeD [OF assms [unfolded due_deliveries_def]]
  have r: "r \<in> set (wk_deliveries db)" "delivery_due now db r" "\<not> locked r" by simp_all
  then show "r \<in> set (wk_deliveries db)" "\<not> locked r" "wd_status r = Wh_Pending" "wd_availableAt r \<le> now"
    by (simp_all add: delivery_due_def)
  from r(2) show "\<exists>e \<in> set (wk_endpoints db). we_id e = wd_endpoint r \<and> we_status e = Endpoint_Active \<and> we_deletedAt e = None"
    unfolding delivery_due_def list_ex_iff by blast
qed

lemma due_deliveries_distinct:
  "wk_inv d db \<Longrightarrow> distinct (map wd_id (due_deliveries locked now limit db))"
  unfolding due_deliveries_def take_map [symmetric]
  by (rule distinct_take) (auto simp: wk_inv_def deliveries_ok_def distinct_map inj_on_def)

lemma due_routed:
  "wk_inv d db \<Longrightarrow> r \<in> set (due_deliveries locked now limit db) \<Longrightarrow> routed (wk_endpoints db) r"
  using due_deliveries_in(1,5) active_routed by metis

lemma lease_due_Inr:
  assumes "lease_due flt locked token now lease limit db = (Inr cs, db')" and inv: "wk_inv d db" and "\<And>k. token k \<noteq> ''''"
  defines "rows \<equiv> due_deliveries locked now (nat limit) db"
  shows "cs = claims_for token db 0 rows"
    "db' = db\<lparr>wk_deliveries := map (leased token now (now + lease) 0 rows) (wk_deliveries db)\<rparr>" "wk_inv d db'"
proof -
  from assms(1) have run: "lease_rows flt token now (now + lease) 0 rows [] db = (Inr cs, db')"
    by (simp add: lease_due_def succeeds rows_def)
  have "\<forall>r \<in> set rows. r \<in> set (wk_deliveries db) \<and> wd_status r = Wh_Pending \<and> routed (wk_endpoints db) r"
    unfolding rows_def using due_deliveries_in(1,2) due_routed [OF inv] by blast
  moreover from due_deliveries_distinct [OF inv] have "distinct (map wd_id rows)" by (simp add: rows_def)
  ultimately have all: "cs = [] @ claims_for token db 0 rows
      \<and> db' = db\<lparr>wk_deliveries := map (leased token now (now + lease) 0 rows) (wk_deliveries db)\<rparr> \<and> wk_inv d db'"
    using lease_rows_result [OF inv _ _ assms(3) run] by blast
  then show "cs = claims_for token db 0 rows" "wk_inv d db'"
    "db' = db\<lparr>wk_deliveries := map (leased token now (now + lease) 0 rows) (wk_deliveries db)\<rparr>"
    by (simp, blast, blast)
qed

lemma claim_due_runs:
  assumes "claim_due flt bound locked token now lease limit db = (Inr cs, db')"
  shows "lease_due flt locked token now lease limit (with_released now db) = (Inr cs, db')"
    "1 \<le> limit" "limit \<le> 100" "0 < lease"
  using assms by (auto simp: claim_due_def succeeds)

lemma claim_due_Inr:
  assumes "claim_due flt bound locked token now lease limit db = (Inr cs, db')" and "wk_inv d db" and "\<And>k. token k \<noteq> ''''"
  defines "db1 \<equiv> with_released now db" and "rows \<equiv> due_deliveries locked now (nat limit) (with_released now db)"
  shows "cs = claims_for token db1 0 rows" "1 \<le> limit" "limit \<le> 100" "0 < lease"
    "db' = db1\<lparr>wk_deliveries := map (leased token now (now + lease) 0 rows) (wk_deliveries db1)\<rparr>" "wk_inv d db'"
  using claim_due_runs [OF assms(1)]
    lease_due_Inr [OF claim_due_runs(1) [OF assms(1)] released_inv [OF assms(2)] assms(3)]
  by (simp_all add: db1_def rows_def)

subsection \<open>Completing\<close>

lemma completed_delivery_simps [simp]:
  "wd_id (completed_delivery cp r) = wd_id r" "wd_event (completed_delivery cp r) = wd_event r"
  "wd_endpoint (completed_delivery cp r) = wd_endpoint r" "wd_organization (completed_delivery cp r) = wd_organization r"
  "wd_hash (completed_delivery cp r) = wd_hash r" "wd_status (completed_delivery cp r) = cp_status cp"
  "wd_leaseToken (completed_delivery cp r) = ''''" "wd_leaseExpiresAt (completed_delivery cp r) = None"
  "wd_replays (completed_delivery cp r) = wd_replays r" "wd_attempts (completed_delivery cp r) = wd_attempts r"
  by (simp_all add: completed_delivery_def Let_def)

lemma completion_not_processing: "completion_ok cp \<Longrightarrow> cp_status cp \<noteq> Wh_Processing"
  by (auto simp: completion_ok_def)

text \<open>The row a completion writes, and the attempt it adds.\<close>

definition with_completed :: "claimed_delivery \<Rightarrow> delivery_row \<Rightarrow> delivery_completion \<Rightarrow> webhook_db \<Rightarrow> webhook_db" where
  "with_completed c r cp db =
     db\<lparr>wk_attempts := wk_attempts db @ [new_attempt (wk_next db) r c cp], wk_next := wk_next db + 1,
        wk_deliveries := update_rows (\<lambda>x. wd_id x = wd_id r) (completed_delivery cp) (wk_deliveries db)\<rparr>"

definition ends_delivery :: "delivery_completion \<Rightarrow> bool" where
  "ends_delivery cp \<longleftrightarrow> cp_status cp = Wh_Delivered \<or> cp_status cp = Wh_Failed"

lemma health_update_eq:
  "x = e \<Longrightarrow> x\<lparr>we_failures := we_failures (endpoint_health n cp e), we_status := we_status (endpoint_health n cp e),
     we_reason := we_reason (endpoint_health n cp e), we_version := we_version (endpoint_health n cp e),
     we_updatedAt := we_updatedAt (endpoint_health n cp e)\<rparr> = endpoint_health n cp x"
  by (simp add: endpoint_health_def Let_def)

lemma endpoint_health_simps [simp]:
  "we_id (endpoint_health n cp e) = we_id e" "we_organization (endpoint_health n cp e) = we_organization e"
  "we_urlHash (endpoint_health n cp e) = we_urlHash e" "we_deletedAt (endpoint_health n cp e) = we_deletedAt e"
  "we_secret (endpoint_health n cp e) = we_secret e" "we_previous (endpoint_health n cp e) = we_previous e"
  "we_previousUntil (endpoint_health n cp e) = we_previousUntil e"
  by (simp_all add: endpoint_health_def Let_def)

lemma update_health_Inr:
  assumes u: "update_health flt r cp n db = (Inr ok, db')" and es: "endpoints_ok d k (wk_endpoints db)"
  obtains (gone) "find_endpoint (wd_organization r) (wd_endpoint r) db = None" "ok" "db' = db"
  | (kept) e where "find_endpoint (wd_organization r) (wd_endpoint r) db = Some e" "ok"
      "we_status (endpoint_health n cp e) = we_status e"
      "db' = db\<lparr>wk_endpoints := update_rows (\<lambda>x. we_id x = wd_endpoint r) (endpoint_health n cp) (wk_endpoints db)\<rparr>"
  | (tripped) e where "find_endpoint (wd_organization r) (wd_endpoint r) db = Some e" "ok"
      "we_status e = Endpoint_Active" "we_status (endpoint_health n cp e) = Endpoint_Disabled"
      "db' = db\<lparr>wk_endpoints := update_rows (\<lambda>x. we_id x = wd_endpoint r) (endpoint_health n cp) (wk_endpoints db),
        wk_deliveries := canceled_for (wd_endpoint r) (cp_completedAt cp) (wk_deliveries db)\<rparr>"
proof (cases "find_endpoint (wd_organization r) (wd_endpoint r) db")
  case None
  with u show thesis
    by (intro gone) (auto simp: update_health_def find_endpoint_for_update_def split: option.splits if_splits)
next
  case (Some e)
  note f = find_endpoint_Some [OF Some]
  let ?es = "update_rows (\<lambda>x. we_id x = wd_endpoint r) (endpoint_health n cp) (wk_endpoints db)"
  let ?g = "\<lambda>x. x\<lparr>we_failures := we_failures (endpoint_health n cp e), we_status := we_status (endpoint_health n cp e),
     we_reason := we_reason (endpoint_health n cp e), we_version := we_version (endpoint_health n cp e),
     we_updatedAt := we_updatedAt (endpoint_health n cp e)\<rparr>"
  have "x = e" if "x \<in> set (wk_endpoints db)" "we_id x = we_id e" for x
    using endpoint_unique [OF es that(1) f(1)] that(2) by simp
  then have rows: "update_rows (\<lambda>x. we_id x = we_id e) ?g (wk_endpoints db) = ?es"
    using f(2) unfolding update_rows_def by (intro map_cong) (auto simp: health_update_eq)
  have find: "find_endpoint_for_update (flt 3) (wd_organization r) (wd_endpoint r) db = Inr e"
    using u Some
    by (auto simp: update_health_def find_endpoint_for_update_def split: option.splits if_splits)
  show thesis
  proof (cases "we_status (endpoint_health n cp e) = Endpoint_Disabled \<and> we_status e \<noteq> Endpoint_Disabled")
    case True
    with u find rows f(2) have "ok" "db' = db\<lparr>wk_endpoints := ?es, wk_deliveries := canceled_for (wd_endpoint r) (cp_completedAt cp) (wk_deliveries db)\<rparr>"
      by (auto simp: update_health_def Let_def succeeds cancel_open_Inr)
    with True Some show thesis by (intro tripped) (auto intro: endpoint_status.exhaust)
  next
    case False
    with u find rows have "ok" "db' = db\<lparr>wk_endpoints := ?es\<rparr>"
      by (auto simp: update_health_def Let_def succeeds)
    moreover have "we_status (endpoint_health n cp e) = we_status e"
      using False by (auto simp: endpoint_health_def Let_def split: if_splits)
    ultimately show thesis using Some by (intro kept)
  qed
qed

lemma complete_Inr:
  assumes "complete_delivery flt bound c cp n db = (Inr ok, db')" and inv: "wk_inv d db"
  obtains (stale) "\<not> ok" "db' = db" "\<forall>r \<in> set (wk_deliveries db). leased_to c r \<longrightarrow> wd_attempts r \<noteq> wc_number c"
  | (retried) r where "r \<in> set (wk_deliveries db)" "leased_to c r" "wd_attempts r = wc_number c" "completion_ok cp" "ok"
      "\<not> ends_delivery cp" "db' = with_completed c r cp db"
  | (ended) r where "r \<in> set (wk_deliveries db)" "leased_to c r" "wd_attempts r = wc_number c" "completion_ok cp" "ends_delivery cp"
      "update_health flt r cp n (with_completed c r cp db) = (Inr ok, db')"
proof -
  from assms(1) have tx: "complete_in_tx flt c cp n db = (Inr ok, db')"
    by (auto simp: complete_delivery_def succeeds)
  show thesis
  proof (cases "find (leased_to c) (wk_deliveries db)")
    case None
    with tx show thesis by (intro stale) (auto simp: complete_in_tx_def succeeds find_key_None)
  next
    case (Some r)
    then have r: "r \<in> set (wk_deliveries db)" "leased_to c r" by (auto dest: find_key_Some)
    have only: "x = r" if "x \<in> set (wk_deliveries db)" "wd_id x = wd_id r" for x
      using delivery_unique [OF inv that(1) r(1)] that(2) by simp
    show thesis
    proof (cases "wd_attempts r = wc_number c")
      case False
      with tx Some have "\<not> ok" "db' = db" by (auto simp: complete_in_tx_def succeeds)
      moreover have "x = r" if "x \<in> set (wk_deliveries db)" "leased_to c x" for x
        using only that r(2) by (simp add: leased_to_def)
      ultimately show thesis using False by (intro stale) auto
    next
      case attempts: True
      let ?hit = "\<lambda>x. wd_id x = wd_id r \<and> wd_status x = Wh_Processing \<and> wd_leaseToken x = wc_token c"
      have hit: "?hit x \<longleftrightarrow> wd_id x = wd_id r" if "x \<in> set (wk_deliveries db)" for x
        using only [OF that] r(2) by (auto simp: leased_to_def)
      then have same: "update_rows ?hit (completed_delivery cp) (wk_deliveries db)
          = update_rows (\<lambda>x. wd_id x = wd_id r) (completed_delivery cp) (wk_deliveries db)"
        by (auto simp: update_rows_def)
      have one: "rows_affected ?hit (wk_deliveries db) = 1"
        using inv r hit
        by (subst rows_affected_key [where k = wd_id and i = "wd_id r"]) (auto simp: wk_inv_def deliveries_ok_def)
      from tx Some attempts have ok: "completion_ok cp"
        and run: "(if ends_delivery cp then update_health flt r cp n (with_completed c r cp db)
            else (Inr True, with_completed c r cp db)) = (Inr ok, db')"
        using one by (auto simp: complete_in_tx_def succeeds Let_def same with_completed_def ends_delivery_def split: if_splits)
      show thesis
      proof (cases "ends_delivery cp")
        case True
        with run show thesis by (intro ended [OF r attempts ok]) simp_all
      next
        case False
        with run show thesis by (intro retried [OF r attempts ok]) simp_all
      qed
    qed
  qed
qed

text \<open>Completing preserves the invariant; \<open>d\<close> failures in a row disable the endpoint.\<close>

lemma completed_inv:
  assumes inv: "wk_inv d db" and r: "r \<in> set (wk_deliveries db)" "leased_to c r" and ok: "completion_ok cp"
  shows "wk_inv d (with_completed c r cp db)"
proof -
  have rows: "deliveries_ok (wk_next db) (wk_endpoints db) (wk_events db) (wk_deliveries db)" using inv by (simp add: wk_inv_def)
  have "deliveries_ok (wk_next db + 1) (wk_endpoints db) (wk_events db)
      (update_rows (\<lambda>x. wd_id x = wd_id r) (completed_delivery cp) (wk_deliveries db))"
  proof (rule deliveries_ok_change [OF rows])
    fix x
    assume x: "x \<in> set (wk_deliveries db)" "wd_id x = wd_id r"
    then have "x = r" using delivery_unique [OF inv _ r(1)] by blast
    with r(2) have "wd_status x = Wh_Processing" by (simp add: leased_to_def)
    from sent_routed [OF inv x(1) this] show "routed (wk_endpoints db) (completed_delivery cp x)" by (rule routed_cong) simp_all
    from delivery_lease_ok [OF inv x(1)] completion_not_processing [OF ok]
    show "lease_ok (completed_delivery cp x)" by (simp add: lease_ok_def)
  qed simp_all
  moreover have "endpoints_ok d (wk_next db + 1) (wk_endpoints db)"
    using inv by (fastforce simp: wk_inv_def endpoints_ok_def)
  moreover have "wh_events_ok (wk_next db + 1) (wk_organizations db) (wk_events db)"
    using inv by (auto simp: wk_inv_def intro: wh_events_ok_more)
  ultimately show ?thesis using inv by (simp add: wk_inv_def with_completed_def)
qed

lemma endpoint_health_ok:
  assumes "endpoint_row_ok d e" "0 < d"
  shows "endpoint_row_ok d (endpoint_health d cp e)"
  using assms by (auto simp: endpoint_row_ok_def endpoint_health_def Let_def)

lemma update_health_inv:
  assumes "update_health flt r cp d db = (Inr ok, db')" and inv: "wk_inv d db" and d: "0 < d"
  shows "wk_inv d db'"
proof -
  have es: "endpoints_ok d (wk_next db) (wk_endpoints db)" using inv by (simp add: wk_inv_def)
  from assms(1) es show ?thesis
  proof (cases rule: update_health_Inr)
    case gone
    with inv show ?thesis by simp
  next
    case (kept e)
    note c = changed_endpoint_inv [OF inv d kept(1)] and live = find_endpoint_Some(4) [OF kept(1)]
    from change_route_kept_inv [OF inv d kept(1), of "endpoint_health d cp"] endpoint_health_ok [OF c(1) d] live kept(3)
    show ?thesis by (simp add: kept(4))
  next
    case (tripped e)
    note c = changed_endpoint_inv [OF inv d tripped(1)]
    have ss: "subscriptions_ok (update_rows (\<lambda>x. we_id x = wd_endpoint r) (endpoint_health d cp) (wk_endpoints db))
        (wk_subscriptions db)"
      by (rule subscriptions_ok_update) (use inv in \<open>auto simp: wk_inv_def\<close>)
    from change_and_cancel_inv [OF inv d tripped(1) endpoint_health_ok [OF c(1) d] _ _ ss]
    show ?thesis by (simp add: tripped(5))
  qed
qed

lemma complete_inv:
  assumes "complete_delivery flt bound c cp d db = (Inr ok, db')" and inv: "wk_inv d db" and d: "0 < d"
  shows "wk_inv d db'"
  using assms(1,2)
proof (cases rule: complete_Inr)
  case stale
  with inv show ?thesis by simp
next
  case (retried r)
  from completed_inv [OF inv retried(1,2,4)] retried(7) show ?thesis by simp
next
  case (ended r)
  from update_health_inv [OF ended(6) completed_inv [OF inv ended(1,2,4)] d] show ?thesis .
qed

subsection \<open>Replaying\<close>

lemma replayed_delivery_simps [simp]:
  "wd_id (replayed_delivery h now r) = wd_id r" "wd_event (replayed_delivery h now r) = wd_event r"
  "wd_endpoint (replayed_delivery h now r) = wd_endpoint r"
  "wd_organization (replayed_delivery h now r) = wd_organization r"
  "wd_hash (replayed_delivery h now r) = h" "wd_status (replayed_delivery h now r) = Wh_Pending"
  "wd_leaseToken (replayed_delivery h now r) = ''''" "wd_leaseExpiresAt (replayed_delivery h now r) = None"
  "wd_replays (replayed_delivery h now r) = u16 (wd_replays r + 1)" "wd_availableAt (replayed_delivery h now r) = now"
  "wd_cycle (replayed_delivery h now r) = 0" "wd_attempts (replayed_delivery h now r) = wd_attempts r"
  by (simp_all add: replayed_delivery_def)

lemma replay_Inr:
  assumes "replay_delivery flt bound org i actor now db = (Inr v, db')"
  obtains r e where "find (\<lambda>r. wd_id r = i \<and> wd_organization r = org) (wk_deliveries db) = Some r"
    "r \<in> set (wk_deliveries db)" "wd_id r = i" "wd_organization r = org" "is_terminal (wd_status r)" "wd_replays r < 100"
    "find_endpoint org (wd_endpoint r) db = Some e" "we_status e = Endpoint_Active" "we_secret e \<noteq> ''''"
    "v = delivery_from (event_by_id (wd_event r) db) (replayed_delivery (we_urlHash e) now r)"
    "db' = db\<lparr>wk_deliveries := update_rows (\<lambda>x. wd_id x = i) (replayed_delivery (we_urlHash e) now) (wk_deliveries db)\<rparr>"
proof -
  let ?P = "\<lambda>r. wd_id r = i \<and> wd_organization r = org"
  from assms obtain r where r: "find ?P (wk_deliveries db) = Some r"
    by (cases "find ?P (wk_deliveries db)") (auto simp: replay_delivery_def succeeds)
  note m = find_key_Some [OF r]
  from assms r have t: "is_terminal (wd_status r)" "wd_replays r < 100"
    by (auto simp: replay_delivery_def succeeds)
  from assms r obtain e where e: "find_endpoint_for_update (flt 1) org (wd_endpoint r) db = Inr e"
    by (cases "find_endpoint_for_update (flt 1) org (wd_endpoint r) db") (auto simp: replay_delivery_def succeeds)
  then have f: "find_endpoint org (wd_endpoint r) db = Some e"
    by (auto simp: find_endpoint_for_update_def split: option.splits)
  from m(2) have i: "wd_id r = i" "wd_organization r = org" by simp_all
  from assms have run: "(if we_status e \<noteq> Endpoint_Active \<or> we_secret e = '''' then (Inl ErrWebhookReplayNotAllowed, db)
      else case flt 2 of Some err \<Rightarrow> (Inl (WebhookFailure err), db) | None \<Rightarrow>
        let hit = (\<lambda>x. wd_id x = wd_id r);
            db1 = db\<lparr>wk_deliveries := update_rows hit (replayed_delivery (we_urlHash e) now) (wk_deliveries db)\<rparr>
        in if rows_affected hit (wk_deliveries db) \<noteq> 1 then (Inl ErrWebhookReplayNotAllowed, db1)
           else (Inr (delivery_from (event_by_id (wd_event r) db) (replayed_delivery (we_urlHash e) now r)), db1)) = (Inr v, db')"
    unfolding replay_delivery_def guard_Inr by (simp only: wh_transaction_Inr guard_Inr r e option.case sum.case simp_thms)
  from run [unfolded guard_Inr Let_def i(1)]
  have all: "\<not> (we_status e \<noteq> Endpoint_Active \<or> we_secret e = '''')"
    "(Inr (delivery_from (event_by_id (wd_event r) db) (replayed_delivery (we_urlHash e) now r)),
      db\<lparr>wk_deliveries := update_rows (\<lambda>x. wd_id x = i) (replayed_delivery (we_urlHash e) now) (wk_deliveries db)\<rparr>)
      = (Inr v, db')" by blast+
  from all(1) have active: "we_status e = Endpoint_Active" "we_secret e \<noteq> ''''" by blast+
  from all(2) have v: "v = delivery_from (event_by_id (wd_event r) db) (replayed_delivery (we_urlHash e) now r)"
    and db': "db' = db\<lparr>wk_deliveries := update_rows (\<lambda>x. wd_id x = i) (replayed_delivery (we_urlHash e) now) (wk_deliveries db)\<rparr>"
    unfolding prod.inject sum.inject by blast+
  show thesis by (rule that [OF r m(1) i t f active v db'])
qed

lemma replay_inv:
  assumes "replay_delivery flt bound org i actor now db = (Inr v, db')" and inv: "wk_inv d db"
  shows "wk_inv d db'"
  using assms(1)
proof (rule replay_Inr)
  fix r e
  assume r: "r \<in> set (wk_deliveries db)" "wd_id r = i" "wd_organization r = org" "wd_replays r < 100"
    and e: "find_endpoint org (wd_endpoint r) db = Some e" "we_status e = Endpoint_Active"
    and db': "db' = db\<lparr>wk_deliveries := update_rows (\<lambda>x. wd_id x = i) (replayed_delivery (we_urlHash e) now) (wk_deliveries db)\<rparr>"
  note f = find_endpoint_Some [OF e(1)]
  show ?thesis
    unfolding db'
  proof (rule delivery_change_inv [OF inv])
    fix x
    assume x: "x \<in> set (wk_deliveries db)" "wd_id x = i"
    with r(2) have "x = r" by (intro delivery_unique [OF inv _ r(1)]) simp_all
    with r(4) delivery_lease_ok [OF inv x(1)] show "lease_ok (replayed_delivery (we_urlHash e) now x)"
      by (simp add: lease_ok_def u16_def)
  qed simp_all
qed

subsection \<open>Pruning\<close>

lemma forget_previous_simps [simp]:
  "we_id (forget_previous clk e) = we_id e" "we_organization (forget_previous clk e) = we_organization e"
  "we_status (forget_previous clk e) = we_status e" "we_urlHash (forget_previous clk e) = we_urlHash e"
  "we_deletedAt (forget_previous clk e) = we_deletedAt e" "we_secret (forget_previous clk e) = we_secret e"
  by (simp_all add: forget_previous_def)

text \<open>The deliveries and the events one run deletes.\<close>

definition pruned_ids :: "instant \<Rightarrow> webhook_db \<Rightarrow> nat list" where
  "pruned_ids before db = map wd_id (take webhook_prune_batch (filter (prunable_delivery before db) (wk_deliveries db)))"

definition pruned_event_ids :: "instant \<Rightarrow> webhook_db \<Rightarrow> nat list" where
  "pruned_event_ids before db = map wv_id (take webhook_prune_batch (filter (prunable_event before db) (wk_events db)))"

definition pruned :: "instant \<Rightarrow> instant \<Rightarrow> instant \<Rightarrow> webhook_db \<Rightarrow> webhook_db" where
  "pruned clk before now db =
     (let db1 = db\<lparr>wk_endpoints := update_rows (expired_secret now) (forget_previous clk) (wk_endpoints db)\<rparr>;
          db2 = prune_deliveries (pruned_ids before db1) db1
      in db2\<lparr>wk_events := filter (\<lambda>v. wv_id v \<notin> set (pruned_event_ids before db2)) (wk_events db2)\<rparr>)"

lemma prune_Inr:
  assumes "prune_history flt clk bound before now db = (Inr res, db')"
  shows "db' = pruned clk before now db" "before < now"
proof -
  from assms have g: "before < now" and tx: "prune_in_tx flt clk before now db = (Inr res, db')"
    by (simp_all add: prune_history_def guard_Inr)
  from g show "before < now" .
  from tx have "snd (prune_in_tx flt clk before now db) = pruned clk before now db"
    unfolding prune_in_tx_def guard_Inr Let_def pruned_def pruned_ids_def pruned_event_ids_def
    by (auto split: option.splits if_splits)
  with tx show "db' = pruned clk before now db" by simp
qed

text \<open>An id that is deleted is that of an ended delivery of an old event; an event that is deleted has none left.\<close>

lemma pruned_ids_in:
  assumes "i \<in> set (pruned_ids before db)"
  obtains r v where "r \<in> set (wk_deliveries db)" "wd_id r = i" "is_terminal (wd_status r)"
    "v \<in> set (wk_events db)" "wv_id v = wd_event r" "wv_createdAt v < before"
proof -
  from assms obtain r where "r \<in> set (take webhook_prune_batch (filter (prunable_delivery before db) (wk_deliveries db)))"
    and i: "wd_id r = i"
    by (auto simp: pruned_ids_def)
  from in_set_takeD [OF this(1)] have "r \<in> set (wk_deliveries db)" "prunable_delivery before db r" by simp_all
  with i obtain v where v: "is_terminal (wd_status r)" "v \<in> set (wk_events db)" "wv_id v = wd_event r" "wv_createdAt v < column_time before"
    by (auto simp: prunable_delivery_def list_ex_iff)
  with column_time_bounds(1) [of before] have "wv_createdAt v < before" by linarith
  with v i \<open>r \<in> set (wk_deliveries db)\<close> show thesis by (intro that)
qed

lemma pruned_event_ids_in:
  assumes "i \<in> set (pruned_event_ids before db)"
  obtains v where "v \<in> set (wk_events db)" "wv_id v = i" "wv_createdAt v < before"
    "\<And>r. r \<in> set (wk_deliveries db) \<Longrightarrow> wd_event r \<noteq> i"
proof -
  from assms obtain v where "v \<in> set (take webhook_prune_batch (filter (prunable_event before db) (wk_events db)))"
    and i: "wv_id v = i"
    by (auto simp: pruned_event_ids_def)
  from in_set_takeD [OF this(1)] have "v \<in> set (wk_events db)" "prunable_event before db v" by simp_all
  moreover have "wv_createdAt v < before" if "wv_createdAt v < column_time before"
    using that column_time_bounds(1) [of before] by linarith
  ultimately show thesis using i by (auto simp: prunable_event_def list_ex_iff intro: that)
qed

lemma forgotten_inv:
  assumes "wk_inv d db"
  shows "wk_inv d (db\<lparr>wk_endpoints := update_rows P (forget_previous clk) (wk_endpoints db)\<rparr>)"
proof -
  let ?es = "update_rows P (forget_previous clk) (wk_endpoints db)"
  from assms have es: "endpoints_ok d (wk_next db) (wk_endpoints db)"
    and ss: "subscriptions_ok (wk_endpoints db) (wk_subscriptions db)"
    and rs: "deliveries_ok (wk_next db) (wk_endpoints db) (wk_events db) (wk_deliveries db)"
    by (simp_all add: wk_inv_def)
  have "endpoint_row_ok d (forget_previous clk e)" if "endpoint_row_ok d e" for e
    using that by (simp add: endpoint_row_ok_def forget_previous_def)
  with es have "endpoints_ok d (wk_next db) ?es"
    by (auto simp: endpoints_ok_def update_rows_map update_rows_set)
  moreover have "subscriptions_ok ?es (wk_subscriptions db)"
  proof -
    have "\<exists>e' \<in> set ?es. we_id e' = wb_endpoint s \<and> we_deletedAt e' = None"
      if "e \<in> set (wk_endpoints db)" "we_id e = wb_endpoint s" "we_deletedAt e = None" for s e
      using that update_rows_in [OF that(1), of P "forget_previous clk"]
      by (intro bexI [of _ "if P e then forget_previous clk e else e"]) simp_all
    with ss show ?thesis unfolding subscriptions_ok_def by blast
  qed
  moreover have "owned ?es (wk_events db) r" if "owned (wk_endpoints db) (wk_events db) r" for r
    using that by (rule owned_update) simp_all
  moreover have "routed ?es r" if "routed (wk_endpoints db) r" for r
    using that by (rule routed_update) simp_all
  ultimately show ?thesis using assms rs by (auto simp: wk_inv_def deliveries_ok_def)
qed

lemma prune_deliveries_inv:
  assumes "wk_inv d db"
  shows "wk_inv d (prune_deliveries ids db)"
  using assms by (auto simp: wk_inv_def prune_deliveries_def deliveries_ok_def distinct_map_filter)

lemma prune_events_inv:
  assumes inv: "wk_inv d db"
  shows "wk_inv d (db\<lparr>wk_events := filter (\<lambda>v. wv_id v \<notin> set (pruned_event_ids before db)) (wk_events db)\<rparr>)"
proof -
  let ?vs = "filter (\<lambda>v. wv_id v \<notin> set (pruned_event_ids before db)) (wk_events db)"
  have "owned (wk_endpoints db) ?vs r" if r: "r \<in> set (wk_deliveries db)" for r
  proof -
    from inv r have "owned (wk_endpoints db) (wk_events db) r" by (auto simp: wk_inv_def deliveries_ok_def)
    moreover have "wd_event r \<notin> set (pruned_event_ids before db)"
      using r by (auto elim: pruned_event_ids_in)
    ultimately show ?thesis by (auto simp: owned_def)
  qed
  moreover have "wh_events_ok (wk_next db) (wk_organizations db) ?vs"
    using inv by (auto simp: wk_inv_def wh_events_ok_def distinct_map_filter)
  ultimately show ?thesis using inv by (auto simp: wk_inv_def deliveries_ok_def)
qed

lemma delete_events_inv:
  assumes inv: "wk_inv d db"
  shows "wk_inv d (delete_events ids db)"
proof -
  let ?vs = "filter (\<lambda>v. wv_id v \<notin> set ids) (wk_events db)"
  let ?gone = "map wd_id (filter (\<lambda>r. wd_event r \<in> set ids) (wk_deliveries db))"
  have "wk_inv d (prune_deliveries ?gone db)" by (rule prune_deliveries_inv [OF inv])
  moreover have "owned (wk_endpoints db) ?vs r" if "r \<in> set (wk_deliveries (prune_deliveries ?gone db))" for r
  proof -
    from that have r: "r \<in> set (wk_deliveries db)" "wd_event r \<notin> set ids" by (auto simp: prune_deliveries_def)
    from inv r(1) have "owned (wk_endpoints db) (wk_events db) r" by (auto simp: wk_inv_def deliveries_ok_def)
    with r(2) show ?thesis by (auto simp: owned_def)
  qed
  moreover have "wh_events_ok (wk_next db) (wk_organizations db) ?vs"
    using inv by (auto simp: wk_inv_def wh_events_ok_def distinct_map_filter)
  ultimately show ?thesis
    by (auto simp: wk_inv_def deliveries_ok_def delete_events_def Let_def prune_deliveries_def)
qed

lemma prune_history_inv:
  assumes "prune_history flt clk bound before now db = (Inr res, db')" and "wk_inv d db"
  shows "wk_inv d db'"
  unfolding prune_Inr(1) [OF assms(1)] pruned_def Let_def
  by (rule prune_events_inv prune_deliveries_inv forgotten_inv assms(2))+

end
