(* ===== verification/Digest.thy ===== *)
theory Digest
  imports Prelude "HOL-Library.Word"
begin

text \<open>
  What \<open>src/api\<close> uses of \<open>crypto/sha256\<close>, \<open>crypto/hmac\<close>, \<open>encoding/hex\<close> and \<open>encoding/base64\<close>. A byte
  slice is a \<open>string\<close>. The digests are those of FIPS 180-4 and RFC 2104; of them the proofs use the length only.
  \<open>DecodeString\<close> passes over line ends and wants the text padded.
\<close>

unbundle bit_operations_syntax

subsection \<open>SHA-256\<close>

text \<open>The constants are the first 32 bits of the fractions of the cube roots of the first 64 primes, and the
  initial state those of the square roots of the first eight. \<open>integer_root k b a n\<close> finds the low \<open>b\<close> bits of the
  \<open>k\<close>-th root of \<open>n\<close>, the bits above being \<open>a\<close>.\<close>

primrec integer_root :: "nat \<Rightarrow> nat \<Rightarrow> nat \<Rightarrow> nat \<Rightarrow> nat" where
  "integer_root k 0 a n = a"
| "integer_root k (Suc b) a n = integer_root k b (if (a + 2 ^ b) ^ k \<le> n then a + 2 ^ b else a) n"

definition sha_primes :: "nat list" where
  "sha_primes = filter (\<lambda>n. list_all (\<lambda>d. n mod d \<noteq> 0) [2..<n]) [2..<312]"

definition sha_constants :: "32 word list" where
  "sha_constants = map (\<lambda>p. word_of_nat (integer_root 3 35 0 (p * 2 ^ 96))) sha_primes"

definition sha_initial :: "nat \<Rightarrow> 32 word" where
  "sha_initial i = word_of_nat (integer_root 2 35 0 (sha_primes ! i * 2 ^ 64))"

record sha_state =
  sh_a :: "32 word"
  sh_b :: "32 word"
  sh_c :: "32 word"
  sh_d :: "32 word"
  sh_e :: "32 word"
  sh_f :: "32 word"
  sh_g :: "32 word"
  sh_h :: "32 word"

definition sha_start :: sha_state where
  "sha_start =
     \<lparr>sh_a = sha_initial 0, sh_b = sha_initial 1, sh_c = sha_initial 2, sh_d = sha_initial 3,
      sh_e = sha_initial 4, sh_f = sha_initial 5, sh_g = sha_initial 6, sh_h = sha_initial 7\<rparr>"

definition byte_word :: "char \<Rightarrow> 32 word" where
  "byte_word c = word_of_nat (of_char c)"

definition word_bytes :: "32 word \<Rightarrow> string" where
  "word_bytes w = map (\<lambda>i. char_of (unat (drop_bit i w) mod 256)) [24, 16, 8, 0]"

fun words_of_bytes :: "string \<Rightarrow> 32 word list" where
  "words_of_bytes (a # b # c # d # rest) =
     (push_bit 24 (byte_word a) OR push_bit 16 (byte_word b) OR push_bit 8 (byte_word c) OR byte_word d)
     # words_of_bytes rest"
| "words_of_bytes _ = []"

text \<open>The message schedule, the newest word first.\<close>

definition next_schedule_word :: "32 word list \<Rightarrow> 32 word" where
  "next_schedule_word ws =
     (let x = ws ! 14; y = ws ! 1
      in (word_rotr 17 y XOR word_rotr 19 y XOR drop_bit 10 y) + ws ! 6
         + (word_rotr 7 x XOR word_rotr 18 x XOR drop_bit 3 x) + ws ! 15)"

primrec sha_schedule :: "nat \<Rightarrow> 32 word list \<Rightarrow> 32 word list" where
  "sha_schedule 0 ws = ws"
| "sha_schedule (Suc n) ws = sha_schedule n (next_schedule_word ws # ws)"

definition sha_round :: "sha_state \<Rightarrow> 32 word \<times> 32 word \<Rightarrow> sha_state" where
  "sha_round s kw =
     (let a = sh_a s; e = sh_e s;
          t1 = sh_h s + (word_rotr 6 e XOR word_rotr 11 e XOR word_rotr 25 e)
               + ((e AND sh_f s) XOR (NOT e AND sh_g s)) + fst kw + snd kw;
          t2 = (word_rotr 2 a XOR word_rotr 13 a XOR word_rotr 22 a)
               + ((a AND sh_b s) XOR (a AND sh_c s) XOR (sh_b s AND sh_c s))
      in \<lparr>sh_a = t1 + t2, sh_b = a, sh_c = sh_b s, sh_d = sh_c s, sh_e = sh_d s + t1, sh_f = e,
          sh_g = sh_f s, sh_h = sh_g s\<rparr>)"

definition sha_block :: "sha_state \<Rightarrow> string \<Rightarrow> sha_state" where
  "sha_block s block =
     (let ws = rev (sha_schedule 48 (rev (words_of_bytes block)));
          r = foldl sha_round s (zip sha_constants ws)
      in \<lparr>sh_a = sh_a s + sh_a r, sh_b = sh_b s + sh_b r, sh_c = sh_c s + sh_c r, sh_d = sh_d s + sh_d r,
          sh_e = sh_e s + sh_e r, sh_f = sh_f s + sh_f r, sh_g = sh_g s + sh_g r, sh_h = sh_h s + sh_h r\<rparr>)"

definition sha_padded :: "string \<Rightarrow> string" where
  "sha_padded m =
     m @ [char_of (128 :: nat)] @ replicate ((119 - length m mod 64) mod 64) (char_of (0 :: nat))
     @ map (\<lambda>i. char_of (length m * 8 div 256 ^ i mod 256)) [7, 6, 5, 4, 3, 2, 1, 0]"

function sha_blocks :: "sha_state \<Rightarrow> string \<Rightarrow> sha_state" where
  "sha_blocks s m = (if length m < 64 then s else sha_blocks (sha_block s (take 64 m)) (drop 64 m))"
  by auto
termination by (relation "measure (\<lambda>(s, m). length m)") auto

declare sha_blocks.simps [simp del]

definition sha256 :: "string \<Rightarrow> string" where
  "sha256 m =
     (let s = sha_blocks sha_start (sha_padded m)
      in concat (map word_bytes [sh_a s, sh_b s, sh_c s, sh_d s, sh_e s, sh_f s, sh_g s, sh_h s]))"

lemma sha256_length [simp]: "length (sha256 m) = 32"
  by (simp add: sha256_def word_bytes_def Let_def)

subsection \<open>HMAC\<close>

definition xor_byte :: "nat \<Rightarrow> char \<Rightarrow> char" where
  "xor_byte n c = char_of ((n :: nat) XOR of_char c)"

definition hmac_block :: "string \<Rightarrow> string" where
  "hmac_block key =
     (let k = (if 64 < length key then sha256 key else key) in k @ replicate (64 - length k) (char_of (0 :: nat)))"

definition hmac_sha256 :: "string \<Rightarrow> string \<Rightarrow> string" where
  "hmac_sha256 key data =
     sha256 (map (xor_byte 0x5c) (hmac_block key) @ sha256 (map (xor_byte 0x36) (hmac_block key) @ data))"

lemma hmac_length [simp]: "length (hmac_sha256 key data) = 32"
  by (simp add: hmac_sha256_def)

subsection \<open>Hexadecimal text\<close>

definition hex_char :: "nat \<Rightarrow> char" where
  "hex_char n = ''0123456789abcdef'' ! n"

definition hex_text :: "string \<Rightarrow> string" where
  "hex_text bytes = concat (map (\<lambda>c. [hex_char (of_char c div 16), hex_char (of_char c mod 16)]) bytes)"

lemma hex_text_length [simp]: "length (hex_text bytes) = 2 * length bytes"
  by (induction bytes) (simp_all add: hex_text_def)

subsection \<open>Base64\<close>

definition base64_alphabet :: string where
  "base64_alphabet = ''ABCDEFGHIJKLMNOPQRSTUVWXYZabcdefghijklmnopqrstuvwxyz0123456789+/''"

definition base64_char :: "nat \<Rightarrow> char" where
  "base64_char n = base64_alphabet ! n"

definition base64_value :: "char \<Rightarrow> nat option" where
  "base64_value c = map_option fst (find (\<lambda>p. snd p = c) (enumerate 0 base64_alphabet))"

text \<open>The four values of six bits that three bytes make, and the bytes back.\<close>

definition sextet1 :: "char \<Rightarrow> nat" where "sextet1 a = of_char a div 4"
definition sextet2 :: "char \<Rightarrow> char \<Rightarrow> nat" where "sextet2 a b = of_char a mod 4 * 16 + of_char b div 16"
definition sextet3 :: "char \<Rightarrow> char \<Rightarrow> nat" where "sextet3 b c = of_char b mod 16 * 4 + of_char c div 64"
definition sextet4 :: "char \<Rightarrow> nat" where "sextet4 c = of_char c mod 64"

definition octet1 :: "nat \<Rightarrow> nat \<Rightarrow> char" where "octet1 w x = char_of (w * 4 + x div 16)"
definition octet2 :: "nat \<Rightarrow> nat \<Rightarrow> char" where "octet2 x y = char_of (x mod 16 * 16 + y div 4)"
definition octet3 :: "nat \<Rightarrow> nat \<Rightarrow> char" where "octet3 y z = char_of (y mod 4 * 64 + z)"

fun base64_encode :: "string \<Rightarrow> string" where
  "base64_encode [] = []"
| "base64_encode [a] =
     [base64_char (sextet1 a), base64_char (sextet2 a CHR 0x00), CHR ''='', CHR ''='']"
| "base64_encode [a, b] =
     [base64_char (sextet1 a), base64_char (sextet2 a b), base64_char (sextet3 b CHR 0x00), CHR ''='']"
| "base64_encode (a # b # c # rest) =
     [base64_char (sextet1 a), base64_char (sextet2 a b), base64_char (sextet3 b c), base64_char (sextet4 c)]
     @ base64_encode rest"

fun base64_quads :: "string \<Rightarrow> string option" where
  "base64_quads [] = Some []"
| "base64_quads [a, b, c, d] =
     (case (base64_value a, base64_value b, base64_value c, base64_value d) of
        (Some w, Some x, Some y, Some z) \<Rightarrow> Some [octet1 w x, octet2 x y, octet3 y z]
      | (Some w, Some x, Some y, None) \<Rightarrow> if d = CHR ''='' then Some [octet1 w x, octet2 x y] else None
      | (Some w, Some x, None, _) \<Rightarrow> if c = CHR ''='' \<and> d = CHR ''='' then Some [octet1 w x] else None
      | _ \<Rightarrow> None)"
| "base64_quads (a # b # c # d # rest) =
     (case (base64_value a, base64_value b, base64_value c, base64_value d, base64_quads rest) of
        (Some w, Some x, Some y, Some z, Some bytes) \<Rightarrow> Some ([octet1 w x, octet2 x y, octet3 y z] @ bytes)
      | _ \<Rightarrow> None)"
| "base64_quads _ = None"

definition base64_decode :: "string \<Rightarrow> string option" where
  "base64_decode s = base64_quads (filter (\<lambda>c. c \<noteq> CHR 0x0A \<and> c \<noteq> CHR 0x0D) s)"

lemma find_enumerate:
  "distinct xs \<Longrightarrow> n < length xs \<Longrightarrow> find (\<lambda>p. snd p = xs ! n) (enumerate k xs) = Some (k + n, xs ! n)"
proof (induction xs arbitrary: k n)
  case (Cons x xs)
  then show ?case by (cases n) (auto simp: in_set_conv_nth)
qed simp

lemma base64_alphabet_distinct: "distinct base64_alphabet"
  by (simp add: base64_alphabet_def)

lemma base64_value_char [simp]: "n < 64 \<Longrightarrow> base64_value (base64_char n) = Some n"
  unfolding base64_value_def base64_char_def
  by (subst find_enumerate [OF base64_alphabet_distinct]) (simp_all add: base64_alphabet_def)

lemma base64_value_pad [simp]: "base64_value CHR ''='' = None"
  by (simp add: base64_value_def base64_alphabet_def)

lemma base64_chars: "set base64_alphabet \<inter> {CHR 0x0A, CHR 0x0D} = {}"
  by (simp add: base64_alphabet_def)

lemma base64_char_ok: "n < 64 \<Longrightarrow> base64_char n \<noteq> CHR 0x0A \<and> base64_char n \<noteq> CHR 0x0D"
  using base64_chars nth_mem [of n base64_alphabet] unfolding base64_char_def
  by (auto simp: base64_alphabet_def)

lemma byte_bound [simp]: "of_char c < (256 :: nat)"
  using of_char_mod_256 [of c, where ?'a = nat] by linarith

lemma sextet_bounds [simp]: "sextet1 a < 64" "sextet2 a b < 64" "sextet3 b c < 64" "sextet4 c < 64"
proof -
  have "of_char b div 16 < (16 :: nat)" "of_char c div 64 < (4 :: nat)" "of_char a div 4 < (64 :: nat)"
    using byte_bound [of a] byte_bound [of b] byte_bound [of c] by linarith+
  moreover have "of_char a mod 4 < (4 :: nat)" "of_char b mod 16 < (16 :: nat)" "of_char c mod 64 < (64 :: nat)" by simp_all
  ultimately show "sextet1 a < 64" "sextet2 a b < 64" "sextet3 b c < 64" "sextet4 c < 64"
    unfolding sextet1_def sextet2_def sextet3_def sextet4_def by linarith+
qed

lemma octets_of_sextets [simp]:
  "octet1 (sextet1 a) (sextet2 a b) = a" "octet2 (sextet2 a b) (sextet3 b c) = b" "octet3 (sextet3 b c) (sextet4 c) = c"
proof -
  have b: "of_char b div 16 < (16 :: nat)" and c: "of_char c div 64 < (4 :: nat)"
    using byte_bound [of b] byte_bound [of c] by linarith+
  have "of_char a div 4 * 4 + (of_char a mod 4 * 16 + of_char b div 16) div 16 = (of_char a :: nat)"
    using b by simp
  then show "octet1 (sextet1 a) (sextet2 a b) = a"
    unfolding octet1_def sextet1_def sextet2_def by (simp only: char_of_char)
  have "(of_char a mod 4 * 16 + of_char b div 16) mod 16 = (of_char b div 16 :: nat)" using b by simp
  moreover have "(of_char b mod 16 * 4 + of_char c div 64) div 4 = (of_char b mod 16 :: nat)" using c by simp
  ultimately show "octet2 (sextet2 a b) (sextet3 b c) = b"
    unfolding octet2_def sextet2_def sextet3_def by (simp only: div_mult_mod_eq char_of_char)
  have "(of_char b mod 16 * 4 + of_char c div 64) mod 4 = (of_char c div 64 :: nat)" using c by simp
  then show "octet3 (sextet3 b c) (sextet4 c) = c"
    unfolding octet3_def sextet3_def sextet4_def by (simp only: div_mult_mod_eq char_of_char)
qed

lemma base64_encode_Nil [simp]: "base64_encode s = [] \<longleftrightarrow> s = []"
  by (cases s rule: base64_encode.cases) simp_all

lemma base64_quads_append [simp]:
  "r \<noteq> [] \<Longrightarrow> w < 64 \<Longrightarrow> x < 64 \<Longrightarrow> y < 64 \<Longrightarrow> z < 64 \<Longrightarrow>
   base64_quads (base64_char w # base64_char x # base64_char y # base64_char z # r)
   = map_option ((@) [octet1 w x, octet2 x y, octet3 y z]) (base64_quads r)"
  by (cases r) (simp_all split: option.split)

lemma base64_quads_encode [simp]: "base64_quads (base64_encode s) = Some s"
proof (induction s rule: base64_encode.induct)
  case (4 a b c rest)
  then show ?case by (cases "rest = []") simp_all
qed simp_all

lemma base64_encode_lines: "c \<in> set (base64_encode s) \<Longrightarrow> c \<noteq> CHR 0x0A \<and> c \<noteq> CHR 0x0D"
  by (induction s rule: base64_encode.induct) (auto simp: base64_char_ok)

lemma base64_roundtrip [simp]: "base64_decode (base64_encode s) = Some s"
proof -
  have "filter (\<lambda>c. c \<noteq> CHR 0x0A \<and> c \<noteq> CHR 0x0D) (base64_encode s) = base64_encode s"
    by (rule filter_True) (use base64_encode_lines in blast)
  then show ?thesis by (simp add: base64_decode_def)
qed

end
