(* ===== verification/Json_Text.thy ===== *)
theory Json_Text
  imports Utf8_Text Url_Query Usage_Period Digest
begin

text \<open>
  What the webhooks use of \<open>encoding/json\<close> and \<open>time\<close>. A JSON value keeps the members of an object in the order
  of the text, duplicates included, and a number as its literal (\<open>UseNumber\<close>). \<open>show_json\<close> is \<open>json.Marshal\<close>:
  compact, strings escaped for HTML. \<open>token_stream\<close> gives the tokens \<open>Decoder.Token\<close> returns for a value, and
  \<open>rfc3339_nano\<close> formats an instant in UTC. Reading text is an argument, \<open>parse\<close>.
\<close>

datatype json =
    J_null
  | J_bool bool
  | J_number string
  | J_string string
  | J_array "json list"
  | J_object "(string \<times> json) list"

subsection \<open>Writing\<close>

definition unicode_escape :: "nat \<Rightarrow> string" where
  "unicode_escape n =
     CHR 0x5C # CHR ''u'' # map (\<lambda>i. hex_char (n div 16 ^ i mod 16)) [3, 2, 1, 0]"

definition escape_byte :: "char \<Rightarrow> string" where
  "escape_byte c =
     (if c = CHR 0x22 \<or> c = CHR 0x5C then [CHR 0x5C, c]
      else if c = CHR 0x08 then [CHR 0x5C, CHR ''b'']
      else if c = CHR 0x0C then [CHR 0x5C, CHR ''f'']
      else if c = CHR 0x0A then [CHR 0x5C, CHR ''n'']
      else if c = CHR 0x0D then [CHR 0x5C, CHR ''r'']
      else if c = CHR 0x09 then [CHR 0x5C, CHR ''t'']
      else if byte c < (32 :: nat) \<or> c = CHR ''<'' \<or> c = CHR ''>'' \<or> c = CHR ''&'' then unicode_escape (byte c)
      else [c])"

text \<open>An ill-formed byte is written as the replacement character, and the two line separators are escaped.\<close>

definition escape_segment :: "string \<Rightarrow> string" where
  "escape_segment g =
     (if length g = 1 then (if byte (hd g) < (128 :: nat) then escape_byte (hd g) else unicode_escape 0xFFFD)
      else if rune_of g = 0x2028 \<or> rune_of g = 0x2029 then unicode_escape (rune_of g)
      else g)"

definition show_json_string :: "string \<Rightarrow> string" where
  "show_json_string s = CHR 0x22 # concat (map escape_segment (utf8_segments s)) @ [CHR 0x22]"

fun commas :: "string list \<Rightarrow> string" where
  "commas [] = []"
| "commas [s] = s"
| "commas (s # ss) = s @ CHR '','' # commas ss"

fun show_json :: "json \<Rightarrow> string" where
  "show_json J_null = ''null''"
| "show_json (J_bool b) = (if b then ''true'' else ''false'')"
| "show_json (J_number literal) = literal"
| "show_json (J_string s) = show_json_string s"
| "show_json (J_array vs) = CHR ''['' # commas (map show_json vs) @ '']''"
| "show_json (J_object ms) =
     CHR 0x7B # commas (map (\<lambda>(k, v). show_json_string k @ CHR '':'' # show_json v) ms) @ [CHR 0x7D]"

text \<open>A map is written with its keys in order.\<close>

fun sorted_keys :: "json \<Rightarrow> json" where
  "sorted_keys (J_array vs) = J_array (map sorted_keys vs)"
| "sorted_keys (J_object ms) = J_object (sort_key fst (map (\<lambda>(k, v). (k, sorted_keys v)) ms))"
| "sorted_keys v = v"

subsection \<open>Tokens\<close>

datatype json_token = T_brace | T_end_brace | T_bracket | T_end_bracket | T_string string | T_other

fun token_stream :: "json \<Rightarrow> json_token list" where
  "token_stream (J_string s) = [T_string s]"
| "token_stream (J_array vs) = T_bracket # concat (map token_stream vs) @ [T_end_bracket]"
| "token_stream (J_object ms) =
     T_brace # concat (map (\<lambda>(k, v). T_string k # token_stream v) ms) @ [T_end_brace]"
| "token_stream v = [T_other]"

subsection \<open>Instants\<close>

definition padded :: "nat \<Rightarrow> int \<Rightarrow> string" where
  "padded width n = (let s = show_nat (nat n) in replicate (width - length s) CHR ''0'' @ s)"

definition rfc3339_nano :: "instant \<Rightarrow> string" where
  "rfc3339_nano t =
     (let d = t div day_nanos; m = month_of d; s = t mod day_nanos div 1000000000; f = t mod 1000000000
      in padded 4 (1970 + m div 12) @ CHR ''-'' # padded 2 (m mod 12 + 1) @ CHR ''-'' # padded 2 (d - month_start m + 1)
         @ CHR ''T'' # padded 2 (s div 3600) @ CHR '':'' # padded 2 (s div 60 mod 60) @ CHR '':'' # padded 2 (s mod 60)
         @ (if f = 0 then [] else CHR ''.'' # rev (dropWhile (\<lambda>c. c = CHR ''0'') (rev (padded 9 f)))) @ ''Z'')"

end
