(* ===== verification/Webhook_Catalog.thy ===== *)
theory Webhook_Catalog
  imports Json_Text Webhook_Store
begin

text \<open>
  \<open>modules/webhook/catalog.go\<close>: the finite catalog of event types and the normal form of payloads. \<open>parse\<close> is
  the JSON decoder: the value of a text that is exactly one JSON value. The walk over the decoder's tokens that
  refuses duplicate keys carries a number of steps, which the length of the token stream bounds.
\<close>

subsection \<open>Payloads\<close>

definition max_webhook_definitions :: nat where "max_webhook_definitions = 128"
definition max_webhook_payload :: nat where "max_webhook_payload = 65536"

text \<open>\<open>consumeJSONToken\<close>: the tokens left after the value that starts with the token given. \<open>More\<close> is false at
  a closing token and at the end.\<close>

fun consume_token :: "nat \<Rightarrow> json_token \<Rightarrow> json_token list \<Rightarrow> json_token list option"
  and consume_members :: "nat \<Rightarrow> string list \<Rightarrow> json_token list \<Rightarrow> json_token list option"
  and consume_elements :: "nat \<Rightarrow> json_token list \<Rightarrow> json_token list option" where
  "consume_token 0 t ts = None"
| "consume_token (Suc n) t ts =
     (case t of
        T_brace \<Rightarrow> consume_members n [] ts
      | T_bracket \<Rightarrow> consume_elements n ts
      | T_end_brace \<Rightarrow> None
      | T_end_bracket \<Rightarrow> None
      | _ \<Rightarrow> Some ts)"
| "consume_members 0 seen ts = None"
| "consume_members (Suc n) seen ts =
     (case ts of
        [] \<Rightarrow> None
      | T_end_brace # rest \<Rightarrow> Some rest
      | T_end_bracket # rest \<Rightarrow> None
      | T_string key # rest \<Rightarrow>
          if key \<in> set seen then None
          else (case rest of
                  [] \<Rightarrow> None
                | t # rest1 \<Rightarrow>
                    (case consume_token n t rest1 of
                       None \<Rightarrow> None
                     | Some rest2 \<Rightarrow> consume_members n (key # seen) rest2))
      | _ \<Rightarrow> None)"
| "consume_elements 0 ts = None"
| "consume_elements (Suc n) ts =
     (case ts of
        [] \<Rightarrow> None
      | T_end_bracket # rest \<Rightarrow> Some rest
      | T_end_brace # rest \<Rightarrow> None
      | t # rest \<Rightarrow>
          (case consume_token n t rest of
             None \<Rightarrow> None
           | Some rest1 \<Rightarrow> consume_elements n rest1))"

definition reject_duplicate_keys :: "json_token list \<Rightarrow> json_token list option" where
  "reject_duplicate_keys ts = (case ts of [] \<Rightarrow> None | t # rest \<Rightarrow> consume_token (length ts) t rest)"

definition canonical_json_object :: "(string \<Rightarrow> json option) \<Rightarrow> string \<Rightarrow> string option" where
  "canonical_json_object parse raw =
     (if length raw < 2 \<or> max_webhook_payload < length raw then None
      else case parse raw of
        None \<Rightarrow> None
      | Some v \<Rightarrow>
          if reject_duplicate_keys (token_stream v) \<noteq> Some [] then None
          else (case v of
                  J_object ms \<Rightarrow>
                    let encoded = show_json (sorted_keys v)
                    in if max_webhook_payload < length encoded then None else Some encoded
                | _ \<Rightarrow> None))"

subsection \<open>The payload of the test event\<close>

definition parse_uint :: "string \<Rightarrow> nat option" where
  "parse_uint s = (case read_nat s of Some n \<Rightarrow> if n < 2 ^ 64 then Some n else None | None \<Rightarrow> None)"

text \<open>A member is matched to a field without regard to case; \<open>null\<close> leaves a field as it is.\<close>

fun decode_test_payload :: "(string \<times> json) list \<Rightarrow> nat \<times> nat \<Rightarrow> (nat \<times> nat) option" where
  "decode_test_payload [] ids = Some ids"
| "decode_test_payload ((k, v) # ms) (organization, endpoint) =
     (if go_lower k = ''organization_id''
      then (case v of
              J_null \<Rightarrow> decode_test_payload ms (organization, endpoint)
            | J_number l \<Rightarrow>
                (case parse_uint l of Some n \<Rightarrow> decode_test_payload ms (n, endpoint) | None \<Rightarrow> None)
            | _ \<Rightarrow> None)
      else if go_lower k = ''endpoint_id''
      then (case v of
              J_null \<Rightarrow> decode_test_payload ms (organization, endpoint)
            | J_number l \<Rightarrow>
                (case parse_uint l of Some n \<Rightarrow> decode_test_payload ms (organization, n) | None \<Rightarrow> None)
            | _ \<Rightarrow> None)
      else None)"

definition validate_test_payload :: "(string \<Rightarrow> json option) \<Rightarrow> string \<Rightarrow> bool" where
  "validate_test_payload parse raw \<longleftrightarrow>
     (case parse raw of
        Some (J_object ms) \<Rightarrow>
          (case decode_test_payload ms (0, 0) of
             Some (organization, endpoint) \<Rightarrow> organization \<noteq> 0 \<and> endpoint \<noteq> 0
           | None \<Rightarrow> False)
      | _ \<Rightarrow> False)"

subsection \<open>The catalog\<close>

text \<open>A definition may lack its validator; the constructor refuses it.\<close>

record wh_definition =
  wt_type :: string
  wt_validate :: "(string \<Rightarrow> bool) option"

record wh_catalog =
  wg_ordered :: "wh_definition list"
  wg_byType :: "string \<Rightarrow> wh_definition option"

fun add_wh_definitions :: "wh_definition list \<Rightarrow> wh_catalog \<Rightarrow> string + wh_catalog" where
  "add_wh_definitions [] cat = Inr cat"
| "add_wh_definitions (d # ds) cat =
     (if \<not> valid_webhook_event_type (wt_type d) \<or> wt_validate d = None then Inl ''webhook event definition is invalid''
      else if wg_byType cat (wt_type d) \<noteq> None then Inl ''duplicate webhook event definition''
      else add_wh_definitions ds
             (cat\<lparr>wg_byType := (wg_byType cat)(wt_type d \<mapsto> d), wg_ordered := wg_ordered cat @ [d]\<rparr>))"

definition new_wh_catalog :: "wh_definition list \<Rightarrow> string + wh_catalog" where
  "new_wh_catalog ds =
     (if ds = [] then Inl ''at least one webhook event definition is required''
      else if max_webhook_definitions < length ds then Inl ''webhook catalog exceeds 128 definitions''
      else case add_wh_definitions ds \<lparr>wg_ordered = [], wg_byType = Map.empty\<rparr> of
        Inl e \<Rightarrow> Inl e
      | Inr cat \<Rightarrow> Inr (cat\<lparr>wg_ordered := sort_key wt_type (wg_ordered cat)\<rparr>))"

definition default_wh_catalog :: "(string \<Rightarrow> json option) \<Rightarrow> string + wh_catalog" where
  "default_wh_catalog parse =
     new_wh_catalog [\<lparr>wt_type = ''webhook.test'', wt_validate = Some (validate_test_payload parse)\<rparr>]"

definition wh_catalog_types :: "wh_catalog option \<Rightarrow> string list" where
  "wh_catalog_types c = (case c of None \<Rightarrow> [] | Some cat \<Rightarrow> map wt_type (wg_ordered cat))"

definition wh_catalog_contains :: "wh_catalog option \<Rightarrow> string \<Rightarrow> bool" where
  "wh_catalog_contains c t \<longleftrightarrow> (case c of None \<Rightarrow> False | Some cat \<Rightarrow> wg_byType cat t \<noteq> None)"

definition normalize_payload ::
    "(string \<Rightarrow> json option) \<Rightarrow> wh_catalog option \<Rightarrow> string \<Rightarrow> string \<Rightarrow> webhook_error + string" where
  "normalize_payload parse c t raw =
     (case c of
        None \<Rightarrow> Inl ErrWebhookInvalidEventType
      | Some cat \<Rightarrow>
          (case wg_byType cat t of
             None \<Rightarrow> Inl ErrWebhookInvalidEventType
           | Some d \<Rightarrow>
               (case canonical_json_object parse raw of
                  None \<Rightarrow> Inl (WebhookFailure ''invalid webhook payload'')
                | Some canonical \<Rightarrow>
                    if (case wt_validate d of Some f \<Rightarrow> f canonical | None \<Rightarrow> False) then Inr canonical
                    else Inl (WebhookFailure ''invalid webhook payload''))))"

subsection \<open>Duplicate keys\<close>

text \<open>The reference: no object anywhere in the value names a member twice.\<close>

fun unambiguous :: "json \<Rightarrow> bool" where
  "unambiguous (J_array vs) \<longleftrightarrow> list_all unambiguous vs"
| "unambiguous (J_object ms) \<longleftrightarrow> distinct (map fst ms) \<and> list_all (\<lambda>(k, v). unambiguous v) ms"
| "unambiguous v \<longleftrightarrow> True"

lemma token_stream_start:
  obtains t ts where "token_stream v = t # ts" "t \<noteq> T_end_brace" "t \<noteq> T_end_bracket"
  by (cases v) auto

lemma consume_stream:
  assumes "length (token_stream v) \<le> n"
  shows "consume_token n (hd (token_stream v)) (tl (token_stream v) @ rest) = (if unambiguous v then Some rest else None)"
  using assms
proof (induction v arbitrary: n rest)
  case (J_array vs)
  have "consume_elements m (concat (map token_stream us) @ T_end_bracket # rest)
      = (if list_all unambiguous us then Some rest else None)"
    if "set us \<subseteq> set vs" "length (concat (map token_stream us)) < m" for us m
    using that
  proof (induction us arbitrary: m)
    case Nil
    then show ?case by (cases m) simp_all
  next
    case (Cons u us)
    obtain t ts where t: "token_stream u = t # ts" "t \<noteq> T_end_brace" "t \<noteq> T_end_bracket" by (rule token_stream_start)
    from Cons.prems(2) obtain k where k: "m = Suc k" by (cases m) simp_all
    have "length (token_stream u) \<le> k" using Cons.prems(2) k by simp
    from J_array.IH [OF _ this, of "concat (map token_stream us) @ T_end_bracket # rest"] Cons.prems(1)
    have "consume_token k t (ts @ concat (map token_stream us) @ T_end_bracket # rest)
        = (if unambiguous u then Some (concat (map token_stream us) @ T_end_bracket # rest) else None)"
      by (simp add: t(1))
    with t(2,3) Cons.IH [of k] Cons.prems k t(1) show ?case
      by (cases t) (simp_all add: t(1))
  qed
  from this [of vs] J_array.prems show ?case by (cases n) simp_all
next
  case (J_object ms)
  let ?member = "\<lambda>(k, v). T_string k # token_stream v"
  have "consume_members m seen (concat (map ?member us) @ T_end_brace # rest)
      = (if distinct (map fst us) \<and> set (map fst us) \<inter> set seen = {} \<and> list_all (\<lambda>(k, v). unambiguous v) us
         then Some rest else None)"
    if "set us \<subseteq> set ms" "length (concat (map ?member us)) < m" for us m seen
    using that
  proof (induction us arbitrary: m seen)
    case Nil
    then show ?case by (cases m) simp_all
  next
    case (Cons u us)
    obtain key v where u: "u = (key, v)" by (cases u)
    obtain t ts where t: "token_stream v = t # ts" by (rule token_stream_start)
    from Cons.prems(2) obtain k where k: "m = Suc k" by (cases m) simp_all
    have "length (token_stream v) \<le> k" using Cons.prems(2) k u by simp
    from J_object.IH [OF _ _ this, of u "concat (map ?member us) @ T_end_brace # rest"] Cons.prems(1) u
    have step: "consume_token k t (ts @ concat (map ?member us) @ T_end_brace # rest)
        = (if unambiguous v then Some (concat (map ?member us) @ T_end_brace # rest) else None)"
      by (simp add: t(1))
    have "set us \<subseteq> set ms" "length (concat (map ?member us)) < k" using Cons.prems k u by simp_all
    from Cons.IH [OF this, of "key # seen"] show ?case
      by (simp add: u k t step)
  qed
  from this [of ms _ "[]"] J_object.prems show ?case by (cases n) simp_all
qed (case_tac n; simp)+

lemma reject_duplicate_keys_stream:
  "reject_duplicate_keys (token_stream v) = (if unambiguous v then Some [] else None)"
proof -
  obtain t ts where t: "token_stream v = t # ts" by (rule token_stream_start)
  from consume_stream [of v "length (token_stream v)" "[]"] show ?thesis
    by (simp add: reject_duplicate_keys_def t)
qed

end
