(* ===== verification/Crypto.thy ===== *)
theory Crypto
  imports Digest
begin

text \<open>
  \<open>capabilities/crypto/crypto.go\<close>: the encryptor, digests and random keys. AES-GCM and bcrypt are arguments:
  \<open>seal key nonce text\<close> and \<open>unseal key nonce box\<close> are \<open>Seal\<close> and \<open>Open\<close> of the cipher for a key, \<open>random n\<close>
  what \<open>rand.Reader\<close> gives for \<open>n\<close> bytes (\<open>None\<close> when it fails). What the code relies on is \<open>aead_opens\<close>.
\<close>

datatype crypto_error = ErrInvalidKey | ErrInvalidCiphertext | ErrDecryptionFailed | ErrRandom | ErrBase64 | ErrNoDefaultKey

subsection \<open>The encryptor\<close>

record aes_encryptor =
  ae_key :: string

definition new_aes_encryptor :: "string \<Rightarrow> crypto_error + aes_encryptor" where
  "new_aes_encryptor key =
     (if length key \<noteq> 16 \<and> length key \<noteq> 24 \<and> length key \<noteq> 32 then Inl ErrInvalidKey else Inr \<lparr>ae_key = key\<rparr>)"

definition aes_encryptor_from_string :: "string \<Rightarrow> aes_encryptor" where
  "aes_encryptor_from_string key = \<lparr>ae_key = sha256 key\<rparr>"

text \<open>The cipher of a key of the wrong length fails; a GCM nonce has 12 bytes.\<close>

definition aes_key_ok :: "string \<Rightarrow> bool" where
  "aes_key_ok key \<longleftrightarrow> length key \<in> {16, 24, 32}"

definition gcm_nonce :: nat where
  "gcm_nonce = 12"

definition aes_encrypt ::
    "(string \<Rightarrow> string \<Rightarrow> string \<Rightarrow> string) \<Rightarrow> (nat \<Rightarrow> string option) \<Rightarrow> aes_encryptor \<Rightarrow> string \<Rightarrow> crypto_error + string" where
  "aes_encrypt seal random e text =
     (if \<not> aes_key_ok (ae_key e) then Inl ErrInvalidKey
      else case random gcm_nonce of
        None \<Rightarrow> Inl ErrRandom
      | Some nonce \<Rightarrow> Inr (nonce @ seal (ae_key e) nonce text))"

definition aes_decrypt ::
    "(string \<Rightarrow> string \<Rightarrow> string \<Rightarrow> string option) \<Rightarrow> aes_encryptor \<Rightarrow> string \<Rightarrow> crypto_error + string" where
  "aes_decrypt unseal e box =
     (if \<not> aes_key_ok (ae_key e) then Inl ErrInvalidKey
      else if length box < gcm_nonce then Inl ErrInvalidCiphertext
      else case unseal (ae_key e) (take gcm_nonce box) (drop gcm_nonce box) of
        None \<Rightarrow> Inl ErrDecryptionFailed
      | Some text \<Rightarrow> Inr text)"

definition encrypt_string ::
    "(string \<Rightarrow> string \<Rightarrow> string \<Rightarrow> string) \<Rightarrow> (nat \<Rightarrow> string option) \<Rightarrow> aes_encryptor \<Rightarrow> string \<Rightarrow> crypto_error + string" where
  "encrypt_string seal random e text =
     (case aes_encrypt seal random e text of Inl err \<Rightarrow> Inl err | Inr box \<Rightarrow> Inr (base64_encode box))"

definition decrypt_string ::
    "(string \<Rightarrow> string \<Rightarrow> string \<Rightarrow> string option) \<Rightarrow> aes_encryptor \<Rightarrow> string \<Rightarrow> crypto_error + string" where
  "decrypt_string unseal e text =
     (case base64_decode text of None \<Rightarrow> Inl ErrBase64 | Some box \<Rightarrow> aes_decrypt unseal e box)"

text \<open>The package's default encryptor, \<open>None\<close> until \<open>SetDefaultKey\<close>.\<close>

definition set_default_key :: "string \<Rightarrow> aes_encryptor option" where
  "set_default_key key = Some (aes_encryptor_from_string key)"

definition default_encrypt ::
    "(string \<Rightarrow> string \<Rightarrow> string \<Rightarrow> string) \<Rightarrow> (nat \<Rightarrow> string option) \<Rightarrow> aes_encryptor option \<Rightarrow> string \<Rightarrow> crypto_error + string" where
  "default_encrypt seal random enc text =
     (case enc of None \<Rightarrow> Inl ErrNoDefaultKey | Some e \<Rightarrow> encrypt_string seal random e text)"

definition default_decrypt ::
    "(string \<Rightarrow> string \<Rightarrow> string \<Rightarrow> string option) \<Rightarrow> aes_encryptor option \<Rightarrow> string \<Rightarrow> crypto_error + string" where
  "default_decrypt unseal enc text =
     (case enc of None \<Rightarrow> Inl ErrNoDefaultKey | Some e \<Rightarrow> decrypt_string unseal e text)"

subsection \<open>Digests and keys\<close>

definition sha256_hash :: "string \<Rightarrow> string" where
  "sha256_hash bytes = sha256 bytes"

definition sha256_hex :: "string \<Rightarrow> string" where
  "sha256_hex text = hex_text (sha256 text)"

definition hmac_sha256_of :: "string \<Rightarrow> string \<Rightarrow> string" where
  "hmac_sha256_of bytes key = hmac_sha256 key bytes"

definition hmac_sha256_hex :: "string \<Rightarrow> string \<Rightarrow> string" where
  "hmac_sha256_hex text key = hex_text (hmac_sha256_of text key)"

definition verify_hmac :: "string \<Rightarrow> string \<Rightarrow> string \<Rightarrow> bool" where
  "verify_hmac bytes signature key \<longleftrightarrow> hmac_sha256_of bytes key = signature"

definition generate_key :: "(nat \<Rightarrow> string option) \<Rightarrow> nat \<Rightarrow> crypto_error + string" where
  "generate_key random n = (case random n of None \<Rightarrow> Inl ErrRandom | Some key \<Rightarrow> Inr key)"

definition generate_key_hex :: "(nat \<Rightarrow> string option) \<Rightarrow> nat \<Rightarrow> crypto_error + string" where
  "generate_key_hex random n = (case generate_key random n of Inl e \<Rightarrow> Inl e | Inr key \<Rightarrow> Inr (hex_text key))"

definition constant_time_compare :: "string \<Rightarrow> string \<Rightarrow> bool" where
  "constant_time_compare a b \<longleftrightarrow> a = b"

subsection \<open>Passwords\<close>

text \<open>\<open>bcrypt cost password\<close> is \<open>GenerateFromPassword\<close>, \<open>matches\<close> is \<open>CompareHashAndPassword\<close>.\<close>

definition bcrypt_min_cost :: int where "bcrypt_min_cost = 4"
definition bcrypt_max_cost :: int where "bcrypt_max_cost = 31"
definition bcrypt_default_cost :: int where "bcrypt_default_cost = 10"

definition hash_password_with_cost :: "(int \<Rightarrow> string \<Rightarrow> 'e + string) \<Rightarrow> string \<Rightarrow> int \<Rightarrow> 'e + string" where
  "hash_password_with_cost bcrypt password cost =
     bcrypt (if cost < bcrypt_min_cost \<or> bcrypt_max_cost < cost then bcrypt_default_cost else cost) password"

definition hash_password :: "(int \<Rightarrow> string \<Rightarrow> 'e + string) \<Rightarrow> string \<Rightarrow> 'e + string" where
  "hash_password bcrypt password = bcrypt bcrypt_default_cost password"

definition verify_password :: "(string \<Rightarrow> string \<Rightarrow> bool) \<Rightarrow> string \<Rightarrow> string \<Rightarrow> bool" where
  "verify_password matches password hash \<longleftrightarrow> matches hash password"

subsection \<open>Round trips\<close>

text \<open>Opening what was sealed under the same key and nonce gives the text; reading \<open>n\<close> random bytes gives \<open>n\<close>.\<close>

definition aead_opens :: "(string \<Rightarrow> string \<Rightarrow> string \<Rightarrow> string) \<Rightarrow> (string \<Rightarrow> string \<Rightarrow> string \<Rightarrow> string option) \<Rightarrow> bool" where
  "aead_opens seal unseal \<longleftrightarrow> (\<forall>key nonce text. unseal key nonce (seal key nonce text) = Some text)"

definition reads_fully :: "(nat \<Rightarrow> string option) \<Rightarrow> bool" where
  "reads_fully random \<longleftrightarrow> (\<forall>n bytes. random n = Some bytes \<longrightarrow> length bytes = n)"

lemma decrypt_encrypt:
  assumes "aead_opens seal unseal" "reads_fully random" "encrypt_string seal random e text = Inr box"
  shows "decrypt_string unseal e box = Inr text"
proof -
  from assms(3) obtain nonce where n: "aes_key_ok (ae_key e)" "random gcm_nonce = Some nonce"
      "box = base64_encode (nonce @ seal (ae_key e) nonce text)"
    by (auto simp: encrypt_string_def aes_encrypt_def split: sum.splits if_splits option.splits)
  with assms(2) have "length nonce = gcm_nonce" by (simp add: reads_fully_def)
  with n assms(1) show ?thesis by (simp add: decrypt_string_def aes_decrypt_def aead_opens_def)
qed

lemma string_key_ok [simp]: "aes_key_ok (ae_key (aes_encryptor_from_string key))"
  by (simp add: aes_key_ok_def aes_encryptor_from_string_def)

lemma encrypt_string_total:
  "random gcm_nonce = Some nonce \<Longrightarrow>
   encrypt_string seal random (aes_encryptor_from_string key) text
   = Inr (base64_encode (nonce @ seal (sha256 key) nonce text))"
  by (simp add: encrypt_string_def aes_encrypt_def, simp add: aes_encryptor_from_string_def)

lemma sha256_hex_length [simp]: "length (sha256_hex text) = 64"
  by (simp add: sha256_hex_def)

end
