(* ===== verification/Webhook_Sender.thy ===== *)
theory Webhook_Sender
  imports Webhook_Catalog Crypto
begin

text \<open>
  \<open>modules/webhook/secret.go\<close> and \<open>sender.go\<close>: signing secrets and the signed request. \<open>random k n\<close> is the \<open>k\<close>-th
  reading of \<open>n\<close> random bytes, \<open>seal\<close> and \<open>unseal\<close> are the cipher of \<open>Crypto\<close>, \<open>compact\<close> is the compaction of a raw
  message by \<open>json.Marshal\<close>, and \<open>exchange\<close> is what the HTTP client makes of a request.
\<close>

subsection \<open>Secrets\<close>

definition webhook_secret_prefix :: string where
  "webhook_secret_prefix = ''whsec_''"

record secret_material =
  sm_plaintext :: string
  sm_ciphertext :: string
  sm_hint :: string

text \<open>The protector holds no encryptor when the starter is off and no key is set. \<open>cfg\<close> is the selection of the
  starter and the configured key, \<open>None\<close> for no configuration.\<close>

type_synonym secret_protector = "aes_encryptor option"

definition new_secret_protector :: "(bool \<times> string) option \<Rightarrow> webhook_error + secret_protector" where
  "new_secret_protector cfg =
     (case cfg of
        None \<Rightarrow> Inr None
      | Some (selected, key) \<Rightarrow>
          if \<not> selected \<and> trim_space key = '''' then Inr None
          else if length (trim_space key) < 32 then Inl ErrWebhookUnavailable
          else Inr (Some (aes_encryptor_from_string key)))"

definition generate_secret ::
    "(string \<Rightarrow> string \<Rightarrow> string \<Rightarrow> string) \<Rightarrow> (nat \<Rightarrow> nat \<Rightarrow> string option) \<Rightarrow> secret_protector
     \<Rightarrow> webhook_error + secret_material" where
  "generate_secret seal random p =
     (case p of
        None \<Rightarrow> Inl ErrWebhookUnavailable
      | Some e \<Rightarrow>
          (case generate_key (random 0) 32 of
             Inl _ \<Rightarrow> Inl (WebhookFailure ''generate webhook secret'')
           | Inr key \<Rightarrow>
               let plaintext = webhook_secret_prefix @ base64_encode key
               in (case encrypt_string seal (random 1) e plaintext of
                     Inl _ \<Rightarrow> Inl (WebhookFailure ''encrypt webhook secret'')
                   | Inr ciphertext \<Rightarrow>
                       Inr \<lparr>sm_plaintext = plaintext, sm_ciphertext = ciphertext,
                            sm_hint = drop (length plaintext - 8) plaintext\<rparr>)))"

definition decrypt_secret ::
    "(string \<Rightarrow> string \<Rightarrow> string \<Rightarrow> string option) \<Rightarrow> secret_protector \<Rightarrow> string \<Rightarrow> webhook_error + string" where
  "decrypt_secret unseal p ciphertext =
     (case p of
        None \<Rightarrow> Inl ErrWebhookUnavailable
      | Some e \<Rightarrow>
          if ciphertext = '''' then Inl ErrWebhookUnavailable
          else (case decrypt_string unseal e ciphertext of
                  Inl _ \<Rightarrow> Inl ErrWebhookUnavailable
                | Inr plaintext \<Rightarrow>
                    if take (length webhook_secret_prefix) plaintext \<noteq> webhook_secret_prefix then Inl ErrWebhookUnavailable
                    else (case base64_decode (drop (length webhook_secret_prefix) plaintext) of
                            None \<Rightarrow> Inl ErrWebhookUnavailable
                          | Some key \<Rightarrow> if length key \<noteq> 32 then Inl ErrWebhookUnavailable else Inr key)))"

subsection \<open>The message\<close>

record outbound_webhook =
  ob_url :: string
  ob_messageID :: string
  ob_type :: string
  ob_occurredAt :: instant
  ob_payload :: string
  ob_current :: string
  ob_previous :: string
  ob_previousExpires :: "instant option"

definition encode_webhook_body :: "(string \<Rightarrow> string option) \<Rightarrow> outbound_webhook \<Rightarrow> string option" where
  "encode_webhook_body compact ob =
     (if ob_messageID ob = '''' \<or> \<not> valid_webhook_event_type (ob_type ob) \<or> ob_occurredAt ob = zero_time
        \<or> length (ob_payload ob) < 2 \<or> length (ob_current ob) \<noteq> 32 then None
      else map_option (\<lambda>raw.
        [CHR 0x7B] @ commas
          [show_json_string ''id'' @ CHR '':'' # show_json_string (ob_messageID ob),
           show_json_string ''type'' @ CHR '':'' # show_json_string (ob_type ob),
           show_json_string ''timestamp'' @ CHR '':'' # show_json_string (rfc3339_nano (ob_occurredAt ob)),
           show_json_string ''data'' @ CHR '':'' # raw] @ [CHR 0x7D]) (compact (ob_payload ob)))"

definition signed_text :: "string \<Rightarrow> string \<Rightarrow> string \<Rightarrow> string" where
  "signed_text messageID timestamp body = messageID @ CHR ''.'' # timestamp @ CHR ''.'' # body"

definition signature_value :: "string \<Rightarrow> string \<Rightarrow> string" where
  "signature_value text key = ''v1,'' @ base64_encode (hmac_sha256_of text key)"

definition webhook_signatures :: "outbound_webhook \<Rightarrow> string \<Rightarrow> string \<Rightarrow> instant \<Rightarrow> webhook_error + string" where
  "webhook_signatures ob timestamp body now =
     (if length (ob_current ob) \<noteq> 32 then Inl ErrWebhookUnavailable
      else (let text = signed_text (ob_messageID ob) timestamp body;
                current = signature_value text (ob_current ob)
            in Inr (if length (ob_previous ob) = 32
                       \<and> (case ob_previousExpires ob of None \<Rightarrow> False | Some t \<Rightarrow> now < t)
                    then current @ CHR '' '' # signature_value text (ob_previous ob)
                    else current)))"

subsection \<open>Sending\<close>

record wh_sender =
  sn_timeout :: duration
  sn_maxResponse :: int

record send_result =
  sr_http :: "int option"
  sr_failure :: string
  sr_retryable :: bool
  sr_truncated :: bool
  sr_duration :: duration

definition no_result :: send_result where
  "no_result = \<lparr>sr_http = None, sr_failure = '''', sr_retryable = False, sr_truncated = False, sr_duration = 0\<rparr>"

text \<open>What \<open>errors.Is\<close> and \<open>errors.As\<close> say of an error of the transport.\<close>

record net_error =
  ne_redirect :: bool
  ne_target :: bool
  ne_deadline :: bool
  ne_dns :: bool
  ne_urlTimeout :: bool

definition classify_network_error :: "net_error \<Rightarrow> string \<times> bool" where
  "classify_network_error e =
     (if ne_redirect e then (''WEBHOOK.REDIRECT_BLOCKED'', False)
      else if ne_target e then (''WEBHOOK.INVALID_TARGET'', False)
      else if ne_deadline e then (''WEBHOOK.TIMEOUT'', True)
      else if ne_dns e then (''WEBHOOK.DNS_FAILURE'', True)
      else if ne_urlTimeout e then (''WEBHOOK.TIMEOUT'', True)
      else (''WEBHOOK.NETWORK_FAILURE'', True))"

definition webhook_http_failure_code :: "int \<Rightarrow> string" where
  "webhook_http_failure_code status = ''WEBHOOK.HTTP_'' @ strconv_itoa status"

definition webhook_elapsed :: "instant \<Rightarrow> instant \<Rightarrow> duration" where
  "webhook_elapsed completed started = (if completed - started < 0 then 0 else completed - started)"

record http_request =
  hr_url :: string
  hr_headers :: "(string \<times> string) list"
  hr_body :: string

text \<open>What comes of a request: it cannot be made, no response (with the context's error, if it ended), or a status,
  the bytes read of the body, at most one more than allowed, and the error of reading it.\<close>

datatype http_outcome =
    Bad_request webhook_error
  | No_response "webhook_error option" net_error
  | Response int int "net_error option"

definition send_outcome :: "wh_sender \<Rightarrow> duration \<Rightarrow> http_outcome \<Rightarrow> webhook_error + send_result" where
  "send_outcome s elapsed out =
     (case out of
        Bad_request e \<Rightarrow> Inl e
      | No_response (Some e) _ \<Rightarrow> Inl e
      | No_response None e \<Rightarrow>
          (let (code, retry) = classify_network_error e
           in Inr (no_result\<lparr>sr_duration := elapsed, sr_failure := code, sr_retryable := retry\<rparr>))
      | Response status read err \<Rightarrow>
          (let res = no_result\<lparr>sr_http := Some status, sr_duration := elapsed, sr_truncated := sn_maxResponse s < read\<rparr>
           in (case err of
                 Some e \<Rightarrow>
                   (let (code, retry) = classify_network_error e in Inr (res\<lparr>sr_failure := code, sr_retryable := retry\<rparr>))
               | None \<Rightarrow>
                   if 200 \<le> status \<and> status < 300 then Inr res
                   else if status = 408 \<or> status = 425 \<or> status = 429 \<or> 500 \<le> status
                   then Inr (res\<lparr>sr_failure := webhook_http_failure_code status, sr_retryable := True\<rparr>)
                   else Inr (res\<lparr>sr_failure := webhook_http_failure_code status\<rparr>))))"

definition webhook_headers :: "string \<Rightarrow> string \<Rightarrow> string \<Rightarrow> (string \<times> string) list" where
  "webhook_headers messageID timestamp signature =
     [(''Content-Type'', ''application/json''), (''User-Agent'', ''FastBuild-Webhooks/1.0''),
      (''webhook-id'', messageID), (''webhook-timestamp'', timestamp), (''webhook-signature'', signature)]"

text \<open>\<open>Send\<close>; \<open>started\<close> and \<open>finished\<close> are its readings of the clock.\<close>

definition send_webhook ::
    "(string \<Rightarrow> parsed_url option) \<Rightarrow> (parsed_url \<Rightarrow> string) \<Rightarrow> (string \<Rightarrow> string option) \<Rightarrow> target_policy \<Rightarrow> wh_sender
     \<Rightarrow> instant \<Rightarrow> instant \<Rightarrow> (http_request \<Rightarrow> http_outcome) \<Rightarrow> outbound_webhook \<Rightarrow> webhook_error + send_result" where
  "send_webhook url_parse show_url compact policy s started finished exchange ob =
     (if sn_timeout s \<le> 0 \<or> sn_maxResponse s \<le> 0 then Inl ErrWebhookUnavailable
      else case normalize_syntax url_parse show_url policy (ob_url ob) of
        Inl _ \<Rightarrow> Inr (no_result\<lparr>sr_failure := ''WEBHOOK.INVALID_TARGET''\<rparr>)
      | Inr (_, url) \<Rightarrow>
          (case encode_webhook_body compact ob of
             None \<Rightarrow> Inr (no_result\<lparr>sr_failure := ''WEBHOOK.INVALID_MESSAGE''\<rparr>)
           | Some body \<Rightarrow>
               let timestamp = strconv_itoa (started div 1000000000)
               in (case webhook_signatures ob timestamp body started of
                     Inl e \<Rightarrow> Inl e
                   | Inr signature \<Rightarrow>
                       send_outcome s (webhook_elapsed finished started)
                         (exchange \<lparr>hr_url = show_url url, hr_headers = webhook_headers (ob_messageID ob) timestamp signature,
                                    hr_body = body\<rparr>))))"

subsection \<open>Facts\<close>

text \<open>A secret made by \<open>Generate\<close> decrypts to its key.\<close>

lemma generated_secret:
  assumes "aead_opens seal unseal" and "\<And>k. reads_fully (random k)" and "generate_secret seal random p = Inr m"
  obtains key where "sm_plaintext m = webhook_secret_prefix @ base64_encode key" "length key = 32"
    "decrypt_secret unseal p (sm_ciphertext m) = Inr key"
proof -
  from assms(3) obtain e key c where p: "p = Some e" and key: "generate_key (random 0) 32 = Inr key"
    and c: "encrypt_string seal (random 1) e (webhook_secret_prefix @ base64_encode key) = Inr c"
    and m: "sm_plaintext m = webhook_secret_prefix @ base64_encode key" "sm_ciphertext m = c"
    by (auto simp: generate_secret_def Let_def split: option.splits sum.splits)
  from key assms(2) have len: "length key = 32"
    by (auto simp: generate_key_def reads_fully_def split: option.splits)
  note d = decrypt_encrypt [OF assms(1,2) c]
  have "random 1 gcm_nonce \<noteq> Some []"
    using assms(2) [of 1] by (force simp: reads_fully_def gcm_nonce_def)
  with c have "c \<noteq> ''''"
    by (auto simp: encrypt_string_def aes_encrypt_def split: sum.splits if_splits option.splits)
  with d len have "decrypt_secret unseal p (sm_ciphertext m) = Inr key"
    by (simp add: decrypt_secret_def p m(2))
  with m(1) len show thesis by (rule that)
qed

text \<open>A result without failure code is a 2xx response read to its end.\<close>

lemma send_outcome_success:
  assumes "send_outcome s d out = Inr r" "sr_failure r = ''''"
  obtains status read where "out = Response status read None" "200 \<le> status" "status < 300" "sr_http r = Some status"
  using assms
  by (auto simp: send_outcome_def classify_network_error_def no_result_def webhook_http_failure_code_def Let_def
      split: http_outcome.splits option.splits if_splits)

end
