(* ===== verification/Webhook_Service.thy ===== *)
theory Webhook_Service
  imports Webhook_Sender
begin

text \<open>
  \<open>modules/webhook/service.go\<close>: the service over the outbox. \<open>wh_lib\<close> collects the code outside the repository
  that it calls (JSON and URL parsing, the resolver, the cipher). Each operation takes the clock reading it uses;
  a mutation that succeeds also returns the audit change it records.
\<close>

record wh_lib =
  li_parse :: "string \<Rightarrow> json option"
  li_compact :: "string \<Rightarrow> string option"
  li_urlParse :: "string \<Rightarrow> parsed_url option"
  li_showUrl :: "parsed_url \<Rightarrow> string"
  li_addrOf :: "string \<Rightarrow> ip_addr option"
  li_lookup :: "string \<Rightarrow> string + 8 word list list"
  li_seal :: "string \<Rightarrow> string \<Rightarrow> string \<Rightarrow> string"
  li_unseal :: "string \<Rightarrow> string \<Rightarrow> string \<Rightarrow> string option"

record wh_service =
  ws_catalog :: "wh_catalog option"
  ws_secrets :: secret_protector
  ws_targets :: target_policy
  ws_sender :: wh_sender
  ws_enabled :: bool
  ws_overlap :: duration
  ws_retention :: duration

definition hours :: "int \<Rightarrow> duration" where
  "hours n = minutes (60 * n)"

definition webhook_max_event_age :: duration where "webhook_max_event_age = hours (30 * 24)"
definition webhook_max_future_skew :: duration where "webhook_max_future_skew = hours 24"
definition webhook_delivery_lease :: duration where "webhook_delivery_lease = minutes 1"
definition webhook_max_attempts :: nat where "webhook_max_attempts = 10"
definition webhook_disable_after :: nat where "webhook_disable_after = 5"
definition webhook_max_batch :: int where "webhook_max_batch = 100"

text \<open>\<open>cfg\<close> is the selection of the starter with the configured overlap and retention.\<close>

definition new_wh_service ::
    "wh_catalog option \<Rightarrow> secret_protector \<Rightarrow> target_policy \<Rightarrow> wh_sender \<Rightarrow> (bool \<times> duration \<times> duration) option
     \<Rightarrow> wh_service" where
  "new_wh_service catalog secrets targets sndr cfg =
     (let (on, overlap, retention) = (case cfg of None \<Rightarrow> (False, 0, 0) | Some c \<Rightarrow> c)
      in \<lparr>ws_catalog = catalog, ws_secrets = secrets, ws_targets = targets, ws_sender = sndr, ws_enabled = on,
          ws_overlap = overlap, ws_retention = retention\<rparr>)"

text \<open>The collaborators are values here, never nil; of them only the catalog can be missing.\<close>

definition webhook_available :: "wh_service \<Rightarrow> bool" where
  "webhook_available s \<longleftrightarrow> ws_enabled s \<and> ws_catalog s \<noteq> None \<and> 0 < ws_overlap s \<and> 0 < ws_retention s"

subsection \<open>Audit changes\<close>

record audit_change =
  au_action :: string
  au_resource :: string
  au_targetType :: string
  au_target :: string
  au_metadata :: "(string \<times> json) list"

definition webhook_audit :: "string \<Rightarrow> nat \<Rightarrow> (string \<times> json) list \<Rightarrow> audit_change" where
  "webhook_audit action endpoint metadata =
     \<lparr>au_action = action, au_resource = ''webhook-endpoints'', au_targetType = ''webhook_endpoint'',
      au_target = show_nat endpoint, au_metadata = metadata\<rparr>"

definition number :: "nat \<Rightarrow> json" where
  "number n = J_number (show_nat n)"

definition endpoint_status_text :: "endpoint_status \<Rightarrow> string" where
  "endpoint_status_text st = (case st of Endpoint_Active \<Rightarrow> ''active'' | Endpoint_Disabled \<Rightarrow> ''disabled'')"

subsection \<open>Endpoints\<close>

record endpoint_input =
  ei_name :: string
  ei_url :: string
  ei_types :: "string list"

record normalized_endpoint =
  nx_name :: string
  nx_url :: string
  nx_urlHash :: string
  nx_types :: "string list"

definition contains_webhook_control :: "string \<Rightarrow> bool" where
  "contains_webhook_control s \<longleftrightarrow> list_ex rune_is_control (runes s)"

text \<open>Every type is in the catalog, and no two neighbours of the sorted list are equal.\<close>

fun types_ok :: "wh_catalog option \<Rightarrow> string list \<Rightarrow> bool" where
  "types_ok c [] \<longleftrightarrow> True"
| "types_ok c [t] \<longleftrightarrow> wh_catalog_contains c t"
| "types_ok c (t # u # ts) \<longleftrightarrow> wh_catalog_contains c t \<and> t \<noteq> u \<and> types_ok c (u # ts)"

definition normalize_endpoint_input :: "wh_lib \<Rightarrow> wh_service \<Rightarrow> endpoint_input \<Rightarrow> webhook_error + normalized_endpoint" where
  "normalize_endpoint_input lib s inp =
     (let name = trim_space (ei_name inp); types = sort (ei_types inp)
      in if name = '''' \<or> \<not> utf8_valid name \<or> 100 < rune_count name \<or> contains_webhook_control name
         then Inl ErrWebhookInput
         else if types = [] \<or> max_webhook_definitions < length types then Inl ErrWebhookInvalidEventType
         else if \<not> types_ok (ws_catalog s) types then Inl ErrWebhookInvalidEventType
         else case normalize_target (li_urlParse lib) (li_showUrl lib) (li_addrOf lib) (li_lookup lib) sha256_hex
                     (ws_targets s) (ei_url inp) of
           Inl e \<Rightarrow> Inl e
         | Inr (url, hash) \<Rightarrow> Inr \<lparr>nx_name = name, nx_url = url, nx_urlHash = hash, nx_types = types\<rparr>)"

record endpoint_secret =
  es_endpoint :: endpoint_view
  es_signingSecret :: string
  es_previousExpiry :: "instant option"

definition webhook_event_types :: "wh_service \<Rightarrow> webhook_error + string list" where
  "webhook_event_types s =
     (if \<not> webhook_available s then Inl ErrWebhookUnavailable else Inr (wh_catalog_types (ws_catalog s)))"

definition service_create_endpoint ::
    "wh_lib \<Rightarrow> (nat \<Rightarrow> nat \<Rightarrow> string option) \<Rightarrow> wh_service \<Rightarrow> wh_faults \<Rightarrow> bool \<Rightarrow> instant \<Rightarrow> nat \<Rightarrow> nat \<Rightarrow> endpoint_input
     \<Rightarrow> (endpoint_secret \<times> audit_change) wh_action" where
  "service_create_endpoint lib random s flt bound now org actor inp db =
     (if \<not> webhook_available s then (Inl ErrWebhookUnavailable, db)
      else case normalize_endpoint_input lib s inp of
        Inl e \<Rightarrow> (Inl e, db)
      | Inr n \<Rightarrow>
          (case generate_secret (li_seal lib) random (ws_secrets s) of
             Inl e \<Rightarrow> (Inl e, db)
           | Inr m \<Rightarrow>
               (case create_endpoint flt bound
                       \<lparr>em_organization = org, em_actor = actor, em_name = nx_name n, em_url = nx_url n,
                        em_urlHash = nx_urlHash n, em_types = nx_types n, em_secret = sm_ciphertext m,
                        em_hint = sm_hint m, em_expected = 0, em_now = now\<rparr> db of
                  (Inl e, db1) \<Rightarrow> (Inl e, db1)
                | (Inr v, db1) \<Rightarrow>
                    (Inr (\<lparr>es_endpoint = v, es_signingSecret = sm_plaintext m, es_previousExpiry = None\<rparr>,
                          webhook_audit ''create'' (ev_id v)
                            [(''event_types'', J_array (map J_string (ev_types v))), (''version'', number (ev_version v))]),
                     db1))))"

definition service_update_endpoint ::
    "wh_lib \<Rightarrow> wh_service \<Rightarrow> wh_faults \<Rightarrow> bool \<Rightarrow> instant \<Rightarrow> nat \<Rightarrow> nat \<Rightarrow> nat \<Rightarrow> nat \<Rightarrow> endpoint_input
     \<Rightarrow> (endpoint_view \<times> audit_change) wh_action" where
  "service_update_endpoint lib s flt bound now org i actor version inp db =
     (if \<not> webhook_available s then (Inl ErrWebhookUnavailable, db)
      else case normalize_endpoint_input lib s inp of
        Inl e \<Rightarrow> (Inl e, db)
      | Inr n \<Rightarrow>
          (case update_endpoint flt bound i
                  \<lparr>em_organization = org, em_actor = actor, em_name = nx_name n, em_url = nx_url n,
                   em_urlHash = nx_urlHash n, em_types = nx_types n, em_secret = '''', em_hint = '''',
                   em_expected = version, em_now = now\<rparr> db of
             (Inl e, db1) \<Rightarrow> (Inl e, db1)
           | (Inr v, db1) \<Rightarrow>
               (Inr (v, webhook_audit ''update'' (ev_id v)
                       [(''event_types'', J_array (map J_string (ev_types v))), (''previous_version'', number version),
                        (''version'', number (ev_version v))]),
                db1)))"

definition service_replace_status ::
    "wh_service \<Rightarrow> wh_faults \<Rightarrow> bool \<Rightarrow> instant \<Rightarrow> nat \<Rightarrow> nat \<Rightarrow> nat \<Rightarrow> nat \<Rightarrow> bool
     \<Rightarrow> (endpoint_view \<times> audit_change) wh_action" where
  "service_replace_status s flt bound now org i actor version on db =
     (if \<not> webhook_available s then (Inl ErrWebhookUnavailable, db)
      else case replace_endpoint_status flt bound org i actor on version now db of
        (Inl e, db1) \<Rightarrow> (Inl e, db1)
      | (Inr v, db1) \<Rightarrow>
          (Inr (v, webhook_audit ''status'' (ev_id v)
                  [(''status'', J_string (endpoint_status_text (ev_status v))), (''previous_version'', number version),
                   (''version'', number (ev_version v))]),
           db1))"

definition service_delete_endpoint ::
    "wh_service \<Rightarrow> wh_faults \<Rightarrow> bool \<Rightarrow> instant \<Rightarrow> nat \<Rightarrow> nat \<Rightarrow> nat \<Rightarrow> nat \<Rightarrow> audit_change wh_action" where
  "service_delete_endpoint s flt bound now org i actor version db =
     (if \<not> webhook_available s then (Inl ErrWebhookUnavailable, db)
      else case delete_endpoint flt bound org i actor version now db of
        (Inl e, db1) \<Rightarrow> (Inl e, db1)
      | (Inr _, db1) \<Rightarrow> (Inr (webhook_audit ''delete'' i [(''previous_version'', number version)]), db1))"

definition service_rotate_secret ::
    "wh_lib \<Rightarrow> (nat \<Rightarrow> nat \<Rightarrow> string option) \<Rightarrow> wh_service \<Rightarrow> wh_faults \<Rightarrow> bool \<Rightarrow> instant \<Rightarrow> nat \<Rightarrow> nat \<Rightarrow> nat \<Rightarrow> nat
     \<Rightarrow> (endpoint_secret \<times> audit_change) wh_action" where
  "service_rotate_secret lib random s flt bound now org i actor version db =
     (if \<not> webhook_available s then (Inl ErrWebhookUnavailable, db)
      else case generate_secret (li_seal lib) random (ws_secrets s) of
        Inl e \<Rightarrow> (Inl e, db)
      | Inr m \<Rightarrow>
          (case rotate_endpoint_secret flt bound i
                  \<lparr>em_organization = org, em_actor = actor, em_name = '''', em_url = '''', em_urlHash = '''', em_types = [],
                   em_secret = sm_ciphertext m, em_hint = sm_hint m, em_expected = version, em_now = now\<rparr>
                  (now + ws_overlap s) db of
             (Inl e, db1) \<Rightarrow> (Inl e, db1)
           | (Inr v, db1) \<Rightarrow>
               (Inr (\<lparr>es_endpoint = v, es_signingSecret = sm_plaintext m, es_previousExpiry = Some (now + ws_overlap s)\<rparr>,
                     webhook_audit ''rotate_secret'' (ev_id v)
                       [(''secret_version'', number (ev_secretVersion v)), (''previous_version'', number version),
                        (''version'', number (ev_version v))]),
                db1)))"

definition service_list_endpoints ::
    "wh_service \<Rightarrow> wh_faults \<Rightarrow> nat \<Rightarrow> int \<Rightarrow> int \<Rightarrow> webhook_db \<Rightarrow> webhook_error + endpoint_view list \<times> nat" where
  "service_list_endpoints s flt org page per db =
     (if \<not> webhook_available s then Inl ErrWebhookUnavailable else list_endpoints flt org page per db)"

definition valid_delivery_status :: "string \<Rightarrow> bool" where
  "valid_delivery_status t \<longleftrightarrow>
     t \<in> set (map status_text [Wh_Pending, Wh_Processing, Wh_Delivered, Wh_Failed, Wh_Canceled])"

definition service_list_deliveries ::
    "wh_service \<Rightarrow> wh_faults \<Rightarrow> nat \<Rightarrow> delivery_filter \<Rightarrow> int \<Rightarrow> int \<Rightarrow> webhook_db
     \<Rightarrow> webhook_error + delivery_view list \<times> nat" where
  "service_list_deliveries s flt org f page per db =
     (if \<not> webhook_available s then Inl ErrWebhookUnavailable
      else if df_status f \<noteq> '''' \<and> \<not> valid_delivery_status (df_status f) then Inl ErrWebhookInput
      else list_deliveries flt org f page per db)"

definition service_list_attempts ::
    "wh_service \<Rightarrow> wh_faults \<Rightarrow> nat \<Rightarrow> nat \<Rightarrow> int \<Rightarrow> int \<Rightarrow> webhook_db \<Rightarrow> webhook_error + attempt_row list \<times> nat" where
  "service_list_attempts s flt org i page per db =
     (if \<not> webhook_available s then Inl ErrWebhookUnavailable else list_attempts flt org i page per db)"

subsection \<open>Publishing\<close>

record webhook_event =
  wo_organization :: nat
  wo_source :: string
  wo_eventID :: string
  wo_type :: string
  wo_occurredAt :: instant
  wo_payload :: string

definition webhook_event_fingerprint :: "nat \<Rightarrow> string \<Rightarrow> string \<Rightarrow> string \<Rightarrow> instant \<Rightarrow> string \<Rightarrow> string" where
  "webhook_event_fingerprint org source eventID type occurredAt payload =
     sha256_hex (show_json (J_object
       [(''organization_id'', number org), (''source'', J_string source), (''event_id'', J_string eventID),
        (''type'', J_string type), (''occurred_at'', J_string (rfc3339_nano occurredAt)), (''payload'', J_string payload)]))"

text \<open>\<open>uuid\<close> is the text of \<open>uuid.NewString\<close>.\<close>

definition normalize_publication ::
    "wh_lib \<Rightarrow> wh_service \<Rightarrow> string \<Rightarrow> instant \<Rightarrow> webhook_event \<Rightarrow> nat \<Rightarrow> webhook_error + publication_mutation" where
  "normalize_publication lib s uuid now v target =
     (if wo_organization v = 0 \<or> \<not> valid_webhook_source (wo_source v) \<or> \<not> valid_webhook_event_id (wo_eventID v)
        \<or> wo_occurredAt v = zero_time then Inl ErrWebhookInput
      else if wo_occurredAt v < now - webhook_max_event_age \<or> now + webhook_max_future_skew < wo_occurredAt v
      then Inl ErrWebhookInput
      else case normalize_payload (li_parse lib) (ws_catalog s) (wo_type v) (wo_payload v) of
        Inl e \<Rightarrow> Inl e
      | Inr payload \<Rightarrow>
          Inr \<lparr>pm_organization = wo_organization v, pm_target = target,
               pm_messageID = ''msg_'' @ filter (\<lambda>c. c \<noteq> CHR ''-'') uuid,
               pm_source = wo_source v, pm_eventID = wo_eventID v,
               pm_fingerprint = webhook_event_fingerprint (wo_organization v) (wo_source v) (wo_eventID v) (wo_type v)
                                  (wo_occurredAt v) payload,
               pm_type = wo_type v, pm_payload = payload, pm_occurredAt = wo_occurredAt v, pm_now = now\<rparr>)"

definition publish_webhook ::
    "wh_lib \<Rightarrow> wh_service \<Rightarrow> wh_faults \<Rightarrow> bool \<Rightarrow> string \<Rightarrow> instant \<Rightarrow> webhook_event \<Rightarrow> webhook_receipt wh_action" where
  "publish_webhook lib s flt bound uuid now v db =
     (if \<not> webhook_available s then (Inl ErrWebhookUnavailable, db)
      else case normalize_publication lib s uuid now v 0 of
        Inl e \<Rightarrow> (Inl e, db)
      | Inr m \<Rightarrow>
          (case publish_event flt bound m db of
             (Inl e, db1) \<Rightarrow> (Inl e, db1)
           | (Inr (receipt, deliveries), db1) \<Rightarrow> (Inr receipt, db1)))"

definition idempotency_key_ok :: "string \<Rightarrow> bool" where
  "idempotency_key_ok s \<longleftrightarrow> s \<noteq> '''' \<and> length s \<le> 80
     \<and> (lower_alnum (hd s) \<or> upper_letter (hd s))
     \<and> list_all (\<lambda>c. lower_alnum c \<or> upper_letter c \<or> c \<in> {CHR ''.'', CHR ''_'', CHR '':'', CHR ''-''}) (tl s)"

definition webhook_test_payload :: "nat \<Rightarrow> nat \<Rightarrow> string" where
  "webhook_test_payload org endpoint =
     show_json (J_object [(''organization_id'', number org), (''endpoint_id'', number endpoint)])"

definition webhook_test_event :: "nat \<Rightarrow> nat \<Rightarrow> string \<Rightarrow> instant \<Rightarrow> webhook_event" where
  "webhook_test_event org endpoint key now =
     \<lparr>wo_organization = org, wo_source = ''webhook.http_test'',
      wo_eventID = ''test:'' @ sha256_hex (show_nat endpoint @ CHR '':'' # key),
      wo_type = ''webhook.test'', wo_occurredAt = now, wo_payload = webhook_test_payload org endpoint\<rparr>"

definition webhook_test_fingerprint :: "nat \<Rightarrow> nat \<Rightarrow> string \<Rightarrow> string" where
  "webhook_test_fingerprint org endpoint key =
     sha256_hex (show_nat org @ CHR '':'' # show_nat endpoint @ CHR '':'' # key @ CHR '':'' # webhook_test_payload org endpoint)"

text \<open>\<open>now\<close> is the occurrence time and \<open>now2\<close> the second reading of the clock.\<close>

definition publish_webhook_test ::
    "wh_lib \<Rightarrow> wh_service \<Rightarrow> wh_faults \<Rightarrow> bool \<Rightarrow> string \<Rightarrow> instant \<Rightarrow> instant \<Rightarrow> nat \<Rightarrow> nat \<Rightarrow> nat \<Rightarrow> string
     \<Rightarrow> (delivery_view \<times> audit_change) wh_action" where
  "publish_webhook_test lib s flt bound uuid now now2 org endpoint actor key db =
     (if \<not> webhook_available s then (Inl ErrWebhookUnavailable, db)
      else if org = 0 \<or> endpoint = 0 \<or> actor = 0 \<or> \<not> idempotency_key_ok key then (Inl ErrWebhookInput, db)
      else case normalize_publication lib s uuid now2 (webhook_test_event org endpoint key now) endpoint of
        Inl e \<Rightarrow> (Inl e, db)
      | Inr m \<Rightarrow>
          (case publish_event flt bound (m\<lparr>pm_fingerprint := webhook_test_fingerprint org endpoint key\<rparr>) db of
             (Inl e, db1) \<Rightarrow> (Inl e, db1)
           | (Inr (receipt, deliveries), db1) \<Rightarrow>
               (case deliveries of
                  [v] \<Rightarrow> (Inr (v, webhook_audit ''test'' endpoint
                                 [(''delivery_id'', number (dv_id v)), (''message_id'', J_string (dv_messageID v))]), db1)
                | _ \<Rightarrow> (Inl ErrWebhookUnavailable, db1))))"

subsection \<open>Dispatching\<close>

definition retry_schedule :: "duration list" where
  "retry_schedule =
     [minutes 1, minutes 5, minutes 15, hours 1, hours 3, hours 6, hours 12, hours 18, hours 24]"

definition webhook_retry_delay :: "string \<Rightarrow> nat \<Rightarrow> duration" where
  "webhook_retry_delay messageID attempt =
     (let index = min (attempt - 1) (length retry_schedule - 1);
          digest = sha256 (messageID @ CHR '':'' # show_nat attempt);
          percent = 80 + int (of_char (hd digest) mod 41)
      in retry_schedule ! index * percent div 100)"

definition duration_milliseconds :: "duration \<Rightarrow> nat" where
  "duration_milliseconds d = (if d \<le> 0 then 0 else nat (d div 1000000))"

text \<open>The completion a result leads to.\<close>

definition completion_of :: "claimed_delivery \<Rightarrow> send_result \<Rightarrow> instant \<Rightarrow> instant \<Rightarrow> delivery_completion" where
  "completion_of c r started now =
     (let cp = \<lparr>cp_status = Wh_Delivered, cp_outcome = ''delivered'', cp_http = sr_http r, cp_failure = sr_failure r,
                cp_truncated = sr_truncated r, cp_retryAt = None, cp_startedAt = started, cp_completedAt = now,
                cp_duration = duration_milliseconds (sr_duration r)\<rparr>
      in if sr_failure r = '''' then cp
         else if sr_retryable r \<and> wc_cycle c < webhook_max_attempts
         then cp\<lparr>cp_status := Wh_Pending, cp_outcome := ''retry_scheduled'',
                 cp_retryAt := Some (now + webhook_retry_delay (wc_messageID c) (wc_cycle c))\<rparr>
         else cp\<lparr>cp_status := Wh_Failed, cp_outcome := ''failed'',
                 cp_failure := (if sr_retryable r \<and> webhook_max_attempts \<le> wc_cycle c
                                then ''WEBHOOK.RETRY_EXHAUSTED'' else sr_failure r)\<rparr>)"

definition complete_dispatch ::
    "wh_faults \<Rightarrow> bool \<Rightarrow> claimed_delivery \<Rightarrow> send_result \<Rightarrow> instant \<Rightarrow> instant \<Rightarrow> bool wh_action" where
  "complete_dispatch flt bound c r started now =
     complete_delivery flt bound c (completion_of c r started now) webhook_disable_after"

text \<open>The surroundings of one delivery: the context's state before it, the clock readings of \<open>dispatch\<close>, \<open>Send\<close>
  and \<open>completeDispatch\<close>, the HTTP exchange, what other transactions do to the tables meanwhile, and the failures
  of the completing transaction.\<close>

record dispatch_step =
  ds_ctx :: "webhook_error option"
  ds_started :: instant
  ds_sendStarted :: instant
  ds_sendFinished :: instant
  ds_exchange :: "http_request \<Rightarrow> http_outcome"
  ds_others :: "webhook_db \<Rightarrow> webhook_db"
  ds_completed :: instant
  ds_faults :: wh_faults

definition dispatch_outbound ::
    "wh_lib \<Rightarrow> wh_service \<Rightarrow> dispatch_step \<Rightarrow> claimed_delivery \<Rightarrow> webhook_error + send_result" where
  "dispatch_outbound lib s st c =
     (if wc_hash c \<noteq> wc_currentHash c then Inr (no_result\<lparr>sr_failure := ''WEBHOOK.ROUTE_CHANGED''\<rparr>)
      else case decrypt_secret (li_unseal lib) (ws_secrets s) (wc_secret c) of
        Inl e \<Rightarrow> Inl e
      | Inr current \<Rightarrow>
          (case (if wc_previous c \<noteq> '''' \<and> (case wc_previousExpires c of None \<Rightarrow> False | Some t \<Rightarrow> ds_started st < t)
                 then decrypt_secret (li_unseal lib) (ws_secrets s) (wc_previous c) else Inr []) of
             Inl e \<Rightarrow> Inl e
           | Inr previous \<Rightarrow>
               send_webhook (li_urlParse lib) (li_showUrl lib) (li_compact lib) (ws_targets s) (ws_sender s)
                 (ds_sendStarted st) (ds_sendFinished st) (ds_exchange st)
                 \<lparr>ob_url = wc_url c, ob_messageID = wc_messageID c, ob_type = wc_type c, ob_occurredAt = wc_occurredAt c,
                  ob_payload = wc_payload c, ob_current = current, ob_previous = previous,
                  ob_previousExpires = wc_previousExpires c\<rparr>))"

definition dispatch_claim ::
    "wh_lib \<Rightarrow> wh_service \<Rightarrow> bool \<Rightarrow> dispatch_step \<Rightarrow> claimed_delivery \<Rightarrow> bool wh_action" where
  "dispatch_claim lib s bound st c db =
     (case dispatch_outbound lib s st c of
        Inl e \<Rightarrow> (Inl e, ds_others st db)
      | Inr r \<Rightarrow> complete_dispatch (ds_faults st) bound c r (ds_started st) (ds_completed st) (ds_others st db))"

text \<open>The loop over the claims: the number completed, and the error that ended it.\<close>

fun dispatch_claims ::
    "wh_lib \<Rightarrow> wh_service \<Rightarrow> bool \<Rightarrow> (nat \<Rightarrow> dispatch_step) \<Rightarrow> nat \<Rightarrow> claimed_delivery list \<Rightarrow> nat \<Rightarrow> webhook_db
     \<Rightarrow> (nat \<times> webhook_error option) \<times> webhook_db" where
  "dispatch_claims lib s bound steps k [] completed db = ((completed, None), db)"
| "dispatch_claims lib s bound steps k (c # cs) completed db =
     (case ds_ctx (steps k) of
        Some e \<Rightarrow> ((completed, Some e), db)
      | None \<Rightarrow>
          (case dispatch_claim lib s bound (steps k) c db of
             (Inl e, db1) \<Rightarrow> ((completed, Some e), db1)
           | (Inr ok, db1) \<Rightarrow>
               dispatch_claims lib s bound steps (Suc k) cs (if ok then completed + 1 else completed) db1))"

definition dispatch_webhooks ::
    "wh_lib \<Rightarrow> wh_service \<Rightarrow> wh_faults \<Rightarrow> bool \<Rightarrow> (delivery_row \<Rightarrow> bool) \<Rightarrow> (nat \<Rightarrow> string) \<Rightarrow> instant
     \<Rightarrow> (nat \<Rightarrow> dispatch_step) \<Rightarrow> int \<Rightarrow> webhook_db \<Rightarrow> (nat \<times> webhook_error option) \<times> webhook_db" where
  "dispatch_webhooks lib s flt bound locked token now steps limit db =
     (if \<not> webhook_available s then ((0, Some ErrWebhookUnavailable), db)
      else if limit < 1 \<or> webhook_max_batch < limit then ((0, Some ErrWebhookInput), db)
      else case claim_due flt bound locked token now webhook_delivery_lease limit db of
        (Inl e, db1) \<Rightarrow> ((0, Some e), db1)
      | (Inr claims, db1) \<Rightarrow> dispatch_claims lib s bound steps 0 claims 0 db1)"

subsection \<open>Maintenance\<close>

definition replay_webhook_delivery ::
    "wh_service \<Rightarrow> wh_faults \<Rightarrow> bool \<Rightarrow> instant \<Rightarrow> nat \<Rightarrow> nat \<Rightarrow> nat \<Rightarrow> (delivery_view \<times> audit_change) wh_action" where
  "replay_webhook_delivery s flt bound now org i actor db =
     (if \<not> webhook_available s then (Inl ErrWebhookUnavailable, db)
      else case replay_delivery flt bound org i actor now db of
        (Inl e, db1) \<Rightarrow> (Inl e, db1)
      | (Inr v, db1) \<Rightarrow>
          (Inr (v, webhook_audit ''replay'' (dv_endpoint v)
                  [(''delivery_id'', number (dv_id v)), (''message_id'', J_string (dv_messageID v)),
                   (''replay_count'', number (dv_replays v))]), db1))"

definition prune_webhook_history ::
    "wh_service \<Rightarrow> wh_faults \<Rightarrow> instant \<Rightarrow> bool \<Rightarrow> instant \<Rightarrow> instant \<Rightarrow> (prune_result \<times> audit_change) wh_action" where
  "prune_webhook_history s flt clk bound now before db =
     (if \<not> webhook_available s then (Inl ErrWebhookUnavailable, db)
      else if before = zero_time \<or> now - ws_retention s < before then (Inl ErrWebhookInput, db)
      else case prune_history flt clk bound before now db of
        (Inl e, db1) \<Rightarrow> (Inl e, db1)
      | (Inr res, db1) \<Rightarrow>
          (Inr (res, \<lparr>au_action = ''prune'', au_resource = ''webhook-history'', au_targetType = ''webhook_history'',
                     au_target = '''',
                     au_metadata = [(''before'', J_string (rfc3339_nano before)), (''attempts'', number (pr_attempts res)),
                       (''deliveries'', number (pr_deliveries res)), (''events'', number (pr_events res)),
                       (''secrets'', number (pr_secrets res))]\<rparr>), db1))"

end
