(* ===== verification/Webhook_World.thy ===== *)
theory Webhook_World
  imports Webhook_Outbox_Inv Webhook_Service
begin

text \<open>
  The outbox over time. A state has the tables, the claims handed out so far, oldest first, and the claims whose
  completion was accepted. The lease tokens of a claim are new random identifiers: distinct and never used before.

  The transactions run at READ COMMITTED. Those that lock the rows they decide on before they write, the endpoint
  for a change of an endpoint, the delivery and its endpoint for \<open>Complete\<close> and \<open>Replay\<close>, are one step each. \<open>Publish\<close>,
  \<open>ClaimDue\<close> and \<open>Prune\<close> have statements between which other transactions may commit, and these are steps of their
  own: the insertion of an event; the insertion of deliveries for endpoints read at some time before, of which no
  more is known than that they belonged to the organization (\<open>once_read\<close>); the release of any of the leases that ran
  out; the leasing of the rows that are due; the deletion of the deliveries, or of the events, with any ids, of which
  nothing is known any more. A step of a whole transaction is one of \<open>created\<close> to \<open>pruned\<close>; a transaction that is
  rolled back takes none. The removal of an organization is cascaded by the foreign keys.
\<close>

record wh_world =
  ww_db :: webhook_db
  ww_claims :: "claimed_delivery list"
  ww_done :: "claimed_delivery list"

definition empty_webhook_db :: "nat list \<Rightarrow> webhook_db" where
  "empty_webhook_db orgs =
     \<lparr>wk_organizations = orgs, wk_endpoints = [], wk_subscriptions = [], wk_events = [], wk_deliveries = [],
      wk_attempts = [], wk_next = 1\<rparr>"

definition drop_organization :: "nat \<Rightarrow> webhook_db \<Rightarrow> webhook_db" where
  "drop_organization org db =
     (let endpoints = map we_id (filter (\<lambda>e. we_organization e = org) (wk_endpoints db));
          events = map wv_id (filter (\<lambda>v. wv_organization v = org) (wk_events db));
          gone = (\<lambda>r. wd_endpoint r \<in> set endpoints \<or> wd_event r \<in> set events);
          ids = map wd_id (filter gone (wk_deliveries db))
      in db\<lparr>wk_organizations := filter (\<lambda>i. i \<noteq> org) (wk_organizations db),
            wk_endpoints := filter (\<lambda>e. we_organization e \<noteq> org) (wk_endpoints db),
            wk_subscriptions := filter (\<lambda>s. wb_endpoint s \<notin> set endpoints) (wk_subscriptions db),
            wk_events := filter (\<lambda>v. wv_organization v \<noteq> org) (wk_events db),
            wk_deliveries := filter (\<lambda>r. \<not> gone r) (wk_deliveries db),
            wk_attempts := filter (\<lambda>a. wa_delivery a \<notin> set ids) (wk_attempts db)\<rparr>)"

text \<open>The operations that hand out no claims and complete none.\<close>

inductive outbox_change :: "webhook_db \<Rightarrow> webhook_db \<Rightarrow> bool" where
  created: "create_endpoint flt False m db = (r, db') \<Longrightarrow> outbox_change db db'"
| updated: "update_endpoint flt False i m db = (r, db') \<Longrightarrow> outbox_change db db'"
| switched: "replace_endpoint_status flt False org i actor on version now db = (r, db') \<Longrightarrow> outbox_change db db'"
| deleted: "delete_endpoint flt False org i actor version now db = (r2, db') \<Longrightarrow> outbox_change db db'"
| rotated: "rotate_endpoint_secret flt False i m until db = (r, db') \<Longrightarrow> outbox_change db db'"
| published: "publish_event flt False pm db = (r3, db') \<Longrightarrow> outbox_change db db'"
| replayed: "replay_delivery flt False org i actor now db = (r4, db') \<Longrightarrow> outbox_change db db'"
| pruned: "prune_history flt clk False before now db = (r5, db') \<Longrightarrow> outbox_change db db'"
| event_stored: "insert_event ft pm db = (Inr (Some v), db') \<Longrightarrow> outbox_change db db'"
| deliveries_stored: "insert_deliveries ft pm (wv_id v) es db = (Inr u, db') \<Longrightarrow> v \<in> set (wk_events db)
    \<Longrightarrow> wv_organization v = pm_organization pm \<Longrightarrow> once_read es (pm_organization pm) db \<Longrightarrow> outbox_change db db'"
| leases_released: "outbox_change db (release_lapsed sel now db)"
| secrets_forgotten: "outbox_change db
    (db\<lparr>wk_endpoints := update_rows (\<lambda>e. some e \<and> expired_secret now e) (forget_previous clk) (wk_endpoints db)\<rparr>)"
| deliveries_deleted: "outbox_change db (prune_deliveries ids db)"
| events_deleted: "outbox_change db (delete_events ids db)"
| organization_added: "outbox_change db (db\<lparr>wk_organizations := wk_organizations db @ [org]\<rparr>)"
| organization_removed: "outbox_change db (drop_organization org db)"

definition fresh_tokens :: "(nat \<Rightarrow> string) \<Rightarrow> wh_world \<Rightarrow> bool" where
  "fresh_tokens token w \<longleftrightarrow> inj token \<and> (\<forall>k. token k \<noteq> '''' \<and> token k \<notin> wc_token ` set (ww_claims w))"

inductive wh_step :: "wh_world \<Rightarrow> wh_world \<Rightarrow> bool" where
  change: "outbox_change (ww_db w) db' \<Longrightarrow> wh_step w (w\<lparr>ww_db := db'\<rparr>)"
| claim: "lease_due flt locked token now lease limit (ww_db w) = (Inr cs, db') \<Longrightarrow> fresh_tokens token w
    \<Longrightarrow> wh_step w (w\<lparr>ww_db := db', ww_claims := ww_claims w @ cs\<rparr>)"
| complete: "complete_delivery flt False c cp webhook_disable_after (ww_db w) = (r, db') \<Longrightarrow> c \<in> set (ww_claims w)
    \<Longrightarrow> wh_step w (w\<lparr>ww_db := db', ww_done := ww_done w @ (if r = Inr True then [c] else [])\<rparr>)"

inductive wh_reachable :: "wh_world \<Rightarrow> bool" where
  start: "wh_reachable \<lparr>ww_db = empty_webhook_db orgs, ww_claims = [], ww_done = []\<rparr>"
| step: "wh_reachable w \<Longrightarrow> wh_step w w' \<Longrightarrow> wh_reachable w'"

subsection \<open>The tables stay consistent\<close>

lemma disable_after_pos [simp]: "0 < webhook_disable_after"
  by (simp add: webhook_disable_after_def)

lemma empty_outbox_inv: "wk_inv d (empty_webhook_db orgs)"
  by (simp add: wk_inv_def empty_webhook_db_def endpoints_ok_def subscriptions_ok_def wh_events_ok_def deliveries_ok_def)

lemma drop_organization_inv:
  assumes inv: "wk_inv d db"
  shows "wk_inv d (drop_organization org db)"
proof -
  let ?db = "drop_organization org db"
  have es: "endpoints_ok d (wk_next db) (wk_endpoints db)" using inv by (simp add: wk_inv_def)
  have keep: "e \<in> set (wk_endpoints ?db)" if "e \<in> set (wk_endpoints db)" "we_id e = i"
    "i \<notin> we_id ` {e \<in> set (wk_endpoints db). we_organization e = org}" for e i
    using that by (auto simp: drop_organization_def Let_def)
  have "endpoints_ok d (wk_next ?db) (wk_endpoints ?db)"
    using es by (auto simp: drop_organization_def Let_def endpoints_ok_def distinct_map_filter)
  moreover have "subscriptions_ok (wk_endpoints ?db) (wk_subscriptions ?db)"
    unfolding subscriptions_ok_def
  proof (intro conjI ballI)
    show "distinct (map subscription_key (wk_subscriptions ?db))"
      using inv by (simp add: drop_organization_def Let_def wk_inv_def subscriptions_ok_def distinct_map_filter)
    fix s
    assume "s \<in> set (wk_subscriptions ?db)"
    then have s: "s \<in> set (wk_subscriptions db)" "wb_endpoint s \<notin> we_id ` {e \<in> set (wk_endpoints db). we_organization e = org}"
      by (auto simp: drop_organization_def Let_def)
    from inv s(1) obtain e where e: "e \<in> set (wk_endpoints db)" "we_id e = wb_endpoint s" "we_deletedAt e = None"
      by (auto simp: wk_inv_def subscriptions_ok_def)
    from keep [OF e(1,2) s(2)] e(2,3) show "\<exists>e \<in> set (wk_endpoints ?db). we_id e = wb_endpoint s \<and> we_deletedAt e = None"
      by blast
  qed
  moreover have "wh_events_ok (wk_next ?db) (wk_organizations ?db) (wk_events ?db)"
    using inv by (auto simp: drop_organization_def Let_def wk_inv_def wh_events_ok_def distinct_map_filter)
  moreover have "deliveries_ok (wk_next ?db) (wk_endpoints ?db) (wk_events ?db) (wk_deliveries ?db)"
    unfolding deliveries_ok_def
  proof (intro conjI ballI)
    show "distinct (map wd_id (wk_deliveries ?db))" "distinct (map delivery_key (wk_deliveries ?db))"
      using inv by (auto simp: drop_organization_def Let_def wk_inv_def deliveries_ok_def distinct_map_filter)
    fix r
    assume "r \<in> set (wk_deliveries ?db)"
    then have r: "r \<in> set (wk_deliveries db)"
      and ends: "wd_endpoint r \<notin> we_id ` {e \<in> set (wk_endpoints db). we_organization e = org}"
      and evs: "wd_event r \<notin> wv_id ` {v \<in> set (wk_events db). wv_organization v = org}"
      by (auto simp: drop_organization_def Let_def)
    from inv r have row: "lease_ok r" "owned (wk_endpoints db) (wk_events db) r" "wd_id r < wk_next db"
      "wd_status r = Wh_Processing \<longrightarrow> routed (wk_endpoints db) r"
      by (auto simp: wk_inv_def deliveries_ok_def)
    then show "lease_ok r" "wd_id r < wk_next ?db" by (simp_all add: drop_organization_def Let_def)
    from row(2) obtain e v where e: "e \<in> set (wk_endpoints db)" "we_id e = wd_endpoint r" "we_organization e = wd_organization r"
      and v: "v \<in> set (wk_events db)" "wv_id v = wd_event r" "wv_organization v = wd_organization r"
      by (auto simp: owned_def)
    from v evs have "wv_organization v \<noteq> org" by (force simp: image_iff)
    with v(1) have "v \<in> set (wk_events ?db)" by (simp add: drop_organization_def Let_def)
    with keep [OF e(1,2) ends] e v show "owned (wk_endpoints ?db) (wk_events ?db) r" by (auto simp: owned_def)
    show "wd_status r = Wh_Processing \<longrightarrow> routed (wk_endpoints ?db) r"
      using row(4) keep ends unfolding routed_def by blast
  qed
  ultimately show ?thesis by (simp add: wk_inv_def)
qed

lemma outbox_change_inv:
  assumes "outbox_change db db'" and "wk_inv webhook_disable_after db"
  shows "wk_inv webhook_disable_after db'"
  using assms
proof (cases rule: outbox_change.cases)
  case (organization_added org)
  with assms(2) show ?thesis by (auto simp: wk_inv_def wh_events_ok_def)
next
  case (organization_removed org)
  with drop_organization_inv [OF assms(2)] show ?thesis by simp
next
  case (created flt m r)
  with create_endpoint_inv [OF _ assms(2)] show ?thesis by simp
next
  case (updated flt i m r)
  with assms(2) show ?thesis
    by (cases r) (auto dest: failed_unchanged intro: update_endpoint_inv)
next
  case (switched flt org i actor on version now r)
  with assms(2) show ?thesis by (cases r) (auto dest: failed_unchanged intro: replace_status_inv)
next
  case (deleted flt org i actor version now r)
  with assms(2) show ?thesis by (cases r) (auto dest: failed_unchanged intro: delete_endpoint_inv)
next
  case (rotated flt i m until r)
  with assms(2) show ?thesis by (cases r) (auto dest: failed_unchanged intro: rotate_secret_inv)
next
  case (published flt pm r)
  with assms(2) show ?thesis by (cases r) (auto dest: failed_unchanged intro: publish_inv)
next
  case (replayed flt org i actor now r)
  with assms(2) show ?thesis by (cases r) (auto dest: failed_unchanged intro: replay_inv)
next
  case (pruned flt clk before now r)
  with assms(2) show ?thesis by (cases r) (auto dest: failed_unchanged intro: prune_history_inv)
next
  case (event_stored ft pm v)
  from store_event_inv(1) [OF this assms(2)] show ?thesis .
next
  case (deliveries_stored ft pm v es u)
  from store_deliveries_inv [OF deliveries_stored(1) assms(2) deliveries_stored(2) refl deliveries_stored(3,4)]
  show ?thesis .
next
  case (leases_released sel now)
  with release_lapsed_inv [OF assms(2)] show ?thesis by simp
next
  case (secrets_forgotten some now clk)
  with forgotten_inv [OF assms(2)] show ?thesis by simp
next
  case (deliveries_deleted ids)
  with prune_deliveries_inv [OF assms(2)] show ?thesis by simp
next
  case (events_deleted ids)
  with delete_events_inv [OF assms(2)] show ?thesis by simp
qed

lemma wh_step_inv:
  assumes "wh_step w w'" and "wk_inv webhook_disable_after (ww_db w)"
  shows "wk_inv webhook_disable_after (ww_db w')"
  using assms(1)
proof cases
  case (change db')
  with outbox_change_inv [OF change(2) assms(2)] show ?thesis by simp
next
  case (claim flt locked token now lease limit cs db')
  have tok: "\<And>k. token k \<noteq> ''''" using claim(3) by (simp add: fresh_tokens_def)
  from claim(1) lease_due_Inr(3) [OF claim(2) assms(2) tok] show ?thesis by simp
next
  case (complete flt c cp r db')
  show ?thesis
  proof (cases r)
    case (Inl e)
    from complete(2) have "db' = ww_db w" unfolding Inl by (rule failed_unchanged(8))
    with complete(1) assms(2) show ?thesis by simp
  next
    case (Inr ok)
    with complete_inv [OF _ assms(2) disable_after_pos] complete show ?thesis by auto
  qed
qed

lemma wh_reachable_inv: "wh_reachable w \<Longrightarrow> wk_inv webhook_disable_after (ww_db w)"
  by (induction rule: wh_reachable.induct) (auto simp: empty_outbox_inv intro: wh_step_inv)

subsection \<open>Leases\<close>

text \<open>The leases in force: delivery, endpoint, token and attempt of the rows being processed.\<close>

definition leases :: "webhook_db \<Rightarrow> (nat \<times> nat \<times> string \<times> nat) set" where
  "leases db = {(wd_id r, wd_endpoint r, wd_leaseToken r, wd_attempts r) | r. r \<in> set (wk_deliveries db) \<and> wd_status r = Wh_Processing}"

definition live :: "claimed_delivery \<Rightarrow> webhook_db \<Rightarrow> bool" where
  "live c db \<longleftrightarrow> (\<exists>r \<in> set (wk_deliveries db). leased_to c r)"

lemma live_lease: "live c db \<longleftrightarrow> (\<exists>n. (wc_id c, wc_endpoint c, wc_token c, n) \<in> leases db)"
  by (simp add: live_def leases_def leased_to_def) metis

lemma live_mono: "leases db' \<subseteq> leases db \<Longrightarrow> live c db' \<Longrightarrow> live c db"
  by (auto simp: live_lease)

lemma leases_cong [simp]:
  "leases (db\<lparr>wk_endpoints := es\<rparr>) = leases db" "leases (db\<lparr>wk_events := vs\<rparr>) = leases db"
  "leases (db\<lparr>wk_subscriptions := ss\<rparr>) = leases db" "leases (db\<lparr>wk_organizations := orgs\<rparr>) = leases db"
  "leases (db\<lparr>wk_next := n\<rparr>) = leases db" "leases (db\<lparr>wk_attempts := as\<rparr>) = leases db"
  by (simp_all add: leases_def)

lemma leases_rows:
  assumes "\<And>r'. r' \<in> set rs \<Longrightarrow> wd_status r' = Wh_Processing \<Longrightarrow> r' \<in> set (wk_deliveries db)"
  shows "leases (db\<lparr>wk_deliveries := rs\<rparr>) \<subseteq> leases db"
  using assms by (auto simp: leases_def)

lemma canceled_for_processing:
  "r' \<in> set (canceled_for i now rs) \<Longrightarrow> wd_status r' = Wh_Processing \<Longrightarrow> r' \<in> set rs"
  by (auto simp: canceled_for_def update_rows_set split: if_splits)

lemma update_rows_processing:
  assumes "r' \<in> set (update_rows P f rs)" "wd_status r' = Wh_Processing" "\<And>r. wd_status (f r) \<noteq> Wh_Processing"
  shows "r' \<in> set rs"
  using assms by (auto simp: update_rows_set split: if_splits)

lemma outbox_change_leases:
  assumes "outbox_change db db'" and inv: "wk_inv webhook_disable_after db"
  shows "leases db' \<subseteq> leases db"
proof -
  have es: "endpoints_ok webhook_disable_after (wk_next db) (wk_endpoints db)" using inv by (simp add: wk_inv_def)
  have fail: "db' = db \<Longrightarrow> ?thesis" by simp
  from assms(1) show ?thesis
  proof (cases rule: outbox_change.cases)
    case (created flt m r)
    then show ?thesis by (cases r) (auto dest!: failed_unchanged create_endpoint_Inr(4) simp: leases_def)
  next
    case (updated flt i m r)
    show ?thesis
    proof (cases r)
      case (Inr v)
      with updated have "update_endpoint flt False i m db = (Inr v, db')" by simp
      from this es show ?thesis
        by (rule update_endpoint_Inr) (auto simp: leases_def dest: canceled_for_processing split: if_splits)
    qed (use updated in \<open>auto dest: failed_unchanged\<close>)
  next
    case (switched flt org i actor on version now r)
    show ?thesis
    proof (cases r)
      case (Inr v)
      with switched have "replace_endpoint_status flt False org i actor on version now db = (Inr v, db')" by simp
      from this es show ?thesis
        by (rule replace_status_Inr) (auto simp: leases_def dest: canceled_for_processing split: if_splits)
    qed (use switched in \<open>auto dest: failed_unchanged\<close>)
  next
    case (deleted flt org i actor version now r)
    show ?thesis
    proof (cases r)
      case (Inr v)
      with deleted have "delete_endpoint flt False org i actor version now db = (Inr v, db')" by simp
      from this es show ?thesis
        by (rule delete_endpoint_Inr) (auto simp: leases_def dest: canceled_for_processing)
    qed (use deleted in \<open>auto dest: failed_unchanged\<close>)
  next
    case (rotated flt i m until r)
    show ?thesis
    proof (cases r)
      case (Inr v)
      with rotated have "rotate_endpoint_secret flt False i m until db = (Inr v, db')" by simp
      from this es show ?thesis
        by (rule rotate_secret_Inr) (auto simp: leases_def)
    qed (use rotated in \<open>auto dest: failed_unchanged\<close>)
  next
    case (published flt pm r)
    show ?thesis
    proof (cases r)
      case (Inr v)
      with published have "publish_event flt False pm db = (Inr v, db')" by simp
      then show ?thesis
        by (cases rule: publish_Inr) (auto simp: leases_def new_delivery_def)
    qed (use published in \<open>auto dest: failed_unchanged\<close>)
  next
    case (replayed flt org i actor now r)
    show ?thesis
    proof (cases r)
      case (Inr v)
      with replayed have "replay_delivery flt False org i actor now db = (Inr v, db')" by simp
      then show ?thesis
        by (rule replay_Inr) (auto simp: leases_def dest: update_rows_processing)
    qed (use replayed in \<open>auto dest: failed_unchanged\<close>)
  next
    case (pruned flt clk before now r)
    then show ?thesis
      by (cases r) (auto dest!: failed_unchanged prune_Inr(1) simp: leases_def pruned_def prune_deliveries_def Let_def)
  next
    case (event_stored ft pm v)
    then show ?thesis using store_event_inv(4) [OF event_stored inv] by (simp add: leases_def)
  next
    case (deliveries_stored ft pm v es u)
    with insert_deliveries_Inr(1) [OF deliveries_stored(1)] show ?thesis by (auto simp: leases_def new_delivery_def)
  next
    case (leases_released sel now)
    then show ?thesis by (auto simp: leases_def release_lapsed_def dest: update_rows_processing)
  next
    case (secrets_forgotten some now clk)
    then show ?thesis by simp
  next
    case (deliveries_deleted ids)
    then show ?thesis by (auto simp: leases_def prune_deliveries_def)
  next
    case (events_deleted ids)
    then show ?thesis by (auto simp: leases_def delete_events_def prune_deliveries_def Let_def)
  next
    case (organization_added org)
    then show ?thesis by simp
  next
    case (organization_removed org)
    then show ?thesis by (auto simp: leases_def drop_organization_def Let_def)
  qed
qed

text \<open>A completion that is accepted ends the lease; no completion starts one.\<close>

lemma update_health_leases:
  assumes "update_health flt r cp n db = (Inr ok, db')" and "endpoints_ok d k (wk_endpoints db)"
  shows "leases db' \<subseteq> leases db"
  using assms
  by (cases rule: update_health_Inr) (auto simp: leases_def dest: canceled_for_processing)

lemma with_completed_leases:
  assumes inv: "wk_inv d db" and r: "r \<in> set (wk_deliveries db)" "leased_to c r" and ok: "completion_ok cp"
  shows "leases (with_completed c r cp db) \<subseteq> leases db - {l. fst l = wc_id c}"
proof
  fix l
  assume "l \<in> leases (with_completed c r cp db)"
  then obtain r' where r': "r' \<in> set (update_rows (\<lambda>x. wd_id x = wd_id r) (completed_delivery cp) (wk_deliveries db))"
    "wd_status r' = Wh_Processing" "l = (wd_id r', wd_endpoint r', wd_leaseToken r', wd_attempts r')"
    by (auto simp: leases_def with_completed_def)
  from r'(1) obtain x where x: "x \<in> set (wk_deliveries db)" "r' = (if wd_id x = wd_id r then completed_delivery cp x else x)"
    by (auto simp: update_rows_set)
  with r'(2) completion_not_processing [OF ok] have "wd_id x \<noteq> wd_id r" by auto
  with x r' r(2) show "l \<in> leases db - {l. fst l = wc_id c}" by (auto simp: leases_def leased_to_def)
qed

lemma complete_leases:
  assumes c: "complete_delivery flt False c cp webhook_disable_after db = (r, db')" and inv: "wk_inv webhook_disable_after db"
  shows "leases db' \<subseteq> leases db" and "r = Inr True \<Longrightarrow> live c db \<and> \<not> live c db'" and "r \<noteq> Inr True \<Longrightarrow> db' = db"
proof -
  have all: "leases db' \<subseteq> leases db \<and> (r = Inr True \<longrightarrow> live c db \<and> \<not> live c db') \<and> (r \<noteq> Inr True \<longrightarrow> db' = db)"
  proof (cases r)
    case (Inl e)
    from c have "db' = db" unfolding Inl by (rule failed_unchanged(8))
    with Inl show ?thesis by simp
  next
    case (Inr ok)
    from c [unfolded Inr] inv show ?thesis
    proof (cases rule: complete_Inr)
      case stale
      with Inr show ?thesis by simp
    next
      case (retried x)
      note l = with_completed_leases [OF inv retried(1,2,4)]
      then have "\<not> live c db'" unfolding retried(7) by (auto simp: live_lease)
      with l retried(1,2,5) Inr show ?thesis by (auto simp: retried(7) live_def)
    next
      case (ended x)
      have "endpoints_ok webhook_disable_after (wk_next db) (wk_endpoints (with_completed c x cp db))"
        using inv by (simp add: wk_inv_def with_completed_def)
      note h = update_health_leases [OF ended(6) this]
      note l = with_completed_leases [OF inv ended(1,2,4)]
      have "ok" using ended(6)
        by (cases rule: update_health_Inr [OF ended(6) \<open>endpoints_ok _ _ _\<close>]) simp_all
      from h l have "leases db' \<subseteq> leases db" "\<not> live c db'" by (auto simp: live_lease)
      with \<open>ok\<close> ended(1,2) Inr show ?thesis by (auto simp: live_def)
    qed
  qed
  then show "leases db' \<subseteq> leases db" and "r = Inr True \<Longrightarrow> live c db \<and> \<not> live c db'" and "r \<noteq> Inr True \<Longrightarrow> db' = db"
    by blast+
qed

subsection \<open>Claims\<close>

lemma claims_for_nth:
  "k < length rows \<Longrightarrow> claims_for token db 0 rows ! k
     = claim_of (token k) (rows ! k) (the (endpoint_of db (rows ! k))) (the (event_by_id (wd_event (rows ! k)) db))"
  by (simp add: claims_for_def nth_enumerate_eq)

lemma claims_for_length [simp]: "length (claims_for token db k rows) = length rows"
  by (simp add: claims_for_def)

lemma find_enumerate_Some:
  "find (\<lambda>p. wd_id (snd p) = i) (enumerate k rows) = Some (j, row)
   \<Longrightarrow> k \<le> j \<and> j < k + length rows \<and> rows ! (j - k) = row \<and> wd_id row = i"
  using find_Some_iff [of "\<lambda>p. wd_id (snd p) = i" "enumerate k rows" "(j, row)"]
  by (auto simp: nth_enumerate_eq)

text \<open>The leases after a claim: those there were, and a new one for each row claimed, which was not being
  processed.\<close>

lemma claim_leases:
  assumes c: "lease_due flt locked token now lease limit db = (Inr cs, db')"
    and inv: "wk_inv d db" and tok: "\<And>k. token k \<noteq> ''''"
  obtains rows :: "delivery_row list" where "length cs = length rows" "distinct (map wd_id rows)"
    "\<And>k. k < length rows \<Longrightarrow> wc_id (cs ! k) = wd_id (rows ! k) \<and> wc_endpoint (cs ! k) = wd_endpoint (rows ! k)
       \<and> wc_token (cs ! k) = token k"
    "\<And>i e t n. (i, e, t, n) \<in> leases db' \<Longrightarrow> (i, e, t, n) \<in> leases db \<and> i \<notin> wd_id ` set rows
       \<or> (\<exists>k < length rows. i = wd_id (rows ! k) \<and> e = wd_endpoint (rows ! k) \<and> t = token k \<and> n = wc_number (cs ! k))"
proof -
  define rows where "rows = due_deliveries locked now (nat limit) db"
  note r = lease_due_Inr [OF c inv tok, folded rows_def]
  have len: "length cs = length rows" by (simp add: r(1))
  have nth: "wc_id (cs ! k) = wd_id (rows ! k) \<and> wc_endpoint (cs ! k) = wd_endpoint (rows ! k) \<and> wc_token (cs ! k) = token k
      \<and> wc_number (cs ! k) = u16 (wd_attempts (rows ! k) + 1)" if "k < length rows" for k
    using claims_for_nth [OF that, of token db] by (simp add: r(1) claim_of_def)
  have new: "(i, e, t, n) \<in> leases db \<and> i \<notin> wd_id ` set rows
       \<or> (\<exists>k < length rows. i = wd_id (rows ! k) \<and> e = wd_endpoint (rows ! k) \<and> t = token k \<and> n = wc_number (cs ! k))"
    if l: "(i, e, t, n) \<in> leases db'" for i e t n
  proof -
    from l obtain x y where x: "x \<in> set (wk_deliveries db)" and y: "y = leased token now (now + lease) 0 rows x"
      "wd_status y = Wh_Processing" "i = wd_id y" "e = wd_endpoint y" "t = wd_leaseToken y" "n = wd_attempts y"
      by (auto simp: leases_def r(2))
    show ?thesis
    proof (cases "find (\<lambda>p. wd_id (snd p) = wd_id x) (enumerate 0 rows)")
      case None
      with y(1) have yx: "y = x" by (simp add: leased_def)
      with x y(2-6) None show ?thesis by (auto simp: leases_def find_enumerate_None)
    next
      case (Some p)
      obtain k row where p: "p = (k, row)" by (cases p)
      from find_enumerate_Some [OF Some [unfolded p]]
      have k: "k < length rows" "rows ! k = row" "wd_id row = wd_id x" by simp_all
      from nth_mem [OF k(1)] have "row \<in> set rows" by (simp add: k(2))
      then have "row \<in> set (wk_deliveries db)" unfolding rows_def by (rule due_deliveries_in(1))
      with delivery_unique [OF inv x] k(3) have xr: "x = row" by simp
      have "y = leased_delivery now (now + lease) (token k) row row"
        unfolding y(1) leased_def Some p by (simp add: xr)
      with y(3-6) nth [OF k(1)] k(2) have "i = wd_id (rows ! k)" "e = wd_endpoint (rows ! k)" "t = token k" "n = wc_number (cs ! k)"
        by simp_all
      with k(1) show ?thesis by blast
    qed
  qed
  have dist: "distinct (map wd_id rows)" unfolding rows_def by (rule due_deliveries_distinct [OF inv])
  show thesis
  proof (rule that [OF len dist])
    show "wc_id (cs ! k) = wd_id (rows ! k) \<and> wc_endpoint (cs ! k) = wd_endpoint (rows ! k) \<and> wc_token (cs ! k) = token k"
      if "k < length rows" for k using nth [OF that] by simp
  qed (rule new)
qed

text \<open>Tokens are never reused; a lease belongs to the newest claim of its delivery, which has the attempt's number;
  a claim whose completion was accepted holds no lease.\<close>

definition issued :: "claimed_delivery list \<Rightarrow> webhook_db \<Rightarrow> bool" where
  "issued claims db \<longleftrightarrow> (\<forall>i e t n. (i, e, t, n) \<in> leases db
     \<longrightarrow> (\<exists>c \<in> set claims. wc_id c = i \<and> wc_endpoint c = e \<and> wc_token c = t \<and> wc_number c = n))"

definition newest :: "claimed_delivery list \<Rightarrow> webhook_db \<Rightarrow> bool" where
  "newest claims db \<longleftrightarrow> (\<forall>i j. i < j \<longrightarrow> j < length claims \<longrightarrow> live (claims ! i) db \<longrightarrow> wc_id (claims ! i) \<noteq> wc_id (claims ! j))"

definition released :: "claimed_delivery list \<Rightarrow> webhook_db \<Rightarrow> bool" where
  "released completed db \<longleftrightarrow> (\<forall>c \<in> set completed. \<not> live c db)"

definition fenced :: "wh_world \<Rightarrow> bool" where
  "fenced w \<longleftrightarrow> distinct (map wc_token (ww_claims w)) \<and> issued (ww_claims w) (ww_db w) \<and> newest (ww_claims w) (ww_db w)
     \<and> released (ww_done w) (ww_db w) \<and> distinct (ww_done w) \<and> set (ww_done w) \<subseteq> set (ww_claims w)"

lemma fenced_shrink:
  assumes f: "fenced w" and sub: "leases db' \<subseteq> leases (ww_db w)"
  shows "fenced (w\<lparr>ww_db := db'\<rparr>)"
proof -
  note l = live_mono [OF sub]
  have "issued (ww_claims w) db'" using f sub unfolding fenced_def issued_def by blast
  moreover have "newest (ww_claims w) db'" using f l unfolding fenced_def newest_def by blast
  moreover have "released (ww_done w) db'" using f l unfolding fenced_def released_def by blast
  ultimately show ?thesis using f by (simp add: fenced_def)
qed

lemma fenced_claim:
  assumes f: "fenced w" and inv: "wk_inv d (ww_db w)" and fresh: "fresh_tokens token w"
    and c: "lease_due flt locked token now lease limit (ww_db w) = (Inr cs, db')"
  shows "fenced (w\<lparr>ww_db := db', ww_claims := ww_claims w @ cs\<rparr>)"
proof (rule claim_leases [OF c inv])
  have tok: "\<And>k. token k \<noteq> ''''" "\<And>k. token k \<notin> wc_token ` set (ww_claims w)" "inj token"
    using fresh by (simp_all add: fresh_tokens_def)
  from tok(1) show "token k \<noteq> ''''" for k .
  fix rows :: "delivery_row list"
  assume len: "length cs = length rows" and dist: "distinct (map wd_id rows)"
    and nth: "\<And>k. k < length rows \<Longrightarrow> wc_id (cs ! k) = wd_id (rows ! k) \<and> wc_endpoint (cs ! k) = wd_endpoint (rows ! k)
       \<and> wc_token (cs ! k) = token k"
    and new: "\<And>i e t n. (i, e, t, n) \<in> leases db' \<Longrightarrow> (i, e, t, n) \<in> leases (ww_db w) \<and> i \<notin> wd_id ` set rows
       \<or> (\<exists>k < length rows. i = wd_id (rows ! k) \<and> e = wd_endpoint (rows ! k) \<and> t = token k \<and> n = wc_number (cs ! k))"
  have toks: "map wc_token cs = map token [0..<length rows]"
    using len nth by (auto intro: nth_equalityI)
  have old: "live c (ww_db w) \<and> wc_id c \<notin> wd_id ` set rows" if "c \<in> set (ww_claims w)" "live c db'" for c
  proof -
    from that(2) obtain n where "(wc_id c, wc_endpoint c, wc_token c, n) \<in> leases db'" by (auto simp: live_lease)
    moreover have "wc_token c \<noteq> token k" for k using that(1) tok(2) [of k] by (metis image_eqI)
    ultimately show ?thesis using new [of "wc_id c" "wc_endpoint c" "wc_token c" n] by (auto simp: live_lease)
  qed
  have ids: "wc_id ` set cs = wd_id ` set rows"
  proof -
    have "map wc_id cs = map wd_id rows" using len nth by (auto intro: nth_equalityI)
    then show ?thesis by (metis image_set)
  qed
  have d1: "distinct (map wc_token (ww_claims w @ cs))"
  proof -
    have "distinct (map wc_token cs)" unfolding toks using tok(3) by (simp add: distinct_map inj_on_def inj_def)
    moreover have "set (map wc_token cs) \<inter> set (map wc_token (ww_claims w)) = {}" unfolding toks using tok(2) by auto
    ultimately show ?thesis using f unfolding map_append distinct_append fenced_def by blast
  qed
  have "issued (ww_claims w @ cs) db'"
    unfolding issued_def
  proof (intro allI impI)
    fix i e t n
    assume "(i, e, t, n) \<in> leases db'"
    from new [OF this] show "\<exists>c \<in> set (ww_claims w @ cs). wc_id c = i \<and> wc_endpoint c = e \<and> wc_token c = t \<and> wc_number c = n"
    proof
      assume "(i, e, t, n) \<in> leases (ww_db w) \<and> i \<notin> wd_id ` set rows"
      with f show ?thesis unfolding fenced_def issued_def by (metis Un_iff set_append)
    next
      assume "\<exists>k < length rows. i = wd_id (rows ! k) \<and> e = wd_endpoint (rows ! k) \<and> t = token k \<and> n = wc_number (cs ! k)"
      then obtain k where "k < length rows" "i = wd_id (rows ! k)" "e = wd_endpoint (rows ! k)" "t = token k" "n = wc_number (cs ! k)"
        by blast
      with nth [of k] len show ?thesis by (auto intro!: bexI [of _ "cs ! k"])
    qed
  qed
  moreover have "newest (ww_claims w @ cs) db'"
    unfolding newest_def
  proof (intro allI impI)
    fix i j
    assume ij: "i < j" "j < length (ww_claims w @ cs)" "live ((ww_claims w @ cs) ! i) db'"
    show "wc_id ((ww_claims w @ cs) ! i) \<noteq> wc_id ((ww_claims w @ cs) ! j)"
    proof (cases "i < length (ww_claims w)")
      case i: True
      with ij(3) have l: "live (ww_claims w ! i) (ww_db w)" "wc_id (ww_claims w ! i) \<notin> wc_id ` set cs"
        using old [of "ww_claims w ! i"] by (simp_all add: nth_append ids)
      show ?thesis
      proof (cases "j < length (ww_claims w)")
        case True
        with f ij(1) l(1) i show ?thesis by (simp add: fenced_def newest_def nth_append)
      next
        case False
        with ij(2) have "cs ! (j - length (ww_claims w)) \<in> set cs" by (intro nth_mem) simp
        with l(2) i False show ?thesis by (auto simp: nth_append image_iff)
      qed
    next
      case False
      then obtain i' j' where k: "i = length (ww_claims w) + i'" "j = length (ww_claims w) + j'" "i' < j'" "j' < length cs"
        using ij by (intro that [of "i - length (ww_claims w)" "j - length (ww_claims w)"]) auto
      with dist len nth [of i'] nth [of j'] show ?thesis
        by (auto simp: nth_append distinct_conv_nth)
    qed
  qed
  moreover have "released (ww_done w) db'"
    using f old unfolding fenced_def released_def by blast
  ultimately show ?thesis using d1 f by (auto simp: fenced_def)
qed

lemma wh_step_fenced:
  assumes "wh_step w w'" and inv: "wk_inv webhook_disable_after (ww_db w)" and f: "fenced w"
  shows "fenced w'"
  using assms(1)
proof cases
  case (change db')
  with fenced_shrink [OF f outbox_change_leases [OF change(2) inv]] show ?thesis by simp
next
  case (claim flt locked token now lease limit cs db')
  from claim(1) fenced_claim [OF f inv claim(3,2)] show ?thesis by simp
next
  case (complete flt c cp r db')
  note l = complete_leases [OF complete(2) inv]
  show ?thesis
  proof (cases "r = Inr True")
    case True
    with l(2) f have "c \<notin> set (ww_done w)" "\<not> live c db'" by (auto simp: fenced_def released_def)
    with fenced_shrink [OF f l(1)] complete(1,3) True show ?thesis by (auto simp: fenced_def released_def)
  next
    case False
    with fenced_shrink [OF f l(1)] complete(1) show ?thesis by simp
  qed
qed

lemma wh_reachable_fenced: "wh_reachable w \<Longrightarrow> fenced w"
proof (induction rule: wh_reachable.induct)
  case (start orgs)
  then show ?case by (simp add: fenced_def issued_def newest_def released_def leases_def empty_webhook_db_def)
next
  case (step w w')
  then show ?case using wh_step_fenced wh_reachable_inv by blast
qed

subsection \<open>A call of ClaimDue is a run of its statements\<close>

lemma claim_due_reachable:
  assumes "wh_reachable w" and "claim_due flt False locked token now lease limit (ww_db w) = (Inr cs, db')"
    and "fresh_tokens token w"
  shows "wh_reachable (w\<lparr>ww_db := db', ww_claims := ww_claims w @ cs\<rparr>)"
proof -
  let ?w = "w\<lparr>ww_db := with_released now (ww_db w)\<rparr>"
  have 1: "wh_step w ?w" using wh_step.change [OF outbox_change.leases_released [of "ww_db w" "\<lambda>_. True" now]] by simp
  have "fresh_tokens token ?w" using assms(3) by (simp add: fresh_tokens_def)
  with wh_step.claim [of flt locked token now lease limit ?w cs db'] claim_due_runs(1) [OF assms(2)]
  have "wh_step ?w (?w\<lparr>ww_db := db', ww_claims := ww_claims w @ cs\<rparr>)" by simp
  from wh_reachable.step [OF wh_reachable.step [OF assms(1) 1] this] show ?thesis by simp
qed

subsection \<open>Events stay what they are\<close>

inductive wh_steps :: "wh_world \<Rightarrow> wh_world \<Rightarrow> bool" where
  start: "wh_steps w w"
| step: "wh_steps w w' \<Longrightarrow> wh_step w' w'' \<Longrightarrow> wh_steps w w''"

lemma wh_reachable_steps: "wh_steps w w' \<Longrightarrow> wh_reachable w \<Longrightarrow> wh_reachable w'"
  by (induction rule: wh_steps.induct) (auto intro: wh_reachable.step)

text \<open>Ids are handed out in order, and no statement writes an event again.\<close>

definition events_grow :: "webhook_db \<Rightarrow> webhook_db \<Rightarrow> bool" where
  "events_grow db db' \<longleftrightarrow> wk_next db \<le> wk_next db'
     \<and> (\<forall>v \<in> set (wk_events db'). v \<in> set (wk_events db) \<or> wk_next db \<le> wv_id v)"

lemma events_grow_trans: "events_grow db db' \<Longrightarrow> events_grow db' db'' \<Longrightarrow> events_grow db db''"
  unfolding events_grow_def by (meson order_trans)

lemma events_grow_same [simp]:
  "wk_events db' = wk_events db \<Longrightarrow> wk_next db \<le> wk_next db' \<Longrightarrow> events_grow db db'"
  by (simp add: events_grow_def)

lemma outbox_change_grow:
  assumes "outbox_change db db'" and inv: "wk_inv webhook_disable_after db"
  shows "events_grow db db'"
proof -
  have es: "endpoints_ok webhook_disable_after (wk_next db) (wk_endpoints db)" using inv by (simp add: wk_inv_def)
  from assms(1) show ?thesis
  proof (cases rule: outbox_change.cases)
    case (created flt m r)
    then show ?thesis by (cases r) (auto dest!: failed_unchanged create_endpoint_Inr(4))
  next
    case (updated flt i m r)
    show ?thesis
    proof (cases r)
      case (Inr v)
      with updated have "update_endpoint flt False i m db = (Inr v, db')" by simp
      from this es show ?thesis by (rule update_endpoint_Inr) simp
    qed (use updated in \<open>auto dest: failed_unchanged\<close>)
  next
    case (switched flt org i actor on version now r)
    show ?thesis
    proof (cases r)
      case (Inr v)
      with switched have "replace_endpoint_status flt False org i actor on version now db = (Inr v, db')" by simp
      from this es show ?thesis by (rule replace_status_Inr) simp
    qed (use switched in \<open>auto dest: failed_unchanged\<close>)
  next
    case (deleted flt org i actor version now r)
    show ?thesis
    proof (cases r)
      case (Inr v)
      with deleted have "delete_endpoint flt False org i actor version now db = (Inr v, db')" by simp
      from this es show ?thesis by (rule delete_endpoint_Inr) simp
    qed (use deleted in \<open>auto dest: failed_unchanged\<close>)
  next
    case (rotated flt i m until r)
    show ?thesis
    proof (cases r)
      case (Inr v)
      with rotated have "rotate_endpoint_secret flt False i m until db = (Inr v, db')" by simp
      from this es show ?thesis by (rule rotate_secret_Inr) simp
    qed (use rotated in \<open>auto dest: failed_unchanged\<close>)
  next
    case (published flt pm r)
    show ?thesis
    proof (cases r)
      case (Inr v)
      with published have "publish_event flt False pm db = (Inr v, db')" by simp
      then show ?thesis
        by (cases rule: publish_Inr) (simp_all add: events_grow_def new_webhook_event_def)
    qed (use published in \<open>auto dest: failed_unchanged\<close>)
  next
    case (replayed flt org i actor now r)
    show ?thesis
    proof (cases r)
      case (Inr v)
      with replayed have "replay_delivery flt False org i actor now db = (Inr v, db')" by simp
      then show ?thesis by (rule replay_Inr) simp
    qed (use replayed in \<open>auto dest: failed_unchanged\<close>)
  next
    case (pruned flt clk before now r)
    then show ?thesis
      by (cases r) (auto dest!: failed_unchanged prune_Inr(1) simp: events_grow_def pruned_def prune_deliveries_def Let_def)
  next
    case (event_stored ft pm v)
    with store_event_inv(2,3,6) [OF event_stored inv] show ?thesis by (simp add: events_grow_def new_webhook_event_def)
  next
    case (deliveries_stored ft pm v es u)
    with insert_deliveries_Inr(1) [OF deliveries_stored(1)] show ?thesis by simp
  qed (simp_all add: events_grow_def release_lapsed_def prune_deliveries_def delete_events_def drop_organization_def Let_def)
qed

lemma update_health_grow:
  "update_health flt r cp n db = (Inr ok, db') \<Longrightarrow> endpoints_ok d k (wk_endpoints db) \<Longrightarrow> events_grow db db'"
  by (erule (1) update_health_Inr) simp_all

lemma wh_step_grow:
  assumes "wh_step w w'" and inv: "wk_inv webhook_disable_after (ww_db w)"
  shows "events_grow (ww_db w) (ww_db w')"
  using assms(1)
proof cases
  case (change db')
  with outbox_change_grow [OF change(2) inv] show ?thesis by simp
next
  case (claim flt locked token now lease limit cs db')
  have tok: "\<And>k. token k \<noteq> ''''" using claim(3) by (simp add: fresh_tokens_def)
  from claim(1) lease_due_Inr(2) [OF claim(2) inv tok] show ?thesis by simp
next
  case (complete flt c cp r db')
  show ?thesis
  proof (cases r)
    case (Inl e)
    from complete(2) have "db' = ww_db w" unfolding Inl by (rule failed_unchanged(8))
    with complete(1) show ?thesis by simp
  next
    case (Inr ok)
    from complete(2) [unfolded Inr] inv have "events_grow (ww_db w) db'"
    proof (cases rule: complete_Inr)
      case (ended x)
      have "endpoints_ok webhook_disable_after (wk_next (ww_db w)) (wk_endpoints (with_completed c x cp (ww_db w)))"
        using inv by (simp add: wk_inv_def with_completed_def)
      from update_health_grow [OF ended(6) this]
      show ?thesis by (rule events_grow_trans [rotated]) (simp add: with_completed_def)
    qed (simp_all add: with_completed_def)
    with complete(1) show ?thesis by simp
  qed
qed

lemma wh_steps_grow:
  assumes "wh_steps w w'" and "wh_reachable w"
  shows "events_grow (ww_db w) (ww_db w')"
  using assms
proof (induction rule: wh_steps.induct)
  case (start w)
  then show ?case by simp
next
  case (step w w' w'')
  have "wk_inv webhook_disable_after (ww_db w')"
    by (rule wh_reachable_inv [OF wh_reachable_steps [OF step.hyps(1) step.prems]])
  from events_grow_trans [OF step.IH [OF step.prems] wh_step_grow [OF step.hyps(2) this]] show ?case .
qed

text \<open>An event that is still stored is the event it was.\<close>

lemma stored_event_same:
  assumes "wh_steps w w'" and "wh_reachable w" and "v \<in> set (wk_events (ww_db w))"
    and "v' \<in> set (wk_events (ww_db w'))" and "wv_id v' = wv_id v"
  shows "v' = v"
proof -
  have inv: "wk_inv webhook_disable_after (ww_db w)" by (rule wh_reachable_inv [OF assms(2)])
  then have "wv_id v < wk_next (ww_db w)" using assms(3) by (auto simp: wk_inv_def wh_events_ok_def)
  with wh_steps_grow [OF assms(1,2)] assms(4,5) have "v' \<in> set (wk_events (ww_db w))"
    by (auto simp: events_grow_def)
  with inv assms(3,5) show ?thesis by (auto simp: wk_inv_def wh_events_ok_def distinct_map inj_on_def)
qed

end
