(* ===== verification/Webhook_Props.thy ===== *)
theory Webhook_Props
  imports Webhook_World "HOL-Library.Multiset"
begin

text \<open>
  The properties of the webhook outbox, of its service and of the messages it sends, over the reachable states of
  \<open>Webhook_World\<close>. The witnesses use one endpoint, one event and the delivery made for it.
\<close>

subsection \<open>A sample\<close>

definition no_faults :: wh_faults where "no_faults = (\<lambda>_. None)"

definition demo_endpoint :: endpoint_mutation where
  "demo_endpoint =
     \<lparr>em_organization = 7, em_actor = 3, em_name = ''n'', em_url = ''https://h/'', em_urlHash = replicate 64 CHR ''a'',
      em_types = [''a.b''], em_secret = ''s'', em_hint = ''h'', em_expected = 0, em_now = 1000\<rparr>"

definition demo_publication :: publication_mutation where
  "demo_publication =
     \<lparr>pm_organization = 7, pm_target = 0, pm_messageID = ''msg_u'', pm_source = ''s'', pm_eventID = ''e'',
      pm_fingerprint = webhook_event_fingerprint 7 ''s'' ''e'' ''a.b'' 2000 ''{}'', pm_type = ''a.b'', pm_payload = ''{}'', pm_occurredAt = 2000, pm_now = 2000\<rparr>"

definition demo_row :: endpoint_row where
  "demo_row = new_endpoint 1 demo_endpoint"

definition demo_subscription :: subscription_row where
  "demo_subscription = \<lparr>wb_id = 2, wb_endpoint = 1, wb_organization = 7, wb_type = ''a.b'', wb_createdAt = 1000\<rparr>"

definition demo_event :: wh_event_row where
  "demo_event = new_webhook_event 3 demo_publication"

definition demo_delivery :: delivery_row where
  "demo_delivery = new_delivery demo_publication 3 (4, demo_row)"

definition demo_db1 :: webhook_db where
  "demo_db1 =
     \<lparr>wk_organizations = [7], wk_endpoints = [demo_row], wk_subscriptions = [demo_subscription], wk_events = [],
      wk_deliveries = [], wk_attempts = [], wk_next = 3\<rparr>"

definition demo_db2 :: webhook_db where
  "demo_db2 = demo_db1\<lparr>wk_events := [demo_event], wk_deliveries := [demo_delivery], wk_next := 5\<rparr>"

definition demo_token :: "nat \<Rightarrow> string" where
  "demo_token k = CHR ''t'' # show_nat k"

definition demo_claim :: claimed_delivery where
  "demo_claim = claim_of (demo_token 0) demo_delivery demo_row demo_event"

definition demo_leased :: delivery_row where
  "demo_leased = leased_delivery 3000 (3000 + webhook_delivery_lease) (demo_token 0) demo_delivery demo_delivery"

definition demo_db3 :: webhook_db where
  "demo_db3 = demo_db2\<lparr>wk_deliveries := [demo_leased]\<rparr>"

definition demo_sent :: send_result where
  "demo_sent = no_result\<lparr>sr_http := Some 200\<rparr>"

definition demo_completion :: delivery_completion where
  "demo_completion = completion_of demo_claim demo_sent 3000 4000"

definition demo_db4 :: webhook_db where
  "demo_db4 = snd (complete_delivery no_faults False demo_claim demo_completion webhook_disable_after demo_db3)"

lemma valid_demo: "valid_webhook_event_type ''a.b''" "valid_webhook_source ''s''" "valid_webhook_event_id ''e''"
  by code_simp+

lemma zero_val: "zero_time = - 62135596800000000000"
  by (simp add: zero_time_def year_start_def day_nanos_def)

lemma lease_value: "webhook_delivery_lease = 60000000000"
  by (simp add: webhook_delivery_lease_def minutes_def seconds_def)

lemma demo_step1: "snd (create_endpoint no_faults False demo_endpoint (empty_webhook_db [7])) = demo_db1"
  by (simp add: demo_db1_def demo_row_def demo_subscription_def create_endpoint_def create_endpoint_in_tx_def Let_def
      no_faults_def demo_endpoint_def validate_endpoint_mutation_def zero_val empty_webhook_db_def new_endpoint_def
      insert_subscriptions_def new_subscriptions_def wh_transaction_def endpoint_subscriptions_def)

lemma demo_fields:
  "pm_type demo_publication = ''a.b''" "pm_organization demo_publication = 7" "pm_target demo_publication = 0"
  "validate_publication_mutation demo_publication = None" "we_organization demo_row = 7" "we_id demo_row = 1"
  "we_status demo_row = Endpoint_Active" "we_deletedAt demo_row = None" "we_failures demo_row = 0"
  by (simp_all add: demo_publication_def demo_endpoint_def validate_publication_mutation_def valid_demo zero_val
      demo_row_def new_endpoint_def webhook_event_fingerprint_def)

lemma demo_join: "subscribed_join demo_publication demo_db1 = [demo_row]"
  by (simp add: subscribed_join_def demo_db1_def demo_fields demo_subscription_def)

lemma demo_stored: "new_webhook_event 3 demo_publication = demo_event" "webhook_columns demo_event = demo_event"
  "wv_id demo_event = 3" "wk_next demo_db1 = 3"
  by (simp_all add: demo_event_def webhook_columns_def new_webhook_event_def demo_db1_def)
    (simp add: demo_publication_def column_time_def)

lemma demo_publish: "publish_event no_faults False demo_publication demo_db1
   = (Inr (publication_result demo_event True [delivery_from (Some demo_event) demo_delivery]), demo_db2)"
  by (simp add: publish_event_def publish_in_tx_def demo_fields wh_transaction_def insert_event_def no_faults_def Let_def
    fan_out_def insert_deliveries_def new_delivery_def subscribed_endpoints_def demo_join published_def deliveries_for_event_def
    demo_stored)
   (simp add: demo_db1_def demo_db2_def demo_delivery_def new_delivery_def demo_fields demo_stored)

lemma demo_row_times:
  "wd_id demo_delivery = 4" "wd_event demo_delivery = 3" "wd_endpoint demo_delivery = 1" "wd_status demo_delivery = Wh_Pending"
  "wd_availableAt demo_delivery = 2000" "wd_attempts demo_delivery = 0" "wd_cycle demo_delivery = 0" "wv_id demo_event = 3"
  "wd_leaseExpiresAt demo_delivery = None" "wd_organization demo_delivery = 7"
  by (simp_all add: demo_delivery_def new_delivery_def demo_fields demo_event_def new_webhook_event_def) (simp add: demo_publication_def)

lemma demo_claimed: "claim_due no_faults False (\<lambda>_. False) demo_token 3000 webhook_delivery_lease 10 demo_db2 = (Inr [demo_claim], demo_db3)"
  by (simp add: claim_due_def lease_due_def with_released_def zero_val lease_value wh_transaction_def no_faults_def Let_def demo_db2_def demo_db1_def update_rows_def
    lease_lapsed_def demo_row_times due_deliveries_def delivery_due_def demo_fields endpoint_of_def event_by_id_def rows_affected_def)
   (simp add: demo_claim_def demo_db3_def demo_leased_def demo_db2_def demo_db1_def lease_value)

lemma demo_claim_fields:
  "wc_id demo_claim = 4" "wc_endpoint demo_claim = 1" "wc_token demo_claim = demo_token 0" "wc_number demo_claim = 1"
  by (simp_all add: demo_claim_def claim_of_def demo_row_times u16_def)

lemma demo_leased_fields:
  "wd_id demo_leased = 4" "wd_endpoint demo_leased = 1" "wd_status demo_leased = Wh_Processing"
  "wd_leaseToken demo_leased = demo_token 0" "wd_attempts demo_leased = 1" "wd_organization demo_leased = 7"
  by (simp_all add: demo_leased_def demo_row_times u16_def)

lemma demo_completion_fields:
  "cp_status demo_completion = Wh_Delivered" "cp_startedAt demo_completion = 3000" "cp_completedAt demo_completion = 4000"
  by (simp_all add: demo_completion_def completion_of_def demo_sent_def no_result_def Let_def)

lemma demo_healthy: "we_status (endpoint_health n demo_completion demo_row) = Endpoint_Active"
  by (simp add: endpoint_health_def Let_def demo_completion_fields demo_fields)

lemma demo_completed: "fst (complete_delivery no_faults False demo_claim demo_completion webhook_disable_after demo_db3) = Inr True"
  by (simp add: complete_delivery_def demo_claim_fields demo_completion_fields zero_val demo_token_def webhook_disable_after_def
      wh_transaction_def complete_in_tx_def no_faults_def demo_db3_def demo_db2_def demo_db1_def leased_to_def demo_leased_fields
      Let_def completion_ok_def rows_affected_def update_health_def find_endpoint_for_update_def find_endpoint_def demo_fields demo_healthy)

definition demo_world :: wh_world where
  "demo_world = \<lparr>ww_db = demo_db4, ww_claims = [demo_claim], ww_done = [demo_claim]\<rparr>"

lemma demo_token_fresh: "inj demo_token"
  using read_show_nat unfolding inj_def demo_token_def by (metis list.inject option.inject)

lemma demo_created: "wh_reachable \<lparr>ww_db = demo_db1, ww_claims = [], ww_done = []\<rparr>"
proof -
  have "outbox_change (empty_webhook_db [7]) demo_db1"
    using outbox_change.created [of no_faults demo_endpoint "empty_webhook_db [7]"] demo_step1 by (metis prod.collapse)
  with wh_reachable.start [of "[7]"] show ?thesis
    using wh_reachable.step wh_step.change by (metis wh_world.select_convs(1) wh_world.update_convs(1))
qed

lemma demo_published: "wh_reachable \<lparr>ww_db = demo_db2, ww_claims = [], ww_done = []\<rparr>"
proof -
  have "outbox_change demo_db1 demo_db2" by (rule outbox_change.published [OF demo_publish])
  with demo_created show ?thesis
    using wh_reachable.step wh_step.change by (metis wh_world.select_convs(1) wh_world.update_convs(1))
qed

lemma demo_claim_reachable: "wh_reachable \<lparr>ww_db = demo_db3, ww_claims = [demo_claim], ww_done = []\<rparr>"
proof -
  let ?w = "\<lparr>ww_db = demo_db2, ww_claims = [], ww_done = []\<rparr>"
  have "fresh_tokens demo_token ?w" using demo_token_fresh by (simp add: fresh_tokens_def demo_token_def)
  from claim_due_reachable [OF demo_published _ this] demo_claimed show ?thesis by simp
qed

lemma demo_reachable: "wh_reachable demo_world"
proof -
  have "complete_delivery no_faults False demo_claim demo_completion webhook_disable_after demo_db3 = (Inr True, demo_db4)"
    using demo_completed unfolding demo_db4_def by (metis prod.collapse)
  with wh_step.complete [of no_faults demo_claim demo_completion "\<lparr>ww_db = demo_db3, ww_claims = [demo_claim], ww_done = []\<rparr>"]
  have "wh_step \<lparr>ww_db = demo_db3, ww_claims = [demo_claim], ww_done = []\<rparr> demo_world"
    by (simp add: demo_world_def)
  with demo_claim_reachable show ?thesis by (rule wh_reachable.step)
qed

subsection \<open>Claims\<close>

text \<open>C2: A claim completes at most once. In every reachable state no claim was completed twice; a claim that was
  completed, or whose delivery was claimed again later, is refused by \<open>Complete\<close> whatever it reports, and the
  tables stay as they are.\<close>

theorem webhook_claim_completes_once:
  assumes reach: "wh_reachable w" and i: "i < length (ww_claims w)"
    and over: "ww_claims w ! i \<in> set (ww_done w)
      \<or> (\<exists>j. i < j \<and> j < length (ww_claims w) \<and> wc_id (ww_claims w ! j) = wc_id (ww_claims w ! i))"
    and run: "complete_delivery flt False (ww_claims w ! i) cp webhook_disable_after (ww_db w) = (r, db')"
  shows "r \<noteq> Inr True \<and> db' = ww_db w \<and> distinct (ww_done w)"
proof -
  note f = wh_reachable_fenced [OF reach]
  have "\<not> live (ww_claims w ! i) (ww_db w)"
    using f i over by (fastforce simp: fenced_def released_def newest_def)
  with complete_leases [OF run wh_reachable_inv [OF reach]] f show ?thesis by (auto simp: fenced_def)
qed

theorem webhook_claim_completes_once_witness:
  "fst (complete_delivery no_faults False demo_claim demo_completion webhook_disable_after demo_db4) \<noteq> Inr True"
proof -
  let ?run = "complete_delivery no_faults False demo_claim demo_completion webhook_disable_after demo_db4"
  have "ww_claims demo_world ! 0 = demo_claim" "0 < length (ww_claims demo_world)" "demo_claim \<in> set (ww_done demo_world)"
    "ww_db demo_world = demo_db4"
    by (simp_all add: demo_world_def)
  with webhook_claim_completes_once [OF demo_reachable, of 0 no_faults demo_completion "fst ?run" "snd ?run"]
  show ?thesis by simp
qed

text \<open>The rows claimed and the claims made of them.\<close>

lemma claim_of_row:
  assumes c: "claim_due flt False locked token now lease limit db = (Inr cs, db')" and inv: "wk_inv d db"
    and tok: "\<And>k. token k \<noteq> ''''" and k: "k < length cs"
  obtains r e v where "r = due_deliveries locked now (nat limit) (with_released now db) ! k"
    "r \<in> set (due_deliveries locked now (nat limit) (with_released now db))"
    "e \<in> set (wk_endpoints db)" "we_id e = wd_endpoint r" "we_organization e = wd_organization r"
    "we_status e = Endpoint_Active" "we_deletedAt e = None" "we_secret e \<noteq> ''''"
    "v \<in> set (wk_events db)" "wv_organization v = wd_organization r" "cs ! k = claim_of (token k) r e v"
proof -
  define db1 where "db1 = with_released now db"
  define rows where "rows = due_deliveries locked now (nat limit) db1"
  note r = claim_due_Inr(1) [OF c inv tok, folded db1_def, folded rows_def]
  have inv1: "wk_inv d db1" unfolding db1_def by (rule released_inv [OF inv])
  have same: "wk_endpoints db1 = wk_endpoints db" "wk_events db1 = wk_events db" by (simp_all add: db1_def with_released_def)
  from k have k': "k < length rows" by (simp add: r)
  then have row: "rows ! k \<in> set rows" by simp
  then have pending: "rows ! k \<in> set (wk_deliveries db1)"
    unfolding rows_def by (rule due_deliveries_in)
  have "routed (wk_endpoints db1) (rows ! k)" using row due_routed [OF inv1] by (simp add: rows_def)
  from endpoint_of_routed [OF inv1 this] obtain e where e: "endpoint_of db1 (rows ! k) = Some e"
    "e \<in> set (wk_endpoints db)" "we_id e = wd_endpoint (rows ! k)" "we_organization e = wd_organization (rows ! k)"
    "we_status e = Endpoint_Active" "we_deletedAt e = None" "we_secret e \<noteq> ''''"
    using same(1) by metis
  from event_of_delivery [OF inv1 pending] obtain v where v: "event_by_id (wd_event (rows ! k)) db1 = Some v"
    "v \<in> set (wk_events db)" "wv_organization v = wd_organization (rows ! k)"
    using same(2) by metis
  have "cs ! k = claim_of (token k) (rows ! k) e v"
    using claims_for_nth [OF k', of token db1] by (simp add: r e(1) v(1))
  with e v row show thesis unfolding rows_def db1_def by (intro that) simp_all
qed

text \<open>C8: A claim goes to the endpoint as it is now, or nowhere. Whatever happened since the delivery was made, also
  between the statements that made it, its claim is for an endpoint that is active and not deleted, has fewer failures
  in a row than disable it, and lies in the organization of the event whose message and payload the claim carries; URL,
  secret, which is not empty, and current fingerprint are those of that endpoint. When the delivery was made for
  another URL, the dispatcher decrypts and sends nothing: its answer, and so the outcome, is ROUTE_CHANGED, which ends
  the delivery without a retry.\<close>

theorem webhook_claims_are_routed:
  assumes reach: "wh_reachable w" and tok: "\<And>k. token k \<noteq> ''''"
    and c: "claim_due flt False locked token now lease limit (ww_db w) = (Inr cs, db')" and k: "k < length cs"
  shows "(\<exists>e v. e \<in> set (wk_endpoints (ww_db w)) \<and> we_id e = wc_endpoint (cs ! k) \<and> we_status e = Endpoint_Active
      \<and> we_deletedAt e = None \<and> we_failures e < 5 \<and> wc_url (cs ! k) = we_url e \<and> wc_secret (cs ! k) = we_secret e
      \<and> wc_secret (cs ! k) \<noteq> '''' \<and> wc_currentHash (cs ! k) = we_urlHash e
      \<and> v \<in> set (wk_events (ww_db w)) \<and> wv_organization v = we_organization e
      \<and> wc_messageID (cs ! k) = wv_messageID v \<and> wc_payload (cs ! k) = wv_payload v)
    \<and> (\<exists>r \<in> set (wk_deliveries (with_released now (ww_db w))). wd_id r = wc_id (cs ! k) \<and> wd_hash r = wc_hash (cs ! k))
    \<and> (wc_hash (cs ! k) \<noteq> wc_currentHash (cs ! k) \<longrightarrow>
        (\<forall>lib s st. dispatch_outbound lib s st (cs ! k) = Inr (no_result\<lparr>sr_failure := ''WEBHOOK.ROUTE_CHANGED''\<rparr>))
        \<and> (\<forall>started done_at. cp_status (completion_of (cs ! k) (no_result\<lparr>sr_failure := ''WEBHOOK.ROUTE_CHANGED''\<rparr>) started done_at)
             = Wh_Failed))"
proof -
  note inv = wh_reachable_inv [OF reach]
  from claim_of_row [OF c inv tok k] obtain r e v where
    r: "r \<in> set (due_deliveries locked now (nat limit) (with_released now (ww_db w)))" and
    e: "e \<in> set (wk_endpoints (ww_db w))" "we_id e = wd_endpoint r" "we_organization e = wd_organization r"
      "we_status e = Endpoint_Active" "we_deletedAt e = None" "we_secret e \<noteq> ''''"
    and v: "v \<in> set (wk_events (ww_db w))" "wv_organization v = wd_organization r"
    and eq: "cs ! k = claim_of (token k) r e v" .
  have "we_failures e < 5"
    using inv e(1,4) by (auto simp: wk_inv_def endpoints_ok_def endpoint_row_ok_def webhook_disable_after_def)
  with e v eq have 1: "e \<in> set (wk_endpoints (ww_db w)) \<and> we_id e = wc_endpoint (cs ! k) \<and> we_status e = Endpoint_Active
      \<and> we_deletedAt e = None \<and> we_failures e < 5 \<and> wc_url (cs ! k) = we_url e \<and> wc_secret (cs ! k) = we_secret e
      \<and> wc_secret (cs ! k) \<noteq> '''' \<and> wc_currentHash (cs ! k) = we_urlHash e
      \<and> v \<in> set (wk_events (ww_db w)) \<and> wv_organization v = we_organization e
      \<and> wc_messageID (cs ! k) = wv_messageID v \<and> wc_payload (cs ! k) = wv_payload v"
    by (simp add: claim_of_def)
  have 2: "r \<in> set (wk_deliveries (with_released now (ww_db w)))" by (rule due_deliveries_in(1) [OF r])
  have 3: "wd_id r = wc_id (cs ! k)" "wd_hash r = wc_hash (cs ! k)" by (simp_all add: eq claim_of_def)
  have 4: "cp_status (completion_of (cs ! k) (no_result\<lparr>sr_failure := ''WEBHOOK.ROUTE_CHANGED''\<rparr>) started done_at) = Wh_Failed"
    for started done_at
    by (simp add: completion_of_def no_result_def Let_def)
  from 1 2 3 4 show ?thesis by (intro conjI impI allI) (blast, blast, simp add: dispatch_outbound_def, simp)
qed

theorem webhook_claims_are_routed_witness:
  "wc_currentHash demo_claim = we_urlHash demo_row \<and> wc_secret demo_claim \<noteq> ''''"
proof -
  have tok: "demo_token k \<noteq> ''''" for k by (simp add: demo_token_def)
  have "claim_due no_faults False (\<lambda>_. False) demo_token 3000 webhook_delivery_lease 10
      (ww_db \<lparr>ww_db = demo_db2, ww_claims = [], ww_done = []\<rparr>) = (Inr [demo_claim], demo_db3)"
    using demo_claimed by simp
  note here = webhook_claims_are_routed [OF demo_published tok this, of 0, THEN conjunct1]
  have "wk_endpoints (ww_db \<lparr>ww_db = demo_db2, ww_claims = [], ww_done = []\<rparr>) = [demo_row]" "[demo_claim] ! 0 = demo_claim"
    "0 < length [demo_claim]"
    by (simp_all add: demo_db2_def demo_db1_def)
  with here show ?thesis by fastforce
qed

text \<open>C35: The claims are for the first deliveries that are due, at most \<open>limit\<close>. \<open>free\<close> are the deliveries, after
  those on a lease that ran out were released, that are pending and due, belong to an active endpoint and are not
  locked; none is on a lease that still runs. The claims are for different deliveries in \<open>free\<close>, in the order in
  which these became available; a delivery left out became available no earlier, and with fewer than \<open>limit\<close>
  claims none is left out.\<close>

theorem webhook_claims_first_due:
  assumes reach: "wh_reachable w" and tok: "\<And>k. token k \<noteq> ''''"
    and c: "claim_due flt False locked token now lease limit (ww_db w) = (Inr cs, db')"
  defines "free \<equiv> filter (\<lambda>r. delivery_due now (ww_db w) r \<and> \<not> locked r) (wk_deliveries (with_released now (ww_db w)))"
  shows "\<exists>rows. map wc_id cs = map wd_id rows \<and> set rows \<subseteq> set free \<and> distinct (map wd_id rows)
    \<and> sorted (map wd_availableAt rows) \<and> length cs = min (nat limit) (length free)
    \<and> (\<forall>r r'. r \<in> set rows \<longrightarrow> r' \<in> set free - set rows \<longrightarrow> wd_availableAt r \<le> wd_availableAt r')"
proof -
  define sorted_rows where "sorted_rows = sort_key wd_availableAt free"
  define rows where "rows = due_deliveries locked now (nat limit) (with_released now (ww_db w))"
  note inv = wh_reachable_inv [OF reach] and r = claim_due_Inr(1) [OF c wh_reachable_inv [OF reach] tok, folded rows_def]
  have due: "delivery_due now (with_released now (ww_db w)) = delivery_due now (ww_db w)"
    by (auto simp: delivery_due_def with_released_def fun_eq_iff)
  have rows: "rows = take (nat limit) sorted_rows"
    by (simp add: rows_def due_deliveries_def due free_def sorted_rows_def)
  have perm: "set sorted_rows = set free" "length sorted_rows = length free" by (simp_all add: sorted_rows_def)
  have 1: "map wc_id cs = map wd_id rows"
    by (rule nth_equalityI) (simp_all add: r claims_for_nth claim_of_def)
  have 2: "set rows \<subseteq> set free" using set_take_subset [of "nat limit" sorted_rows] by (simp add: rows perm(1))
  have 3: "distinct (map wd_id rows)" unfolding rows_def by (rule due_deliveries_distinct [OF released_inv [OF inv]])
  have sorted: "sorted (map wd_availableAt sorted_rows)" by (simp add: sorted_rows_def)
  then have 4: "sorted (map wd_availableAt rows)" unfolding rows take_map [symmetric] by (rule sorted_wrt_take)
  have 5: "length cs = min (nat limit) (length free)" by (simp add: r rows perm(2))
  have 6: "wd_availableAt x \<le> wd_availableAt y" if "x \<in> set rows" "y \<in> set free - set rows" for x y
  proof -
    have split: "sorted_rows = rows @ drop (nat limit) sorted_rows" by (simp add: rows)
    with that(2) have "y \<in> set (drop (nat limit) sorted_rows)"
      unfolding perm(1) [symmetric] by (metis DiffD1 DiffD2 Un_iff set_append)
    with that(1) sorted show ?thesis
      by (subst (asm) split) (simp add: sorted_append)
  qed
  from 1 2 3 4 5 6 show ?thesis by (intro exI [of _ rows] conjI allI impI)
qed

theorem webhook_claims_first_due_witness:
  "length [demo_claim] = min 10 (length (filter (\<lambda>r. delivery_due 3000 demo_db2 r) (wk_deliveries (with_released 3000 demo_db2))))"
proof -
  have tok: "demo_token k \<noteq> ''''" for k by (simp add: demo_token_def)
  have "claim_due no_faults False (\<lambda>_. False) demo_token 3000 webhook_delivery_lease 10
      (ww_db \<lparr>ww_db = demo_db2, ww_claims = [], ww_done = []\<rparr>) = (Inr [demo_claim], demo_db3)"
    using demo_claimed by simp
  from webhook_claims_first_due [OF demo_published tok this] show ?thesis by auto
qed

subsection \<open>Outcomes\<close>

text \<open>The outcome of an attempt. A success delivers; a failure that may be retried before the tenth attempt of a
  cycle waits again, until the delay of the schedule after the completion; every other failure ends the delivery, as
  exhausted when it was retryable. The nine delays lie between 80 and 120 percent of one and five minutes, a quarter
  of an hour, one, three, six, twelve, eighteen and twenty-four hours, 51 to 78 hours together.\<close>

theorem webhook_retry_policy:
  "cp_status (completion_of c r started now)
     = (if sr_failure r = '''' then Wh_Delivered
        else if sr_retryable r \<and> wc_cycle c < 10 then Wh_Pending else Wh_Failed)
   \<and> cp_retryAt (completion_of c r started now)
     = (if sr_failure r \<noteq> '''' \<and> sr_retryable r \<and> wc_cycle c < 10
        then Some (now + webhook_retry_delay (wc_messageID c) (wc_cycle c)) else None)
   \<and> cp_failure (completion_of c r started now)
     = (if sr_failure r \<noteq> '''' \<and> sr_retryable r \<and> 10 \<le> wc_cycle c then ''WEBHOOK.RETRY_EXHAUSTED'' else sr_failure r)
   \<and> list_all (\<lambda>(n, s). 80 * s \<le> 100 * webhook_retry_delay m n \<and> 100 * webhook_retry_delay m n \<le> 120 * s)
       (zip [1, 2, 3, 4, 5, 6, 7, 8, 9]
         [minutes 1, minutes 5, minutes 15, hours 1, hours 3, hours 6, hours 12, hours 18, hours 24])
   \<and> hours 51 \<le> sum_list (map (webhook_retry_delay m) [1, 2, 3, 4, 5, 6, 7, 8, 9])
   \<and> sum_list (map (webhook_retry_delay m) [1, 2, 3, 4, 5, 6, 7, 8, 9]) \<le> hours 78"
proof -
  have delay: "\<exists>p. 80 \<le> p \<and> p \<le> 120 \<and> webhook_retry_delay m n = p * (retry_schedule ! (n - 1) div 100)"
    if "n \<in> {1, 2, 3, 4, 5, 6, 7, 8, 9}" for n
  proof -
    define p where "p = 80 + int (of_char (hd (sha256 (m @ CHR '':'' # show_nat n))) mod 41)"
    have "100 dvd retry_schedule ! (n - 1)"
      using that by (auto simp: retry_schedule_def hours_def minutes_def seconds_def)
    then have q: "retry_schedule ! (n - 1) * p div 100 = p * (retry_schedule ! (n - 1) div 100)"
      by (metis div_mult_swap mult.commute)
    have "min (n - 1) (length retry_schedule - 1) = n - 1" using that by (auto simp: retry_schedule_def)
    then have "webhook_retry_delay m n = p * (retry_schedule ! (n - 1) div 100)"
      unfolding webhook_retry_delay_def Let_def p_def [symmetric] by (simp only: q)
    moreover have "80 \<le> p" "p \<le> 120" by (simp_all add: p_def)
    ultimately show ?thesis by blast
  qed
  note vals = hours_def minutes_def seconds_def retry_schedule_def
  have bounds: "80 * s \<le> 100 * webhook_retry_delay m n \<and> 100 * webhook_retry_delay m n \<le> 120 * s"
    if "n \<in> {1, 2, 3, 4, 5, 6, 7, 8, 9}" "s = retry_schedule ! (n - 1)" for n s
  proof -
    note n = that
    from delay [OF n(1)] obtain p where p: "80 \<le> p" "p \<le> 120" "webhook_retry_delay m n = p * (s div 100)"
      unfolding n(2) by blast
    have "s div 100 * 100 = s" "0 \<le> s div 100" using n by (auto simp: vals)
    with p mult_right_mono [OF p(1), of "s div 100"] mult_right_mono [OF p(2), of "s div 100"] show ?thesis by simp
  qed
  have each: "list_all (\<lambda>(n, s). 80 * s \<le> 100 * webhook_retry_delay m n \<and> 100 * webhook_retry_delay m n \<le> 120 * s)
      (zip [1, 2, 3, 4, 5, 6, 7, 8, 9] retry_schedule)"
    using bounds [of 1, OF _ refl] bounds [of 2, OF _ refl] bounds [of 3, OF _ refl] bounds [of 4, OF _ refl]
      bounds [of 5, OF _ refl] bounds [of 6, OF _ refl] bounds [of 7, OF _ refl] bounds [of 8, OF _ refl]
      bounds [of 9, OF _ refl]
    by (simp add: retry_schedule_def)
  then have total: "hours 51 \<le> sum_list (map (webhook_retry_delay m) [1, 2, 3, 4, 5, 6, 7, 8, 9])"
    "sum_list (map (webhook_retry_delay m) [1, 2, 3, 4, 5, 6, 7, 8, 9]) \<le> hours 78"
    by (simp_all add: vals)
  from each total show ?thesis
    by (simp add: completion_of_def webhook_max_attempts_def Let_def retry_schedule_def)
qed

lemma find_endpoint_of_sent:
  assumes inv: "wk_inv d db" and r: "r \<in> set (wk_deliveries db)" "wd_status r = Wh_Processing"
  obtains e where "find_endpoint (wd_organization r) (wd_endpoint r) db = Some e" "we_status e = Endpoint_Active"
    "e \<in> set (wk_endpoints db)" "we_id e = wd_endpoint r" "we_failures e < d" "we_deletedAt e = None"
proof -
  from endpoint_of_routed [OF inv sent_routed [OF inv r]] obtain e where e: "e \<in> set (wk_endpoints db)" "we_id e = wd_endpoint r"
    "we_organization e = wd_organization r" "we_status e = Endpoint_Active" "we_deletedAt e = None" .
  have es: "endpoints_ok d (wk_next db) (wk_endpoints db)" using inv by (simp add: wk_inv_def)
  then have "distinct (map we_id (wk_endpoints db))" by (simp add: endpoints_ok_def)
  have "find_endpoint (wd_organization r) (wd_endpoint r) db = Some e"
  proof (cases "find_endpoint (wd_organization r) (wd_endpoint r) db")
    case None
    with e show ?thesis by (auto simp: find_endpoint_def find_key_None)
  next
    case (Some e')
    from find_endpoint_Some [OF Some] endpoint_unique [OF es _ e(1), of e'] e(2) Some show ?thesis by simp
  qed
  moreover have "we_failures e < d" using es e(1,4) by (auto simp: endpoints_ok_def endpoint_row_ok_def)
  ultimately show thesis using e by (intro that)
qed

lemma health_of:
  assumes "e \<in> set es" "we_id e = i"
  shows "f e \<in> set (update_rows (\<lambda>x. we_id x = i) f es)"
  using update_rows_in [OF assms(1), of "\<lambda>x. we_id x = i" f] assms(2) by simp

lemma canceled_none_open:
  assumes "x \<in> set (canceled_for i now rs)" "wd_endpoint x = i"
  shows "\<not> is_open (wd_status x)"
proof -
  from assms(1) obtain a where a: "x = (if wd_endpoint a = i \<and> is_open (wd_status a) then canceled_delivery now a else a)"
    by (auto simp: canceled_for_def update_rows_set)
  show ?thesis
  proof (cases "wd_endpoint a = i \<and> is_open (wd_status a)")
    case True
    then show ?thesis by (simp only: a if_True) simp
  next
    case False
    with a assms(2) show ?thesis by simp
  qed
qed

text \<open>C15: The circuit breaker. An accepted completion concerns an active endpoint. After a success its count of
  failures is zero; a retry leaves the endpoint as it was; a delivery that failed for good adds one to the count, and
  the fifth in a row disables the endpoint and leaves it no delivery that could still be sent.\<close>

theorem webhook_breaker:
  assumes reach: "wh_reachable w"
    and run: "complete_dispatch flt False c r started now (ww_db w) = (Inr True, db')"
  shows "\<exists>e e'. e \<in> set (wk_endpoints (ww_db w)) \<and> we_id e = wc_endpoint c \<and> we_status e = Endpoint_Active
    \<and> e' \<in> set (wk_endpoints db') \<and> we_id e' = wc_endpoint c
    \<and> (case cp_status (completion_of c r started now) of
         Wh_Pending \<Rightarrow> e' = e
       | Wh_Delivered \<Rightarrow> we_failures e' = 0 \<and> we_status e' = Endpoint_Active
       | _ \<Rightarrow> if we_failures e < 4 then we_failures e' = we_failures e + 1 \<and> we_status e' = Endpoint_Active
              else we_status e' = Endpoint_Disabled \<and> we_reason e' = ''consecutive_failures''
                \<and> (\<forall>x. x \<in> set (wk_deliveries db') \<longrightarrow> wd_endpoint x = wc_endpoint c \<longrightarrow> \<not> is_open (wd_status x)))"
proof -
  let ?db = "ww_db w" and ?cp = "completion_of c r started now"
  note inv = wh_reachable_inv [OF reach]
  have status: "cp_status ?cp \<in> {Wh_Pending, Wh_Delivered, Wh_Failed}"
    by (simp add: completion_of_def Let_def)
  from run have "complete_delivery flt False c ?cp webhook_disable_after ?db = (Inr True, db')"
    by (simp add: complete_dispatch_def)
  from this inv show ?thesis
  proof (cases rule: complete_Inr)
    case (retried x)
    then have "wd_status x = Wh_Processing" "wd_endpoint x = wc_endpoint c" by (simp_all add: leased_to_def)
    with find_endpoint_of_sent [OF inv retried(1)] obtain e where
      e: "e \<in> set (wk_endpoints ?db)" "we_id e = wc_endpoint c" "we_status e = Endpoint_Active" by metis
    have "cp_status ?cp = Wh_Pending" using retried(6) status by (auto simp: ends_delivery_def)
    with e retried(7) show ?thesis by (intro exI [of _ e]) (simp add: with_completed_def)
  next
    case (ended x)
    let ?db1 = "with_completed c x ?cp ?db"
    have x: "wd_status x = Wh_Processing" "wd_endpoint x = wc_endpoint c" using ended(2) by (simp_all add: leased_to_def)
    from find_endpoint_of_sent [OF inv ended(1) x(1)] obtain e where
      f: "find_endpoint (wd_organization x) (wd_endpoint x) ?db = Some e" and
      e: "e \<in> set (wk_endpoints ?db)" "we_id e = wd_endpoint x" "we_status e = Endpoint_Active" "we_failures e < webhook_disable_after" .
    have f1: "find_endpoint (wd_organization x) (wd_endpoint x) ?db1 = Some e"
      using f by (simp add: find_endpoint_def with_completed_def)
    have es: "endpoints_ok webhook_disable_after (wk_next ?db) (wk_endpoints ?db1)"
      using inv by (simp add: wk_inv_def with_completed_def)
    let ?h = "endpoint_health webhook_disable_after ?cp"
    have member: "?h e \<in> set (wk_endpoints db')"
      using ended(6) es
    proof (cases rule: update_health_Inr)
      case gone
      with f1 show ?thesis by simp
    next
      case (kept e')
      with health_of [OF e(1,2), of ?h] show ?thesis by (simp add: with_completed_def)
    next
      case (tripped e')
      with health_of [OF e(1,2), of ?h] show ?thesis by (simp add: with_completed_def)
    qed
    have ends: "cp_status ?cp = Wh_Delivered \<or> cp_status ?cp = Wh_Failed" using ended(5) by (simp add: ends_delivery_def)
    have h: "we_failures (?h e) = (if cp_status ?cp = Wh_Failed then we_failures e + 1 else 0)"
      "we_status (?h e) = (if cp_status ?cp = Wh_Failed \<and> 4 \<le> we_failures e then Endpoint_Disabled else Endpoint_Active)"
      "cp_status ?cp = Wh_Failed \<Longrightarrow> 4 \<le> we_failures e \<Longrightarrow> we_reason (?h e) = ''consecutive_failures''"
      using e(3,4) by (auto simp: endpoint_health_def Let_def u8_def webhook_disable_after_def)
    have none: "\<not> is_open (wd_status y)"
      if "we_status (?h e) = Endpoint_Disabled" "y \<in> set (wk_deliveries db')" "wd_endpoint y = wc_endpoint c" for y
      using ended(6) es
    proof (cases rule: update_health_Inr)
      case (tripped e')
      with that(2,3) x(2) show ?thesis by (auto dest: canceled_none_open)
    qed (use f1 that(1) e(3) in auto)
    show ?thesis
      using e(1-3) x(2) member h none ends by (intro exI [of _ e] exI [of _ "?h e"]) auto
  qed simp
qed

theorem webhook_breaker_witness:
  "\<exists>e. e \<in> set (wk_endpoints demo_db4) \<and> we_failures e = 0 \<and> we_status e = Endpoint_Active"
proof -
  have r: "wh_reachable \<lparr>ww_db = demo_db3, ww_claims = [demo_claim], ww_done = []\<rparr>" by (rule demo_claim_reachable)
  have "complete_dispatch no_faults False demo_claim demo_sent 3000 4000
      (ww_db \<lparr>ww_db = demo_db3, ww_claims = [demo_claim], ww_done = []\<rparr>) = (Inr True, demo_db4)"
    using demo_completed unfolding demo_db4_def complete_dispatch_def demo_completion_def by (simp add: prod_eq_iff)
  from webhook_breaker [OF r this] demo_completion_fields(1) show ?thesis unfolding demo_completion_def by auto
qed

subsection \<open>Publishing\<close>

lemma map_filter_key:
  "distinct (map k xs) \<Longrightarrow> map (\<lambda>_. e) (filter (\<lambda>x. k x = a) xs) = (if a \<in> k ` set xs then [e] else [])"
  by (induction xs) auto

lemma concat_map_guard: "concat (map (\<lambda>e. if P e then [e] else []) es) = filter P es"
  by (induction es) auto

text \<open>The endpoints an event of a type is for.\<close>

definition subscribers :: "nat \<Rightarrow> string \<Rightarrow> webhook_db \<Rightarrow> endpoint_row list" where
  "subscribers org type db =
     filter (\<lambda>e. we_organization e = org \<and> we_status e = Endpoint_Active \<and> we_deletedAt e = None
       \<and> list_ex (\<lambda>s. wb_endpoint s = we_id e \<and> wb_type s = type) (wk_subscriptions db)) (wk_endpoints db)"

lemma subscribed_join_subscribers:
  assumes "wk_inv d db" and "pm_target m = 0"
  shows "subscribed_join m db = subscribers (pm_organization m) (pm_type m) db"
proof -
  have "distinct (map subscription_key (wk_subscriptions db))"
    using assms(1) by (simp add: wk_inv_def subscriptions_ok_def)
  then have one: "map (\<lambda>_. e) (filter (\<lambda>s. wb_endpoint s = we_id e \<and> wb_type s = pm_type m) (wk_subscriptions db))
      = (if list_ex (\<lambda>s. wb_endpoint s = we_id e \<and> wb_type s = pm_type m) (wk_subscriptions db) then [e] else [])" for e
    using map_filter_key [of subscription_key "wk_subscriptions db" e "(we_id e, pm_type m)"]
    by (auto simp: list_ex_iff image_iff)
  show ?thesis
    unfolding subscribed_join_def one concat_map_guard subscribers_def
    using assms(2) by (simp add: conj_ac)
qed

lemma normalize_publication_fields:
  assumes "normalize_publication lib s uuid now v t = Inr m"
  shows "pm_organization m = wo_organization v" "pm_source m = wo_source v" "pm_eventID m = wo_eventID v" "pm_target m = t"
    "pm_type m = wo_type v" "pm_now m = now"
    "now' \<le> wo_occurredAt v + webhook_max_event_age \<Longrightarrow> wo_occurredAt v \<le> now' + webhook_max_future_skew \<Longrightarrow>
     normalize_publication lib s uuid' now' v t
       = Inr (m\<lparr>pm_messageID := ''msg_'' @ filter (\<lambda>c. c \<noteq> CHR ''-'') uuid', pm_now := now'\<rparr>)"
  using assms by (auto simp: normalize_publication_def split: if_splits sum.splits)

lemma publish_webhook_Inr:
  assumes "publish_webhook lib s flt bound uuid now v db = (Inr rc, db')"
  obtains m ds where "webhook_available s" "normalize_publication lib s uuid now v 0 = Inr m"
    "publish_event flt bound m db = (Inr (rc, ds), db')"
  using assms by (auto simp: publish_webhook_def split: if_splits sum.splits prod.splits)

text \<open>A service with the type \<open>a.b\<close> and a decoder that reads every text as the empty object.\<close>

definition demo_lib :: wh_lib where
  "demo_lib =
     \<lparr>li_parse = (\<lambda>_. Some (J_object [])), li_compact = Some, li_urlParse = (\<lambda>_. Some sample_url),
      li_showUrl = (\<lambda>_. ''https://h/''), li_addrOf = (\<lambda>_. None), li_lookup = (\<lambda>_. Inl ''''),
      li_seal = (\<lambda>key nonce text. text), li_unseal = (\<lambda>key nonce box. Some box)\<rparr>"

definition demo_service :: wh_service where
  "demo_service =
     \<lparr>ws_catalog = Some \<lparr>wg_ordered = [], wg_byType = [''a.b'' \<mapsto> \<lparr>wt_type = ''a.b'', wt_validate = Some (\<lambda>_. True)\<rparr>]\<rparr>,
      ws_secrets = Some (aes_encryptor_from_string ''''), ws_targets = \<lparr>tp_allowInsecureHTTP = False, tp_allowPrivateTarget = False\<rparr>,
      ws_sender = \<lparr>sn_timeout = 1, sn_maxResponse = 1\<rparr>, ws_enabled = True, ws_overlap = 1, ws_retention = hours 24\<rparr>"

definition demo_event_input :: webhook_event where
  "demo_event_input =
     \<lparr>wo_organization = 7, wo_source = ''s'', wo_eventID = ''e'', wo_type = ''a.b'', wo_occurredAt = 2000, wo_payload = ''{}''\<rparr>"

lemma demo_normalized: "normalize_publication demo_lib demo_service ''u'' 2000 demo_event_input 0 = Inr demo_publication"
  by (simp add: normalize_publication_def demo_event_input_def valid_demo zero_val webhook_max_event_age_def
      webhook_max_future_skew_def hours_def minutes_def seconds_def normalize_payload_def demo_service_def demo_lib_def
      canonical_json_object_def max_webhook_payload_def reject_duplicate_keys_def demo_publication_def)

lemma demo_service_publish:
  "publish_webhook demo_lib demo_service no_faults False ''u'' 2000 demo_event_input demo_db1
   = (Inr (fst (publication_result demo_event True [delivery_from (Some demo_event) demo_delivery])), demo_db2)"
proof -
  have "webhook_available demo_service"
    by (simp add: webhook_available_def demo_service_def hours_def minutes_def seconds_def)
  then show ?thesis by (simp add: publish_webhook_def demo_normalized demo_publish publication_result_def)
qed

text \<open>C11: A new event reaches every subscriber once. When \<open>PublishWebhook\<close> creates an event, one event with its identity
  is stored, and one delivery for each active endpoint of the organization that subscribes its type: pending, due at
  once, not tried, and for the URL the endpoint has. The receipt counts them.\<close>

theorem webhook_publish_fans_out:
  assumes reach: "wh_reachable w"
    and p: "publish_webhook lib s flt False uuid now v (ww_db w) = (Inr rc, db')" and new: "wr_created rc"
  shows "\<exists>ev rows. wk_events db' = wk_events (ww_db w) @ [ev] \<and> wv_id ev = wr_id rc
    \<and> event_identity ev = (wo_organization v, wo_source v, wo_eventID v)
    \<and> wk_deliveries db' = wk_deliveries (ww_db w) @ rows
    \<and> map (\<lambda>r. (wd_endpoint r, wd_hash r)) rows
        = map (\<lambda>e. (we_id e, we_urlHash e)) (subscribers (wo_organization v) (wo_type v) (ww_db w))
    \<and> list_all (\<lambda>r. wd_event r = wr_id rc \<and> wd_status r = Wh_Pending \<and> wd_availableAt r = now \<and> wd_attempts r = 0) rows
    \<and> wr_count rc = length rows"
proof -
  note inv = wh_reachable_inv [OF reach]
  from publish_webhook_Inr [OF p] obtain m ds where m: "normalize_publication lib s uuid now v 0 = Inr m"
    and run: "publish_event flt False m (ww_db w) = (Inr (rc, ds), db')" .
  note f = normalize_publication_fields(1-6) [OF m]
  from run show ?thesis
  proof (cases rule: publish_Inr)
    case (seen ev)
    with new show ?thesis by (auto simp: published_def publication_result_def split: sum.splits if_splits)
  next
    case (fresh ev es)
    let ?rows = "map (new_delivery m (wk_next (ww_db w))) (enumerate (wk_next (ww_db w) + 1) es)"
    have es: "es = subscribers (wo_organization v) (wo_type v) (ww_db w)"
      using subscribed_join_subscribers [OF inv f(4)] by (simp add: fresh(6) f)
    have fst_rows: "map (\<lambda>r. (wd_endpoint r, wd_hash r)) (map (new_delivery m i) (enumerate k xs)) = map (\<lambda>e. (we_id e, we_urlHash e)) xs"
      for i k xs by (induction xs arbitrary: k) (simp_all add: new_delivery_def)
    have old: "wd_event r \<noteq> wk_next (ww_db w)" if "r \<in> set (wk_deliveries (ww_db w))" for r
    proof -
      from inv that obtain u where "u \<in> set (wk_events (ww_db w))" "wv_id u = wd_event r"
        by (auto simp: wk_inv_def deliveries_ok_def owned_def)
      with inv show ?thesis by (auto simp: wk_inv_def wh_events_ok_def)
    qed
    have ev: "wv_id ev = wk_next (ww_db w)" by (simp add: fresh(5) new_webhook_event_def)
    have "filter (\<lambda>r. wd_event r = wv_id ev) (wk_deliveries db') = ?rows"
      using old by (auto simp: fresh(8) ev filter_empty_conv new_delivery_def intro!: filter_True)
    with fresh(9) have rc: "rc = fst (publication_result ev True (map (delivery_from (Some ev)) ?rows))"
      by (auto simp: published_def deliveries_for_event_def f(4) split: sum.splits if_splits option.splits)
    have "list_all (\<lambda>r. wd_event r = wr_id rc \<and> wd_status r = Wh_Pending \<and> wd_availableAt r = now \<and> wd_attempts r = 0) ?rows"
      by (auto simp: list_all_iff rc publication_result_def ev new_delivery_def f(6))
    moreover have "event_identity ev = (wo_organization v, wo_source v, wo_eventID v)"
      by (simp add: fresh(5) new_webhook_event_def f)
    ultimately show ?thesis
      using fst_rows [of "wk_next (ww_db w)" "wk_next (ww_db w) + 1" es]
      by (intro exI [of _ "webhook_columns ev"] exI [of _ ?rows]) (simp add: fresh(8) rc publication_result_def es [symmetric])
  qed
qed

theorem webhook_publish_fans_out_witness:
  "map we_id (subscribers 7 ''a.b'' demo_db1) = map wd_endpoint (wk_deliveries demo_db2)"
proof -
  have "publish_webhook demo_lib demo_service no_faults False ''u'' 2000 demo_event_input
      (ww_db \<lparr>ww_db = demo_db1, ww_claims = [], ww_done = []\<rparr>)
    = (Inr (fst (publication_result demo_event True [delivery_from (Some demo_event) demo_delivery])), demo_db2)"
    using demo_service_publish by simp
  from webhook_publish_fans_out [OF demo_created this]
  have "\<exists>rows. wk_deliveries demo_db2 = wk_deliveries demo_db1 @ rows
      \<and> map (\<lambda>r. (wd_endpoint r, wd_hash r)) rows
        = map (\<lambda>e. (we_id e, we_urlHash e)) (subscribers 7 ''a.b'' demo_db1)"
    by (auto simp: publication_result_def demo_event_input_def)
  then obtain rows where rows: "wk_deliveries demo_db2 = wk_deliveries demo_db1 @ rows"
    "map (\<lambda>r. (wd_endpoint r, wd_hash r)) rows = map (\<lambda>e. (we_id e, we_urlHash e)) (subscribers 7 ''a.b'' demo_db1)" by blast
  from arg_cong [OF rows(2), of "map fst"] rows(1) show ?thesis by (simp add: demo_db1_def comp_def)
qed

text \<open>C12: As long as an event is stored, publishing it again is harmless. Take any state in which an event with the
  identity is stored, and any later state in which its row is still there, whatever any process did in between. A call
  of \<open>PublishWebhook\<close> for that identity that gets past its own checks changes nothing. If its fingerprint is the stored
  one, it answers a receipt that is not a new one and has the id, message id, type and organization the event has had
  all along, and the number of deliveries stored for it; otherwise it answers a conflict.\<close>

theorem webhook_publish_is_idempotent:
  assumes reach: "wh_reachable w" and ev: "ev \<in> set (wk_events (ww_db w))"
    and later: "wh_steps w w2" "wv_id ev \<in> wv_id ` set (wk_events (ww_db w2))"
    and same: "event_identity ev = (wo_organization v, wo_source v, wo_eventID v)"
    and checks: "webhook_available s" "normalize_publication lib s uuid now v 0 = Inr m" "validate_publication_mutation m = None"
    and p: "publish_webhook lib s (\<lambda>_. None) False uuid now v (ww_db w2) = (res, db')"
  shows "db' = ww_db w2
    \<and> (if wv_fingerprint ev = pm_fingerprint m
       then \<exists>rc. res = Inr rc \<and> \<not> wr_created rc \<and> wr_id rc = wv_id ev \<and> wr_messageID rc = wv_messageID ev
         \<and> wr_type rc = wv_type ev \<and> wr_organization rc = wv_organization ev
         \<and> wr_count rc = length (filter (\<lambda>r. wd_event r = wv_id ev) (wk_deliveries (ww_db w2)))
       else res = Inl ErrWebhookIdempotencyConflict)"
proof -
  let ?db = "ww_db w2"
  from later(2) obtain ev' where ev': "ev' \<in> set (wk_events ?db)" "wv_id ev' = wv_id ev" by auto
  with stored_event_same [OF later(1) reach ev] have here: "ev \<in> set (wk_events ?db)" by metis
  note f = normalize_publication_fields [OF checks(2)]
  have id: "same_identity m u \<longleftrightarrow> event_identity u = event_identity ev" for u
    by (auto simp: same_identity_def f same)
  have dist: "distinct (map event_identity (wk_events ?db))"
    using wh_reachable_inv [OF wh_reachable_steps [OF later(1) reach]] by (simp add: wk_inv_def wh_events_ok_def)
  have "same_identity m = (\<lambda>u. event_identity u = event_identity ev)" using id by blast
  with find_unique [OF dist here] have found: "find (same_identity m) (wk_events ?db) = Some ev" by simp
  have taken: "list_ex (same_identity m) (wk_events ?db)" using here by (auto simp: list_ex_iff id)
  have "publish_event (\<lambda>_. None) False m ?db
      = (if wv_fingerprint ev \<noteq> pm_fingerprint m then (Inl ErrWebhookIdempotencyConflict, ?db)
         else (Inr (publication_result ev False (map (delivery_from (Some ev))
                (filter (\<lambda>r. wd_event r = wv_id ev) (wk_deliveries ?db)))), ?db))"
    using found taken f(4)
    by (simp add: publish_event_def checks(3) publish_in_tx_def insert_event_def published_def deliveries_for_event_def
        wh_transaction_def)
  with p checks(1,2) show ?thesis
    by (auto simp: publish_webhook_def publication_result_def split: if_splits)
qed

theorem webhook_publish_is_idempotent_witness:
  "snd (publish_webhook demo_lib demo_service (\<lambda>_. None) False ''u'' 2000 demo_event_input demo_db2) = demo_db2"
proof -
  let ?w = "\<lparr>ww_db = demo_db2, ww_claims = [], ww_done = []\<rparr>"
  have "demo_event \<in> set (wk_events (ww_db ?w))" by (simp add: demo_db2_def)
  moreover have "wv_id demo_event \<in> wv_id ` set (wk_events (ww_db ?w))" using calculation by blast
  moreover have "event_identity demo_event = (wo_organization demo_event_input, wo_source demo_event_input, wo_eventID demo_event_input)"
    by (simp add: demo_event_def new_webhook_event_def demo_publication_def demo_event_input_def)
  moreover have "webhook_available demo_service"
    by (simp add: webhook_available_def demo_service_def hours_def minutes_def seconds_def)
  ultimately show ?thesis
    using webhook_publish_is_idempotent [OF demo_published _ wh_steps.start _ _ _ demo_normalized demo_fields(4) prod.collapse [symmetric]]
    by simp
qed

subsection \<open>Retention\<close>

text \<open>C32: The ids \<open>Prune\<close> reads belong to deliveries that had ended, of events created before the cutoff; but the deletion does
  not look again. A delivery that is replayed in between is waiting to be sent when it is deleted, with its attempts,
  whatever else happens until then, and no claim will be made of it.\<close>

theorem webhook_prune_deletes_replayed:
  assumes reach: "wh_reachable w" and sel: "i \<in> set (pruned_ids before (ww_db w))"
    and replay: "replay_delivery flt False org i actor now (ww_db w) = (Inr v, db1)"
    and later: "wh_steps (w\<lparr>ww_db := db1\<rparr>) w2"
  shows "(\<exists>r \<in> set (wk_deliveries db1). wd_id r = i \<and> wd_status r = Wh_Pending \<and> wd_availableAt r = now)
    \<and> (\<forall>r \<in> set (wk_deliveries (prune_deliveries (pruned_ids before (ww_db w)) (ww_db w2))). wd_id r \<noteq> i)
    \<and> (\<forall>a \<in> set (wk_attempts (prune_deliveries (pruned_ids before (ww_db w)) (ww_db w2))). wa_delivery a \<noteq> i)
    \<and> wh_reachable (w2\<lparr>ww_db := prune_deliveries (pruned_ids before (ww_db w)) (ww_db w2)\<rparr>)"
proof -
  from replay have 1: "\<exists>r \<in> set (wk_deliveries db1). wd_id r = i \<and> wd_status r = Wh_Pending \<and> wd_availableAt r = now"
  proof (rule replay_Inr)
    fix r e
    assume r: "r \<in> set (wk_deliveries (ww_db w))" "wd_id r = i"
      and db1: "db1 = ww_db w\<lparr>wk_deliveries := update_rows (\<lambda>x. wd_id x = i) (replayed_delivery (we_urlHash e) now) (wk_deliveries (ww_db w))\<rparr>"
    from update_rows_in [OF r(1), of "\<lambda>x. wd_id x = i" "replayed_delivery (we_urlHash e) now"] r(2)
    have "replayed_delivery (we_urlHash e) now r \<in> set (wk_deliveries db1)" by (simp add: db1)
    with r(2) show ?thesis by (intro bexI [of _ "replayed_delivery (we_urlHash e) now r"]) simp_all
  qed
  have "wh_step w (w\<lparr>ww_db := db1\<rparr>)" by (rule wh_step.change [OF outbox_change.replayed [OF replay]])
  from wh_reachable_steps [OF later wh_reachable.step [OF reach this]] have "wh_reachable w2" .
  from wh_reachable.step [OF this wh_step.change [OF outbox_change.deliveries_deleted]] 1 sel
  show ?thesis by (auto simp: prune_deliveries_def)
qed

definition demo_ended :: delivery_row where
  "demo_ended = completed_delivery demo_completion demo_leased"

lemma demo_db4_rows: "wk_deliveries demo_db4 = [demo_ended]" "wk_events demo_db4 = [demo_event]"
  "wk_endpoints demo_db4 = [endpoint_health webhook_disable_after demo_completion demo_row]"
  by (simp_all add: demo_db4_def complete_delivery_def demo_claim_fields demo_completion_fields zero_val demo_token_def
      webhook_disable_after_def wh_transaction_def complete_in_tx_def no_faults_def demo_db3_def demo_db2_def demo_db1_def
      leased_to_def demo_leased_fields Let_def completion_ok_def rows_affected_def update_health_def
      find_endpoint_for_update_def find_endpoint_def demo_fields demo_healthy update_rows_def demo_ended_def)
    (simp add: endpoint_health_def Let_def demo_completion_fields demo_row_def new_endpoint_def)

theorem webhook_prune_deletes_replayed_witness:
  "\<exists>v db1. replay_delivery no_faults False 7 4 3 9000 demo_db4 = (Inr v, db1)
    \<and> (\<exists>r \<in> set (wk_deliveries db1). wd_id r = 4 \<and> wd_status r = Wh_Pending)
    \<and> (\<forall>r \<in> set (wk_deliveries (prune_deliveries (pruned_ids 8000 demo_db4) db1)). wd_id r \<noteq> 4)"
proof -
  have ended: "wd_id demo_ended = 4" "wd_status demo_ended = Wh_Delivered" "wd_event demo_ended = 3" "wd_organization demo_ended = 7"
    "wd_endpoint demo_ended = 1" "wd_replays demo_ended = 0"
    by (simp_all add: demo_ended_def demo_completion_fields demo_leased_fields)
      (simp_all add: demo_leased_def demo_row_times, simp add: demo_delivery_def new_delivery_def)
  have ev: "wv_id demo_event = 3" "wv_createdAt demo_event = 2000"
    by (simp_all add: demo_event_def new_webhook_event_def demo_publication_def)
  have "4 \<in> set (pruned_ids 8000 demo_db4)"
    by (simp add: pruned_ids_def demo_db4_rows prunable_delivery_def is_terminal_def ended ev webhook_prune_batch_def column_time_def)
  then have sel: "4 \<in> set (pruned_ids 8000 (ww_db demo_world))" by (simp add: demo_world_def)
  have "\<exists>v db1. replay_delivery no_faults False 7 4 3 9000 demo_db4 = (Inr v, db1)"
    by (simp add: replay_delivery_def zero_val wh_transaction_def no_faults_def demo_db4_rows ended is_terminal_def
        event_by_id_def ev find_endpoint_for_update_def find_endpoint_def demo_fields demo_healthy Let_def rows_affected_def)
      (simp add: demo_row_def new_endpoint_def demo_endpoint_def endpoint_health_def Let_def)
  then obtain v db1 where run: "replay_delivery no_faults False 7 4 3 9000 (ww_db demo_world) = (Inr v, db1)"
    by (auto simp: demo_world_def)
  from webhook_prune_deletes_replayed [OF demo_reachable sel run wh_steps.start] run
  show ?thesis by (auto simp: demo_world_def)
qed

subsection \<open>Messages\<close>

lemma sort_key_perm:
  assumes "mset xs = mset ys" "distinct (map f xs)"
  shows "sort_key f xs = sort_key f ys"
  by (rule sort_key_inj_key_eq) (use assms in \<open>simp_all add: distinct_map\<close>)

text \<open>Payloads have one normal form. Two texts of objects with the same members, in whatever order, are stored as
  the same text: the compact form with the keys in order, provided no object in them, at any depth, names a member
  twice and the form has at most 64 KiB; otherwise both are refused.\<close>

theorem webhook_payload_normal_form:
  assumes "parse raw = Some (J_object ms)" "parse raw' = Some (J_object ms')" "mset ms = mset ms'"
    and "2 \<le> length raw" "length raw \<le> 65536" "2 \<le> length raw'" "length raw' \<le> 65536"
  shows "canonical_json_object parse raw = canonical_json_object parse raw'
    \<and> canonical_json_object parse raw
        = (let text = show_json (sorted_keys (J_object ms))
           in if unambiguous (J_object ms) \<and> length text \<le> 65536 then Some text else None)"
proof -
  have set: "set ms = set ms'" using mset_eq_setD [OF assms(3)] .
  have keys: "mset (map fst ms) = mset (map fst ms')" using assms(3) by simp
  have un: "unambiguous (J_object ms) \<longleftrightarrow> unambiguous (J_object ms')"
    using mset_eq_imp_distinct_iff [OF keys] set by (simp add: list_all_iff)
  have sorted: "sorted_keys (J_object ms) = sorted_keys (J_object ms')" if "unambiguous (J_object ms)"
  proof -
    let ?f = "\<lambda>(k, v). (k, sorted_keys v)"
    have "map fst (map ?f us) = map fst us" for us :: "(string \<times> json) list" by (induction us) auto
    from this [of ms] that have "distinct (map fst (map ?f ms))" by (simp del: map_map)
    moreover have "mset (map ?f ms) = mset (map ?f ms')" using assms(3) by simp
    ultimately show ?thesis using sort_key_perm [of "map ?f ms" "map ?f ms'" fst] by simp
  qed
  have form: "canonical_json_object parse t
      = (let text = show_json (sorted_keys (J_object us))
         in if unambiguous (J_object us) \<and> length text \<le> 65536 then Some text else None)"
    if "parse t = Some (J_object us)" "2 \<le> length t" "length t \<le> 65536" for t us
    using that
    by (simp add: canonical_json_object_def max_webhook_payload_def reject_duplicate_keys_stream Let_def
        del: token_stream.simps sorted_keys.simps show_json.simps unambiguous.simps)
  from form [OF assms(1,4,5)] form [OF assms(2,6,7)] un sorted show ?thesis by (auto simp: Let_def)
qed

theorem webhook_payload_normal_form_witness:
  "canonical_json_object (\<lambda>t. Some (J_object (if t = ''12'' then [(''a'', J_null), (''b'', J_null)] else [(''b'', J_null), (''a'', J_null)]))) ''12''
   = canonical_json_object (\<lambda>t. Some (J_object (if t = ''12'' then [(''a'', J_null), (''b'', J_null)] else [(''b'', J_null), (''a'', J_null)]))) ''21''"
  using webhook_payload_normal_form [of "\<lambda>t. Some (J_object (if t = ''12'' then [(''a'', J_null), (''b'', J_null)] else [(''b'', J_null), (''a'', J_null)]))"
      "''12''" "[(''a'', J_null), (''b'', J_null)]" "''21''" "[(''b'', J_null), (''a'', J_null)]"]
  by (simp add: add_mset_commute)

text \<open>C21: What is sent is signed. When a dispatch reached the HTTP client, the claim's secret decrypts to a key of 32
  bytes, and the request carries the message id, the second it was sent, and the HMAC under that key of id, second
  and exactly the body sent; a second signature, under the previous secret, is there while that secret is
  configured and has not expired.\<close>

theorem webhook_request_is_signed:
  assumes d: "dispatch_outbound lib s st c = Inr r"
    and sent: "sr_failure r \<notin> {''WEBHOOK.ROUTE_CHANGED'', ''WEBHOOK.INVALID_TARGET'', ''WEBHOOK.INVALID_MESSAGE''}"
  shows "\<exists>key previous url body. decrypt_secret (li_unseal lib) (ws_secrets s) (wc_secret c) = Inr key \<and> length key = 32
    \<and> (let second = strconv_itoa (ds_sendStarted st div 1000000000);
           text = wc_messageID c @ CHR ''.'' # second @ CHR ''.'' # body;
           old = (previous \<noteq> '''' \<and> (case wc_previousExpires c of None \<Rightarrow> False | Some t \<Rightarrow> ds_sendStarted st < t));
           signature = ''v1,'' @ base64_encode (hmac_sha256 key text)
             @ (if old then CHR '' '' # ''v1,'' @ base64_encode (hmac_sha256 previous text) else '''')
       in (previous \<noteq> '''' \<longrightarrow> decrypt_secret (li_unseal lib) (ws_secrets s) (wc_previous c) = Inr previous)
          \<and> send_outcome (ws_sender s) (webhook_elapsed (ds_sendFinished st) (ds_sendStarted st))
              (ds_exchange st \<lparr>hr_url = url, hr_headers = webhook_headers (wc_messageID c) second signature, hr_body = body\<rparr>)
            = Inr r)"
proof -
  from d sent obtain key where key: "decrypt_secret (li_unseal lib) (ws_secrets s) (wc_secret c) = Inr key"
    by (auto simp: dispatch_outbound_def no_result_def split: if_splits sum.splits)
  let ?old = "wc_previous c \<noteq> '''' \<and> (case wc_previousExpires c of None \<Rightarrow> False | Some t \<Rightarrow> ds_started st < t)"
  from d sent key obtain previous where
    prev: "(if ?old then decrypt_secret (li_unseal lib) (ws_secrets s) (wc_previous c) else Inr []) = Inr previous"
    and send: "send_webhook (li_urlParse lib) (li_showUrl lib) (li_compact lib) (ws_targets s) (ws_sender s)
      (ds_sendStarted st) (ds_sendFinished st) (ds_exchange st)
      \<lparr>ob_url = wc_url c, ob_messageID = wc_messageID c, ob_type = wc_type c, ob_occurredAt = wc_occurredAt c,
       ob_payload = wc_payload c, ob_current = key, ob_previous = previous, ob_previousExpires = wc_previousExpires c\<rparr> = Inr r"
    by (auto simp: dispatch_outbound_def no_result_def split: if_splits sum.splits)
  have len: "length k = 32" if "decrypt_secret u p t = Inr k" for u p t k
    using that by (auto simp: decrypt_secret_def split: option.splits if_splits sum.splits)
  have p: "previous \<noteq> '''' \<longrightarrow> decrypt_secret (li_unseal lib) (ws_secrets s) (wc_previous c) = Inr previous"
    using prev by (auto split: if_splits)
  then have plen: "length previous = 32 \<longleftrightarrow> previous \<noteq> ''''" using len by fastforce
  let ?ob = "\<lparr>ob_url = wc_url c, ob_messageID = wc_messageID c, ob_type = wc_type c, ob_occurredAt = wc_occurredAt c,
       ob_payload = wc_payload c, ob_current = key, ob_previous = previous, ob_previousExpires = wc_previousExpires c\<rparr>"
  let ?second = "strconv_itoa (ds_sendStarted st div 1000000000)"
  from send sent obtain norm url body signature where
    "webhook_signatures ?ob ?second body (ds_sendStarted st) = Inr signature"
    "send_outcome (ws_sender s) (webhook_elapsed (ds_sendFinished st) (ds_sendStarted st))
       (ds_exchange st \<lparr>hr_url = li_showUrl lib url, hr_headers = webhook_headers (wc_messageID c) ?second signature, hr_body = body\<rparr>) = Inr r"
    by (auto simp: send_webhook_def no_result_def Let_def split: if_splits sum.splits option.splits)
  moreover from this(1) have "signature = ''v1,'' @ base64_encode (hmac_sha256 key (wc_messageID c @ CHR ''.'' # ?second @ CHR ''.'' # body))
      @ (if previous \<noteq> '''' \<and> (case wc_previousExpires c of None \<Rightarrow> False | Some t \<Rightarrow> ds_sendStarted st < t)
         then CHR '' '' # ''v1,'' @ base64_encode (hmac_sha256 previous (wc_messageID c @ CHR ''.'' # ?second @ CHR ''.'' # body)) else '''')"
    by (auto simp: webhook_signatures_def signature_value_def signed_text_def hmac_sha256_of_def plen Let_def split: if_splits)
  ultimately show ?thesis
    using key len [OF key] p unfolding Let_def
    by (intro exI [of _ key] exI [of _ previous] exI [of _ "li_showUrl lib url"] exI [of _ body]) simp
qed

theorem webhook_request_is_signed_witness:
  "\<exists>key. length key = 32 \<and> decrypt_secret (\<lambda>key nonce box. Some (webhook_secret_prefix @ base64_encode (replicate 32 CHR ''k'')))
     (Some (aes_encryptor_from_string '''')) (base64_encode (replicate 12 CHR ''n'')) = Inr key"
proof -
  define lib where "lib = demo_lib\<lparr>li_unseal := \<lambda>key nonce box. Some (webhook_secret_prefix @ base64_encode (replicate 32 CHR ''k''))\<rparr>"
  define c where "c = demo_claim\<lparr>wc_secret := base64_encode (replicate 12 CHR ''n''), wc_previous := ''''\<rparr>"
  define st where "st = \<lparr>ds_ctx = None, ds_started = 0, ds_sendStarted = 0, ds_sendFinished = 0, ds_exchange = \<lambda>_. Response 200 0 None,
    ds_others = id, ds_completed = 0, ds_faults = no_faults\<rparr>"
  have dec: "decrypt_secret (li_unseal lib) (ws_secrets demo_service) (wc_secret c) = Inr (replicate 32 CHR ''k'')"
    by (simp add: decrypt_secret_def demo_service_def c_def lib_def decrypt_string_def aes_decrypt_def gcm_nonce_def
        webhook_secret_prefix_def del: replicate.simps)
  have route: "wc_hash c = wc_currentHash c" "wc_previous c = ''''"
    by (simp_all add: c_def demo_claim_def claim_of_def demo_delivery_def new_delivery_def)
  have target: "normalize_syntax (\<lambda>_. Some sample_url) (\<lambda>_. ''https://h/'')
      \<lparr>tp_allowInsecureHTTP = False, tp_allowPrivateTarget = False\<rparr> ''https://h/'' = Inr (''https://h/'', sample_url)"
    by (simp add: normalize_syntax_def normalize_host_def sample_url_def trim_space_graph
        contains_unsafe_url_rune_def max_webhook_target_def go_lower_def segments_ascii lower_segment_def
        ascii_hostname_def split_host_port_def is_decimal_def)
  have fields: "wc_url c = ''https://h/''" "wc_messageID c = ''msg_u''" "wc_type c = ''a.b''" "wc_occurredAt c = 2000" "wc_payload c = ''{}''"
    by (simp_all add: c_def demo_claim_def claim_of_def demo_row_def new_endpoint_def demo_endpoint_def demo_event_def
        new_webhook_event_def demo_publication_def)
  have "dispatch_outbound lib demo_service st c = Inr (no_result\<lparr>sr_http := Some 200\<rparr>)"
    unfolding dispatch_outbound_def dec route
    by (simp add: send_webhook_def fields, simp add: demo_service_def lib_def demo_lib_def target, simp add: st_def
        encode_webhook_body_def valid_demo zero_val webhook_signatures_def send_outcome_def webhook_elapsed_def no_result_def
        demo_service_def)
  from webhook_request_is_signed [OF this]
  show ?thesis using dec by (auto simp: no_result_def lib_def c_def demo_service_def)
qed

text \<open>A signing secret survives storage. What \<open>Generate\<close> hands to the caller is the prefix and the base64 text of 32
  bytes, and \<open>Decrypt\<close> of the ciphertext stored gives these bytes; the hint is the end of the secret. This rests on
  the cipher opening what it sealed and on full reads of random bytes.\<close>

theorem webhook_secret_roundtrip:
  assumes "aead_opens seal unseal" and "\<And>k. reads_fully (random k)" and "generate_secret seal random p = Inr m"
  shows "\<exists>key. length key = 32 \<and> sm_plaintext m = ''whsec_'' @ base64_encode key
    \<and> decrypt_secret unseal p (sm_ciphertext m) = Inr key
    \<and> (\<exists>start. sm_plaintext m = start @ sm_hint m \<and> length (sm_hint m) = 8)"
proof -
  obtain key where key: "sm_plaintext m = webhook_secret_prefix @ base64_encode key" "length key = 32"
    "decrypt_secret unseal p (sm_ciphertext m) = Inr key"
    by (rule generated_secret [OF assms])
  have hint: "sm_hint m = drop (length (sm_plaintext m) - 8) (sm_plaintext m)"
    using assms(3) by (auto simp: generate_secret_def Let_def split: option.splits sum.splits)
  have "length (base64_encode t) \<ge> length t" for t
    by (induction t rule: base64_encode.induct) simp_all
  with key(1,2) have "8 \<le> length (sm_plaintext m)" by (metis length_append trans_le_add2 order_trans numeral_le_iff semiring_norm(70) numeral_Bit0 le_add1)
  with hint have "sm_plaintext m = take (length (sm_plaintext m) - 8) (sm_plaintext m) @ sm_hint m" "length (sm_hint m) = 8"
    by simp_all
  with key show ?thesis unfolding webhook_secret_prefix_def by blast
qed

theorem webhook_secret_roundtrip_witness:
  "\<exists>m. generate_secret (\<lambda>key nonce text. text) (\<lambda>k n. Some (replicate n CHR ''r'')) (Some (aes_encryptor_from_string '''')) = Inr m
    \<and> decrypt_secret (\<lambda>key nonce box. Some box) (Some (aes_encryptor_from_string '''')) (sm_ciphertext m) = Inr (replicate 32 CHR ''r'')"
proof -
  let ?seal = "\<lambda>(key :: string) (nonce :: string) (text :: string). text" and ?random = "\<lambda>(k :: nat) n. Some (replicate n CHR ''r'')"
  have c: "encrypt_string ?seal (?random 1) (aes_encryptor_from_string '''') t
      = Inr (base64_encode (replicate 12 CHR ''r'' @ t))" for t
    by (subst encrypt_string_total [of _ "replicate 12 CHR ''r''"]) (simp_all add: gcm_nonce_def)
  then obtain m where m: "generate_secret ?seal ?random (Some (aes_encryptor_from_string '''')) = Inr m"
    "sm_plaintext m = webhook_secret_prefix @ base64_encode (replicate 32 CHR ''r'')"
    by (simp add: generate_secret_def generate_key_def Let_def del: replicate.simps)
  have "aead_opens ?seal (\<lambda>key nonce box. Some box)" "\<And>k. reads_fully (?random k)"
    by (simp_all add: aead_opens_def reads_fully_def)
  from webhook_secret_roundtrip [OF this m(1)] obtain key where key: "sm_plaintext m = ''whsec_'' @ base64_encode key"
    "decrypt_secret (\<lambda>key nonce box. Some box) (Some (aes_encryptor_from_string '''')) (sm_ciphertext m) = Inr key" by blast
  from key(1) m(2) have "base64_encode key = base64_encode (replicate 32 CHR ''r'')"
    by (simp add: webhook_secret_prefix_def del: replicate.simps)
  then have "key = replicate 32 CHR ''r''" by (metis base64_roundtrip option.inject)
  with m(1) key(2) show ?thesis by blast
qed

end
