(* ===== verification/Starter_Catalog.thy ===== *)
theory Starter_Catalog
  imports Prelude
begin

text \<open>
  \<open>internal/starter/catalog.go\<close> and \<open>assembly/starter_manifest.go\<close>: the manifests, the catalog that separates
  default from optional starters, the check of their dependencies and the selection of optional starters. \<open>'m\<close> is
  the type of modules; an interface value that may be \<open>nil\<close> is an option. A loop over a Go map takes the order of
  its keys as an argument. The two recursive walks carry their depth as fuel: the number of starters plus one,
  which is enough for every catalog (\<open>new_starter_catalog_complete\<close>, \<open>append_with_complete\<close>).
\<close>

subsection \<open>Manifests\<close>

record 'm starter_manifest =
  sm_name :: string
  sm_dependencies :: "string list"
  sm_modules :: "'m option list"
  sm_migrations :: "string list"
  sm_seeders :: "string list"
  sm_summary :: string

definition new_static_manifest ::
  "string \<Rightarrow> ('m starter_manifest \<Rightarrow> 'm starter_manifest) option list \<Rightarrow> 'm starter_manifest" where
  "new_static_manifest name opts =
     foldl (\<lambda>m opt. case opt of None \<Rightarrow> m | Some f \<Rightarrow> f m)
       \<lparr>sm_name = name, sm_dependencies = [], sm_modules = [], sm_migrations = [], sm_seeders = [], sm_summary = ''''\<rparr>
       opts"

definition with_starter_module :: "'m option \<Rightarrow> 'm starter_manifest \<Rightarrow> 'm starter_manifest" where
  "with_starter_module m mf = (case m of None \<Rightarrow> mf | Some _ \<Rightarrow> mf\<lparr>sm_modules := sm_modules mf @ [m]\<rparr>)"

definition with_starter_dependencies :: "string list \<Rightarrow> 'm starter_manifest \<Rightarrow> 'm starter_manifest" where
  "with_starter_dependencies names mf = mf\<lparr>sm_dependencies := sm_dependencies mf @ names\<rparr>"

definition with_starter_summary :: "string \<Rightarrow> 'm starter_manifest \<Rightarrow> 'm starter_manifest" where
  "with_starter_summary summary mf = mf\<lparr>sm_summary := summary\<rparr>"

definition with_starter_migrations :: "string list \<Rightarrow> 'm starter_manifest \<Rightarrow> 'm starter_manifest" where
  "with_starter_migrations names mf = mf\<lparr>sm_migrations := sm_migrations mf @ names\<rparr>"

definition with_starter_seeders :: "string list \<Rightarrow> 'm starter_manifest \<Rightarrow> 'm starter_manifest" where
  "with_starter_seeders names mf = mf\<lparr>sm_seeders := sm_seeders mf @ names\<rparr>"

subsection \<open>The catalog\<close>

record 'm starter_catalog =
  ct_defaults :: "'m starter_manifest list"
  ct_default_names :: "string set"
  ct_optional :: "string \<rightharpoonup> 'm starter_manifest"
  ct_optional_names :: "string list"
  ct_dependencies :: "string \<Rightarrow> string list"

datatype catalog_error =
    Manifest_required
  | Manifest_name_invalid string
  | Default_invalid catalog_error
  | Optional_invalid catalog_error
  | Duplicate_manifest string
  | Dependency_name_invalid string string
  | Self_dependency string
  | Duplicate_dependency string string
  | Unknown_dependency string string
  | Default_on_optional string string
  | Dependency_cycle string
  | Catalog_required
  | Selection_name_invalid string
  | Duplicate_selection string
  | Selection_is_default string
  | Unknown_selection string string
  | Missing_dependency string string
  | Walk_unfinished

text \<open>\<open>starterNamePattern\<close>.\<close>

definition canonical_name :: "string \<Rightarrow> bool" where
  "canonical_name s = (case s of [] \<Rightarrow> False
     | c # cs \<Rightarrow> lower_letter c \<and> list_all (\<lambda>x. lower_alnum x \<or> x = CHR ''_'' \<or> x = CHR ''-'') cs)"

definition validate_catalog_manifest :: "'m starter_manifest option \<Rightarrow> catalog_error + string" where
  "validate_catalog_manifest m = (case m of
     None \<Rightarrow> Inl Manifest_required
   | Some mf \<Rightarrow> if canonical_name (sm_name mf) then Inr (sm_name mf) else Inl (Manifest_name_invalid (sm_name mf)))"

definition empty_catalog :: "'m starter_catalog" where
  "empty_catalog = \<lparr>ct_defaults = [], ct_default_names = {}, ct_optional = Map.empty, ct_optional_names = [],
     ct_dependencies = (\<lambda>_. [])\<rparr>"

text \<open>The loops of \<open>NewCatalog\<close>; the set \<open>seen\<close> is threaded with the catalog.\<close>

definition add_default ::
  "'m starter_manifest option \<Rightarrow> string set \<times> 'm starter_catalog \<Rightarrow>
   catalog_error + string set \<times> 'm starter_catalog" where
  "add_default m s = (case s of (seen, c) \<Rightarrow>
     (case validate_catalog_manifest m of
        Inl e \<Rightarrow> Inl (Default_invalid e)
      | Inr name \<Rightarrow>
          if name \<in> seen then Inl (Duplicate_manifest name)
          else Inr (insert name seen,
                    c\<lparr>ct_default_names := insert name (ct_default_names c),
                      ct_defaults := ct_defaults c @ [the m]\<rparr>)))"

definition add_optional ::
  "'m starter_manifest option \<Rightarrow> string set \<times> 'm starter_catalog \<Rightarrow>
   catalog_error + string set \<times> 'm starter_catalog" where
  "add_optional m s = (case s of (seen, c) \<Rightarrow>
     (case validate_catalog_manifest m of
        Inl e \<Rightarrow> Inl (Optional_invalid e)
      | Inr name \<Rightarrow>
          if name \<in> seen then Inl (Duplicate_manifest name)
          else Inr (insert name seen,
                    c\<lparr>ct_optional := (ct_optional c)(name \<mapsto> the m),
                      ct_optional_names := ct_optional_names c @ [name]\<rparr>)))"

text \<open>The map \<open>all\<close> of \<open>validateDependencies\<close>, and its keys.\<close>

definition all_starters :: "'m starter_catalog \<Rightarrow> string \<rightharpoonup> 'm starter_manifest" where
  "all_starters c = map_of (rev (map (\<lambda>m. (sm_name m, m)) (ct_defaults c))) ++ ct_optional c"

definition all_names :: "'m starter_catalog \<Rightarrow> string list" where
  "all_names c = map sm_name (ct_defaults c) @ ct_optional_names c"

definition add_dependency ::
  "string \<Rightarrow> string \<Rightarrow> string set \<times> 'm starter_catalog \<Rightarrow> catalog_error + string set \<times> 'm starter_catalog" where
  "add_dependency name d s = (case s of (seen, c) \<Rightarrow>
     if d = '''' \<or> d \<noteq> trim_space d \<or> \<not> canonical_name d then Inl (Dependency_name_invalid name d)
     else if d = name then Inl (Self_dependency name)
     else if d \<in> seen then Inl (Duplicate_dependency name d)
     else if all_starters c d = None then Inl (Unknown_dependency name d)
     else if name \<in> ct_default_names c \<and> d \<notin> ct_default_names c then Inl (Default_on_optional name d)
     else Inr (insert d seen,
               c\<lparr>ct_dependencies := (ct_dependencies c)(name := ct_dependencies c name @ [d])\<rparr>))"

definition add_dependencies :: "string \<Rightarrow> 'm starter_catalog \<Rightarrow> catalog_error + 'm starter_catalog" where
  "add_dependencies name c =
     map_sum id (\<lambda>(_, c'). c')
       (each_err (add_dependency name) (sm_dependencies (the (all_starters c name))) ({}, c))"

text \<open>\<open>visit\<close>: 0 unseen, 1 on the path, 2 finished.\<close>

primrec visit_starter ::
  "nat \<Rightarrow> (string \<Rightarrow> string list) \<Rightarrow> string \<Rightarrow> (string \<Rightarrow> nat) \<Rightarrow> catalog_error + (string \<Rightarrow> nat)" where
  "visit_starter 0 deps n st = Inl Walk_unfinished"
| "visit_starter (Suc k) deps n st =
     (if st n = 1 then Inl (Dependency_cycle n)
      else if st n = 2 then Inr st
      else (case each_err (visit_starter k deps) (deps n) (st(n := 1)) of
              Inl e \<Rightarrow> Inl e
            | Inr st' \<Rightarrow> Inr (st'(n := 2))))"

definition validate_dependencies ::
  "(string set \<Rightarrow> string list) \<Rightarrow> (string set \<Rightarrow> string list) \<Rightarrow> 'm starter_catalog \<Rightarrow>
   catalog_error + 'm starter_catalog" where
  "validate_dependencies ord ord' c =
     (case each_err add_dependencies (ord (set (all_names c))) c of
        Inl e \<Rightarrow> Inl e
      | Inr c' \<Rightarrow>
          (case each_err (visit_starter (Suc (length (all_names c))) (ct_dependencies c'))
                  (ord' (set (all_names c))) (\<lambda>_. 0) of
             Inl e \<Rightarrow> Inl e
           | Inr _ \<Rightarrow> Inr c'))"

definition new_starter_catalog ::
  "(string set \<Rightarrow> string list) \<Rightarrow> (string set \<Rightarrow> string list) \<Rightarrow>
   'm starter_manifest option list \<Rightarrow> 'm starter_manifest option list \<Rightarrow> catalog_error + 'm starter_catalog" where
  "new_starter_catalog ord ord' defaults optional =
     (case each_err add_default defaults ({}, empty_catalog) of
        Inl e \<Rightarrow> Inl e
      | Inr s \<Rightarrow>
          (case each_err add_optional optional s of
             Inl e \<Rightarrow> Inl e
           | Inr (seen, c) \<Rightarrow>
               validate_dependencies ord ord' (c\<lparr>ct_optional_names := sort (ct_optional_names c)\<rparr>)))"

subsection \<open>Selection\<close>

primrec join_names :: "string list \<Rightarrow> string" where
  "join_names [] = ''''"
| "join_names (x # xs) = (if xs = [] then x else x @ '', '' @ join_names xs)"

definition check_selected ::
  "(string \<Rightarrow> string) \<Rightarrow> 'm starter_catalog \<Rightarrow> string \<Rightarrow> string set \<Rightarrow> catalog_error + string set" where
  "check_selected show_none c name seen =
     (if name = '''' \<or> name \<noteq> trim_space name \<or> \<not> canonical_name name then Inl (Selection_name_invalid name)
      else if name \<in> seen then Inl (Duplicate_selection name)
      else if name \<in> ct_default_names c then Inl (Selection_is_default name)
      else if ct_optional c name = None
        then Inl (Unknown_selection name (show_none (join_names (ct_optional_names c))))
      else Inr (insert name seen))"

definition selected_dependency ::
  "'m starter_catalog \<Rightarrow> string set \<Rightarrow> string \<Rightarrow> string \<Rightarrow> unit \<Rightarrow> catalog_error + unit" where
  "selected_dependency c seen name d u =
     (if d \<in> ct_default_names c then Inr ()
      else if d \<notin> seen then Inl (Missing_dependency name d)
      else Inr ())"

text \<open>\<open>appendWithDependencies\<close> and \<open>addWithDependencies\<close>: the names assembled so far, in order. A name is marked
  after its dependencies.\<close>

definition optional_deps :: "'m starter_catalog \<Rightarrow> string \<Rightarrow> string list" where
  "optional_deps c n = filter (\<lambda>d. ct_optional c d \<noteq> None) (ct_dependencies c n)"

primrec append_with ::
  "nat \<Rightarrow> 'm starter_catalog \<Rightarrow> string \<Rightarrow> string list \<Rightarrow> catalog_error + string list" where
  "append_with 0 c n acc = Inl Walk_unfinished"
| "append_with (Suc k) c n acc =
     (if n \<in> set acc then Inr acc
      else (case each_err (append_with k c) (optional_deps c n) acc of
              Inl e \<Rightarrow> Inl e
            | Inr acc' \<Rightarrow> Inr (acc' @ [n])))"

definition assemble_names :: "'m starter_catalog \<Rightarrow> string list \<Rightarrow> catalog_error + string list" where
  "assemble_names c names = each_err (append_with (Suc (length (all_names c))) c) names []"

definition select_starters ::
  "(string set \<Rightarrow> string list) \<Rightarrow> 'm starter_catalog option \<Rightarrow> string list \<Rightarrow>
   catalog_error + 'm starter_manifest list" where
  "select_starters ord c names = (case c of
     None \<Rightarrow> Inl Catalog_required
   | Some c \<Rightarrow>
       (case each_err (check_selected (\<lambda>s. if s = '''' then ''none'' else s) c) names {} of
          Inl e \<Rightarrow> Inl e
        | Inr seen \<Rightarrow>
            (case each_err (\<lambda>name. each_err (selected_dependency c seen name) (ct_dependencies c name)) (ord seen) () of
               Inl e \<Rightarrow> Inl e
             | Inr _ \<Rightarrow>
                 (case assemble_names c names of
                    Inl e \<Rightarrow> Inl e
                  | Inr ns \<Rightarrow> Inr (ct_defaults c @ map (\<lambda>n. the (ct_optional c n)) ns)))))"

definition resolve_optional :: "'m starter_catalog option \<Rightarrow> string list \<Rightarrow> catalog_error + string list" where
  "resolve_optional c names = (case c of
     None \<Rightarrow> Inl Catalog_required
   | Some c \<Rightarrow>
       (case each_err (check_selected id c) names {} of
          Inl e \<Rightarrow> Inl e
        | Inr _ \<Rightarrow> assemble_names c names))"

definition optional_names :: "'m starter_catalog option \<Rightarrow> string list" where
  "optional_names c = (case c of None \<Rightarrow> [] | Some c \<Rightarrow> ct_optional_names c)"

record catalog_entry =
  ce_name :: string
  ce_default :: bool
  ce_dependencies :: "string list"
  ce_migrations :: "string list"
  ce_seeders :: "string list"

definition catalog_entry_of :: "bool \<Rightarrow> 'm starter_manifest \<Rightarrow> catalog_entry" where
  "catalog_entry_of is_default m =
     \<lparr>ce_name = sm_name m, ce_default = is_default, ce_dependencies = sm_dependencies m,
      ce_migrations = sm_migrations m, ce_seeders = sm_seeders m\<rparr>"

definition catalog_entries :: "'m starter_catalog option \<Rightarrow> catalog_entry list" where
  "catalog_entries c = (case c of
     None \<Rightarrow> []
   | Some c \<Rightarrow> map (catalog_entry_of True) (ct_defaults c)
       @ map (\<lambda>n. catalog_entry_of False (the (ct_optional c n))) (ct_optional_names c))"

end
