(* ===== verification/Starter_Walk.thy ===== *)
theory Starter_Walk
  imports Starter_Catalog
begin

text \<open>
  The two depth-first walks of the starter catalog. A list is in topological order (\<open>topo\<close>, last first) when the
  dependencies of each element come before it. The walk that looks for cycles finishes exactly on acyclic graphs,
  and leaves a topological order of what it visited; the walk that assembles a selection extends a topological
  order by what the name reaches.
\<close>

fun topo :: "('a \<Rightarrow> 'a list) \<Rightarrow> 'a list \<Rightarrow> bool" where
  "topo deps [] \<longleftrightarrow> True"
| "topo deps (x # xs) \<longleftrightarrow> topo deps xs \<and> x \<notin> set xs \<and> set (deps x) \<subseteq> set xs"

definition edges :: "('a \<Rightarrow> 'a list) \<Rightarrow> ('a \<times> 'a) set" where
  "edges deps = {(a, b). b \<in> set (deps a)}"

lemma edges_iff [simp]: "(a, b) \<in> edges deps \<longleftrightarrow> b \<in> set (deps a)"
  by (simp add: edges_def)

lemma topo_distinct: "topo deps xs \<Longrightarrow> distinct xs"
  by (induction xs) auto

lemma topo_closed: "topo deps xs \<Longrightarrow> x \<in> set xs \<Longrightarrow> set (deps x) \<subseteq> set xs"
  by (induction xs) auto

lemma topo_weaken: "topo deps xs \<Longrightarrow> \<forall>x. set (deps' x) \<subseteq> set (deps x) \<Longrightarrow> topo deps' xs"
  by (induction xs) (simp, meson subset_trans topo.simps(2))

lemma topo_reach:
  assumes "topo deps xs" and "(a, b) \<in> (edges deps)\<^sup>*" and "a \<in> set xs"
  shows "b \<in> set xs"
  using assms(2, 3, 1) by (induction rule: rtrancl_induct) (auto dest: topo_closed)

lemma topo_no_loop:
  assumes "topo deps xs" and "a \<in> set xs"
  shows "(a, a) \<notin> (edges deps)\<^sup>+"
  using assms
proof (induction xs)
  case (Cons x xs)
  show ?case
  proof
    assume "(a, a) \<in> (edges deps)\<^sup>+"
    then obtain b where b: "b \<in> set (deps a)" "(b, a) \<in> (edges deps)\<^sup>*"
      by (auto dest: tranclD)
    show False
    proof (cases "a = x")
      case True
      with b Cons.prems topo_reach [of deps xs b a] show False by auto
    next
      case False
      with Cons.IH Cons.prems \<open>(a, a) \<in> (edges deps)\<^sup>+\<close> show False by simp
    qed
  qed
qed simp

lemma topo_acyclic:
  assumes "topo deps xs" and "\<And>a. a \<notin> set xs \<Longrightarrow> deps a = []"
  shows "acyclic (edges deps)"
proof (rule acyclicI, rule allI)
  fix a
  show "(a, a) \<notin> (edges deps)\<^sup>+"
  proof (cases "a \<in> set xs")
    case True
    with assms(1) show ?thesis by (rule topo_no_loop)
  next
    case False
    then show ?thesis using assms(2) by (auto dest: tranclD)
  qed
qed

text \<open>Declarative reading: before position \<open>i\<close> stand all dependencies of what is at \<open>i\<close>.\<close>

lemma topo_rev_nth:
  assumes "topo deps (rev xs)" and "i < length xs"
  shows "set (deps (xs ! i)) \<subseteq> set (take i xs)"
  using assms
proof (induction xs rule: rev_induct)
  case (snoc x xs)
  then show ?case by (cases "i < length xs") (auto simp: nth_append)
qed simp

subsection \<open>The walk that looks for cycles\<close>

definition walked :: "(string \<Rightarrow> string list) \<Rightarrow> string set \<Rightarrow> (string \<Rightarrow> nat) \<Rightarrow> bool" where
  "walked deps path st \<longleftrightarrow> (\<exists>ys. topo deps ys \<and> set ys = {m. st m = 2}) \<and> {m. st m = 1} = path"

lemma visit_sound:
  assumes "visit_starter k deps n st = Inr st'" and "walked deps path st"
  shows "walked deps path st' \<and> st' n = 2 \<and> (\<forall>y. st y = 2 \<longrightarrow> st' y = 2)"
  using assms
proof (induction k arbitrary: n st st' path)
  case (Suc k)
  show ?case
  proof (cases "st n = 2")
    case True
    with Suc.prems show ?thesis by (auto split: if_splits)
  next
    case False
    with Suc.prems obtain t where n1: "st n \<noteq> 1"
      and t: "each_err (visit_starter k deps) (deps n) (st(n := 1)) = Inr t" and st': "st' = t(n := 2)"
      by (auto split: if_splits sum.splits)
    have "{m. (st(n := 1)) m = 2} = {m. st m = 2}" using False by auto
    moreover have "{m. (st(n := 1)) m = 1} = insert n {m. st m = 1}" by auto
    ultimately have start: "walked deps (insert n path) (st(n := 1))"
      using Suc.prems(2) by (simp add: walked_def)
    have t': "walked deps (insert n path) t \<and> (\<forall>x \<in> set (deps n). t x = 2) \<and>
        (\<forall>y. (st(n := 1)) y = 2 \<longrightarrow> t y = 2)"
      using each_err_establish [OF t, of "walked deps (insert n path)" "\<lambda>y t. t y = 2"] start Suc.IH by blast
    then obtain ys where ys: "topo deps ys" "set ys = {m. t m = 2}" and path: "{m. t m = 1} = insert n path"
      by (auto simp: walked_def)
    then have tn: "t n = 1" by blast
    have "topo deps (n # ys)" using ys t' tn by auto
    moreover have "set (n # ys) = {m. st' m = 2}" using ys st' by auto
    moreover have "{m. st' m = 1} = path"
    proof -
      have "n \<notin> path" using Suc.prems(2) n1 by (auto simp: walked_def)
      then show ?thesis using path st' by auto
    qed
    ultimately have "walked deps path st'" unfolding walked_def by blast
    moreover have "st' n = 2" "\<forall>y. st y = 2 \<longrightarrow> st' y = 2" using t' False st' by auto
    ultimately show ?thesis by blast
  qed
qed simp

lemma visit_complete:
  assumes "finite N" and "\<And>m. m \<in> N \<Longrightarrow> set (deps m) \<subseteq> N" and "acyclic (edges deps)"
    and "n \<in> N" and "\<And>g. st g = 1 \<Longrightarrow> (g, n) \<in> (edges deps)\<^sup>+"
    and "card (N - {m. st m = 1}) < k"
  shows "\<exists>st'. visit_starter k deps n st = Inr st' \<and> {m. st' m = 1} = {m. st m = 1}"
  using assms(4-)
proof (induction k arbitrary: n st)
  case (Suc k)
  have n1: "st n \<noteq> 1" using Suc.prems(2) [of n] assms(3) by (auto simp: acyclic_def)
  show ?case
  proof (cases "st n = 2")
    case False
    let ?I = "\<lambda>t. {m. t m = 1} = insert n {m. st m = (1::nat)}"
    have start: "?I (st(n := 1))" by auto
    have step: "\<exists>t'. visit_starter k deps d t = Inr t' \<and> ?I t'" if d: "d \<in> set (deps n)" and t: "?I t" for d t
    proof -
      have "d \<in> N" using d Suc.prems(1) assms(2) by blast
      moreover have "(g, d) \<in> (edges deps)\<^sup>+" if "t g = 1" for g
      proof (cases "g = n")
        case True with d show ?thesis by auto
      next
        case False
        with that t have "st g = 1" by blast
        with Suc.prems(2) d show ?thesis by (meson edges_iff trancl.trancl_into_trancl)
      qed
      moreover have "card (N - {m. t m = 1}) < k"
      proof -
        have "N - {m. t m = 1} = (N - {m. st m = 1}) - {n}" using t by auto
        moreover have "n \<in> N - {m. st m = 1}" using Suc.prems(1) n1 by simp
        ultimately have "Suc (card (N - {m. t m = 1})) = card (N - {m. st m = 1})"
          using assms(1) by (metis card_Suc_Diff1 finite_Diff)
        with Suc.prems(3) show ?thesis by simp
      qed
      ultimately show ?thesis using Suc.IH [of d t] t by auto
    qed
    obtain t where "each_err (visit_starter k deps) (deps n) (st(n := 1)) = Inr t" "?I t"
      using each_err_total [of ?I "st(n := 1)" "deps n" "visit_starter k deps"] start step by blast
    moreover have "{m. (t(n := 2)) m = 1} = {m. st m = 1}" using \<open>?I t\<close> n1 by auto
    ultimately show ?thesis using False n1 by auto
  qed simp
qed simp

subsection \<open>The walk that assembles\<close>

lemma set_optional_deps: "set (optional_deps c n) = {d \<in> set (ct_dependencies c n). ct_optional c d \<noteq> None}"
  by (auto simp: optional_deps_def)

lemma append_with_sound:
  assumes "acyclic (edges (optional_deps c))"
    and "append_with k c n acc = Inr acc'" and "topo (optional_deps c) (rev acc)"
  shows "topo (optional_deps c) (rev acc') \<and> n \<in> set acc' \<and> set acc \<subseteq> set acc' \<and>
    set acc' \<subseteq> set acc \<union> (edges (optional_deps c))\<^sup>* `` {n}"
  using assms(2, 3)
proof (induction k arbitrary: n acc acc')
  case (Suc k)
  let ?E = "edges (optional_deps c)"
  show ?case
  proof (cases "n \<in> set acc")
    case False
    with Suc.prems obtain t where t: "each_err (append_with k c) (optional_deps c n) acc = Inr t"
      and acc': "acc' = t @ [n]" by (auto split: sum.splits)
    let ?I = "\<lambda>u. topo (optional_deps c) (rev u) \<and> set acc \<subseteq> set u \<and> set u \<subseteq> set acc \<union> ?E\<^sup>+ `` {n}"
    have step: "?I v \<and> x \<in> set v \<and> (\<forall>y. y \<in> set u \<longrightarrow> y \<in> set v)"
      if x: "x \<in> set (optional_deps c n)" and u: "?I u" and v: "append_with k c x u = Inr v" for x u v
    proof -
      have "(n, x) \<in> ?E" using x by simp
      then have "?E\<^sup>* `` {x} \<subseteq> ?E\<^sup>+ `` {n}" by (auto intro: rtrancl_into_trancl2)
      with Suc.IH [OF v] u show ?thesis by blast
    qed
    have "?I acc" using Suc.prems by simp
    with each_err_establish [OF t, of ?I "\<lambda>y u. y \<in> set u"] step
    have I: "?I t" "\<forall>x \<in> set (optional_deps c n). x \<in> set t" by blast+
    have "n \<notin> set t" using I(1) False assms(1) by (auto simp: acyclic_def)
    then have "topo (optional_deps c) (rev acc')" using I acc' by auto
    moreover have "?E\<^sup>+ `` {n} \<subseteq> ?E\<^sup>* `` {n}" by auto
    ultimately show ?thesis using I acc' by auto
  qed (use Suc.prems in auto)
qed simp

lemma append_with_complete:
  assumes "topo (optional_deps c) zs" and "n \<in> set zs" and "length zs \<le> k"
  shows "\<exists>acc'. append_with k c n acc = Inr acc'"
  using assms
proof (induction k arbitrary: n zs acc)
  case (Suc k)
  show ?case
  proof (cases "n \<in> set acc")
    case False
    obtain us vs where zs: "zs = us @ n # vs" using Suc.prems(2) by (meson split_list)
    have tail: "topo (optional_deps c) (n # vs)"
      using Suc.prems(1) unfolding zs by (induction us) auto
    have "\<exists>t'. append_with k c x t = Inr t' \<and> True" if "x \<in> set (optional_deps c n)" for x t
      using Suc.IH [of vs x t] that tail Suc.prems(3) zs by auto
    then obtain t where "each_err (append_with k c) (optional_deps c n) acc = Inr t"
      using each_err_total [of "\<lambda>_. True" acc "optional_deps c n" "append_with k c"] by blast
    then show ?thesis using False by simp
  qed simp
qed simp

lemma assemble_names_spec:
  assumes "topo (ct_dependencies c) zs" and "\<And>n. ct_dependencies c n \<noteq> [] \<Longrightarrow> n \<in> set zs"
    and "set names \<subseteq> set zs" and "length zs \<le> length (all_names c)"
  obtains ns where "assemble_names c names = Inr ns" and "topo (optional_deps c) (rev ns)"
    and "set ns = (edges (optional_deps c))\<^sup>* `` set names"
proof -
  let ?E = "edges (optional_deps c)" and ?k = "Suc (length (all_names c))"
  have topo: "topo (optional_deps c) zs" using assms(1) by (rule topo_weaken) (auto simp: set_optional_deps)
  have none: "optional_deps c n = []" if "n \<notin> set zs" for n using assms(2) [of n] that by (metis filter.simps(1) optional_deps_def)
  have acyclic: "acyclic ?E" using topo none by (rule topo_acyclic)
  have "\<exists>t'. append_with ?k c x t = Inr t' \<and> True" if "x \<in> set names" for x t
    using append_with_complete [OF topo, of x ?k t] that assms(3, 4) by auto
  then obtain ns where ns: "assemble_names c names = Inr ns"
    using each_err_total [of "\<lambda>_. True" "[]" names "append_with ?k c"] by (auto simp: assemble_names_def)
  let ?I = "\<lambda>u. topo (optional_deps c) (rev u) \<and> set u \<subseteq> ?E\<^sup>* `` set names"
  have step: "?I v \<and> x \<in> set v \<and> (\<forall>y. y \<in> set u \<longrightarrow> y \<in> set v)"
    if x: "x \<in> set names" and u: "?I u" and v: "append_with ?k c x u = Inr v" for x u v
  proof -
    have "topo (optional_deps c) (rev v)" "x \<in> set v" "set u \<subseteq> set v" "set v \<subseteq> set u \<union> ?E\<^sup>* `` {x}"
      using append_with_sound [OF acyclic v] u by simp_all
    moreover have "?E\<^sup>* `` {x} \<subseteq> ?E\<^sup>* `` set names" using x by (intro Image_mono) auto
    ultimately show ?thesis using u by (intro conjI) auto
  qed
  have "?I ns \<and> (\<forall>x \<in> set names. x \<in> set ns) \<and> (\<forall>y. y \<in> set [] \<longrightarrow> y \<in> set ns)"
    by (rule each_err_establish [OF ns [unfolded assemble_names_def], of ?I "\<lambda>y u. y \<in> set u"])
      (simp, rule step)
  then have I: "?I ns" "set names \<subseteq> set ns" by auto
  have "?E\<^sup>* `` set names \<subseteq> set ns"
  proof
    fix y assume "y \<in> ?E\<^sup>* `` set names"
    then obtain x where "x \<in> set names" "(x, y) \<in> ?E\<^sup>*" by blast
    then show "y \<in> set ns" using topo_reach [of "optional_deps c" "rev ns" x y] I by auto
  qed
  with I(1) have "set ns = ?E\<^sup>* `` set names" by blast
  with I(1) ns that show thesis by simp
qed

end
