(* ===== verification/Starter_Catalog_Props.thy ===== *)
theory Starter_Catalog_Props
  imports Starter_Walk
begin

text \<open>
  What \<open>NewCatalog\<close> accepts, and what \<open>Select\<close> and \<open>ResolveOptional\<close> return. \<open>starters_ok\<close> states when a list of
  default and a list of optional manifests form a catalog, \<open>catalog_of\<close> the catalog they form.
\<close>

definition starter_names :: "'m starter_manifest list \<Rightarrow> string list" where
  "starter_names ms = map sm_name ms"

definition manifest_deps :: "'m starter_manifest list \<Rightarrow> string \<Rightarrow> string list" where
  "manifest_deps ms n = (case find (\<lambda>m. sm_name m = n) ms of None \<Rightarrow> [] | Some m \<Rightarrow> sm_dependencies m)"

definition dependencies_ok :: "'m starter_manifest list \<Rightarrow> 'm starter_manifest list \<Rightarrow> 'm starter_manifest \<Rightarrow> bool" where
  "dependencies_ok ds os m \<longleftrightarrow>
     distinct (sm_dependencies m)
   \<and> (\<forall>d \<in> set (sm_dependencies m). canonical_name d \<and> d \<noteq> sm_name m \<and> d \<in> set (starter_names (ds @ os))
        \<and> (sm_name m \<in> set (starter_names ds) \<longrightarrow> d \<in> set (starter_names ds)))"

definition starters_ok :: "'m starter_manifest list \<Rightarrow> 'm starter_manifest list \<Rightarrow> bool" where
  "starters_ok ds os \<longleftrightarrow>
     (\<forall>n \<in> set (starter_names (ds @ os)). canonical_name n)
   \<and> distinct (starter_names (ds @ os))
   \<and> (\<forall>m \<in> set (ds @ os). dependencies_ok ds os m)
   \<and> acyclic (edges (manifest_deps (ds @ os)))"

definition catalog_of :: "'m starter_manifest list \<Rightarrow> 'm starter_manifest list \<Rightarrow> 'm starter_catalog" where
  "catalog_of ds os =
     \<lparr>ct_defaults = ds, ct_default_names = set (starter_names ds),
      ct_optional = map_of (map (\<lambda>m. (sm_name m, m)) os), ct_optional_names = sort (starter_names os),
      ct_dependencies = manifest_deps (ds @ os)\<rparr>"

lemma canonical_nameD: "canonical_name s \<Longrightarrow> s \<noteq> '''' \<and> trim_space s = s"
proof -
  assume c: "canonical_name s"
  have graph: "33 \<le> (of_char x :: nat) \<and> of_char x < (128 :: nat)" if "lower_alnum x \<or> x = CHR ''_'' \<or> x = CHR ''-''" for x
    using that by (auto simp: lower_alnum_def lower_letter_def digit_char_def less_eq_char_def)
  have "\<forall>x \<in> set s. 33 \<le> (of_char x :: nat) \<and> of_char x < (128 :: nat)"
    using c graph by (cases s) (auto simp: canonical_name_def list_all_iff lower_alnum_def)
  from trim_space_graph [OF this] c show ?thesis by (auto simp: canonical_name_def)
qed

subsection \<open>Collecting the manifests\<close>

definition fresh_starters :: "'m starter_manifest list \<Rightarrow> string set \<Rightarrow> bool" where
  "fresh_starters ms seen \<longleftrightarrow> (\<forall>m \<in> set ms. canonical_name (sm_name m) \<and> sm_name m \<notin> seen) \<and> distinct (map sm_name ms)"

lemma fresh_starters_simps [simp]:
  "fresh_starters [] seen"
  "fresh_starters (m # ms) seen \<longleftrightarrow>
     canonical_name (sm_name m) \<and> sm_name m \<notin> seen \<and> fresh_starters ms (insert (sm_name m) seen)"
  by (auto simp: fresh_starters_def image_iff)

lemma add_default_simps [simp]:
  "add_default None s = Inl (Default_invalid Manifest_required)"
  "add_default (Some m) (seen, c) =
     (if \<not> canonical_name (sm_name m) then Inl (Default_invalid (Manifest_name_invalid (sm_name m)))
      else if sm_name m \<in> seen then Inl (Duplicate_manifest (sm_name m))
      else Inr (insert (sm_name m) seen, c\<lparr>ct_default_names := insert (sm_name m) (ct_default_names c),
             ct_defaults := ct_defaults c @ [m]\<rparr>))"
  by (auto simp: add_default_def validate_catalog_manifest_def split: prod.splits)

lemma add_optional_simps [simp]:
  "add_optional None s = Inl (Optional_invalid Manifest_required)"
  "add_optional (Some m) (seen, c) =
     (if \<not> canonical_name (sm_name m) then Inl (Optional_invalid (Manifest_name_invalid (sm_name m)))
      else if sm_name m \<in> seen then Inl (Duplicate_manifest (sm_name m))
      else Inr (insert (sm_name m) seen, c\<lparr>ct_optional := (ct_optional c)(sm_name m \<mapsto> m),
             ct_optional_names := ct_optional_names c @ [sm_name m]\<rparr>))"
  by (auto simp: add_optional_def validate_catalog_manifest_def split: prod.splits)

lemma add_defaults:
  "fresh_starters ds seen \<Longrightarrow> each_err add_default (map Some ds) (seen, c) =
     Inr (seen \<union> set (map sm_name ds),
          c\<lparr>ct_default_names := ct_default_names c \<union> set (map sm_name ds), ct_defaults := ct_defaults c @ ds\<rparr>)"
  by (induction ds arbitrary: seen c) auto

lemma add_optionals:
  "fresh_starters os seen \<Longrightarrow> each_err add_optional (map Some os) (seen, c) =
     Inr (seen \<union> set (map sm_name os),
          c\<lparr>ct_optional := ct_optional c ++ map_of (map (\<lambda>m. (sm_name m, m)) (rev os)),
            ct_optional_names := ct_optional_names c @ map sm_name os\<rparr>)"
  by (induction os arbitrary: seen c) (auto simp: map_add_def fun_eq_iff split: option.splits)

lemma add_defaults_fresh:
  "each_err add_default ms (seen, c) = Inr r \<Longrightarrow> \<exists>ds. ms = map Some ds \<and> fresh_starters ds seen"
proof (induction ms arbitrary: seen c)
  case (Cons m ms)
  then obtain mf where m: "m = Some mf"
    by (cases m) auto
  with Cons.prems have "canonical_name (sm_name mf)" "sm_name mf \<notin> seen"
    and "each_err add_default ms (insert (sm_name mf) seen, c\<lparr>ct_default_names := insert (sm_name mf) (ct_default_names c),
        ct_defaults := ct_defaults c @ [mf]\<rparr>) = Inr r"
    by (auto split: if_splits)
  with Cons.IH obtain ds where "ms = map Some ds" "fresh_starters ds (insert (sm_name mf) seen)" by blast
  with m \<open>canonical_name (sm_name mf)\<close> \<open>sm_name mf \<notin> seen\<close>
  have "m # ms = map Some (mf # ds) \<and> fresh_starters (mf # ds) seen" by simp
  then show ?case by (rule exI)
qed simp

lemma add_optionals_fresh:
  "each_err add_optional ms (seen, c) = Inr r \<Longrightarrow> \<exists>os. ms = map Some os \<and> fresh_starters os seen"
proof (induction ms arbitrary: seen c)
  case (Cons m ms)
  then obtain mf where m: "m = Some mf"
    by (cases m) auto
  with Cons.prems have "canonical_name (sm_name mf)" "sm_name mf \<notin> seen"
    and "each_err add_optional ms (insert (sm_name mf) seen, c\<lparr>ct_optional := (ct_optional c)(sm_name mf \<mapsto> mf),
        ct_optional_names := ct_optional_names c @ [sm_name mf]\<rparr>) = Inr r"
    by (auto split: if_splits)
  with Cons.IH obtain os where "ms = map Some os" "fresh_starters os (insert (sm_name mf) seen)" by blast
  with m \<open>canonical_name (sm_name mf)\<close> \<open>sm_name mf \<notin> seen\<close>
  have "m # ms = map Some (mf # os) \<and> fresh_starters (mf # os) seen" by simp
  then show ?case by (rule exI)
qed simp

text \<open>The catalog after the two loops, before the dependencies are checked.\<close>

definition collected :: "'m starter_manifest list \<Rightarrow> 'm starter_manifest list \<Rightarrow> 'm starter_catalog" where
  "collected ds os = (catalog_of ds os)\<lparr>ct_dependencies := \<lambda>_. []\<rparr>"

lemma map_of_rev_distinct:
  assumes "distinct (map fst xs)" shows "map_of (rev xs) = map_of xs"
proof
  fix k
  show "map_of (rev xs) k = map_of xs k"
  proof (cases "map_of xs k")
    case None
    then show ?thesis by (metis map_of_eq_None_iff set_rev)
  next
    case (Some v)
    then show ?thesis by (metis assms distinct_rev map_of_eq_Some_iff rev_map set_rev)
  qed
qed

lemma collected_shape:
  assumes "fresh_starters ds {}" and "fresh_starters os (set (map sm_name ds))"
  shows "new_starter_catalog ord ord' (map Some ds) (map Some os) = validate_dependencies ord ord' (collected ds os)"
proof -
  have "distinct (map sm_name os)" using assms(2) by (simp add: fresh_starters_def)
  then have "map_of (map (\<lambda>m. (sm_name m, m)) (rev os)) = map_of (map (\<lambda>m. (sm_name m, m)) os)"
    using map_of_rev_distinct [of "map (\<lambda>m. (sm_name m, m)) os"] by (simp add: rev_map comp_def)
  then show ?thesis
    using assms by (simp add: new_starter_catalog_def add_defaults add_optionals empty_catalog_def collected_def catalog_of_def
        starter_names_def)
qed

lemma fresh_names:
  "fresh_starters ds {} \<and> fresh_starters os (set (map sm_name ds)) \<longleftrightarrow>
     (\<forall>n \<in> set (starter_names (ds @ os)). canonical_name n) \<and> distinct (starter_names (ds @ os))"
  by (auto simp: fresh_starters_def starter_names_def) (metis imageI)+

lemma new_starter_catalog_collect:
  assumes "new_starter_catalog ord ord' ms ns = Inr c"
  obtains ds os where "ms = map Some ds" "ns = map Some os" "fresh_starters ds {}"
    "fresh_starters os (set (map sm_name ds))" "validate_dependencies ord ord' (collected ds os) = Inr c"
proof -
  obtain s where s: "each_err add_default ms ({}, empty_catalog) = Inr s"
    using assms by (auto simp: new_starter_catalog_def split: sum.splits)
  then obtain ds where ds: "ms = map Some ds" "fresh_starters ds {}" using add_defaults_fresh by blast
  with s have "fst s = set (map sm_name ds)" by (auto simp: add_defaults)
  moreover obtain t where "each_err add_optional ns s = Inr t"
    using assms s by (auto simp: new_starter_catalog_def split: sum.splits)
  ultimately obtain os where "ns = map Some os" "fresh_starters os (set (map sm_name ds))"
    using add_optionals_fresh by (metis prod.collapse)
  with ds assms that show thesis using collected_shape by metis
qed

subsection \<open>Checking the dependencies\<close>

definition dependency_ok :: "'m starter_catalog \<Rightarrow> string \<Rightarrow> string \<Rightarrow> bool" where
  "dependency_ok c name d \<longleftrightarrow> canonical_name d \<and> d \<noteq> name \<and> all_starters c d \<noteq> None
     \<and> (name \<in> ct_default_names c \<longrightarrow> d \<in> ct_default_names c)"

lemma all_starters_deps [simp]: "all_starters (c\<lparr>ct_dependencies := f\<rparr>) = all_starters c"
  by (simp add: all_starters_def)

lemma all_names_deps [simp]: "all_names (c\<lparr>ct_dependencies := f\<rparr>) = all_names c"
  by (simp add: all_names_def)

lemma dependency_ok_deps [simp]: "dependency_ok (c\<lparr>ct_dependencies := f\<rparr>) = dependency_ok c"
  by (intro ext) (simp add: dependency_ok_def)

lemma add_dependency_iff:
  "add_dependency name d (seen, c) = Inr r \<longleftrightarrow> dependency_ok c name d \<and> d \<notin> seen
     \<and> r = (insert d seen, c\<lparr>ct_dependencies := (ct_dependencies c)(name := ct_dependencies c name @ [d])\<rparr>)"
  using canonical_nameD [of d] by (auto simp: add_dependency_def dependency_ok_def)

lemma add_each_dependency:
  "each_err (add_dependency name) dl (seen, c) = Inr r \<longleftrightarrow>
     distinct dl \<and> set dl \<inter> seen = {} \<and> (\<forall>d \<in> set dl. dependency_ok c name d)
     \<and> r = (seen \<union> set dl, c\<lparr>ct_dependencies := (ct_dependencies c)(name := ct_dependencies c name @ dl)\<rparr>)"
proof (induction dl arbitrary: seen c)
  case (Cons d dl)
  show ?case
  proof (cases "dependency_ok c name d \<and> d \<notin> seen")
    case True
    then have "add_dependency name d (seen, c) =
        Inr (insert d seen, c\<lparr>ct_dependencies := (ct_dependencies c)(name := ct_dependencies c name @ [d])\<rparr>)"
      by (simp add: add_dependency_iff)
    with True show ?thesis by (auto simp: Cons.IH cong: if_cong)
  next
    case False
    then have "add_dependency name d (seen, c) \<noteq> Inr q" for q by (auto simp: add_dependency_iff)
    then obtain e where "add_dependency name d (seen, c) = Inl e" by (metis sum.exhaust)
    with False show ?thesis by auto
  qed
qed auto

definition starter_deps :: "'m starter_catalog \<Rightarrow> string \<Rightarrow> string list" where
  "starter_deps c n = sm_dependencies (the (all_starters c n))"

definition starter_deps_ok :: "'m starter_catalog \<Rightarrow> string \<Rightarrow> bool" where
  "starter_deps_ok c n \<longleftrightarrow> distinct (starter_deps c n) \<and> (\<forall>d \<in> set (starter_deps c n). dependency_ok c n d)"

lemma starter_deps_deps [simp]:
  "starter_deps (c\<lparr>ct_dependencies := f\<rparr>) = starter_deps c"
  "starter_deps_ok (c\<lparr>ct_dependencies := f\<rparr>) = starter_deps_ok c"
  by (intro ext, simp add: starter_deps_def starter_deps_ok_def)+

lemma add_dependencies_iff:
  "add_dependencies n c = Inr c' \<longleftrightarrow> starter_deps_ok c n
     \<and> c' = c\<lparr>ct_dependencies := (ct_dependencies c)(n := ct_dependencies c n @ starter_deps c n)\<rparr>"
proof -
  have "add_dependencies n c = Inr c' \<longleftrightarrow>
      (\<exists>s. each_err (add_dependency n) (starter_deps c n) ({}, c) = Inr (s, c'))"
    by (auto simp: add_dependencies_def starter_deps_def map_sum_def split: sum.splits)
  then show ?thesis by (auto simp: add_each_dependency starter_deps_ok_def)
qed

lemma add_all_dependencies:
  assumes "distinct ns"
  shows "each_err add_dependencies ns c = Inr c' \<longleftrightarrow> (\<forall>n \<in> set ns. starter_deps_ok c n)
     \<and> c' = c\<lparr>ct_dependencies := \<lambda>n. if n \<in> set ns then ct_dependencies c n @ starter_deps c n
                                    else ct_dependencies c n\<rparr>"
  using assms
proof (induction ns arbitrary: c)
  case Nil
  then show ?case by auto
next
  case (Cons n ns)
  show ?case
  proof (cases "starter_deps_ok c n")
    case True
    let ?f = "(ct_dependencies c)(n := ct_dependencies c n @ starter_deps c n)"
    have "add_dependencies n c = Inr (c\<lparr>ct_dependencies := ?f\<rparr>)"
      using True by (simp add: add_dependencies_iff)
    moreover have "(\<lambda>m. if m \<in> set ns then ?f m @ starter_deps c m else ?f m)
        = (\<lambda>m. if m \<in> set (n # ns) then ct_dependencies c m @ starter_deps c m else ct_dependencies c m)"
      using Cons.prems by (auto simp: fun_eq_iff)
    moreover have "each_err add_dependencies ns (c\<lparr>ct_dependencies := ?f\<rparr>) = Inr c' \<longleftrightarrow>
        (\<forall>m \<in> set ns. starter_deps_ok c m)
        \<and> c' = c\<lparr>ct_dependencies := \<lambda>m. if m \<in> set ns then ?f m @ starter_deps c m else ?f m\<rparr>"
      using Cons.IH [of "c\<lparr>ct_dependencies := ?f\<rparr>"] Cons.prems
      by (simp cong: if_cong)
    ultimately show ?thesis using True by simp
  next
    case False
    then have "add_dependencies n c \<noteq> Inr q" for q by (auto simp: add_dependencies_iff)
    then obtain e where "add_dependencies n c = Inl e" by (metis sum.exhaust)
    with False show ?thesis by auto
  qed
qed

lemma visit_all_iff:
  assumes "distinct ns" and "finite N" and "set ns = N" and "\<And>m. set (deps m) \<subseteq> N"
    and "\<And>m. m \<notin> N \<Longrightarrow> deps m = []" and "card N < k"
  shows "(\<exists>st. each_err (visit_starter k deps) ns (\<lambda>_. 0) = Inr st) \<longleftrightarrow> acyclic (edges deps)"
    and "acyclic (edges deps) \<Longrightarrow> \<exists>zs. topo deps zs \<and> set zs = N"
proof -
  have found: "\<exists>zs. topo deps zs \<and> N \<subseteq> set zs" if "each_err (visit_starter k deps) ns (\<lambda>_. 0) = Inr st" for st
  proof -
    have "walked deps {} (\<lambda>_. 0)" by (auto simp: walked_def intro: exI [of _ "[]"])
    with each_err_establish [OF that, of "walked deps {}" "\<lambda>y t. t y = 2"] visit_sound
    have "walked deps {} st" "\<forall>x \<in> set ns. st x = 2" by blast+
    with assms(3) show ?thesis by (auto simp: walked_def)
  qed
  have total: "\<exists>st. each_err (visit_starter k deps) ns (\<lambda>_. 0) = Inr st" if "acyclic (edges deps)"
  proof -
    let ?I = "\<lambda>t. {m. t m = (1::nat)} = {}"
    have "\<exists>t'. visit_starter k deps x t = Inr t' \<and> ?I t'" if x: "x \<in> set ns" and t: "?I t" for x t
    proof -
      have "\<exists>t'. visit_starter k deps x t = Inr t' \<and> {m. t' m = 1} = {m. t m = 1}"
        by (rule visit_complete [of N]) (use x t assms \<open>acyclic (edges deps)\<close> in auto)
      with t show ?thesis by simp
    qed
    then show ?thesis using each_err_total [of ?I "\<lambda>_. 0" ns "visit_starter k deps"] by auto
  qed
  have restrict: "\<exists>ys. topo deps ys \<and> set ys = N" if "topo deps zs" "N \<subseteq> set zs" for zs
  proof -
    have "topo deps (filter (\<lambda>z. z \<in> N) zs)"
      using that(1) assms(4) by (induction zs) auto
    moreover have "set (filter (\<lambda>z. z \<in> N) zs) = N" using that(2) by auto
    ultimately show ?thesis by blast
  qed
  show "(\<exists>st. each_err (visit_starter k deps) ns (\<lambda>_. 0) = Inr st) \<longleftrightarrow> acyclic (edges deps)"
    using found restrict total topo_acyclic assms(5) by metis
  show "\<exists>zs. topo deps zs \<and> set zs = N" if "acyclic (edges deps)"
    using total [OF that] found restrict by blast
qed

subsection \<open>What is accepted\<close>

lemma find_name_append:
  "find (\<lambda>m. sm_name m = n) (ds @ os) = (case find (\<lambda>m. sm_name m = n) ds of None \<Rightarrow> find (\<lambda>m. sm_name m = n) os | r \<Rightarrow> r)"
  by (induction ds) auto

lemma map_of_find: "map_of (map (\<lambda>m. (sm_name m, m)) ms) n = find (\<lambda>m. sm_name m = n) ms"
  by (induction ms) auto

lemma all_starters_collected:
  assumes "distinct (starter_names (ds @ os))"
  shows "all_starters (collected ds os) n = find (\<lambda>m. sm_name m = n) (ds @ os)"
proof -
  let ?p = "map (\<lambda>m. (sm_name m, m))"
  have "distinct (map sm_name ds)" and disj: "set (map sm_name ds) \<inter> set (map sm_name os) = {}"
    using assms by (auto simp: starter_names_def)
  then have rev: "map_of (rev (?p ds)) = map_of (?p ds)"
    by (intro map_of_rev_distinct) (simp add: comp_def)
  have "find (\<lambda>m. sm_name m = n) os = None" if "find (\<lambda>m. sm_name m = n) ds = Some m" for m
    using that disj by (force simp: find_None_iff find_Some_iff)
  then show ?thesis
    unfolding all_starters_def collected_def catalog_of_def find_name_append
    by (auto simp: rev map_add_def map_of_find split: option.splits)
qed

lemma find_starter:
  assumes "distinct (starter_names ms)" and "m \<in> set ms"
  shows "find (\<lambda>x. sm_name x = sm_name m) ms = Some m"
  using assms find_unique [of sm_name ms m] by (simp add: starter_names_def)

lemma manifest_deps_in: "distinct (starter_names ms) \<Longrightarrow> m \<in> set ms \<Longrightarrow> manifest_deps ms (sm_name m) = sm_dependencies m"
  by (simp add: manifest_deps_def find_starter)

lemma manifest_deps_out: "n \<notin> set (starter_names ms) \<Longrightarrow> manifest_deps ms n = []"
  by (auto simp: manifest_deps_def starter_names_def split: option.splits dest: find_key_Some)

lemma collected_simps [simp]:
  "set (all_names (collected ds os)) = set (starter_names (ds @ os))"
  "length (all_names (collected ds os)) = length (ds @ os)"
  "ct_default_names (collected ds os) = set (starter_names ds)"
  "ct_dependencies (collected ds os) = (\<lambda>_. [])"
  by (auto simp: all_names_def collected_def catalog_of_def starter_names_def)

lemma catalog_of_simps [simp]:
  "set (all_names (catalog_of ds os)) = set (starter_names (ds @ os))"
  "length (all_names (catalog_of ds os)) = length (ds @ os)"
  "ct_defaults (catalog_of ds os) = ds"
  "ct_default_names (catalog_of ds os) = set (starter_names ds)"
  "ct_optional (catalog_of ds os) = (\<lambda>n. find (\<lambda>m. sm_name m = n) os)"
  "ct_dependencies (catalog_of ds os) = manifest_deps (ds @ os)"
  by (auto simp: all_names_def catalog_of_def starter_names_def map_of_find fun_eq_iff)

lemma find_name_iff: "find (\<lambda>m. sm_name m = n) ms = None \<longleftrightarrow> n \<notin> set (starter_names ms)"
  by (auto simp: find_key_None starter_names_def)

lemma collected_deps_ok:
  assumes "distinct (starter_names (ds @ os))" and "m \<in> set (ds @ os)"
  shows "starter_deps_ok (collected ds os) (sm_name m) \<longleftrightarrow> dependencies_ok ds os m"
    and "starter_deps (collected ds os) (sm_name m) = sm_dependencies m"
  using assms
  by (auto simp: starter_deps_ok_def starter_deps_def dependencies_ok_def dependency_ok_def all_starters_collected
      find_starter find_name_iff)

lemma deps_within:
  assumes "distinct (starter_names (ds @ os))" and "\<forall>m \<in> set (ds @ os). dependencies_ok ds os m"
  shows "set (manifest_deps (ds @ os) n) \<subseteq> set (starter_names (ds @ os))"
proof (cases "n \<in> set (starter_names (ds @ os))")
  case True
  then obtain m where m: "m \<in> set (ds @ os)" "n = sm_name m" unfolding starter_names_def by auto
  then have "set (sm_dependencies m) \<subseteq> set (starter_names (ds @ os))"
    using assms(2) unfolding dependencies_ok_def by blast
  with m manifest_deps_in [OF assms(1) m(1)] show ?thesis by simp
next
  case False
  then show ?thesis by (simp add: manifest_deps_out)
qed

lemma validate_collected:
  assumes "go_range ord" and "go_range ord'" and names: "\<forall>n \<in> set (starter_names (ds @ os)). canonical_name n"
    and distinct: "distinct (starter_names (ds @ os))"
  shows "validate_dependencies ord ord' (collected ds os) = Inr c \<longleftrightarrow> starters_ok ds os \<and> c = catalog_of ds os"
proof -
  let ?N = "set (starter_names (ds @ os))" and ?c = "collected ds os"
  have ord: "distinct (ord ?N)" "set (ord ?N) = ?N" "distinct (ord' ?N)" "set (ord' ?N) = ?N"
    using assms(1, 2) by (simp_all add: go_range_def)
  let ?f = "\<lambda>n. if n \<in> ?N then starter_deps ?c n else []"
  have f: "?f = manifest_deps (ds @ os)"
  proof
    fix n show "?f n = manifest_deps (ds @ os) n"
    proof (cases "n \<in> ?N")
      case True
      then obtain m where "m \<in> set (ds @ os)" "n = sm_name m" by (auto simp: starter_names_def)
      with True show ?thesis using collected_deps_ok(2) [OF distinct] manifest_deps_in [OF distinct] by simp
    next
      case False then show ?thesis by (simp add: manifest_deps_out)
    qed
  qed
  have shape: "?c\<lparr>ct_dependencies := manifest_deps (ds @ os)\<rparr> = catalog_of ds os"
    by (simp add: collected_def catalog_of_def)
  have oks: "(\<forall>n \<in> ?N. starter_deps_ok ?c n) \<longleftrightarrow> (\<forall>m \<in> set (ds @ os). dependencies_ok ds os m)"
    using collected_deps_ok(1) [OF distinct] by (auto simp: starter_names_def)
  have first: "each_err add_dependencies (ord ?N) ?c = Inr c1 \<longleftrightarrow>
      (\<forall>m \<in> set (ds @ os). dependencies_ok ds os m) \<and> c1 = catalog_of ds os" for c1
    using add_all_dependencies [OF ord(1), of ?c c1] f shape oks by (simp add: ord(2) cong: if_cong)
  show ?thesis
  proof (cases "\<forall>m \<in> set (ds @ os). dependencies_ok ds os m")
    case False
    then show ?thesis using first by (auto simp: validate_dependencies_def starters_ok_def split: sum.splits)
  next
    case True
    then have run: "each_err add_dependencies (ord ?N) ?c = Inr (catalog_of ds os)" using first by blast
    have sub: "set (manifest_deps (ds @ os) m) \<subseteq> ?N" for m
      using deps_within [OF distinct True] .
    have "card ?N < Suc (length (ds @ os))"
      using card_length [of "starter_names (ds @ os)"] by (simp add: starter_names_def)
    note visit = visit_all_iff(1) [of "ord' ?N" ?N "manifest_deps (ds @ os)" "Suc (length (ds @ os))",
        OF ord(3) _ ord(4) sub manifest_deps_out this]
    show ?thesis
      using run visit True names distinct
      by (auto simp: validate_dependencies_def starters_ok_def split: sum.splits)
  qed
qed

theorem new_starter_catalog_iff:
  assumes "go_range ord" and "go_range ord'"
  shows "new_starter_catalog ord ord' ms ns = Inr c \<longleftrightarrow>
    (\<exists>ds os. ms = map Some ds \<and> ns = map Some os \<and> starters_ok ds os \<and> c = catalog_of ds os)"
proof
  assume "new_starter_catalog ord ord' ms ns = Inr c"
  then show "\<exists>ds os. ms = map Some ds \<and> ns = map Some os \<and> starters_ok ds os \<and> c = catalog_of ds os"
    using validate_collected [OF assms] fresh_names by (metis new_starter_catalog_collect)
next
  assume "\<exists>ds os. ms = map Some ds \<and> ns = map Some os \<and> starters_ok ds os \<and> c = catalog_of ds os"
  then obtain ds os where *: "ms = map Some ds" "ns = map Some os" "starters_ok ds os" "c = catalog_of ds os" by blast
  then have "fresh_starters ds {}" "fresh_starters os (set (map sm_name ds))"
    using fresh_names [of ds os] by (auto simp: starters_ok_def)
  moreover have "validate_dependencies ord ord' (collected ds os) = Inr c"
    using validate_collected [OF assms, of ds os c] * by (simp add: starters_ok_def)
  ultimately show "new_starter_catalog ord ord' ms ns = Inr c"
    using collected_shape * by metis
qed

subsection \<open>What is selected\<close>

lemma catalog_topo:
  assumes "starters_ok ds os"
  obtains zs where "topo (manifest_deps (ds @ os)) zs" and "set zs = set (starter_names (ds @ os))"
    and "length zs \<le> length (ds @ os)"
proof -
  let ?N = "set (starter_names (ds @ os))"
  have distinct: "distinct (starter_names (ds @ os))" using assms by (simp add: starters_ok_def)
  have sub: "set (manifest_deps (ds @ os) m) \<subseteq> ?N" for m
    using deps_within [OF distinct] assms by (simp add: starters_ok_def)
  have card: "card ?N < Suc (length (ds @ os))"
    using card_length [of "starter_names (ds @ os)"] by (simp add: starter_names_def)
  have "\<exists>zs. topo (manifest_deps (ds @ os)) zs \<and> set zs = ?N"
    by (rule visit_all_iff(2) [of "starter_names (ds @ os)", OF distinct _ refl sub manifest_deps_out card])
      (use assms in \<open>simp_all add: starters_ok_def\<close>)
  then obtain zs where zs: "topo (manifest_deps (ds @ os)) zs" "set zs = ?N" by blast
  then have "length zs = card ?N" using topo_distinct distinct_card by metis
  with card zs that show thesis by simp
qed

definition optional_ok :: "'m starter_manifest list \<Rightarrow> string list \<Rightarrow> bool" where
  "optional_ok os names \<longleftrightarrow> distinct names \<and> set names \<subseteq> set (starter_names os)"

lemma check_selected_iff:
  assumes "starters_ok ds os"
  shows "each_err (check_selected f (catalog_of ds os)) names seen = Inr r \<longleftrightarrow>
    optional_ok os names \<and> set names \<inter> seen = {} \<and> r = seen \<union> set names"
proof (induction names arbitrary: seen)
  case (Cons n names)
  have disj: "n \<in> set (starter_names os) \<Longrightarrow> n \<notin> set (starter_names ds) \<and> canonical_name n"
    using assms by (auto simp: starters_ok_def starter_names_def)
  show ?case
  proof (cases "n \<in> set (starter_names os) \<and> n \<notin> seen")
    case True
    with disj have "check_selected f (catalog_of ds os) n seen = Inr (insert n seen)"
      using canonical_nameD [of n] by (auto simp: check_selected_def find_name_iff)
    with True show ?thesis by (auto simp: Cons.IH optional_ok_def)
  next
    case False
    then have "\<exists>e. check_selected f (catalog_of ds os) n seen = Inl e"
      by (auto simp: check_selected_def find_name_iff)
    with False show ?thesis by (auto simp: optional_ok_def)
  qed
qed (auto simp: optional_ok_def)

text \<open>The optional starters that a list of optional starters needs, directly or not, itself included.\<close>

definition optional_closure :: "'m starter_manifest list \<Rightarrow> string list \<Rightarrow> string set" where
  "optional_closure os names =
     {(a, b). b \<in> set (manifest_deps os a) \<and> b \<in> set (starter_names os)}\<^sup>* `` set names"

lemma manifest_deps_append:
  "distinct (starter_names (ds @ os)) \<Longrightarrow> n \<in> set (starter_names os) \<Longrightarrow> manifest_deps (ds @ os) n = manifest_deps os n"
proof -
  assume "distinct (starter_names (ds @ os))" and "n \<in> set (starter_names os)"
  then have "n \<notin> set (starter_names ds)" by (auto simp: starter_names_def)
  then have "find (\<lambda>m. sm_name m = n) ds = None" by (simp add: find_name_iff)
  then show ?thesis by (simp add: manifest_deps_def find_name_append)
qed

lemma assemble_catalog:
  assumes ok: "starters_ok ds os" and names: "set names \<subseteq> set (starter_names os)"
  obtains ns where "assemble_names (catalog_of ds os) names = Inr ns"
    and "topo (optional_deps (catalog_of ds os)) (rev ns)" and "set ns = optional_closure os names"
proof -
  let ?c = "catalog_of ds os"
  obtain zs where zs: "topo (manifest_deps (ds @ os)) zs" "set zs = set (starter_names (ds @ os))"
    "length zs \<le> length (ds @ os)" using catalog_topo [OF ok] .
  obtain ns where ns: "assemble_names ?c names = Inr ns" "topo (optional_deps ?c) (rev ns)"
      "set ns = (edges (optional_deps ?c))\<^sup>* `` set names"
  proof (rule assemble_names_spec [of ?c zs names])
    show "set names \<subseteq> set zs" using names zs(2) by (auto simp: starter_names_def)
    show "n \<in> set zs" if "ct_dependencies ?c n \<noteq> []" for n
      using that manifest_deps_out [of n "ds @ os"] zs(2) by auto
  qed (use zs in simp_all)
  let ?R = "{(a, b). b \<in> set (manifest_deps os a) \<and> b \<in> set (starter_names os)}"
  have distinct: "distinct (starter_names (ds @ os))" using ok by (simp add: starters_ok_def)
  have step: "b \<in> set (optional_deps ?c a) \<longleftrightarrow> b \<in> set (manifest_deps os a) \<and> b \<in> set (starter_names os)"
    if "a \<in> set (starter_names os)" for a b
    using that manifest_deps_append [OF distinct that] by (auto simp: set_optional_deps find_name_iff)
  have fwd: "(a, b) \<in> ?R\<^sup>* \<and> b \<in> set (starter_names os)"
    if "(a, b) \<in> (edges (optional_deps ?c))\<^sup>*" "a \<in> set (starter_names os)" for a b
    using that by (induction rule: rtrancl_induct) (auto simp: step intro: rtrancl_into_rtrancl)
  have bwd: "(a, b) \<in> (edges (optional_deps ?c))\<^sup>* \<and> b \<in> set (starter_names os)"
    if "(a, b) \<in> ?R\<^sup>*" "a \<in> set (starter_names os)" for a b
    using that by (induction rule: rtrancl_induct) (auto, metis edges_iff step rtrancl.rtrancl_into_rtrancl)
  have "set ns = optional_closure os names"
    unfolding ns(3) optional_closure_def using fwd bwd names by blast
  with ns that show thesis by blast
qed

text \<open>Assembling what is already in order changes nothing.\<close>

lemma assemble_ordered:
  assumes "topo (optional_deps c) (rev ns)" and "set ns \<subseteq> set (all_names c)"
  shows "assemble_names c ns = Inr ns"
proof -
  have settled: "each_err (append_with k c) ds acc = Inr acc" if "set ds \<subseteq> set acc" "0 < k" for k ds acc
    using that by (induction ds) (auto simp: gr0_conv_Suc)
  have "each_err (append_with (Suc (length (all_names c))) c) ns [] = Inr ns"
    using assms
  proof (induction ns rule: rev_induct)
    case (snoc n ns)
    then have "0 < length (all_names c)" by (cases "all_names c") auto
    with snoc show ?case by (auto simp: each_err_append settled)
  qed simp
  then show ?thesis by (simp add: assemble_names_def)
qed

text \<open>Optional starters may depend on defaults and on optional starters of the selection.\<close>

definition selection_closed :: "'m starter_manifest list \<Rightarrow> string list \<Rightarrow> bool" where
  "selection_closed os names \<longleftrightarrow> (\<forall>n \<in> set names. \<forall>d \<in> set (manifest_deps os n). d \<in> set (starter_names os) \<longrightarrow> d \<in> set names)"

lemma each_err_unit: "each_err f xs () = Inr u \<longleftrightarrow> (\<forall>x \<in> set xs. f x () = Inr ())"
  by (induction xs) (auto split: sum.splits)

lemma closed_check:
  assumes ok: "starters_ok ds os" and "set names \<subseteq> set (starter_names os)"
    and "go_range ord"
  shows "each_err (\<lambda>n. each_err (selected_dependency (catalog_of ds os) (set names) n)
      (ct_dependencies (catalog_of ds os) n)) (ord (set names)) () = Inr u \<longleftrightarrow> selection_closed os names"
proof -
  have distinct: "distinct (starter_names (ds @ os))" using ok by (simp add: starters_ok_def)
  have deps: "manifest_deps (ds @ os) n = manifest_deps os n" if "n \<in> set names" for n
    using manifest_deps_append [OF distinct] that assms(2) by blast
  have known: "d \<in> set (starter_names ds) \<or> d \<in> set (starter_names os)" if "n \<in> set names" "d \<in> set (manifest_deps os n)" for n d
    using deps_within [OF distinct, of n] ok that deps by (auto simp: starters_ok_def starter_names_def)
  have disj: "d \<in> set (starter_names ds) \<Longrightarrow> d \<notin> set (starter_names os)" for d
    using distinct by (auto simp: starter_names_def)
  have each: "each_err (selected_dependency (catalog_of ds os) (set names) n) (manifest_deps (ds @ os) n) () = Inr () \<longleftrightarrow>
      (\<forall>d \<in> set (manifest_deps os n). d \<in> set (starter_names os) \<longrightarrow> d \<in> set names)" if n: "n \<in> set names" for n
  proof -
    have "selected_dependency (catalog_of ds os) (set names) n d () = Inr () \<longleftrightarrow>
        (d \<in> set (starter_names os) \<longrightarrow> d \<in> set names)" if "d \<in> set (manifest_deps os n)" for d
      using known [OF n that] disj [of d] by (auto simp: selected_dependency_def)
    then show ?thesis by (simp add: each_err_unit deps [OF n])
  qed
  have "set (ord (set names)) = set names" using assms(3) by (simp add: go_range_def)
  then show ?thesis using each by (simp add: each_err_unit selection_closed_def)
qed

lemma closure_closed:
  assumes "selection_closed os names" and "set names \<subseteq> set (starter_names os)"
  shows "optional_closure os names = set names"
proof -
  have "b \<in> set names"
    if "(a, b) \<in> {(a, b). b \<in> set (manifest_deps os a) \<and> b \<in> set (starter_names os)}\<^sup>*" "a \<in> set names" for a b
    using that by (induction rule: rtrancl_induct) (use assms(1) in \<open>auto simp: selection_closed_def\<close>)
  then show ?thesis by (auto simp: optional_closure_def)
qed

definition manifests_named :: "'m starter_manifest list \<Rightarrow> string list \<Rightarrow> 'm starter_manifest list" where
  "manifests_named os ns = map (\<lambda>n. the (find (\<lambda>m. sm_name m = n) os)) ns"

lemma select_iff:
  assumes ok: "starters_ok ds os" and ord: "go_range ord"
  shows "select_starters ord (Some (catalog_of ds os)) names = Inr ms \<longleftrightarrow>
    optional_ok os names \<and> selection_closed os names
    \<and> (\<exists>ns. assemble_names (catalog_of ds os) names = Inr ns \<and> ms = ds @ manifests_named os ns)"
proof (cases "optional_ok os names")
  case False
  then show ?thesis using check_selected_iff [OF ok, of _ names "{}"]
    by (auto simp: select_starters_def split: sum.splits)
next
  case True
  then have check: "each_err (check_selected f (catalog_of ds os)) names {} = Inr (set names)" for f
    using check_selected_iff [OF ok, of f names "{}"] by simp
  have sub: "set names \<subseteq> set (starter_names os)" using True by (simp add: optional_ok_def)
  show ?thesis
    using check closed_check [OF ok sub ord] True
    by (auto simp: select_starters_def manifests_named_def split: sum.splits)
qed

text \<open>Each optional starter stands after its optional dependencies.\<close>

definition dependencies_first :: "'m starter_manifest list \<Rightarrow> string list \<Rightarrow> bool" where
  "dependencies_first os ns \<longleftrightarrow> distinct ns \<and>
     (\<forall>i < length ns. \<forall>d \<in> set (manifest_deps os (ns ! i)). d \<in> set (starter_names os) \<longrightarrow> d \<in> set (take i ns))"

lemma topo_dependencies_first:
  assumes ok: "starters_ok ds os" and "topo (optional_deps (catalog_of ds os)) (rev ns)"
    and "set ns \<subseteq> set (starter_names os)"
  shows "dependencies_first os ns"
proof -
  have distinct: "distinct (starter_names (ds @ os))" using ok by (simp add: starters_ok_def)
  have "d \<in> set (take i ns)" if i: "i < length ns" and d: "d \<in> set (manifest_deps os (ns ! i))" "d \<in> set (starter_names os)" for i d
  proof -
    have "ns ! i \<in> set (starter_names os)" using i assms(3) by (meson nth_mem subsetD)
    then have "d \<in> set (optional_deps (catalog_of ds os) (ns ! i))"
      using d manifest_deps_append [OF distinct] find_name_iff [of d os] by (auto simp: set_optional_deps)
    with topo_rev_nth [OF assms(2) i] show ?thesis by blast
  qed
  with topo_distinct [OF assms(2)] show ?thesis by (auto simp: dependencies_first_def)
qed

lemma closure_names: "set names \<subseteq> set (starter_names os) \<Longrightarrow> optional_closure os names \<subseteq> set (starter_names os)"
proof -
  assume sub: "set names \<subseteq> set (starter_names os)"
  have "b \<in> set (starter_names os)"
    if "(a, b) \<in> {(a, b). b \<in> set (manifest_deps os a) \<and> b \<in> set (starter_names os)}\<^sup>*" "a \<in> set names" for a b
    using that sub by (induction rule: rtrancl_induct) auto
  then show ?thesis by (auto simp: optional_closure_def)
qed

theorem selection_correct:
  assumes "starters_ok ds os" and "go_range ord"
  shows "(\<exists>ms. select_starters ord (Some (catalog_of ds os)) names = Inr ms) \<longleftrightarrow>
           optional_ok os names \<and> selection_closed os names"
    and "select_starters ord (Some (catalog_of ds os)) names = Inr ms \<Longrightarrow>
           \<exists>ns. ms = ds @ manifests_named os ns \<and> set ns = set names \<and> dependencies_first os ns"
proof -
  show "\<exists>ns. ms = ds @ manifests_named os ns \<and> set ns = set names \<and> dependencies_first os ns"
    if sel: "select_starters ord (Some (catalog_of ds os)) names = Inr ms" for ms
  proof -
    have ok: "optional_ok os names" and closed: "selection_closed os names"
      and run: "\<exists>ns. assemble_names (catalog_of ds os) names = Inr ns \<and> ms = ds @ manifests_named os ns"
      using sel select_iff [OF assms] by blast+
    have sub: "set names \<subseteq> set (starter_names os)" using ok by (simp add: optional_ok_def)
    obtain ns where ns: "assemble_names (catalog_of ds os) names = Inr ns"
      "topo (optional_deps (catalog_of ds os)) (rev ns)" "set ns = optional_closure os names"
      using assemble_catalog [OF assms(1) sub] .
    have eq: "set ns = set names" using ns(3) closure_closed [OF closed sub] by simp
    then have "dependencies_first os ns" using topo_dependencies_first [OF assms(1) ns(2)] sub by simp
    with run ns(1) eq show ?thesis by auto
  qed
  show "(\<exists>ms. select_starters ord (Some (catalog_of ds os)) names = Inr ms) \<longleftrightarrow>
      optional_ok os names \<and> selection_closed os names"
  proof
    assume *: "optional_ok os names \<and> selection_closed os names"
    then have "set names \<subseteq> set (starter_names os)" by (simp add: optional_ok_def)
    then obtain ns where "assemble_names (catalog_of ds os) names = Inr ns"
      using assemble_catalog [OF assms(1)] by blast
    with * show "\<exists>ms. select_starters ord (Some (catalog_of ds os)) names = Inr ms"
      using select_iff [OF assms] by blast
  qed (use select_iff [OF assms] in blast)
qed

theorem resolution_correct:
  assumes ok: "starters_ok ds os" and "go_range ord" and names: "optional_ok os names"
  obtains ns where "resolve_optional (Some (catalog_of ds os)) names = Inr ns"
    and "set ns = optional_closure os names" and "dependencies_first os ns"
    and "select_starters ord (Some (catalog_of ds os)) ns = Inr (ds @ manifests_named os ns)"
proof -
  have sub: "set names \<subseteq> set (starter_names os)" using names by (simp add: optional_ok_def)
  obtain ns where ns: "assemble_names (catalog_of ds os) names = Inr ns"
    "topo (optional_deps (catalog_of ds os)) (rev ns)" "set ns = optional_closure os names"
    using assemble_catalog [OF ok sub] .
  have run: "resolve_optional (Some (catalog_of ds os)) names = Inr ns"
    using ns(1) check_selected_iff [OF ok, of id names "{}" "set names"] names
    by (simp add: resolve_optional_def)
  have sub': "set ns \<subseteq> set (starter_names os)" using ns(3) closure_names [OF sub] by simp
  have first: "dependencies_first os ns" using topo_dependencies_first [OF ok ns(2) sub'] .
  have "selection_closed os ns"
    unfolding selection_closed_def
  proof (intro ballI impI)
    fix n d assume "n \<in> set ns" "d \<in> set (manifest_deps os n)" "d \<in> set (starter_names os)"
    then show "d \<in> set ns"
      using first unfolding dependencies_first_def by (metis in_set_conv_nth in_set_takeD)
  qed
  moreover have "optional_ok os ns" using first sub' by (simp add: optional_ok_def dependencies_first_def)
  moreover have "assemble_names (catalog_of ds os) ns = Inr ns"
    using assemble_ordered [OF ns(2)] sub' by (auto simp: starter_names_def)
  ultimately have "select_starters ord (Some (catalog_of ds os)) ns = Inr (ds @ manifests_named os ns)"
    using select_iff [OF ok assms(2)] by blast
  with run ns(3) first that show thesis by blast
qed

end
