(* ===== verification/Account_Deletion.thy ===== *)
theory Account_Deletion
  imports Prelude
begin

text \<open>
  \<open>modules/user/account_deletion_policy.go\<close>: the guards and cleaners that active starters register for the deletion
  of an account. \<open>'s\<close> is the database state: a guard reads it, a cleaner changes it. A nil policy or participant is
  \<open>None\<close>; the receiver's mutex makes each operation one step.
\<close>

record 's deletion_guard =
  dg_name :: string
  dg_check :: "'s \<Rightarrow> nat \<Rightarrow> string option"

record 's deletion_cleaner =
  dc_name :: string
  dc_clean :: "'s \<Rightarrow> nat \<Rightarrow> 's \<times> string option"

record 's deletion_policy =
  dp_guards :: "'s deletion_guard list"
  dp_guardNames :: "string set"
  dp_cleaners :: "'s deletion_cleaner list"
  dp_cleanerNames :: "string set"

datatype deletion_error =
    Policy_required
  | Participant_required
  | Participant_name_required
  | Participant_duplicate string

definition new_deletion_policy :: "'s deletion_policy" where
  "new_deletion_policy = \<lparr>dp_guards = [], dp_guardNames = {}, dp_cleaners = [], dp_cleanerNames = {}\<rparr>"

definition register_guard ::
  "'s deletion_guard option \<Rightarrow> 's deletion_policy option \<Rightarrow> deletion_error + 's deletion_policy" where
  "register_guard g p = (case p of
     None \<Rightarrow> Inl Policy_required
   | Some p \<Rightarrow>
       (case g of
          None \<Rightarrow> Inl Participant_required
        | Some g \<Rightarrow>
            let name = trim_space (dg_name g)
            in if name = '''' then Inl Participant_name_required
               else if name \<in> dp_guardNames p then Inl (Participant_duplicate name)
               else Inr (p\<lparr>dp_guardNames := insert name (dp_guardNames p), dp_guards := dp_guards p @ [g]\<rparr>)))"

definition register_cleaner ::
  "'s deletion_cleaner option \<Rightarrow> 's deletion_policy option \<Rightarrow> deletion_error + 's deletion_policy" where
  "register_cleaner c p = (case p of
     None \<Rightarrow> Inl Policy_required
   | Some p \<Rightarrow>
       (case c of
          None \<Rightarrow> Inl Participant_required
        | Some c \<Rightarrow>
            let name = trim_space (dc_name c)
            in if name = '''' then Inl Participant_name_required
               else if name \<in> dp_cleanerNames p then Inl (Participant_duplicate name)
               else Inr (p\<lparr>dp_cleanerNames := insert name (dp_cleanerNames p), dp_cleaners := dp_cleaners p @ [c]\<rparr>)))"

fun check_guards :: "'s deletion_guard list \<Rightarrow> 's \<Rightarrow> nat \<Rightarrow> string option" where
  "check_guards [] s u = None"
| "check_guards (g # gs) s u = (case dg_check g s u of Some e \<Rightarrow> Some e | None \<Rightarrow> check_guards gs s u)"

fun run_cleaners :: "'s deletion_cleaner list \<Rightarrow> 's \<Rightarrow> nat \<Rightarrow> 's \<times> string option" where
  "run_cleaners [] s u = (s, None)"
| "run_cleaners (c # cs) s u = (case dc_clean c s u of (s', Some e) \<Rightarrow> (s', Some e) | (s', None) \<Rightarrow> run_cleaners cs s' u)"

definition prepare_deletion :: "'s deletion_policy option \<Rightarrow> 's \<Rightarrow> nat \<Rightarrow> 's \<times> string option" where
  "prepare_deletion p s u = (case p of
     None \<Rightarrow> (s, None)
   | Some p \<Rightarrow>
       (case check_guards (dp_guards p) s u of
          Some e \<Rightarrow> (s, Some e)
        | None \<Rightarrow> run_cleaners (dp_cleaners p) s u))"

definition check_deletion :: "'s deletion_policy option \<Rightarrow> 's \<Rightarrow> nat \<Rightarrow> string option" where
  "check_deletion p s u = (case p of None \<Rightarrow> None | Some p \<Rightarrow> check_guards (dp_guards p) s u)"

subsection \<open>Facts\<close>

definition policy_ok :: "'s deletion_policy \<Rightarrow> bool" where
  "policy_ok p \<longleftrightarrow> distinct (map (trim_space \<circ> dg_name) (dp_guards p))
     \<and> dp_guardNames p = (trim_space \<circ> dg_name) ` set (dp_guards p)
     \<and> distinct (map (trim_space \<circ> dc_name) (dp_cleaners p))
     \<and> dp_cleanerNames p = (trim_space \<circ> dc_name) ` set (dp_cleaners p)"

lemma policy_ok_new: "policy_ok new_deletion_policy"
  by (simp add: policy_ok_def new_deletion_policy_def)

lemma policy_ok_guard: "policy_ok p \<Longrightarrow> register_guard g (Some p) = Inr p' \<Longrightarrow> policy_ok p'"
  by (auto simp: policy_ok_def register_guard_def Let_def split: option.splits if_splits)

lemma policy_ok_cleaner: "policy_ok p \<Longrightarrow> register_cleaner c (Some p) = Inr p' \<Longrightarrow> policy_ok p'"
  by (auto simp: policy_ok_def register_cleaner_def Let_def split: option.splits if_splits)

lemma check_guards_None: "check_guards gs s u = None \<longleftrightarrow> (\<forall>g \<in> set gs. dg_check g s u = None)"
  by (induction gs) (auto split: option.splits)

text \<open>A guard that objects stops the deletion before any cleaner has run.\<close>

lemma prepare_blocked:
  assumes "g \<in> set (dp_guards p)" and "dg_check g s u \<noteq> None"
  shows "fst (prepare_deletion (Some p) s u) = s" and "snd (prepare_deletion (Some p) s u) \<noteq> None"
proof -
  have "check_guards (dp_guards p) s u \<noteq> None" using assms by (auto simp: check_guards_None)
  then obtain e where "check_guards (dp_guards p) s u = Some e" by blast
  then show "fst (prepare_deletion (Some p) s u) = s" and "snd (prepare_deletion (Some p) s u) \<noteq> None"
    by (simp_all add: prepare_deletion_def)
qed

lemma run_cleaners_done:
  "snd (run_cleaners cs s u) = None \<Longrightarrow>
     fst (run_cleaners cs s u) = fold (\<lambda>c t. fst (dc_clean c t u)) cs s"
  by (induction cs arbitrary: s) (auto split: prod.splits option.splits)

end
