(* ===== verification/Starter_Registry.thy ===== *)
theory Starter_Registry
  imports Starter_Catalog_Props Account_Deletion
begin

text \<open>
  \<open>internal/starter/registry.go\<close>: the registry that assembles the selected starters. \<open>'w\<close> is the state that the
  hooks of modules act on; a capability that a module does not implement is \<open>None\<close>. The global lists of migrations
  and seeders (\<open>database/migrations\<close>, \<open>database/seeders\<close>) are arguments; a nil entry in them is \<open>None\<close>.
\<close>

record 'w starter_module =
  md_name :: string
  md_activate :: "('w \<Rightarrow> 'w \<times> string option) option"
  md_shutdown :: "('w \<Rightarrow> 'w \<times> string option) option"
  md_routes :: "('w \<Rightarrow> 'w) option"
  md_middleware :: "('w \<Rightarrow> 'w) option"
  md_errors :: "('w \<Rightarrow> 'w) option"
  md_events :: "('w \<Rightarrow> 'w) option"

record 'w starter_seeder =
  sd_name :: string
  sd_run :: "'w \<Rightarrow> 'w \<times> string option"

record ('w, 'g) starter_registry =
  rg_starters :: "string list"
  rg_starterSet :: "string set"
  rg_modules :: "'w starter_module list"
  rg_moduleOwners :: "string \<rightharpoonup> string"
  rg_migrations :: "string \<rightharpoonup> 'g"
  rg_migrationOwners :: "string \<rightharpoonup> string"
  rg_seeders :: "'w starter_seeder list"
  rg_seederOwners :: "string \<rightharpoonup> string"

type_synonym 'w manifest = "'w starter_module starter_manifest"

datatype registry_error =
    Catalog_failed catalog_error
  | Already_applied string
  | Module_missing string
  | Module_name_invalid string
  | Module_repeated string string
  | Module_owned string string
  | Migration_name_missing string
  | Migration_repeated string string
  | Migration_owned string string
  | Migration_unknown string
  | Seeder_name_missing string
  | Seeder_repeated string string
  | Seeder_owned string string
  | Seeder_unknown string
  | Activation_failed string string

definition new_registry :: "('w, 'g) starter_registry" where
  "new_registry = \<lparr>rg_starters = [], rg_starterSet = {}, rg_modules = [], rg_moduleOwners = Map.empty,
     rg_migrations = Map.empty, rg_migrationOwners = Map.empty, rg_seeders = [], rg_seederOwners = Map.empty\<rparr>"

subsection \<open>Direct registration\<close>

definition register_module ::
  "'w starter_module option \<Rightarrow> ('w, 'g) starter_registry \<Rightarrow> ('w, 'g) starter_registry" where
  "register_module m r = (case m of
     None \<Rightarrow> r
   | Some m \<Rightarrow>
       if md_name m = '''' \<or> rg_moduleOwners r (md_name m) \<noteq> None then r
       else r\<lparr>rg_moduleOwners := (rg_moduleOwners r)(md_name m \<mapsto> ''direct registration''),
              rg_modules := rg_modules r @ [m]\<rparr>)"

definition register_migration ::
  "string \<Rightarrow> 'g option \<Rightarrow> ('w, 'g) starter_registry \<Rightarrow> ('w, 'g) starter_registry" where
  "register_migration name g r = (case g of
     None \<Rightarrow> r
   | Some g \<Rightarrow>
       if name = '''' \<or> rg_migrationOwners r name \<noteq> None then r
       else r\<lparr>rg_migrationOwners := (rg_migrationOwners r)(name \<mapsto> ''direct registration''),
              rg_migrations := (rg_migrations r)(name \<mapsto> g)\<rparr>)"

definition register_seeder ::
  "'w starter_seeder option \<Rightarrow> ('w, 'g) starter_registry \<Rightarrow> ('w, 'g) starter_registry" where
  "register_seeder sd r = (case sd of
     None \<Rightarrow> r
   | Some sd \<Rightarrow>
       if sd_name sd = '''' \<or> rg_seederOwners r (sd_name sd) \<noteq> None then r
       else r\<lparr>rg_seederOwners := (rg_seederOwners r)(sd_name sd \<mapsto> ''direct registration''),
              rg_seeders := rg_seeders r @ [sd]\<rparr>)"

definition register_migration_by_name ::
  "(string \<rightharpoonup> 'g option) \<Rightarrow> string \<Rightarrow> ('w, 'g) starter_registry \<Rightarrow> registry_error + ('w, 'g) starter_registry" where
  "register_migration_by_name migrations name r =
     (if name = '''' then Inr r
      else case migrations name of
        None \<Rightarrow> Inl (Migration_unknown name)
      | Some g \<Rightarrow>
          (case rg_migrationOwners r name of
             Some owner \<Rightarrow> Inl (Migration_owned name owner)
           | None \<Rightarrow> Inr (register_migration name g r)))"

text \<open>\<open>seeder.Name()\<close> on a nil seeder panics; the list is taken to hold none.\<close>

definition register_seeder_by_name ::
  "'w starter_seeder list \<Rightarrow> string \<Rightarrow> ('w, 'g) starter_registry \<Rightarrow> registry_error + ('w, 'g) starter_registry" where
  "register_seeder_by_name seeders name r =
     (if name = '''' then Inr r
      else case find (\<lambda>sd. sd_name sd = name) seeders of
        None \<Rightarrow> Inl (Seeder_unknown name)
      | Some sd \<Rightarrow>
          (case rg_seederOwners r name of
             Some owner \<Rightarrow> Inl (Seeder_owned name owner)
           | None \<Rightarrow> Inr (register_seeder (Some sd) r)))"

subsection \<open>Applying a manifest\<close>

definition check_module ::
  "('w, 'g) starter_registry \<Rightarrow> string \<Rightarrow> 'w starter_module option \<Rightarrow> string set \<Rightarrow> registry_error + string set" where
  "check_module r name m seen = (case m of
     None \<Rightarrow> Inl (Module_missing name)
   | Some m \<Rightarrow>
       if \<not> canonical_name (md_name m) then Inl (Module_name_invalid (md_name m))
       else if md_name m \<in> seen then Inl (Module_repeated (md_name m) name)
       else (case rg_moduleOwners r (md_name m) of
               Some owner \<Rightarrow> Inl (Module_owned (md_name m) owner)
             | None \<Rightarrow> Inr (insert (md_name m) seen)))"

definition resolve_migration ::
  "(string \<rightharpoonup> 'g option) \<Rightarrow> ('w, 'g) starter_registry \<Rightarrow> string \<Rightarrow> string \<Rightarrow> (string \<rightharpoonup> 'g) \<Rightarrow>
   registry_error + (string \<rightharpoonup> 'g)" where
  "resolve_migration migrations r name mg resolved =
     (if mg = '''' then Inl (Migration_name_missing name)
      else if resolved mg \<noteq> None then Inl (Migration_repeated mg name)
      else case rg_migrationOwners r mg of
        Some owner \<Rightarrow> Inl (Migration_owned mg owner)
      | None \<Rightarrow>
          (case migrations mg of
             Some (Some g) \<Rightarrow> Inr (resolved(mg \<mapsto> g))
           | _ \<Rightarrow> Inl (Migration_unknown mg)))"

text \<open>\<open>allSeeders\<close> keeps the last seeder of a name.\<close>

definition seeder_table :: "'w starter_seeder option list \<Rightarrow> string \<rightharpoonup> 'w starter_seeder" where
  "seeder_table seeders = map_of (rev (map (\<lambda>sd. (sd_name sd, sd)) (List.map_filter id seeders)))"

definition resolve_seeder ::
  "'w starter_seeder option list \<Rightarrow> ('w, 'g) starter_registry \<Rightarrow> string \<Rightarrow> string \<Rightarrow> (string \<rightharpoonup> 'w starter_seeder) \<Rightarrow>
   registry_error + (string \<rightharpoonup> 'w starter_seeder)" where
  "resolve_seeder seeders r name sn resolved =
     (if sn = '''' then Inl (Seeder_name_missing name)
      else if resolved sn \<noteq> None then Inl (Seeder_repeated sn name)
      else case rg_seederOwners r sn of
        Some owner \<Rightarrow> Inl (Seeder_owned sn owner)
      | None \<Rightarrow>
          (case seeder_table seeders sn of
             Some sd \<Rightarrow> Inr (resolved(sn \<mapsto> sd))
           | None \<Rightarrow> Inl (Seeder_unknown sn)))"

fun activate_modules :: "'w starter_module list \<Rightarrow> 'w \<Rightarrow> 'w \<times> registry_error option" where
  "activate_modules [] w = (w, None)"
| "activate_modules (m # ms) w =
     (case md_activate m of
        None \<Rightarrow> activate_modules ms w
      | Some activate \<Rightarrow>
          (case activate w of
             (w', Some e) \<Rightarrow> (w', Some (Activation_failed (md_name m) e))
           | (w', None) \<Rightarrow> activate_modules ms w'))"

definition apply_manifest ::
  "(string \<rightharpoonup> 'g option) \<Rightarrow> 'w starter_seeder option list \<Rightarrow> 'w manifest option \<Rightarrow>
   ('w, 'g) starter_registry \<times> 'w \<Rightarrow> (registry_error \<times> 'w) + ('w, 'g) starter_registry \<times> 'w" where
  "apply_manifest migrations seeders mf s = (case s of (r, w) \<Rightarrow>
     (case validate_catalog_manifest mf of
        Inl e \<Rightarrow> Inl (Catalog_failed e, w)
      | Inr name \<Rightarrow>
          if name \<in> rg_starterSet r then Inl (Already_applied name, w)
          else (case each_err (check_module r name) (sm_modules (the mf)) {} of
            Inl e \<Rightarrow> Inl (e, w)
          | Inr _ \<Rightarrow>
          (case each_err (resolve_migration migrations r name) (sm_migrations (the mf)) Map.empty of
            Inl e \<Rightarrow> Inl (e, w)
          | Inr mgs \<Rightarrow>
          (case each_err (resolve_seeder seeders r name) (sm_seeders (the mf)) Map.empty of
            Inl e \<Rightarrow> Inl (e, w)
          | Inr sds \<Rightarrow>
              let ms = map the (sm_modules (the mf))
              in (case activate_modules ms w of
                    (w', Some e) \<Rightarrow> Inl (e, w')
                  | (w', None) \<Rightarrow>
                      Inr (r\<lparr>rg_moduleOwners := fold (\<lambda>m os. os(md_name m \<mapsto> name)) ms (rg_moduleOwners r),
                             rg_modules := rg_modules r @ ms,
                             rg_migrationOwners := (\<lambda>n. if mgs n = None then rg_migrationOwners r n else Some name),
                             rg_migrations := rg_migrations r ++ mgs,
                             rg_seederOwners := fold (\<lambda>sn os. os(sn \<mapsto> name)) (sm_seeders (the mf)) (rg_seederOwners r),
                             rg_seeders := rg_seeders r @ map (\<lambda>sn. the (sds sn)) (sm_seeders (the mf)),
                             rg_starterSet := insert name (rg_starterSet r),
                             rg_starters := rg_starters r @ [name]\<rparr>, w')))))))"

definition registry_from_manifests ::
  "(string \<rightharpoonup> 'g option) \<Rightarrow> 'w starter_seeder option list \<Rightarrow> 'w manifest list \<Rightarrow> 'w \<Rightarrow>
   (registry_error \<times> 'w) + ('w, 'g) starter_registry \<times> 'w" where
  "registry_from_manifests migrations seeders ms w =
     each_err (apply_manifest migrations seeders) (map Some ms) (new_registry, w)"

subsection \<open>The hooks of the assembled modules\<close>

definition run_hooks :: "('w starter_module \<Rightarrow> ('w \<Rightarrow> 'w) option) \<Rightarrow> 'w starter_module list \<Rightarrow> 'w \<Rightarrow> 'w" where
  "run_hooks hook ms w = fold (\<lambda>m w. case hook m of None \<Rightarrow> w | Some f \<Rightarrow> f w) ms w"

definition register_routes :: "('w, 'g) starter_registry option \<Rightarrow> 'w \<Rightarrow> 'w" where
  "register_routes r w = (case r of None \<Rightarrow> w | Some r \<Rightarrow> run_hooks md_routes (rg_modules r) w)"

definition register_middleware :: "('w, 'g) starter_registry option \<Rightarrow> 'w \<Rightarrow> 'w" where
  "register_middleware r w = (case r of None \<Rightarrow> w | Some r \<Rightarrow> run_hooks md_middleware (rg_modules r) w)"

definition register_error_mappings :: "('w, 'g) starter_registry option \<Rightarrow> 'w \<Rightarrow> 'w" where
  "register_error_mappings r w = (case r of None \<Rightarrow> w | Some r \<Rightarrow> run_hooks md_errors (rg_modules r) w)"

definition register_events :: "('w, 'g) starter_registry option \<Rightarrow> 'w \<Rightarrow> 'w" where
  "register_events r w = (case r of None \<Rightarrow> w | Some r \<Rightarrow> run_hooks md_events (rg_modules r) w)"

text \<open>\<open>Shutdown\<close> goes on after an error and joins them all.\<close>

fun shutdown_modules :: "'w starter_module list \<Rightarrow> 'w \<Rightarrow> 'w \<times> (string \<times> string) list" where
  "shutdown_modules [] w = (w, [])"
| "shutdown_modules (m # ms) w =
     (case md_shutdown m of
        None \<Rightarrow> shutdown_modules ms w
      | Some close \<Rightarrow>
          (case close w of (w', res) \<Rightarrow>
             (case shutdown_modules ms w' of (w'', errs) \<Rightarrow>
                (w'', (case res of None \<Rightarrow> errs | Some e \<Rightarrow> (md_name m, e) # errs)))))"

definition shutdown_registry :: "('w, 'g) starter_registry option \<Rightarrow> 'w \<Rightarrow> 'w \<times> (string \<times> string) list" where
  "shutdown_registry r w = (case r of None \<Rightarrow> (w, []) | Some r \<Rightarrow> shutdown_modules (rg_modules r) w)"

end
