(* ===== verification/Starter_Registry_Props.thy ===== *)
theory Starter_Registry_Props
  imports Starter_Registry
begin

text \<open>
  When a manifest is applied, what the registry holds afterwards, and when a list of manifests assembles as a
  whole. \<open>extended\<close> is the registry with one manifest's contributions added.
\<close>

subsection \<open>The preflight checks\<close>

lemma check_modules:
  "each_err (check_module r name) (map Some ms) seen = Inr s \<longleftrightarrow>
     (\<forall>m \<in> set ms. canonical_name (md_name m) \<and> md_name m \<notin> seen \<and> rg_moduleOwners r (md_name m) = None)
     \<and> distinct (map md_name ms) \<and> s = seen \<union> set (map md_name ms)"
proof (induction ms arbitrary: seen)
  case (Cons m ms)
  show ?case
  proof (cases "canonical_name (md_name m) \<and> md_name m \<notin> seen \<and> rg_moduleOwners r (md_name m) = None")
    case True
    then have "check_module r name (Some m) seen = Inr (insert (md_name m) seen)" by (simp add: check_module_def)
    with True show ?thesis by (auto simp: Cons.IH image_iff)
  next
    case False
    then have "\<exists>e. check_module r name (Some m) seen = Inl e" by (auto simp: check_module_def split: option.splits)
    with False show ?thesis by auto
  qed
qed auto

lemma check_modules_some: "each_err (check_module r name) ms seen = Inr s \<Longrightarrow> \<exists>ns. ms = map Some ns"
proof (induction ms arbitrary: seen)
  case (Cons m ms)
  then obtain n where "m = Some n" by (cases m) (auto simp: check_module_def)
  moreover obtain ns where "ms = map Some ns" using Cons by (auto split: sum.splits)
  ultimately have "m # ms = map Some (n # ns)" by simp
  then show ?case by (rule exI)
qed simp

lemma resolve_migrations:
  "each_err (resolve_migration migs r name) ns acc = Inr acc' \<longleftrightarrow>
     distinct ns \<and> (\<forall>n \<in> set ns. n \<noteq> '''' \<and> acc n = None \<and> rg_migrationOwners r n = None \<and> (\<exists>g. migs n = Some (Some g)))
     \<and> acc' = (\<lambda>n. if n \<in> set ns then the (migs n) else acc n)"
proof (induction ns arbitrary: acc)
  case (Cons n ns)
  show ?case
  proof (cases "n \<noteq> '''' \<and> acc n = None \<and> rg_migrationOwners r n = None \<and> (\<exists>g. migs n = Some (Some g))")
    case True
    then obtain g where g: "migs n = Some (Some g)" by blast
    with True have "resolve_migration migs r name n acc = Inr (acc(n \<mapsto> g))" by (simp add: resolve_migration_def)
    moreover have "(\<lambda>x. if x \<in> set ns then the (migs x) else (acc(n \<mapsto> g)) x) = (\<lambda>x. if x \<in> set (n # ns) then the (migs x) else acc x)"
      using g by auto
    ultimately show ?thesis using True by (auto simp: Cons.IH split: if_splits)
  next
    case False
    then have "\<exists>e. resolve_migration migs r name n acc = Inl e"
      by (auto simp: resolve_migration_def split: option.splits)
    with False show ?thesis by auto
  qed
qed auto

lemma resolve_seeders:
  "each_err (resolve_seeder seeders r name) ns acc = Inr acc' \<longleftrightarrow>
     distinct ns \<and> (\<forall>n \<in> set ns. n \<noteq> '''' \<and> acc n = None \<and> rg_seederOwners r n = None \<and> seeder_table seeders n \<noteq> None)
     \<and> acc' = (\<lambda>n. if n \<in> set ns then seeder_table seeders n else acc n)"
proof (induction ns arbitrary: acc)
  case (Cons n ns)
  show ?case
  proof (cases "n \<noteq> '''' \<and> acc n = None \<and> rg_seederOwners r n = None \<and> seeder_table seeders n \<noteq> None")
    case True
    then obtain g where g: "seeder_table seeders n = Some g" by blast
    with True have "resolve_seeder seeders r name n acc = Inr (acc(n \<mapsto> g))" by (simp add: resolve_seeder_def)
    moreover have "(\<lambda>x. if x \<in> set ns then seeder_table seeders x else (acc(n \<mapsto> g)) x)
        = (\<lambda>x. if x \<in> set (n # ns) then seeder_table seeders x else acc x)"
      using g by auto
    ultimately show ?thesis using True by (auto simp: Cons.IH split: if_splits)
  next
    case False
    then have "\<exists>e. resolve_seeder seeders r name n acc = Inl e"
      by (auto simp: resolve_seeder_def split: option.splits)
    with False show ?thesis by auto
  qed
qed auto

lemma seeder_table_name: "seeder_table seeders n = Some sd \<Longrightarrow> sd_name sd = n"
  by (auto simp: seeder_table_def dest!: map_of_SomeD)

subsection \<open>One manifest\<close>

abbreviation manifest_modules :: "'w manifest \<Rightarrow> 'w starter_module list" where
  "manifest_modules mf \<equiv> map the (sm_modules mf)"

definition manifest_fits ::
  "(string \<rightharpoonup> 'g option) \<Rightarrow> 'w starter_seeder option list \<Rightarrow> ('w, 'g) starter_registry \<Rightarrow> 'w manifest \<Rightarrow> bool" where
  "manifest_fits migs seeders r mf \<longleftrightarrow>
     canonical_name (sm_name mf) \<and> sm_name mf \<notin> rg_starterSet r
   \<and> None \<notin> set (sm_modules mf)
   \<and> (\<forall>m \<in> set (manifest_modules mf). canonical_name (md_name m) \<and> rg_moduleOwners r (md_name m) = None)
   \<and> distinct (map md_name (manifest_modules mf))
   \<and> (\<forall>n \<in> set (sm_migrations mf). n \<noteq> '''' \<and> rg_migrationOwners r n = None \<and> (\<exists>g. migs n = Some (Some g)))
   \<and> distinct (sm_migrations mf)
   \<and> (\<forall>n \<in> set (sm_seeders mf). n \<noteq> '''' \<and> rg_seederOwners r n = None \<and> seeder_table seeders n \<noteq> None)
   \<and> distinct (sm_seeders mf)"

definition owned_by :: "string \<Rightarrow> string list \<Rightarrow> (string \<rightharpoonup> string) \<Rightarrow> (string \<rightharpoonup> string)" where
  "owned_by name ns os = (\<lambda>n. if n \<in> set ns then Some name else os n)"

definition extended ::
  "(string \<rightharpoonup> 'g option) \<Rightarrow> 'w starter_seeder option list \<Rightarrow> 'w manifest \<Rightarrow> ('w, 'g) starter_registry \<Rightarrow>
   ('w, 'g) starter_registry" where
  "extended migs seeders mf r =
     \<lparr>rg_starters = rg_starters r @ [sm_name mf],
      rg_starterSet = insert (sm_name mf) (rg_starterSet r),
      rg_modules = rg_modules r @ manifest_modules mf,
      rg_moduleOwners = owned_by (sm_name mf) (map md_name (manifest_modules mf)) (rg_moduleOwners r),
      rg_migrations = (\<lambda>n. if n \<in> set (sm_migrations mf) then the (migs n) else rg_migrations r n),
      rg_migrationOwners = owned_by (sm_name mf) (sm_migrations mf) (rg_migrationOwners r),
      rg_seeders = rg_seeders r @ map (\<lambda>n. the (seeder_table seeders n)) (sm_seeders mf),
      rg_seederOwners = owned_by (sm_name mf) (sm_seeders mf) (rg_seederOwners r)\<rparr>"

lemma fold_owner: "fold (\<lambda>x os. os(f x \<mapsto> name)) xs os = owned_by name (map f xs) os"
  by (induction xs arbitrary: os) (auto simp: owned_by_def fun_eq_iff)

lemma map_Some_the: "None \<notin> set xs \<Longrightarrow> map Some (map the xs) = xs"
  by (induction xs) auto

text \<open>The registry with the record written out, for the comparison with \<open>extended\<close>.\<close>

lemma extended_update:
  assumes fits: "manifest_fits migs seeders r mf"
  shows "r\<lparr>rg_moduleOwners := fold (\<lambda>m os. os(md_name m \<mapsto> sm_name mf)) (manifest_modules mf) (rg_moduleOwners r),
           rg_modules := rg_modules r @ manifest_modules mf,
           rg_migrationOwners := (\<lambda>n. if (if n \<in> set (sm_migrations mf) then the (migs n) else None) = None
                                      then rg_migrationOwners r n else Some (sm_name mf)),
           rg_migrations := rg_migrations r ++ (\<lambda>n. if n \<in> set (sm_migrations mf) then the (migs n) else None),
           rg_seederOwners := fold (\<lambda>sn os. os(sn \<mapsto> sm_name mf)) (sm_seeders mf) (rg_seederOwners r),
           rg_seeders := rg_seeders r @ map (\<lambda>sn. the (if sn \<in> set (sm_seeders mf) then seeder_table seeders sn else None))
                                            (sm_seeders mf),
           rg_starterSet := insert (sm_name mf) (rg_starterSet r),
           rg_starters := rg_starters r @ [sm_name mf]\<rparr> = extended migs seeders mf r"
proof -
  have reg: "\<forall>n \<in> set (sm_migrations mf). the (migs n) \<noteq> None"
    using fits unfolding manifest_fits_def by fastforce
  have "(\<lambda>n. if (if n \<in> set (sm_migrations mf) then the (migs n) else None) = None
          then rg_migrationOwners r n else Some (sm_name mf)) = owned_by (sm_name mf) (sm_migrations mf) (rg_migrationOwners r)"
    by (intro ext) (use reg in \<open>auto simp: owned_by_def\<close>)
  moreover have "rg_migrations r ++ (\<lambda>n. if n \<in> set (sm_migrations mf) then the (migs n) else None)
      = (\<lambda>n. if n \<in> set (sm_migrations mf) then the (migs n) else rg_migrations r n)"
    using reg by (auto simp: map_add_def fun_eq_iff split: option.splits)
  moreover have "map (\<lambda>sn. the (if sn \<in> set (sm_seeders mf) then seeder_table seeders sn else None)) (sm_seeders mf)
      = map (\<lambda>n. the (seeder_table seeders n)) (sm_seeders mf)" by simp
  ultimately show ?thesis
    using fold_owner [of id "sm_name mf" "sm_seeders mf" "rg_seederOwners r"]
    by (simp add: extended_def fold_owner)
qed

lemma apply_manifest_iff:
  "apply_manifest migs seeders mfo (r, w) = Inr (r', w') \<longleftrightarrow>
     (\<exists>mf. mfo = Some mf \<and> manifest_fits migs seeders r mf
        \<and> activate_modules (manifest_modules mf) w = (w', None) \<and> r' = extended migs seeders mf r)"
proof (cases "\<exists>mf. mfo = Some mf \<and> manifest_fits migs seeders r mf")
  case True
  then obtain mf where mf: "mfo = Some mf" and fits: "manifest_fits migs seeders r mf" by blast
  have mods: "sm_modules mf = map Some (manifest_modules mf)"
    using fits map_Some_the [of "sm_modules mf"] by (simp add: manifest_fits_def)
  have "each_err (check_module r (sm_name mf)) (sm_modules mf) {} = Inr (set (map md_name (manifest_modules mf)))"
    by (subst mods, subst check_modules) (use fits in \<open>simp add: manifest_fits_def\<close>)
  moreover have "each_err (resolve_migration migs r (sm_name mf)) (sm_migrations mf) Map.empty
      = Inr (\<lambda>n. if n \<in> set (sm_migrations mf) then the (migs n) else None)"
    using fits by (simp add: resolve_migrations manifest_fits_def)
  moreover have "each_err (resolve_seeder seeders r (sm_name mf)) (sm_seeders mf) Map.empty
      = Inr (\<lambda>n. if n \<in> set (sm_seeders mf) then seeder_table seeders n else None)"
    using fits by (simp add: resolve_seeders manifest_fits_def)
  moreover have "validate_catalog_manifest mfo = Inr (sm_name mf)" "sm_name mf \<notin> rg_starterSet r"
    using fits mf by (simp_all add: validate_catalog_manifest_def manifest_fits_def)
  ultimately show ?thesis
    unfolding apply_manifest_def Let_def
    using fits mf extended_update [OF fits] by (auto split: prod.splits option.splits)
next
  case False
  have "apply_manifest migs seeders mfo (r, w) \<noteq> Inr (r', w')"
  proof
    assume run: "apply_manifest migs seeders mfo (r, w) = Inr (r', w')"
    then obtain mf where mf: "mfo = Some mf" "canonical_name (sm_name mf)" "sm_name mf \<notin> rg_starterSet r"
      by (auto simp: apply_manifest_def validate_catalog_manifest_def split: option.splits if_splits)
    from run mf obtain s where s: "each_err (check_module r (sm_name mf)) (sm_modules mf) {} = Inr s"
      by (auto simp: apply_manifest_def validate_catalog_manifest_def split: sum.splits)
    with run mf obtain gs where gs: "each_err (resolve_migration migs r (sm_name mf)) (sm_migrations mf) Map.empty = Inr gs"
      by (auto simp: apply_manifest_def validate_catalog_manifest_def split: sum.splits)
    with run mf s obtain sds where sds: "each_err (resolve_seeder seeders r (sm_name mf)) (sm_seeders mf) Map.empty = Inr sds"
      by (auto simp: apply_manifest_def validate_catalog_manifest_def split: sum.splits)
    obtain ns where ns: "sm_modules mf = map Some ns" using check_modules_some [OF s] by blast
    then have "manifest_modules mf = ns" by (simp add: comp_def)
    with s ns have "manifest_fits migs seeders r mf"
      using mf gs sds by (auto simp: manifest_fits_def check_modules resolve_migrations resolve_seeders)
    with mf False show False by blast
  qed
  with False show ?thesis by blast
qed

subsection \<open>The invariant of the registry\<close>

definition registry_ok :: "('w, 'g) starter_registry \<Rightarrow> bool" where
  "registry_ok r \<longleftrightarrow>
     distinct (rg_starters r) \<and> rg_starterSet r = set (rg_starters r)
   \<and> distinct (map md_name (rg_modules r)) \<and> dom (rg_moduleOwners r) = set (map md_name (rg_modules r))
   \<and> dom (rg_migrationOwners r) = dom (rg_migrations r)
   \<and> distinct (map sd_name (rg_seeders r)) \<and> dom (rg_seederOwners r) = set (map sd_name (rg_seeders r))
   \<and> ran (rg_moduleOwners r) \<union> ran (rg_migrationOwners r) \<union> ran (rg_seederOwners r)
       \<subseteq> insert ''direct registration'' (set (rg_starters r))"

lemma registry_ok_new: "registry_ok new_registry"
  by (simp add: registry_ok_def new_registry_def)

lemma registry_ok_module: "registry_ok r \<Longrightarrow> registry_ok (register_module m r)"
  by (auto simp: registry_ok_def register_module_def ran_def split: option.splits)

lemma registry_ok_migration: "registry_ok r \<Longrightarrow> registry_ok (register_migration n g r)"
  by (auto simp: registry_ok_def register_migration_def ran_def split: option.splits)

lemma registry_ok_seeder: "registry_ok r \<Longrightarrow> registry_ok (register_seeder sd r)"
  by (auto simp: registry_ok_def register_seeder_def ran_def split: option.splits) (metis domIff imageI)

lemma registry_ok_by_name:
  "registry_ok r \<Longrightarrow> register_migration_by_name migs n r = Inr r' \<Longrightarrow> registry_ok r'"
  "registry_ok r \<Longrightarrow> register_seeder_by_name seeders n r = Inr r' \<Longrightarrow> registry_ok r'"
  by (auto simp: register_migration_by_name_def register_seeder_by_name_def registry_ok_migration registry_ok_seeder
      split: if_splits option.splits)

lemma owned_by_dom: "dom (owned_by name ns os) = set ns \<union> dom os"
  by (auto simp: owned_by_def split: if_splits)

lemma owned_by_ran: "ran os \<subseteq> insert d S \<Longrightarrow> ran (owned_by name ns os) \<subseteq> insert d (insert name S)"
  by (auto simp: owned_by_def ran_def split: if_splits)

lemma registry_ok_extended:
  assumes ok: "registry_ok r" and fits: "manifest_fits migs seeders r mf"
  shows "registry_ok (extended migs seeders mf r)"
proof -
  have names: "map sd_name (map (\<lambda>n. the (seeder_table seeders n)) (sm_seeders mf)) = sm_seeders mf"
  proof -
    have "sd_name (the (seeder_table seeders n)) = n" if "n \<in> set (sm_seeders mf)" for n
      using fits that seeder_table_name [of seeders n] by (auto simp: manifest_fits_def)
    then show ?thesis by (simp add: map_idI)
  qed
  have "rg_migrations (extended migs seeders mf r) n \<noteq> None \<longleftrightarrow> n \<in> set (sm_migrations mf) \<union> dom (rg_migrations r)" for n
    using fits unfolding manifest_fits_def extended_def by (auto simp: fun_eq_iff)
  then have "dom (rg_migrations (extended migs seeders mf r)) = set (sm_migrations mf) \<union> dom (rg_migrations r)" by blast
  moreover have "dom (rg_moduleOwners r) \<inter> set (map md_name (manifest_modules mf)) = {}"
    "dom (rg_seederOwners r) \<inter> set (sm_seeders mf) = {}"
    using fits by (auto simp: manifest_fits_def)
  then have "md_name ` set (rg_modules r) \<inter> md_name ` the ` set (sm_modules mf) = {}"
    "sd_name ` set (rg_seeders r) \<inter> set (sm_seeders mf) = {}"
    using ok by (simp_all add: registry_ok_def image_image)
  ultimately show ?thesis
    using ok fits names
    by (simp add: registry_ok_def extended_def owned_by_dom manifest_fits_def Un_commute owned_by_ran del: map_map)
qed

lemma registry_ok_apply:
  "registry_ok r \<Longrightarrow> apply_manifest migs seeders mfo (r, w) = Inr (r', w') \<Longrightarrow> registry_ok r'"
  by (auto simp: apply_manifest_iff registry_ok_extended)

subsection \<open>A list of manifests\<close>

definition assembled ::
  "(string \<rightharpoonup> 'g option) \<Rightarrow> 'w starter_seeder option list \<Rightarrow> 'w manifest list \<Rightarrow> ('w, 'g) starter_registry" where
  "assembled migs seeders ms = foldl (\<lambda>r mf. extended migs seeders mf r) new_registry ms"

definition assembly_ok ::
  "(string \<rightharpoonup> 'g option) \<Rightarrow> 'w starter_seeder option list \<Rightarrow> 'w manifest list \<Rightarrow> bool" where
  "assembly_ok migs seeders ms \<longleftrightarrow>
     (\<forall>mf \<in> set ms. canonical_name (sm_name mf) \<and> None \<notin> set (sm_modules mf)) \<and> distinct (map sm_name ms)
   \<and> (\<forall>m \<in> set (concat (map manifest_modules ms)). canonical_name (md_name m))
   \<and> distinct (concat (map (\<lambda>mf. map md_name (manifest_modules mf)) ms))
   \<and> (\<forall>n \<in> set (concat (map sm_migrations ms)). n \<noteq> '''' \<and> (\<exists>g. migs n = Some (Some g)))
   \<and> distinct (concat (map sm_migrations ms))
   \<and> (\<forall>n \<in> set (concat (map sm_seeders ms)). n \<noteq> '''' \<and> seeder_table seeders n \<noteq> None)
   \<and> distinct (concat (map sm_seeders ms))"

lemma assembled_snoc [simp]:
  "assembled migs seeders [] = new_registry"
  "assembled migs seeders (ms @ [mf]) = extended migs seeders mf (assembled migs seeders ms)"
  by (simp_all add: assembled_def)

lemma assembled_fields:
  "rg_starters (assembled migs seeders ms) = map sm_name ms"
  "rg_starterSet (assembled migs seeders ms) = set (map sm_name ms)"
  "rg_modules (assembled migs seeders ms) = concat (map manifest_modules ms)"
  "rg_moduleOwners (assembled migs seeders ms) n = None \<longleftrightarrow>
     n \<notin> set (concat (map (\<lambda>mf. map md_name (manifest_modules mf)) ms))"
  "rg_migrations (assembled migs seeders ms) n = (if n \<in> set (concat (map sm_migrations ms)) then the (migs n) else None)"
  "rg_migrationOwners (assembled migs seeders ms) n = None \<longleftrightarrow> n \<notin> set (concat (map sm_migrations ms))"
  "rg_seeders (assembled migs seeders ms) = map (\<lambda>n. the (seeder_table seeders n)) (concat (map sm_seeders ms))"
  "rg_seederOwners (assembled migs seeders ms) n = None \<longleftrightarrow> n \<notin> set (concat (map sm_seeders ms))"
  by (induction ms rule: rev_induct) (simp_all add: new_registry_def extended_def owned_by_def del: map_map)

lemma assembly_snoc:
  "assembly_ok migs seeders (ms @ [mf]) \<longleftrightarrow>
     assembly_ok migs seeders ms \<and> manifest_fits migs seeders (assembled migs seeders ms) mf"
proof -
  let ?r = "assembled migs seeders ms" and ?F = "\<lambda>mf. map md_name (manifest_modules mf)"
  have 1: "(\<forall>x \<in> set (ms @ [mf]). canonical_name (sm_name x) \<and> None \<notin> set (sm_modules x)) \<longleftrightarrow>
      (\<forall>x \<in> set ms. canonical_name (sm_name x) \<and> None \<notin> set (sm_modules x))
      \<and> canonical_name (sm_name mf) \<and> None \<notin> set (sm_modules mf)" by auto
  have 2: "distinct (map sm_name (ms @ [mf])) \<longleftrightarrow> distinct (map sm_name ms) \<and> sm_name mf \<notin> rg_starterSet ?r"
    by (auto simp: assembled_fields)
  have 3: "(\<forall>m \<in> set (concat (map manifest_modules (ms @ [mf]))). canonical_name (md_name m)) \<longleftrightarrow>
      (\<forall>m \<in> set (concat (map manifest_modules ms)). canonical_name (md_name m))
      \<and> (\<forall>m \<in> set (manifest_modules mf). canonical_name (md_name m))" by (auto simp del: set_map)
  have 4: "distinct (concat (map ?F (ms @ [mf]))) \<longleftrightarrow> distinct (concat (map ?F ms)) \<and> distinct (?F mf)
      \<and> (\<forall>m \<in> set (manifest_modules mf). rg_moduleOwners ?r (md_name m) = None)"
  proof -
    have "distinct (xs @ ys) \<longleftrightarrow> distinct xs \<and> distinct ys \<and> (\<forall>y \<in> set ys. y \<notin> set xs)" for xs ys :: "string list"
      by auto
    then show ?thesis unfolding assembled_fields by (simp del: map_map distinct_append)
  qed
  have 5: "(\<forall>n \<in> set (concat (map sm_migrations (ms @ [mf]))). n \<noteq> '''' \<and> (\<exists>g. migs n = Some (Some g))) \<longleftrightarrow>
      (\<forall>n \<in> set (concat (map sm_migrations ms)). n \<noteq> '''' \<and> (\<exists>g. migs n = Some (Some g)))
      \<and> (\<forall>n \<in> set (sm_migrations mf). n \<noteq> '''' \<and> (\<exists>g. migs n = Some (Some g)))" by (simp add: ball_Un)
  have 6: "distinct (concat (map sm_migrations (ms @ [mf]))) \<longleftrightarrow> distinct (concat (map sm_migrations ms))
      \<and> distinct (sm_migrations mf) \<and> (\<forall>n \<in> set (sm_migrations mf). rg_migrationOwners ?r n = None)"
    unfolding assembled_fields by simp blast
  have 7: "(\<forall>n \<in> set (concat (map sm_seeders (ms @ [mf]))). n \<noteq> '''' \<and> seeder_table seeders n \<noteq> None) \<longleftrightarrow>
      (\<forall>n \<in> set (concat (map sm_seeders ms)). n \<noteq> '''' \<and> seeder_table seeders n \<noteq> None)
      \<and> (\<forall>n \<in> set (sm_seeders mf). n \<noteq> '''' \<and> seeder_table seeders n \<noteq> None)" by (simp add: ball_Un)
  have 8: "distinct (concat (map sm_seeders (ms @ [mf]))) \<longleftrightarrow> distinct (concat (map sm_seeders ms))
      \<and> distinct (sm_seeders mf) \<and> (\<forall>n \<in> set (sm_seeders mf). rg_seederOwners ?r n = None)"
    unfolding assembled_fields by simp blast
  show ?thesis
    unfolding assembly_ok_def manifest_fits_def
    unfolding 1 2 3 4 5 6 7 8
    unfolding ball_conj_distrib by argo
qed

lemma activate_append:
  "activate_modules (xs @ ys) w = (case activate_modules xs w of (w', Some e) \<Rightarrow> (w', Some e) | (w', None) \<Rightarrow> activate_modules ys w')"
  by (induction xs arbitrary: w) (auto split: prod.splits option.splits)

text \<open>All manifests are applied exactly when they fit together and every activation succeeds.\<close>

theorem registry_from_manifests_iff:
  "registry_from_manifests migs seeders ms w = Inr (r, w') \<longleftrightarrow>
     assembly_ok migs seeders ms \<and> r = assembled migs seeders ms
     \<and> activate_modules (concat (map manifest_modules ms)) w = (w', None)"
proof (induction ms arbitrary: r w' rule: rev_induct)
  case Nil
  then show ?case by (auto simp: registry_from_manifests_def assembly_ok_def)
next
  case (snoc mf ms)
  have "registry_from_manifests migs seeders (ms @ [mf]) w = Inr (r, w') \<longleftrightarrow>
      (\<exists>r1 w1. registry_from_manifests migs seeders ms w = Inr (r1, w1)
         \<and> apply_manifest migs seeders (Some mf) (r1, w1) = Inr (r, w'))"
    by (auto simp: registry_from_manifests_def each_err_append split: sum.splits)
  also have "\<dots> \<longleftrightarrow> (\<exists>w1. assembly_ok migs seeders ms \<and> activate_modules (concat (map manifest_modules ms)) w = (w1, None)
      \<and> manifest_fits migs seeders (assembled migs seeders ms) mf \<and> activate_modules (manifest_modules mf) w1 = (w', None)
      \<and> r = extended migs seeders mf (assembled migs seeders ms))"
    by (auto simp: snoc.IH apply_manifest_iff)
  finally show ?case
    by (auto simp: assembly_snoc activate_append split: prod.splits option.splits)
qed

lemma registry_ok_assembled: "assembly_ok migs seeders ms \<Longrightarrow> registry_ok (assembled migs seeders ms)"
  by (induction ms rule: rev_induct) (auto simp: assembly_snoc registry_ok_new registry_ok_extended)

subsection \<open>Parts of an assembly\<close>

definition disjoint_parts :: "('a \<Rightarrow> 'b list) \<Rightarrow> 'a list \<Rightarrow> bool" where
  "disjoint_parts f xs \<longleftrightarrow> (\<forall>x \<in> set xs. distinct (f x))
     \<and> (\<forall>x \<in> set xs. \<forall>y \<in> set xs. x \<noteq> y \<longrightarrow> set (f x) \<inter> set (f y) = {})"

lemma disjoint_parts_Cons: "a \<notin> set xs \<Longrightarrow> disjoint_parts f (a # xs) \<longleftrightarrow>
      distinct (f a) \<and> disjoint_parts f xs \<and> (\<forall>y \<in> set xs. set (f a) \<inter> set (f y) = {})"
  unfolding disjoint_parts_def by (auto simp: Int_commute) (metis disjoint_iff)+
lemma distinct_concat_parts:
  "distinct xs \<Longrightarrow> distinct (concat (map f xs)) \<longleftrightarrow> disjoint_parts f xs"
proof (induction xs)
  case (Cons a xs)
  then have "disjoint_parts f (a # xs) \<longleftrightarrow> distinct (f a) \<and> distinct (concat (map f xs))
      \<and> set (f a) \<inter> (\<Union>y \<in> set xs. set (f y)) = {}"
    by (simp add: disjoint_parts_Cons) blast
  then show ?case by simp
qed (simp add: disjoint_parts_def)

lemma disjoint_parts_subset: "disjoint_parts f ms \<Longrightarrow> set ms' \<subseteq> set ms \<Longrightarrow> disjoint_parts f ms'"
  unfolding disjoint_parts_def by (meson subsetD)

lemma assembly_subset:
  assumes ok: "assembly_ok migs seeders ms" and sub: "set ms' \<subseteq> set ms" and names: "distinct (map sm_name ms')"
  shows "assembly_ok migs seeders ms'"
proof -
  have "distinct ms" "distinct ms'" using ok names by (auto simp: assembly_ok_def distinct_map)
  then have parts: "distinct (concat (map f ms'))" if "distinct (concat (map f ms))" for f :: "_ \<Rightarrow> string list"
    using that sub disjoint_parts_subset by (simp add: distinct_concat_parts)
  have mono: "set (concat (map f ms')) \<subseteq> set (concat (map f ms))" for f :: "_ \<Rightarrow> 'x list"
    using sub by auto
  have mods: "set (concat (map manifest_modules ms')) \<subseteq> set (concat (map manifest_modules ms))"
    using sub by auto
  show ?thesis
    unfolding assembly_ok_def
  proof (intro conjI)
    show "\<forall>mf \<in> set ms'. canonical_name (sm_name mf) \<and> None \<notin> set (sm_modules mf)"
      using ok sub unfolding assembly_ok_def by blast
    show "\<forall>m \<in> set (concat (map manifest_modules ms')). canonical_name (md_name m)"
      using ok mods unfolding assembly_ok_def by (meson subsetD)
    show "\<forall>n \<in> set (concat (map sm_migrations ms')). n \<noteq> '''' \<and> (\<exists>g. migs n = Some (Some g))"
      using ok mono [of sm_migrations] unfolding assembly_ok_def by (meson subsetD)
    show "\<forall>n \<in> set (concat (map sm_seeders ms')). n \<noteq> '''' \<and> seeder_table seeders n \<noteq> None"
      using ok mono [of sm_seeders] unfolding assembly_ok_def by (meson subsetD)
  qed (use ok names parts in \<open>simp_all add: assembly_ok_def\<close>)
qed

end
