(* ===== verification/Starter_Shipped.thy ===== *)
theory Starter_Shipped
  imports Starter_Registry_Props
begin

text \<open>
  \<open>internal/starter/defaults.go\<close> and the \<open>NewStarterManifest\<close> of each module: the starters that ship with the
  program, and the assembly of a configured registry. \<open>Handlers\<close> gives each starter's module, \<open>None\<close> for a nil
  handler. The bodies of migrations and of the seeder are parameters, their names are the ones the files under
  \<open>database/\<close> register.
\<close>

subsection \<open>The manifests\<close>

definition audit_manifest :: "'m option \<Rightarrow> 'm starter_manifest" where
  "audit_manifest h = new_static_manifest ''audit''
     [Some (with_starter_summary ''Write-request audit logging, history reads, and bounded retention.''),
      Some (with_starter_module h),
      Some (with_starter_migrations [''2026_04_26_000000_create_audit_logs_table'']),
      Some (with_starter_migrations [''2026_04_27_000002_add_business_fields_to_audit_logs'']),
      Some (with_starter_migrations [''2026_07_25_000000_add_audit_retention_index'']),
      Some (with_starter_migrations [''2026_10_10_000000_add_audit_user_keyset_index''])]"

definition apikey_manifest :: "'m option \<Rightarrow> 'm starter_manifest" where
  "apikey_manifest h = new_static_manifest ''apikey''
     [Some (with_starter_summary ''Personal API keys with one-time secrets, revocation, and request authentication.''),
      Some (with_starter_module h),
      Some (with_starter_migrations [''2026_04_06_000000_create_api_keys_table''])]"

definition user_manifest :: "'m option \<Rightarrow> 'm starter_manifest" where
  "user_manifest h = new_static_manifest ''user''
     [Some (with_starter_summary ''Registration, sign-in, revocable sessions, profile, and password reset.''),
      Some (with_starter_module h),
      Some (with_starter_migrations
        [''2025_06_18_000000_create_users_table'',
         ''2026_04_27_000000_create_password_reset_tokens_table'',
         ''2026_04_27_000001_add_unique_index_to_users_username'',
         ''2026_04_27_000003_create_authentication_sessions_table'',
         ''2026_10_04_000000_add_audience_to_authentication_sessions'',
         ''2025_06_18_000001_seed_default_users'']),
      Some (with_starter_seeders [''users''])]"

definition organization_manifest :: "'m option \<Rightarrow> 'm starter_manifest" where
  "organization_manifest h = new_static_manifest ''organization''
     [Some (with_starter_summary ''Organization ownership, membership, invitations, active context, and ownership transfer.''),
      Some (with_starter_module h),
      Some (with_starter_migrations
        [''2026_07_14_000000_create_organizations_tables'',
         ''2026_07_15_000000_create_organization_invitations_table''])]"

definition permission_manifest :: "'m option \<Rightarrow> 'm starter_manifest" where
  "permission_manifest h = new_static_manifest ''permission''
     [Some (with_starter_summary
        ''Organization-scoped access roles, exact permission keys, member assignments, and fail-closed checks.''),
      Some (with_starter_dependencies [''organization'']),
      Some (with_starter_module h),
      Some (with_starter_migrations [''2026_07_15_010000_create_permission_tables''])]"

definition notification_manifest :: "'m option \<Rightarrow> 'm starter_manifest" where
  "notification_manifest h = new_static_manifest ''notification''
     [Some (with_starter_summary
        ''User-scoped in-app notifications and durable email delivery with preferences and leases.''),
      Some (with_starter_dependencies [''user'', ''audit'']),
      Some (with_starter_module h),
      Some (with_starter_migrations
        [''2026_07_15_020000_create_notification_tables'',
         ''2026_10_02_000000_drop_notification_preferences_user_id_sequence''])]"

definition asset_manifest :: "'m option \<Rightarrow> 'm starter_manifest" where
  "asset_manifest h = new_static_manifest ''asset''
     [Some (with_starter_summary ''User-owned private objects with bounded transfer grants and inspection.''),
      Some (with_starter_dependencies [''user'', ''audit'']),
      Some (with_starter_module h),
      Some (with_starter_migrations [''2026_07_15_030000_create_assets_table''])]"

definition setting_manifest :: "'m option \<Rightarrow> 'm starter_manifest" where
  "setting_manifest h = new_static_manifest ''setting''
     [Some (with_starter_summary ''Finite typed app, organization, and user overrides with versioned replacement.''),
      Some (with_starter_dependencies [''user'', ''audit'', ''organization'']),
      Some (with_starter_module h),
      Some (with_starter_migrations [''2026_07_15_040000_create_settings_table''])]"

definition usage_manifest :: "'m option \<Rightarrow> 'm starter_manifest" where
  "usage_manifest h = new_static_manifest ''usage''
     [Some (with_starter_summary ''Trusted idempotent metering, atomic quota decisions, and private summaries.''),
      Some (with_starter_dependencies [''user'', ''audit'', ''organization'']),
      Some (with_starter_module h),
      Some (with_starter_migrations [''2026_07_15_050000_create_usage_tables''])]"

definition webhook_manifest :: "'m option \<Rightarrow> 'm starter_manifest" where
  "webhook_manifest h = new_static_manifest ''webhook''
     [Some (with_starter_summary
        ''Organization-owned outbound endpoints with signed durable delivery, retries, and replay.''),
      Some (with_starter_dependencies [''user'', ''audit'', ''organization'']),
      Some (with_starter_module h),
      Some (with_starter_migrations [''2026_07_15_060000_create_webhook_tables''])]"

definition operator_manifest :: "'m option \<Rightarrow> 'm starter_manifest" where
  "operator_manifest h = new_static_manifest ''operator''
     [Some (with_starter_summary ''Platform operators: CLI-managed grants and the Admin Console cookie session.''),
      Some (with_starter_dependencies [''user'', ''audit'']),
      Some (with_starter_module h),
      Some (with_starter_migrations [''2026_10_01_000000_create_platform_operators_table''])]"

text \<open>\<open>Handlers\<close>, by starter name; a nil \<open>*Handlers\<close> has no module.\<close>

definition or_metadata_only :: "(string \<rightharpoonup> 'm) option \<Rightarrow> string \<rightharpoonup> 'm" where
  "or_metadata_only h = (case h of None \<Rightarrow> Map.empty | Some f \<Rightarrow> f)"

definition default_manifests :: "(string \<rightharpoonup> 'm) option \<Rightarrow> 'm starter_manifest list" where
  "default_manifests hs = (let h = or_metadata_only hs in
     [audit_manifest (h ''audit''), apikey_manifest (h ''apikey''), user_manifest (h ''user'')])"

definition optional_manifests :: "(string \<rightharpoonup> 'm) option \<Rightarrow> 'm starter_manifest list" where
  "optional_manifests hs = (let h = or_metadata_only hs in
     [organization_manifest (h ''organization''), permission_manifest (h ''permission''),
      notification_manifest (h ''notification''), asset_manifest (h ''asset''), setting_manifest (h ''setting''),
      usage_manifest (h ''usage''), webhook_manifest (h ''webhook''), operator_manifest (h ''operator'')])"

subsection \<open>The registered migrations and seeders\<close>

definition registered_migrations :: "string list" where
  "registered_migrations =
     [''2025_06_18_000000_create_users_table'',
      ''2025_06_18_000001_seed_default_users'',
      ''2026_04_06_000000_create_api_keys_table'',
      ''2026_04_26_000000_create_audit_logs_table'',
      ''2026_04_27_000000_create_password_reset_tokens_table'',
      ''2026_04_27_000001_add_unique_index_to_users_username'',
      ''2026_04_27_000002_add_business_fields_to_audit_logs'',
      ''2026_04_27_000003_create_authentication_sessions_table'',
      ''2026_07_14_000000_create_organizations_tables'',
      ''2026_07_15_000000_create_organization_invitations_table'',
      ''2026_07_15_010000_create_permission_tables'',
      ''2026_07_15_020000_create_notification_tables'',
      ''2026_07_15_030000_create_assets_table'',
      ''2026_07_15_040000_create_settings_table'',
      ''2026_07_15_050000_create_usage_tables'',
      ''2026_07_15_060000_create_webhook_tables'',
      ''2026_07_25_000000_add_audit_retention_index'',
      ''2026_07_31_000000_create_workflow_tasks_table'',
      ''2026_10_01_000000_create_platform_operators_table'',
      ''2026_10_02_000000_drop_notification_preferences_user_id_sequence'',
      ''2026_10_04_000000_add_audience_to_authentication_sessions'',
      ''2026_10_10_000000_add_audit_user_keyset_index'',
      ''2026_10_11_000000_create_rate_limit_buckets_table'']"

definition all_migrations :: "(string \<Rightarrow> 'g) \<Rightarrow> string \<rightharpoonup> 'g option" where
  "all_migrations body = (\<lambda>n. if n \<in> set registered_migrations then Some (Some (body n)) else None)"

definition all_seeders :: "('w \<Rightarrow> 'w \<times> string option) \<Rightarrow> 'w starter_seeder option list" where
  "all_seeders run = [Some \<lparr>sd_name = ''users'', sd_run = run\<rparr>]"

definition core_migrations :: "string list" where
  "core_migrations =
     [''2026_07_31_000000_create_workflow_tasks_table'', ''2026_10_11_000000_create_rate_limit_buckets_table'']"

definition register_core_migrations ::
  "(string \<rightharpoonup> 'g option) \<Rightarrow> ('w, 'g) starter_registry \<Rightarrow> registry_error + ('w, 'g) starter_registry" where
  "register_core_migrations migs r = each_err (register_migration_by_name migs) core_migrations r"

subsection \<open>Configuration\<close>

datatype configure_error =
    Config_required
  | Selection_failed catalog_error
  | Assembly_failed registry_error

record range_orders =
  ro_dependencies :: "string set \<Rightarrow> string list"
  ro_cycles :: "string set \<Rightarrow> string list"
  ro_selection :: "string set \<Rightarrow> string list"

text \<open>\<open>cfg\<close> is \<open>Starters.Optional\<close> of the configuration, \<open>None\<close> for a nil configuration.\<close>

definition configured_manifests ::
  "range_orders \<Rightarrow> string list option \<Rightarrow> (string \<rightharpoonup> 'm) option \<Rightarrow> configure_error + 'm starter_manifest list" where
  "configured_manifests ro cfg hs = (case cfg of
     None \<Rightarrow> Inl Config_required
   | Some names \<Rightarrow>
       (case new_starter_catalog (ro_dependencies ro) (ro_cycles ro) (map Some (default_manifests hs))
               (map Some (optional_manifests hs)) of
          Inl e \<Rightarrow> Inl (Selection_failed e)
        | Inr c \<Rightarrow>
            (case select_starters (ro_selection ro) (Some c) names of
               Inl e \<Rightarrow> Inl (Selection_failed e)
             | Inr ms \<Rightarrow> Inr ms)))"

text \<open>\<open>NewConfiguredRegistry\<close>; the migrator is its map of registered migrations, \<open>None\<close> for a nil migrator.\<close>

definition new_configured_registry ::
  "range_orders \<Rightarrow> (string \<rightharpoonup> 'g option) \<Rightarrow> 'w starter_seeder option list \<Rightarrow> string list option \<Rightarrow>
   (string \<rightharpoonup> 'g) option \<Rightarrow> (string \<rightharpoonup> 'w starter_module) option \<Rightarrow> 'w \<Rightarrow>
   configure_error + ('w, 'g) starter_registry \<times> (string \<rightharpoonup> 'g) option \<times> 'w" where
  "new_configured_registry ro migs seeders cfg migrator hs w =
     (case configured_manifests ro cfg hs of
        Inl e \<Rightarrow> Inl e
      | Inr ms \<Rightarrow>
          (case registry_from_manifests migs seeders ms w of
             Inl (e, w') \<Rightarrow> Inl (Assembly_failed e)
           | Inr (r, w') \<Rightarrow>
               (case migrator of
                  None \<Rightarrow> Inr (r, None, w')
                | Some mg \<Rightarrow>
                    (case register_core_migrations migs r of
                       Inl e \<Rightarrow> Inl (Assembly_failed e)
                     | Inr r' \<Rightarrow> Inr (r', Some (mg ++ rg_migrations r'), w')))))"

definition configured_migrations ::
  "range_orders \<Rightarrow> (string \<rightharpoonup> 'g option) \<Rightarrow> 'w starter_seeder option list \<Rightarrow> string list option \<Rightarrow> 'w \<Rightarrow>
   configure_error + (string \<rightharpoonup> 'g)" where
  "configured_migrations ro migs seeders cfg w =
     (case configured_manifests ro cfg None of
        Inl e \<Rightarrow> Inl e
      | Inr ms \<Rightarrow>
          (case registry_from_manifests migs seeders ms w of
             Inl (e, w') \<Rightarrow> Inl (Assembly_failed e)
           | Inr (r, w') \<Rightarrow>
               (case register_core_migrations migs r of
                  Inl e \<Rightarrow> Inl (Assembly_failed e)
                | Inr r' \<Rightarrow> Inr (rg_migrations r'))))"

definition configured_seeders ::
  "range_orders \<Rightarrow> (string \<rightharpoonup> 'g option) \<Rightarrow> 'w starter_seeder option list \<Rightarrow> string list option \<Rightarrow> 'w \<Rightarrow>
   configure_error + 'w starter_seeder list" where
  "configured_seeders ro migs seeders cfg w =
     (case configured_manifests ro cfg None of
        Inl e \<Rightarrow> Inl e
      | Inr ms \<Rightarrow>
          (case registry_from_manifests migs seeders ms w of
             Inl (e, w') \<Rightarrow> Inl (Assembly_failed e)
           | Inr (r, w') \<Rightarrow> Inr (rg_seeders r)))"

subsection \<open>The modules that take part in account deletion\<close>

text \<open>\<open>Activate\<close> of the organization and asset handlers registers a guard, that of the setting and usage handlers a
  cleaner. The state of the hooks is the deletion policy.\<close>

definition activate_guard :: "'s deletion_guard \<Rightarrow> 's deletion_policy \<Rightarrow> 's deletion_policy \<times> string option" where
  "activate_guard g p = (case register_guard (Some g) (Some p) of
     Inl e \<Rightarrow> (p, Some (dg_name g)) | Inr p' \<Rightarrow> (p', None))"

definition activate_cleaner :: "'s deletion_cleaner \<Rightarrow> 's deletion_policy \<Rightarrow> 's deletion_policy \<times> string option" where
  "activate_cleaner c p = (case register_cleaner (Some c) (Some p) of
     Inl e \<Rightarrow> (p, Some (dc_name c)) | Inr p' \<Rightarrow> (p', None))"

definition guarded_starters :: "string list" where "guarded_starters = [''organization'', ''asset'']"
definition cleaned_starters :: "string list" where "cleaned_starters = [''setting'', ''usage'']"

definition shipped_module ::
  "(string \<Rightarrow> 's deletion_guard) \<Rightarrow> (string \<Rightarrow> 's deletion_cleaner) \<Rightarrow>
   (string \<Rightarrow> 's deletion_policy starter_module) \<Rightarrow> string \<Rightarrow> 's deletion_policy starter_module" where
  "shipped_module g c hooks n = (hooks n)\<lparr>md_name := n,
     md_activate := (if n \<in> set guarded_starters then Some (activate_guard ((g n)\<lparr>dg_name := n\<rparr>))
                     else if n \<in> set cleaned_starters then Some (activate_cleaner ((c n)\<lparr>dc_name := n\<rparr>))
                     else None)\<rparr>"

end
