(* ===== verification/Starter_Shipped_Props.thy ===== *)
theory Starter_Shipped_Props
  imports Starter_Shipped
begin

text \<open>
  The starters that ship form a catalog, and every closed selection of them assembles: the modules in dependency
  order, each migration with one owner, every activation accepted by the account deletion policy.
\<close>

lemmas shipped_manifest_defs =
  audit_manifest_def apikey_manifest_def user_manifest_def organization_manifest_def permission_manifest_def
  notification_manifest_def asset_manifest_def setting_manifest_def usage_manifest_def webhook_manifest_def
  operator_manifest_def new_static_manifest_def with_starter_module_def with_starter_dependencies_def
  with_starter_summary_def with_starter_migrations_def with_starter_seeders_def

definition default_starter_names :: "string list" where
  "default_starter_names = [''audit'', ''apikey'', ''user'']"

definition optional_starter_names :: "string list" where
  "optional_starter_names =
     [''organization'', ''permission'', ''notification'', ''asset'', ''setting'', ''usage'', ''webhook'', ''operator'']"

text \<open>The only optional starter that other optional starters need is \<open>organization\<close>.\<close>

definition organization_users :: "string list" where
  "organization_users = [''permission'', ''setting'', ''usage'', ''webhook'']"

lemma shipped_deps:
  "sm_dependencies (audit_manifest h) = []" "sm_dependencies (apikey_manifest h) = []"
  "sm_dependencies (user_manifest h) = []" "sm_dependencies (organization_manifest h) = []"
  "sm_dependencies (permission_manifest h) = [''organization'']"
  "sm_dependencies (notification_manifest h) = [''user'', ''audit'']"
  "sm_dependencies (asset_manifest h) = [''user'', ''audit'']"
  "sm_dependencies (setting_manifest h) = [''user'', ''audit'', ''organization'']"
  "sm_dependencies (usage_manifest h) = [''user'', ''audit'', ''organization'']"
  "sm_dependencies (webhook_manifest h) = [''user'', ''audit'', ''organization'']"
  "sm_dependencies (operator_manifest h) = [''user'', ''audit'']"
  by (simp_all add: shipped_manifest_defs split: option.splits)

lemma shipped_sm_names:
  "sm_name (audit_manifest h) = ''audit''" "sm_name (apikey_manifest h) = ''apikey''"
  "sm_name (user_manifest h) = ''user''" "sm_name (organization_manifest h) = ''organization''"
  "sm_name (permission_manifest h) = ''permission''" "sm_name (notification_manifest h) = ''notification''"
  "sm_name (asset_manifest h) = ''asset''" "sm_name (setting_manifest h) = ''setting''"
  "sm_name (usage_manifest h) = ''usage''" "sm_name (webhook_manifest h) = ''webhook''"
  "sm_name (operator_manifest h) = ''operator''"
  by (simp_all add: shipped_manifest_defs split: option.splits)

lemma shipped_names:
  "starter_names (default_manifests hs) = default_starter_names"
  "starter_names (optional_manifests hs) = optional_starter_names"
  by (simp_all add: starter_names_def default_manifests_def optional_manifests_def default_starter_names_def
      optional_starter_names_def shipped_sm_names Let_def)

lemma shipped_modules:
  "sm_modules (audit_manifest h) = (case h of None \<Rightarrow> [] | Some m \<Rightarrow> [Some m])"
  "sm_modules (apikey_manifest h) = (case h of None \<Rightarrow> [] | Some m \<Rightarrow> [Some m])"
  "sm_modules (user_manifest h) = (case h of None \<Rightarrow> [] | Some m \<Rightarrow> [Some m])"
  "sm_modules (organization_manifest h) = (case h of None \<Rightarrow> [] | Some m \<Rightarrow> [Some m])"
  "sm_modules (permission_manifest h) = (case h of None \<Rightarrow> [] | Some m \<Rightarrow> [Some m])"
  "sm_modules (notification_manifest h) = (case h of None \<Rightarrow> [] | Some m \<Rightarrow> [Some m])"
  "sm_modules (asset_manifest h) = (case h of None \<Rightarrow> [] | Some m \<Rightarrow> [Some m])"
  "sm_modules (setting_manifest h) = (case h of None \<Rightarrow> [] | Some m \<Rightarrow> [Some m])"
  "sm_modules (usage_manifest h) = (case h of None \<Rightarrow> [] | Some m \<Rightarrow> [Some m])"
  "sm_modules (webhook_manifest h) = (case h of None \<Rightarrow> [] | Some m \<Rightarrow> [Some m])"
  "sm_modules (operator_manifest h) = (case h of None \<Rightarrow> [] | Some m \<Rightarrow> [Some m])"
  by (simp_all add: shipped_manifest_defs split: option.splits)

lemma manifest_deps_Cons:
  "manifest_deps [] n = []"
  "manifest_deps (m # ms) n = (if n = sm_name m then sm_dependencies m else manifest_deps ms n)"
  by (auto simp: manifest_deps_def)

lemma canonical_shipped:
  "n \<in> set (default_starter_names @ optional_starter_names) \<Longrightarrow> canonical_name n"
  by (auto simp: default_starter_names_def optional_starter_names_def canonical_name_def lower_alnum_def
      lower_letter_def digit_char_def less_eq_char_def)

lemma shipped_graph:
  "topo (manifest_deps (default_manifests hs @ optional_manifests hs))
     (rev (default_starter_names @ optional_starter_names))"
  by (simp add: default_starter_names_def optional_starter_names_def default_manifests_def optional_manifests_def
      Let_def manifest_deps_Cons shipped_deps shipped_sm_names)

lemma shipped_starters_ok: "starters_ok (default_manifests hs) (optional_manifests hs)"
proof -
  let ?ds = "default_manifests hs" and ?os = "optional_manifests hs"
  have names: "starter_names (?ds @ ?os) = default_starter_names @ optional_starter_names"
    by (simp add: starter_names_def shipped_names [unfolded starter_names_def])
  have "distinct (default_starter_names @ optional_starter_names)"
    by (simp add: default_starter_names_def optional_starter_names_def)
  moreover have "acyclic (edges (manifest_deps (?ds @ ?os)))"
    using shipped_graph by (rule topo_acyclic) (simp add: manifest_deps_out names)
  moreover have "\<forall>m \<in> set (?ds @ ?os). dependencies_ok ?ds ?os m"
    unfolding dependencies_ok_def names shipped_names
    by (simp add: default_manifests_def optional_manifests_def Let_def shipped_deps shipped_sm_names
        default_starter_names_def optional_starter_names_def canonical_name_def lower_alnum_def lower_letter_def
        digit_char_def less_eq_char_def)
  ultimately show ?thesis using canonical_shipped names by (simp add: starters_ok_def)
qed

lemma shipped_optional_deps:
  "manifest_deps (optional_manifests hs) ''organization'' = []"
  "manifest_deps (optional_manifests hs) ''permission'' = [''organization'']"
  "manifest_deps (optional_manifests hs) ''notification'' = [''user'', ''audit'']"
  "manifest_deps (optional_manifests hs) ''asset'' = [''user'', ''audit'']"
  "manifest_deps (optional_manifests hs) ''setting'' = [''user'', ''audit'', ''organization'']"
  "manifest_deps (optional_manifests hs) ''usage'' = [''user'', ''audit'', ''organization'']"
  "manifest_deps (optional_manifests hs) ''webhook'' = [''user'', ''audit'', ''organization'']"
  "manifest_deps (optional_manifests hs) ''operator'' = [''user'', ''audit'']"
  by (simp_all add: optional_manifests_def Let_def manifest_deps_Cons shipped_deps shipped_sm_names)

lemma shipped_closed:
  assumes "set names \<subseteq> set optional_starter_names"
  shows "selection_closed (optional_manifests hs) names \<longleftrightarrow>
       (set names \<inter> set organization_users \<noteq> {} \<longrightarrow> ''organization'' \<in> set names)"
proof -
  have "\<forall>n \<in> set names. \<forall>d. d \<in> set (manifest_deps (optional_manifests hs) n) \<and> d \<in> set optional_starter_names
      \<longleftrightarrow> n \<in> set organization_users \<and> d = ''organization''"
  proof
    fix n assume "n \<in> set names"
    then have "n \<in> set optional_starter_names" using assms by blast
    then show "\<forall>d. d \<in> set (manifest_deps (optional_manifests hs) n) \<and> d \<in> set optional_starter_names
        \<longleftrightarrow> n \<in> set organization_users \<and> d = ''organization''"
      unfolding optional_starter_names_def list.set insert_iff empty_iff simp_thms organization_users_def
      by (elim disjE) (auto simp: shipped_optional_deps)
  qed
  then have "selection_closed (optional_manifests hs) names \<longleftrightarrow>
      (\<forall>n \<in> set names. \<forall>d. n \<in> set organization_users \<and> d = ''organization'' \<longrightarrow> d \<in> set names)"
    unfolding selection_closed_def shipped_names by (metis (no_types, lifting))
  then show ?thesis by auto
qed

lemma shipped_sm_migrations:
  "sm_migrations (audit_manifest h) =
     [''2026_04_26_000000_create_audit_logs_table'', ''2026_04_27_000002_add_business_fields_to_audit_logs'', ''2026_07_25_000000_add_audit_retention_index'', ''2026_10_10_000000_add_audit_user_keyset_index'']"
  "sm_migrations (apikey_manifest h) =
     [''2026_04_06_000000_create_api_keys_table'']"
  "sm_migrations (user_manifest h) =
     [''2025_06_18_000000_create_users_table'', ''2026_04_27_000000_create_password_reset_tokens_table'', ''2026_04_27_000001_add_unique_index_to_users_username'', ''2026_04_27_000003_create_authentication_sessions_table'', ''2026_10_04_000000_add_audience_to_authentication_sessions'', ''2025_06_18_000001_seed_default_users'']"
  "sm_migrations (organization_manifest h) =
     [''2026_07_14_000000_create_organizations_tables'', ''2026_07_15_000000_create_organization_invitations_table'']"
  "sm_migrations (permission_manifest h) =
     [''2026_07_15_010000_create_permission_tables'']"
  "sm_migrations (notification_manifest h) =
     [''2026_07_15_020000_create_notification_tables'', ''2026_10_02_000000_drop_notification_preferences_user_id_sequence'']"
  "sm_migrations (asset_manifest h) =
     [''2026_07_15_030000_create_assets_table'']"
  "sm_migrations (setting_manifest h) =
     [''2026_07_15_040000_create_settings_table'']"
  "sm_migrations (usage_manifest h) =
     [''2026_07_15_050000_create_usage_tables'']"
  "sm_migrations (webhook_manifest h) =
     [''2026_07_15_060000_create_webhook_tables'']"
  "sm_migrations (operator_manifest h) =
     [''2026_10_01_000000_create_platform_operators_table'']"
  by (simp_all add: shipped_manifest_defs split: option.splits)

subsection \<open>Assembling them\<close>

definition starter_migrations :: "string list" where
  "starter_migrations =
     [''2026_04_26_000000_create_audit_logs_table'',
      ''2026_04_27_000002_add_business_fields_to_audit_logs'',
      ''2026_07_25_000000_add_audit_retention_index'',
      ''2026_10_10_000000_add_audit_user_keyset_index'',
      ''2026_04_06_000000_create_api_keys_table'',
      ''2025_06_18_000000_create_users_table'',
      ''2026_04_27_000000_create_password_reset_tokens_table'',
      ''2026_04_27_000001_add_unique_index_to_users_username'',
      ''2026_04_27_000003_create_authentication_sessions_table'',
      ''2026_10_04_000000_add_audience_to_authentication_sessions'',
      ''2025_06_18_000001_seed_default_users'',
      ''2026_07_14_000000_create_organizations_tables'',
      ''2026_07_15_000000_create_organization_invitations_table'',
      ''2026_07_15_010000_create_permission_tables'',
      ''2026_07_15_020000_create_notification_tables'',
      ''2026_10_02_000000_drop_notification_preferences_user_id_sequence'',
      ''2026_07_15_030000_create_assets_table'',
      ''2026_07_15_040000_create_settings_table'',
      ''2026_07_15_050000_create_usage_tables'',
      ''2026_07_15_060000_create_webhook_tables'',
      ''2026_10_01_000000_create_platform_operators_table'']"

lemma shipped_migrations:
  "concat (map sm_migrations (default_manifests hs @ optional_manifests hs)) = starter_migrations"
  by (simp add: starter_migrations_def default_manifests_def optional_manifests_def Let_def shipped_sm_migrations)

lemma starter_migrations_registered:
  "set (starter_migrations @ core_migrations) = set registered_migrations"
  "distinct (starter_migrations @ core_migrations)"
  by code_simp+

lemma shipped_seeders:
  "concat (map sm_seeders (default_manifests hs @ optional_manifests hs)) = [''users'']"
proof -
  have "sm_seeders (audit_manifest h) = []" "sm_seeders (apikey_manifest h) = []" "sm_seeders (user_manifest h) = [''users'']"
    "sm_seeders (organization_manifest h) = []" "sm_seeders (permission_manifest h) = []"
    "sm_seeders (notification_manifest h) = []" "sm_seeders (asset_manifest h) = []" "sm_seeders (setting_manifest h) = []"
    "sm_seeders (usage_manifest h) = []" "sm_seeders (webhook_manifest h) = []" "sm_seeders (operator_manifest h) = []"
    for h :: "'a option"
    by (simp_all add: shipped_manifest_defs split: option.splits)
  then show ?thesis by (simp add: default_manifests_def optional_manifests_def Let_def)
qed

text \<open>The modules of the program, or none.\<close>

definition shipped_handlers ::
  "(string \<Rightarrow> 's deletion_guard) \<Rightarrow> (string \<Rightarrow> 's deletion_cleaner) \<Rightarrow>
   (string \<Rightarrow> 's deletion_policy starter_module) \<Rightarrow> string \<rightharpoonup> 's deletion_policy starter_module" where
  "shipped_handlers g c hooks = (\<lambda>n. Some (shipped_module g c hooks n))"

lemma shipped_module_name [simp]: "md_name (shipped_module g c hooks n) = n"
  by (simp add: shipped_module_def)

lemma shipped_manifest_module:
  assumes "mf \<in> set (default_manifests (Some h) @ optional_manifests (Some h))"
  shows "sm_modules mf = (case h (sm_name mf) of None \<Rightarrow> [] | Some m \<Rightarrow> [Some m])"
  using assms
  by (auto simp: default_manifests_def optional_manifests_def Let_def or_metadata_only_def shipped_modules shipped_sm_names)

lemma shipped_handler_modules:
  assumes "set ms \<subseteq> set (default_manifests (Some (shipped_handlers g c hooks)) @ optional_manifests (Some (shipped_handlers g c hooks)))"
  shows "concat (map manifest_modules ms) = map (shipped_module g c hooks) (map sm_name ms)"
  using assms shipped_manifest_module [of _ "shipped_handlers g c hooks"]
  by (induction ms) (auto simp: shipped_handlers_def)

text \<open>The whole catalog fits together, so every part of it does.\<close>

lemma shipped_assembly_ok:
  assumes hs_def: "hs = Some (shipped_handlers g c hooks)"
  shows "assembly_ok (all_migrations body) (all_seeders run) (default_manifests hs @ optional_manifests hs)"
proof -
  let ?ms = "default_manifests hs @ optional_manifests hs"
  have names: "map sm_name ?ms = default_starter_names @ optional_starter_names"
    by (simp add: shipped_names [unfolded starter_names_def])
  have mods: "concat (map manifest_modules ?ms) = map (shipped_module g c hooks) (map sm_name ?ms)"
    unfolding hs_def by (rule shipped_handler_modules) simp
  have mod_names: "concat (map (\<lambda>mf. map md_name (manifest_modules mf)) ?ms) = map sm_name ?ms"
  proof -
    have "concat (map (\<lambda>mf. map md_name (manifest_modules mf)) ?ms) = map md_name (concat (map manifest_modules ?ms))"
      by (simp add: map_concat comp_def)
    then show ?thesis unfolding mods by simp
  qed
  have distinct: "distinct (map sm_name ?ms)"
    unfolding names by (simp add: default_starter_names_def optional_starter_names_def)
  have canonical: "canonical_name n" if "n \<in> set (map sm_name ?ms)" for n
    using that unfolding names by (rule canonical_shipped)
  have migs: "\<forall>n \<in> set starter_migrations. n \<noteq> '''' \<and> (\<exists>g. all_migrations body n = Some (Some g))"
  proof
    fix n assume n: "n \<in> set starter_migrations"
    then have "n \<in> set registered_migrations" using starter_migrations_registered(1) by auto
    moreover have "n \<noteq> ''''" using n by (auto simp: starter_migrations_def)
    ultimately show "n \<noteq> '''' \<and> (\<exists>g. all_migrations body n = Some (Some g))" by (simp add: all_migrations_def)
  qed
  have "seeder_table (all_seeders run) ''users'' \<noteq> None"
    by (simp add: seeder_table_def all_seeders_def List.map_filter_simps)
  moreover have "None \<notin> set (sm_modules mf)" if "mf \<in> set ?ms" for mf
    using that shipped_manifest_module [of mf "shipped_handlers g c hooks"] unfolding hs_def
    by (auto simp: shipped_handlers_def)
  moreover have "distinct starter_migrations" using starter_migrations_registered(2) by simp
  ultimately show ?thesis
    unfolding assembly_ok_def mods mod_names shipped_migrations shipped_seeders
    using distinct canonical migs by auto
qed

subsection \<open>Activation\<close>

lemma trim_shipped: "n \<in> set (default_starter_names @ optional_starter_names) \<Longrightarrow> trim_space n = n \<and> n \<noteq> ''''"
  using canonical_nameD canonical_shipped by blast

lemma activate_shipped:
  assumes "distinct ns" and "set ns \<subseteq> set (default_starter_names @ optional_starter_names)"
    and "set ns \<inter> dp_guardNames p = {}" and "set ns \<inter> dp_cleanerNames p = {}"
  shows "\<exists>p'. activate_modules (map (shipped_module g c hooks) ns) p = (p', None)
    \<and> dp_guardNames p' = dp_guardNames p \<union> (set ns \<inter> set guarded_starters)
    \<and> dp_cleanerNames p' = dp_cleanerNames p \<union> (set ns \<inter> set cleaned_starters)"
  using assms
proof (induction ns arbitrary: p)
  case (Cons n ns)
  have trim: "trim_space n = n" "n \<noteq> ''''" using trim_shipped [of n] Cons.prems(2) by auto
  have disj: "n \<in> set guarded_starters \<Longrightarrow> n \<notin> set cleaned_starters"
    by (auto simp: guarded_starters_def cleaned_starters_def)
  obtain q where q: "activate_modules [shipped_module g c hooks n] p = (q, None)"
    "dp_guardNames q = dp_guardNames p \<union> ({n} \<inter> set guarded_starters)"
    "dp_cleanerNames q = dp_cleanerNames p \<union> ({n} \<inter> set cleaned_starters)"
  proof (cases "n \<in> set guarded_starters")
    case True
    with that Cons.prems trim disj show thesis
      by (simp add: shipped_module_def activate_guard_def register_guard_def Let_def)
  next
    case False
    show thesis
    proof (cases "n \<in> set cleaned_starters")
      case True
      with that False Cons.prems trim show thesis
        by (simp add: shipped_module_def activate_cleaner_def register_cleaner_def Let_def)
    next
      case other: False
      with that False show thesis by (simp add: shipped_module_def)
    qed
  qed
  have "set ns \<inter> dp_guardNames q = {}" "set ns \<inter> dp_cleanerNames q = {}" using Cons.prems q by auto
  then obtain p' where "activate_modules (map (shipped_module g c hooks) ns) q = (p', None)"
    "dp_guardNames p' = dp_guardNames q \<union> (set ns \<inter> set guarded_starters)"
    "dp_cleanerNames p' = dp_cleanerNames q \<union> (set ns \<inter> set cleaned_starters)"
    using Cons.IH [of q] Cons.prems by auto
  with q show ?case
    using activate_append [of "[shipped_module g c hooks n]" "map (shipped_module g c hooks) ns" p] by auto
qed simp

end
