(* ===== verification/Starter_Props.thy ===== *)
theory Starter_Props
  imports Starter_Shipped_Props
begin

text \<open>
  The properties of the starter catalog and registry: what a catalog accepts, the order and completeness of a
  selection, the closure that the resolver computes, the consistency of every registry the operations can build,
  and the assembly of the program's own starters from any valid configuration.
\<close>

text \<open>C26: \<open>NewCatalog\<close> accepts exactly the manifests whose names are canonical and distinct and whose dependencies
  are canonical, known, free of repetition and of cycles, with defaults depending on defaults only; the catalog it
  returns does not depend on the order in which Go visits its maps.\<close>

theorem starter_catalog_accepts:
  assumes "go_range ord" and "go_range ord'"
  shows "new_starter_catalog ord ord' ms ns = Inr c \<longleftrightarrow>
    (\<exists>ds os. ms = map Some ds \<and> ns = map Some os \<and> starters_ok ds os \<and> c = catalog_of ds os)"
  using assms by (rule new_starter_catalog_iff)

theorem starter_catalog_accepts_witness:
  "new_starter_catalog sorted_list_of_set sorted_list_of_set (map Some (default_manifests (None :: (string \<rightharpoonup> unit) option)))
     (map Some (optional_manifests None)) = Inr (catalog_of (default_manifests None) (optional_manifests None))"
  using starter_catalog_accepts [OF go_range_sorted go_range_sorted,
      of "map Some (default_manifests (None :: (string \<rightharpoonup> unit) option))" "map Some (optional_manifests None)"
        "catalog_of (default_manifests None) (optional_manifests None)"]
    shipped_starters_ok [of None] by blast

text \<open>C27: \<open>Select\<close> accepts a list of distinct optional starters exactly when it is closed under optional
  dependencies, and then returns the defaults followed by the selected starters, each once and after everything it
  depends on.\<close>

theorem starter_selection_in_order:
  assumes "starters_ok ds os" and "go_range ord"
  shows "(case select_starters ord (Some (catalog_of ds os)) names of
      Inl e \<Rightarrow> \<not> (optional_ok os names \<and> selection_closed os names)
    | Inr ms \<Rightarrow> optional_ok os names \<and> selection_closed os names
        \<and> (\<exists>ns. ms = ds @ manifests_named os ns \<and> set ns = set names \<and> dependencies_first os ns))"
proof (cases "select_starters ord (Some (catalog_of ds os)) names")
  case (Inl e)
  then show ?thesis using selection_correct(1) [OF assms, of names] by auto
next
  case (Inr ms)
  then show ?thesis using selection_correct [OF assms, of names] by auto
qed

theorem starter_selection_in_order_witness:
  "case select_starters sorted_list_of_set
      (Some (catalog_of (default_manifests (None :: (string \<rightharpoonup> unit) option)) (optional_manifests None))) [''webhook''] of
      Inl e \<Rightarrow> \<not> (optional_ok (optional_manifests (None :: (string \<rightharpoonup> unit) option)) [''webhook'']
                \<and> selection_closed (optional_manifests (None :: (string \<rightharpoonup> unit) option)) [''webhook''])
    | Inr ms \<Rightarrow> optional_ok (optional_manifests (None :: (string \<rightharpoonup> unit) option)) [''webhook'']
        \<and> selection_closed (optional_manifests (None :: (string \<rightharpoonup> unit) option)) [''webhook'']
        \<and> (\<exists>ns. ms = default_manifests None @ manifests_named (optional_manifests None) ns
            \<and> set ns = set [''webhook''] \<and> dependencies_first (optional_manifests (None :: (string \<rightharpoonup> unit) option)) ns)"
  by (rule starter_selection_in_order [OF shipped_starters_ok go_range_sorted])

text \<open>C28: \<open>ResolveOptional\<close> adds to a list of distinct optional starters exactly what they need, directly or not, in
  an order that \<open>Select\<close> accepts and keeps.\<close>

theorem starter_resolution_closes:
  assumes "starters_ok ds os" and "go_range ord" and "optional_ok os names"
  shows "\<exists>ns. resolve_optional (Some (catalog_of ds os)) names = Inr ns
    \<and> set ns = optional_closure os names \<and> dependencies_first os ns
    \<and> select_starters ord (Some (catalog_of ds os)) ns = Inr (ds @ manifests_named os ns)"
  using resolution_correct [OF assms] by metis

theorem starter_resolution_closes_witness:
  "\<exists>ns. resolve_optional (Some (catalog_of (default_manifests (None :: (string \<rightharpoonup> unit) option)) (optional_manifests None)))
       [''webhook'', ''operator''] = Inr ns
    \<and> set ns = optional_closure (optional_manifests (None :: (string \<rightharpoonup> unit) option)) [''webhook'', ''operator'']
    \<and> dependencies_first (optional_manifests (None :: (string \<rightharpoonup> unit) option)) ns
    \<and> select_starters sorted_list_of_set
        (Some (catalog_of (default_manifests (None :: (string \<rightharpoonup> unit) option)) (optional_manifests None))) ns
      = Inr (default_manifests None @ manifests_named (optional_manifests None) ns)"
  by (rule starter_resolution_closes [OF shipped_starters_ok go_range_sorted])
    (simp add: optional_ok_def shipped_names optional_starter_names_def)

subsection \<open>Every registry the operations build\<close>

inductive built_registry ::
  "(string \<rightharpoonup> 'g option) \<Rightarrow> 'w starter_seeder option list \<Rightarrow> ('w, 'g) starter_registry \<Rightarrow> bool"
  for migs seeders where
  built_new: "built_registry migs seeders new_registry"
| built_module: "built_registry migs seeders r \<Longrightarrow> built_registry migs seeders (register_module m r)"
| built_migration: "built_registry migs seeders r \<Longrightarrow> built_registry migs seeders (register_migration n g r)"
| built_seeder: "built_registry migs seeders r \<Longrightarrow> built_registry migs seeders (register_seeder sd r)"
| built_migration_name: "built_registry migs seeders r \<Longrightarrow> register_migration_by_name migs n r = Inr r' \<Longrightarrow>
    built_registry migs seeders r'"
| built_seeder_name: "built_registry migs seeders r \<Longrightarrow> register_seeder_by_name sds n r = Inr r' \<Longrightarrow>
    built_registry migs seeders r'"
| built_manifest: "built_registry migs seeders r \<Longrightarrow> apply_manifest migs seeders mf (r, w) = Inr (r', w') \<Longrightarrow>
    built_registry migs seeders r'"

text \<open>C34: In every registry the operations can build, module, migration and seeder names are unique, each has one
  recorded owner, and every owner is an applied starter or a direct registration.\<close>

theorem registry_stays_consistent: "built_registry migs seeders r \<Longrightarrow> registry_ok r"
  by (induction rule: built_registry.induct)
    (auto intro: registry_ok_new registry_ok_module registry_ok_migration registry_ok_seeder registry_ok_by_name
      registry_ok_apply)

theorem registry_stays_consistent_witness:
  "registry_ok (register_migration ''m1'' (Some (7::nat)) (register_migration ''m1'' (Some 5) (new_registry :: (unit, nat) starter_registry)))"
  by (rule registry_stays_consistent [of Map.empty "[]"]) (intro built_migration built_new)

subsection \<open>The configured registry\<close>

lemma named_in: "set ns \<subseteq> set (starter_names os) \<Longrightarrow> set (manifests_named os ns) \<subseteq> set os
    \<and> map sm_name (manifests_named os ns) = ns"
proof -
  assume sub: "set ns \<subseteq> set (starter_names os)"
  have "\<exists>m. find (\<lambda>m. sm_name m = n) os = Some m" if "n \<in> set ns" for n
    using that sub find_name_iff [of n os] by auto
  then have "the (find (\<lambda>m. sm_name m = n) os) \<in> set os \<and> sm_name (the (find (\<lambda>m. sm_name m = n) os)) = n"
    if "n \<in> set ns" for n
    using that find_key_Some by (metis (mono_tags, lifting) option.sel)
  then show ?thesis by (auto simp: manifests_named_def map_idI)
qed

lemma core_registered:
  assumes "\<forall>n \<in> set core_migrations. rg_migrationOwners r n = None"
  shows "\<exists>r'. register_core_migrations (all_migrations body) r = Inr r'
    \<and> rg_starters r' = rg_starters r \<and> rg_modules r' = rg_modules r \<and> rg_seeders r' = rg_seeders r
    \<and> dom (rg_migrations r') = dom (rg_migrations r) \<union> set core_migrations \<and> (registry_ok r \<longrightarrow> registry_ok r')"
proof -
  have one: "register_migration_by_name (all_migrations body) n r = Inr (register_migration n (Some (body n)) r)"
    if "n \<in> set core_migrations" "rg_migrationOwners r n = None" for n r
  proof -
    have "n \<in> set registered_migrations" using that(1) starter_migrations_registered(1) by auto
    moreover have "n \<noteq> ''''" using that(1) by (auto simp: core_migrations_def)
    ultimately show ?thesis using that(2) by (simp add: register_migration_by_name_def all_migrations_def)
  qed
  obtain a b where ab: "core_migrations = [a, b]" "a \<noteq> b" "a \<noteq> ''''" "b \<noteq> ''''" by (simp add: core_migrations_def)
  let ?r1 = "register_migration a (Some (body a)) r" and ?r2 = "register_migration b (Some (body b)) (register_migration a (Some (body a)) r)"
  have core: "a \<in> set core_migrations" "b \<in> set core_migrations" by (simp_all add: ab(1))
  have "register_migration_by_name (all_migrations body) a r = Inr ?r1"
    by (rule one [OF core(1)]) (rule bspec [OF assms core(1)])
  moreover have "rg_migrationOwners ?r1 b = None" using ab(2) assms core by (simp add: register_migration_def)
  then have "register_migration_by_name (all_migrations body) b ?r1 = Inr ?r2" by (rule one [OF core(2)])
  ultimately have run: "register_core_migrations (all_migrations body) r = Inr ?r2" by (simp add: register_core_migrations_def ab)
  have fields: "rg_starters (register_migration n (Some x) q) = rg_starters q"
    "rg_modules (register_migration n (Some x) q) = rg_modules q" "rg_seeders (register_migration n (Some x) q) = rg_seeders q"
    "n \<noteq> '''' \<Longrightarrow> rg_migrationOwners q n = None \<Longrightarrow>
       dom (rg_migrations (register_migration n (Some x) q)) = insert n (dom (rg_migrations q))" for n x q
    by (simp_all add: register_migration_def)
  have "dom (rg_migrations ?r2) = dom (rg_migrations r) \<union> set core_migrations"
  proof -
    have "rg_migrationOwners r a = None" by (rule bspec [OF assms core(1)])
    then have "dom (rg_migrations ?r1) = insert a (dom (rg_migrations r))" by (rule fields(4) [OF ab(3)])
    moreover have "dom (rg_migrations ?r2) = insert b (dom (rg_migrations ?r1))"
      by (rule fields(4) [OF ab(4) \<open>rg_migrationOwners ?r1 b = None\<close>])
    moreover have "set core_migrations = {a, b}" by (simp add: ab(1))
    ultimately show ?thesis by auto
  qed
  moreover have "registry_ok r \<longrightarrow> registry_ok ?r2" using registry_ok_migration by blast
  ultimately show ?thesis by (simp add: run fields(1-3))
qed

text \<open>C17: From every configuration that lists distinct optional starters and includes \<open>organization\<close> when one of its
  dependents is listed, the program's registry assembles: the default starters, then the listed ones after their
  dependencies, one module each, the migrations of those starters and of the core with one owner each, and the
  account deletion policy holding the participants of the listed starters.\<close>

theorem configured_registry_assembles:
  assumes "go_range (ro_dependencies ro)" "go_range (ro_cycles ro)" "go_range (ro_selection ro)"
    and "distinct names" "set names \<subseteq> set optional_starter_names"
    and "set names \<inter> set organization_users \<noteq> {} \<longrightarrow> ''organization'' \<in> set names"
  shows "\<exists>ns r p. new_configured_registry ro (all_migrations body) (all_seeders run) (Some names) (Some Map.empty)
        (Some (shipped_handlers g c hooks)) new_deletion_policy = Inr (r, Some (rg_migrations r), p)
    \<and> set ns = set names \<and> distinct ns
    \<and> dependencies_first (optional_manifests (Some (shipped_handlers g c hooks))) ns
    \<and> rg_starters r = default_starter_names @ ns \<and> map md_name (rg_modules r) = default_starter_names @ ns
    \<and> set core_migrations \<subseteq> dom (rg_migrations r) \<and> dom (rg_migrations r) \<subseteq> set registered_migrations \<and> registry_ok r
    \<and> dp_guardNames p = set names \<inter> set guarded_starters \<and> dp_cleanerNames p = set names \<inter> set cleaned_starters"
proof -
  let ?hs = "Some (shipped_handlers g c hooks)"
  let ?ds = "default_manifests ?hs" and ?os = "optional_manifests ?hs"
  let ?m = "all_migrations body" and ?sd = "all_seeders run"
  have ok: "starters_ok ?ds ?os" by (rule shipped_starters_ok)
  have cat: "new_starter_catalog (ro_dependencies ro) (ro_cycles ro) (map Some ?ds) (map Some ?os) = Inr (catalog_of ?ds ?os)"
    using new_starter_catalog_iff [OF assms(1, 2)] ok by blast
  have valid: "optional_ok ?os names" using assms(4, 5) by (simp add: optional_ok_def shipped_names)
  have "selection_closed ?os names" using shipped_closed [OF assms(5)] assms(6) by blast
  then obtain ms where sel: "select_starters (ro_selection ro) (Some (catalog_of ?ds ?os)) names = Inr ms"
    using selection_correct(1) [OF ok assms(3)] valid by blast
  then obtain ns where ns: "ms = ?ds @ manifests_named ?os ns" "set ns = set names" "dependencies_first ?os ns"
    using selection_correct(2) [OF ok assms(3)] by blast
  have dist: "distinct ns" using ns(3) by (simp add: dependencies_first_def)
  have conf: "configured_manifests ro (Some names) ?hs = Inr ms"
    by (simp add: configured_manifests_def cat sel)
  have sub: "set (manifests_named ?os ns) \<subseteq> set ?os" and mnames: "map sm_name (manifests_named ?os ns) = ns"
    using named_in [of ns ?os] ns(2) assms(5) by (auto simp: shipped_names)
  have names: "map sm_name ms = default_starter_names @ ns"
    using ns(1) mnames by (simp add: shipped_names [unfolded starter_names_def])
  have disjoint: "distinct (default_starter_names @ ns)"
    using dist ns(2) assms(5) by (auto simp: default_starter_names_def optional_starter_names_def)
  have asm: "assembly_ok ?m ?sd ms"
    by (rule assembly_subset [OF shipped_assembly_ok [OF refl]]) (use ns(1) sub names disjoint in auto)
  have mods: "concat (map manifest_modules ms) = map (shipped_module g c hooks) (default_starter_names @ ns)"
  proof -
    have "set ms \<subseteq> set (?ds @ ?os)" using ns(1) sub by auto
    then have "concat (map manifest_modules ms) = map (shipped_module g c hooks) (map sm_name ms)"
      by (rule shipped_handler_modules)
    then show ?thesis unfolding names .
  qed
  obtain p where p: "activate_modules (concat (map manifest_modules ms)) new_deletion_policy = (p, None)"
    "dp_guardNames p = set (default_starter_names @ ns) \<inter> set guarded_starters"
    "dp_cleanerNames p = set (default_starter_names @ ns) \<inter> set cleaned_starters"
    using activate_shipped [OF disjoint, of new_deletion_policy g c hooks] mods ns(2) assms(5)
    by (auto simp: new_deletion_policy_def)
  let ?r = "assembled ?m ?sd ms"
  have reg: "registry_from_manifests ?m ?sd ms new_deletion_policy = Inr (?r, p)"
    using asm p(1) by (simp add: registry_from_manifests_iff)
  have "set (concat (map sm_migrations ms)) \<subseteq> set starter_migrations"
  proof -
    have "set ms \<subseteq> set (?ds @ ?os)" using ns(1) sub by auto
    then have "set (concat (map sm_migrations ms)) \<subseteq> set (concat (map sm_migrations (?ds @ ?os)))"
      unfolding set_concat set_map by blast
    then show ?thesis unfolding shipped_migrations .
  qed
  then have free: "\<forall>n \<in> set core_migrations. rg_migrationOwners ?r n = None"
    and within: "dom (rg_migrations ?r) \<subseteq> set starter_migrations"
    using starter_migrations_registered(2) by (auto simp: assembled_fields split: if_splits)
  obtain r where r: "register_core_migrations ?m ?r = Inr r" "rg_starters r = rg_starters ?r" "rg_modules r = rg_modules ?r"
    "dom (rg_migrations r) = dom (rg_migrations ?r) \<union> set core_migrations" "registry_ok r"
    using core_registered [OF free, of body] registry_ok_assembled [OF asm] by blast
  have run: "new_configured_registry ro ?m ?sd (Some names) (Some Map.empty) ?hs new_deletion_policy
      = Inr (r, Some (rg_migrations r), p)"
    by (simp add: new_configured_registry_def conf reg r(1))
  have "rg_starters r = default_starter_names @ ns" using r(2) names by (simp add: assembled_fields)
  moreover have "map md_name (rg_modules r) = default_starter_names @ ns"
    using r(3) mods by (simp add: assembled_fields comp_def)
  moreover have "dom (rg_migrations r) \<subseteq> set registered_migrations"
    using r(4) within starter_migrations_registered(1) by auto
  moreover have "set default_starter_names \<inter> set guarded_starters = {}" "set default_starter_names \<inter> set cleaned_starters = {}"
    by (simp_all add: default_starter_names_def guarded_starters_def cleaned_starters_def)
  then have "dp_guardNames p = set names \<inter> set guarded_starters" "dp_cleanerNames p = set names \<inter> set cleaned_starters"
    using p(2, 3) ns(2) by auto
  ultimately show ?thesis using run ns(2, 3) dist r(4, 5) by blast
qed

definition idle_guard :: "string \<Rightarrow> unit deletion_guard" where
  "idle_guard n = \<lparr>dg_name = n, dg_check = \<lambda>s u. None\<rparr>"
definition idle_cleaner :: "string \<Rightarrow> unit deletion_cleaner" where
  "idle_cleaner n = \<lparr>dc_name = n, dc_clean = \<lambda>s u. (s, None)\<rparr>"
definition idle_module :: "string \<Rightarrow> unit deletion_policy starter_module" where
  "idle_module n = \<lparr>md_name = n, md_activate = None, md_shutdown = None, md_routes = None, md_middleware = None,
     md_errors = None, md_events = None\<rparr>"

theorem configured_registry_assembles_witness:
  "\<exists>ns r p. new_configured_registry \<lparr>ro_dependencies = sorted_list_of_set, ro_cycles = sorted_list_of_set,
        ro_selection = sorted_list_of_set\<rparr> (all_migrations id) (all_seeders (\<lambda>w. (w, None))) (Some [''webhook'', ''organization''])
        (Some Map.empty) (Some (shipped_handlers idle_guard idle_cleaner idle_module)) new_deletion_policy = Inr (r, Some (rg_migrations r), p)
    \<and> set ns = set [''webhook'', ''organization''] \<and> distinct ns
    \<and> dependencies_first (optional_manifests (Some (shipped_handlers idle_guard idle_cleaner idle_module))) ns
    \<and> rg_starters r = default_starter_names @ ns \<and> map md_name (rg_modules r) = default_starter_names @ ns
    \<and> set core_migrations \<subseteq> dom (rg_migrations r) \<and> dom (rg_migrations r) \<subseteq> set registered_migrations \<and> registry_ok r
    \<and> dp_guardNames p = set [''webhook'', ''organization''] \<inter> set guarded_starters
    \<and> dp_cleanerNames p = set [''webhook'', ''organization''] \<inter> set cleaned_starters"
  by (rule configured_registry_assembles)
    (simp_all add: go_range_sorted optional_starter_names_def)

end
