(* ===== verification/Spec2Isabelle.thy ===== *)
theory Spec2Isabelle
  imports Memory_Driver_Signals Cache_Properties Worker_Props Rate_Limit_Props Queue_Manager
    Workflow_Manager Scheduler_Props Event_Store Usage_Props Pagination_Props Cursor_Pagination Webhook_Props
    Starter_Props
begin

text \<open>
  This library models the core of the Go API under \<open>src/api\<close> and proves what makes it correct: the workflow
  queues and their workers, the cache, the rate limiter, the scheduler, the event bus, the usage meter,
  pagination and the webhook outbox. Definitions follow the source function by function; structs are
  records, errors are values of sum types, and database tables are lists of rows.

  \<^bold>\<open>How the parts interact.\<close> Modules hand work to the queue manager, which encodes a job and pushes it to a
  driver: the in-process memory driver or the durable task table. A worker claims tasks from the table, runs
  their handlers and acknowledges them. The scheduler and the workflow manager run tasks in process. The usage
  meter and the webhook outbox are tables of their own with a service in front; the outbox fans an event out
  into deliveries and a dispatcher sends them to targets that the network policy admits. Cache, rate limiter
  and event bus are shared in-process stores; the pagination package serves the listings.

  \<^bold>\<open>Theories and sources.\<close>
  \<^item> \<open>Prelude\<close>, \<open>Utf8_Text\<close>, \<open>Url_Query\<close>, \<open>Usage_Period\<close>: shared vocabulary; Go strings as UTF-8 text; \<open>strconv\<close>
    and \<open>net/url\<close> query strings; the Gregorian calendar.
  \<^item> \<open>Workflow_Types\<close>, \<open>Ring_Queue\<close>, \<open>Memory_Driver\<close>, \<open>Memory_Driver_Conc\<close>, \<open>Memory_Driver_Signals\<close>
    (\<open>capabilities/workflow/queue.go\<close>): the bounded ring buffer, the operations of \<open>MemoryDriver\<close>, their
    interleavings by any number of goroutines, and the wake-up signals. The locale of a bounded queue is
    interpreted on the ring buffer.
  \<^item> \<open>Queue_Manager\<close> (\<open>queue.go\<close>): drivers by name, dispatch with options, the synchronous driver.
  \<^item> \<open>Task_Store\<close>, \<open>Task_Store_Inv\<close>, \<open>Task_Store_Props\<close> (\<open>postgres.go\<close>, \<open>postgres_operations.go\<close>): the task
    table, its statements as a step relation, and ownership, fencing, recovery and idempotence.
  \<^item> \<open>Worker\<close>, \<open>Worker_Props\<close> (\<open>worker.go\<close>): one poll of a worker, its loop and its life cycle.
  \<^item> \<open>Workflow_Manager\<close> (\<open>workflow.go\<close>, \<open>bootstrap.go\<close>), \<open>Scheduler\<close>, \<open>Scheduler_Props\<close> (\<open>scheduler.go\<close>).
  \<^item> \<open>Linked_List\<close>, \<open>Cache_Memory\<close>, \<open>Cache_Refinement\<close>, \<open>Cache_Properties\<close> (\<open>infra/cache/memory.go\<close>,
    \<open>store.go\<close>): the heap of list elements of \<open>container/list\<close> refines a list of items, the most recent first.
  \<^item> \<open>Rate_Limit\<close>, \<open>Rate_Limit_Props\<close> (\<open>infra/ratelimit/limiter.go\<close>).
  \<^item> \<open>Event_Pattern\<close>, \<open>Event_Bus\<close>, \<open>Event_Store\<close> (\<open>infra/events\<close>).
  \<^item> \<open>Usage_Store\<close>, \<open>Usage_Store_Inv\<close>, \<open>Usage_Service\<close>, \<open>Usage_World\<close>, \<open>Usage_Props\<close> (\<open>modules/usage\<close>).
  \<^item> \<open>Pagination\<close>, \<open>Pagination_Props\<close>, \<open>Cursor_Pagination\<close> (\<open>pkg/pagination\<close>).
  \<^item> \<open>Webhook_Target\<close>, \<open>Webhook_Store\<close> (\<open>modules/webhook\<close>: \<open>target.go\<close>, \<open>model.go\<close>, \<open>repository.go\<close>): the network
    policy on machine words, and the outbox tables with every operation of the repository.

  \<^bold>\<open>What the lemmas show.\<close> Each stateful component has an invariant preserved by every operation and proved of
  every reachable state; the \<open>_Props\<close> theories derive from it what callers rely on. The ring buffer, the cache
  and the publication order of the bus refine list specifications. Where a client needs only a contract of its
  provider, the contract is a locale, interpreted on the provider's definitions.

  \<^bold>\<open>Conventions and bounds.\<close> Instants and durations are nanosecond counts. A machine integer is a word, or a number
  with the wrap-around written out where a run of the program can reach the width; version numbers, which rise by
  one per change of a row, are numbers. Statements of a database run one after the other, an operation under its
  row locks is one step, and \<open>flt k\<close> is the failure of the \<open>k\<close>-th statement, so that every error path is a branch.
  Loops that always end are recursive functions; the retry loop and the polling loop have their bounds as
  theorems. Only the client that follows cursors takes fuel, and its theorem shows how many rounds are enough.

  \<^bold>\<open>Parameters.\<close> JSON, SHA-256, UUIDs, the contexts' deadlines, handlers, the resolver and the dialer, and
  \<open>net/url\<close>'s parser are arguments of the definitions. What the proofs need of them is a named hypothesis:
  a fresh UUID, braces around a JSON object, 64 digits of a hash, a decoder that reads back what was encoded.

  \<^bold>\<open>Not modelled.\<close> HTTP handlers, routes, console commands, code generators, configuration loading, logging, metrics
  and the TypeScript applications are input and output around this core; the Redis and PostgreSQL rate limiters,
  the sender of the webhooks, and the modules for users, organizations, permissions, settings, notifications,
  assets and audit are further components of the same kind.
\<close>

end
